(* ===== verification/Blue_Prelude.thy ===== *)
theory Blue_Prelude
  imports Main "HOL-Library.Word" "HOL-Library.Monad_Syntax"
begin

text \<open>
  What the components share: the C integer types as words, \<open>size_t\<close> arithmetic with its
  wrap-around, byte buffers whose accesses are checked (an access outside the buffer is the value
  \<^const>\<open>None\<close>, which stands for the undefined behaviour of the C program), the byte orders
  the code uses, and the lemmas about them that the component theories use. \<open>buf_simps\<close> collects the rules that evaluate buffer accesses,
  \<open>byte_order\<close> those that read back what was stored in a byte order.
\<close>

unbundle bit_operations_syntax

named_theorems buf_simps \<open>evaluation of checked buffer accesses\<close>
named_theorems byte_order \<open>reading back stored integers\<close>

type_synonym u8 = "8 word"
type_synonym u16 = "16 word"
type_synonym u32 = "32 word"
type_synonym u64 = "64 word"

section \<open>Sizes\<close>

text \<open>
  A \<open>size_t\<close> is a natural number below \<open>2 ^ 64\<close>; its subtraction and addition wrap.
\<close>

definition size_sub :: "nat \<Rightarrow> nat \<Rightarrow> nat" where
  "size_sub a b = (if b \<le> a then a - b else 2 ^ 64 + a - b)"

definition size_add :: "nat \<Rightarrow> nat \<Rightarrow> nat" where
  "size_add a b = (a + b) mod 2 ^ 64"

lemma size_sub_le [simp]: "b \<le> a \<Longrightarrow> size_sub a b = a - b"
  by (simp add: size_sub_def)

lemma size_add_small [simp]: "a + b < 2 ^ 64 \<Longrightarrow> size_add a b = a + b"
  by (simp add: size_add_def)

lemma size_sub_wraps: "a < b \<Longrightarrow> b \<le> 2 ^ 64 \<Longrightarrow> size_sub a b = 2 ^ 64 - (b - a)"
  by (simp add: size_sub_def)

text \<open>Error numbers of the C library (Linux).\<close>

definition EINVAL :: int where
  "EINVAL = 22"

definition ENOBUFS :: int where
  "ENOBUFS = 105"

section \<open>Words and naturals\<close>

lemma unat_of_nat_small: "n < 2 ^ LENGTH('a) \<Longrightarrow> unat (of_nat n :: 'a::len word) = n"
  by (simp add: unat_of_nat)

lemma unat_eq_imp: "unat (w :: 'a::len word) = n \<Longrightarrow> w = of_nat n"
  by auto

lemma unat_add_of_nat:
  "unat a + n < 2 ^ LENGTH('a) \<Longrightarrow> unat (a + of_nat n :: 'a::len word) = unat a + n"
  by (simp add: unat_word_ariths unat_of_nat mod_add_right_eq)

lemma unat_add_1: "unat a + 1 < 2 ^ LENGTH('a) \<Longrightarrow> unat (a + 1 :: 'a::len word) = Suc (unat a)"
  using unat_add_of_nat [of a 1] by simp

lemma unat_ucast_up:
  "LENGTH('a) \<le> LENGTH('b) \<Longrightarrow> unat (ucast (w :: 'a::len word) :: 'b::len word) = unat w"
  by (simp add: unsigned_ucast_eq take_bit_nat_eq_self order.strict_trans2 [OF unsigned_less])

lemma of_nat_eq_iff_small:
  "m < 2 ^ LENGTH('a) \<Longrightarrow> n < 2 ^ LENGTH('a) \<Longrightarrow>
   (of_nat m :: 'a::len word) = of_nat n \<longleftrightarrow> m = n"
  by (metis unat_of_nat_small)

section \<open>Checked buffers\<close>

text \<open>
  \<open>buf_get\<close> and \<open>buf_read\<close> are an indexed read and a \<open>memcpy\<close> out of a
  buffer, \<open>buf_write\<close> is a \<open>memcpy\<close> into it at an offset.
\<close>

definition buf_get :: "'a list \<Rightarrow> nat \<Rightarrow> 'a option" where
  "buf_get b i = (if i < length b then Some (b ! i) else None)"

definition buf_read :: "'a list \<Rightarrow> nat \<Rightarrow> nat \<Rightarrow> 'a list option" where
  "buf_read b off n = (if off + n \<le> length b then Some (take n (drop off b)) else None)"

definition buf_write :: "'a list \<Rightarrow> nat \<Rightarrow> 'a list \<Rightarrow> 'a list option" where
  "buf_write b off s =
     (if off + length s \<le> length b then Some (take off b @ s @ drop (off + length s) b) else None)"

lemma buf_get_Cons_0 [buf_simps]: "buf_get (x # b) 0 = Some x"
  by (simp add: buf_get_def)

lemma buf_get_Cons_Suc [buf_simps]: "buf_get (x # b) (Suc i) = buf_get b i"
  by (simp add: buf_get_def)

lemma buf_get_Cons_numeral [buf_simps]:
  "buf_get (x # b) (numeral k) = buf_get b (pred_numeral k)"
  by (simp add: numeral_eq_Suc buf_get_Cons_Suc)

lemma buf_get_Cons_1 [buf_simps]: "buf_get (x # b) 1 = buf_get b 0"
  by (simp add: buf_get_def)

lemma buf_read_0 [buf_simps]: "buf_read b 0 n = (if n \<le> length b then Some (take n b) else None)"
  by (simp add: buf_read_def)

lemma buf_read_Cons_Suc [buf_simps]: "buf_read (x # b) (Suc i) n = buf_read b i n"
  by (simp add: buf_read_def)

lemma buf_read_Cons_numeral [buf_simps]:
  "buf_read (x # b) (numeral k) n = buf_read b (pred_numeral k) n"
  by (simp add: numeral_eq_Suc buf_read_Cons_Suc)

lemma buf_read_Cons_1 [buf_simps]: "buf_read (x # b) 1 n = buf_read b 0 n"
  by (simp add: buf_read_def)

lemma buf_read_length: "buf_read b off n = Some s \<Longrightarrow> length s = n"
  by (auto simp: buf_read_def split: if_splits)

lemma buf_write_0 [buf_simps]:
  "buf_write b 0 s = (if length s \<le> length b then Some (s @ drop (length s) b) else None)"
  by (simp add: buf_write_def)

lemma buf_write_Cons_Suc [buf_simps]:
  "buf_write (x # b) (Suc i) s = map_option ((#) x) (buf_write b i s)"
  by (simp add: buf_write_def)

lemma buf_write_Cons_numeral [buf_simps]:
  "buf_write (x # b) (numeral k) s = map_option ((#) x) (buf_write b (pred_numeral k) s)"
  by (simp add: numeral_eq_Suc buf_write_Cons_Suc)

lemma buf_write_Cons_1 [buf_simps]:
  "buf_write (x # b) 1 s = map_option ((#) x) (buf_write b 0 s)"
  by (simp add: buf_write_Cons_Suc [of _ _ 0, simplified])

lemma buf_write_append:
  "n = length p \<Longrightarrow> length s \<le> length r \<Longrightarrow>
   buf_write (p @ r) n s = Some (p @ s @ drop (length s) r)"
  by (simp add: buf_write_def)

lemma buf_write_length: "buf_write b off s = Some b' \<Longrightarrow> length b' = length b"
  by (auto simp: buf_write_def split: if_splits)

lemma buf_write_eq_Some:
  "buf_write b off s = Some b' \<longleftrightarrow>
   off + length s \<le> length b \<and> b' = take off b @ s @ drop (off + length s) b"
  by (auto simp: buf_write_def)

lemma nth_buf_write:
  "buf_write b off s = Some b' \<Longrightarrow> i < length b \<Longrightarrow>
   b' ! i = (if off \<le> i \<and> i < off + length s then s ! (i - off) else b ! i)"
  by (auto simp: buf_write_eq_Some nth_append min_def)

lemma length_ge_3: "3 \<le> length b \<Longrightarrow> \<exists>x y z r. b = x # y # z # r"
  by (auto simp: numeral_3_eq_3 Suc_le_length_iff)

section \<open>Byte orders\<close>

text \<open>
  \<open>le16_bytes\<close> and \<open>be16_bytes\<close> are what \<open>put_le16\<close> (\<open>src/shared/util.h\<close>)
  and a \<open>memcpy\<close> of \<open>htons\<close> store on any host; the \<open>_val\<close> functions read
  them back (\<open>get_le16\<close>, \<open>ntohs\<close>).
\<close>

definition le16_bytes :: "u16 \<Rightarrow> u8 list" where
  "le16_bytes w = [ucast w, ucast (drop_bit 8 w)]"

definition le16_val :: "u8 \<Rightarrow> u8 \<Rightarrow> u16" where
  "le16_val a b = ucast a OR push_bit 8 (ucast b)"

definition be16_bytes :: "u16 \<Rightarrow> u8 list" where
  "be16_bytes w = [ucast (drop_bit 8 w), ucast w]"

definition be16_val :: "u8 \<Rightarrow> u8 \<Rightarrow> u16" where
  "be16_val a b = push_bit 8 (ucast a) OR ucast b"

definition be32_bytes :: "u32 \<Rightarrow> u8 list" where
  "be32_bytes w = [ucast (drop_bit 24 w), ucast (drop_bit 16 w), ucast (drop_bit 8 w), ucast w]"

definition be32_val :: "u8 \<Rightarrow> u8 \<Rightarrow> u8 \<Rightarrow> u8 \<Rightarrow> u32" where
  "be32_val a b c d =
     push_bit 24 (ucast a) OR push_bit 16 (ucast b) OR push_bit 8 (ucast c) OR ucast d"

lemma le16_bytes_length [simp]: "length (le16_bytes w) = 2"
  by (simp add: le16_bytes_def)

lemma be16_bytes_length [simp]: "length (be16_bytes w) = 2"
  by (simp add: be16_bytes_def)

lemma be32_bytes_length [simp]: "length (be32_bytes w) = 4"
  by (simp add: be32_bytes_def)

lemma le16_val_bytes [byte_order, simp]: "le16_val (ucast w) (ucast (drop_bit 8 w)) = w"
  unfolding le16_val_def by (rule bit_word_eqI) (auto simp: bit_simps)

lemma be16_val_bytes [byte_order, simp]: "be16_val (ucast (drop_bit 8 w)) (ucast w) = w"
  unfolding be16_val_def by (rule bit_word_eqI) (auto simp: bit_simps)

lemma be32_val_bytes [byte_order, simp]:
  "be32_val (ucast (drop_bit 24 w)) (ucast (drop_bit 16 w)) (ucast (drop_bit 8 w)) (ucast w) = w"
proof (rule bit_word_eqI)
  fix n
  assume "n < LENGTH(32)"
  then consider "n < 8" | "8 \<le> n \<and> n < 16" | "16 \<le> n \<and> n < 24" | "24 \<le> n \<and> n < 32"
    by fastforce
  then show "bit (be32_val (ucast (drop_bit 24 w)) (ucast (drop_bit 16 w))
      (ucast (drop_bit 8 w)) (ucast w)) n = bit w n"
    by cases (auto simp: be32_val_def bit_simps)
qed

lemma le16_bytes_val [byte_order, simp]: "le16_bytes (le16_val a b) = [a, b]"
  unfolding le16_bytes_def le16_val_def
  by (simp, intro conjI; rule bit_word_eqI) (auto simp: bit_simps dest: bit_imp_le_length)

lemma be16_bytes_val [byte_order, simp]: "be16_bytes (be16_val a b) = [a, b]"
  unfolding be16_bytes_def be16_val_def
  by (simp, intro conjI; rule bit_word_eqI) (auto simp: bit_simps dest: bit_imp_le_length)

lemma be32_bytes_val [byte_order, simp]: "be32_bytes (be32_val a b c d) = [a, b, c, d]"
  unfolding be32_bytes_def be32_val_def
  by (simp, intro conjI; rule bit_word_eqI) (auto simp: bit_simps dest: bit_imp_le_length)

section \<open>The value of stored integers\<close>

lemma push_bit_or_nat:
  assumes "b < 2 ^ n"
  shows "push_bit n a OR b = 2 ^ n * a + (b :: nat)"
proof -
  have "take_bit n b = b" using assms by (rule take_bit_nat_eq_self)
  then have "\<not> bit b i" if "n \<le> i" for i using that bit_take_bit_iff [of n b i] by simp
  then have "\<not> bit (push_bit n a) i \<or> \<not> bit b i" for i
    by (cases "n \<le> i") (simp_all add: bit_push_bit_iff)
  then show ?thesis using disjunctive_add [of "push_bit n a" b] by (simp add: push_bit_eq_mult mult.commute)
qed

lemma unat_u8_bound: "unat (b :: u8) < 256"
  using unsigned_less [of b, where 'a = nat] by simp

lemma unat_u16_bound: "unat (b :: u16) < 65536"
  using unsigned_less [of b, where 'a = nat] by simp

lemma unat_push_or:
  "unat a * 2 ^ n + unat b < 2 ^ LENGTH('a) \<Longrightarrow> unat b < 2 ^ n \<Longrightarrow>
   unat (push_bit n a OR b :: 'a::len word) = 2 ^ n * unat a + unat b"
proof -
  assume a: "unat a * 2 ^ n + unat b < 2 ^ LENGTH('a)" and b: "unat b < 2 ^ n"
  have "push_bit n (unat a) < 2 ^ LENGTH('a)" using a by (simp add: push_bit_eq_mult)
  then show ?thesis
    by (simp add: unsigned_or_eq unsigned_push_bit_eq take_bit_nat_eq_self push_bit_or_nat [OF b])
qed

lemma unat_be16_val: "unat (be16_val a b) = 256 * unat a + unat b"
  using unat_push_or [of "ucast a :: u16" 8 "ucast b"] unat_u8_bound [of a] unat_u8_bound [of b]
  by (simp add: be16_val_def unat_ucast_up)

lemma be32_val_be16: "be32_val a b c d = push_bit 16 (ucast (be16_val a b)) OR ucast (be16_val c d)"
proof (rule bit_word_eqI)
  fix n
  assume "n < LENGTH(32)"
  then consider "n < 8" | "8 \<le> n \<and> n < 16" | "16 \<le> n \<and> n < 24" | "24 \<le> n \<and> n < 32"
    by fastforce
  then show "bit (be32_val a b c d) n \<longleftrightarrow>
      bit (push_bit 16 (ucast (be16_val a b)) OR ucast (be16_val c d) :: u32) n"
    by cases (auto simp: be32_val_def be16_val_def bit_simps dest: bit_imp_le_length)
qed

lemma unat_be32_val: "unat (be32_val a b c d) = 65536 * unat (be16_val a b) + unat (be16_val c d)"
  using unat_push_or [of "ucast (be16_val a b) :: u32" 16 "ucast (be16_val c d)"]
    unat_u16_bound [of "be16_val a b"] unat_u16_bound [of "be16_val c d"]
  by (simp add: be32_val_be16 unat_ucast_up)

lemma le16_val_be16: "le16_val a b = be16_val b a"
  by (simp add: le16_val_def be16_val_def or.commute)

lemma unat_le16_val: "unat (le16_val a b) = unat a + 256 * unat b"
  by (simp add: le16_val_be16 unat_be16_val)

section \<open>Lists\<close>

text \<open>\<open>queue_remove_if\<close> (\<open>src/shared/queue.c\<close>) on the list of the data: it takes out the first entry that matches.\<close>

fun take_first :: "('a \<Rightarrow> bool) \<Rightarrow> 'a list \<Rightarrow> ('a \<times> 'a list) option" where
  "take_first p [] = None"
| "take_first p (x # xs) =
     (if p x then Some (x, xs) else map_option (\<lambda>(y, ys). (y, x # ys)) (take_first p xs))"

lemma take_first_Some:
  "take_first p xs = Some (x, ys) \<Longrightarrow> \<exists>us vs. xs = us @ x # vs \<and> ys = us @ vs \<and> p x \<and> (\<forall>u\<in>set us. \<not> p u)"
proof (induction xs arbitrary: ys)
  case (Cons z zs)
  show ?case
  proof (cases "p z")
    case True
    with Cons.prems show ?thesis by (auto intro: exI [where x = "[]"])
  next
    case False
    with Cons.prems obtain ys' where ys: "take_first p zs = Some (x, ys')" "ys = z # ys'" by auto
    from Cons.IH [OF ys(1)] obtain us vs
      where "zs = us @ x # vs \<and> ys' = us @ vs \<and> p x \<and> (\<forall>u\<in>set us. \<not> p u)" by blast
    with ys(2) False have "z # zs = (z # us) @ x # vs \<and> ys = (z # us) @ vs \<and> p x \<and> (\<forall>u\<in>set (z # us). \<not> p u)"
      by simp
    then show ?thesis by blast
  qed
qed simp

lemma take_first_None: "take_first p xs = None \<longleftrightarrow> (\<forall>x\<in>set xs. \<not> p x)"
  by (induction xs) auto

end
