(* ===== verification/DCComm.thy ===== *)
theory DCComm
  imports Blue_Prelude
begin

text \<open>
  The serial frame parser of \<open>Parser/ChrisHost_DCComm.c\<close>: the global \<open>DCComm\<close>
  (fields the program touches), the byte-driven receive state machine, the checksum, the message
  dispatcher and \<open>main\<close>. A frame is STX, second sync, length, data, checksum, ETX. An access
  outside \<open>u8RxBuff\<close> is the result \<^const>\<open>None\<close>. The text the program prints is
  not modelled; its exit status is.
\<close>

section \<open>State\<close>

datatype dc_state = STATE_STX | STATE_2NDSYNC | STATE_LENGTH | STATE_DATA | STATE_CSUM | STATE_ETX

record dccomm =
  bDCCommDBGEnable :: bool
  bRxFinish :: bool
  u8RxBuffIndex :: u32
  u8RxDataIndex :: u32
  u8RxStateMachine :: dc_state
  u8RxBuff :: "u8 list"

definition DEF_DCCOMM_STX :: u8 where "DEF_DCCOMM_STX = 0x44"
definition DEF_DCCOMM_ETX :: u8 where "DEF_DCCOMM_ETX = 0x43"
definition UARTBUFFSIZE :: nat where "UARTBUFFSIZE = 30"

text \<open>The zero-initialised global of the program.\<close>

definition dc_init :: dccomm where
  "dc_init = \<lparr>bDCCommDBGEnable = False, bRxFinish = False, u8RxBuffIndex = 0, u8RxDataIndex = 0,
     u8RxStateMachine = STATE_STX, u8RxBuff = replicate UARTBUFFSIZE 0\<rparr>"

section \<open>Operations\<close>

text \<open>
  The \<open>do ... while (u8Length != 1)\<close> loop of \<open>DCComm_Chk_CSum\<close>: \<open>i\<close> is the
  read pointer, \<open>len\<close> the eight bit counter, which wraps.
\<close>

function csum_loop :: "u8 list \<Rightarrow> nat \<Rightarrow> u8 \<Rightarrow> u8 \<Rightarrow> (nat \<times> u8) option" where
  "csum_loop b i len s =
     (if i < length b
      then (let s' = s + b ! i; len' = len - 1
            in if len' \<noteq> 1 then csum_loop b (Suc i) len' s' else Some (Suc i, s'))
      else None)"
  by pat_completeness auto
termination
  by (relation "measure (\<lambda>(b, i, _). length b - i)") auto

declare csum_loop.simps [simp del]

definition DCComm_Chk_CSum :: "bool \<Rightarrow> u8 list \<Rightarrow> bool option" where
  "DCComm_Chk_CSum dbg b = do {
     len \<leftarrow> buf_get b 1;
     (i, s) \<leftarrow> csum_loop b 2 len 0;
     if dbg then Some True else do {
       c \<leftarrow> buf_get b i;
       Some (c = s) } }"

text \<open>\<open>DCComm.u8RxBuff[DCComm.u8RxBuffIndex++] = u8Data\<close>\<close>

definition rx_store :: "u8 \<Rightarrow> dccomm \<Rightarrow> dccomm option" where
  "rx_store x st =
     (if unat (u8RxBuffIndex st) < length (u8RxBuff st)
      then Some (st\<lparr>u8RxBuff := (u8RxBuff st)[unat (u8RxBuffIndex st) := x],
                    u8RxBuffIndex := u8RxBuffIndex st + 1\<rparr>)
      else None)"

definition DCComm_Recv_MSG_Parser :: "u8 \<Rightarrow> dccomm \<Rightarrow> (int \<times> dccomm) option" where
  "DCComm_Recv_MSG_Parser x st =
     (if u8RxStateMachine st = STATE_STX \<and> x = DEF_DCCOMM_STX then
        Some (0, st\<lparr>u8RxBuffIndex := 0, u8RxStateMachine := STATE_2NDSYNC\<rparr>)
      else if u8RxStateMachine st = STATE_2NDSYNC then do {
        st \<leftarrow> rx_store x (st\<lparr>u8RxStateMachine := STATE_LENGTH\<rparr>);
        Some (0, st) }
      else if u8RxStateMachine st = STATE_LENGTH then do {
        st \<leftarrow> rx_store x (st\<lparr>u8RxStateMachine := STATE_DATA\<rparr>);
        Some (0, st\<lparr>u8RxDataIndex := ucast x\<rparr>) }
      else if u8RxStateMachine st = STATE_DATA \<and> u8RxDataIndex st \<noteq> 1 then do {
        st \<leftarrow> rx_store x st;
        Some (0, st\<lparr>u8RxDataIndex := u8RxDataIndex st - 1\<rparr>) }
      else if u8RxStateMachine st = STATE_DATA \<and> u8RxDataIndex st = 1 then do {
        st \<leftarrow> rx_store x (st\<lparr>u8RxStateMachine := STATE_ETX\<rparr>);
        Some (0, st) }
      else if u8RxStateMachine st = STATE_ETX \<and> x = DEF_DCCOMM_ETX then
        (if unat (u8RxBuffIndex st) < length (u8RxBuff st)
         then Some (0, st\<lparr>u8RxBuff := (u8RxBuff st)[unat (u8RxBuffIndex st) := x],
                         bRxFinish := True, u8RxStateMachine := STATE_STX\<rparr>)
         else None)
      else Some (-1, st))"

definition DCComm_Recv_State_Control :: "dccomm \<Rightarrow> (int \<times> dccomm) option" where
  "DCComm_Recv_State_Control st =
     (if bRxFinish st then do {
        let st = st\<lparr>bRxFinish := False\<rparr>;
        ok \<leftarrow> DCComm_Chk_CSum (bDCCommDBGEnable st) (u8RxBuff st);
        if ok then do {
          sync \<leftarrow> buf_get (u8RxBuff st) 0;
          op \<leftarrow> buf_get (u8RxBuff st) 2;
          if sync = 0 then
            (if op = 1 then Some (1, st)
             else if op = 2 then Some (2, st)
             else if op = 3 then Some (3, st)
             else if op = 4 then Some (4, st)
             else if op = 5 then Some (5, st)
             else if op = 6 then Some (6, st)
             else Some (-2, st))
          else if sync = 1 then
            (if op = 1 then Some (11, st\<lparr>bDCCommDBGEnable := \<not> bDCCommDBGEnable st\<rparr>)
             else Some (-2, st))
          else Some (-2, st) }
        else Some (-3, st) }
      else Some (-4, st))"

text \<open>
  The receive loop of \<open>main\<close>: bytes \<open>n[i]\<close> to \<open>n[i + k - 1]\<close>, stopping with
  \<open>-1\<close> at the first byte the parser refuses.
\<close>

fun dc_feed :: "u8 list \<Rightarrow> nat \<Rightarrow> nat \<Rightarrow> dccomm \<Rightarrow> (int \<times> dccomm) option" where
  "dc_feed n i 0 st = Some (0, st)"
| "dc_feed n i (Suc k) st = do {
     x \<leftarrow> buf_get n i;
     (r, st) \<leftarrow> DCComm_Recv_MSG_Parser x st;
     if r < 0 then Some (-1, st) else dc_feed n (Suc i) k st }"

text \<open>
  \<open>atoi\<close> of the C library on a decimal text; a value outside \<open>int\<close> is undefined.
\<close>

fun atoi_digits :: "int \<Rightarrow> string \<Rightarrow> int" where
  "atoi_digits v [] = v"
| "atoi_digits v (c # cs) =
     (if 48 \<le> (of_char c :: nat) \<and> of_char c \<le> (57 :: nat)
      then atoi_digits (10 * v + int (of_char c) - 48) cs else v)"

definition c_atoi :: "string \<Rightarrow> int option" where
  "c_atoi str =
     (let s = dropWhile (\<lambda>c. of_char c \<in> {9, 10, 11, 12, 13, 32 :: nat}) str;
          v = (case s of [] \<Rightarrow> 0
               | c # cs \<Rightarrow> if c = CHR ''-'' then - atoi_digits 0 cs
                          else if c = CHR ''+'' then atoi_digits 0 cs
                          else atoi_digits 0 s)
      in if - (2 ^ 31) \<le> v \<and> v < 2 ^ 31 then Some v else None)"

text \<open>
  \<open>main\<close>: \<open>argv\<close> is the list of argument strings, the bytes of \<open>argv[2]\<close> end with
  its zero byte, and \<open>framelen\<close> is the \<open>unsigned long\<close> of \<open>atoi\<close>'s result.
\<close>

definition dc_main_bytes :: "nat \<Rightarrow> u8 list \<Rightarrow> (int \<times> dccomm) option" where
  "dc_main_bytes framelen n = do {
     (r, st) \<leftarrow> DCComm_Recv_MSG_Parser DEF_DCCOMM_STX dc_init;
     (r, st) \<leftarrow> dc_feed n 0 framelen st;
     if r < 0 then Some (-1, st) else DCComm_Recv_State_Control st }"

definition dc_main :: "string list \<Rightarrow> (int \<times> dccomm) option" where
  "dc_main argv = do {
     a1 \<leftarrow> buf_get argv 1;
     a2 \<leftarrow> buf_get argv 2;
     v \<leftarrow> c_atoi a1;
     dc_main_bytes (nat (v mod 2 ^ 64)) (map of_char a2 @ [0]) }"

section \<open>The checksum\<close>

lemma csum_loop_eq:
  "csum_loop b i len s =
     (let n = Suc (unat (len - 2))
      in if i + n \<le> length b then Some (i + n, s + sum_list (take n (drop i b))) else None)"
proof (induction b i len s rule: csum_loop.induct)
  case (1 b i len s)
  show ?case
  proof (cases "i < length b")
    case False
    then show ?thesis by (simp add: csum_loop.simps [of b i len s] Let_def)
  next
    case in_range: True
    then have cons: "drop i b = b ! i # drop (Suc i) b"
      by (simp add: Cons_nth_drop_Suc)
    show ?thesis
    proof (cases "len - 1 = 1")
      case True
      then have "len = 2" by (simp add: algebra_simps)
      with in_range show ?thesis
        by (subst csum_loop.simps) (simp add: Let_def cons)
    next
      case False
      then have ne: "len - 2 \<noteq> 0" by (auto simp: algebra_simps)
      have "unat (len - 1 - 2) = unat (len - 2) - 1"
        using unat_minus_one [OF ne] by (simp add: algebra_simps)
      moreover have "0 < unat (len - 2)" using ne by (simp add: unat_gt_0)
      ultimately have n: "Suc (unat (len - 3)) = unat (len - 2)" by simp
      show ?thesis
        using "1.IH" [OF in_range refl refl False] in_range False
        by (simp add: csum_loop.simps [of b i len s] Let_def n cons add.assoc)
    qed
  qed
qed

text \<open>With a length byte of at least two, exactly the bytes before the checksum are summed.\<close>

lemma Chk_CSum_eq:
  assumes "b = x # len # data @ c # rest" and "unat len = Suc (length data)" and "data \<noteq> []"
  shows "DCComm_Chk_CSum dbg b = Some (dbg \<or> c = sum_list data)"
proof -
  obtain d ds where d: "data = d # ds" using assms(3) by (cases data) auto
  then have "unat (len - 2) = length ds"
    using assms(2) by (subst unat_sub) (auto simp: word_le_nat_alt)
  then show ?thesis
    by (auto simp: DCComm_Chk_CSum_def csum_loop_eq Let_def assms(1) d buf_get_def nth_append)
qed

text \<open>A length byte of one makes the eight bit counter wrap, and the loop leaves the buffer.\<close>

lemma Chk_CSum_length_1:
  "length b \<le> 256 \<Longrightarrow> buf_get b 1 = Some 1 \<Longrightarrow> DCComm_Chk_CSum dbg b = None"
proof -
  have "(1 - 2 :: u8) = 255" by simp
  then have "unat (1 - 2 :: u8) = 255" by (simp only: unat_numeral) simp
  then show "length b \<le> 256 \<Longrightarrow> buf_get b 1 = Some 1 \<Longrightarrow> DCComm_Chk_CSum dbg b = None"
    by (simp add: DCComm_Chk_CSum_def csum_loop_eq Let_def del: diff_numeral_special)
qed

section \<open>The receive state machine\<close>

text \<open>Feeding a list of bytes, the shape the lemmas below use.\<close>

fun dc_run :: "u8 list \<Rightarrow> dccomm \<Rightarrow> (int \<times> dccomm) option" where
  "dc_run [] st = Some (0, st)"
| "dc_run (x # xs) st = do {
     (r, st) \<leftarrow> DCComm_Recv_MSG_Parser x st;
     if r < 0 then Some (-1, st) else dc_run xs st }"

lemma dc_feed_numeral:
  "dc_feed n i (numeral k) st = do {
     x \<leftarrow> buf_get n i;
     (r, st) \<leftarrow> DCComm_Recv_MSG_Parser x st;
     if r < 0 then Some (-1, st) else dc_feed n (Suc i) (pred_numeral k) st }"
  by (simp add: numeral_eq_Suc)

lemma dc_feed_eq_run: "i + k \<le> length n \<Longrightarrow> dc_feed n i k st = dc_run (take k (drop i n)) st"
proof (induction k arbitrary: i st)
  case (Suc k)
  then have "drop i n = n ! i # drop (Suc i) n" by (simp add: Cons_nth_drop_Suc)
  with Suc show ?case by (simp add: buf_get_def split: option.splits prod.splits Option.bind_splits)
qed simp

lemma dc_run_append:
  "dc_run (xs @ ys) st = do { (r, st) \<leftarrow> dc_run xs st; if r < 0 then Some (-1, st) else dc_run ys st }"
  by (induction xs arbitrary: st) (auto split: option.splits prod.splits Option.bind_splits)

lemma rx_store_append:
  assumes "u8RxBuff st = p @ r" and "unat (u8RxBuffIndex st) = length p" and "r \<noteq> []"
  shows "rx_store x st = Some (st\<lparr>u8RxBuff := p @ x # tl r, u8RxBuffIndex := u8RxBuffIndex st + 1\<rparr>)"
  using assms by (cases r) (simp_all add: rx_store_def)

text \<open>The data phase stores its bytes one after the other.\<close>

lemma dc_run_data:
  assumes "u8RxStateMachine st = STATE_DATA"
    and "u8RxBuff st = p @ r" and "unat (u8RxBuffIndex st) = length p"
    and "u8RxDataIndex st = of_nat (Suc (length data))"
    and "length data \<le> length r" and "length p + length r < 256"
  shows "dc_run data st = Some (0, st\<lparr>u8RxBuff := p @ data @ drop (length data) r,
           u8RxBuffIndex := u8RxBuffIndex st + of_nat (length data), u8RxDataIndex := 1\<rparr>)"
  using assms
proof (induction data arbitrary: st p r)
  case (Cons x xs)
  have "(of_nat (Suc (Suc (length xs))) :: u32) \<noteq> of_nat 1"
    using Cons.prems(5,6) by (subst of_nat_eq_iff_small) auto
  then have go: "u8RxDataIndex st \<noteq> 1" using Cons.prems(4) by simp
  have r: "r \<noteq> []" using Cons.prems by auto
  let ?st = "st\<lparr>u8RxBuff := (p @ [x]) @ tl r, u8RxBuffIndex := u8RxBuffIndex st + 1,
                u8RxDataIndex := u8RxDataIndex st - 1\<rparr>"
  have step: "DCComm_Recv_MSG_Parser x st = Some (0, ?st)"
    using go Cons.prems(1) rx_store_append [OF Cons.prems(2,3) r]
    by (simp add: DCComm_Recv_MSG_Parser_def)
  have "dc_run xs ?st = Some (0, ?st\<lparr>u8RxBuff := (p @ [x]) @ xs @ drop (length xs) (tl r),
      u8RxBuffIndex := u8RxBuffIndex ?st + of_nat (length xs), u8RxDataIndex := 1\<rparr>)"
    by (rule Cons.IH) (use Cons.prems r in \<open>auto simp: unat_add_1\<close>)
  with step show ?case by (simp add: drop_Suc add.assoc)
qed simp

text \<open>A whole frame, from a state that waits for STX, fills the buffer and raises the flag.\<close>

definition dc_frame :: "u8 \<Rightarrow> u8 list \<Rightarrow> u8 \<Rightarrow> u8 list" where
  "dc_frame sync data c = sync # of_nat (Suc (length data)) # data @ [c, DEF_DCCOMM_ETX]"

lemma dc_run_frame:
  assumes "u8RxStateMachine st = STATE_STX" and "length (u8RxBuff st) = UARTBUFFSIZE"
    and "length data \<le> 26"
  shows "\<exists>st'. dc_run (DEF_DCCOMM_STX # dc_frame sync data c) st = Some (0, st') \<and>
     u8RxBuff st' = dc_frame sync data c @ drop (length data + 4) (u8RxBuff st) \<and>
     bRxFinish st' \<and> u8RxStateMachine st' = STATE_STX \<and>
     bDCCommDBGEnable st' = bDCCommDBGEnable st"
proof -
  let ?n = "length data"
  let ?L = "of_nat (Suc ?n) :: u8"
  obtain b0 b1 r where b: "u8RxBuff st = b0 # b1 # r" and r: "length r = 28"
    using assms(2) by (cases "u8RxBuff st"; cases "tl (u8RxBuff st)") (auto simp: UARTBUFFSIZE_def)
  let ?s1 = "st\<lparr>u8RxBuffIndex := 2, u8RxStateMachine := STATE_DATA, u8RxBuff := [sync, ?L] @ r,
                u8RxDataIndex := of_nat (Suc ?n)\<rparr>"
  have "unat (ucast ?L :: u32) = unat (of_nat (Suc ?n) :: u32)"
    using assms(3) by (simp add: unat_ucast_up unat_of_nat_small del: of_nat_Suc)
  then have "ucast ?L = (of_nat (Suc ?n) :: u32)" by (simp only: word_unat_eq_iff)
  then have 1: "dc_run [DEF_DCCOMM_STX, sync, ?L] st = Some (0, ?s1)"
    using assms(1) by (simp add: DCComm_Recv_MSG_Parser_def rx_store_def b)
  have "length (drop ?n r) = Suc (Suc (26 - ?n))" using assms(3) r by simp
  then obtain x y q where q: "drop ?n r = x # y # q" by (auto simp: length_Suc_conv simp del: length_drop)
  let ?s2 = "?s1\<lparr>u8RxBuff := [sync, ?L] @ data @ x # y # q, u8RxBuffIndex := 2 + of_nat ?n,
                 u8RxDataIndex := 1\<rparr>"
  have 2: "dc_run data ?s1 = Some (0, ?s2)"
    using dc_run_data [of ?s1 "[sync, ?L]" r data] assms(3) r by (simp add: q)
  have idx: "unat (2 + of_nat ?n :: u32) = ?n + 2" "unat (3 + of_nat ?n :: u32) = ?n + 3"
    using assms(3) by (simp_all add: unat_word_ariths unat_of_nat)
  have 3: "\<exists>st'. dc_run [c, DEF_DCCOMM_ETX] ?s2 = Some (0, st') \<and>
      u8RxBuff st' = dc_frame sync data c @ q \<and> bRxFinish st' \<and>
      u8RxStateMachine st' = STATE_STX \<and> bDCCommDBGEnable st' = bDCCommDBGEnable st"
    using assms(3) r q
    by (simp add: DCComm_Recv_MSG_Parser_def rx_store_def idx dc_frame_def list_update_append
        numeral_eq_Suc)
  have "drop (?n + 4) (u8RxBuff st) = drop 2 (drop ?n r)"
    by (simp add: b numeral_eq_Suc)
  then have "drop (?n + 4) (u8RxBuff st) = q" by (simp only: q) simp
  moreover obtain st' where st': "dc_run [c, DEF_DCCOMM_ETX] ?s2 = Some (0, st')"
      "u8RxBuff st' = dc_frame sync data c @ q" "bRxFinish st'"
      "u8RxStateMachine st' = STATE_STX" "bDCCommDBGEnable st' = bDCCommDBGEnable st"
    using 3 by blast
  moreover have "DEF_DCCOMM_STX # dc_frame sync data c =
      [DEF_DCCOMM_STX, sync, ?L] @ data @ [c, DEF_DCCOMM_ETX]"
    by (simp add: dc_frame_def)
  then have "dc_run (DEF_DCCOMM_STX # dc_frame sync data c) st = Some (0, st')"
    by (simp only: dc_run_append 1 2 st'(1) bind.bind_lunit prod.case less_irrefl if_False)
  ultimately show ?thesis by blast
qed

section \<open>Properties\<close>

text \<open>C1: A whole frame given to the program (STX is fed by \<open>main\<close> itself) whose length byte
  counts its data and checksum is answered by the checksum test and the dispatch alone: \<open>-3\<close>
  for a wrong checksum, the opcode for the six normal messages, 11 for the debug message and
  \<open>-2\<close> for anything else.\<close>

theorem dc_main_frame:
  assumes "data \<noteq> []" and "length data \<le> 26"
  shows "map_option fst (dc_main_bytes (length (dc_frame sync data c)) (dc_frame sync data c @ rest)) =
     Some (if c \<noteq> sum_list data then -3
           else if sync = 0 \<and> hd data \<in> {1, 2, 3, 4, 5, 6} then uint (hd data)
           else if sync = 1 \<and> hd data = 1 then 11 else -2)"
proof -
  let ?f = "dc_frame sync data c"
  let ?s0 = "dc_init\<lparr>u8RxStateMachine := STATE_2NDSYNC\<rparr>"
  have init: "DCComm_Recv_MSG_Parser DEF_DCCOMM_STX dc_init = Some (0, ?s0)"
    by (simp add: DCComm_Recv_MSG_Parser_def dc_init_def)
  obtain st where st: "dc_run (DEF_DCCOMM_STX # ?f) dc_init = Some (0, st)"
    "u8RxBuff st = ?f @ drop (length data + 4) (u8RxBuff dc_init)" "bRxFinish st"
    "bDCCommDBGEnable st = bDCCommDBGEnable dc_init"
    using dc_run_frame [of dc_init data sync c] assms(2) by (auto simp: dc_init_def)
  then have feed: "dc_feed (?f @ rest) 0 (length ?f) ?s0 = Some (0, st)"
    using init by (simp add: dc_feed_eq_run)
  obtain d ds where d: "data = d # ds" using assms(1) by (cases data) auto
  have "DCComm_Chk_CSum False (u8RxBuff st) = Some (c = sum_list data)"
    by (subst Chk_CSum_eq [where data = data and c = c])
      (use assms st(2) in \<open>auto simp: dc_frame_def unat_of_nat_small simp del: of_nat_Suc\<close>)
  moreover have "dc_main_bytes (length ?f) (?f @ rest) = DCComm_Recv_State_Control st"
    by (simp add: dc_main_bytes_def init feed)
  ultimately show ?thesis
    using st(2-4)
    by (simp add: DCComm_Recv_State_Control_def dc_frame_def d buf_get_def dc_init_def Let_def
        del: of_nat_Suc)
qed

theorem dc_main_frame_witness:
  "map_option fst (dc_main_bytes (length (dc_frame 0 [4, 7] 11)) (dc_frame 0 [4, 7] 11 @ [0])) = Some 4"
  by (subst dc_main_frame) simp_all

text \<open>The buffer index agrees with the phase, and what the length byte announced still fits.\<close>

definition dc_inv :: "dccomm \<Rightarrow> bool" where
  "dc_inv st \<longleftrightarrow> length (u8RxBuff st) = UARTBUFFSIZE \<and>
     (case u8RxStateMachine st of
        STATE_STX \<Rightarrow> True
      | STATE_2NDSYNC \<Rightarrow> u8RxBuffIndex st = 0
      | STATE_LENGTH \<Rightarrow> u8RxBuffIndex st = 1
      | STATE_DATA \<Rightarrow> 1 \<le> unat (u8RxDataIndex st) \<and>
          unat (u8RxBuffIndex st) + unat (u8RxDataIndex st) < UARTBUFFSIZE
      | STATE_CSUM \<Rightarrow> False
      | STATE_ETX \<Rightarrow> unat (u8RxBuffIndex st) < UARTBUFFSIZE)"

text \<open>C2: The parser stays inside its 30 byte buffer and keeps its invariant on every byte, as long as
  the length bytes it accepts are between 1 and 27; nothing in the code checks them.\<close>

theorem dc_parser_safe:
  assumes "dc_inv st" and "u8RxStateMachine st = STATE_LENGTH \<Longrightarrow> 1 \<le> x \<and> x \<le> 27"
  shows "\<exists>r st'. DCComm_Recv_MSG_Parser x st = Some (r, st') \<and> dc_inv st'"
proof (cases "u8RxStateMachine st")
  case STATE_LENGTH
  then have "unat x \<le> 27" "1 \<le> unat x" using assms(2) by (auto simp: word_le_nat_alt)
  then show ?thesis using STATE_LENGTH assms(1)
    by (simp add: DCComm_Recv_MSG_Parser_def rx_store_def dc_inv_def UARTBUFFSIZE_def unat_ucast_up)
next
  case STATE_DATA
  let ?i = "u8RxBuffIndex st" and ?d = "u8RxDataIndex st"
  from STATE_DATA assms(1) have inv: "length (u8RxBuff st) = 30" "1 \<le> unat ?d" "unat ?i + unat ?d < 30"
    by (auto simp: dc_inv_def UARTBUFFSIZE_def)
  then have i: "unat (?i + 1) = Suc (unat ?i)" and d: "?d \<noteq> 0"
    by (auto intro: unat_add_1)
  then have "?d \<noteq> 1 \<Longrightarrow> unat (?d - 1) = unat ?d - 1 \<and> 1 < unat ?d"
    using inv(2) unat_minus_one [OF d] by (auto simp: word_unat_eq_iff)
  then show ?thesis using STATE_DATA inv i
    by (auto simp: DCComm_Recv_MSG_Parser_def rx_store_def dc_inv_def UARTBUFFSIZE_def)
qed (use assms(1) in \<open>auto simp: DCComm_Recv_MSG_Parser_def rx_store_def dc_inv_def UARTBUFFSIZE_def\<close>)

theorem dc_parser_safe_witness: "\<exists>r st'. DCComm_Recv_MSG_Parser 0x44 dc_init = Some (r, st') \<and> dc_inv st'"
  by (rule dc_parser_safe) (simp_all add: dc_inv_def dc_init_def)

text \<open>As long as the counter does not meet one, the data phase only stores.\<close>

lemma dc_run_store:
  assumes "u8RxStateMachine st = STATE_DATA" and "length (u8RxBuff st) = 30"
    and "unat (u8RxBuffIndex st) + length xs \<le> 30"
    and "\<And>k. k < length xs \<Longrightarrow> u8RxDataIndex st - of_nat k \<noteq> 1"
  shows "\<exists>st'. dc_run xs st = Some (0, st') \<and> u8RxStateMachine st' = STATE_DATA \<and>
     length (u8RxBuff st') = 30 \<and> unat (u8RxBuffIndex st') = unat (u8RxBuffIndex st) + length xs"
  using assms
proof (induction xs arbitrary: st)
  case (Cons y ys)
  let ?t = "st\<lparr>u8RxBuff := (u8RxBuff st)[unat (u8RxBuffIndex st) := y],
     u8RxBuffIndex := u8RxBuffIndex st + 1, u8RxDataIndex := u8RxDataIndex st - 1\<rparr>"
  have step: "DCComm_Recv_MSG_Parser y st = Some (0, ?t)"
    using Cons.prems(1-3) Cons.prems(4) [of 0]
    by (simp add: DCComm_Recv_MSG_Parser_def rx_store_def)
  have "u8RxDataIndex ?t - of_nat k \<noteq> 1" if "k < length ys" for k
    using Cons.prems(4) [of "Suc k"] that by (simp add: diff_diff_eq)
  moreover have "unat (u8RxBuffIndex st + 1) = Suc (unat (u8RxBuffIndex st))"
    using Cons.prems(3) by (intro unat_add_1) auto
  ultimately show ?case
    using step Cons.IH [of ?t] Cons.prems(1-3) by auto
qed simp

text \<open>A length byte of zero, or of more than 28, drives the parser past the end of its buffer: after
  28 further bytes, whatever they are, the next one is stored outside (the undefined behaviour
  \<^const>\<open>None\<close>).\<close>

theorem dc_length_overflow:
  assumes "len = 0 \<or> 28 < len" and "length data = 29"
  shows "dc_run (DEF_DCCOMM_STX # sync # len # data) dc_init = None"
proof -
  obtain ds x where d: "data = ds @ [x]" "length ds = 28"
    using assms(2) by (cases data rule: rev_cases) auto
  let ?s = "dc_init\<lparr>u8RxBuffIndex := 2, u8RxStateMachine := STATE_DATA, u8RxDataIndex := ucast len,
      u8RxBuff := [sync, len] @ replicate 28 0\<rparr>"
  have 1: "dc_run [DEF_DCCOMM_STX, sync, len] dc_init = Some (0, ?s)"
    by (simp add: DCComm_Recv_MSG_Parser_def rx_store_def dc_init_def UARTBUFFSIZE_def
        numeral_eq_Suc)
  have ne: "ucast len - of_nat k \<noteq> (1 :: u32)" if "k < 28" for k
  proof
    assume "ucast len - of_nat k = (1 :: u32)"
    then have "ucast len = (of_nat (Suc k) :: u32)" by (simp add: algebra_simps)
    then have "unat len = Suc k"
      using that unat_ucast_up [of len, where 'b = 32] by (simp add: unat_of_nat_small del: of_nat_Suc)
    then show False using assms(1) that by (auto simp: word_less_nat_alt)
  qed
  obtain st where st: "dc_run ds ?s = Some (0, st)" "u8RxStateMachine st = STATE_DATA"
      "length (u8RxBuff st) = 30" "unat (u8RxBuffIndex st) = 30"
    using dc_run_store [of ?s ds] ne d(2) by auto
  then have "dc_run [x] st = None"
    by (simp add: DCComm_Recv_MSG_Parser_def rx_store_def)
  then show ?thesis
    using 1 st(1) dc_run_append [of "[DEF_DCCOMM_STX, sync, len]" data dc_init]
      dc_run_append [of ds "[x]" ?s] by (simp add: d(1))
qed

theorem dc_length_overflow_witness:
  "dc_run (DEF_DCCOMM_STX # 1 # 0 # replicate 29 0) dc_init = None"
  by (rule dc_length_overflow) simp_all

text \<open>The parser accepts a frame whose length byte is one (checksum only), but the checksum loop
  then runs past the buffer: the program has no defined result on it.\<close>

theorem dc_main_length_1: "dc_main_bytes 4 ([sync, 1, c, DEF_DCCOMM_ETX] @ rest) = None"
proof -
  let ?f = "dc_frame sync [] c" and ?s0 = "dc_init\<lparr>u8RxStateMachine := STATE_2NDSYNC\<rparr>"
  have init: "DCComm_Recv_MSG_Parser DEF_DCCOMM_STX dc_init = Some (0, ?s0)"
    by (simp add: DCComm_Recv_MSG_Parser_def dc_init_def)
  obtain st where st: "dc_run (DEF_DCCOMM_STX # ?f) dc_init = Some (0, st)"
      "u8RxBuff st = ?f @ drop 4 (u8RxBuff dc_init)" "bRxFinish st"
    using dc_run_frame [of dc_init "[]" sync c] by (auto simp: dc_init_def)
  then have "dc_feed (?f @ rest) 0 (length ?f) ?s0 = Some (0, st)"
    using init by (simp add: dc_feed_eq_run)
  moreover have "DCComm_Chk_CSum dbg (u8RxBuff st) = None" for dbg
    using st(2) by (intro Chk_CSum_length_1)
      (simp_all add: dc_frame_def dc_init_def UARTBUFFSIZE_def buf_get_def)
  ultimately have "dc_main_bytes (length ?f) (?f @ rest) = None"
    using st(3) by (simp add: dc_main_bytes_def init DCComm_Recv_State_Control_def Let_def)
  then show ?thesis by (simp add: dc_frame_def numeral_eq_Suc)
qed

text \<open>
  When no zero byte is received, the second sync of a frame in the buffer is not zero.
\<close>

definition dc_nonzero_sync :: "dccomm \<Rightarrow> bool" where
  "dc_nonzero_sync st \<longleftrightarrow> u8RxBuff st \<noteq> [] \<and>
     (u8RxStateMachine st = STATE_2NDSYNC \<longrightarrow> u8RxBuffIndex st = 0) \<and>
     (u8RxStateMachine st \<in> {STATE_LENGTH, STATE_DATA, STATE_ETX} \<longrightarrow>
        0 < unat (u8RxBuffIndex st) \<and> unat (u8RxBuffIndex st) \<le> length (u8RxBuff st) \<and>
        u8RxBuff st ! 0 \<noteq> 0) \<and>
     (bRxFinish st \<longrightarrow> u8RxBuff st ! 0 \<noteq> 0) \<and> length (u8RxBuff st) = UARTBUFFSIZE"

lemma rx_store_Some:
  "rx_store x st = Some st' \<longleftrightarrow> unat (u8RxBuffIndex st) < length (u8RxBuff st) \<and>
     st' = st\<lparr>u8RxBuff := (u8RxBuff st)[unat (u8RxBuffIndex st) := x],
              u8RxBuffIndex := u8RxBuffIndex st + 1\<rparr>"
  by (auto simp: rx_store_def)

lemma parser_nonzero_sync:
  assumes "dc_nonzero_sync st" and "x \<noteq> 0" and "DCComm_Recv_MSG_Parser x st = Some (r, st')"
  shows "dc_nonzero_sync st'"
proof -
  have "unat (u8RxBuffIndex st) < 30 \<Longrightarrow> unat (u8RxBuffIndex st + 1) = Suc (unat (u8RxBuffIndex st))"
    by (rule unat_add_1) simp
  then show ?thesis using assms
    by (cases "u8RxStateMachine st")
      (auto simp: DCComm_Recv_MSG_Parser_def dc_nonzero_sync_def bind_eq_Some_conv rx_store_Some
        UARTBUFFSIZE_def nth_list_update split: if_splits)
qed

lemma dc_run_nonzero_sync:
  "dc_nonzero_sync st \<Longrightarrow> 0 \<notin> set xs \<Longrightarrow> dc_run xs st = Some (r, st') \<Longrightarrow> dc_nonzero_sync st'"
proof (induction xs arbitrary: st)
  case (Cons x xs)
  from Cons.prems(3) obtain r1 s1 where 1: "DCComm_Recv_MSG_Parser x st = Some (r1, s1)"
    and 2: "(if r1 < 0 then Some (-1, s1) else dc_run xs s1) = Some (r, st')"
    by (auto simp: bind_eq_Some_conv)
  have "dc_nonzero_sync s1" using parser_nonzero_sync [OF Cons.prems(1) _ 1] Cons.prems(2) by auto
  with 2 Cons.IH Cons.prems(2) show ?case by (auto split: if_splits)
qed simp

lemma control_not_normal:
  assumes "DCComm_Recv_State_Control s = Some (r, st)"
    and "bRxFinish s \<Longrightarrow> buf_get (u8RxBuff s) 0 \<noteq> Some 0"
  shows "r \<in> {11, -2, -3, -4}"
proof (cases "bRxFinish s")
  case False
  then show ?thesis using assms(1) by (simp add: DCComm_Recv_State_Control_def)
next
  case True
  then obtain ok where ok: "DCComm_Chk_CSum (bDCCommDBGEnable s) (u8RxBuff s) = Some ok"
    using assms(1) by (auto simp: DCComm_Recv_State_Control_def Let_def bind_eq_Some_conv)
  show ?thesis
  proof (cases "ok \<and> u8RxBuff s \<noteq> []")
    case False
    then show ?thesis using True ok assms(1)
      by (auto simp: DCComm_Recv_State_Control_def Let_def buf_get_def split: if_splits)
  next
    case ne: True
    then have "u8RxBuff s ! 0 \<noteq> 0" using assms(2) True by (simp add: buf_get_def)
    then show ?thesis using True ok ne assms(1)
      by (simp add: DCComm_Recv_State_Control_def Let_def buf_get_def split: if_splits)
  qed
qed

text \<open>\<open>main\<close> takes the frame from a C string, in which no zero byte stands before the
  terminator, while a normal message has second sync zero: fed with at most the bytes of its
  argument, the program never answers with one of the six normal messages.\<close>

theorem dc_main_text_never_normal:
  assumes "0 \<notin> set text" and "framelen \<le> length text"
    and "dc_main_bytes framelen (text @ [0]) = Some (r, st)"
  shows "r \<notin> {1, 2, 3, 4, 5, 6}"
proof -
  let ?s0 = "dc_init\<lparr>u8RxStateMachine := STATE_2NDSYNC\<rparr>"
  have init: "DCComm_Recv_MSG_Parser DEF_DCCOMM_STX dc_init = Some (0, ?s0)"
    by (simp add: DCComm_Recv_MSG_Parser_def dc_init_def)
  have "dc_feed (text @ [0]) 0 framelen ?s0 = dc_run (take framelen text) ?s0"
    using assms(2) by (simp add: dc_feed_eq_run)
  with assms(3) obtain r1 s1 where 1: "dc_run (take framelen text) ?s0 = Some (r1, s1)"
    and 2: "(if r1 < 0 then Some (-1, s1) else DCComm_Recv_State_Control s1) = Some (r, st)"
    by (auto simp: dc_main_bytes_def init bind_eq_Some_conv)
  have "dc_nonzero_sync ?s0" by (simp add: dc_nonzero_sync_def dc_init_def UARTBUFFSIZE_def)
  moreover have "0 \<notin> set (take framelen text)" using assms(1) by (auto dest: in_set_takeD)
  ultimately have "dc_nonzero_sync s1" using 1 by (rule dc_run_nonzero_sync)
  then have nz: "bRxFinish s1 \<Longrightarrow> buf_get (u8RxBuff s1) 0 \<noteq> Some 0"
    by (simp add: dc_nonzero_sync_def buf_get_def)
  show ?thesis
  proof (cases "r1 < 0")
    case True
    with 2 have "r = -1" by simp
    then show ?thesis by simp
  next
    case False
    with 2 have "DCComm_Recv_State_Control s1 = Some (r, st)" by simp
    then have "r \<in> {11, -2, -3, -4}" using nz by (rule control_not_normal)
    then show ?thesis by auto
  qed
qed

theorem dc_main_text_never_normal_witness:
  "\<exists>r st. dc_main_bytes 2 ([1, 3, 1] @ [0]) = Some (r, st) \<and> r \<notin> {1, 2, 3, 4, 5, 6}"
proof -
  have "map_option fst (dc_main_bytes 2 ([1, 3, 1] @ [0])) = Some (-4)"
    by (simp add: dc_main_bytes_def dc_feed_numeral DCComm_Recv_MSG_Parser_def dc_init_def
        rx_store_def UARTBUFFSIZE_def buf_get_def DCComm_Recv_State_Control_def)
  then obtain r st where "dc_main_bytes 2 ([1, 3, 1] @ [0]) = Some (r, st)" by auto
  with dc_main_text_never_normal [OF _ _ this] show ?thesis by auto
qed

text \<open>Whatever byte the parser refuses leaves its state as it was (the statement meant to
  return to the STX state stands behind the \<open>return\<close>), so a frame that misses its ETX keeps
  the parser waiting for one.\<close>

theorem dc_parser_reject:
  "DCComm_Recv_MSG_Parser x st = Some (r, st') \<Longrightarrow> r < 0 \<Longrightarrow> r = -1 \<and> st' = st"
  by (auto simp: DCComm_Recv_MSG_Parser_def bind_eq_Some_conv split: if_splits)

theorem dc_parser_reject_witness:
  "DCComm_Recv_MSG_Parser 0x45 dc_init = Some (-1, dc_init) \<and> (-1 :: int) < 0"
  using dc_parser_reject [where x = "0x45" and st = dc_init and r = "-1" and st' = dc_init]
  by (simp add: DCComm_Recv_MSG_Parser_def dc_init_def DEF_DCCOMM_STX_def)

end
