(* ===== verification/Fifo_Interface.thy ===== *)
theory Fifo_Interface
  imports Main "HOL-Library.Monad_Syntax"
begin

text \<open>
  The contract of a first-in first-out buffer, as the users of \<open>struct queue\<close> and
  \<open>struct ringbuf\<close> rely on it: a representation relation to the list of the items inside, an
  operation that appends a chunk when the chunk is admissible, and one that takes a prefix off.
  From the two laws follows, once for all providers, that any sequence of operations delivers the
  items in the order they came, none lost and none twice.
\<close>

datatype ('c, 'p) fifo_event = Push 'c | Pop 'p

fun fifo_run ::
  "('s \<Rightarrow> 'c \<Rightarrow> bool) \<Rightarrow> ('c \<Rightarrow> 'x list) \<Rightarrow> ('c \<Rightarrow> 's \<Rightarrow> 's option) \<Rightarrow>
   ('p \<Rightarrow> 's \<Rightarrow> ('x list \<times> 's) option) \<Rightarrow> ('c, 'p) fifo_event list \<Rightarrow> 's \<Rightarrow>
   ('x list \<times> 'x list \<times> 's) option" where
  "fifo_run ok items push pop [] s = Some ([], [], s)"
| "fifo_run ok items push pop (Push c # es) s =
     (if ok s c then do {
        s' \<leftarrow> push c s;
        (i, out, t) \<leftarrow> fifo_run ok items push pop es s';
        Some (items c @ i, out, t) } else None)"
| "fifo_run ok items push pop (Pop p # es) s = do {
     (ys, s') \<leftarrow> pop p s;
     (i, out, t) \<leftarrow> fifo_run ok items push pop es s';
     Some (i, ys @ out, t) }"

locale fifo =
  fixes rep :: "'s \<Rightarrow> 'x list \<Rightarrow> bool"
    and ok :: "'s \<Rightarrow> 'c \<Rightarrow> bool"
    and items :: "'c \<Rightarrow> 'x list"
    and push :: "'c \<Rightarrow> 's \<Rightarrow> 's option"
    and pop :: "'p \<Rightarrow> 's \<Rightarrow> ('x list \<times> 's) option"
  assumes push_rep: "rep s xs \<Longrightarrow> ok s c \<Longrightarrow> \<exists>s'. push c s = Some s' \<and> rep s' (xs @ items c)"
    and pop_rep: "rep s xs \<Longrightarrow> \<exists>ys zs s'. pop p s = Some (ys, s') \<and> xs = ys @ zs \<and> rep s' zs"
begin

lemma run_order:
  "rep s xs \<Longrightarrow> fifo_run ok items push pop es s = Some (i, out, t) \<Longrightarrow>
   \<exists>ys. rep t ys \<and> xs @ i = out @ ys"
proof (induction es arbitrary: s xs i out t)
  case (Cons e es)
  show ?case
  proof (cases e)
    case (Push c)
    with Cons.prems(2) obtain s' i' where s': "ok s c" "push c s = Some s'"
        "fifo_run ok items push pop es s' = Some (i', out, t)" "i = items c @ i'"
      by (auto simp: bind_eq_Some_conv split: if_splits)
    with push_rep [OF Cons.prems(1)] have "rep s' (xs @ items c)" by fastforce
    from Cons.IH [OF this s'(3)] show ?thesis using s'(4) by simp
  next
    case (Pop p)
    with Cons.prems(2) obtain ys s' out' where s': "pop p s = Some (ys, s')"
        "fifo_run ok items push pop es s' = Some (i, out', t)" "out = ys @ out'"
      by (auto simp: bind_eq_Some_conv)
    with pop_rep [OF Cons.prems(1), of p] obtain zs where "xs = ys @ zs" "rep s' zs" by auto
    with Cons.IH [OF this(2) s'(2)] show ?thesis using s'(3) by auto
  qed
qed simp

text \<open>Operations on a represented state fail only where a chunk is not admissible.\<close>

lemma run_progress:
  "rep s xs \<Longrightarrow> (\<And>s c. ok s c) \<Longrightarrow> fifo_run ok items push pop es s \<noteq> None"
proof (induction es arbitrary: s xs)
  case (Cons e es)
  show ?case
  proof (cases e)
    case (Push c)
    from push_rep [OF Cons.prems(1) Cons.prems(2)] obtain s'
      where "push c s = Some s'" "rep s' (xs @ items c)" by blast
    with Cons.IH [OF this(2) Cons.prems(2)] Cons.prems(2) Push show ?thesis by auto
  next
    case (Pop p)
    from pop_rep [OF Cons.prems(1), of p] obtain ys zs s'
      where "pop p s = Some (ys, s')" "rep s' zs" by blast
    with Cons.IH [OF this(2) Cons.prems(2)] Pop show ?thesis by auto
  qed
qed simp

end

end
