(* ===== verification/Shared_Queue.thy ===== *)
theory Shared_Queue
  imports Fifo_Interface Blue_Prelude
begin

text \<open>
  The singly linked queue of \<open>src/shared/queue.c\<close> over an explicit heap of entries. Pointers are
  naturals with 0 for \<open>NULL\<close>, also the data pointers the clients store; an entry is a data
  pointer and a next pointer. A queue argument is an option, with \<^const>\<open>None\<close> for a
  \<open>NULL\<close> queue. Reading through a pointer that is not allocated has no result. \<open>new0\<close>
  returns an address that is not in use: the operations that allocate take it as their first
  argument. Loops that follow next pointers need not end on an arbitrary heap, so they are partial
  functions, and that they return is part of each theorem.
\<close>

section \<open>State\<close>

type_synonym ptr = nat

record queue_entry =
  qe_data :: ptr
  qe_next :: ptr

record queue =
  ref_count :: int
  head :: ptr
  tail :: ptr
  entries :: u32
  heap :: "ptr \<rightharpoonup> queue_entry"

section \<open>Operations\<close>

definition queue_ref :: "queue \<Rightarrow> queue" where
  "queue_ref q = q\<lparr>ref_count := ref_count q + 1\<rparr>"

text \<open>The result \<^const>\<open>None\<close> of \<open>queue_unref\<close> is the freed queue.\<close>

definition queue_unref :: "queue \<Rightarrow> queue option" where
  "queue_unref q =
     (let q = q\<lparr>ref_count := ref_count q - 1\<rparr> in if ref_count q \<noteq> 0 then Some q else None)"

definition queue_new :: "(ptr \<rightharpoonup> queue_entry) \<Rightarrow> queue" where
  "queue_new h = queue_ref \<lparr>ref_count = 0, head = 0, tail = 0, entries = 0, heap = h\<rparr>"

definition queue_entry_new :: "ptr \<Rightarrow> ptr \<Rightarrow> queue \<Rightarrow> queue" where
  "queue_entry_new a d q = q\<lparr>heap := (heap q)(a \<mapsto> \<lparr>qe_data = d, qe_next = 0\<rparr>)\<rparr>"

text \<open>\<open>p->next = n\<close>\<close>

definition set_next :: "ptr \<Rightarrow> ptr \<Rightarrow> queue \<Rightarrow> queue option" where
  "set_next p n q =
     (case heap q p of None \<Rightarrow> None
      | Some x \<Rightarrow> Some (q\<lparr>heap := (heap q)(p \<mapsto> x\<lparr>qe_next := n\<rparr>)\<rparr>))"

fun queue_push_tail :: "ptr \<Rightarrow> queue option \<Rightarrow> ptr \<Rightarrow> (bool \<times> queue option) option" where
  "queue_push_tail a None d = Some (False, None)"
| "queue_push_tail a (Some q) d = do {
     let q = queue_entry_new a d q;
     q \<leftarrow> (if tail q \<noteq> 0 then set_next (tail q) a q else Some q);
     let q = q\<lparr>tail := a\<rparr>;
     let q = (if head q = 0 then q\<lparr>head := a\<rparr> else q);
     Some (True, Some (q\<lparr>entries := entries q + 1\<rparr>)) }"

fun queue_push_head :: "ptr \<Rightarrow> queue option \<Rightarrow> ptr \<Rightarrow> (bool \<times> queue option) option" where
  "queue_push_head a None d = Some (False, None)"
| "queue_push_head a (Some q) d = do {
     let q = queue_entry_new a d q;
     q \<leftarrow> set_next a (head q) q;
     let q = q\<lparr>head := a\<rparr>;
     let q = (if tail q = 0 then q\<lparr>tail := a\<rparr> else q);
     Some (True, Some (q\<lparr>entries := entries q + 1\<rparr>)) }"

text \<open>
  The loops over the entries that look for one: the result is the entry before it (or the
  \<open>prev\<close> given) and the entry, 0 when the end is reached.
\<close>

partial_function (option) queue_scan ::
  "(ptr \<rightharpoonup> queue_entry) \<Rightarrow> (ptr \<Rightarrow> bool) \<Rightarrow> ptr \<Rightarrow> ptr \<Rightarrow> (ptr \<times> ptr) option" where
  "queue_scan h P prev e =
     (if e = 0 then Some (prev, 0)
      else Option.bind (h e) (\<lambda>x.
        if P (qe_data x) then Some (prev, e) else queue_scan h P e (qe_next x)))"

fun queue_push_after :: "ptr \<Rightarrow> queue option \<Rightarrow> ptr \<Rightarrow> ptr \<Rightarrow> (bool \<times> queue option) option" where
  "queue_push_after a None ent d = Some (False, None)"
| "queue_push_after a (Some q) ent d = do {
     (_, e) \<leftarrow> queue_scan (heap q) (\<lambda>x. x = ent) 0 (head q);
     if e = 0 then Some (False, Some q) else do {
       x \<leftarrow> heap q e;
       let q = queue_entry_new a d q;
       q \<leftarrow> set_next a (qe_next x) q;
       let q = (if qe_next x = 0 then q\<lparr>tail := a\<rparr> else q);
       q \<leftarrow> set_next e a q;
       Some (True, Some (q\<lparr>entries := entries q + 1\<rparr>)) } }"

fun queue_pop_head :: "queue option \<Rightarrow> (ptr \<times> queue option) option" where
  "queue_pop_head None = Some (0, None)"
| "queue_pop_head (Some q) =
     (if head q = 0 then Some (0, Some q)
      else do {
        x \<leftarrow> heap q (head q);
        let e = head q;
        let q = (if qe_next x = 0 then q\<lparr>head := 0, tail := 0\<rparr> else q\<lparr>head := qe_next x\<rparr>);
        Some (qe_data x, Some (q\<lparr>heap := (heap q)(e := None), entries := entries q - 1\<rparr>)) })"

fun queue_peek_head :: "queue option \<Rightarrow> ptr option" where
  "queue_peek_head None = Some 0"
| "queue_peek_head (Some q) =
     (if head q = 0 then Some 0 else map_option qe_data (heap q (head q)))"

fun queue_peek_tail :: "queue option \<Rightarrow> ptr option" where
  "queue_peek_tail None = Some 0"
| "queue_peek_tail (Some q) =
     (if tail q = 0 then Some 0 else map_option qe_data (heap q (tail q)))"

text \<open>
  The loop of \<open>queue_foreach\<close>: the callback may change the queue (and a state of its own), the
  next pointer is read before it is called. Freeing the queue inside the callback keeps the
  structure alive because of the reference taken before the loop.
\<close>

partial_function (option) foreach_loop ::
  "(ptr \<Rightarrow> queue \<times> 's \<Rightarrow> (queue \<times> 's) option) \<Rightarrow> ptr \<Rightarrow> queue \<times> 's \<Rightarrow> (queue \<times> 's) option" where
  "foreach_loop f e qs =
     (if e \<noteq> 0 \<and> head (fst qs) \<noteq> 0 \<and> 1 < ref_count (fst qs)
      then Option.bind (heap (fst qs) e) (\<lambda>x.
             Option.bind (f (qe_data x) qs) (\<lambda>qs'. foreach_loop f (qe_next x) qs'))
      else Some qs)"

fun queue_foreach ::
  "queue option \<Rightarrow> (ptr \<Rightarrow> queue \<times> 's \<Rightarrow> (queue \<times> 's) option) option \<Rightarrow> 's \<Rightarrow> (queue option \<times> 's) option" where
  "queue_foreach None f s = Some (None, s)"
| "queue_foreach (Some q) None s = Some (Some q, s)"
| "queue_foreach (Some q) (Some f) s =
     (if head q = 0 then Some (Some q, s)
      else do {
        (q', s') \<leftarrow> foreach_loop f (head q) (queue_ref q, s);
        Some (queue_unref q', s') })"

definition direct_match :: "ptr \<Rightarrow> ptr \<Rightarrow> bool" where
  "direct_match a b \<longleftrightarrow> a = b"

text \<open>A match function pointer, \<^const>\<open>None\<close> for \<open>NULL\<close>, applied to the match data.\<close>

definition match_fun :: "(ptr \<Rightarrow> ptr \<Rightarrow> bool) option \<Rightarrow> ptr \<Rightarrow> ptr \<Rightarrow> bool" where
  "match_fun f m = (case f of None \<Rightarrow> (\<lambda>d. direct_match d m) | Some g \<Rightarrow> (\<lambda>d. g d m))"

fun queue_find :: "queue option \<Rightarrow> (ptr \<Rightarrow> ptr \<Rightarrow> bool) option \<Rightarrow> ptr \<Rightarrow> ptr option" where
  "queue_find None f m = Some 0"
| "queue_find (Some q) f m = do {
     (_, e) \<leftarrow> queue_scan (heap q) (match_fun f m) 0 (head q);
     if e = 0 then Some 0 else map_option qe_data (heap q e) }"

text \<open>The unlinking both removal loops do when they have found their entry.\<close>

definition queue_unlink :: "ptr \<Rightarrow> ptr \<Rightarrow> queue \<Rightarrow> (ptr \<times> queue) option" where
  "queue_unlink prev e q = do {
     x \<leftarrow> heap q e;
     q \<leftarrow> (if prev \<noteq> 0 then set_next prev (qe_next x) q else Some (q\<lparr>head := qe_next x\<rparr>));
     let q = (if qe_next x = 0 then q\<lparr>tail := prev\<rparr> else q);
     Some (qe_data x, q\<lparr>heap := (heap q)(e := None), entries := entries q - 1\<rparr>) }"

fun queue_remove :: "queue option \<Rightarrow> ptr \<Rightarrow> (bool \<times> queue option) option" where
  "queue_remove None d = Some (False, None)"
| "queue_remove (Some q) d = do {
     (prev, e) \<leftarrow> queue_scan (heap q) (\<lambda>x. x = d) 0 (head q);
     if e = 0 then Some (False, Some q)
     else do { (_, q) \<leftarrow> queue_unlink prev e q; Some (True, Some q) } }"

fun queue_remove_if ::
  "queue option \<Rightarrow> (ptr \<Rightarrow> ptr \<Rightarrow> bool) option \<Rightarrow> ptr \<Rightarrow> (ptr \<times> queue option) option" where
  "queue_remove_if None f m = Some (0, None)"
| "queue_remove_if (Some q) f m = do {
     (prev, e) \<leftarrow> queue_scan (heap q) (match_fun f m) 0 (head q);
     if e = 0 then Some (0, Some q)
     else do { (d, q) \<leftarrow> queue_unlink prev e q; Some (d, Some q) } }"

text \<open>
  \<open>queue_remove_all\<close>: the data handed to the destroy callback is collected in a list. With a
  match function the loop runs until a removal changes nothing; without one the detached entries
  are freed one by one.
\<close>

partial_function (option) remove_matching ::
  "(ptr \<Rightarrow> ptr \<Rightarrow> bool) \<Rightarrow> ptr \<Rightarrow> queue option \<Rightarrow> u32 \<Rightarrow> ptr list \<Rightarrow> (u32 \<times> queue option \<times> ptr list) option" where
  "remove_matching f m q count out =
     Option.bind (queue_remove_if q (Some f) m) (\<lambda>r.
       if map_option entries q = map_option entries (snd r) then Some (count, snd r, out)
       else remove_matching f m (snd r) (count + 1) (out @ [fst r]))"

partial_function (option) free_entries ::
  "ptr \<Rightarrow> queue \<Rightarrow> u32 \<Rightarrow> ptr list \<Rightarrow> (u32 \<times> queue \<times> ptr list) option" where
  "free_entries e q count out =
     (if e = 0 then Some (count, q, out)
      else Option.bind (heap q e) (\<lambda>x.
        free_entries (qe_next x) (q\<lparr>heap := (heap q)(e := None)\<rparr>) (count + 1) (out @ [qe_data x])))"

fun queue_remove_all ::
  "queue option \<Rightarrow> (ptr \<Rightarrow> ptr \<Rightarrow> bool) option \<Rightarrow> ptr \<Rightarrow> (u32 \<times> queue option \<times> ptr list) option" where
  "queue_remove_all None f m = Some (0, None, [])"
| "queue_remove_all (Some q) (Some f) m =
     (if head q = 0 then Some (0, Some q, []) else remove_matching f m (Some q) 0 [])"
| "queue_remove_all (Some q) None m = do {
     (count, q', out) \<leftarrow> free_entries (head q) (q\<lparr>head := 0, tail := 0, entries := 0\<rparr>) 0 [];
     Some (count, Some q', out) }"

fun queue_destroy :: "queue option \<Rightarrow> (queue option \<times> ptr list) option" where
  "queue_destroy None = Some (None, [])"
| "queue_destroy (Some q) = do {
     (_, q', out) \<leftarrow> queue_remove_all (Some q) None 0;
     Some (Option.bind q' queue_unref, out) }"

fun queue_get_entries :: "queue option \<Rightarrow> ptr" where
  "queue_get_entries None = 0"
| "queue_get_entries (Some q) = head q"

fun queue_length :: "queue option \<Rightarrow> u32" where
  "queue_length None = 0"
| "queue_length (Some q) = entries q"

fun queue_isempty :: "queue option \<Rightarrow> bool" where
  "queue_isempty None = True"
| "queue_isempty (Some q) \<longleftrightarrow> entries q = 0"

section \<open>List segments\<close>

text \<open>
  \<open>lseg h p xs e\<close>: following next pointers from \<open>p\<close> visits the entries \<open>xs\<close> (address
  and data pointer) and ends at \<open>e\<close>.
\<close>

fun lseg :: "(ptr \<rightharpoonup> queue_entry) \<Rightarrow> ptr \<Rightarrow> (ptr \<times> ptr) list \<Rightarrow> ptr \<Rightarrow> bool" where
  "lseg h p [] e \<longleftrightarrow> p = e"
| "lseg h p ((a, d) # xs) e \<longleftrightarrow>
     p = a \<and> a \<noteq> 0 \<and> (\<exists>n. h a = Some \<lparr>qe_data = d, qe_next = n\<rparr> \<and> lseg h n xs e)"

definition last_addr :: "ptr \<Rightarrow> (ptr \<times> ptr) list \<Rightarrow> ptr" where
  "last_addr p xs = (if xs = [] then p else fst (last xs))"

lemma last_addr_simps [simp]:
  "last_addr p [] = p" "last_addr p (x # xs) = last_addr (fst x) xs"
  "last_addr p (xs @ [x]) = fst x"
  by (simp_all add: last_addr_def)

lemma last_addr_append [simp]: "last_addr p (xs @ ys) = last_addr (last_addr p xs) ys"
  by (simp add: last_addr_def)

lemma lseg_append: "lseg h p (xs @ ys) e \<longleftrightarrow> (\<exists>m. lseg h p xs m \<and> lseg h m ys e)"
  by (induction h p xs e rule: lseg.induct) auto

lemma lseg_frame:
  "(\<And>a. a \<in> fst ` set xs \<Longrightarrow> h' a = h a) \<Longrightarrow> lseg h' p xs e = lseg h p xs e"
  by (induction h p xs e rule: lseg.induct) auto

lemma lseg_upd_other [simp]: "a \<notin> fst ` set xs \<Longrightarrow> lseg (h(a := v)) p xs e = lseg h p xs e"
  by (rule lseg_frame) auto

lemma lseg_fst: "lseg h p (x # xs) e \<Longrightarrow> p = fst x \<and> fst x \<noteq> 0"
  by (cases x) auto

lemma lseg_dom: "lseg h p xs e \<Longrightarrow> a \<in> fst ` set xs \<Longrightarrow> a \<noteq> 0 \<and> h a \<noteq> None"
  by (induction h p xs e rule: lseg.induct) auto

lemma lseg_0_iff: "lseg h p xs 0 \<Longrightarrow> p = 0 \<longleftrightarrow> xs = []"
  by (cases xs) (auto dest: lseg_fst)

lemma lseg_last:
  "lseg h p xs e \<Longrightarrow> xs \<noteq> [] \<Longrightarrow> \<exists>d. h (last_addr 0 xs) = Some \<lparr>qe_data = d, qe_next = e\<rparr>"
  by (induction h p xs e rule: lseg.induct) (auto simp: last_addr_def)

text \<open>Redirecting the last next pointer of a segment.\<close>

lemma lseg_set_last:
  assumes "lseg h p xs e" and "distinct (map fst xs)" and "xs \<noteq> []"
    and "h (last_addr 0 xs) = Some x"
  shows "lseg (h(last_addr 0 xs \<mapsto> x\<lparr>qe_next := n\<rparr>)) p xs n"
proof -
  obtain ys a d where xs: "xs = ys @ [(a, d)]" using assms(3) by (cases xs rule: rev_cases) auto
  then have "a \<notin> fst ` set ys" using assms(2) by (auto simp: rev_image_eqI)
  with assms xs show ?thesis by (auto simp: lseg_append)
qed

section \<open>Representation\<close>

text \<open>
  \<open>queue_cells q xs\<close>: the entries of the queue, in order, with the tail pointer at the last one
  and the count kept exactly. \<open>queue_rep q ds\<close> abstracts from the addresses.
\<close>

definition queue_cells :: "queue \<Rightarrow> (ptr \<times> ptr) list \<Rightarrow> bool" where
  "queue_cells q xs \<longleftrightarrow> lseg (heap q) (head q) xs 0 \<and> distinct (map fst xs) \<and>
     tail q = last_addr 0 xs \<and> entries q = of_nat (length xs) \<and> length xs < 2 ^ 32"

definition queue_rep :: "queue \<Rightarrow> ptr list \<Rightarrow> bool" where
  "queue_rep q ds \<longleftrightarrow> (\<exists>xs. queue_cells q xs \<and> map snd xs = ds)"

definition unused :: "ptr \<Rightarrow> queue \<Rightarrow> bool" where
  "unused a q \<longleftrightarrow> a \<noteq> 0 \<and> heap q a = None"

lemma queue_cells_Nil: "queue_cells q [] \<longleftrightarrow> head q = 0 \<and> tail q = 0 \<and> entries q = 0"
  by (auto simp: queue_cells_def)

lemma queue_cells_head: "queue_cells q xs \<Longrightarrow> head q = 0 \<longleftrightarrow> xs = []"
  unfolding queue_cells_def using lseg_0_iff by blast

lemma last_addr_0_iff: "lseg h p xs e \<Longrightarrow> last_addr 0 xs = 0 \<longleftrightarrow> xs = []"
  by (cases xs rule: rev_cases) (auto dest: lseg_dom)

lemma queue_cells_tail: "queue_cells q xs \<Longrightarrow> tail q = 0 \<longleftrightarrow> xs = []"
  by (auto simp: queue_cells_def last_addr_0_iff)

lemma unused_cells: "queue_cells q xs \<Longrightarrow> unused a q \<Longrightarrow> a \<notin> fst ` set xs \<and> a \<noteq> 0"
  by (auto simp: queue_cells_def unused_def dest: lseg_dom)

lemma queue_entries_length: "queue_cells q xs \<Longrightarrow> unat (entries q) = length xs"
  by (simp add: queue_cells_def unat_of_nat_small)

lemma cells_push_tail:
  assumes "queue_cells q xs" and "unused a q" and "Suc (length xs) < 2 ^ 32"
  shows "\<exists>q'. queue_push_tail a (Some q) d = Some (True, Some q') \<and> queue_cells q' (xs @ [(a, d)]) \<and>
     ref_count q' = ref_count q \<and> dom (heap q') = insert a (dom (heap q))"
proof (cases "xs = []")
  case True
  then show ?thesis using assms
    by (auto simp: queue_cells_def queue_entry_new_def unused_def)
next
  case False
  let ?t = "last_addr 0 xs"
  from assms(1) have l: "lseg (heap q) (head q) xs 0" "distinct (map fst xs)" "tail q = ?t"
      "entries q = of_nat (length xs)"
    by (auto simp: queue_cells_def)
  obtain x where x: "heap q ?t = Some x" using lseg_last [OF l(1) False] by auto
  have a: "a \<notin> fst ` set xs" "a \<noteq> 0" using unused_cells [OF assms(1,2)] by auto
  have t: "?t \<noteq> 0" "?t \<noteq> a" using last_addr_0_iff [OF l(1)] False x assms(2) by (auto simp: unused_def)
  let ?h = "(heap q)(a \<mapsto> \<lparr>qe_data = d, qe_next = 0\<rparr>, ?t \<mapsto> x\<lparr>qe_next := a\<rparr>)"
  have "lseg ((heap q)(a \<mapsto> \<lparr>qe_data = d, qe_next = 0\<rparr>)) (head q) xs 0" using l(1) a(1) by simp
  then have "lseg ?h (head q) xs a"
    by (rule lseg_set_last) (use l False x t in auto)
  then have "lseg ?h (head q) (xs @ [(a, d)]) 0" using a t by (auto simp: lseg_append)
  then show ?thesis using l a t x assms(3) False lseg_0_iff [OF l(1)]
    by (auto simp: queue_cells_def queue_entry_new_def set_next_def)
qed

lemma cells_push_head:
  assumes "queue_cells q xs" and "unused a q" and "Suc (length xs) < 2 ^ 32"
  shows "\<exists>q'. queue_push_head a (Some q) d = Some (True, Some q') \<and> queue_cells q' ((a, d) # xs) \<and>
     ref_count q' = ref_count q \<and> dom (heap q') = insert a (dom (heap q))"
  using assms unused_cells [OF assms(1,2)] queue_cells_tail [OF assms(1)]
  by (auto simp: queue_cells_def queue_entry_new_def set_next_def last_addr_def split: if_splits)

lemma cells_pop_head:
  assumes "queue_cells q ((a, d) # xs)"
  shows "\<exists>q'. queue_pop_head (Some q) = Some (d, Some q') \<and> queue_cells q' xs \<and>
     ref_count q' = ref_count q \<and> heap q' = (heap q)(a := None)"
proof -
  from assms obtain n where n: "heap q a = Some \<lparr>qe_data = d, qe_next = n\<rparr>" "lseg (heap q) n xs 0"
      "head q = a" "a \<noteq> 0" "a \<notin> fst ` set xs"
    by (auto simp: queue_cells_def)
  show ?thesis using assms n lseg_0_iff [OF n(2)]
    by (auto simp: queue_cells_def last_addr_def)
qed

section \<open>Searching\<close>

declare queue_scan.simps [simp del]

lemma queue_scan_none:
  "lseg h e xs 0 \<Longrightarrow> \<forall>(a, d) \<in> set xs. \<not> P d \<Longrightarrow> queue_scan h P prev e = Some (last_addr prev xs, 0)"
proof (induction xs arbitrary: e prev)
  case Nil
  then show ?case by (simp add: queue_scan.simps)
next
  case (Cons x xs)
  then show ?case by (cases x) (auto simp: queue_scan.simps [of h P prev e])
qed

lemma queue_scan_found:
  "lseg h e (xs @ (a, d) # ys) 0 \<Longrightarrow> \<forall>(a, d) \<in> set xs. \<not> P d \<Longrightarrow> P d \<Longrightarrow>
   queue_scan h P prev e = Some (last_addr prev xs, a)"
proof (induction xs arbitrary: e prev)
  case Nil
  then show ?case by (subst queue_scan.simps) auto
next
  case (Cons x xs)
  then show ?case by (cases x) (auto simp: queue_scan.simps [of h P prev e])
qed

text \<open>Either no entry matches or there is a first one; its address is not \<open>NULL\<close>.\<close>

lemma queue_scan_cases:
  assumes "queue_cells q xs"
  obtains "\<forall>d \<in> snd ` set xs. \<not> P d"
      "\<And>prev. queue_scan (heap q) P prev (head q) = Some (last_addr prev xs, 0)"
  | ys a d zs where "xs = ys @ (a, d) # zs" "\<forall>d \<in> snd ` set ys. \<not> P d" "P d" "a \<noteq> 0"
      "\<And>prev. queue_scan (heap q) P prev (head q) = Some (last_addr prev ys, a)"
proof (cases "\<exists>x \<in> set xs. P (snd x)")
  case False
  show ?thesis
  proof (rule that(1))
    show "\<forall>d \<in> snd ` set xs. \<not> P d" using False by auto
    show "queue_scan (heap q) P prev (head q) = Some (last_addr prev xs, 0)" for prev
      using False assms by (intro queue_scan_none) (auto simp: queue_cells_def)
  qed
next
  case True
  then obtain ys x zs where x: "xs = ys @ x # zs" "P (snd x)" "\<forall>y \<in> set ys. \<not> P (snd y)"
    by (rule split_list_first_propE)
  obtain a d where ad: "x = (a, d)" by fastforce
  have l: "lseg (heap q) (head q) (ys @ (a, d) # zs) 0"
    using assms x ad by (auto simp: queue_cells_def)
  then have "a \<noteq> 0" by (auto simp: lseg_append)
  then show ?thesis using that(2) x ad queue_scan_found [OF l, of P] by fastforce
qed

lemma cells_entry:
  assumes "queue_cells q (ys @ (a, d) # zs)"
  shows "\<exists>n. heap q a = Some \<lparr>qe_data = d, qe_next = n\<rparr> \<and> lseg (heap q) (head q) ys a \<and>
     lseg (heap q) n zs 0 \<and> (n = 0 \<longleftrightarrow> zs = [])"
  using assms lseg_0_iff by (fastforce simp: queue_cells_def lseg_append)

lemma cells_unlink:
  assumes "queue_cells q (ys @ (a, d) # zs)"
  shows "\<exists>q'. queue_unlink (last_addr 0 ys) a q = Some (d, q') \<and> queue_cells q' (ys @ zs) \<and>
     ref_count q' = ref_count q \<and> dom (heap q') = dom (heap q) - {a}"
proof -
  obtain n where n: "heap q a = Some \<lparr>qe_data = d, qe_next = n\<rparr>" "lseg (heap q) (head q) ys a"
      "lseg (heap q) n zs 0" "n = 0 \<longleftrightarrow> zs = []"
    using cells_entry [OF assms] by blast
  from assms have c: "a \<notin> fst ` set ys" "a \<notin> fst ` set zs" "distinct (map fst ys)"
      "distinct (map fst zs)" "fst ` set ys \<inter> fst ` set zs = {}"
      "entries q = of_nat (Suc (length (ys @ zs)))" "length (ys @ zs) < 2 ^ 32"
      "tail q = last_addr 0 (ys @ (a, d) # zs)"
    by (auto simp: queue_cells_def)
  have ent: "entries q - 1 = of_nat (length (ys @ zs))" using c(6) by simp
  show ?thesis
  proof (cases "ys = []")
    case True
    then show ?thesis using n c ent
      by (auto simp: queue_unlink_def queue_cells_def last_addr_def)
  next
    case False
    let ?p = "last_addr 0 ys"
    obtain x where x: "heap q ?p = Some x" using lseg_last [OF n(2) False] by auto
    have p: "?p \<in> fst ` set ys" using False by (simp add: last_addr_def)
    then have pa: "?p \<noteq> 0" "?p \<noteq> a" "?p \<notin> fst ` set zs"
      using last_addr_0_iff [OF n(2)] False c(1,5) by auto
    have "lseg ((heap q)(?p \<mapsto> x\<lparr>qe_next := n\<rparr>)) (head q) ys n"
      using n(2) c(3) False x by (rule lseg_set_last)
    then have "lseg ((heap q)(?p \<mapsto> x\<lparr>qe_next := n\<rparr>, a := None)) (head q) (ys @ zs) 0"
      using n(3) c(1,2) pa by (auto simp: lseg_append)
    then show ?thesis using n c ent x pa False
      by (auto simp: queue_unlink_def queue_cells_def set_next_def last_addr_def)
  qed
qed

section \<open>Removal\<close>

lemma cells_remove_if:
  assumes "queue_cells q xs"
  shows "\<exists>d q' xs'. queue_remove_if (Some q) f m = Some (d, Some q') \<and> queue_cells q' xs' \<and>
     ref_count q' = ref_count q \<and>
     (if \<exists>c \<in> snd ` set xs. match_fun f m c
      then \<exists>ys a zs. xs = ys @ (a, d) # zs \<and> xs' = ys @ zs \<and> match_fun f m d \<and>
             (\<forall>c \<in> snd ` set ys. \<not> match_fun f m c)
      else d = 0 \<and> q' = q \<and> xs' = xs)"
proof (rule queue_scan_cases [OF assms, of "match_fun f m"], goal_cases)
  case 1
  then show ?case using assms by auto
next
  case (2 ys a d zs)
  obtain q' where "queue_unlink (last_addr 0 ys) a q = Some (d, q')" "queue_cells q' (ys @ zs)"
      "ref_count q' = ref_count q"
    using cells_unlink assms "2"(1) by blast
  then show ?case using "2" by (intro exI [of _ d] exI [of _ q'] exI [of _ "ys @ zs"]) auto
qed

lemma cells_remove:
  assumes "queue_cells q xs"
  shows "\<exists>q' xs'. queue_remove (Some q) d = Some (d \<in> snd ` set xs, Some q') \<and> queue_cells q' xs' \<and>
     ref_count q' = ref_count q \<and> map snd xs' = remove1 d (map snd xs)"
proof (rule queue_scan_cases [OF assms, of "\<lambda>x. x = d"], goal_cases)
  case 1
  then have "d \<notin> set (map snd xs)" by auto
  then show ?case using "1" assms by (auto simp: remove1_idem)
next
  case (2 ys a d' zs)
  obtain q' where "queue_unlink (last_addr 0 ys) a q = Some (d', q')" "queue_cells q' (ys @ zs)"
      "ref_count q' = ref_count q"
    using cells_unlink assms "2"(1) by blast
  moreover have "d \<notin> set (map snd ys)" using "2"(2) by auto
  ultimately show ?case using "2" by (intro exI [of _ q'] exI [of _ "ys @ zs"]) (auto simp: remove1_append)
qed

text \<open>The loop over all matches ends: every round but the last removes an entry.\<close>

declare remove_matching.simps [simp del]

lemma remove_matching_all:
  assumes "queue_cells q xs"
  shows "\<exists>q' xs'. remove_matching f m (Some q) c out =
       Some (c + of_nat (length (filter (\<lambda>d. f d m) (map snd xs))), Some q',
             out @ filter (\<lambda>d. f d m) (map snd xs)) \<and>
     queue_cells q' xs' \<and> ref_count q' = ref_count q \<and> map snd xs' = filter (\<lambda>d. \<not> f d m) (map snd xs)"
  using assms
proof (induction "length xs" arbitrary: q xs c out rule: less_induct)
  case less
  obtain d q' xs' where r: "queue_remove_if (Some q) (Some f) m = Some (d, Some q')" "queue_cells q' xs'"
      "ref_count q' = ref_count q"
      "if \<exists>c \<in> snd ` set xs. f c m
       then \<exists>ys a zs. xs = ys @ (a, d) # zs \<and> xs' = ys @ zs \<and> f d m \<and> (\<forall>c \<in> snd ` set ys. \<not> f c m)
       else d = 0 \<and> q' = q \<and> xs' = xs"
    using cells_remove_if [OF less.prems, of "Some f" m] unfolding match_fun_def option.case by blast
  show ?case
  proof (cases "\<exists>c \<in> snd ` set xs. f c m")
    case False
    then have flt: "filter (\<lambda>d. f d m) (map snd xs) = []" "filter (\<lambda>d. \<not> f d m) (map snd xs) = map snd xs"
      by (auto simp: filter_empty_conv filter_id_conv)
    have eq: "q' = q" "xs' = xs" using r(4) False by simp_all
    have "remove_matching f m (Some q) c out = Some (c, Some q, out)"
      unfolding remove_matching.simps [of f m "Some q" c out] r(1) eq bind.bind_lunit snd_conv
      by (simp only: refl if_True)
    then show ?thesis unfolding flt using less.prems
      by (intro exI [of _ q] exI [of _ xs]) (simp only: list.size append_Nil2 refl simp_thms, simp)
  next
    case True
    then obtain ys a zs where x: "xs = ys @ (a, d) # zs" "xs' = ys @ zs" "f d m"
        "\<forall>c \<in> snd ` set ys. \<not> f c m"
      using r(4) [unfolded if_P [OF True]] by blast
    have ys: "filter (\<lambda>d. f d m) (map snd ys) = []" "filter (\<lambda>d. \<not> f d m) (map snd ys) = map snd ys"
      using x(4) by (auto simp: filter_empty_conv filter_id_conv)
    have "entries q' \<noteq> entries q"
      using queue_entries_length [OF less.prems] queue_entries_length [OF r(2)] x(1,2) by auto
    then have "remove_matching f m (Some q) c out = remove_matching f m (Some q') (c + 1) (out @ [d])"
      using r(1) by (subst remove_matching.simps) (simp del: queue_remove_if.simps)
    moreover have "length xs' < length xs" using x by simp
    note IH = less.hyps [OF this r(2), of "c + 1" "out @ [d]"]
    have "filter (\<lambda>d. f d m) (map snd xs) = d # filter (\<lambda>d. f d m) (map snd xs')"
      "filter (\<lambda>d. \<not> f d m) (map snd xs) = filter (\<lambda>d. \<not> f d m) (map snd xs')"
      using x(1-3) ys by simp_all
    ultimately show ?thesis using IH r(3) by (simp add: add.assoc)
  qed
qed

declare free_entries.simps [simp del]

lemma free_entries_all:
  assumes "lseg (heap q) e xs 0" and "distinct (map fst xs)"
  shows "free_entries e q c out = Some (c + of_nat (length xs),
     q\<lparr>heap := heap q |` (- fst ` set xs)\<rparr>, out @ map snd xs)"
  using assms
proof (induction xs arbitrary: e q c out)
  case Nil
  then show ?case by (simp add: free_entries.simps)
next
  case (Cons x xs)
  obtain a d where x: "x = (a, d)" by fastforce
  with Cons.prems obtain n where n: "heap q a = Some \<lparr>qe_data = d, qe_next = n\<rparr>" "lseg (heap q) n xs 0"
      "e = a" "a \<noteq> 0" "a \<notin> fst ` set xs" "distinct (map fst xs)"
    by auto
  let ?q = "q\<lparr>heap := (heap q)(a := None)\<rparr>"
  have "lseg (heap ?q) n xs 0" using n by simp
  then have "free_entries n ?q (c + 1) (out @ [d]) = Some (c + 1 + of_nat (length xs),
      ?q\<lparr>heap := heap ?q |` (- fst ` set xs)\<rparr>, (out @ [d]) @ map snd xs)"
    using n(6) by (rule Cons.IH)
  moreover have "heap ?q |` (- fst ` set xs) = heap q |` (- insert a (fst ` set xs))"
    by (auto simp: restrict_map_def fun_eq_iff)
  moreover have "free_entries e q c out = free_entries n ?q (c + 1) (out @ [d])"
    using n by (subst free_entries.simps) simp
  ultimately show ?case using x by (simp add: algebra_simps)
qed

section \<open>Insertion after an entry\<close>

fun insert_after :: "'a \<Rightarrow> 'a \<Rightarrow> 'a list \<Rightarrow> 'a list" where
  "insert_after e d [] = []"
| "insert_after e d (x # xs) = (if x = e then x # d # xs else x # insert_after e d xs)"

lemma insert_after_split:
  "e \<notin> set xs \<Longrightarrow> insert_after e d (xs @ e # ys) = xs @ e # d # ys"
  "e \<notin> set xs \<Longrightarrow> insert_after e d xs = xs"
  by (induction xs) auto

lemma cells_push_after:
  assumes "queue_cells q xs" and "unused a q" and "Suc (length xs) < 2 ^ 32"
  shows "\<exists>q' xs'. queue_push_after a (Some q) ent d = Some (ent \<in> snd ` set xs, Some q') \<and>
     queue_cells q' xs' \<and> ref_count q' = ref_count q \<and> map snd xs' = insert_after ent d (map snd xs)"
proof (rule queue_scan_cases [OF assms(1), of "\<lambda>x. x = ent"], goal_cases)
  case 1
  then have "ent \<notin> set (map snd xs)" by auto
  then show ?case using "1" assms by (auto simp: insert_after_split)
next
  case (2 ys b e zs)
  obtain n where n: "heap q b = Some \<lparr>qe_data = e, qe_next = n\<rparr>" "lseg (heap q) (head q) ys b"
      "lseg (heap q) n zs 0" "n = 0 \<longleftrightarrow> zs = []"
    using cells_entry assms(1) "2"(1) by blast
  have a: "a \<notin> fst ` set ys" "a \<notin> fst ` set zs" "a \<noteq> 0"
    using unused_cells [OF assms(1,2)] "2"(1) by auto
  have c: "b \<notin> fst ` set ys" "b \<notin> fst ` set zs" "distinct (map fst xs)" "a \<noteq> b"
      "entries q = of_nat (length xs)" "tail q = last_addr 0 xs"
    using assms(1,2) "2"(1) n(1) by (auto simp: queue_cells_def unused_def)
  let ?h = "(heap q)(a \<mapsto> \<lparr>qe_data = d, qe_next = n\<rparr>, b \<mapsto> \<lparr>qe_data = e, qe_next = a\<rparr>)"
  have "lseg ?h (head q) (ys @ (b, e) # (a, d) # zs) 0"
    using n a c "2"(1,4) by (auto simp: lseg_append)
  moreover have "distinct (map fst (ys @ (b, e) # (a, d) # zs))" using a c "2"(1) by auto
  moreover have "map snd (ys @ (b, e) # (a, d) # zs) = insert_after ent d (map snd xs)"
  proof -
    have "ent \<notin> set (map snd ys)" using "2"(2) by auto
    then show ?thesis using "2"(1,3) by (simp add: insert_after_split)
  qed
  ultimately show ?case using n c a "2" assms(3)
    by (intro exI [of _ "q\<lparr>heap := ?h, tail := (if n = 0 then a else tail q), entries := entries q + 1\<rparr>"]
        exI [of _ "ys @ (b, e) # (a, d) # zs"])
      (auto simp: queue_cells_def queue_entry_new_def set_next_def last_addr_def)
qed

section \<open>Iteration\<close>

declare foreach_loop.simps [simp del]

text \<open>A callback that leaves the queue alone is called once for every datum, in order.\<close>

lemma foreach_loop_fold:
  assumes "lseg (heap q) e xs 0" and "head q \<noteq> 0" and "1 < ref_count q"
    and "\<And>d s. d \<in> snd ` set xs \<Longrightarrow> f d (q, s) = Some (q, g d s)"
  shows "foreach_loop f e (q, s) = Some (q, fold g (map snd xs) s)"
  using assms(1,4)
proof (induction xs arbitrary: e s)
  case Nil
  then show ?case by (subst foreach_loop.simps) simp
next
  case (Cons x xs)
  obtain a d where x: "x = (a, d)" by fastforce
  with Cons.prems(1) obtain n where n: "heap q a = Some \<lparr>qe_data = d, qe_next = n\<rparr>"
      "lseg (heap q) n xs 0" "e = a" "a \<noteq> 0" by auto
  have "f d (q, s) = Some (q, g d s)" using Cons.prems(2) x by simp
  then have "foreach_loop f e (q, s) = foreach_loop f n (q, g d s)"
    using n assms(2,3) by (subst foreach_loop.simps) simp
  also have "\<dots> = Some (q, fold g (map snd xs) (g d s))"
    using n(2) Cons.prems(2) by (intro Cons.IH) auto
  finally show ?case using x by simp
qed

section \<open>The queue as a first-in first-out buffer\<close>

definition push_chunk :: "ptr \<times> ptr \<Rightarrow> queue \<Rightarrow> queue option" where
  "push_chunk c q = (case queue_push_tail (fst c) (Some q) (snd c) of
     Some (True, Some q') \<Rightarrow> Some q' | _ \<Rightarrow> None)"

definition pop_chunk :: "unit \<Rightarrow> queue \<Rightarrow> (ptr list \<times> queue) option" where
  "pop_chunk u q =
     (if queue_isempty (Some q) then Some ([], q)
      else case queue_pop_head (Some q) of Some (d, Some q') \<Rightarrow> Some ([d], q') | _ \<Rightarrow> None)"

definition may_push :: "queue \<Rightarrow> ptr \<times> ptr \<Rightarrow> bool" where
  "may_push q c \<longleftrightarrow> unused (fst c) q \<and> Suc (unat (entries q)) < 2 ^ 32"

lemma cells_isempty: "queue_cells q xs \<Longrightarrow> queue_isempty (Some q) \<longleftrightarrow> xs = []"
  using queue_entries_length [of q xs] by (auto simp: unat_0_iff [symmetric])

interpretation queue_fifo: fifo queue_rep may_push "\<lambda>c. [snd c]" push_chunk pop_chunk
proof (unfold_locales, goal_cases)
  case (1 q ds c)
  then obtain xs where xs: "queue_cells q xs" "map snd xs = ds" by (auto simp: queue_rep_def)
  with "1"(2) cells_push_tail [OF xs(1), of "fst c" "snd c"] queue_entries_length [OF xs(1)]
  obtain q' where "queue_push_tail (fst c) (Some q) (snd c) = Some (True, Some q')"
      "queue_cells q' (xs @ [(fst c, snd c)])"
    by (auto simp: may_push_def)
  then show ?case using xs(2)
    by (auto simp: push_chunk_def queue_rep_def intro!: exI [of _ "xs @ [(fst c, snd c)]"])
next
  case (2 q ds p)
  then obtain xs where xs: "queue_cells q xs" "map snd xs = ds" by (auto simp: queue_rep_def)
  show ?case
  proof (cases xs)
    case Nil
    then show ?thesis using xs cells_isempty [OF xs(1)] by (auto simp: pop_chunk_def queue_rep_def)
  next
    case (Cons x xs')
    obtain a d where x: "x = (a, d)" by fastforce
    with Cons xs(1) obtain q' where "queue_pop_head (Some q) = Some (d, Some q')" "queue_cells q' xs'"
      using cells_pop_head by blast
    then show ?thesis using Cons x xs cells_isempty [OF xs(1)]
      by (auto simp: pop_chunk_def queue_rep_def simp del: queue_pop_head.simps queue_isempty.simps)
  qed
qed

section \<open>Properties\<close>

lemma queue_rep_new: "queue_rep (queue_new h) [] \<and> ref_count (queue_new h) = 1"
  by (auto simp: queue_rep_def queue_new_def queue_ref_def queue_cells_Nil)

text \<open>A queue with two entries, for the concrete instances below.\<close>

definition two_entries :: queue where
  "two_entries = \<lparr>ref_count = 1, head = 1, tail = 2, entries = 2,
     heap = [1 \<mapsto> \<lparr>qe_data = 7, qe_next = 2\<rparr>, 2 \<mapsto> \<lparr>qe_data = 8, qe_next = 0\<rparr>]\<rparr>"

lemma queue_rep_two_entries: "queue_rep two_entries [7, 8]"
  unfolding queue_rep_def two_entries_def
  by (rule exI [of _ "[(1, 7), (2, 8)]"]) (simp add: queue_cells_def last_addr_def)

text \<open>C3: Whatever sequence of pushes and pops is run on a new queue, what is popped followed by
  what is left in the queue is what was pushed: the order is kept, nothing is lost and nothing
  comes twice.\<close>

theorem queue_fifo_order:
  assumes "fifo_run may_push (\<lambda>c. [snd c]) push_chunk pop_chunk es (queue_new h) = Some (pushed, popped, q)"
  shows "\<exists>ds. queue_rep q ds \<and> pushed = popped @ ds"
  using queue_fifo.run_order [OF conjunct1 [OF queue_rep_new] assms] by simp

theorem queue_fifo_order_witness:
  "\<exists>q ds. fifo_run may_push (\<lambda>c. [snd c]) push_chunk pop_chunk [Push (1, 7), Push (2, 8), Pop ()]
       (queue_new Map.empty) = Some ([7, 8], [7], q) \<and> queue_rep q ds \<and> [7, 8] = [7] @ ds"
proof -
  have "\<exists>q. fifo_run may_push (\<lambda>c. [snd c]) push_chunk pop_chunk [Push (1, 7), Push (2, 8), Pop ()]
       (queue_new Map.empty) = Some ([7, 8], [7], q)"
    by (simp add: may_push_def unused_def queue_new_def queue_ref_def push_chunk_def
        queue_entry_new_def set_next_def pop_chunk_def)
  then obtain q where q: "fifo_run may_push (\<lambda>c. [snd c]) push_chunk pop_chunk
      [Push (1, 7), Push (2, 8), Pop ()] (queue_new Map.empty) = Some ([7, 8], [7], q)" ..
  show ?thesis using q queue_fifo_order [OF q] by blast
qed

text \<open>\<open>queue_push_tail\<close> and \<open>queue_push_head\<close> store one entry at their end of the
  queue, whatever the queue held, and keep the count, the pointers and the references right.\<close>

theorem queue_push_rep:
  assumes "queue_rep q ds" and "unused a q" and "Suc (length ds) < 2 ^ 32"
  shows "(\<exists>q'. queue_push_tail a (Some q) d = Some (True, Some q') \<and> queue_rep q' (ds @ [d]) \<and>
            queue_length (Some q') = of_nat (Suc (length ds)) \<and> ref_count q' = ref_count q) \<and>
         (\<exists>q'. queue_push_head a (Some q) d = Some (True, Some q') \<and> queue_rep q' (d # ds) \<and>
            queue_length (Some q') = of_nat (Suc (length ds)) \<and> ref_count q' = ref_count q)"
proof -
  obtain xs where xs: "queue_cells q xs" "map snd xs = ds" using assms(1) by (auto simp: queue_rep_def)
  then have len: "Suc (length xs) < 2 ^ 32" using assms(3) by auto
  have rep: "queue_rep p (map snd ys) \<and> queue_length (Some p) = of_nat (length ys)"
    if "queue_cells p ys" for p ys
    using that by (auto simp: queue_rep_def queue_cells_def)
  show ?thesis
    using cells_push_tail [OF xs(1) assms(2) len, of d] cells_push_head [OF xs(1) assms(2) len, of d]
      rep [of _ "xs @ [(a, d)]"] rep [of _ "(a, d) # xs"] xs(2)
    by (fastforce simp del: queue_push_tail.simps queue_push_head.simps queue_length.simps)
qed

theorem queue_push_rep_witness:
  "\<exists>q'. queue_push_tail 3 (Some two_entries) 5 = Some (True, Some q') \<and> queue_rep q' [7, 8, 5]"
  using queue_push_rep [OF queue_rep_two_entries, of 3 5]
  by (auto simp: unused_def two_entries_def simp del: queue_push_tail.simps queue_push_head.simps)

text \<open>\<open>queue_push_after\<close> inserts behind the first entry that holds the given datum, and
  reports failure, leaving the contents alone, when there is none.\<close>

theorem queue_push_after_rep:
  assumes "queue_rep q ds" and "unused a q" and "Suc (length ds) < 2 ^ 32"
  shows "\<exists>q'. queue_push_after a (Some q) ent d = Some (ent \<in> set ds, Some q') \<and>
     queue_rep q' (insert_after ent d ds) \<and> ref_count q' = ref_count q"
proof -
  obtain xs where xs: "queue_cells q xs" "map snd xs = ds" using assms(1) by (auto simp: queue_rep_def)
  then have "Suc (length xs) < 2 ^ 32" using assms(3) by auto
  from cells_push_after [OF xs(1) assms(2) this, of ent d] xs(2) show ?thesis
    unfolding queue_rep_def by (metis set_map)
qed

theorem queue_push_after_rep_witness:
  "\<exists>q'. queue_push_after 3 (Some two_entries) 7 5 = Some (True, Some q') \<and> queue_rep q' [7, 5, 8]"
  using queue_push_after_rep [OF queue_rep_two_entries, of 3 7 5]
  by (auto simp: unused_def two_entries_def simp del: queue_push_after.simps)

text \<open>\<open>queue_remove\<close> takes out the first entry with the datum (from the head, the middle
  or the tail) and says whether there was one.\<close>

theorem queue_remove_rep:
  assumes "queue_rep q ds"
  shows "\<exists>q'. queue_remove (Some q) d = Some (d \<in> set ds, Some q') \<and> queue_rep q' (remove1 d ds) \<and>
     ref_count q' = ref_count q"
proof -
  obtain xs where xs: "queue_cells q xs" "map snd xs = ds" using assms(1) by (auto simp: queue_rep_def)
  from cells_remove [OF xs(1), of d] xs(2) show ?thesis
    unfolding queue_rep_def by (metis set_map)
qed

theorem queue_remove_rep_witness:
  "\<exists>q'. queue_remove (Some two_entries) 8 = Some (True, Some q') \<and> queue_rep q' [7]"
  using queue_remove_rep [OF queue_rep_two_entries, of 8] by (auto simp del: queue_remove.simps)

text \<open>\<open>queue_remove_all\<close> ends; with a match function it hands the matching data to the
  destroy callback in queue order and keeps the others, without one it empties the queue; the
  count is the number of entries removed.\<close>

theorem queue_remove_all_rep:
  assumes "queue_rep q ds"
  shows "(\<exists>q'. queue_remove_all (Some q) (Some f) m =
            Some (of_nat (length (filter (\<lambda>d. f d m) ds)), Some q', filter (\<lambda>d. f d m) ds) \<and>
            queue_rep q' (filter (\<lambda>d. \<not> f d m) ds) \<and> ref_count q' = ref_count q) \<and>
         (\<exists>q'. queue_remove_all (Some q) None m = Some (of_nat (length ds), Some q', ds) \<and>
            queue_rep q' [] \<and> ref_count q' = ref_count q)"
proof -
  obtain xs where xs: "queue_cells q xs" "map snd xs = ds" using assms(1) by (auto simp: queue_rep_def)
  have 1: "\<exists>q'. queue_remove_all (Some q) (Some f) m =
      Some (of_nat (length (filter (\<lambda>d. f d m) ds)), Some q', filter (\<lambda>d. f d m) ds) \<and>
      queue_rep q' (filter (\<lambda>d. \<not> f d m) ds) \<and> ref_count q' = ref_count q"
  proof (cases "xs = []")
    case True
    then show ?thesis using xs queue_cells_head [OF xs(1)] by (auto simp: queue_rep_def)
  next
    case False
    then show ?thesis
      using remove_matching_all [OF xs(1), of f m 0 "[]"] queue_cells_head [OF xs(1)] xs(2)
      by (auto simp: queue_rep_def)
  qed
  have "lseg (heap (q\<lparr>head := 0, tail := 0, entries := 0\<rparr>)) (head q) xs 0" "distinct (map fst xs)"
    using xs(1) by (auto simp: queue_cells_def)
  from free_entries_all [OF this, of 0 "[]"] xs(2) 1 show ?thesis
    by (auto simp: queue_rep_def queue_cells_Nil)
qed

theorem queue_remove_all_rep_witness:
  "\<exists>q'. queue_remove_all (Some two_entries) (Some (=)) 7 = Some (1, Some q', [7]) \<and> queue_rep q' [8]"
  using queue_remove_all_rep [OF queue_rep_two_entries, of "(=)" 7]
  by (auto simp del: queue_remove_all.simps)

text \<open>\<open>queue_foreach\<close> with a callback that does not touch the queue calls it exactly once
  for each datum, in order, and gives the queue back unchanged, its reference count included.\<close>

theorem queue_foreach_fold:
  assumes "queue_rep q ds" and "0 < ref_count q"
    and "\<And>d p s. d \<in> set ds \<Longrightarrow> f d (p, s) = Some (p, g d s)"
  shows "queue_foreach (Some q) (Some f) s = Some (Some q, fold g ds s)"
proof -
  obtain xs where xs: "queue_cells q xs" "map snd xs = ds" using assms(1) by (auto simp: queue_rep_def)
  show ?thesis
  proof (cases "xs = []")
    case True
    then show ?thesis using xs queue_cells_head [OF xs(1)] by auto
  next
    case False
    have "foreach_loop f (head q) (queue_ref q, s) = Some (queue_ref q, fold g (map snd xs) s)"
      using xs False assms(2) queue_cells_head [OF xs(1)]
      by (intro foreach_loop_fold assms(3)) (force simp: queue_cells_def queue_ref_def)+
    then show ?thesis using False queue_cells_head [OF xs(1)] xs(2) assms(2)
      by (simp add: queue_unref_def queue_ref_def Let_def)
  qed
qed

theorem queue_foreach_fold_witness:
  "queue_foreach (Some two_entries) (Some (\<lambda>d (p, s). Some (p, s @ [d]))) [] =
     Some (Some two_entries, fold (\<lambda>d s. s @ [d]) [7, 8] [])"
  by (rule queue_foreach_fold [OF queue_rep_two_entries]) (simp_all add: two_entries_def)

end
