(* ===== verification/Shared_Ringbuf.thy ===== *)
theory Shared_Ringbuf
  imports Fifo_Interface Blue_Prelude
begin

text \<open>
  The byte ring buffer of \<open>src/shared/ringbuf.c\<close>: a buffer whose size is a power of two and two
  free running 64 bit positions, masked on access. The system calls \<open>readv\<close> and \<open>writev\<close>
  and the formatting of \<open>vasprintf\<close> are arguments of the operations that use them; the input
  tracing callback is the list of the chunks it is called with.
\<close>

section \<open>State\<close>

record ringbuf =
  buffer :: "u8 list"
  size :: u64
  rb_in :: u64
  rb_out :: u64
  in_tracing :: bool

section \<open>Operations\<close>

text \<open>\<open>__builtin_clz\<close>: the number of leading zero bits of a non-zero word.\<close>

definition clz32 :: "u32 \<Rightarrow> nat" where
  "clz32 x = length (takeWhile (\<lambda>i. \<not> bit x i) (rev [0..<32]))"

definition fls :: "u32 \<Rightarrow> nat" where
  "fls x = (if x \<noteq> 0 then 32 - clz32 x else 0)"

text \<open>
  A shift of the 32 bit one by 32 is undefined. A shift by 31 goes into the sign bit of the
  \<open>int\<close>, which the compiler defines, and the result is converted back to \<open>unsigned\<close>.
\<close>

definition align_power2 :: "u32 \<Rightarrow> u32 option" where
  "align_power2 u = (if fls (u - 1) < 32 then Some (push_bit (fls (u - 1)) 1) else None)"

text \<open>
  \<open>malloc\<close> is the argument \<open>alloc\<close>: a block of the size asked for, with any contents, or
  \<^const>\<open>None\<close>. The outer \<^const>\<open>None\<close> is undefined behaviour, the inner one the
  \<open>NULL\<close> result.
\<close>

definition ringbuf_new :: "(nat \<Rightarrow> u8 list option) \<Rightarrow> u64 \<Rightarrow> ringbuf option option" where
  "ringbuf_new alloc sz =
     (if sz < 2 \<or> 0xFFFFFFFF < sz then Some None
      else do {
        real \<leftarrow> align_power2 (ucast sz);
        Some (map_option (\<lambda>b. \<lparr>buffer = b, size = ucast real, rb_in = 0, rb_out = 0,
                                in_tracing = False\<rparr>) (alloc (unat real))) })"

fun ringbuf_set_input_tracing :: "ringbuf option \<Rightarrow> bool \<Rightarrow> bool \<times> ringbuf option" where
  "ringbuf_set_input_tracing None callback = (False, None)"
| "ringbuf_set_input_tracing (Some rb) callback = (True, Some (rb\<lparr>in_tracing := callback\<rparr>))"

fun ringbuf_capacity :: "ringbuf option \<Rightarrow> u64" where
  "ringbuf_capacity None = 0"
| "ringbuf_capacity (Some rb) = size rb"

fun ringbuf_len :: "ringbuf option \<Rightarrow> u64" where
  "ringbuf_len None = 0"
| "ringbuf_len (Some rb) = rb_in rb - rb_out rb"

text \<open>Positions go back to the start when the buffer has become empty.\<close>

definition rb_reset_if_empty :: "ringbuf \<Rightarrow> ringbuf" where
  "rb_reset_if_empty rb = (if rb_out rb = rb_in rb then rb\<lparr>rb_in := 0, rb_out := 0\<rparr> else rb)"

fun ringbuf_drain :: "ringbuf option \<Rightarrow> u64 \<Rightarrow> u64 \<times> ringbuf option" where
  "ringbuf_drain None count = (0, None)"
| "ringbuf_drain (Some rb) count =
     (let len = min count (rb_in rb - rb_out rb)
      in if len = 0 then (0, Some rb)
         else (len, Some (rb_reset_if_empty (rb\<lparr>rb_out := rb_out rb + len\<rparr>))))"

text \<open>The result is the position in the buffer the pointer points to and \<open>*len_nowrap\<close>.\<close>

fun ringbuf_peek :: "ringbuf option \<Rightarrow> u64 \<Rightarrow> (u64 \<times> u64) option" where
  "ringbuf_peek None off = None"
| "ringbuf_peek (Some rb) off =
     (let off = (rb_out rb + off) AND (size rb - 1);
          len = rb_in rb - rb_out rb
      in Some (off, min len (size rb - off)))"

text \<open>
  \<open>writev\<close> is given the two chunks and answers how much it took, or a negative number; the last
  component is what went out to the descriptor.
\<close>

fun ringbuf_write ::
  "ringbuf option \<Rightarrow> int \<Rightarrow> (u8 list \<Rightarrow> u8 list \<Rightarrow> int) \<Rightarrow> (int \<times> ringbuf option \<times> u8 list) option" where
  "ringbuf_write None fd writev = Some (-1, None, [])"
| "ringbuf_write (Some rb) fd writev =
     (if fd < 0 then Some (-1, Some rb, [])
      else let len = rb_in rb - rb_out rb
        in if len = 0 then Some (0, Some rb, [])
        else do {
          let offset = rb_out rb AND (size rb - 1);
          let endp = min len (size rb - offset);
          v0 \<leftarrow> buf_read (buffer rb) (unat offset) (unat endp);
          v1 \<leftarrow> buf_read (buffer rb) 0 (unat (len - endp));
          let consumed = writev v0 v1;
          if consumed < 0 then Some (-1, Some rb, [])
          else Some (consumed, Some (rb_reset_if_empty (rb\<lparr>rb_out := rb_out rb + of_int consumed\<rparr>)),
                     take (nat consumed) (v0 @ v1)) })"

fun ringbuf_avail :: "ringbuf option \<Rightarrow> u64" where
  "ringbuf_avail None = 0"
| "ringbuf_avail (Some rb) = size rb - rb_in rb + rb_out rb"

text \<open>
  \<open>str\<close> is what \<open>vasprintf\<close> produced, \<^const>\<open>None\<close> for its negative result; the
  third component of the result is what the tracing callback was called with.
\<close>

fun ringbuf_vprintf :: "ringbuf option \<Rightarrow> u8 list option \<Rightarrow> (int \<times> ringbuf option \<times> u8 list list) option" where
  "ringbuf_vprintf None str = Some (-1, None, [])"
| "ringbuf_vprintf (Some rb) str =
     (let avail = size rb - rb_in rb + rb_out rb
      in if avail = 0 then Some (-1, Some rb, [])
         else case str of
           None \<Rightarrow> Some (-1, Some rb, [])
         | Some s \<Rightarrow>
             (let len = (of_nat (length s) :: u64)
              in if avail < len then Some (-1, Some rb, [])
                 else do {
                   let offset = rb_in rb AND (size rb - 1);
                   let endp = min len (size rb - offset);
                   b \<leftarrow> buf_write (buffer rb) (unat offset) (take (unat endp) s);
                   let tr0 = (if in_tracing rb then [take (unat endp) s] else []);
                   (b, tr1) \<leftarrow>
                     (if 0 < len - endp then do {
                        b \<leftarrow> buf_write b 0 (drop (unat endp) s);
                        Some (b, if in_tracing rb then [drop (unat endp) s] else []) }
                      else Some (b, []));
                   Some (int (length s), Some (rb\<lparr>buffer := b, rb_in := rb_in rb + len\<rparr>), tr0 @ tr1) }))"

text \<open>
  \<open>readv\<close> is given the sizes of the two vectors and answers the bytes it delivered, which fill
  the first vector before the second, or \<^const>\<open>None\<close> for an error.
\<close>

fun ringbuf_read ::
  "ringbuf option \<Rightarrow> int \<Rightarrow> (nat \<Rightarrow> nat \<Rightarrow> u8 list option) \<Rightarrow> (int \<times> ringbuf option \<times> u8 list list) option" where
  "ringbuf_read None fd readv = Some (-1, None, [])"
| "ringbuf_read (Some rb) fd readv =
     (let avail = size rb - rb_in rb + rb_out rb
      in if fd < 0 \<or> avail = 0 then Some (-1, Some rb, [])
         else let offset = rb_in rb AND (size rb - 1); endp = min avail (size rb - offset)
           in case readv (unat endp) (unat (avail - endp)) of
                None \<Rightarrow> Some (-1, Some rb, [])
              | Some d \<Rightarrow> do {
                  b \<leftarrow> buf_write (buffer rb) (unat offset) (take (unat endp) d);
                  b \<leftarrow> buf_write b 0 (drop (unat endp) d);
                  let consumed = (of_nat (length d) :: u64);
                  let len = min consumed endp;
                  let tr = (if in_tracing rb
                     then take (unat len) (drop (unat offset) b) #
                       (if 0 < consumed - len then [take (unat (consumed - len)) b] else [])
                     else []);
                  Some (int (length d), Some (rb\<lparr>buffer := b, rb_in := rb_in rb + consumed\<rparr>), tr) })"

section \<open>Rings of bytes\<close>

definition ring :: "'a list \<Rightarrow> nat \<Rightarrow> nat \<Rightarrow> 'a list" where
  "ring b p n = map (\<lambda>i. b ! ((p + i) mod length b)) [0..<n]"

lemma ring_length [simp]: "length (ring b p n) = n"
  by (simp add: ring_def)

lemma ring_0 [simp]: "ring b p 0 = []"
  by (simp add: ring_def)

lemma ring_nth: "i < n \<Longrightarrow> ring b p n ! i = b ! ((p + i) mod length b)"
  by (simp add: ring_def)

lemma ring_append: "ring b p (m + n) = ring b p m @ ring b (p + m) n"
  by (rule nth_equalityI) (auto simp: ring_nth nth_append ac_simps)

lemma ring_mod: "ring b (p mod length b) n = ring b p n"
  by (simp add: ring_def mod_add_left_eq)

lemma mod_add_inj:
  "(p + i) mod n = (p + j) mod n \<Longrightarrow> i < n \<Longrightarrow> j < n \<Longrightarrow> i = (j :: nat)"
proof (induction i j rule: linorder_wlog)
  case (le i j)
  then have "n dvd (p + j) - (p + i)" by (subst mod_eq_dvd_iff_nat [symmetric]) auto
  then have "n dvd j - i" by simp
  with le show ?case by (auto dest: dvd_imp_le)
qed auto

lemma mod_once: "n \<le> x \<Longrightarrow> x < 2 * n \<Longrightarrow> x mod n = x - (n :: nat)"
  by (simp add: mod_if)

text \<open>Reading with one wrap is reading the two chunks.\<close>

lemma ring_chunks:
  assumes "p < length b" and "n \<le> length b"
  shows "ring b p n = take n (drop p b) @ take (n - (length b - p)) b"
proof (rule nth_equalityI)
  show "length (ring b p n) = length (take n (drop p b) @ take (n - (length b - p)) b)"
    using assms by simp
  fix i
  assume "i < length (ring b p n)"
  then have i: "i < n" by simp
  show "ring b p n ! i = (take n (drop p b) @ take (n - (length b - p)) b) ! i"
  proof (cases "p + i < length b")
    case True
    then have "i < length b - p" by simp
    with True i assms show ?thesis by (simp add: ring_nth nth_append)
  next
    case False
    then have "(p + i) mod length b = p + i - length b" using i assms by (intro mod_once) auto
    with False i assms show ?thesis by (simp add: ring_nth nth_append min_def) (auto simp: algebra_simps)
  qed
qed

text \<open>What a position of the buffer holds after a string was stored with one wrap.\<close>

lemma store_nth:
  assumes "p < length b" and "length s \<le> length b" and "e = min (length s) (length b - p)"
    and "buf_write b p (take e s) = Some b1" and "buf_write b1 0 (drop e s) = Some b2"
    and "j < length b"
  shows "b2 ! j = (if p \<le> j \<and> j < p + e then s ! (j - p)
           else if j < length s - e then s ! (e + j) else b ! j)"
proof -
  have len: "length b1 = length b" using assms(4) by (rule buf_write_length)
  have j2: "b2 ! j = (if j < length s - e then s ! (e + j) else b1 ! j)"
    using nth_buf_write [OF assms(5), of j] assms(3,6) len by auto
  have nt: "p \<le> j \<and> j < p + e \<Longrightarrow> take e s ! (j - p) = s ! (j - p)" by (intro nth_take) auto
  have l: "length (take e s) = e" using assms(3) by simp
  have "b1 ! j = (if p \<le> j \<and> j < p + e then take e s ! (j - p) else b ! j)"
    using nth_buf_write [OF assms(4,6)] unfolding l .
  then have j1: "b1 ! j = (if p \<le> j \<and> j < p + e then s ! (j - p) else b ! j)"
    using nt by presburger
  have "\<not> (p \<le> j \<and> j < length s - e)" using assms(1-3) by auto
  then show ?thesis using j1 j2 by auto
qed

text \<open>Both chunks can be read back.\<close>

lemma store_read:
  assumes "buf_write b p (take m d) = Some b1" and "buf_write b1 0 (drop m d) = Some b2"
    and "p < length b" and "length d \<le> length b" and "length d \<le> m \<or> m = length b - p"
  shows "take (min (length d) m) (drop p b2) = take m d"
    and "take (length d - min (length d) m) b2 = drop m d"
proof -
  have l1: "length b1 = length b" and l2: "length b2 = length b"
    using assms(1,2) by (auto dest!: buf_write_length)
  show "take (min (length d) m) (drop p b2) = take m d"
  proof (rule nth_equalityI)
    have fits: "p + min (length d) m \<le> length b"
      using assms(1) by (auto simp: buf_write_eq_Some)
    then show "length (take (min (length d) m) (drop p b2)) = length (take m d)"
      using l2 by simp
    fix i assume "i < length (take (min (length d) m) (drop p b2))"
    then have i: "i < length d" "i < m" by auto
    then have n: "p + i < length b" using fits by simp
    have no: "\<not> p + i < length d - m" using assms(3-5) by linarith
    have "b2 ! (p + i) = b1 ! (p + i)"
      using nth_buf_write [OF assms(2), of "p + i"] no l1 n by simp
    moreover have "b1 ! (p + i) = d ! i"
      using nth_buf_write [OF assms(1), of "p + i"] i n by simp
    ultimately show "take (min (length d) m) (drop p b2) ! i = take m d ! i"
      using i n l2 by simp
  qed
  show "take (length d - min (length d) m) b2 = drop m d"
    using assms(2) by (cases "length d \<le> m") (auto simp: buf_write_eq_Some min_def)
qed

text \<open>
  Storing a string behind \<open>m\<close> bytes that are in the ring, the part that does not fit at the
  beginning, appends it to the ring.
\<close>

lemma ring_store:
  assumes "p = (q + m) mod length b" and "m + length s \<le> length b" and "b \<noteq> []"
    and "e = min (length s) (length b - p)"
    and "buf_write b p (take e s) = Some b1" and "buf_write b1 0 (drop e s) = Some b2"
  shows "ring b2 q (m + length s) = ring b q m @ s"
proof -
  let ?N = "length b"
  have N: "0 < ?N" "p < ?N" using assms(1,3) by auto
  have len: "length b2 = ?N" using assms(5,6) by (auto dest!: buf_write_length)
  note nth = store_nth [OF N(2) _ assms(4-6)]
  have old: "b2 ! ((q + i) mod ?N) = b ! ((q + i) mod ?N)" if "i < m" for i
  proof -
    have no: "(q + i) mod ?N \<noteq> (q + m + t) mod ?N" if "t < length s" for t
      using mod_add_inj [of q i ?N "m + t"] \<open>i < m\<close> that assms(2) by (auto simp: add.assoc)
    have c1: "\<not> (p \<le> (q + i) mod ?N \<and> (q + i) mod ?N < p + e)"
    proof
      assume r: "p \<le> (q + i) mod ?N \<and> (q + i) mod ?N < p + e"
      define t where "t = (q + i) mod ?N - p"
      have t: "t < length s" "(q + i) mod ?N = p + t" "p + t < ?N"
        using r assms(4) N by (auto simp: t_def)
      then have "(q + m + t) mod ?N = p + t" using assms(1) by (metis mod_add_left_eq mod_less)
      with t no show False by metis
    qed
    have c2: "\<not> (q + i) mod ?N < length s - e"
    proof
      assume r: "(q + i) mod ?N < length s - e"
      define j where "j = (q + i) mod ?N"
      have e: "e = ?N - p" using r assms(4) by (auto simp: min_def split: if_splits)
      have "(q + m + (e + j)) mod ?N = (p + (e + j)) mod ?N"
        using assms(1) by (metis mod_add_left_eq)
      also have "p + (e + j) = ?N + j" using e N by simp
      also have "(?N + j) mod ?N = j" using N by (simp add: j_def)
      finally have "(q + i) mod ?N = (q + m + (e + j)) mod ?N" by (simp add: j_def)
      moreover have "e + j < length s" using r by (simp add: j_def)
      ultimately show False using no by blast
    qed
    show ?thesis using nth [of "(q + i) mod ?N"] assms(2) N
      unfolding if_not_P [OF c1] if_not_P [OF c2] by simp
  qed
  have new: "b2 ! ((q + m + i) mod ?N) = s ! i" if i: "i < length s" for i
  proof -
    have p: "(q + m + i) mod ?N = (p + i) mod ?N" using assms(1) by (metis mod_add_left_eq)
    show ?thesis
    proof (cases "p + i < ?N")
      case True
      then have "p \<le> p + i \<and> p + i < p + e" using i assms(4) by auto
      then show ?thesis using nth [of "p + i"] True assms(2) i p by simp
    next
      case False
      then have w: "(p + i) mod ?N = p + i - ?N" using i assms(2) N by (intro mod_once) auto
      moreover have "e = ?N - p" "p + i - ?N < length s - e" "\<not> p \<le> p + i - ?N"
        using False assms(2,4) i N by auto
      ultimately show ?thesis using nth [of "p + i - ?N"] False assms(2) i N p by simp
    qed
  qed
  have "ring b2 q m = ring b q m"
    by (rule nth_equalityI) (auto simp: ring_nth len old)
  moreover have "ring b2 (q + m) (length s) = s"
    by (rule nth_equalityI) (auto simp: ring_nth len new)
  ultimately show ?thesis by (simp add: ring_append)
qed

section \<open>Representation\<close>

text \<open>
  The size is a power of two and the length of the buffer; no more than that is inside. The contents
  are the bytes from the read position on.
\<close>

definition ringbuf_ok :: "ringbuf \<Rightarrow> bool" where
  "ringbuf_ok rb \<longleftrightarrow> (\<exists>k. 1 \<le> k \<and> k < 32 \<and> size rb = 2 ^ k \<and> length (buffer rb) = 2 ^ k) \<and>
     rb_in rb - rb_out rb \<le> size rb"

definition contents :: "ringbuf \<Rightarrow> u8 list" where
  "contents rb = ring (buffer rb) (unat (rb_out rb)) (unat (rb_in rb - rb_out rb))"

definition ring_rep :: "ringbuf \<Rightarrow> u8 list \<Rightarrow> bool" where
  "ring_rep rb xs \<longleftrightarrow> ringbuf_ok rb \<and> contents rb = xs"

lemma unat_power2:
  assumes "k < 64"
  shows "unat (2 ^ k :: u64) = 2 ^ k"
proof -
  have "(2 :: nat) ^ k < 2 ^ 64" using assms by (intro power_strict_increasing) auto
  then have "unat (of_nat (2 ^ k) :: u64) = 2 ^ k" by (intro unat_of_nat_small) simp
  then show ?thesis by simp
qed

lemma power2_dvd: "k < 64 \<Longrightarrow> (2 :: nat) ^ k dvd 2 ^ 64"
  by (rule le_imp_power_dvd) simp

lemma unat_mask: "unat (x AND (2 ^ k - 1) :: u64) = unat x mod 2 ^ k"
proof -
  have "x AND (2 ^ k - 1) = take_bit k x"
    by (simp only: take_bit_eq_mask mask_eq_exp_minus_1)
  moreover have "unat (take_bit k x) = take_bit k (unat x)" by (rule unsigned_take_bit_eq)
  ultimately show ?thesis by (simp only: take_bit_eq_mod)
qed

lemma ringbuf_okE:
  assumes "ringbuf_ok rb"
  obtains k where "1 \<le> k" "k < 32" "size rb = 2 ^ k" "length (buffer rb) = 2 ^ k"
    "unat (size rb) = length (buffer rb)"
    "unat (rb_in rb - rb_out rb) \<le> length (buffer rb)"
    "\<And>x. unat (x AND (size rb - 1)) = unat x mod length (buffer rb)"
    "unat (size rb - rb_in rb + rb_out rb) = length (buffer rb) - unat (rb_in rb - rb_out rb)"
    "0 < length (buffer rb)" "length (buffer rb) < 2 ^ 32"
    "unat (rb_in rb) mod length (buffer rb) =
       (unat (rb_out rb) + unat (rb_in rb - rb_out rb)) mod length (buffer rb)"
proof -
  obtain k where k: "1 \<le> k" "k < 32" "size rb = 2 ^ k" "length (buffer rb) = 2 ^ k"
    using assms by (auto simp: ringbuf_ok_def)
  have 1: "unat (size rb) = length (buffer rb)" using k unat_power2 [of k] by simp
  have le: "rb_in rb - rb_out rb \<le> size rb" using assms by (simp add: ringbuf_ok_def)
  then have 2: "unat (rb_in rb - rb_out rb) \<le> length (buffer rb)"
    using 1 by (simp add: word_le_nat_alt)
  have 3: "unat (x AND (size rb - 1)) = unat x mod length (buffer rb)" for x
    using k unat_mask [of x k] by simp
  have "size rb - rb_in rb + rb_out rb = size rb - (rb_in rb - rb_out rb)" by simp
  then have 4: "unat (size rb - rb_in rb + rb_out rb) = length (buffer rb) - unat (rb_in rb - rb_out rb)"
    by (simp only: unat_sub [OF le] 1)
  have "(2 :: nat) ^ k < 2 ^ 32" using k(2) by (intro power_strict_increasing) auto
  then have 5: "length (buffer rb) < 2 ^ 32" using k by simp
  have "unat (rb_in rb) = unat (rb_out rb + (rb_in rb - rb_out rb))" by simp
  also have "\<dots> = (unat (rb_out rb) + unat (rb_in rb - rb_out rb)) mod 2 ^ 64"
    by (subst unat_word_ariths) simp
  finally have "unat (rb_in rb) mod length (buffer rb) =
      (unat (rb_out rb) + unat (rb_in rb - rb_out rb)) mod 2 ^ 64 mod 2 ^ k"
    using k by simp
  also have "\<dots> = (unat (rb_out rb) + unat (rb_in rb - rb_out rb)) mod 2 ^ k"
    by (rule mod_mod_cancel [OF power2_dvd]) (use k in simp)
  finally show ?thesis using that k 1 2 3 4 5 by simp
qed

text \<open>Appending what fits.\<close>

lemma rep_append:
  assumes "ring_rep rb xs" and "length xs + length s \<le> length (buffer rb)"
    and "e = min (length s) (length (buffer rb) - p)"
    and "p = unat (rb_in rb) mod length (buffer rb)"
  shows "\<exists>b1 b2. buf_write (buffer rb) p (take e s) = Some b1 \<and> buf_write b1 0 (drop e s) = Some b2 \<and>
     ring_rep (rb\<lparr>buffer := b2, rb_in := rb_in rb + of_nat (length s)\<rparr>) (xs @ s)"
proof -
  from assms(1) have ok: "ringbuf_ok rb" and xs: "xs = contents rb" by (auto simp: ring_rep_def)
  obtain k where k: "1 \<le> k" "k < 32" "size rb = 2 ^ k" "length (buffer rb) = 2 ^ k"
    "unat (size rb) = length (buffer rb)" "0 < length (buffer rb)" "length (buffer rb) < 2 ^ 32"
    "unat (rb_in rb) mod length (buffer rb) =
       (unat (rb_out rb) + unat (rb_in rb - rb_out rb)) mod length (buffer rb)"
    using ringbuf_okE [OF ok] by metis
  let ?n = "unat (rb_in rb - rb_out rb)" and ?b = "buffer rb"
  have n: "length xs = ?n" by (simp add: xs contents_def)
  have "p < length ?b" using assms(4) k(6) by simp
  then have "p + length (take e s) \<le> length ?b" using assms(3) by simp
  then obtain b1 where b1: "buf_write ?b p (take e s) = Some b1" by (auto simp: buf_write_def)
  then have l1: "length b1 = length ?b" by (rule buf_write_length)
  have "length (drop e s) \<le> length b1" using assms(2) l1 by simp
  then obtain b2 where b2: "buf_write b1 0 (drop e s) = Some b2" by (auto simp: buf_write_0)
  then have l2: "length b2 = length ?b" using buf_write_length l1 by metis
  have len: "unat (rb_in rb - rb_out rb + of_nat (length s)) = ?n + length s"
    using assms(2) n k(7) by (intro unat_add_of_nat) simp
  have "ring b2 (unat (rb_out rb)) (?n + length s) = ring ?b (unat (rb_out rb)) ?n @ s"
    by (rule ring_store [OF _ _ _ assms(3) b1 b2]) (use assms(2,4) n k(6,8) in auto)
  moreover have eq: "rb_in rb + of_nat (length s) - rb_out rb = rb_in rb - rb_out rb + of_nat (length s)"
    by simp
  have len': "unat (rb_in rb + of_nat (length s) - rb_out rb) = ?n + length s"
    unfolding eq by (rule len)
  moreover have "rb_in rb + of_nat (length s) - rb_out rb \<le> size rb"
    unfolding word_le_nat_alt len' using assms(2) n k(5) by simp
  ultimately have "ring_rep (rb\<lparr>buffer := b2, rb_in := rb_in rb + of_nat (length s)\<rparr>) (xs @ s)"
    using k(1-4) l2 xs by (auto simp: ring_rep_def ringbuf_ok_def contents_def)
  with b1 b2 show ?thesis by blast
qed

text \<open>Taking a prefix off, with the reset of the positions.\<close>

lemma ring_drop: "m \<le> n \<Longrightarrow> ring b (p + m) (n - m) = drop m (ring b p n)"
  by (rule nth_equalityI) (auto simp: ring_nth ac_simps)

lemma ring_out_mod:
  "length b = 2 ^ k \<Longrightarrow> k < 64 \<Longrightarrow> unat c = m \<Longrightarrow>
   ring b (unat (out + c :: u64)) n = ring b (unat out + m) n"
proof -
  assume *: "length b = 2 ^ k" "k < 64" "unat c = m"
  have "unat (out + c) mod length b = (unat out + m) mod 2 ^ 64 mod 2 ^ k"
    using * by (simp add: unat_word_ariths)
  also have "\<dots> = (unat out + m) mod 2 ^ k" by (rule mod_mod_cancel [OF power2_dvd [OF *(2)]])
  finally show ?thesis using * ring_mod [of b "unat (out + c)"] ring_mod [of b "unat out + m"] by simp
qed

lemma rep_drain:
  assumes "ring_rep rb xs" and "unat c \<le> length xs"
  shows "ring_rep (rb_reset_if_empty (rb\<lparr>rb_out := rb_out rb + c\<rparr>)) (drop (unat c) xs)"
proof -
  from assms(1) have ok: "ringbuf_ok rb" and xs: "xs = contents rb" by (auto simp: ring_rep_def)
  obtain k where k: "1 \<le> k" "k < 32" "size rb = 2 ^ k" "length (buffer rb) = 2 ^ k"
    using ok by (auto simp: ringbuf_ok_def)
  let ?d = "rb_in rb - rb_out rb"
  have le: "c \<le> ?d" using assms(2) by (simp add: word_le_nat_alt xs contents_def)
  have eq: "rb_in rb - (rb_out rb + c) = ?d - c" by simp
  have n: "unat (?d - c) = unat ?d - unat c" by (rule unat_sub [OF le])
  have rest: "ring (buffer rb) (unat (rb_out rb + c)) (unat (?d - c)) = drop (unat c) xs"
    using ring_out_mod [OF k(4), of c] k(2) ring_drop [of "unat c" "unat ?d"] le
    by (simp add: xs contents_def n word_le_nat_alt)
  have "?d - c \<le> size rb"
    using ok le by (auto simp: ringbuf_ok_def word_le_nat_alt n)
  moreover have "drop (unat c) xs = []" if "rb_out rb + c = rb_in rb"
  proof -
    have "?d - c = 0" using that eq by (metis right_minus_eq)
    then show ?thesis using n by (auto simp: xs contents_def)
  qed
  ultimately show ?thesis using k rest
    by (auto simp: ring_rep_def ringbuf_ok_def contents_def rb_reset_if_empty_def diff_diff_eq)
qed

section \<open>The operations on the contents\<close>

lemma rep_len: "ring_rep rb xs \<Longrightarrow> unat (ringbuf_len (Some rb)) = length xs"
  by (auto simp: ring_rep_def contents_def)

lemma rep_cap: "ring_rep rb xs \<Longrightarrow> length xs \<le> length (buffer rb)"
  by (auto simp: ring_rep_def contents_def elim: ringbuf_okE)

lemma rep_avail:
  assumes "ring_rep rb xs"
  shows "unat (size rb - rb_in rb + rb_out rb) = length (buffer rb) - length xs"
    and "size rb - rb_in rb + rb_out rb = 0 \<longleftrightarrow> length xs = length (buffer rb)"
proof -
  show 1: "unat (size rb - rb_in rb + rb_out rb) = length (buffer rb) - length xs"
    using assms by (auto simp: ring_rep_def contents_def elim: ringbuf_okE)
  have "length xs \<le> length (buffer rb)" using assms by (rule rep_cap)
  then show "size rb - rb_in rb + rb_out rb = 0 \<longleftrightarrow> length xs = length (buffer rb)"
    using 1 unat_0_iff [of "size rb - rb_in rb + rb_out rb"] by linarith
qed

text \<open>The chunk before the wrap, as a length.\<close>

lemma rep_end:
  assumes "ring_rep rb xs"
  shows "unat (min len (size rb - (x AND (size rb - 1)))) =
     min (unat len) (length (buffer rb) - unat x mod length (buffer rb))"
proof -
  from assms have ok: "ringbuf_ok rb" by (simp add: ring_rep_def)
  have s: "unat (size rb) = length (buffer rb)" "unat (x AND (size rb - 1)) = unat x mod length (buffer rb)"
    "0 < length (buffer rb)"
    using ringbuf_okE [OF ok] by metis+
  then have "x AND (size rb - 1) \<le> size rb" by (simp add: word_le_nat_alt order_less_imp_le)
  then have "unat (size rb - (x AND (size rb - 1))) = length (buffer rb) - unat x mod length (buffer rb)"
    by (simp only: unat_sub s)
  then show ?thesis by (simp add: min_def word_le_nat_alt)
qed

lemma rep_offset:
  assumes "ring_rep rb xs"
  shows "unat (x AND (size rb - 1)) = unat x mod length (buffer rb)" and "length (buffer rb) < 2 ^ 32"
    and "0 < length (buffer rb)"
  using assms ringbuf_okE [of rb] by (metis ring_rep_def)+

lemma rep_vprintf_fits:
  assumes "ring_rep rb xs" and "length xs + length s \<le> length (buffer rb)"
    and "length xs < length (buffer rb)"
  shows "\<exists>rb' tr. ringbuf_vprintf (Some rb) (Some s) = Some (int (length s), Some rb', tr) \<and>
     ring_rep rb' (xs @ s) \<and> concat tr = (if in_tracing rb then s else []) \<and>
     size rb' = size rb \<and> in_tracing rb' = in_tracing rb"
proof -
  let ?N = "length (buffer rb)" and ?len = "of_nat (length s) :: u64"
  let ?endp = "min ?len (size rb - (rb_in rb AND (size rb - 1)))"
  have len: "unat ?len = length s"
    using assms(2) rep_offset(2) [OF assms(1)] by (simp add: unat_of_nat_small)
  have e: "unat ?endp = min (length s) (?N - unat (rb_in rb) mod ?N)"
    using rep_end [OF assms(1)] len by simp
  obtain b1 b2 where b: "buf_write (buffer rb) (unat (rb_in rb) mod ?N) (take (unat ?endp) s) = Some b1"
    "buf_write b1 0 (drop (unat ?endp) s) = Some b2"
    "ring_rep (rb\<lparr>buffer := b2, rb_in := rb_in rb + ?len\<rparr>) (xs @ s)"
    using rep_append [OF assms(1,2) e refl] by blast
  have room: "size rb - rb_in rb + rb_out rb \<noteq> 0" "\<not> size rb - rb_in rb + rb_out rb < ?len"
    using rep_avail [OF assms(1)] assms(2,3) len by (auto simp: word_less_nat_alt)
  have pos: "0 < ?len - ?endp \<longleftrightarrow> unat ?endp < length s"
  proof -
    have "?endp \<le> ?len" by simp
    then have "unat (?len - ?endp) = length s - unat ?endp" by (simp only: unat_sub len)
    then show ?thesis by (metis unat_gt_0 word_gt_0 zero_less_diff)
  qed
  show ?thesis
  proof (cases "unat ?endp < length s")
    case True
    then show ?thesis using b room pos rep_offset(1) [OF assms(1)]
      by (simp add: Let_def)
  next
    case False
    then have "b2 = b1" "take (unat ?endp) s = s" using b(2) by (auto simp: buf_write_def)
    then show ?thesis using False b room pos rep_offset(1) [OF assms(1)]
      by (simp add: Let_def)
  qed
qed

lemma rep_vprintf_full:
  assumes "ring_rep rb xs" and "length s < 2 ^ 31"
    and "length (buffer rb) < length xs + length s \<or> length xs = length (buffer rb)"
  shows "ringbuf_vprintf (Some rb) (Some s) = Some (-1, Some rb, [])"
proof -
  let ?avail = "size rb - rb_in rb + rb_out rb"
  have "unat (of_nat (length s) :: u64) = length s" using assms(2) by (simp add: unat_of_nat_small)
  then have "?avail = 0 \<or> ?avail < of_nat (length s)"
    using rep_avail [OF assms(1)] rep_cap [OF assms(1)] assms(3) by (auto simp: word_less_nat_alt)
  then show ?thesis by (auto simp: Let_def)
qed

lemma rep_read:
  assumes "ring_rep rb xs" and "0 \<le> fd" and "length xs < length (buffer rb)"
    and "\<And>m n. readv m n = Some d \<Longrightarrow> length d \<le> m + n"
    and "\<And>m n. m + n = length (buffer rb) - length xs \<Longrightarrow> readv m n = Some d"
  shows "\<exists>rb' tr. ringbuf_read (Some rb) fd readv = Some (int (length d), Some rb', tr) \<and>
     ring_rep rb' (xs @ d) \<and> concat tr = (if in_tracing rb then d else [])"
proof -
  let ?N = "length (buffer rb)" and ?avail = "size rb - rb_in rb + rb_out rb"
  let ?endp = "min ?avail (size rb - (rb_in rb AND (size rb - 1)))" and ?p = "unat (rb_in rb) mod ?N"
  have av: "unat ?avail = ?N - length xs" "?avail \<noteq> 0"
    using rep_avail [OF assms(1)] assms(3) by auto
  have e: "unat ?endp = min (?N - length xs) (?N - ?p)" using rep_end [OF assms(1)] av by simp
  have "unat (?avail - ?endp) = ?N - length xs - unat ?endp"
    by (subst unat_sub) (simp_all add: av)
  moreover have "unat ?endp \<le> ?N - length xs" using e by simp
  ultimately have sum: "unat ?endp + unat (?avail - ?endp) = ?N - length xs"
    by (metis le_add_diff_inverse)
  then have rd: "readv (unat ?endp) (unat (?avail - ?endp)) = Some d" by (rule assms(5))
  have dl: "length d \<le> ?N - length xs" using assms(4) [OF rd] sum by simp
  then have fits: "length xs + length d \<le> ?N" using assms(3) by simp
  have te: "take (min (length d) (?N - ?p)) d = take (unat ?endp) d"
    "drop (min (length d) (?N - ?p)) d = drop (unat ?endp) d"
    using dl e by (auto simp: min_def)
  obtain b1 b2 where b: "buf_write (buffer rb) ?p (take (unat ?endp) d) = Some b1"
    "buf_write b1 0 (drop (unat ?endp) d) = Some b2"
    "ring_rep (rb\<lparr>buffer := b2, rb_in := rb_in rb + of_nat (length d)\<rparr>) (xs @ d)"
    using rep_append [OF assms(1) fits refl refl] te by auto
  have l: "unat (of_nat (length d) :: u64) = length d"
    using fits rep_offset(2) [OF assms(1)] by (simp add: unat_of_nat_small)
  let ?l = "min (of_nat (length d)) ?endp"
  have ml: "unat ?l = min (length d) (unat ?endp)" using l by (simp add: min_def word_le_nat_alt)
  have ll: "unat (of_nat (length d) - ?l) = length d - unat ?l" by (subst unat_sub) (simp_all add: l)
  have p: "?p < ?N" using rep_offset(3) [OF assms(1)] by simp
  have "length d \<le> unat ?endp \<or> unat ?endp = ?N - ?p"
    unfolding e using dl by linarith
  from store_read [OF b(1,2) p _ this] fits
  have t0: "take (unat ?l) (drop ?p b2) = take (unat ?endp) d"
    and t1: "take (length d - unat ?l) b2 = drop (unat ?endp) d"
    unfolding ml by simp_all
  have pos: "0 < of_nat (length d) - ?l \<longleftrightarrow> unat ?l < length d"
    using ll by (metis unat_gt_0 word_gt_0 zero_less_diff)
  let ?tr = "if in_tracing rb then take (unat ?l) (drop ?p b2) #
      (if 0 < of_nat (length d) - ?l then [take (unat (of_nat (length d) - ?l)) b2] else []) else []"
  have "ringbuf_read (Some rb) fd readv = Some (int (length d),
      Some (rb\<lparr>buffer := b2, rb_in := rb_in rb + of_nat (length d)\<rparr>), ?tr)"
    using assms(2) av(2) rd b(1,2) by (simp add: Let_def rep_offset(1) [OF assms(1)])
  moreover have "concat ?tr = (if in_tracing rb then d else [])"
    using t0 t1 ll pos ml by (auto simp: min_def split: if_splits)
  ultimately show ?thesis using b(3) by blast
qed

lemma rep_drain_op:
  assumes "ring_rep rb xs"
  shows "\<exists>rb'. ringbuf_drain (Some rb) c = (of_nat (min (unat c) (length xs)), Some rb') \<and>
     ring_rep rb' (drop (unat c) xs)"
proof -
  let ?l = "min c (rb_in rb - rb_out rb)"
  have len: "unat (rb_in rb - rb_out rb) = length xs" using rep_len [OF assms] by simp
  then have l: "unat ?l = min (unat c) (length xs)" by (simp add: min_def word_le_nat_alt)
  then have eq: "?l = of_nat (min (unat c) (length xs))" by (simp add: unat_eq_imp)
  have dr: "drop (unat ?l) xs = drop (unat c) xs" using l by (simp add: min_def)
  show ?thesis
  proof (cases "?l = 0")
    case True
    then have "min (unat c) (length xs) = 0" using l by simp
    then have "drop (unat c) xs = xs" by (auto simp: min_def split: if_splits)
    with True eq assms show ?thesis by (simp add: Let_def)
  next
    case False
    have "ring_rep (rb_reset_if_empty (rb\<lparr>rb_out := rb_out rb + ?l\<rparr>)) (drop (unat ?l) xs)"
      by (rule rep_drain [OF assms]) (simp add: l)
    with False eq dr show ?thesis by (simp add: Let_def)
  qed
qed

lemma rep_chunks:
  assumes "ring_rep rb xs" and "e = min (length xs) (length (buffer rb) - unat (rb_out rb) mod length (buffer rb))"
  shows "\<exists>v0 v1. buf_read (buffer rb) (unat (rb_out rb) mod length (buffer rb)) e = Some v0 \<and>
     buf_read (buffer rb) 0 (length xs - e) = Some v1 \<and> v0 @ v1 = xs"
proof -
  let ?N = "length (buffer rb)" and ?p = "unat (rb_out rb) mod length (buffer rb)"
  have p: "?p < ?N" using rep_offset(3) [OF assms(1)] by simp
  have n: "length xs \<le> ?N" by (rule rep_cap [OF assms(1)])
  have xs: "xs = ring (buffer rb) ?p (length xs)"
    using assms(1) by (auto simp: ring_rep_def contents_def ring_mod)
  also have "\<dots> = take (length xs) (drop ?p (buffer rb)) @ take (length xs - (?N - ?p)) (buffer rb)"
    by (rule ring_chunks [OF p n])
  finally have eq: "xs = take (length xs) (drop ?p (buffer rb)) @ take (length xs - (?N - ?p)) (buffer rb)" .
  have "take e (drop ?p (buffer rb)) = take (length xs) (drop ?p (buffer rb))"
    unfolding assms(2) by (auto simp: min_def)
  moreover have "length xs - e = length xs - (?N - ?p)" unfolding assms(2) by auto
  moreover have "?p + e \<le> ?N" "length xs - e \<le> ?N" unfolding assms(2) using p n by auto
  ultimately show ?thesis using eq by (simp add: buf_read_def)
qed

lemma rep_write:
  assumes "ring_rep rb xs" and "0 \<le> fd" and "xs \<noteq> []"
    and "\<And>v0 v1. v0 @ v1 = xs \<Longrightarrow> writev v0 v1 = c" and "c \<le> int (length xs)"
  shows "if c < 0 then ringbuf_write (Some rb) fd writev = Some (-1, Some rb, [])
     else \<exists>rb'. ringbuf_write (Some rb) fd writev = Some (c, Some rb', take (nat c) xs) \<and>
            ring_rep rb' (drop (nat c) xs)"
proof -
  let ?N = "length (buffer rb)" and ?len = "rb_in rb - rb_out rb"
  let ?endp = "min ?len (size rb - (rb_out rb AND (size rb - 1)))"
  have len: "unat ?len = length xs" using rep_len [OF assms(1)] by simp
  then have nz: "?len \<noteq> 0" using assms(3) unat_0_iff [of ?len] by auto
  have e: "unat ?endp = min (length xs) (?N - unat (rb_out rb) mod ?N)"
    using rep_end [OF assms(1)] len by simp
  have "unat (?len - ?endp) = length xs - unat ?endp"
    by (subst unat_sub) (simp_all add: len)
  then obtain v0 v1 where v: "buf_read (buffer rb) (unat (rb_out rb AND (size rb - 1))) (unat ?endp) = Some v0"
    "buf_read (buffer rb) 0 (unat (?len - ?endp)) = Some v1" "v0 @ v1 = xs"
    using rep_chunks [OF assms(1) e] rep_offset(1) [OF assms(1)] by auto
  have w: "writev v0 v1 = c" using v(3) by (rule assms(4))
  show ?thesis
  proof (cases "c < 0")
    case True
    then show ?thesis using assms(2) nz v w by (simp add: Let_def)
  next
    case False
    have "nat c \<le> length xs" using assms(5) by simp
    also have "\<dots> < 2 ^ LENGTH(64)" unfolding len [symmetric] by (rule unsigned_less)
    finally have "unat (of_nat (nat c) :: u64) = nat c" by (rule unat_of_nat_small)
    moreover have "(of_nat (nat c) :: u64) = of_int c" using False by simp
    ultimately have c: "unat (of_int c :: u64) = nat c" by simp
    have "ring_rep (rb_reset_if_empty (rb\<lparr>rb_out := rb_out rb + of_int c\<rparr>)) (drop (unat (of_int c :: u64)) xs)"
      by (rule rep_drain [OF assms(1)]) (use c assms(5) False in simp)
    then show ?thesis using assms(2) nz v w False c by (simp add: Let_def)
  qed
qed

section \<open>The ring buffer as a first-in first-out buffer\<close>

text \<open>Chunks are formatted strings; the consumer looks at the contents with a descriptor that takes at
  most \<open>n\<close> bytes.\<close>

definition rb_push :: "u8 list \<Rightarrow> ringbuf \<Rightarrow> ringbuf option" where
  "rb_push s rb = (case ringbuf_vprintf (Some rb) (Some s) of
     Some (r, Some rb', _) \<Rightarrow> if r < 0 then None else Some rb' | _ \<Rightarrow> None)"

definition rb_pop :: "nat \<Rightarrow> ringbuf \<Rightarrow> (u8 list \<times> ringbuf) option" where
  "rb_pop n rb = (case ringbuf_write (Some rb) 0 (\<lambda>v0 v1. int (min n (length (v0 @ v1)))) of
     Some (_, Some rb', out) \<Rightarrow> Some (out, rb') | _ \<Rightarrow> None)"

definition rb_room :: "ringbuf \<Rightarrow> u8 list \<Rightarrow> bool" where
  "rb_room rb s \<longleftrightarrow> length s \<le> unat (ringbuf_avail (Some rb)) \<and> ringbuf_avail (Some rb) \<noteq> 0"

interpretation ring_fifo: fifo ring_rep rb_room id rb_push rb_pop
proof (unfold_locales, goal_cases)
  case (1 rb xs s)
  have "length xs + length s \<le> length (buffer rb)" "length xs < length (buffer rb)"
    using "1"(2) rep_avail [OF "1"(1)] rep_cap [OF "1"(1)] by (auto simp: rb_room_def)
  from rep_vprintf_fits [OF "1"(1) this] show ?case by (auto simp: rb_push_def)
next
  case (2 rb xs n)
  show ?case
  proof (cases "xs = []")
    case True
    then have "unat (rb_in rb - rb_out rb) = 0" using rep_len [OF "2"] by simp
    then have "rb_in rb - rb_out rb = 0" by (simp only: unat_0_iff)
    then show ?thesis using "2" True by (simp add: rb_pop_def Let_def)
  next
    case False
    define c where "c = int (min n (length xs))"
    obtain rb' where "ringbuf_write (Some rb) 0 (\<lambda>v0 v1. int (min n (length (v0 @ v1)))) =
        Some (c, Some rb', take (nat c) xs)" "ring_rep rb' (drop (nat c) xs)"
      using rep_write [OF "2" _ False, of 0 "\<lambda>v0 v1. int (min n (length (v0 @ v1)))" c]
      by (auto simp: c_def simp del: ringbuf_write.simps)
    then have "rb_pop n rb = Some (take (nat c) xs, rb')" "xs = take (nat c) xs @ drop (nat c) xs"
      "ring_rep rb' (drop (nat c) xs)"
      by (simp_all add: rb_pop_def del: ringbuf_write.simps)
    then show ?thesis by blast
  qed
qed

section \<open>Creation\<close>

lemma fls_bounds:
  assumes "x \<noteq> 0"
  shows "1 \<le> fls x \<and> fls x \<le> 32 \<and> 2 ^ (fls x - 1) \<le> unat x \<and> unat x < 2 ^ fls x"
proof -
  let ?P = "\<lambda>i. \<not> bit x i" and ?l = "rev [0..<32]"
  let ?c = "length (takeWhile ?P ?l)"
  have nth: "?l ! i = 31 - i" if "i < 32" for i using that by (simp add: rev_nth)
  obtain n where n: "bit x n" using assms bit_word_eqI [of x 0] by (auto simp: bit_0_eq)
  then have n32: "n < 32" using bit_imp_le_length by force
  have c32: "?c < 32"
  proof (rule ccontr)
    assume "\<not> ?c < 32"
    then have "takeWhile ?P ?l = ?l"
      by (metis length_rev length_takeWhile_le length_upt diff_zero not_less le_antisym
          takeWhile_eq_take take_all)
    then show False using n n32 by (metis set_takeWhileD in_set_conv_nth length_rev
          length_upt diff_zero set_rev atLeastLessThan_iff set_upt zero_le)
  qed
  have top: "bit x (31 - ?c)" using nth_length_takeWhile [of ?P ?l] c32 nth by simp
  have high: "\<not> bit x i" if "31 - ?c < i" for i
  proof (cases "i < 32")
    case True
    then have "31 - i < ?c" "31 - (31 - i) = i" using that c32 by linarith+
    then show ?thesis
      using takeWhile_nth [of "31 - i" ?P ?l] nth [of "31 - i"] nth_mem [of "31 - i" "takeWhile ?P ?l"]
        set_takeWhileD [of _ ?P ?l] by fastforce
  next
    case False
    then show ?thesis using bit_imp_le_length by force
  qed
  have "take_bit (32 - ?c) x = x"
  proof (rule bit_word_eqI)
    fix i
    show "bit (take_bit (32 - ?c) x) i = bit x i"
    proof (cases "i < 32 - ?c")
      case False
      then have "31 - ?c < i" using c32 by linarith
      then show ?thesis using high False by (simp only: bit_take_bit_iff simp_thms)
    qed (simp only: bit_take_bit_iff simp_thms)
  qed
  then have "unat x = take_bit (32 - ?c) (unat x)" by (metis unsigned_take_bit_eq)
  then have up: "unat x < 2 ^ (32 - ?c)" by (metis take_bit_nat_less_exp)
  have "bit (unat x) (31 - ?c)" using top by (simp only: bit_unsigned_iff) (simp add: possible_bit_def)
  then have "odd (unat x div 2 ^ (31 - ?c))" by (simp add: bit_iff_odd)
  then have "unat x div 2 ^ (31 - ?c) \<noteq> 0" by (metis even_zero)
  then have "2 ^ (31 - ?c) \<le> unat x" by (meson div_less not_less)
  moreover have f: "fls x = 32 - ?c" using assms by (simp only: fls_def clz32_def if_True simp_thms)
  moreover have "32 - ?c - 1 = 31 - ?c" by simp
  ultimately have "2 ^ (fls x - 1) \<le> unat x" "unat x < 2 ^ fls x" using up by metis+
  moreover have "1 \<le> 32 - ?c" "32 - ?c \<le> 32" using c32 by linarith+
  ultimately show ?thesis unfolding f by blast
qed

lemma align_power2_bounds:
  assumes "2 \<le> unat u" and "unat u \<le> 2 ^ 31"
  shows "\<exists>k. 1 \<le> k \<and> k < 32 \<and> align_power2 u = Some (2 ^ k) \<and> unat u \<le> 2 ^ k \<and> 2 ^ k < 2 * unat u"
proof -
  have le: "1 \<le> u" using assms(1) by (simp add: word_le_nat_alt)
  then have m: "unat (u - 1) = unat u - 1" by (simp add: unat_sub)
  then have nz: "u - 1 \<noteq> 0" using assms(1) unat_0_iff [of "u - 1"] by linarith
  let ?k = "fls (u - 1)"
  have b: "1 \<le> ?k" "2 ^ (?k - 1) \<le> unat u - 1" "unat u - 1 < 2 ^ ?k"
    using fls_bounds [OF nz] m by auto
  have "(2 :: nat) ^ (?k - 1) < 2 ^ 31" using b(2) assms by linarith
  then have "?k - 1 < 31" using power_less_imp_less_exp [of "2 :: nat" "?k - 1" 31] by simp
  then have k: "?k < 32" by simp
  have "(2 :: nat) ^ ?k = 2 * 2 ^ (?k - 1)" using b(1) by (metis power_Suc Suc_diff_le diff_Suc_1 One_nat_def)
  then have "2 ^ ?k < 2 * unat u" "unat u \<le> 2 ^ ?k" using b assms(1) by linarith+
  then show ?thesis using b(1) k by (auto simp: align_power2_def push_bit_eq_mult)
qed

text \<open>A size above \<open>2 ^ 31\<close> makes the alignment shift by 32, which is undefined.\<close>

lemma ringbuf_new_too_big:
  assumes "2 ^ 31 < unat sz" and "unat sz < 2 ^ 32"
  shows "ringbuf_new alloc sz = None"
proof -
  let ?u = "ucast sz :: u32"
  have u: "unat ?u = unat sz"
    using assms(2) by (simp add: unsigned_ucast_eq take_bit_nat_eq_self)
  have "1 \<le> ?u" using assms(1) u by (simp add: word_le_nat_alt)
  then have m: "unat (?u - 1) = unat sz - 1" using u by (simp add: unat_sub)
  then have "unat (?u - 1) \<noteq> 0" using assms(1) by simp
  then have nz: "?u - 1 \<noteq> 0" by (metis unat_0)
  have "(2 :: nat) ^ 31 < 2 ^ fls (?u - 1)" using fls_bounds [OF nz] m assms(1) by linarith
  then have "31 < fls (?u - 1)" by (rule power_less_imp_less_exp [rotated]) simp
  then have "align_power2 ?u = None" by (simp only: align_power2_def) simp
  moreover have "\<not> sz < 2" "\<not> 0xFFFFFFFF < sz" using assms by (simp_all add: word_less_nat_alt)
  ultimately show ?thesis by (simp add: ringbuf_new_def)
qed

lemma new_rep:
  assumes "2 \<le> unat sz" and "unat sz \<le> 2 ^ 31" and "\<And>n. \<exists>b. alloc n = Some b \<and> length b = n"
  shows "\<exists>rb. ringbuf_new alloc sz = Some (Some rb) \<and> ring_rep rb [] \<and>
     unat sz \<le> unat (ringbuf_capacity (Some rb)) \<and> unat (ringbuf_capacity (Some rb)) < 2 * unat sz"
proof -
  let ?u = "ucast sz :: u32"
  have u: "unat ?u = unat sz"
    using assms(2) by (simp add: unsigned_ucast_eq take_bit_nat_eq_self)
  obtain k where k: "1 \<le> k" "k < 32" "align_power2 ?u = Some (2 ^ k)" "unat sz \<le> 2 ^ k" "2 ^ k < 2 * unat sz"
    using align_power2_bounds [of ?u] assms(1,2) u by auto
  obtain b where b: "alloc (2 ^ k) = Some b" "length b = 2 ^ k" using assms(3) by blast
  have "(2 :: nat) ^ k < 2 ^ LENGTH(32)" using k(2) by (intro power_strict_increasing) auto
  from unat_of_nat_small [OF this] have p: "unat (2 ^ k :: u32) = 2 ^ k" by simp
  have "ucast (2 ^ k :: u32) = (2 ^ k :: u64)"
    by (rule word_unat_eq_iff [THEN iffD2]) (simp only: unat_ucast_up p unat_power2 k(2) order.strict_trans [OF k(2)], use k(2) unat_power2 [of k] in \<open>simp add: unat_ucast_up p\<close>)
  moreover have "\<not> sz < 2" "\<not> 0xFFFFFFFF < sz" using assms by (simp_all add: word_less_nat_alt)
  ultimately have "ringbuf_new alloc sz =
      Some (Some \<lparr>buffer = b, size = 2 ^ k, rb_in = 0, rb_out = 0, in_tracing = False\<rparr>)"
    using k(3) b(1) p by (simp add: ringbuf_new_def)
  then show ?thesis using k b(2) unat_power2 [of k]
    by (auto simp: ring_rep_def ringbuf_ok_def contents_def)
qed

lemma peek_rep:
  assumes "ring_rep rb xs" and "unat off < length xs"
  shows "\<exists>pos n. ringbuf_peek (Some rb) off = Some (pos, n) \<and> 0 < unat n \<and>
     (let m = min (unat n) (length xs - unat off)
      in buf_read (buffer rb) (unat pos) m = Some (take m (drop (unat off) xs)))"
proof -
  let ?N = "length (buffer rb)"
  let ?pos = "(rb_out rb + off) AND (size rb - 1)"
  let ?n = "min (rb_in rb - rb_out rb) (size rb - ?pos)"
  let ?p = "unat (rb_out rb + off) mod ?N"
  have len: "unat (rb_in rb - rb_out rb) = length xs" using rep_len [OF assms(1)] by simp
  have pos: "unat ?pos = ?p" and N: "0 < ?N" using rep_offset [OF assms(1)] by metis+
  have n: "unat ?n = min (length xs) (?N - ?p)" using rep_end [OF assms(1)] len by simp
  define m where "m = min (unat ?n) (length xs - unat off)"
  have p: "?p < ?N" using N by simp
  then have m: "?p + m \<le> ?N" "m \<le> length xs - unat off" using n by (auto simp: m_def)
  obtain k where k: "k < 32" "?N = 2 ^ k"
    using assms(1) ringbuf_okE [of rb] by (metis ring_rep_def)
  have "drop (unat off) xs = ring (buffer rb) (unat (rb_out rb) + unat off) (length xs - unat off)"
    using assms ring_drop [of "unat off" "length xs" "buffer rb" "unat (rb_out rb)"] len
    by (auto simp: ring_rep_def contents_def)
  also have "\<dots> = ring (buffer rb) ?p (length xs - unat off)"
    using ring_out_mod [OF k(2) _ refl, of "rb_out rb" off] k(1) by (simp add: ring_mod)
  also have "length xs - unat off = m + (length xs - unat off - m)" using m(2) by simp
  finally have "take m (drop (unat off) xs) = take m (ring (buffer rb) ?p (m + (length xs - unat off - m)))"
    by (rule arg_cong)
  also have "\<dots> = ring (buffer rb) ?p m" unfolding ring_append by simp
  also have "\<dots> = take m (drop ?p (buffer rb))"
    using ring_chunks [OF p, of m] m by simp
  finally have "buf_read (buffer rb) (unat ?pos) m = Some (take m (drop (unat off) xs))"
    using m(1) by (simp add: buf_read_def pos)
  moreover have "0 < unat ?n" unfolding n using p assms(2) by auto
  ultimately show ?thesis by (simp add: m_def Let_def)
qed

section \<open>Properties\<close>

text \<open>
  C38: \<open>ringbuf_new\<close> with a size between 2 and \<open>2 ^ 31\<close> gives an empty ring buffer
  whose capacity is the power of two that is at least the size and less than twice the size.
\<close>

theorem ringbuf_new_rep:
  assumes "2 \<le> unat sz" and "unat sz \<le> 2 ^ 31" and "\<And>n. \<exists>b. alloc n = Some b \<and> length b = n"
  shows "\<exists>rb. ringbuf_new alloc sz = Some (Some rb) \<and> ring_rep rb [] \<and>
     unat sz \<le> unat (ringbuf_capacity (Some rb)) \<and> unat (ringbuf_capacity (Some rb)) < 2 * unat sz"
  by (rule new_rep [OF assms])

theorem ringbuf_new_rep_witness:
  "\<exists>rb. ringbuf_new (\<lambda>n. Some (replicate n 0)) 5 = Some (Some rb) \<and> ring_rep rb [] \<and>
     5 \<le> unat (ringbuf_capacity (Some rb)) \<and> unat (ringbuf_capacity (Some rb)) < 10"
  using ringbuf_new_rep [of 5 "\<lambda>n. Some (replicate n 0)"] by simp

text \<open>
  \<open>ringbuf_vprintf\<close> appends the formatted string when it fits, wrapping around the end of
  the buffer, and hands exactly its bytes to the tracing callback; a string that does not fit, or a
  full buffer, is refused and changes nothing.
\<close>

theorem ringbuf_vprintf_appends:
  assumes "ring_rep rb xs" and "length s < 2 ^ 31"
  shows "if length xs + length s \<le> unat (size rb) \<and> length xs < unat (size rb)
     then \<exists>rb' tr. ringbuf_vprintf (Some rb) (Some s) = Some (int (length s), Some rb', tr) \<and>
        ring_rep rb' (xs @ s) \<and> concat tr = (if in_tracing rb then s else [])
     else ringbuf_vprintf (Some rb) (Some s) = Some (-1, Some rb, [])"
proof -
  have N: "unat (size rb) = length (buffer rb)"
    using assms(1) ringbuf_okE [of rb] by (metis ring_rep_def)
  show ?thesis
    using rep_vprintf_fits [OF assms(1), of s] rep_vprintf_full [OF assms]
      rep_cap [OF assms(1)] unfolding N by (metis (lifting) not_le le_neq_implies_less)
qed

text \<open>Four bytes of room with the positions at the end: the string wraps.\<close>

definition rb_example :: ringbuf where
  "rb_example = \<lparr>buffer = [1, 2, 3, 4], size = 4, rb_in = 3, rb_out = 2, in_tracing = True\<rparr>"

lemma rb_example_rep: "ring_rep rb_example [3]"
proof -
  have "(4 :: u64) = 2 ^ 2 \<and> (4 :: nat) = 2 ^ 2" by simp
  then have "\<exists>k\<ge>1. k < 32 \<and> (4 :: u64) = 2 ^ k \<and> (4 :: nat) = 2 ^ k"
    by (intro exI [of _ 2]) simp
  moreover have "length (buffer rb_example) = 4" by (simp add: rb_example_def)
  ultimately show ?thesis
    by (simp add: ring_rep_def ringbuf_ok_def contents_def ring_def del: One_nat_def)
      (simp add: rb_example_def)
qed

theorem ringbuf_vprintf_appends_witness:
  "\<exists>rb' tr. ringbuf_vprintf (Some rb_example) (Some [7, 8, 9]) = Some (3, Some rb', tr) \<and>
     ring_rep rb' [3, 7, 8, 9] \<and> concat tr = [7, 8, 9]"
  using ringbuf_vprintf_appends [OF rb_example_rep, of "[7, 8, 9]"]
  by (simp add: rb_example_def del: ringbuf_vprintf.simps)

text \<open>
  \<open>ringbuf_write\<close> offers the contents in order, in two chunks; what the descriptor took is
  a prefix and leaves the buffer, and on an error nothing does.
\<close>

theorem ringbuf_write_delivers:
  assumes "ring_rep rb xs" and "0 \<le> fd" and "xs \<noteq> []"
    and "\<And>v0 v1. v0 @ v1 = xs \<Longrightarrow> writev v0 v1 = c" and "c \<le> int (length xs)"
  shows "if c < 0 then ringbuf_write (Some rb) fd writev = Some (-1, Some rb, [])
     else \<exists>rb'. ringbuf_write (Some rb) fd writev = Some (c, Some rb', take (nat c) xs) \<and>
            ring_rep rb' (drop (nat c) xs)"
  by (rule rep_write [OF assms])

theorem ringbuf_write_delivers_witness:
  "\<exists>rb'. ringbuf_write (Some rb_example) 5 (\<lambda>v0 v1. int (length v0 + length v1)) =
     Some (1, Some rb', [3]) \<and> ring_rep rb' []"
  using ringbuf_write_delivers
    [OF rb_example_rep, of 5 "\<lambda>v0 v1. int (length v0 + length v1)" 1]
  by (simp add: append_eq_Cons_conv del: ringbuf_write.simps) force

text \<open>
  \<open>ringbuf_read\<close> asks the descriptor for exactly the free space, appends what it delivered
  behind the contents and traces it.
\<close>

theorem ringbuf_read_appends:
  assumes "ring_rep rb xs" and "0 \<le> fd" and "length xs < unat (size rb)"
    and "\<And>m n. readv m n = Some d \<Longrightarrow> length d \<le> m + n"
    and "\<And>m n. m + n = unat (size rb) - length xs \<Longrightarrow> readv m n = Some d"
  shows "\<exists>rb' tr. ringbuf_read (Some rb) fd readv = Some (int (length d), Some rb', tr) \<and>
     ring_rep rb' (xs @ d) \<and> concat tr = (if in_tracing rb then d else [])"
proof -
  have N: "unat (size rb) = length (buffer rb)"
    using assms(1) ringbuf_okE [of rb] by (metis ring_rep_def)
  show ?thesis using assms unfolding N by (rule rep_read)
qed

theorem ringbuf_read_appends_witness:
  "\<exists>rb' tr. ringbuf_read (Some rb_example) 5
        (\<lambda>m n. if 2 \<le> m + n then Some [7, 8] else None) = Some (2, Some rb', tr) \<and>
     ring_rep rb' [3, 7, 8] \<and> concat tr = [7, 8]"
proof -
  have "unat (size rb_example) = 4" "in_tracing rb_example" by (simp_all add: rb_example_def)
  moreover let ?r = "\<lambda>m n. if 2 \<le> m + n then Some [7, 8] else None"
  have "length [7, 8 :: u8] \<le> m + n" if "?r m n = Some [7, 8 :: u8]" for m n
    using that by (auto split: if_splits)
  note ringbuf_read_appends [of rb_example "[3]" 5 ?r "[7, 8]", OF rb_example_rep _ _ this]
  ultimately show ?thesis by (simp del: ringbuf_read.simps)
qed

text \<open>
  \<open>ringbuf_peek\<close> at an offset inside the contents points to the contents from that offset
  on, up to the wrap.
\<close>

theorem ringbuf_peek_contents:
  assumes "ring_rep rb xs" and "unat off < length xs"
  shows "\<exists>pos n. ringbuf_peek (Some rb) off = Some (pos, n) \<and> 0 < unat n \<and>
     (let m = min (unat n) (length xs - unat off)
      in buf_read (buffer rb) (unat pos) m = Some (take m (drop (unat off) xs)))"
  by (rule peek_rep [OF assms])

theorem ringbuf_peek_contents_witness:
  "\<exists>pos n. ringbuf_peek (Some rb_example) 0 = Some (pos, n) \<and> 0 < unat n \<and>
     (let m = min (unat n) 1 in buf_read (buffer rb_example) (unat pos) m = Some (take m [3]))"
  using ringbuf_peek_contents [OF rb_example_rep, of 0] by simp

text \<open>
  The length reported with an offset is not reduced by the offset: it reaches beyond the contents.
\<close>

lemma ringbuf_peek_reports_too_much:
  "ringbuf_peek (Some \<lparr>buffer = [1, 2, 3, 4], size = 4, rb_in = 2, rb_out = 0, in_tracing = False\<rparr>) 1 =
     Some (1, 2)"
  by simp

text \<open>
  C4: From a new ring buffer, any sequence of strings that were stored and of deliveries to a
  descriptor delivers the bytes in the order they were stored, none lost and none twice.
\<close>

theorem ringbuf_fifo_order:
  assumes "ringbuf_new (\<lambda>n. Some (replicate n 0)) sz = Some (Some rb)" and "unat sz \<le> 2 ^ 31"
    and "fifo_run rb_room id rb_push rb_pop es rb = Some (i, out, rb')"
  shows "\<exists>ys. ring_rep rb' ys \<and> i = out @ ys \<and> unat (ringbuf_len (Some rb')) = length ys"
proof -
  have "2 \<le> unat sz" using assms(1) by (auto simp: ringbuf_new_def word_less_nat_alt split: if_splits)
  from new_rep [OF this assms(2), of "\<lambda>n. Some (replicate n 0)"] assms(1)
  have "ring_rep rb []" by auto
  from ring_fifo.run_order [OF this assms(3)] show ?thesis using rep_len by fastforce
qed

text \<open>Two strings and two deliveries, the second string over the end of the buffer.\<close>

theorem ringbuf_fifo_order_witness:
  "\<exists>rb out rb' ys. ringbuf_new (\<lambda>n. Some (replicate n 0)) 4 = Some (Some rb) \<and>
     fifo_run rb_room id rb_push rb_pop [Push [1, 2, 3], Pop 2, Push [4, 5], Pop 3] rb =
       Some ([1, 2, 3, 4, 5], out, rb') \<and>
     ring_rep rb' ys \<and> [1, 2, 3, 4, 5] = out @ ys"
proof -
  let ?rb = "\<lparr>buffer = [0, 0, 0, 0], size = 4, rb_in = 0, rb_out = 0, in_tracing = False\<rparr>"
  have replicate: "replicate 4 (0 :: u8) = [0, 0, 0, 0]" by (simp add: numeral_eq_Suc)
  have "fls 3 = 2" by (simp add: fls_def clz32_def upt_rec)
  then have new: "ringbuf_new (\<lambda>n. Some (replicate n 0)) 4 = Some (Some ?rb)"
    using replicate by (simp add: ringbuf_new_def align_power2_def)
  have 1: "rb_room ?rb [1, 2, 3] \<and> rb_push [1, 2, 3] ?rb =
      Some \<lparr>buffer = [1, 2, 3, 0], size = 4, rb_in = 3, rb_out = 0, in_tracing = False\<rparr>"
    by (simp add: rb_room_def rb_push_def buf_write_def)
  have 2: "rb_pop 2 \<lparr>buffer = [1, 2, 3, 0], size = 4, rb_in = 3, rb_out = 0, in_tracing = False\<rparr> =
      Some ([1, 2], \<lparr>buffer = [1, 2, 3, 0], size = 4, rb_in = 3, rb_out = 2, in_tracing = False\<rparr>)"
    by (simp add: rb_pop_def rb_reset_if_empty_def buf_read_def)
  have 3: "rb_room \<lparr>buffer = [1, 2, 3, 0], size = 4, rb_in = 3, rb_out = 2, in_tracing = False\<rparr> [4, 5] \<and>
      rb_push [4, 5] \<lparr>buffer = [1, 2, 3, 0], size = 4, rb_in = 3, rb_out = 2, in_tracing = False\<rparr> =
      Some \<lparr>buffer = [5, 2, 3, 4], size = 4, rb_in = 5, rb_out = 2, in_tracing = False\<rparr>"
    by (simp add: rb_room_def rb_push_def buf_write_def)
  have 4: "rb_pop 3 \<lparr>buffer = [5, 2, 3, 4], size = 4, rb_in = 5, rb_out = 2, in_tracing = False\<rparr> =
      Some ([3, 4, 5], \<lparr>buffer = [5, 2, 3, 4], size = 4, rb_in = 0, rb_out = 0, in_tracing = False\<rparr>)"
    by (simp add: rb_pop_def rb_reset_if_empty_def buf_read_def)
  have run: "fifo_run rb_room id rb_push rb_pop [Push [1, 2, 3], Pop 2, Push [4, 5], Pop 3] ?rb =
       Some ([1, 2, 3, 4, 5], [1, 2, 3, 4, 5],
         \<lparr>buffer = [5, 2, 3, 4], size = 4, rb_in = 0, rb_out = 0, in_tracing = False\<rparr>)"
    by (simp add: 1 2 3 4)
  from ringbuf_fifo_order [OF new _ run] obtain ys where
    "ring_rep \<lparr>buffer = [5, 2, 3, 4], size = 4, rb_in = 0, rb_out = 0, in_tracing = False\<rparr> ys"
    "[1, 2, 3, 4, 5] = [1, 2, 3, 4, 5] @ ys" by auto
  with new run show ?thesis by blast
qed

end
