(* ===== verification/Shared_Crypto.thy ===== *)
theory Shared_Crypto
  imports Blue_Prelude "HOL-Library.Multiset"
begin

text \<open>
  The pairing cryptography of \<open>src/shared/crypto.c\<close>. The AES block cipher and AES-CMAC are
  kernel sockets; they are the argument \<open>K\<close> of the operations. The code keeps 128 bit values
  with the least significant octet first and turns them around for the kernel; the specifications at
  the end are the formulas of the core specification over octet strings with the most significant
  octet first, as the comments of the file quote them.

  A result is \<^const>\<open>None\<close> where the C code would read memory it never wrote or access memory
  outside an object, \<^const>\<open>Some\<close> \<^const>\<open>None\<close> where it answers false. What a failing
  operation leaves in its result buffer is not modelled.
\<close>

section \<open>The kernel and the object\<close>

datatype alg = ECB_AES | CMAC_AES

text \<open>
  \<open>k_key\<close>: whether \<open>setsockopt\<close> of the key and \<open>accept\<close> succeed; \<open>k_run\<close>: what a
  send followed by a read delivers, \<^const>\<open>None\<close> for a negative result. The setup functions
  are given the descriptors the system calls answer, negative when they fail, and what
  \<open>bind\<close> answers for a socket type and an algorithm name.
\<close>

record kernel =
  k_key :: "alg \<Rightarrow> u8 list \<Rightarrow> bool"
  k_run :: "alg \<Rightarrow> u8 list \<Rightarrow> u8 list \<Rightarrow> u8 list option"

record bt_crypto =
  ref_count :: int
  ecb_aes :: int
  urandom :: int
  cmac_aes :: int

text \<open>The setup functions answer the descriptor, and which descriptors they closed.\<close>

definition urandom_setup :: "int \<Rightarrow> int" where
  "urandom_setup open_fd = (if open_fd < 0 then -1 else open_fd)"

definition ecb_aes_setup :: "int \<Rightarrow> (string \<Rightarrow> string \<Rightarrow> int) \<Rightarrow> int \<times> int list" where
  "ecb_aes_setup socket bindf =
     (if socket < 0 then (-1, [])
      else if bindf ''skcipher'' ''ecb(aes)'' < 0 then (-1, [socket]) else (socket, []))"

definition cmac_aes_setup :: "int \<Rightarrow> (string \<Rightarrow> string \<Rightarrow> int) \<Rightarrow> int \<times> int list" where
  "cmac_aes_setup socket bindf =
     (if socket < 0 then (-1, [])
      else if bindf ''hash'' ''cmac(aes)'' < 0 then (-1, [socket]) else (socket, []))"

fun bt_crypto_ref :: "bt_crypto option \<Rightarrow> bt_crypto option" where
  "bt_crypto_ref None = None"
| "bt_crypto_ref (Some c) = Some (c\<lparr>ref_count := ref_count c + 1\<rparr>)"

text \<open>
  \<open>sock1\<close>, \<open>dev\<close> and \<open>sock2\<close> are what the three system calls answer, in the order
  they are made; the second component is what was closed.
\<close>

definition bt_crypto_new ::
  "int \<Rightarrow> int \<Rightarrow> int \<Rightarrow> (string \<Rightarrow> string \<Rightarrow> int) \<Rightarrow> bt_crypto option \<times> int list" where
  "bt_crypto_new sock1 dev sock2 bindf =
     (let (ecb, cl1) = ecb_aes_setup sock1 bindf
      in if ecb < 0 then (None, cl1)
      else let ur = urandom_setup dev
      in if ur < 0 then (None, cl1 @ [ecb])
      else let (cmac, cl2) = cmac_aes_setup sock2 bindf
      in if cmac < 0 then (None, cl1 @ cl2 @ [ur, ecb])
      else (bt_crypto_ref (Some \<lparr>ref_count = 0, ecb_aes = ecb, urandom = ur, cmac_aes = cmac\<rparr>), cl1 @ cl2))"

text \<open>The object that is left, and what was closed.\<close>

fun bt_crypto_unref :: "bt_crypto option \<Rightarrow> bt_crypto option \<times> int list" where
  "bt_crypto_unref None = (None, [])"
| "bt_crypto_unref (Some c) =
     (let c = c\<lparr>ref_count := ref_count c - 1\<rparr>
      in if ref_count c \<noteq> 0 then (Some c, []) else (None, [urandom c, ecb_aes c, cmac_aes c]))"

text \<open>\<open>rd\<close> is what \<open>read\<close> delivered, \<^const>\<open>None\<close> for an error.\<close>

fun bt_crypto_random_bytes :: "bt_crypto option \<Rightarrow> u8 list option \<Rightarrow> u8 \<Rightarrow> bool \<times> u8 list" where
  "bt_crypto_random_bytes None rd num_bytes = (False, [])"
| "bt_crypto_random_bytes (Some c) rd num_bytes =
     (case rd of
        None \<Rightarrow> (False, [])
      | Some d \<Rightarrow> if length d < unat num_bytes then (False, d) else (True, d))"

section \<open>Calling the kernel\<close>

definition alg_new :: "kernel \<Rightarrow> alg \<Rightarrow> u8 list \<Rightarrow> (alg \<times> u8 list) option" where
  "alg_new K a key = (if k_key K a key then Some (a, key) else None)"

text \<open>
  The read gives at most \<open>outlen\<close> bytes; it may give fewer, which is not an error.
\<close>

definition alg_encrypt :: "kernel \<Rightarrow> alg \<times> u8 list \<Rightarrow> u8 list \<Rightarrow> nat \<Rightarrow> u8 list option" where
  "alg_encrypt K fd inbuf outlen = map_option (take outlen) (k_run K (fst fd) (snd fd) inbuf)"

definition swap_buf :: "u8 list \<Rightarrow> nat \<Rightarrow> u8 list option" where
  "swap_buf src len = map_option rev (buf_read src 0 len)"

text \<open>A false answer ends the operation.\<close>

definition and_then :: "'a option option \<Rightarrow> ('a \<Rightarrow> 'b option option) \<Rightarrow> 'b option option" where
  "and_then m f = (case m of None \<Rightarrow> None | Some None \<Rightarrow> Some None | Some (Some x) \<Rightarrow> f x)"

definition le32_bytes :: "u32 \<Rightarrow> u8 list" where
  "le32_bytes w = rev (be32_bytes w)"

definition bt_crypto_sign_att ::
  "kernel option \<Rightarrow> u8 list \<Rightarrow> u8 list \<Rightarrow> u16 \<Rightarrow> u32 \<Rightarrow> u8 list option option" where
  "bt_crypto_sign_att crypto key m m_len sign_cnt =
     (let msg_len = m_len + 4
      in case crypto of
           None \<Rightarrow> Some None
         | Some K \<Rightarrow> do {
             let msg = replicate (unat msg_len) 0;
             d \<leftarrow> buf_read m 0 (unat m_len);
             msg \<leftarrow> buf_write msg 0 d;
             msg \<leftarrow> buf_write msg (unat m_len) (le32_bytes sign_cnt);
             tmp \<leftarrow> swap_buf key 16;
             and_then (Some (alg_new K CMAC_AES tmp)) (\<lambda>fd. do {
               msg_s \<leftarrow> swap_buf msg (unat msg_len);
               and_then (Some (alg_encrypt K fd msg_s 16)) (\<lambda>out. do {
                 out \<leftarrow> buf_read out 0 16;
                 out \<leftarrow> buf_write out 8 (be32_bytes sign_cnt);
                 tmp \<leftarrow> swap_buf out 16;
                 sig \<leftarrow> buf_read tmp 4 12;
                 Some (Some sig) }) }) })"

definition bt_crypto_e :: "kernel option \<Rightarrow> u8 list \<Rightarrow> u8 list \<Rightarrow> u8 list option option" where
  "bt_crypto_e crypto key plaintext =
     (case crypto of
        None \<Rightarrow> Some None
      | Some K \<Rightarrow> do {
          tmp \<leftarrow> swap_buf key 16;
          and_then (Some (alg_new K ECB_AES tmp)) (\<lambda>fd. do {
            inb \<leftarrow> swap_buf plaintext 16;
            and_then (Some (alg_encrypt K fd inb 16)) (\<lambda>out. do {
              encrypted \<leftarrow> swap_buf out 16;
              Some (Some encrypted) }) }) })"

definition bt_crypto_ah :: "kernel option \<Rightarrow> u8 list \<Rightarrow> u8 list \<Rightarrow> u8 list option option" where
  "bt_crypto_ah crypto k r =
     (if crypto = None then Some None
      else do {
        r \<leftarrow> buf_read r 0 3;
        let rp = r @ replicate 13 0;
        and_then (bt_crypto_e crypto k rp) (\<lambda>encrypted. do {
          hash \<leftarrow> buf_read encrypted 0 3;
          Some (Some hash) }) })"

definition u128_xor :: "u8 list \<Rightarrow> u8 list \<Rightarrow> u8 list option" where
  "u128_xor p q = do { p \<leftarrow> buf_read p 0 16; q \<leftarrow> buf_read q 0 16; Some (map2 (XOR) p q) }"

definition bt_crypto_c1 ::
  "kernel option \<Rightarrow> u8 list \<Rightarrow> u8 list \<Rightarrow> u8 list \<Rightarrow> u8 list \<Rightarrow> u8 \<Rightarrow> u8 list \<Rightarrow> u8 \<Rightarrow> u8 list \<Rightarrow>
   u8 list option option" where
  "bt_crypto_c1 crypto k r pres preq iat ia rat ra = do {
     preq \<leftarrow> buf_read preq 0 7;
     pres \<leftarrow> buf_read pres 0 7;
     let p1 = [iat, rat] @ preq @ pres;
     ra \<leftarrow> buf_read ra 0 6;
     ia \<leftarrow> buf_read ia 0 6;
     let p2 = ra @ ia @ replicate 4 0;
     res \<leftarrow> u128_xor r p1;
     and_then (bt_crypto_e crypto k res) (\<lambda>res. do {
       res \<leftarrow> u128_xor res p2;
       bt_crypto_e crypto k res }) }"

definition bt_crypto_s1 :: "kernel option \<Rightarrow> u8 list \<Rightarrow> u8 list \<Rightarrow> u8 list \<Rightarrow> u8 list option option" where
  "bt_crypto_s1 crypto k r1 r2 = do {
     lo \<leftarrow> buf_read r2 0 8;
     hi \<leftarrow> buf_read r1 0 8;
     bt_crypto_e crypto k (lo @ hi) }"

definition CMAC_MSG_MAX :: nat where
  "CMAC_MSG_MAX = 80"

text \<open>Without an object the descriptor is read through a null pointer.\<close>

definition aes_cmac :: "kernel option \<Rightarrow> u8 list \<Rightarrow> u8 list \<Rightarrow> nat \<Rightarrow> u8 list option option" where
  "aes_cmac crypto key msg msg_len =
     (if CMAC_MSG_MAX < msg_len then Some None
      else do {
        key_msb \<leftarrow> swap_buf key 16;
        K \<leftarrow> crypto;
        and_then (Some (alg_new K CMAC_AES key_msb)) (\<lambda>fd. do {
          msg_msb \<leftarrow> swap_buf msg msg_len;
          and_then (Some (alg_encrypt K fd msg_msb 16)) (\<lambda>out. do {
            res \<leftarrow> swap_buf out 16;
            Some (Some res) }) }) })"

definition bt_crypto_f4 ::
  "kernel option \<Rightarrow> u8 list \<Rightarrow> u8 list \<Rightarrow> u8 list \<Rightarrow> u8 \<Rightarrow> u8 list option option" where
  "bt_crypto_f4 crypto u v x z =
     (if crypto = None then Some None
      else do {
        v \<leftarrow> buf_read v 0 32;
        u \<leftarrow> buf_read u 0 32;
        aes_cmac crypto x ([z] @ v @ u) 65 })"

definition bt_crypto_f5 ::
  "kernel option \<Rightarrow> u8 list \<Rightarrow> u8 list \<Rightarrow> u8 list \<Rightarrow> u8 list \<Rightarrow> u8 list \<Rightarrow> (u8 list \<times> u8 list) option option" where
  "bt_crypto_f5 crypto w n1 n2 a1 a2 =
     (let btle = [0x65, 0x6c, 0x74, 0x62];
          salt = [0xbe, 0x83, 0x60, 0x5a, 0xdb, 0x0b, 0x37, 0x60,
                  0x38, 0xa5, 0xf5, 0xaa, 0x91, 0x83, 0x88, 0x6c];
          len = [0x00, 0x01]
      in and_then (aes_cmac crypto salt w 32) (\<lambda>t. do {
           a2 \<leftarrow> buf_read a2 0 7;
           a1 \<leftarrow> buf_read a1 0 7;
           n2 \<leftarrow> buf_read n2 0 16;
           n1 \<leftarrow> buf_read n1 0 16;
           let m = len @ a2 @ a1 @ n2 @ n1 @ btle @ [0];
           and_then (aes_cmac crypto t m 53) (\<lambda>mackey. do {
             m \<leftarrow> buf_write m 52 [1];
             and_then (aes_cmac crypto t m 53) (\<lambda>ltk. Some (Some (mackey, ltk))) }) }))"

definition bt_crypto_f6 ::
  "kernel option \<Rightarrow> u8 list \<Rightarrow> u8 list \<Rightarrow> u8 list \<Rightarrow> u8 list \<Rightarrow> u8 list \<Rightarrow> u8 list \<Rightarrow> u8 list \<Rightarrow>
   u8 list option option" where
  "bt_crypto_f6 crypto w n1 n2 r io_cap a1 a2 = do {
     a2 \<leftarrow> buf_read a2 0 7;
     a1 \<leftarrow> buf_read a1 0 7;
     io_cap \<leftarrow> buf_read io_cap 0 3;
     r \<leftarrow> buf_read r 0 16;
     n2 \<leftarrow> buf_read n2 0 16;
     n1 \<leftarrow> buf_read n1 0 16;
     aes_cmac crypto w (a2 @ a1 @ io_cap @ r @ n2 @ n1) 65 }"

definition get_le32 :: "u8 list \<Rightarrow> u32 option" where
  "get_le32 b = do {
     a \<leftarrow> buf_get b 0; b' \<leftarrow> buf_get b 1; c \<leftarrow> buf_get b 2; d \<leftarrow> buf_get b 3;
     Some (be32_val d c b' a) }"

definition bt_crypto_g2 ::
  "kernel option \<Rightarrow> u8 list \<Rightarrow> u8 list \<Rightarrow> u8 list \<Rightarrow> u8 list \<Rightarrow> u32 option option" where
  "bt_crypto_g2 crypto u v x y = do {
     y \<leftarrow> buf_read y 0 16;
     v \<leftarrow> buf_read v 0 32;
     u \<leftarrow> buf_read u 0 32;
     and_then (aes_cmac crypto x (y @ v @ u) 80) (\<lambda>tmp. do {
       val \<leftarrow> get_le32 tmp;
       Some (Some (val mod 1000000)) }) }"

definition bt_crypto_h6 :: "kernel option \<Rightarrow> u8 list \<Rightarrow> u8 list \<Rightarrow> u8 list option option" where
  "bt_crypto_h6 crypto w keyid = aes_cmac crypto w keyid 4"

section \<open>The documented kernel\<close>

text \<open>
  The sockets accept 16 byte keys and compute the functions \<open>aes\<close> and \<open>mac\<close>, whose results
  have 16 bytes.
\<close>

definition aes_kernel :: "kernel \<Rightarrow> (u8 list \<Rightarrow> u8 list \<Rightarrow> u8 list) \<Rightarrow> bool" where
  "aes_kernel K aes \<longleftrightarrow> (\<forall>key p. length key = 16 \<and> length p = 16 \<longrightarrow>
     k_key K ECB_AES key \<and> k_run K ECB_AES key p = Some (aes key p) \<and> length (aes key p) = 16)"

definition cmac_kernel :: "kernel \<Rightarrow> (u8 list \<Rightarrow> u8 list \<Rightarrow> u8 list) \<Rightarrow> bool" where
  "cmac_kernel K mac \<longleftrightarrow> (\<forall>key m. length key = 16 \<longrightarrow>
     k_key K CMAC_AES key \<and> k_run K CMAC_AES key m = Some (mac key m) \<and> length (mac key m) = 16)"

lemma swap_buf_rev [simp]: "length s = n \<Longrightarrow> swap_buf (rev s) n = Some s"
  by (simp add: swap_buf_def buf_read_def)

lemma swap_buf_exact: "length s = n \<Longrightarrow> swap_buf s n = Some (rev s)"
  by (simp add: swap_buf_def buf_read_def)

lemma buf_read_all [simp]: "length s = n \<Longrightarrow> buf_read s 0 n = Some s"
  by (simp add: buf_read_def)

lemma and_then_simps [simp]:
  "and_then (Some (Some x)) f = f x" "and_then (Some None) f = Some None" "and_then None f = None"
  by (simp_all add: and_then_def)

lemma crypto_e_rev:
  assumes "aes_kernel K aes" and "length k = 16" and "length p = 16"
  shows "bt_crypto_e (Some K) (rev k) (rev p) = Some (Some (rev (aes k p)))"
  using assms
  by (simp add: bt_crypto_e_def aes_kernel_def alg_new_def alg_encrypt_def swap_buf_exact)

lemma aes_cmac_rev:
  assumes "cmac_kernel K mac" and "length k = 16" and "length m = n" and "n \<le> 80"
  shows "aes_cmac (Some K) (rev k) (rev m) n = Some (Some (rev (mac k m)))"
  using assms
  by (simp add: aes_cmac_def cmac_kernel_def alg_new_def alg_encrypt_def CMAC_MSG_MAX_def swap_buf_exact)

section \<open>The functions of the core specification\<close>

text \<open>Octet strings with the most significant octet first; \<open>@\<close> is the concatenation.\<close>

definition ah_spec :: "(u8 list \<Rightarrow> u8 list \<Rightarrow> u8 list) \<Rightarrow> u8 list \<Rightarrow> u8 list \<Rightarrow> u8 list" where
  "ah_spec aes k r = drop 13 (aes k (replicate 13 0 @ r))"

definition c1_spec ::
  "(u8 list \<Rightarrow> u8 list \<Rightarrow> u8 list) \<Rightarrow> u8 list \<Rightarrow> u8 list \<Rightarrow> u8 list \<Rightarrow> u8 list \<Rightarrow> u8 \<Rightarrow> u8 list \<Rightarrow> u8 \<Rightarrow> u8 list \<Rightarrow>
   u8 list" where
  "c1_spec aes k r pres preq iat ia rat ra =
     (let p1 = pres @ preq @ [rat] @ [iat]; p2 = replicate 4 0 @ ia @ ra
      in aes k (map2 (XOR) (aes k (map2 (XOR) r p1)) p2))"

definition s1_spec :: "(u8 list \<Rightarrow> u8 list \<Rightarrow> u8 list) \<Rightarrow> u8 list \<Rightarrow> u8 list \<Rightarrow> u8 list \<Rightarrow> u8 list" where
  "s1_spec aes k r1 r2 = aes k (drop 8 r1 @ drop 8 r2)"

definition f5_salt :: "u8 list" where
  "f5_salt = [0x6C, 0x88, 0x83, 0x91, 0xAA, 0xF5, 0xA5, 0x38, 0x60, 0x37, 0x0B, 0xDB, 0x5A, 0x60, 0x83, 0xBE]"

definition f5_spec ::
  "(u8 list \<Rightarrow> u8 list \<Rightarrow> u8 list) \<Rightarrow> u8 \<Rightarrow> u8 list \<Rightarrow> u8 list \<Rightarrow> u8 list \<Rightarrow> u8 list \<Rightarrow> u8 list \<Rightarrow> u8 list" where
  "f5_spec mac counter w n1 n2 a1 a2 =
     mac (mac f5_salt w) ([counter] @ [0x62, 0x74, 0x6C, 0x65] @ n1 @ n2 @ a1 @ a2 @ [1, 0])"

definition g2_spec :: "(u8 list \<Rightarrow> u8 list \<Rightarrow> u8 list) \<Rightarrow> u8 list \<Rightarrow> u8 list \<Rightarrow> u8 list \<Rightarrow> u8 list \<Rightarrow> u32" where
  "g2_spec mac u v x y =
     (let c = mac x (u @ v @ y) in be32_val (c ! 12) (c ! 13) (c ! 14) (c ! 15) mod 1000000)"

definition sign_spec :: "(u8 list \<Rightarrow> u8 list \<Rightarrow> u8 list) \<Rightarrow> u8 list \<Rightarrow> u8 list \<Rightarrow> u32 \<Rightarrow> u8 list" where
  "sign_spec mac csrk m cnt = take 8 (mac csrk (be32_bytes cnt @ m)) @ be32_bytes cnt"

lemma map2_rev:
  "length xs = length ys \<Longrightarrow> map2 f (rev xs) (rev ys) = rev (map2 f xs ys)"
  by (simp add: zip_rev rev_map)

lemma u128_xor_rev:
  "length p = 16 \<Longrightarrow> length q = 16 \<Longrightarrow> u128_xor (rev p) (rev q) = Some (rev (map2 (XOR) p q))"
  by (simp add: u128_xor_def map2_rev)

lemma aes_length: "aes_kernel K aes \<Longrightarrow> length k = 16 \<Longrightarrow> length p = 16 \<Longrightarrow> length (aes k p) = 16"
  by (simp add: aes_kernel_def)

lemma mac_length: "cmac_kernel K mac \<Longrightarrow> length k = 16 \<Longrightarrow> length (mac k m) = 16"
  by (simp add: cmac_kernel_def)

lemma ah_rev:
  assumes "aes_kernel K aes" and "length k = 16" and "length r = 3"
  shows "bt_crypto_ah (Some K) (rev k) (rev r) = Some (Some (rev (ah_spec aes k r)))"
proof -
  let ?p = "replicate 13 0 @ r"
  have p: "rev r @ replicate 13 0 = rev ?p" by simp
  have "length (aes k ?p) = 16" using assms by (intro aes_length [OF assms(1)]) auto
  moreover have "bt_crypto_e (Some K) (rev k) (rev ?p) = Some (Some (rev (aes k ?p)))"
    using assms by (intro crypto_e_rev) auto
  ultimately show ?thesis using assms(3)
    by (simp add: bt_crypto_ah_def p ah_spec_def buf_read_def take_rev del: rev_append)
qed

lemma c1_rev:
  assumes "aes_kernel K aes" and "length k = 16" and "length r = 16" and "length pres = 7"
    and "length preq = 7" and "length ia = 6" and "length ra = 6"
  shows "bt_crypto_c1 (Some K) (rev k) (rev r) (rev pres) (rev preq) iat (rev ia) rat (rev ra) =
     Some (Some (rev (c1_spec aes k r pres preq iat ia rat ra)))"
proof -
  let ?p1 = "pres @ preq @ [rat] @ [iat]" and ?p2 = "replicate 4 0 @ ia @ ra"
  let ?x = "map2 (XOR) r ?p1"
  have p: "[iat, rat] @ rev preq @ rev pres = rev ?p1" "rev ra @ rev ia @ replicate 4 0 = rev ?p2"
    by simp_all
  have x1: "u128_xor (rev r) (rev ?p1) = Some (rev ?x)" using assms by (intro u128_xor_rev) auto
  have e1: "bt_crypto_e (Some K) (rev k) (rev ?x) = Some (Some (rev (aes k ?x)))"
    using assms by (intro crypto_e_rev) auto
  have len: "length (aes k ?x) = 16" using assms by (intro aes_length [OF assms(1)]) auto
  then have x2: "u128_xor (rev (aes k ?x)) (rev ?p2) = Some (rev (map2 (XOR) (aes k ?x) ?p2))"
    using assms by (intro u128_xor_rev) auto
  have e2: "bt_crypto_e (Some K) (rev k) (rev (map2 (XOR) (aes k ?x) ?p2)) =
      Some (Some (rev (aes k (map2 (XOR) (aes k ?x) ?p2))))"
    using assms len by (intro crypto_e_rev) auto
  have rd: "buf_read (rev preq) 0 7 = Some (rev preq)" "buf_read (rev pres) 0 7 = Some (rev pres)"
    "buf_read (rev ra) 0 6 = Some (rev ra)" "buf_read (rev ia) 0 6 = Some (rev ia)"
    using assms(4-7) by simp_all
  show ?thesis
    unfolding bt_crypto_c1_def c1_spec_def Let_def
    by (simp only: rd Option.bind_lunit p x1 and_then_simps e1 x2 e2)
qed

lemma s1_rev:
  assumes "aes_kernel K aes" and "length k = 16" and "length r1 = 16" and "length r2 = 16"
  shows "bt_crypto_s1 (Some K) (rev k) (rev r1) (rev r2) = Some (Some (rev (s1_spec aes k r1 r2)))"
proof -
  have p: "rev (drop 8 r2) @ rev (drop 8 r1) = rev (drop 8 r1 @ drop 8 r2)" by simp
  have "bt_crypto_e (Some K) (rev k) (rev (drop 8 r1 @ drop 8 r2)) = Some (Some (rev (s1_spec aes k r1 r2)))"
    unfolding s1_spec_def using assms by (intro crypto_e_rev) auto
  then show ?thesis using assms(3,4)
    by (simp add: bt_crypto_s1_def buf_read_def take_rev p del: rev_append)
qed

lemma f4_rev:
  assumes "cmac_kernel K mac" and "length u = 32" and "length v = 32" and "length x = 16"
  shows "bt_crypto_f4 (Some K) (rev u) (rev v) (rev x) z = Some (Some (rev (mac x (u @ v @ [z]))))"
proof -
  have p: "[z] @ rev v @ rev u = rev (u @ v @ [z])" by simp
  have rd: "buf_read (rev v) 0 32 = Some (rev v)" "buf_read (rev u) 0 32 = Some (rev u)"
    using assms by simp_all
  have c: "aes_cmac (Some K) (rev x) (rev (u @ v @ [z])) 65 = Some (Some (rev (mac x (u @ v @ [z]))))"
    using assms by (intro aes_cmac_rev) auto
  show ?thesis unfolding bt_crypto_f4_def by (simp only: rd Option.bind_lunit p c option.simps if_False)
qed

lemma h6_rev:
  assumes "cmac_kernel K mac" and "length k = 16" and "length keyid = 4"
  shows "bt_crypto_h6 (Some K) (rev k) (rev keyid) = Some (Some (rev (mac k keyid)))"
  unfolding bt_crypto_h6_def using assms by (intro aes_cmac_rev) auto

lemma f5_rev:
  assumes "cmac_kernel K mac" and "length w = 32" and "length n1 = 16" and "length n2 = 16"
    and "length a1 = 7" and "length a2 = 7"
  shows "bt_crypto_f5 (Some K) (rev w) (rev n1) (rev n2) (rev a1) (rev a2) =
     Some (Some (rev (f5_spec mac 0 w n1 n2 a1 a2), rev (f5_spec mac 1 w n1 n2 a1 a2)))"
proof -
  let ?t = "mac f5_salt w"
  let ?m = "\<lambda>c. [c] @ [0x62, 0x74, 0x6C, 0x65] @ n1 @ n2 @ a1 @ a2 @ [1, 0]"
  have salt: "[0xbe, 0x83, 0x60, 0x5a, 0xdb, 0x0b, 0x37, 0x60, 0x38, 0xa5, 0xf5, 0xaa, 0x91, 0x83, 0x88, 0x6c] =
      rev f5_salt" by (simp add: f5_salt_def)
  have c1: "aes_cmac (Some K) (rev f5_salt) (rev w) 32 = Some (Some (rev ?t))"
    using assms by (intro aes_cmac_rev) (auto simp: f5_salt_def)
  have t: "length ?t = 16" by (rule mac_length [OF assms(1)]) (simp add: f5_salt_def)
  have rd: "buf_read (rev a2) 0 7 = Some (rev a2)" "buf_read (rev a1) 0 7 = Some (rev a1)"
    "buf_read (rev n2) 0 16 = Some (rev n2)" "buf_read (rev n1) 0 16 = Some (rev n1)"
    using assms by simp_all
  have m: "[0x00, 0x01] @ rev a2 @ rev a1 @ rev n2 @ rev n1 @ [0x65, 0x6c, 0x74, 0x62] @ [0] = rev (?m 0)"
    by simp
  have m1: "buf_write (rev (?m 0)) 52 [1] = Some (rev (?m 1))"
    using assms buf_write_append [of 52 "[0x00, 0x01] @ rev a2 @ rev a1 @ rev n2 @ rev n1 @ [0x65, 0x6c, 0x74, 0x62]" "[1]" "[0]"]
    by simp
  have c2: "aes_cmac (Some K) (rev ?t) (rev (?m c)) 53 = Some (Some (rev (f5_spec mac c w n1 n2 a1 a2)))" for c
    unfolding f5_spec_def using assms t by (intro aes_cmac_rev) auto
  show ?thesis unfolding bt_crypto_f5_def Let_def
    by (simp only: salt c1 and_then_simps rd Option.bind_lunit m m1 c2)
qed

lemma f6_rev:
  assumes "cmac_kernel K mac" and "length w = 16" and "length n1 = 16" and "length n2 = 16"
    and "length r = 16" and "length io = 3" and "length a1 = 7" and "length a2 = 7"
  shows "bt_crypto_f6 (Some K) (rev w) (rev n1) (rev n2) (rev r) (rev io) (rev a1) (rev a2) =
     Some (Some (rev (mac w (n1 @ n2 @ r @ io @ a1 @ a2))))"
proof -
  let ?m = "n1 @ n2 @ r @ io @ a1 @ a2"
  have p: "rev a2 @ rev a1 @ rev io @ rev r @ rev n2 @ rev n1 = rev ?m" by simp
  have rd: "buf_read (rev a2) 0 7 = Some (rev a2)" "buf_read (rev a1) 0 7 = Some (rev a1)"
    "buf_read (rev io) 0 3 = Some (rev io)" "buf_read (rev r) 0 16 = Some (rev r)"
    "buf_read (rev n2) 0 16 = Some (rev n2)" "buf_read (rev n1) 0 16 = Some (rev n1)"
    using assms by simp_all
  have c: "aes_cmac (Some K) (rev w) (rev ?m) 65 = Some (Some (rev (mac w ?m)))"
    using assms by (intro aes_cmac_rev) auto
  show ?thesis unfolding bt_crypto_f6_def by (simp only: rd Option.bind_lunit p c)
qed

lemma g2_rev:
  assumes "cmac_kernel K mac" and "length u = 32" and "length v = 32" and "length x = 16" and "length y = 16"
  shows "bt_crypto_g2 (Some K) (rev u) (rev v) (rev x) (rev y) = Some (Some (g2_spec mac u v x y))"
proof -
  let ?m = "u @ v @ y"
  have p: "rev y @ rev v @ rev u = rev ?m" by simp
  have rd: "buf_read (rev y) 0 16 = Some (rev y)" "buf_read (rev v) 0 32 = Some (rev v)"
    "buf_read (rev u) 0 32 = Some (rev u)" using assms by simp_all
  have c: "aes_cmac (Some K) (rev x) (rev ?m) 80 = Some (Some (rev (mac x ?m)))"
    using assms by (intro aes_cmac_rev) auto
  have "length (mac x ?m) = 16" using assms by (intro mac_length [OF assms(1)])
  then have g: "get_le32 (rev (mac x ?m)) =
      Some (be32_val (mac x ?m ! 12) (mac x ?m ! 13) (mac x ?m ! 14) (mac x ?m ! 15))"
    by (simp add: get_le32_def buf_get_def rev_nth)
  show ?thesis unfolding bt_crypto_g2_def g2_spec_def Let_def
    by (simp only: rd Option.bind_lunit p c and_then_simps g)
qed

lemma sign_att_rev:
  assumes "cmac_kernel K mac" and "length k = 16" and "length m < 2 ^ 16 - 4"
  shows "bt_crypto_sign_att (Some K) (rev k) (rev m @ r) (of_nat (length m)) cnt =
     Some (Some (rev (sign_spec mac k m cnt)))"
proof -
  let ?n = "length m" and ?l = "of_nat (length m) :: u16"
  have n: "unat ?l = ?n" using assms(3) by (intro unat_of_nat_small) simp
  have "unat (?l + of_nat 4) = ?n + 4" using assms(3) n by (subst unat_add_of_nat) simp_all
  then have ml: "unat (?l + 4) = ?n + 4" by simp
  have rd: "buf_read (rev m @ r) 0 ?n = Some (rev m)" by (simp add: buf_read_def)
  have w1: "buf_write (replicate (?n + 4) 0) 0 (rev m) = Some (rev m @ replicate 4 0)"
    by (simp add: buf_write_0)
  have w2: "buf_write (rev m @ replicate 4 0) ?n (le32_bytes cnt) = Some (rev (be32_bytes cnt @ m))"
    using buf_write_append [of ?n "rev m" "le32_bytes cnt" "replicate 4 0"] by (simp add: le32_bytes_def)
  let ?c = "mac k (be32_bytes cnt @ m)"
  have c: "length ?c = 16" using assms by (intro mac_length [OF assms(1)])
  have sw: "swap_buf (rev (be32_bytes cnt @ m)) (?n + 4) = Some (be32_bytes cnt @ m)"
    by (rule swap_buf_rev) simp
  have new: "alg_new K CMAC_AES k = Some (CMAC_AES, k)"
    "alg_encrypt K (CMAC_AES, k) (be32_bytes cnt @ m) 16 = Some ?c"
    using assms(1,2) c by (auto simp: alg_new_def alg_encrypt_def cmac_kernel_def)
  have o1: "buf_read ?c 0 16 = Some ?c" using c by simp
  have o2: "buf_write ?c 8 (be32_bytes cnt) = Some (take 8 ?c @ be32_bytes cnt @ drop 12 ?c)"
    using c by (simp add: buf_write_def)
  have o3: "swap_buf (take 8 ?c @ be32_bytes cnt @ drop 12 ?c) 16 =
      Some (rev (take 8 ?c @ be32_bytes cnt @ drop 12 ?c))"
    using c by (intro swap_buf_exact) simp
  have o4: "buf_read (rev (take 8 ?c @ be32_bytes cnt @ drop 12 ?c)) 4 12 =
      Some (rev (take 8 ?c @ be32_bytes cnt))"
    using c by (simp add: buf_read_def)
  show ?thesis
    unfolding bt_crypto_sign_att_def Let_def option.case
    by (simp only: n ml rd w1 w2 swap_buf_rev [OF assms(2)] Option.bind_lunit new and_then_simps sw o1 o2 o3 o4 sign_spec_def)
qed

section \<open>Properties\<close>

text \<open>A kernel that computes functions with the documented lengths.\<close>

definition toy_aes :: "u8 list \<Rightarrow> u8 list \<Rightarrow> u8 list" where
  "toy_aes k p = map2 (XOR) k p"

definition toy_mac :: "u8 list \<Rightarrow> u8 list \<Rightarrow> u8 list" where
  "toy_mac k m = take 16 (m @ k)"

definition toy_kernel :: kernel where
  "toy_kernel = \<lparr>k_key = (\<lambda>_ k. length k = 16),
     k_run = (\<lambda>a k m. Some (case a of ECB_AES \<Rightarrow> toy_aes k m | CMAC_AES \<Rightarrow> toy_mac k m))\<rparr>"

lemma toy_kernel_ok: "aes_kernel toy_kernel toy_aes" "cmac_kernel toy_kernel toy_mac"
  by (auto simp: aes_kernel_def cmac_kernel_def toy_kernel_def toy_aes_def toy_mac_def)

text \<open>
  On a kernel that computes AES, \<open>bt_crypto_ah\<close>, \<open>bt_crypto_c1\<close> and
  \<open>bt_crypto_s1\<close> compute the functions ah, c1 and s1 of the core specification, for all inputs of
  the specified lengths, with the octets reversed.
\<close>

theorem crypto_legacy_functions:
  assumes "aes_kernel K aes" and "length k = 16" and "length r = 3" and "length q1 = 16" and "length q2 = 16"
    and "length pres = 7" and "length preq = 7" and "length ia = 6" and "length ra = 6"
  shows "bt_crypto_ah (Some K) (rev k) (rev r) = Some (Some (rev (ah_spec aes k r))) \<and>
     bt_crypto_c1 (Some K) (rev k) (rev q1) (rev pres) (rev preq) iat (rev ia) rat (rev ra) =
       Some (Some (rev (c1_spec aes k q1 pres preq iat ia rat ra))) \<and>
     bt_crypto_s1 (Some K) (rev k) (rev q1) (rev q2) = Some (Some (rev (s1_spec aes k q1 q2)))"
  using ah_rev [OF assms(1-3)] c1_rev [OF assms(1,2,4,6-9)] s1_rev [OF assms(1,2,4,5)] by blast

theorem crypto_legacy_functions_witness:
  "bt_crypto_ah (Some toy_kernel) (replicate 16 7) [3, 2, 1] =
     Some (Some (rev (ah_spec toy_aes (replicate 16 7) [1, 2, 3])))"
  using crypto_legacy_functions [OF toy_kernel_ok(1), of "replicate 16 7" "[1, 2, 3]" "replicate 16 1"
      "replicate 16 2" "replicate 7 3" "replicate 7 4" "replicate 6 5" "replicate 6 6"] by simp

text \<open>
  C35: On a kernel that computes AES-CMAC, \<open>bt_crypto_f4\<close>, \<open>bt_crypto_f5\<close>,
  \<open>bt_crypto_f6\<close>, \<open>bt_crypto_g2\<close> and \<open>bt_crypto_h6\<close> compute the functions of LE Secure Connections: the
  CMAC of the concatenations the specification gives, for f5 under the key derived with the salt and
  with the counters 0 and 1, for g2 reduced to six decimal digits, for h6 of the four bytes of the key identifier.
\<close>

theorem crypto_sc_functions:
  assumes "cmac_kernel K mac" and "length u = 32" and "length v = 32" and "length w = 32"
    and "length x = 16" and "length y = 16" and "length n1 = 16" and "length n2 = 16"
    and "length io = 3" and "length a1 = 7" and "length a2 = 7" and "length keyid = 4"
  shows "bt_crypto_f4 (Some K) (rev u) (rev v) (rev x) z = Some (Some (rev (mac x (u @ v @ [z])))) \<and>
     bt_crypto_f5 (Some K) (rev w) (rev n1) (rev n2) (rev a1) (rev a2) =
       Some (Some (rev (f5_spec mac 0 w n1 n2 a1 a2), rev (f5_spec mac 1 w n1 n2 a1 a2))) \<and>
     bt_crypto_f6 (Some K) (rev x) (rev n1) (rev n2) (rev y) (rev io) (rev a1) (rev a2) =
       Some (Some (rev (mac x (n1 @ n2 @ y @ io @ a1 @ a2)))) \<and>
     bt_crypto_g2 (Some K) (rev u) (rev v) (rev x) (rev y) = Some (Some (g2_spec mac u v x y)) \<and>
     bt_crypto_h6 (Some K) (rev x) (rev keyid) = Some (Some (rev (mac x keyid)))"
  using f4_rev [OF assms(1-3,5)] f5_rev [OF assms(1,4,7,8,10,11)]
    f6_rev [OF assms(1,5,7,8,6,9-11)] g2_rev [OF assms(1-3,5,6)] h6_rev [OF assms(1,5,12)] by blast

theorem crypto_sc_functions_witness:
  "bt_crypto_g2 (Some toy_kernel) (replicate 32 1) (replicate 32 2) (replicate 16 3) (replicate 16 4) =
     Some (Some (g2_spec toy_mac (replicate 32 1) (replicate 32 2) (replicate 16 3) (replicate 16 4))) \<and>
   bt_crypto_h6 (Some toy_kernel) (replicate 16 3) [4, 3, 2, 1] = Some (Some (rev (toy_mac (replicate 16 3) [1, 2, 3, 4])))"
  using crypto_sc_functions [OF toy_kernel_ok(2), of "replicate 32 1" "replicate 32 2" "replicate 32 5"
      "replicate 16 3" "replicate 16 4" "replicate 16 6" "replicate 16 7" "replicate 3 8" "replicate 7 9"
      "replicate 7 10" "[1, 2, 3, 4]"] by simp

text \<open>
  \<open>bt_crypto_sign_att\<close> gives the 64 most significant bits of the CMAC of the counter and the
  message, followed by the counter; the message is the first \<open>m_len\<close> bytes of the buffer, whose length
  must leave room for the counter in 16 bits.
\<close>

theorem crypto_sign_att:
  assumes "cmac_kernel K mac" and "length k = 16" and "length m < 2 ^ 16 - 4"
  shows "bt_crypto_sign_att (Some K) (rev k) (rev m @ r) (of_nat (length m)) cnt =
     Some (Some (rev (sign_spec mac k m cnt)))"
  by (rule sign_att_rev [OF assms])

theorem crypto_sign_att_witness:
  "bt_crypto_sign_att (Some toy_kernel) (replicate 16 7) [3, 2, 1] 3 9 =
     Some (Some (rev (sign_spec toy_mac (replicate 16 7) [1, 2, 3] 9)))"
  using crypto_sign_att [OF toy_kernel_ok(2), of "replicate 16 7" "[1, 2, 3]" "[]" 9] by simp

text \<open>Without an object, f5 reads through a null pointer, f4 answers false.\<close>

lemma crypto_null: "bt_crypto_f4 None u v x z = Some None"
  "length w = 32 \<Longrightarrow> bt_crypto_f5 None w n1 n2 a1 a2 = None"
  by (simp_all add: bt_crypto_f4_def bt_crypto_f5_def aes_cmac_def CMAC_MSG_MAX_def swap_buf_def buf_read_def)

text \<open>References: \<open>n\<close> releases, with what they close.\<close>

fun release_n :: "nat \<Rightarrow> bt_crypto option \<Rightarrow> bt_crypto option \<times> int list" where
  "release_n 0 c = (c, [])"
| "release_n (Suc n) c =
     (let (c, cl) = bt_crypto_unref c; (c', cl') = release_n n c in (c', cl @ cl'))"

lemma ref_n: "(bt_crypto_ref ^^ n) (Some c) = Some (c\<lparr>ref_count := ref_count c + int n\<rparr>)"
  by (induction n) simp_all

lemma release_held:
  "int n < ref_count c \<Longrightarrow> release_n n (Some c) = (Some (c\<lparr>ref_count := ref_count c - int n\<rparr>), [])"
  by (induction n arbitrary: c) simp_all

lemma release_Suc: "release_n (Suc n) c = (let (c, cl) = release_n n c; (c', cl') = bt_crypto_unref c in (c', cl @ cl'))"
proof (induction n arbitrary: c)
  case (Suc n)
  show ?case
    by (subst release_n.simps(2), subst Suc.IH) (simp add: Let_def split: prod.splits)
qed (simp split: prod.splits)

text \<open>
  A new object has open descriptors for the cipher, the random device and the CMAC, and closed
  none; \<open>n\<close> further references keep them open for \<open>n\<close> releases, and the next release closes each of
  the three exactly once. When the creation fails, everything it had opened was closed.
\<close>

theorem crypto_lifecycle:
  "case bt_crypto_new sock1 dev sock2 bindf of
     (Some c, cl) \<Rightarrow> cl = [] \<and> ecb_aes c = sock1 \<and> urandom c = dev \<and> cmac_aes c = sock2 \<and>
        0 \<le> sock1 \<and> 0 \<le> dev \<and> 0 \<le> sock2 \<and>
        (\<exists>c'. release_n n ((bt_crypto_ref ^^ n) (Some c)) = (Some c', [])) \<and>
        release_n (Suc n) ((bt_crypto_ref ^^ n) (Some c)) = (None, [dev, sock1, sock2])
   | (None, cl) \<Rightarrow> mset cl = mset (filter (\<lambda>fd. 0 \<le> fd)
        ([sock1] @ (if fst (ecb_aes_setup sock1 bindf) < 0 then []
                    else [dev] @ (if dev < 0 then [] else [sock2]))))"
proof (cases "bt_crypto_new sock1 dev sock2 bindf")
  case (Pair r cl)
  show ?thesis
  proof (cases r)
    case None
    with Pair show ?thesis
      by (auto simp: bt_crypto_new_def ecb_aes_setup_def cmac_aes_setup_def urandom_setup_def Let_def
          split: if_splits)
  next
    case (Some c)
    with Pair have c: "c = \<lparr>ref_count = 1, ecb_aes = sock1, urandom = dev, cmac_aes = sock2\<rparr>"
      "cl = []" "0 \<le> sock1" "0 \<le> dev" "0 \<le> sock2"
      by (auto simp: bt_crypto_new_def ecb_aes_setup_def cmac_aes_setup_def urandom_setup_def Let_def
          split: if_splits)
    have "release_n n ((bt_crypto_ref ^^ n) (Some c)) = (Some c, [])"
      unfolding ref_n by (subst release_held) (simp_all add: c)
    then show ?thesis using Pair Some c by (simp add: release_Suc del: release_n.simps)
  qed
qed

end
