(* ===== verification/Bt_Uuid.thy ===== *)
theory Bt_Uuid
  imports Blue_Prelude
begin

text \<open>
  Bluetooth UUIDs (\<open>lib/uuid.c\<close>): the three sizes, their expansion to 128 bits over the base
  UUID, comparison, and the conversions to and from text. A C string is the list of its characters
  before the terminating zero. The conversions of \<open>sscanf\<close> and \<open>strtol\<close> the file uses
  are modelled with their white space, sign and \<open>0x\<close> rules, as in the GNU library; what
  \<open>snprintf\<close> stores is a prefix of the formatted text.
\<close>

section \<open>Types\<close>

text \<open>\<open>uint128_t\<close> is an array of 16 bytes, the most significant first.\<close>

datatype uint128_t = Uint128 (u128_data: "u8 list")

datatype bt_uuid = UNSPEC | UUID16 u16 | UUID32 u32 | UUID128 uint128_t

text \<open>The errno the file uses.\<close>


text \<open>Only the sign of \<open>memcmp\<close> is specified; both areas have one length where it is called.\<close>

fun memcmp :: "u8 list \<Rightarrow> u8 list \<Rightarrow> int" where
  "memcmp [] [] = 0"
| "memcmp [] (b # bs) = -1"
| "memcmp (a # as) [] = 1"
| "memcmp (a # as) (b # bs) = (if a < b then -1 else if b < a then 1 else memcmp as bs)"

lemma memcmp_0_iff [simp]: "memcmp as bs = 0 \<longleftrightarrow> as = bs"
  by (induction as bs rule: memcmp.induct) auto

lemma memcmp_sym: "memcmp bs as = - memcmp as bs"
  by (induction as bs rule: memcmp.induct) auto

lemma memcmp_trans: "memcmp as bs \<le> 0 \<Longrightarrow> memcmp bs cs \<le> 0 \<Longrightarrow> memcmp as cs \<le> 0"
proof (induction as bs arbitrary: cs rule: memcmp.induct)
  case (1 cs) then show ?case by (cases cs) auto
next
  case (2 b bs cs) then show ?case by (cases cs) auto
next
  case (4 a as b bs cs) then show ?case by (cases cs) (auto split: if_splits)
qed auto

text \<open>\<open>uint128_t\<close> values are ordered as \<open>memcmp\<close> orders them.\<close>

instantiation uint128_t :: linorder
begin

definition less_eq_uint128_t :: "uint128_t \<Rightarrow> uint128_t \<Rightarrow> bool" where
  "less_eq_uint128_t a b \<longleftrightarrow> memcmp (u128_data a) (u128_data b) \<le> 0"

definition less_uint128_t :: "uint128_t \<Rightarrow> uint128_t \<Rightarrow> bool" where
  "less_uint128_t a b \<longleftrightarrow> memcmp (u128_data a) (u128_data b) < 0"

instance
proof (standard, goal_cases)
  case (1 x y)
  then show ?case
    using memcmp_sym [of "u128_data y" "u128_data x"] by (auto simp: less_eq_uint128_t_def less_uint128_t_def)
next
  case (2 x)
  show ?case unfolding less_eq_uint128_t_def by (metis memcmp_0_iff order_refl)
next
  case (3 x y z)
  then show ?case unfolding less_eq_uint128_t_def by (rule memcmp_trans)
next
  case (4 x y)
  then have "memcmp (u128_data x) (u128_data y) = 0"
    using memcmp_sym [of "u128_data y" "u128_data x"] by (simp add: less_eq_uint128_t_def)
  then show ?case by (simp add: uint128_t.expand)
next
  case (5 x y)
  then show ?case
    using memcmp_sym [of "u128_data y" "u128_data x"] by (auto simp: less_eq_uint128_t_def)
qed

end

section \<open>Expansion and comparison\<close>

definition bluetooth_base_uuid :: uint128_t where
  "bluetooth_base_uuid = Uint128 [0x00, 0x00, 0x00, 0x00, 0x00, 0x00, 0x10, 0x00,
                                  0x80, 0x00, 0x00, 0x80, 0x5F, 0x9B, 0x34, 0xFB]"

text \<open>A \<open>memcpy\<close> into the array.\<close>

definition u128_put :: "uint128_t \<Rightarrow> nat \<Rightarrow> u8 list \<Rightarrow> uint128_t" where
  "u128_put u off s = Uint128 (take off (u128_data u) @ s @ drop (off + length s) (u128_data u))"

definition bt_uuid16_to_uuid128 :: "u16 \<Rightarrow> bt_uuid" where
  "bt_uuid16_to_uuid128 u = UUID128 (u128_put bluetooth_base_uuid 2 (be16_bytes u))"

definition bt_uuid32_to_uuid128 :: "u32 \<Rightarrow> bt_uuid" where
  "bt_uuid32_to_uuid128 u = UUID128 (u128_put bluetooth_base_uuid 0 (be32_bytes u))"

text \<open>The second argument is what \<open>dst\<close> holds before, \<^const>\<open>None\<close> when it was never set.\<close>

fun bt_uuid_to_uuid128 :: "bt_uuid \<Rightarrow> bt_uuid option \<Rightarrow> bt_uuid option" where
  "bt_uuid_to_uuid128 (UUID128 u) dst = Some (UUID128 u)"
| "bt_uuid_to_uuid128 (UUID32 u) dst = Some (bt_uuid32_to_uuid128 u)"
| "bt_uuid_to_uuid128 (UUID16 u) dst = Some (bt_uuid16_to_uuid128 u)"
| "bt_uuid_to_uuid128 UNSPEC dst = dst"

text \<open>\<^const>\<open>None\<close> is a read of the value of a variable that was never set.\<close>

fun bt_uuid128_cmp :: "bt_uuid option \<Rightarrow> bt_uuid option \<Rightarrow> int option" where
  "bt_uuid128_cmp (Some (UUID128 a)) (Some (UUID128 b)) = Some (memcmp (u128_data a) (u128_data b))"
| "bt_uuid128_cmp _ _ = None"

definition bt_uuid16_create :: "u16 \<Rightarrow> bt_uuid" where
  "bt_uuid16_create v = UUID16 v"

definition bt_uuid32_create :: "u32 \<Rightarrow> bt_uuid" where
  "bt_uuid32_create v = UUID32 v"

definition bt_uuid128_create :: "uint128_t \<Rightarrow> bt_uuid" where
  "bt_uuid128_create v = UUID128 v"

definition bt_uuid_cmp :: "bt_uuid \<Rightarrow> bt_uuid \<Rightarrow> int option" where
  "bt_uuid_cmp uuid1 uuid2 =
     bt_uuid128_cmp (bt_uuid_to_uuid128 uuid1 None) (bt_uuid_to_uuid128 uuid2 None)"

fun bt_uuid_len :: "bt_uuid \<Rightarrow> nat" where
  "bt_uuid_len UNSPEC = 0 div 8"
| "bt_uuid_len (UUID16 _) = 16 div 8"
| "bt_uuid_len (UUID32 _) = 32 div 8"
| "bt_uuid_len (UUID128 _) = 128 div 8"

section \<open>Text\<close>

definition hex_digit :: "nat \<Rightarrow> char" where
  "hex_digit n = ''0123456789abcdef'' ! n"

text \<open>The conversions \<open>%.4x\<close> and \<open>%.8x\<close> of a value that has no more digits.\<close>

fun hex_fixed :: "nat \<Rightarrow> nat \<Rightarrow> string" where
  "hex_fixed 0 n = []"
| "hex_fixed (Suc k) n = hex_fixed k (n div 16) @ [hex_digit (n mod 16)]"

text \<open>What \<open>snprintf\<close> stores in a buffer of \<open>n\<close> characters, \<^const>\<open>None\<close> for nothing.\<close>

definition snprintf :: "nat \<Rightarrow> string \<Rightarrow> string option" where
  "snprintf n s = (if n = 0 then None else Some (take (n - 1) s))"

text \<open>The text of the 16 bytes: the fields are read in network order.\<close>

definition uuid128_text :: "u8 list \<Rightarrow> string" where
  "uuid128_text d =
     (let data0 = be32_val (d ! 0) (d ! 1) (d ! 2) (d ! 3); data1 = be16_val (d ! 4) (d ! 5);
          data2 = be16_val (d ! 6) (d ! 7); data3 = be16_val (d ! 8) (d ! 9);
          data4 = be32_val (d ! 10) (d ! 11) (d ! 12) (d ! 13); data5 = be16_val (d ! 14) (d ! 15)
      in hex_fixed 8 (unat data0) @ ''-'' @ hex_fixed 4 (unat data1) @ ''-'' @
         hex_fixed 4 (unat data2) @ ''-'' @ hex_fixed 4 (unat data3) @ ''-'' @
         hex_fixed 8 (unat data4) @ hex_fixed 4 (unat data5))"

fun bt_uuid_to_string :: "bt_uuid option \<Rightarrow> nat \<Rightarrow> int \<times> string option" where
  "bt_uuid_to_string uuid n =
     (case uuid of
        None \<Rightarrow> (- EINVAL, snprintf n ''NULL'')
      | Some UNSPEC \<Rightarrow> (- EINVAL, snprintf n ''NULL'')
      | Some u \<Rightarrow>
          (case bt_uuid_to_uuid128 u None of
             Some (UUID128 t) \<Rightarrow> (0, snprintf n (uuid128_text (u128_data t)))
           | _ \<Rightarrow> (- EINVAL, None)))"

section \<open>Reading text\<close>

definition c_isspace :: "char \<Rightarrow> bool" where
  "c_isspace c \<longleftrightarrow> (let n = of_char c :: nat in n = 32 \<or> (9 \<le> n \<and> n \<le> 13))"

definition hex_val :: "char \<Rightarrow> nat option" where
  "hex_val c = (let n = of_char c :: nat in
     if 48 \<le> n \<and> n \<le> 57 then Some (n - 48)
     else if 97 \<le> n \<and> n \<le> 102 then Some (n - 87)
     else if 65 \<le> n \<and> n \<le> 70 then Some (n - 55) else None)"

definition c_isxdigit :: "char \<Rightarrow> bool" where
  "c_isxdigit c \<longleftrightarrow> hex_val c \<noteq> None"

definition hex_num :: "string \<Rightarrow> nat" where
  "hex_num s = foldl (\<lambda>a c. a * 16 + the (hex_val c)) 0 s"

text \<open>White space and a sign; the result says whether the sign is a minus and whether there is one.\<close>

definition scan_sign :: "string \<Rightarrow> bool \<times> bool \<times> string" where
  "scan_sign s = (case dropWhile c_isspace s of
     c # t \<Rightarrow> if c = CHR ''-'' then (True, True, t) else if c = CHR ''+'' then (False, True, t)
             else (False, False, c # t)
   | [] \<Rightarrow> (False, False, []))"

text \<open>The conversion \<open>%x\<close> with a field width: the value and the rest of the input.\<close>

definition scan_hex :: "nat \<Rightarrow> string \<Rightarrow> (int \<times> string) option" where
  "scan_hex width s =
     (let (neg, sign, s) = scan_sign s;
          w = (if sign then width - 1 else width);
          (zero, w, s) =
            (case s of
               c # t \<Rightarrow> if 0 < w \<and> c = CHR ''0'' then
                  (case t of
                     x # u \<Rightarrow> if 1 < w \<and> (x = CHR ''x'' \<or> x = CHR ''X'') then (True, w - 2, u)
                             else (True, w - 1, t)
                   | [] \<Rightarrow> (True, w - 1, t))
                else (False, w, s)
             | [] \<Rightarrow> (False, w, s));
          ds = takeWhile c_isxdigit (take w s)
      in if \<not> zero \<and> ds = [] then None
         else Some (if neg then - int (hex_num ds) else int (hex_num ds), drop (length ds) s))"

fun scan_lit :: "string \<Rightarrow> string \<Rightarrow> string option" where
  "scan_lit [] s = Some s"
| "scan_lit (c # cs) (x # xs) = (if x = c then scan_lit cs xs else None)"
| "scan_lit (c # cs) [] = None"

text \<open>The conversion \<open>%1[...]\<close>.\<close>

fun scan_set1 :: "string \<Rightarrow> string \<Rightarrow> string option" where
  "scan_set1 cs (x # xs) = (if x \<in> set cs then Some xs else None)"
| "scan_set1 cs [] = None"

text \<open>\<open>strtol\<close> to base 16: the value and the input from \<open>endptr\<close> on.\<close>

definition strtol16 :: "string \<Rightarrow> int \<times> string" where
  "strtol16 s =
     (let (neg, sign, t) = scan_sign s;
          t = (case t of
                 z # x # d # u \<Rightarrow>
                   if z = CHR ''0'' \<and> (x = CHR ''x'' \<or> x = CHR ''X'') \<and> c_isxdigit d then d # u else t
               | _ \<Rightarrow> t);
          ds = takeWhile c_isxdigit t
      in if ds = [] then (0, s)
         else (if neg then max (- int (hex_num ds)) (- (2 ^ 63)) else min (int (hex_num ds)) (2 ^ 63 - 1),
               drop (length ds) t))"

definition is_uuid128 :: "string \<Rightarrow> bool" where
  "is_uuid128 s \<longleftrightarrow> length s = 36 \<and> s ! 8 = CHR ''-'' \<and> s ! 13 = CHR ''-'' \<and>
     s ! 18 = CHR ''-'' \<and> s ! 23 = CHR ''-''"

text \<open>All five conversions succeed.\<close>

definition is_base_uuid128 :: "string \<Rightarrow> bool" where
  "is_base_uuid128 s \<longleftrightarrow>
     (if \<not> is_uuid128 s then False
      else (do {
        s \<leftarrow> scan_lit ''0000'' s;
        (uuid, s) \<leftarrow> scan_hex 4 s;
        s \<leftarrow> scan_lit ''-0000-1000-8000-00805'' s;
        s \<leftarrow> scan_set1 ''fF'' s;
        s \<leftarrow> scan_lit ''9'' s;
        s \<leftarrow> scan_set1 ''bB'' s;
        s \<leftarrow> scan_lit ''34'' s;
        s \<leftarrow> scan_set1 ''fF'' s;
        scan_set1 ''bB'' s }) \<noteq> None)"

definition is_uuid32 :: "string \<Rightarrow> bool" where
  "is_uuid32 s \<longleftrightarrow> length s = 8 \<or> length s = 10"

definition is_uuid16 :: "string \<Rightarrow> bool" where
  "is_uuid16 s \<longleftrightarrow> length s = 4 \<or> length s = 6"

text \<open>The conversions give the UUID, or \<^const>\<open>None\<close> for \<open>-EINVAL\<close>.\<close>

definition bt_string_to_uuid16 :: "string \<Rightarrow> bt_uuid option" where
  "bt_string_to_uuid16 s =
     (let (v, endptr) = strtol16 s; u16 = (word_of_int v :: u16)
      in if endptr = [] \<or> hd endptr = CHR ''-'' then Some (bt_uuid16_create u16) else None)"

definition bt_string_to_uuid32 :: "string \<Rightarrow> bt_uuid option" where
  "bt_string_to_uuid32 s =
     (let (v, endptr) = strtol16 s; u32 = (word_of_int v :: u32)
      in if endptr = [] then Some (bt_uuid32_create u32) else None)"

definition bt_string_to_uuid128 :: "string \<Rightarrow> bt_uuid option" where
  "bt_string_to_uuid128 s = do {
     (data0, s) \<leftarrow> scan_hex 8 s;
     s \<leftarrow> scan_lit ''-'' s;
     (data1, s) \<leftarrow> scan_hex 4 s;
     s \<leftarrow> scan_lit ''-'' s;
     (data2, s) \<leftarrow> scan_hex 4 s;
     s \<leftarrow> scan_lit ''-'' s;
     (data3, s) \<leftarrow> scan_hex 4 s;
     s \<leftarrow> scan_lit ''-'' s;
     (data4, s) \<leftarrow> scan_hex 8 s;
     (data5, s) \<leftarrow> scan_hex 4 s;
     Some (bt_uuid128_create (Uint128
       (be32_bytes (word_of_int data0) @ be16_bytes (word_of_int data1) @
        be16_bytes (word_of_int data2) @ be16_bytes (word_of_int data3) @
        be32_bytes (word_of_int data4) @ be16_bytes (word_of_int data5)))) }"

definition bt_string_to_uuid :: "string \<Rightarrow> bt_uuid option" where
  "bt_string_to_uuid s =
     (if is_base_uuid128 s then bt_string_to_uuid16 (drop 4 s)
      else if is_uuid128 s then bt_string_to_uuid128 s
      else if is_uuid32 s then bt_string_to_uuid32 s
      else if is_uuid16 s then bt_string_to_uuid16 s
      else None)"

text \<open>The outer \<^const>\<open>None\<close> is the read of a value that was never set.\<close>

definition bt_uuid_strcmp :: "string \<Rightarrow> string \<Rightarrow> int option" where
  "bt_uuid_strcmp a b =
     (case bt_string_to_uuid a of
        None \<Rightarrow> Some (- EINVAL)
      | Some u1 \<Rightarrow>
          (case bt_string_to_uuid b of None \<Rightarrow> Some (- EINVAL) | Some u2 \<Rightarrow> bt_uuid_cmp u1 u2))"

definition bswap_128 :: "uint128_t \<Rightarrow> u8 list" where
  "bswap_128 u = map (\<lambda>i. u128_data u ! (15 - i)) [0..<16]"

text \<open>The return value and the bytes stored at \<open>dst\<close>.\<close>

fun bt_uuid_to_le :: "bt_uuid \<Rightarrow> int \<times> u8 list" where
  "bt_uuid_to_le (UUID16 u) = (0, le16_bytes u)"
| "bt_uuid_to_le (UUID32 u) = (case bt_uuid32_to_uuid128 u of UUID128 t \<Rightarrow> (0, bswap_128 t) | _ \<Rightarrow> (- EINVAL, []))"
| "bt_uuid_to_le (UUID128 t) = (0, bswap_128 t)"
| "bt_uuid_to_le UNSPEC = (- EINVAL, [])"

section \<open>Hexadecimal text\<close>

text \<open>The two digits of a byte.\<close>

definition hexb :: "u8 \<Rightarrow> string" where
  "hexb b = [hex_digit (unat b div 16), hex_digit (unat b mod 16)]"

lemma less_16_cases: "n < 16 \<Longrightarrow> n \<in> set [0..<16]"
  by simp

lemma hex_val_digit [simp]: "n < 16 \<Longrightarrow> hex_val (hex_digit n) = Some n"
proof -
  assume "n < 16"
  moreover have "\<forall>n\<in>set [0..<16]. hex_val (hex_digit n) = Some n"
    by (simp add: upt_rec hex_digit_def hex_val_def)
  ultimately show ?thesis by (metis less_16_cases)
qed

lemma hex_digit_facts:
  assumes "c_isxdigit c"
  shows "\<not> c_isspace c" and "c \<noteq> CHR ''-''" and "c \<noteq> CHR ''+''" and "c \<noteq> CHR ''x''" and "c \<noteq> CHR ''X''"
  using assms by (auto simp: c_isxdigit_def hex_val_def c_isspace_def Let_def split: if_splits)

lemma hex_digit_eq: "n < 16 \<Longrightarrow> m < 16 \<Longrightarrow> hex_digit n = hex_digit m \<longleftrightarrow> n = m"
  by (metis hex_val_digit option.inject)

lemma c_isxdigit_digit [simp]: "n < 16 \<Longrightarrow> c_isxdigit (hex_digit n)"
  by (simp add: c_isxdigit_def)

lemma hexb_length [simp]: "length (hexb b) = 2"
  by (simp add: hexb_def)

lemma hexb_digits [simp]: "list_all c_isxdigit (hexb b)"
  using unat_u8_bound [of b] by (simp add: hexb_def less_mult_imp_div_less)

lemma hex_fixed_Suc_Suc:
  "hex_fixed (Suc (Suc k)) n = hex_fixed k (n div 256) @ [hex_digit (n div 16 mod 16), hex_digit (n mod 16)]"
  by (simp add: div_mult2_eq [symmetric])

lemma hex_fixed_byte: "hex_fixed (Suc (Suc k)) (256 * m + unat b) = hex_fixed k m @ hexb b"
proof -
  have b: "unat b < 256" by (rule unat_u8_bound)
  have "(256 * m + unat b) div 256 = m" using b by simp
  moreover have "(256 * m + unat b) div 16 = 16 * m + unat b div 16" by simp
  moreover have "(16 * m + unat b div 16) mod 16 = unat b div 16" using b by simp
  moreover have "(256 * m + unat b) mod 16 = unat b mod 16"
    using mod_mult_self3 [of "16 * m" 16 "unat b"] by simp
  ultimately show ?thesis by (simp only: hex_fixed_Suc_Suc hexb_def)
qed

lemma hex_fixed_be16: "hex_fixed 4 (unat (be16_val a b)) = hexb a @ hexb b"
proof -
  have "hex_fixed (Suc (Suc 0)) (unat a) = hexb a"
    using hex_fixed_byte [of 0 0 a] by simp
  moreover have "(4 :: nat) = Suc (Suc (Suc (Suc 0)))" by simp
  ultimately show ?thesis by (simp only: unat_be16_val hex_fixed_byte)
qed

lemma hex_fixed_be32: "hex_fixed 8 (unat (be32_val a b c d)) = hexb a @ hexb b @ hexb c @ hexb d"
proof -
  have "(8 :: nat) = Suc (Suc (Suc (Suc 4)))" by simp
  moreover have "unat (be32_val a b c d) = 256 * (256 * unat (be16_val a b) + unat c) + unat d"
    by (simp add: unat_be32_val unat_be16_val)
  ultimately show ?thesis by (simp only: hex_fixed_byte hex_fixed_be16 append_assoc)
qed

lemma uuid128_text_bytes:
  "uuid128_text [b0, b1, b2, b3, b4, b5, b6, b7, b8, b9, b10, b11, b12, b13, b14, b15] =
     hexb b0 @ hexb b1 @ hexb b2 @ hexb b3 @ ''-'' @ hexb b4 @ hexb b5 @ ''-'' @ hexb b6 @ hexb b7 @
     ''-'' @ hexb b8 @ hexb b9 @ ''-'' @ hexb b10 @ hexb b11 @ hexb b12 @ hexb b13 @ hexb b14 @ hexb b15"
  by (simp add: uuid128_text_def hex_fixed_be16 hex_fixed_be32 Let_def)

text \<open>Reading digits back.\<close>

lemma hex_num_append: "hex_num (xs @ ys) = hex_num xs * 16 ^ length ys + hex_num ys"
proof (induction ys rule: rev_induct)
  case (snoc y ys)
  then show ?case by (simp add: hex_num_def algebra_simps)
qed (simp add: hex_num_def)

lemma hex_num_hexb [simp]: "hex_num (hexb b) = unat b"
  using unat_u8_bound [of b] by (simp add: hex_num_def hexb_def less_mult_imp_div_less)

lemma hex_num_be16: "hex_num (hexb a @ hexb b) = unat (be16_val a b)"
  by (simp add: hex_num_append unat_be16_val)

lemma hex_num_be32: "hex_num (hexb a @ hexb b @ hexb c @ hexb d) = unat (be32_val a b c d)"
  by (simp add: hex_num_append unat_be16_val unat_be32_val)

lemma scan_sign_digit: "c_isxdigit c \<Longrightarrow> scan_sign (c # s) = (False, False, c # s)"
  by (simp add: scan_sign_def hex_digit_facts)

lemma takeWhile_digits:
  "list_all c_isxdigit ds \<Longrightarrow> takeWhile c_isxdigit (ds @ s) = ds @ takeWhile c_isxdigit s"
  by (simp add: list_all_iff)

lemma hex_num_zero: "hex_num (CHR ''0'' # ds) = hex_num ds"
  by (simp add: hex_num_def hex_val_def)

text \<open>A field of exactly the width is read whole.\<close>

lemma scan_hex_digits:
  assumes "list_all c_isxdigit ds" and "length ds = w" and "0 < w"
  shows "scan_hex w (ds @ s) = Some (int (hex_num ds), s)"
proof -
  obtain c t where ds: "ds = c # t" using assms(2,3) by (cases ds) auto
  have c: "c_isxdigit c" and t: "list_all c_isxdigit t" using assms(1) ds by auto
  have sign: "scan_sign (ds @ s) = (False, False, c # t @ s)" using scan_sign_digit [OF c] ds by simp
  show ?thesis
  proof (cases "c = CHR ''0''")
    case False
    have "takeWhile c_isxdigit (take w (c # t @ s)) = ds"
      using assms(1,2) ds takeWhile_digits [of ds "[]"] by auto
    then show ?thesis using False sign ds by (simp add: scan_hex_def)
  next
    case True
    have tw: "takeWhile c_isxdigit (take (w - 1) (t @ s)) = t"
      using assms(2) ds t takeWhile_digits [of t "[]"] by auto
    have x: "\<not> (1 < w \<and> (x = CHR ''x'' \<or> x = CHR ''X''))" if "t @ s = x # u" for x u
      using that t assms(2) ds hex_digit_facts(4,5) by (cases t) auto
    show ?thesis
    proof (cases "t @ s")
      case Nil
      then show ?thesis using True sign assms(2) ds by (simp add: scan_hex_def hex_num_zero hex_num_def hex_val_def)
    next
      case (Cons x u)
      have "scan_hex w (ds @ s) = Some (int (hex_num t), s)"
        using True sign assms(3) tw x [OF Cons] Cons
        unfolding scan_hex_def by (simp add: Let_def) (metis append_eq_conv_conj)
      then show ?thesis using True ds hex_num_zero by simp
    qed
  qed
qed

lemma scan_hex_be16: "scan_hex 4 (hexb a @ hexb b @ s) = Some (int (unat (be16_val a b)), s)"
  using scan_hex_digits [of "hexb a @ hexb b" 4 s] by (simp add: hex_num_be16)

lemma scan_hex_be32:
  "scan_hex 8 (hexb a @ hexb b @ hexb c @ hexb d @ s) = Some (int (unat (be32_val a b c d)), s)"
  using scan_hex_digits [of "hexb a @ hexb b @ hexb c @ hexb d" 8 s] by (simp add: hex_num_be32)

lemma scan_lit_append: "scan_lit l (l @ s) = Some s"
  by (induction l) auto

text \<open>A UUID in the code's sense: 128 bit values have 16 bytes.\<close>

fun uuid_wf :: "bt_uuid \<Rightarrow> bool" where
  "uuid_wf (UUID128 u) \<longleftrightarrow> length (u128_data u) = 16"
| "uuid_wf _ \<longleftrightarrow> True"

lemma list_16E:
  assumes "length xs = 16"
  obtains b0 b1 b2 b3 b4 b5 b6 b7 b8 b9 b10 b11 b12 b13 b14 b15
  where "xs = [b0, b1, b2, b3, b4, b5, b6, b7, b8, b9, b10, b11, b12, b13, b14, b15]"
proof -
  have "length xs = Suc (Suc (Suc (Suc (Suc (Suc (Suc (Suc (Suc (Suc (Suc (Suc (Suc (Suc (Suc (Suc 0)))))))))))))))"
    using assms by simp
  then show ?thesis using that by (auto simp: length_Suc_conv)
qed

lemma uuid128_text_is_uuid128:
  assumes "length d = 16"
  shows "is_uuid128 (uuid128_text d)"
  using assms
  by (elim list_16E) (simp add: uuid128_text_bytes is_uuid128_def hexb_def)

lemma string_to_uuid128_text:
  assumes "length d = 16"
  shows "bt_string_to_uuid128 (uuid128_text d) = Some (UUID128 (Uint128 d))"
proof -
  have nil: "scan_hex 4 (hexb a @ hexb b) = Some (int (unat (be16_val a b)), [])" for a b
    using scan_hex_be16 [of a b "[]"] by simp
  show ?thesis using assms
    by (elim list_16E)
      (simp add: uuid128_text_bytes bt_string_to_uuid128_def scan_hex_be16 scan_hex_be32 nil
        bt_uuid128_create_def)
qed

lemma hexb_val:
  assumes "hex_digit (unat b div 16) = x" and "hex_digit (unat b mod 16) = y"
  shows "unat (b :: u8) = 16 * the (hex_val x) + the (hex_val y)"
proof -
  have "unat b div 16 < 16" "unat b mod 16 < 16"
    using unat_u8_bound [of b] by (auto simp: less_mult_imp_div_less)
  then have "hex_val x = Some (unat b div 16)" "hex_val y = Some (unat b mod 16)"
    using assms hex_val_digit by auto
  then show ?thesis by simp
qed

lemma scan_lit_Some: "scan_lit (c # cs) (x # xs) = Some r \<longleftrightarrow> x = c \<and> scan_lit cs xs = Some r"
  by simp

lemma scan_set1_Some: "scan_set1 cs (x # xs) = Some r \<longleftrightarrow> x \<in> set cs \<and> xs = r"
  by auto

lemma hexb_set_val:
  assumes "hex_digit (unat b div 16) \<in> {x, x'}" and "hex_digit (unat b mod 16) \<in> {y, y'}"
    and "hex_val x = hex_val x'" and "hex_val y = hex_val y'"
  shows "unat (b :: u8) = 16 * the (hex_val x) + the (hex_val y)"
  using assms hexb_val by (metis insertE singletonD)

lemma if_False_Some: "(if \<not> p then False else c \<noteq> None) \<longleftrightarrow> p \<and> (\<exists>y. c = Some y)"
  by auto

text \<open>
  The text of a 128 bit value passes the test for the base UUID only if the value is the expansion of
  16 bits.
\<close>

lemma is_base_uuid128_text:
  assumes "length d = 16" and "is_base_uuid128 (uuid128_text d)"
  shows "\<exists>u. UUID128 (Uint128 d) = bt_uuid16_to_uuid128 u \<and>
     (\<exists>r. drop 4 (uuid128_text d) = hexb (d ! 2) @ hexb (d ! 3) @ ''-'' @ r) \<and> u = be16_val (d ! 2) (d ! 3)"
  using assms(1)
proof (rule list_16E)
  fix b0 b1 b2 b3 b4 b5 b6 b7 b8 b9 b10 b11 b12 b13 b14 b15
  assume d: "d = [b0, b1, b2, b3, b4, b5, b6, b7, b8, b9, b10, b11, b12, b13, b14, b15]"
  let ?t = "''-'' @ hexb b4 @ hexb b5 @ ''-'' @ hexb b6 @ hexb b7 @ ''-'' @ hexb b8 @ hexb b9 @
     ''-'' @ hexb b10 @ hexb b11 @ hexb b12 @ hexb b13 @ hexb b14 @ hexb b15"
  have whole: "uuid128_text d = hexb b0 @ hexb b1 @ hexb b2 @ hexb b3 @ ?t"
    by (simp add: d uuid128_text_bytes)
  from assms(2) obtain s1 s2 s3 s4 s5 s6 where
    s1: "scan_lit ''0000'' (hexb b0 @ hexb b1 @ hexb b2 @ hexb b3 @ ?t) = Some s1"
    and s2: "scan_hex 4 s1 = Some s2"
    and s3: "scan_lit ''-0000-1000-8000-00805'' (snd s2) = Some s3"
    and s4: "scan_set1 ''fF'' s3 = Some s4"
    and s5: "(do { s \<leftarrow> scan_lit ''9'' s4; s \<leftarrow> scan_set1 ''bB'' s; s \<leftarrow> scan_lit ''34'' s; s \<leftarrow> scan_set1 ''fF'' s;
        scan_set1 ''bB'' s }) = Some s5"
    unfolding is_base_uuid128_def whole if_False_Some bind_eq_Some_conv by (auto simp: bind_eq_Some_conv)
  have z: "unat b0 = 0 \<and> unat b1 = 0 \<and> s1 = hexb b2 @ hexb b3 @ ?t"
    using s1 hexb_val [of b0 "CHR ''0''" "CHR ''0''"] hexb_val [of b1 "CHR ''0''" "CHR ''0''"]
    unfolding hexb_def [of b0] hexb_def [of b1] append_Cons append_Nil scan_lit_Some scan_lit.simps(1)
    by (simp add: hex_val_def)
  then have "snd s2 = ?t" using s2 scan_hex_be16 [of b2 b3 ?t] by auto
  with s3 have lit: "scan_lit ''-0000-1000-8000-00805'' ?t = Some s3" by simp
  note spell = hexb_def append_Cons append_Nil scan_lit_Some scan_lit.simps(1) option.inject
  have e: "hex_digit (unat b4 div 16) = CHR ''0''" "hex_digit (unat b4 mod 16) = CHR ''0''"
    "hex_digit (unat b5 div 16) = CHR ''0''" "hex_digit (unat b5 mod 16) = CHR ''0''"
    "hex_digit (unat b6 div 16) = CHR ''1''" "hex_digit (unat b6 mod 16) = CHR ''0''"
    "hex_digit (unat b7 div 16) = CHR ''0''" "hex_digit (unat b7 mod 16) = CHR ''0''"
    "hex_digit (unat b8 div 16) = CHR ''8''" "hex_digit (unat b8 mod 16) = CHR ''0''"
    "hex_digit (unat b9 div 16) = CHR ''0''" "hex_digit (unat b9 mod 16) = CHR ''0''"
    "hex_digit (unat b10 div 16) = CHR ''0''" "hex_digit (unat b10 mod 16) = CHR ''0''"
    "hex_digit (unat b11 div 16) = CHR ''8''" "hex_digit (unat b11 mod 16) = CHR ''0''"
    "hex_digit (unat b12 div 16) = CHR ''5''"
    "s3 = hex_digit (unat b12 mod 16) # hexb b13 @ hexb b14 @ hexb b15"
    using lit [unfolded spell] unfolding hexb_def append_Cons append_Nil by blast+
  have digits: "the (hex_val CHR ''0'') = 0" "the (hex_val CHR ''1'') = 1" "the (hex_val CHR ''8'') = 8"
    by (simp_all add: hex_val_def)
  have v: "unat b4 = 0" "unat b5 = 0" "unat b6 = 16" "unat b7 = 0" "unat b8 = 128" "unat b9 = 0"
      "unat b10 = 0" "unat b11 = 128"
    by (simp_all add: hexb_val [OF e(1,2)] hexb_val [OF e(3,4)] hexb_val [OF e(5,6)] hexb_val [OF e(7,8)]
        hexb_val [OF e(9,10)] hexb_val [OF e(11,12)] hexb_val [OF e(13,14)] hexb_val [OF e(15,16)] digits)
  from s4 have f: "hex_digit (unat b12 mod 16) \<in> set ''fF''" "s4 = hexb b13 @ hexb b14 @ hexb b15"
    unfolding e scan_set1_Some by simp_all
  from s5 have "hex_digit (unat b13 div 16) = CHR ''9'' \<and> hex_digit (unat b13 mod 16) \<in> set ''bB'' \<and>
      hex_digit (unat b14 div 16) = CHR ''3'' \<and> hex_digit (unat b14 mod 16) = CHR ''4'' \<and>
      hex_digit (unat b15 div 16) \<in> set ''fF'' \<and> hex_digit (unat b15 mod 16) \<in> set ''bB''"
    unfolding f hexb_def append_Cons append_Nil
    by (simp add: bind_eq_Some_conv scan_lit_Some scan_set1_Some split: if_splits)
  then have w: "unat b12 = 0x5F" "unat b13 = 0x9B" "unat b14 = 0x34" "unat b15 = 0xFB"
    using f(1) e(17) hexb_set_val [of b12 "CHR ''5''" "CHR ''5''" "CHR ''f''" "CHR ''F''"]
      hexb_set_val [of b13 "CHR ''9''" "CHR ''9''" "CHR ''b''" "CHR ''B''"]
      hexb_set_val [of b14 "CHR ''3''" "CHR ''3''" "CHR ''4''" "CHR ''4''"]
      hexb_set_val [of b15 "CHR ''f''" "CHR ''F''" "CHR ''b''" "CHR ''B''"]
    by (simp_all add: hex_val_def)
  have d': "d = [0, 0, b2, b3, 0, 0, 0x10, 0, 0x80, 0, 0, 0x80, 0x5F, 0x9B, 0x34, 0xFB]"
    unfolding d using z v [THEN unat_eq_imp] w [THEN unat_eq_imp] by (simp add: unat_0_iff)
  have "UUID128 (Uint128 d) = bt_uuid16_to_uuid128 (be16_val b2 b3)"
    by (simp add: d' bt_uuid16_to_uuid128_def u128_put_def bluetooth_base_uuid_def)
  moreover have "drop 4 (uuid128_text d) = hexb b2 @ hexb b3 @ ?t"
    unfolding whole by simp
  ultimately show ?thesis unfolding d by simp
qed

text \<open>What \<open>strtol\<close> makes of digits, with or without the prefix.\<close>

lemma hex_val_bound: "hex_val c = Some n \<Longrightarrow> n < 16"
  by (auto simp: hex_val_def Let_def split: if_splits)

lemma hex_num_bound: "list_all c_isxdigit ds \<Longrightarrow> hex_num ds < 16 ^ length ds"
proof (induction ds rule: rev_induct)
  case (snoc c ds)
  then obtain n where "hex_val c = Some n" by (auto simp: c_isxdigit_def)
  moreover from this have "n < 16" by (rule hex_val_bound)
  ultimately have "hex_num (ds @ [c]) = hex_num ds * 16 + n" "n < 16"
    by (simp_all add: hex_num_append hex_num_def)
  moreover have "hex_num ds < 16 ^ length ds" using snoc by simp
  ultimately show ?case by simp
qed (simp add: hex_num_def)

lemma hex_num_long: "list_all c_isxdigit ds \<Longrightarrow> length ds \<le> 15 \<Longrightarrow> int (hex_num ds) \<le> 2 ^ 63 - 1"
proof -
  assume "list_all c_isxdigit ds" "length ds \<le> 15"
  then have "hex_num ds < 16 ^ length ds" "(16 :: nat) ^ length ds \<le> 16 ^ 15"
    by (simp_all only: hex_num_bound) (rule power_increasing, simp_all)
  then have "hex_num ds < 16 ^ 15" by linarith
  then show ?thesis by simp
qed

lemma strtol16_digits:
  assumes "list_all c_isxdigit ds" and "ds \<noteq> []" and "length ds \<le> 15"
    and "r = [] \<or> \<not> c_isxdigit (hd r) \<and> hd r \<noteq> CHR ''x'' \<and> hd r \<noteq> CHR ''X''"
  shows "strtol16 (ds @ r) = (int (hex_num ds), r)"
proof -
  obtain c t where ds: "ds = c # t" using assms(2) by (cases ds) auto
  then have c: "c_isxdigit c" and t: "list_all c_isxdigit t" using assms(1) by auto
  have sign: "scan_sign (ds @ r) = (False, False, ds @ r)" using scan_sign_digit [OF c] ds by simp
  have x: "x \<noteq> CHR ''x'' \<and> x \<noteq> CHR ''X''" if "t @ r = x # u" for x u
    using that t assms(4) hex_digit_facts(4,5) by (cases t) auto
  have tw: "takeWhile c_isxdigit (ds @ r) = ds"
    using takeWhile_digits [OF assms(1), of r] assms(4) by (cases r) auto
  have keep: "(case ds @ r of z # x # d # u \<Rightarrow>
       if z = CHR ''0'' \<and> (x = CHR ''x'' \<or> x = CHR ''X'') \<and> c_isxdigit d then d # u else ds @ r
     | _ \<Rightarrow> ds @ r) = ds @ r"
    using x ds by (auto split: list.splits)
  show ?thesis
    unfolding strtol16_def sign Let_def prod.case keep tw
    using assms(2) hex_num_long [OF assms(1,3)] by simp
qed

lemma strtol16_prefixed:
  assumes "list_all c_isxdigit ds" and "ds \<noteq> []" and "length ds \<le> 15"
  shows "strtol16 (''0x'' @ ds) = (int (hex_num ds), [])"
proof -
  obtain c t where ds: "ds = c # t" using assms(2) by (cases ds) auto
  then have c: "c_isxdigit c" using assms(1) by auto
  have "c_isxdigit CHR ''0''" by (simp add: c_isxdigit_def hex_val_def)
  then have sign: "scan_sign (''0x'' @ ds) = (False, False, ''0x'' @ ds)" by (simp add: scan_sign_digit)
  have "takeWhile c_isxdigit ds = ds" using takeWhile_digits [OF assms(1), of "[]"] by simp
  then have tw: "takeWhile c_isxdigit (c # t) = c # t" unfolding ds .
  show ?thesis
    unfolding strtol16_def sign Let_def prod.case
    using c ds hex_num_long [OF assms(1,3)] by (simp add: tw del: takeWhile.simps)
qed

section \<open>Properties\<close>

definition MAX_LEN_UUID_STR :: nat where
  "MAX_LEN_UUID_STR = 37"

lemma to_uuid128_wf:
  assumes "uuid_wf u" and "u \<noteq> UNSPEC"
  shows "\<exists>d. bt_uuid_to_uuid128 u None = Some (UUID128 (Uint128 d)) \<and> length d = 16"
proof (cases u)
  case (UUID128 t)
  then show ?thesis using assms by (cases t) auto
qed (use assms in \<open>auto simp: bt_uuid16_to_uuid128_def bt_uuid32_to_uuid128_def u128_put_def
  bluetooth_base_uuid_def\<close>)

lemma text_expansion:
  assumes "length d = 16"
  shows "\<exists>v. bt_string_to_uuid (uuid128_text d) = Some v \<and>
     bt_uuid_to_uuid128 v None = Some (UUID128 (Uint128 d))"
proof (cases "is_base_uuid128 (uuid128_text d)")
  case True
  from is_base_uuid128_text [OF assms this] obtain r where
    u: "UUID128 (Uint128 d) = bt_uuid16_to_uuid128 (be16_val (d ! 2) (d ! 3))"
    and r: "drop 4 (uuid128_text d) = (hexb (d ! 2) @ hexb (d ! 3)) @ ''-'' @ r" by auto
  have "strtol16 (drop 4 (uuid128_text d)) = (int (unat (be16_val (d ! 2) (d ! 3))), ''-'' @ r)"
    unfolding r hex_num_be16 [symmetric]
    by (rule strtol16_digits) (simp, simp add: hexb_def, simp, simp add: c_isxdigit_def hex_val_def)
  then have "bt_string_to_uuid16 (drop 4 (uuid128_text d)) = Some (UUID16 (be16_val (d ! 2) (d ! 3)))"
    by (simp add: bt_string_to_uuid16_def bt_uuid16_create_def)
  then show ?thesis using True u by (simp add: bt_string_to_uuid_def)
next
  case False
  then show ?thesis using uuid128_text_is_uuid128 [OF assms] string_to_uuid128_text [OF assms]
    by (simp add: bt_string_to_uuid_def)
qed

text \<open>
  C5: The text of a UUID of any size reads back as a UUID that \<open>bt_uuid_cmp\<close> finds equal
  (a short form where the value is on the base UUID), and it has 36 characters.
\<close>

theorem uuid_string_roundtrip:
  assumes "uuid_wf u" and "u \<noteq> UNSPEC"
  shows "\<exists>s v. bt_uuid_to_string (Some u) MAX_LEN_UUID_STR = (0, Some s) \<and> length s = 36 \<and>
     bt_string_to_uuid s = Some v \<and> bt_uuid_cmp u v = Some 0"
proof -
  obtain d where d: "bt_uuid_to_uuid128 u None = Some (UUID128 (Uint128 d))" "length d = 16"
    using to_uuid128_wf [OF assms] by blast
  have "length (uuid128_text d) = 36" using uuid128_text_is_uuid128 [OF d(2)] by (simp add: is_uuid128_def)
  moreover from this have "bt_uuid_to_string (Some u) MAX_LEN_UUID_STR = (0, Some (uuid128_text d))"
    using assms(2) d(1) by (cases u) (simp_all add: snprintf_def MAX_LEN_UUID_STR_def)
  moreover obtain v where "bt_string_to_uuid (uuid128_text d) = Some v"
    "bt_uuid_to_uuid128 v None = Some (UUID128 (Uint128 d))" using text_expansion [OF d(2)] by blast
  ultimately show ?thesis using d(1) by (auto simp: bt_uuid_cmp_def simp del: bt_uuid_to_string.simps)
qed

theorem uuid_string_roundtrip_witness:
  "\<exists>s v. bt_uuid_to_string (Some (UUID16 0x180A)) MAX_LEN_UUID_STR = (0, Some s) \<and> length s = 36 \<and>
     bt_string_to_uuid s = Some v \<and> bt_uuid_cmp (UUID16 0x180A) v = Some 0"
  by (rule uuid_string_roundtrip) simp_all

text \<open>
  Comparing the texts of two UUIDs with \<open>bt_uuid_strcmp\<close> is comparing the UUIDs.
\<close>

theorem uuid_strcmp_texts:
  assumes "uuid_wf u" and "uuid_wf v"
    and "bt_uuid_to_string (Some u) MAX_LEN_UUID_STR = (0, Some s)"
    and "bt_uuid_to_string (Some v) MAX_LEN_UUID_STR = (0, Some t)"
  shows "bt_uuid_strcmp s t = bt_uuid_cmp u v"
proof -
  have expand: "\<exists>w. bt_string_to_uuid r = Some w \<and> bt_uuid_to_uuid128 w None = bt_uuid_to_uuid128 x None"
    if "uuid_wf x" and "bt_uuid_to_string (Some x) MAX_LEN_UUID_STR = (0, Some r)" for x r
  proof -
    have "x \<noteq> UNSPEC" using that(2) by (auto simp: EINVAL_def)
    with that(1) obtain d where d: "bt_uuid_to_uuid128 x None = Some (UUID128 (Uint128 d))" "length d = 16"
      using to_uuid128_wf by blast
    have "length (uuid128_text d) = 36" using uuid128_text_is_uuid128 [OF d(2)] by (simp add: is_uuid128_def)
    then have "r = uuid128_text d" using that(2) d(1) \<open>x \<noteq> UNSPEC\<close>
      by (cases x) (simp_all add: snprintf_def MAX_LEN_UUID_STR_def)
    with text_expansion [OF d(2)] d(1) show ?thesis by simp
  qed
  obtain w x where "bt_string_to_uuid s = Some w" "bt_uuid_to_uuid128 w None = bt_uuid_to_uuid128 u None"
    "bt_string_to_uuid t = Some x" "bt_uuid_to_uuid128 x None = bt_uuid_to_uuid128 v None"
    using expand [OF assms(1,3)] expand [OF assms(2,4)] by blast
  then show ?thesis by (simp add: bt_uuid_strcmp_def bt_uuid_cmp_def)
qed

theorem uuid_strcmp_texts_witness:
  "\<exists>s t. bt_uuid_to_string (Some (UUID16 1)) MAX_LEN_UUID_STR = (0, Some s) \<and>
     bt_uuid_to_string (Some (UUID32 2)) MAX_LEN_UUID_STR = (0, Some t) \<and>
     bt_uuid_strcmp s t = bt_uuid_cmp (UUID16 1) (UUID32 2)"
proof -
  have "\<exists>s. bt_uuid_to_string (Some u) MAX_LEN_UUID_STR = (0, Some s)" if "u = UUID16 1 \<or> u = UUID32 2" for u
    using that by (auto simp: snprintf_def MAX_LEN_UUID_STR_def bt_uuid16_to_uuid128_def bt_uuid32_to_uuid128_def)
  then obtain s t where "bt_uuid_to_string (Some (UUID16 1)) MAX_LEN_UUID_STR = (0, Some s)"
    "bt_uuid_to_string (Some (UUID32 2)) MAX_LEN_UUID_STR = (0, Some t)" by blast
  with uuid_strcmp_texts [OF _ _ this] show ?thesis by auto
qed

text \<open>
  \<open>bt_uuid_cmp\<close> is the order of the 128 bit expansions: it is zero, negative or positive as
  they are equal, smaller or greater. A comparison with an unspecified UUID reads a variable that was
  never set.
\<close>

theorem uuid_cmp_order:
  "bt_uuid_to_uuid128 u None = Some (UUID128 a) \<Longrightarrow> bt_uuid_to_uuid128 v None = Some (UUID128 b) \<Longrightarrow>
   \<exists>c. bt_uuid_cmp u v = Some c \<and> (c = 0 \<longleftrightarrow> a = b) \<and> (c < 0 \<longleftrightarrow> a < b) \<and> (0 < c \<longleftrightarrow> b < a) \<and>
     bt_uuid_cmp u UNSPEC = None \<and> bt_uuid_cmp UNSPEC v = None"
  by (auto simp: bt_uuid_cmp_def less_uint128_t_def memcmp_sym [of "u128_data b" "u128_data a"]
      uint128_t.expand)

theorem uuid_cmp_order_witness:
  "\<exists>c. bt_uuid_cmp (UUID16 1) (UUID16 2) = Some c \<and> c < 0"
  using uuid_cmp_order [of "UUID16 1" "u128_put bluetooth_base_uuid 2 (be16_bytes 1)" "UUID16 2"
      "u128_put bluetooth_base_uuid 2 (be16_bytes 2)"]
  by (auto simp: bt_uuid16_to_uuid128_def less_uint128_t_def u128_put_def bluetooth_base_uuid_def be16_bytes_def)

text \<open>
  Two 16 bit UUIDs are equal only if their values are, and so are two 32 bit ones; a 16 bit UUID
  equals the 32 bit one of the same value and no other.
\<close>

theorem uuid_cmp_sizes:
  "(bt_uuid_cmp (UUID16 x) (UUID16 y) = Some 0 \<longleftrightarrow> x = y) \<and>
   (bt_uuid_cmp (UUID32 p) (UUID32 q) = Some 0 \<longleftrightarrow> p = q) \<and>
   (bt_uuid_cmp (UUID16 x) (UUID32 q) = Some 0 \<longleftrightarrow> q = ucast x)"
proof -
  have 16: "be16_bytes x = be16_bytes y \<longleftrightarrow> x = y" for x y
    by (metis be16_bytes_def be16_val_bytes list.inject)
  have 32: "be32_bytes x = be32_bytes y \<longleftrightarrow> x = y" for x y
  proof
    assume "be32_bytes x = be32_bytes y"
    then have "be32_val (be32_bytes x ! 0) (be32_bytes x ! 1) (be32_bytes x ! 2) (be32_bytes x ! 3) =
        be32_val (be32_bytes y ! 0) (be32_bytes y ! 1) (be32_bytes y ! 2) (be32_bytes y ! 3)" by simp
    then show "x = y" by (simp add: be32_bytes_def)
  qed simp
  have up: "0 # 0 # be16_bytes x = be32_bytes (ucast x)" for x
  proof -
    have "be32_bytes (be32_val 0 0 (ucast (drop_bit 8 x)) (ucast x)) = 0 # 0 # be16_bytes x"
      by (simp add: be16_bytes_def)
    moreover have "be32_val 0 0 (ucast (drop_bit 8 x)) (ucast x) = ucast x"
      by (simp add: be32_val_be16) (simp add: be16_val_def)
    ultimately show ?thesis by simp
  qed
  define E where "E b = u128_put bluetooth_base_uuid 0 b" for b
  have inj: "E a = E b \<longleftrightarrow> a = b" if "length a = 4" "length b = 4" for a b
    using that by (simp add: u128_put_def E_def)
  have e16: "bt_uuid_to_uuid128 (UUID16 x) None = Some (UUID128 (E (be32_bytes (ucast x))))" for x
    by (simp add: bt_uuid16_to_uuid128_def E_def u128_put_def bluetooth_base_uuid_def up [symmetric])
  have e32: "bt_uuid_to_uuid128 (UUID32 q) None = Some (UUID128 (E (be32_bytes q)))" for q
    by (simp add: bt_uuid32_to_uuid128_def E_def)
  have cmp: "bt_uuid_cmp u v = Some 0 \<longleftrightarrow> a = b"
    if "bt_uuid_to_uuid128 u None = Some (UUID128 a)" "bt_uuid_to_uuid128 v None = Some (UUID128 b)" for u v a b
    using that by (auto simp: bt_uuid_cmp_def uint128_t.expand)
  have "bt_uuid_cmp (UUID16 x) (UUID16 y) = Some 0 \<longleftrightarrow> x = y"
    unfolding cmp [OF e16 e16] by (simp add: inj up [symmetric] 16)
  moreover have "bt_uuid_cmp (UUID32 p) (UUID32 q) = Some 0 \<longleftrightarrow> p = q"
    unfolding cmp [OF e32 e32] by (simp add: inj 32)
  moreover have "bt_uuid_cmp (UUID16 x) (UUID32 q) = Some 0 \<longleftrightarrow> q = ucast x"
    unfolding cmp [OF e16 e32] by (auto simp add: inj 32)
  ultimately show ?thesis by blast
qed

text \<open>
  Strings of four or eight hexadecimal digits, with or without \<open>0x\<close>, read as the 16 or 32
  bit UUID of that value.
\<close>

theorem string_to_uuid_short:
  assumes "list_all c_isxdigit ds" and "p = [] \<or> p = ''0x''"
  shows "(length ds = 4 \<longrightarrow> bt_string_to_uuid (p @ ds) = Some (UUID16 (of_nat (hex_num ds)))) \<and>
     (length ds = 8 \<longrightarrow> bt_string_to_uuid (p @ ds) = Some (UUID32 (of_nat (hex_num ds))))"
proof -
  have v: "strtol16 (p @ ds) = (int (hex_num ds), [])" if "ds \<noteq> []" "length ds \<le> 15"
    using assms(2) strtol16_prefixed [OF assms(1) that] strtol16_digits [OF assms(1) that, of "[]"] by auto
  have len: "length p = 0 \<or> length p = 2" using assms(2) by auto
  have no: "\<not> is_uuid128 (p @ ds) \<and> \<not> is_base_uuid128 (p @ ds)" if "length ds \<le> 8"
    using that len by (auto simp: is_base_uuid128_def is_uuid128_def)
  have "bt_string_to_uuid (p @ ds) = Some (UUID16 (of_nat (hex_num ds)))" if "length ds = 4"
  proof -
    have "\<not> is_uuid32 (p @ ds)" "is_uuid16 (p @ ds)" using len that by (auto simp: is_uuid32_def is_uuid16_def)
    moreover have "ds \<noteq> []" using that by auto
    ultimately show ?thesis
      using no v that by (simp add: bt_string_to_uuid_def bt_string_to_uuid16_def bt_uuid16_create_def)
  qed
  moreover have "bt_string_to_uuid (p @ ds) = Some (UUID32 (of_nat (hex_num ds)))" if "length ds = 8"
  proof -
    have "is_uuid32 (p @ ds)" using len that by (auto simp: is_uuid32_def)
    moreover have "ds \<noteq> []" using that by auto
    ultimately show ?thesis
      using no v that by (simp add: bt_string_to_uuid_def bt_string_to_uuid32_def bt_uuid32_create_def)
  qed
  ultimately show ?thesis by blast
qed

theorem string_to_uuid_short_witness:
  "bt_string_to_uuid ''0x180f'' = Some (UUID16 0x180F)"
  using string_to_uuid_short [of "''180f''" "''0x''"]
  by (simp add: c_isxdigit_def hex_val_def hex_num_def)

text \<open>
  Anything of length four or six whose conversion stops at a dash is accepted as a 16 bit UUID, also
  when not a single digit was read.
\<close>

lemma string_to_uuid_dash: "bt_string_to_uuid ''-zzz'' = Some (UUID16 0)"
  by (simp add: bt_string_to_uuid_def is_base_uuid128_def is_uuid128_def is_uuid32_def is_uuid16_def
      bt_string_to_uuid16_def bt_uuid16_create_def strtol16_def scan_sign_def c_isspace_def
      c_isxdigit_def hex_val_def)

end
