(* ===== verification/Att_Base.thy ===== *)
theory Att_Base
  imports Bt_Uuid
begin

text \<open>
  What the ATT codecs of \<open>attrib/att.c\<close> share: the opcodes and error texts, the attribute data
  list, the reads and writes of a PDU buffer, the stored form of a UUID. A PDU is an optional byte
  buffer, \<^const>\<open>None\<close> for \<open>NULL\<close>, with the length the caller says it has; an encoder
  answers the length it returns and the buffer afterwards. The outer \<^const>\<open>None\<close> of every
  function is an access outside a buffer.
\<close>

section \<open>Opcodes\<close>

abbreviation ATT_OP_ERROR :: u8 where "ATT_OP_ERROR \<equiv> 0x01"
abbreviation ATT_OP_MTU_REQ :: u8 where "ATT_OP_MTU_REQ \<equiv> 0x02"
abbreviation ATT_OP_MTU_RESP :: u8 where "ATT_OP_MTU_RESP \<equiv> 0x03"
abbreviation ATT_OP_FIND_INFO_REQ :: u8 where "ATT_OP_FIND_INFO_REQ \<equiv> 0x04"
abbreviation ATT_OP_FIND_INFO_RESP :: u8 where "ATT_OP_FIND_INFO_RESP \<equiv> 0x05"
abbreviation ATT_OP_FIND_BY_TYPE_REQ :: u8 where "ATT_OP_FIND_BY_TYPE_REQ \<equiv> 0x06"
abbreviation ATT_OP_FIND_BY_TYPE_RESP :: u8 where "ATT_OP_FIND_BY_TYPE_RESP \<equiv> 0x07"
abbreviation ATT_OP_READ_BY_TYPE_REQ :: u8 where "ATT_OP_READ_BY_TYPE_REQ \<equiv> 0x08"
abbreviation ATT_OP_READ_BY_TYPE_RESP :: u8 where "ATT_OP_READ_BY_TYPE_RESP \<equiv> 0x09"
abbreviation ATT_OP_READ_REQ :: u8 where "ATT_OP_READ_REQ \<equiv> 0x0A"
abbreviation ATT_OP_READ_RESP :: u8 where "ATT_OP_READ_RESP \<equiv> 0x0B"
abbreviation ATT_OP_READ_BLOB_REQ :: u8 where "ATT_OP_READ_BLOB_REQ \<equiv> 0x0C"
abbreviation ATT_OP_READ_BLOB_RESP :: u8 where "ATT_OP_READ_BLOB_RESP \<equiv> 0x0D"
abbreviation ATT_OP_READ_BY_GROUP_REQ :: u8 where "ATT_OP_READ_BY_GROUP_REQ \<equiv> 0x10"
abbreviation ATT_OP_READ_BY_GROUP_RESP :: u8 where "ATT_OP_READ_BY_GROUP_RESP \<equiv> 0x11"
abbreviation ATT_OP_WRITE_REQ :: u8 where "ATT_OP_WRITE_REQ \<equiv> 0x12"
abbreviation ATT_OP_WRITE_RESP :: u8 where "ATT_OP_WRITE_RESP \<equiv> 0x13"
abbreviation ATT_OP_PREP_WRITE_REQ :: u8 where "ATT_OP_PREP_WRITE_REQ \<equiv> 0x16"
abbreviation ATT_OP_PREP_WRITE_RESP :: u8 where "ATT_OP_PREP_WRITE_RESP \<equiv> 0x17"
abbreviation ATT_OP_EXEC_WRITE_REQ :: u8 where "ATT_OP_EXEC_WRITE_REQ \<equiv> 0x18"
abbreviation ATT_OP_EXEC_WRITE_RESP :: u8 where "ATT_OP_EXEC_WRITE_RESP \<equiv> 0x19"
abbreviation ATT_OP_HANDLE_NOTIFY :: u8 where "ATT_OP_HANDLE_NOTIFY \<equiv> 0x1B"
abbreviation ATT_OP_HANDLE_IND :: u8 where "ATT_OP_HANDLE_IND \<equiv> 0x1D"
abbreviation ATT_OP_HANDLE_CNF :: u8 where "ATT_OP_HANDLE_CNF \<equiv> 0x1E"
abbreviation ATT_OP_WRITE_CMD :: u8 where "ATT_OP_WRITE_CMD \<equiv> 0x52"
abbreviation ATT_OP_SIGNED_WRITE_CMD :: u8 where "ATT_OP_SIGNED_WRITE_CMD \<equiv> 0xD2"

abbreviation ATT_SIGNATURE_LEN :: nat where "ATT_SIGNATURE_LEN \<equiv> 12"


text \<open>The texts of the error codes.\<close>

definition att_ecode2str :: "u8 \<Rightarrow> string" where
  "att_ecode2str status =
     (if status = 0x01 then ''Invalid handle''
      else if status = 0x02 then ''Attribute can'' @ [CHR 0x27] @ ''t be read''
      else if status = 0x03 then ''Attribute can'' @ [CHR 0x27] @ ''t be written''
      else if status = 0x04 then ''Attribute PDU was invalid''
      else if status = 0x05 then ''Attribute requires authentication before read/write''
      else if status = 0x06 then ''Server doesn'' @ [CHR 0x27] @ ''t support the request received''
      else if status = 0x07 then ''Offset past the end of the attribute''
      else if status = 0x08 then ''Attribute requires authorization before read/write''
      else if status = 0x09 then ''Too many prepare writes have been queued''
      else if status = 0x0A then ''No attribute found within the given range''
      else if status = 0x0B then ''Attribute can'' @ [CHR 0x27] @ ''t be read/written using Read Blob Req''
      else if status = 0x0C then ''Encryption Key Size is insufficient''
      else if status = 0x0D then ''Attribute value length is invalid''
      else if status = 0x0E then ''Request attribute has encountered an unlikely error''
      else if status = 0x0F then ''Encryption required before read/write''
      else if status = 0x10 then ''Attribute type is not a supported grouping attribute''
      else if status = 0x11 then ''Insufficient Resources to complete the request''
      else if status = 0x80 then ''Internal application error: I/O''
      else if status = 0x81 then ''A timeout occured''
      else if status = 0x82 then ''The operation was aborted''
      else ''Unexpected error code'')"

section \<open>PDU buffers\<close>

definition put_u8 :: "u8 \<Rightarrow> nat \<Rightarrow> u8 list \<Rightarrow> u8 list option" where
  "put_u8 v off pdu = buf_write pdu off [v]"

definition put_le16 :: "u16 \<Rightarrow> nat \<Rightarrow> u8 list \<Rightarrow> u8 list option" where
  "put_le16 v off pdu = buf_write pdu off (le16_bytes v)"

definition get_le16 :: "u8 list \<Rightarrow> nat \<Rightarrow> u16 option" where
  "get_le16 pdu off = do { a \<leftarrow> buf_get pdu off; b \<leftarrow> buf_get pdu (off + 1); Some (le16_val a b) }"

text \<open>A \<open>memcpy\<close> of \<open>n\<close> bytes of \<open>src\<close> from \<open>so\<close> on to \<open>dst\<close>.\<close>

definition copy_to :: "u8 list \<Rightarrow> nat \<Rightarrow> nat \<Rightarrow> u8 list \<Rightarrow> nat \<Rightarrow> u8 list option" where
  "copy_to src so n dst doff = do { d \<leftarrow> buf_read src so n; buf_write dst doff d }"

lemma put_u8_Cons [buf_simps]: "put_u8 v 0 (x # b) = Some (v # b)"
  by (simp add: put_u8_def buf_write_0)

lemma buf_get_append_0: "buf_get (x # b) 0 = Some x"
  by (simp add: buf_get_def)

lemma get_le16_at [buf_simps]:
  "off = length p \<Longrightarrow> get_le16 (p @ le16_bytes v @ r) off = Some v"
  by (simp add: get_le16_def buf_get_def le16_bytes_def nth_append)

lemma put_le16_at:
  "off = length p \<Longrightarrow> 2 \<le> length r \<Longrightarrow> put_le16 v off (p @ r) = Some (p @ le16_bytes v @ drop 2 r)"
  by (simp add: put_le16_def buf_write_append)

lemma copy_to_at:
  "doff = length p \<Longrightarrow> so + n \<le> length src \<Longrightarrow> n \<le> length r \<Longrightarrow>
   copy_to src so n (p @ r) doff = Some (p @ take n (drop so src) @ drop n r)"
  by (simp add: copy_to_def buf_read_def buf_write_append)

section \<open>Stored UUIDs\<close>

text \<open>
  The function is called with 16 and 128 bit UUIDs only; with another one it would read a member of
  the union that was not stored.
\<close>

fun put_uuid_le :: "bt_uuid \<Rightarrow> nat \<Rightarrow> u8 list \<Rightarrow> u8 list option" where
  "put_uuid_le (UUID16 v) off pdu = put_le16 v off pdu"
| "put_uuid_le (UUID128 u) off pdu = buf_write pdu off (bswap_128 u)"
| "put_uuid_le _ off pdu = None"

definition get_uuid :: "bool \<Rightarrow> u8 list \<Rightarrow> nat \<Rightarrow> bt_uuid option" where
  "get_uuid type16 pdu off =
     (if type16 then do { v \<leftarrow> get_le16 pdu off; Some (bt_uuid16_create v) }
      else do { d \<leftarrow> buf_read pdu off 16; Some (bt_uuid128_create (Uint128 (bswap_128 (Uint128 d)))) })"

lemma bswap_128_rev: "length (u128_data u) = 16 \<Longrightarrow> bswap_128 u = rev (u128_data u)"
  by (rule nth_equalityI) (simp_all add: bswap_128_def rev_nth)

lemma bswap_128_length [simp]: "length (bswap_128 u) = 16"
  by (simp add: bswap_128_def)

lemma bswap_128_twice: "length (u128_data u) = 16 \<Longrightarrow> Uint128 (bswap_128 (Uint128 (bswap_128 u))) = u"
  using bswap_128_rev [of u] bswap_128_rev [of "Uint128 (bswap_128 u)"] by (cases u) simp

text \<open>The stored bytes.\<close>

fun uuid_le :: "bt_uuid \<Rightarrow> u8 list" where
  "uuid_le (UUID16 v) = le16_bytes v"
| "uuid_le (UUID128 u) = bswap_128 u"
| "uuid_le _ = []"

definition is16 :: "bt_uuid \<Rightarrow> bool" where
  "is16 u \<longleftrightarrow> (\<exists>v. u = UUID16 v)"

definition att_uuid :: "bt_uuid \<Rightarrow> bool" where
  "att_uuid u \<longleftrightarrow> uuid_wf u \<and> (\<forall>v. u \<noteq> UUID32 v) \<and> u \<noteq> UNSPEC"

lemma put_uuid_le_at:
  "att_uuid u \<Longrightarrow> off = length p \<Longrightarrow> length (uuid_le u) \<le> length r \<Longrightarrow>
   put_uuid_le u off (p @ r) = Some (p @ uuid_le u @ drop (length (uuid_le u)) r)"
  by (cases u) (auto simp: att_uuid_def put_le16_at buf_write_append)

lemma get_uuid_at:
  assumes "att_uuid u" and "off = length p"
  shows "get_uuid (is16 u) (p @ uuid_le u @ r) off = Some u"
proof (cases u)
  case (UUID128 t)
  then show ?thesis
    using assms bswap_128_twice [of t]
    by (simp add: get_uuid_def is16_def buf_read_def bt_uuid128_create_def att_uuid_def)
qed (use assms in \<open>auto simp: get_uuid_def is16_def get_le16_at bt_uuid16_create_def att_uuid_def\<close>)

lemma uuid_le_length: "att_uuid u \<Longrightarrow> length (uuid_le u) = (if is16 u then 2 else 16)"
  by (cases u) (auto simp: att_uuid_def is16_def)

section \<open>Attribute data lists\<close>

record att_data_list =
  adl_num :: u16
  adl_len :: u16
  adl_data :: "u8 list list"

record att_range =
  range_start :: u16
  range_end :: u16

text \<open>\<open>att_data_list_free\<close> releases every element and the list; the model has garbage collection.\<close>

definition att_data_list_alloc :: "u16 \<Rightarrow> u16 \<Rightarrow> att_data_list option" where
  "att_data_list_alloc num len =
     (if 255 < len then None
      else Some \<lparr>adl_num = num, adl_len = len,
                 adl_data = replicate (unat num) (replicate (unat len) 0)\<rparr>)"

definition adl_wf :: "att_data_list \<Rightarrow> bool" where
  "adl_wf l \<longleftrightarrow> length (adl_data l) = unat (adl_num l) \<and>
     (\<forall>d\<in>set (adl_data l). length d = unat (adl_len l))"

lemma alloc_wf: "att_data_list_alloc n l = Some x \<Longrightarrow> adl_wf x"
  by (auto simp: att_data_list_alloc_def adl_wf_def split: if_splits)

end
