(* ===== verification/Att_Value.thy ===== *)
theory Att_Value
  imports Att_Base Shared_Crypto
begin

text \<open>
  The ATT PDUs of \<open>attrib/att.c\<close> that carry a handle and a value, and the small requests and
  responses of fixed size. Output parameters are options, \<^const>\<open>None\<close> for \<open>NULL\<close>; a
  decoder answers the returned length and the parameters afterwards. An encoder that does not test
  \<open>pdu\<close> is given the buffer itself.
\<close>

section \<open>Writes\<close>

fun enc_write_cmd ::
  "u16 \<Rightarrow> u8 list \<Rightarrow> nat \<Rightarrow> u8 list option \<Rightarrow> nat \<Rightarrow> (u16 \<times> u8 list option) option" where
  "enc_write_cmd handle value vlen None len = Some (0, None)"
| "enc_write_cmd handle value vlen (Some pdu) len =
     (let min_len = 3; vlen = (if size_sub len min_len < vlen then size_sub len min_len else vlen)
      in do {
        pdu \<leftarrow> put_u8 ATT_OP_WRITE_CMD 0 pdu;
        pdu \<leftarrow> put_le16 handle 1 pdu;
        if 0 < vlen then do {
          pdu \<leftarrow> copy_to value 0 vlen pdu 3;
          Some (of_nat (size_add min_len vlen), Some pdu) }
        else Some (of_nat min_len, Some pdu) })"

fun dec_write_cmd ::
  "u8 list option \<Rightarrow> nat \<Rightarrow> u16 option \<Rightarrow> u8 list option \<Rightarrow> nat option \<Rightarrow>
   (u16 \<times> u16 option \<times> u8 list option \<times> nat option) option" where
  "dec_write_cmd (Some pdu) len (Some handle) (Some value) (Some vlen) =
     (if len < 3 then Some (0, Some handle, Some value, Some vlen)
      else do {
        opcode \<leftarrow> buf_get pdu 0;
        if opcode \<noteq> ATT_OP_WRITE_CMD then Some (0, Some handle, Some value, Some vlen)
        else do {
          handle \<leftarrow> get_le16 pdu 1;
          value \<leftarrow> copy_to pdu 3 (len - 3) value 0;
          Some (of_nat len, Some handle, Some value, Some (len - 3)) } })"
| "dec_write_cmd pdu len handle value vlen = Some (0, handle, value, vlen)"

fun enc_write_req ::
  "u16 \<Rightarrow> u8 list \<Rightarrow> nat \<Rightarrow> u8 list option \<Rightarrow> nat \<Rightarrow> (u16 \<times> u8 list option) option" where
  "enc_write_req handle value vlen None len = Some (0, None)"
| "enc_write_req handle value vlen (Some pdu) len =
     (let min_len = 3; vlen = (if size_sub len min_len < vlen then size_sub len min_len else vlen)
      in do {
        pdu \<leftarrow> put_u8 ATT_OP_WRITE_REQ 0 pdu;
        pdu \<leftarrow> put_le16 handle 1 pdu;
        if 0 < vlen then do {
          pdu \<leftarrow> copy_to value 0 vlen pdu 3;
          Some (of_nat (size_add min_len vlen), Some pdu) }
        else Some (of_nat min_len, Some pdu) })"

fun dec_write_req ::
  "u8 list option \<Rightarrow> nat \<Rightarrow> u16 option \<Rightarrow> u8 list option \<Rightarrow> nat option \<Rightarrow>
   (u16 \<times> u16 option \<times> u8 list option \<times> nat option) option" where
  "dec_write_req (Some pdu) len (Some handle) (Some value) (Some vlen) =
     (if len < 3 then Some (0, Some handle, Some value, Some vlen)
      else do {
        opcode \<leftarrow> buf_get pdu 0;
        if opcode \<noteq> ATT_OP_WRITE_REQ then Some (0, Some handle, Some value, Some vlen)
        else do {
          handle \<leftarrow> get_le16 pdu 1;
          let vlen = len - 3;
          value \<leftarrow> (if 0 < vlen then copy_to pdu 3 vlen value 0 else Some value);
          Some (of_nat len, Some handle, Some value, Some vlen) } })"
| "dec_write_req pdu len handle value vlen = Some (0, handle, value, vlen)"

text \<open>The signature is the one of \<open>bt_crypto_sign_att\<close>; its length argument has 16 bits.\<close>

fun enc_signed_write_cmd ::
  "u16 \<Rightarrow> u8 list \<Rightarrow> nat \<Rightarrow> kernel option \<Rightarrow> u8 list \<Rightarrow> u32 \<Rightarrow> u8 list option \<Rightarrow> nat \<Rightarrow>
   (u16 \<times> u8 list option) option" where
  "enc_signed_write_cmd handle value vlen crypto csrk sign_cnt None len = Some (0, None)"
| "enc_signed_write_cmd handle value vlen crypto csrk sign_cnt (Some pdu) len =
     (let hdr_len = 3; min_len = hdr_len + ATT_SIGNATURE_LEN;
          vlen = (if size_sub len min_len < vlen then size_sub len min_len else vlen)
      in do {
        pdu \<leftarrow> put_u8 ATT_OP_SIGNED_WRITE_CMD 0 pdu;
        pdu \<leftarrow> put_le16 handle 1 pdu;
        pdu \<leftarrow> (if 0 < vlen then copy_to value 0 vlen pdu hdr_len else Some pdu);
        sig \<leftarrow> bt_crypto_sign_att crypto csrk pdu (of_nat (size_add hdr_len vlen)) sign_cnt;
        case sig of
          None \<Rightarrow> Some (0, Some pdu)
        | Some s \<Rightarrow> do {
            pdu \<leftarrow> buf_write pdu (size_add hdr_len vlen) s;
            Some (of_nat (size_add min_len vlen), Some pdu) } })"

text \<open>The destination of the signature is not tested.\<close>

fun dec_signed_write_cmd ::
  "u8 list option \<Rightarrow> nat \<Rightarrow> u16 option \<Rightarrow> u8 list option \<Rightarrow> nat option \<Rightarrow> u8 list \<Rightarrow>
   (u16 \<times> u16 option \<times> u8 list option \<times> nat option \<times> u8 list) option" where
  "dec_signed_write_cmd (Some pdu) len (Some handle) (Some value) (Some vlen) signature =
     (if len < 3 + ATT_SIGNATURE_LEN then Some (0, Some handle, Some value, Some vlen, signature)
      else do {
        opcode \<leftarrow> buf_get pdu 0;
        if opcode \<noteq> ATT_OP_SIGNED_WRITE_CMD then Some (0, Some handle, Some value, Some vlen, signature)
        else do {
          let vlen = len - (3 + ATT_SIGNATURE_LEN);
          handle \<leftarrow> get_le16 pdu 1;
          value \<leftarrow> copy_to pdu 3 vlen value 0;
          signature \<leftarrow> copy_to pdu (3 + vlen) ATT_SIGNATURE_LEN signature 0;
          Some (of_nat len, Some handle, Some value, Some vlen, signature) } })"
| "dec_signed_write_cmd pdu len handle value vlen signature = Some (0, handle, value, vlen, signature)"

fun enc_prep_write_req ::
  "u16 \<Rightarrow> u16 \<Rightarrow> u8 list \<Rightarrow> nat \<Rightarrow> u8 list option \<Rightarrow> nat \<Rightarrow> (u16 \<times> u8 list option) option" where
  "enc_prep_write_req handle offset value vlen None len = Some (0, None)"
| "enc_prep_write_req handle offset value vlen (Some pdu) len =
     (let min_len = 5; vlen = (if size_sub len min_len < vlen then size_sub len min_len else vlen)
      in do {
        pdu \<leftarrow> put_u8 ATT_OP_PREP_WRITE_REQ 0 pdu;
        pdu \<leftarrow> put_le16 handle 1 pdu;
        pdu \<leftarrow> put_le16 offset 3 pdu;
        if 0 < vlen then do {
          pdu \<leftarrow> copy_to value 0 vlen pdu 5;
          Some (of_nat (size_add min_len vlen), Some pdu) }
        else Some (of_nat min_len, Some pdu) })"

fun dec_prep_write_req ::
  "u8 list option \<Rightarrow> nat \<Rightarrow> u16 option \<Rightarrow> u16 option \<Rightarrow> u8 list option \<Rightarrow> nat option \<Rightarrow>
   (u16 \<times> u16 option \<times> u16 option \<times> u8 list option \<times> nat option) option" where
  "dec_prep_write_req (Some pdu) len (Some handle) (Some offset) (Some value) (Some vlen) =
     (if len < 5 then Some (0, Some handle, Some offset, Some value, Some vlen)
      else do {
        opcode \<leftarrow> buf_get pdu 0;
        if opcode \<noteq> ATT_OP_PREP_WRITE_REQ then Some (0, Some handle, Some offset, Some value, Some vlen)
        else do {
          handle \<leftarrow> get_le16 pdu 1;
          offset \<leftarrow> get_le16 pdu 3;
          let vlen = len - 5;
          value \<leftarrow> (if 0 < vlen then copy_to pdu 5 vlen value 0 else Some value);
          Some (of_nat len, Some handle, Some offset, Some value, Some vlen) } })"
| "dec_prep_write_req pdu len handle offset value vlen = Some (0, handle, offset, value, vlen)"

fun enc_prep_write_resp ::
  "u16 \<Rightarrow> u16 \<Rightarrow> u8 list \<Rightarrow> nat \<Rightarrow> u8 list option \<Rightarrow> nat \<Rightarrow> (u16 \<times> u8 list option) option" where
  "enc_prep_write_resp handle offset value vlen None len = Some (0, None)"
| "enc_prep_write_resp handle offset value vlen (Some pdu) len =
     (let min_len = 5; vlen = (if size_sub len min_len < vlen then size_sub len min_len else vlen)
      in do {
        pdu \<leftarrow> put_u8 ATT_OP_PREP_WRITE_RESP 0 pdu;
        pdu \<leftarrow> put_le16 handle 1 pdu;
        pdu \<leftarrow> put_le16 offset 3 pdu;
        if 0 < vlen then do {
          pdu \<leftarrow> copy_to value 0 vlen pdu 5;
          Some (of_nat (size_add min_len vlen), Some pdu) }
        else Some (of_nat min_len, Some pdu) })"

text \<open>The opcode tested is the one of the request.\<close>

fun dec_prep_write_resp ::
  "u8 list option \<Rightarrow> nat \<Rightarrow> u16 option \<Rightarrow> u16 option \<Rightarrow> u8 list option \<Rightarrow> nat option \<Rightarrow>
   (u16 \<times> u16 option \<times> u16 option \<times> u8 list option \<times> nat option) option" where
  "dec_prep_write_resp (Some pdu) len (Some handle) (Some offset) (Some value) (Some vlen) =
     (if len < 5 then Some (0, Some handle, Some offset, Some value, Some vlen)
      else do {
        opcode \<leftarrow> buf_get pdu 0;
        if opcode \<noteq> ATT_OP_PREP_WRITE_REQ then Some (0, Some handle, Some offset, Some value, Some vlen)
        else do {
          handle \<leftarrow> get_le16 pdu 1;
          offset \<leftarrow> get_le16 pdu 3;
          let vlen = len - 5;
          value \<leftarrow> (if 0 < vlen then copy_to pdu 5 vlen value 0 else Some value);
          Some (of_nat len, Some handle, Some offset, Some value, Some vlen) } })"
| "dec_prep_write_resp pdu len handle offset value vlen = Some (0, handle, offset, value, vlen)"

fun enc_write_resp :: "u8 list option \<Rightarrow> (u16 \<times> u8 list option) option" where
  "enc_write_resp None = Some (0, None)"
| "enc_write_resp (Some pdu) = do { pdu \<leftarrow> put_u8 ATT_OP_WRITE_RESP 0 pdu; Some (1, Some pdu) }"

fun dec_write_resp :: "u8 list option \<Rightarrow> nat \<Rightarrow> u16 option" where
  "dec_write_resp None len = Some 0"
| "dec_write_resp (Some pdu) len = do {
     opcode \<leftarrow> buf_get pdu 0;
     Some (if opcode \<noteq> ATT_OP_WRITE_RESP then 0 else of_nat len) }"

section \<open>Reads\<close>

fun enc_read_req :: "u16 \<Rightarrow> u8 list option \<Rightarrow> nat \<Rightarrow> (u16 \<times> u8 list option) option" where
  "enc_read_req handle None len = Some (0, None)"
| "enc_read_req handle (Some pdu) len = do {
     pdu \<leftarrow> put_u8 ATT_OP_READ_REQ 0 pdu;
     pdu \<leftarrow> put_le16 handle 1 pdu;
     Some (3, Some pdu) }"

fun enc_read_blob_req :: "u16 \<Rightarrow> u16 \<Rightarrow> u8 list option \<Rightarrow> nat \<Rightarrow> (u16 \<times> u8 list option) option" where
  "enc_read_blob_req handle offset None len = Some (0, None)"
| "enc_read_blob_req handle offset (Some pdu) len = do {
     pdu \<leftarrow> put_u8 ATT_OP_READ_BLOB_REQ 0 pdu;
     pdu \<leftarrow> put_le16 handle 1 pdu;
     pdu \<leftarrow> put_le16 offset 3 pdu;
     Some (5, Some pdu) }"

fun dec_read_req :: "u8 list option \<Rightarrow> nat \<Rightarrow> u16 option \<Rightarrow> (u16 \<times> u16 option) option" where
  "dec_read_req (Some pdu) len (Some handle) =
     (if len < 3 then Some (0, Some handle)
      else do {
        opcode \<leftarrow> buf_get pdu 0;
        if opcode \<noteq> ATT_OP_READ_REQ then Some (0, Some handle)
        else do { handle \<leftarrow> get_le16 pdu 1; Some (3, Some handle) } })"
| "dec_read_req pdu len handle = Some (0, handle)"

fun dec_read_blob_req ::
  "u8 list option \<Rightarrow> nat \<Rightarrow> u16 option \<Rightarrow> u16 option \<Rightarrow> (u16 \<times> u16 option \<times> u16 option) option" where
  "dec_read_blob_req (Some pdu) len (Some handle) (Some offset) =
     (if len < 5 then Some (0, Some handle, Some offset)
      else do {
        opcode \<leftarrow> buf_get pdu 0;
        if opcode \<noteq> ATT_OP_READ_BLOB_REQ then Some (0, Some handle, Some offset)
        else do {
          handle \<leftarrow> get_le16 pdu 1;
          offset \<leftarrow> get_le16 pdu 3;
          Some (5, Some handle, Some offset) } })"
| "dec_read_blob_req pdu len handle offset = Some (0, handle, offset)"

fun enc_read_resp :: "u8 list \<Rightarrow> nat \<Rightarrow> u8 list option \<Rightarrow> nat \<Rightarrow> (u16 \<times> u8 list option) option" where
  "enc_read_resp value vlen None len = Some (0, None)"
| "enc_read_resp value vlen (Some pdu) len =
     (let vlen = (if size_sub len 1 < vlen then size_sub len 1 else vlen)
      in do {
        pdu \<leftarrow> put_u8 ATT_OP_READ_RESP 0 pdu;
        pdu \<leftarrow> copy_to value 0 vlen pdu 1;
        Some (of_nat (size_add vlen 1), Some pdu) })"

text \<open>The difference to the offset is not tested and wraps.\<close>

fun enc_read_blob_resp ::
  "u8 list \<Rightarrow> nat \<Rightarrow> u16 \<Rightarrow> u8 list option \<Rightarrow> nat \<Rightarrow> (u16 \<times> u8 list option) option" where
  "enc_read_blob_resp value vlen offset None len = Some (0, None)"
| "enc_read_blob_resp value vlen offset (Some pdu) len =
     (let vlen = size_sub vlen (unat offset);
          vlen = (if size_sub len 1 < vlen then size_sub len 1 else vlen)
      in do {
        pdu \<leftarrow> put_u8 ATT_OP_READ_BLOB_RESP 0 pdu;
        pdu \<leftarrow> copy_to value (unat offset) vlen pdu 1;
        Some (of_nat (size_add vlen 1), Some pdu) })"

text \<open>A \<open>size_t\<close> as the signed result.\<close>

definition ssize :: "nat \<Rightarrow> int" where
  "ssize n = (if n < 2 ^ 63 then int n else int n - 2 ^ 64)"

fun dec_read_resp ::
  "u8 list option \<Rightarrow> nat \<Rightarrow> u8 list option \<Rightarrow> nat \<Rightarrow> (int \<times> u8 list option) option" where
  "dec_read_resp None len value vlen = Some (- EINVAL, value)"
| "dec_read_resp (Some pdu) len value vlen = do {
     opcode \<leftarrow> buf_get pdu 0;
     if opcode \<noteq> ATT_OP_READ_RESP then Some (- EINVAL, value)
     else case value of
            None \<Rightarrow> Some (ssize (size_sub len 1), None)
          | Some v \<Rightarrow>
              if vlen < size_sub len 1 then Some (- ENOBUFS, Some v)
              else do {
                v \<leftarrow> copy_to pdu 1 (size_sub len 1) v 0;
                Some (ssize (size_sub len 1), Some v) } }"

section \<open>Errors, information requests, exchange of the MTU\<close>

definition enc_error_resp :: "u8 \<Rightarrow> u16 \<Rightarrow> u8 \<Rightarrow> u8 list \<Rightarrow> nat \<Rightarrow> (u16 \<times> u8 list) option" where
  "enc_error_resp opcode handle status pdu len = do {
     pdu \<leftarrow> put_u8 ATT_OP_ERROR 0 pdu;
     pdu \<leftarrow> put_u8 opcode 1 pdu;
     pdu \<leftarrow> put_le16 handle 2 pdu;
     pdu \<leftarrow> put_u8 status 4 pdu;
     Some (5, pdu) }"

fun enc_find_info_req :: "u16 \<Rightarrow> u16 \<Rightarrow> u8 list option \<Rightarrow> nat \<Rightarrow> (u16 \<times> u8 list option) option" where
  "enc_find_info_req start end None len = Some (0, None)"
| "enc_find_info_req start end (Some pdu) len = do {
     pdu \<leftarrow> put_u8 ATT_OP_FIND_INFO_REQ 0 pdu;
     pdu \<leftarrow> put_le16 start 1 pdu;
     pdu \<leftarrow> put_le16 end 3 pdu;
     Some (5, Some pdu) }"

fun dec_find_info_req ::
  "u8 list option \<Rightarrow> nat \<Rightarrow> u16 option \<Rightarrow> u16 option \<Rightarrow> (u16 \<times> u16 option \<times> u16 option) option" where
  "dec_find_info_req (Some pdu) len (Some start) (Some end) =
     (if len < 5 then Some (0, Some start, Some end)
      else do {
        opcode \<leftarrow> buf_get pdu 0;
        if opcode \<noteq> ATT_OP_FIND_INFO_REQ then Some (0, Some start, Some end)
        else do {
          start \<leftarrow> get_le16 pdu 1;
          end \<leftarrow> get_le16 pdu 3;
          Some (5, Some start, Some end) } })"
| "dec_find_info_req pdu len start end = Some (0, start, end)"

fun enc_mtu_req :: "u16 \<Rightarrow> u8 list option \<Rightarrow> nat \<Rightarrow> (u16 \<times> u8 list option) option" where
  "enc_mtu_req mtu None len = Some (0, None)"
| "enc_mtu_req mtu (Some pdu) len = do {
     pdu \<leftarrow> put_u8 ATT_OP_MTU_REQ 0 pdu;
     pdu \<leftarrow> put_le16 mtu 1 pdu;
     Some (3, Some pdu) }"

fun dec_mtu_req :: "u8 list option \<Rightarrow> nat \<Rightarrow> u16 option \<Rightarrow> (u16 \<times> u16 option) option" where
  "dec_mtu_req (Some pdu) len (Some mtu) =
     (if len < 3 then Some (0, Some mtu)
      else do {
        opcode \<leftarrow> buf_get pdu 0;
        if opcode \<noteq> ATT_OP_MTU_REQ then Some (0, Some mtu)
        else do { mtu \<leftarrow> get_le16 pdu 1; Some (3, Some mtu) } })"
| "dec_mtu_req pdu len mtu = Some (0, mtu)"

fun enc_mtu_resp :: "u16 \<Rightarrow> u8 list option \<Rightarrow> nat \<Rightarrow> (u16 \<times> u8 list option) option" where
  "enc_mtu_resp mtu None len = Some (0, None)"
| "enc_mtu_resp mtu (Some pdu) len = do {
     pdu \<leftarrow> put_u8 ATT_OP_MTU_RESP 0 pdu;
     pdu \<leftarrow> put_le16 mtu 1 pdu;
     Some (3, Some pdu) }"

fun dec_mtu_resp :: "u8 list option \<Rightarrow> nat \<Rightarrow> u16 option \<Rightarrow> (u16 \<times> u16 option) option" where
  "dec_mtu_resp (Some pdu) len (Some mtu) =
     (if len < 3 then Some (0, Some mtu)
      else do {
        opcode \<leftarrow> buf_get pdu 0;
        if opcode \<noteq> ATT_OP_MTU_RESP then Some (0, Some mtu)
        else do { mtu \<leftarrow> get_le16 pdu 1; Some (3, Some mtu) } })"
| "dec_mtu_resp pdu len mtu = Some (0, mtu)"

section \<open>Notifications, indications, execution of prepared writes\<close>

fun enc_notification ::
  "u16 \<Rightarrow> u8 list \<Rightarrow> nat \<Rightarrow> u8 list option \<Rightarrow> nat \<Rightarrow> (u16 \<times> u8 list option) option" where
  "enc_notification handle value vlen None len = Some (0, None)"
| "enc_notification handle value vlen (Some pdu) len =
     (if len < size_add vlen 3 then Some (0, Some pdu)
      else do {
        pdu \<leftarrow> put_u8 ATT_OP_HANDLE_NOTIFY 0 pdu;
        pdu \<leftarrow> put_le16 handle 1 pdu;
        pdu \<leftarrow> copy_to value 0 vlen pdu 3;
        Some (of_nat (size_add vlen 3), Some pdu) })"

fun enc_indication ::
  "u16 \<Rightarrow> u8 list \<Rightarrow> nat \<Rightarrow> u8 list option \<Rightarrow> nat \<Rightarrow> (u16 \<times> u8 list option) option" where
  "enc_indication handle value vlen None len = Some (0, None)"
| "enc_indication handle value vlen (Some pdu) len =
     (if len < size_add vlen 3 then Some (0, Some pdu)
      else do {
        pdu \<leftarrow> put_u8 ATT_OP_HANDLE_IND 0 pdu;
        pdu \<leftarrow> put_le16 handle 1 pdu;
        pdu \<leftarrow> copy_to value 0 vlen pdu 3;
        Some (of_nat (size_add vlen 3), Some pdu) })"

text \<open>The opcode is read before the length is tested; the handle may be \<open>NULL\<close>.\<close>

fun dec_indication ::
  "u8 list option \<Rightarrow> nat \<Rightarrow> u16 option \<Rightarrow> u8 list \<Rightarrow> nat \<Rightarrow> (u16 \<times> u16 option \<times> u8 list) option" where
  "dec_indication None len handle value vlen = Some (0, handle, value)"
| "dec_indication (Some pdu) len handle value vlen = do {
     opcode \<leftarrow> buf_get pdu 0;
     if opcode \<noteq> ATT_OP_HANDLE_IND then Some (0, handle, value)
     else if len < 3 then Some (0, handle, value)
     else do {
       let dlen = (of_nat (min (len - 3) vlen) :: u16);
       handle \<leftarrow> (case handle of None \<Rightarrow> Some None | Some _ \<Rightarrow> map_option Some (get_le16 pdu 1));
       value \<leftarrow> copy_to pdu 3 (unat dlen) value 0;
       Some (dlen, handle, value) } }"

fun enc_confirmation :: "u8 list option \<Rightarrow> nat \<Rightarrow> (u16 \<times> u8 list option) option" where
  "enc_confirmation None len = Some (0, None)"
| "enc_confirmation (Some pdu) len = do { pdu \<leftarrow> put_u8 ATT_OP_HANDLE_CNF 0 pdu; Some (1, Some pdu) }"

fun enc_exec_write_req :: "u8 \<Rightarrow> u8 list option \<Rightarrow> nat \<Rightarrow> (u16 \<times> u8 list option) option" where
  "enc_exec_write_req flags None len = Some (0, None)"
| "enc_exec_write_req flags (Some pdu) len =
     (if 1 < flags then Some (0, Some pdu)
      else do {
        pdu \<leftarrow> put_u8 ATT_OP_EXEC_WRITE_REQ 0 pdu;
        pdu \<leftarrow> put_u8 flags 1 pdu;
        Some (2, Some pdu) })"

fun dec_exec_write_req :: "u8 list option \<Rightarrow> nat \<Rightarrow> u8 option \<Rightarrow> (u16 \<times> u8 option) option" where
  "dec_exec_write_req (Some pdu) len (Some flags) =
     (if len < 2 then Some (0, Some flags)
      else do {
        opcode \<leftarrow> buf_get pdu 0;
        if opcode \<noteq> ATT_OP_EXEC_WRITE_REQ then Some (0, Some flags)
        else do { flags \<leftarrow> buf_get pdu 1; Some (2, Some flags) } })"
| "dec_exec_write_req pdu len flags = Some (0, flags)"

fun enc_exec_write_resp :: "u8 list option \<Rightarrow> (u16 \<times> u8 list option) option" where
  "enc_exec_write_resp None = Some (0, None)"
| "enc_exec_write_resp (Some pdu) = do { pdu \<leftarrow> put_u8 ATT_OP_EXEC_WRITE_RESP 0 pdu; Some (1, Some pdu) }"

fun dec_exec_write_resp :: "u8 list option \<Rightarrow> nat \<Rightarrow> u16 option" where
  "dec_exec_write_resp None len = Some 0"
| "dec_exec_write_resp (Some pdu) len =
     (if len < 1 then Some 0
      else do {
        opcode \<leftarrow> buf_get pdu 0;
        Some (if opcode \<noteq> ATT_OP_EXEC_WRITE_RESP then 0 else of_nat len) })"

section \<open>The codec of a handle and a value\<close>

text \<open>
  What the write commands and requests share: a header \<open>hdr\<close> of \<open>hl\<close> bytes that holds the
  opcode and the key \<open>'k\<close> (the handle, or the handle and the offset), then the value, clipped to
  the room the caller gives. \<open>out\<close> is how the decoder delivers its results.
\<close>

locale value_pdu =
  fixes hdr :: "'k \<Rightarrow> u8 list"
    and hl :: nat
    and enc :: "'k \<Rightarrow> u8 list \<Rightarrow> nat \<Rightarrow> u8 list \<Rightarrow> nat \<Rightarrow> (u16 \<times> u8 list option) option"
    and dec :: "u8 list \<Rightarrow> nat \<Rightarrow> u8 list \<Rightarrow> 'r option"
    and out :: "u16 \<Rightarrow> 'k \<Rightarrow> u8 list \<Rightarrow> nat \<Rightarrow> 'r"
  assumes hdr_length: "length (hdr k) = hl"
    and enc_law: "hl \<le> len \<Longrightarrow> len < 2 ^ 64 \<Longrightarrow> len \<le> length pdu \<Longrightarrow> vlen \<le> length value \<Longrightarrow>
      m = min vlen (len - hl) \<Longrightarrow>
      enc k value vlen pdu len = Some (of_nat (hl + m), Some (hdr k @ take m value @ drop (hl + m) pdu))"
    and dec_law: "length v \<le> length buf \<Longrightarrow>
      dec (hdr k @ v @ r) (hl + length v) buf =
        Some (out (of_nat (hl + length v)) k (v @ drop (length v) buf) (length v))"
begin

lemma roundtrip:
  assumes "hl \<le> len" and "len < 2 ^ 64" and "len \<le> length pdu" and "vlen \<le> length value"
    and "m = min vlen (len - hl)" and "m \<le> length buf"
  shows "\<exists>pdu'. enc k value vlen pdu len = Some (of_nat (hl + m), Some pdu') \<and>
     length pdu' = length pdu \<and> drop (hl + m) pdu' = drop (hl + m) pdu \<and>
     dec pdu' (hl + m) buf = Some (out (of_nat (hl + m)) k (take m value @ drop m buf) m)"
proof -
  let ?pdu = "hdr k @ take m value @ drop (hl + m) pdu"
  have m: "m \<le> length value" "hl + m \<le> length pdu" using assms by auto
  have lm: "length (take m value) = m" using m by simp
  have "dec ?pdu (hl + m) buf = Some (out (of_nat (hl + m)) k (take m value @ drop m buf) m)"
    using dec_law [of "take m value" buf k "drop (hl + m) pdu", unfolded lm, OF assms(6)] .
  moreover have "length ?pdu = length pdu" "drop (hl + m) ?pdu = drop (hl + m) pdu"
    using m hdr_length [of k] lm by simp_all
  ultimately show ?thesis using enc_law [OF assms(1-5), of k] by blast
qed

end

text \<open>Storing a header at the start of a buffer, byte by byte.\<close>

lemma put_u8_0: "1 \<le> length pdu \<Longrightarrow> put_u8 v 0 pdu = Some (v # drop 1 pdu)"
  by (simp add: put_u8_def buf_write_0)

lemma put_le16_1: "2 \<le> length r \<Longrightarrow> put_le16 v (Suc 0) (x # r) = Some (x # le16_bytes v @ drop 2 r)"
  using put_le16_at [of "Suc 0" "[x]" r v] by simp

lemma put_le16_3:
  "2 \<le> length r \<Longrightarrow> put_le16 w 3 (x # le16_bytes v @ r) = Some (x # le16_bytes v @ le16_bytes w @ drop 2 r)"
  using put_le16_at [of 3 "x # le16_bytes v" r w] by simp

lemma copy_to_3:
  "n \<le> length src \<Longrightarrow> n \<le> length r \<Longrightarrow>
   copy_to src 0 n (x # le16_bytes v @ r) 3 = Some (x # le16_bytes v @ take n src @ drop n r)"
  using copy_to_at [of 3 "x # le16_bytes v" 0 n src r] by simp

lemma copy_to_5:
  "n \<le> length src \<Longrightarrow> n \<le> length r \<Longrightarrow>
   copy_to src 0 n (x # le16_bytes v @ le16_bytes w @ r) 5 =
     Some (x # le16_bytes v @ le16_bytes w @ take n src @ drop n r)"
  using copy_to_at [of 5 "x # le16_bytes v @ le16_bytes w" 0 n src r] by simp

lemma copy_to_1:
  "so + n \<le> length src \<Longrightarrow> n \<le> length r \<Longrightarrow>
   copy_to src so n (x # r) (Suc 0) = Some (x # take n (drop so src) @ drop n r)"
  using copy_to_at [of "Suc 0" "[x]" so n src r] by simp

lemma get_le16_1: "get_le16 (x # le16_bytes v @ r) (Suc 0) = Some v"
  using get_le16_at [of "Suc 0" "[x]" v r] by simp

lemma get_le16_3: "get_le16 (x # le16_bytes v @ le16_bytes w @ r) 3 = Some w"
  using get_le16_at [of 3 "x # le16_bytes v" w r] by simp

lemma copy_from_3:
  "length u \<le> length buf \<Longrightarrow>
   copy_to (x # le16_bytes v @ u @ r) 3 (length u) buf 0 = Some (u @ drop (length u) buf)"
  by (simp add: copy_to_def buf_read_def buf_write_0 le16_bytes_def)

lemma copy_from_5:
  "length u \<le> length buf \<Longrightarrow>
   copy_to (x # le16_bytes v @ le16_bytes w @ u @ r) 5 (length u) buf 0 = Some (u @ drop (length u) buf)"
  by (simp add: copy_to_def buf_read_def buf_write_0 le16_bytes_def)

lemma copy_from_1:
  "length u \<le> length buf \<Longrightarrow>
   copy_to (x # u @ r) (Suc 0) (length u) buf 0 = Some (u @ drop (length u) buf)"
  by (simp add: copy_to_def buf_read_def buf_write_0)

lemmas pdu_simps = put_u8_0 put_le16_1 put_le16_3 copy_to_3 copy_to_5 copy_to_1 get_le16_1 get_le16_3
  copy_from_3 copy_from_5 copy_from_1 buf_get_append_0 drop_drop

lemma clip: "(if b < a then b else a) = min (a :: nat) b"
  by (simp add: min_def)

interpretation write_cmd: value_pdu "\<lambda>h. ATT_OP_WRITE_CMD # le16_bytes h" 3
  "\<lambda>h value vlen pdu len. enc_write_cmd h value vlen (Some pdu) len"
  "\<lambda>pdu len buf. dec_write_cmd (Some pdu) len (Some 0) (Some buf) (Some 0)"
  "\<lambda>r h v n. (r, Some h, Some v, Some n)"
proof (unfold_locales, goal_cases)
  case (2 len pdu vlen "value" m k)
  then have "m \<le> length value" "m \<le> length pdu - 3" "3 + m < 2 ^ 64" "min vlen (len - 3) = m" by auto
  then show ?case using 2(1-4) by (cases "m = 0") (simp_all add: Let_def clip pdu_simps add.commute [of m 3] del: min_less_iff_conj)
next
  case (3 v buf k r)
  then show ?case by (simp add: pdu_simps)
qed simp

interpretation write_req: value_pdu "\<lambda>h. ATT_OP_WRITE_REQ # le16_bytes h" 3
  "\<lambda>h value vlen pdu len. enc_write_req h value vlen (Some pdu) len"
  "\<lambda>pdu len buf. dec_write_req (Some pdu) len (Some 0) (Some buf) (Some 0)"
  "\<lambda>r h v n. (r, Some h, Some v, Some n)"
proof (unfold_locales, goal_cases)
  case (2 len pdu vlen "value" m k)
  then have "m \<le> length value" "m \<le> length pdu - 3" "3 + m < 2 ^ 64" "min vlen (len - 3) = m" by auto
  then show ?case using 2(1-4) by (cases "m = 0") (simp_all add: Let_def clip pdu_simps add.commute [of m 3] del: min_less_iff_conj)
next
  case (3 v buf k r)
  then show ?case by (cases "v = []") (simp_all add: pdu_simps Let_def)
qed simp

interpretation prep_write_req: value_pdu
  "\<lambda>(h, off). ATT_OP_PREP_WRITE_REQ # le16_bytes h @ le16_bytes off" 5
  "\<lambda>(h, off) value vlen pdu len. enc_prep_write_req h off value vlen (Some pdu) len"
  "\<lambda>pdu len buf. dec_prep_write_req (Some pdu) len (Some 0) (Some 0) (Some buf) (Some 0)"
  "\<lambda>r (h, off) v n. (r, Some h, Some off, Some v, Some n)"
proof (unfold_locales, goal_cases)
  case (2 len pdu vlen "value" m k)
  then have "m \<le> length value" "m \<le> length pdu - 5" "5 + m < 2 ^ 64" "min vlen (len - 5) = m" by auto
  then show ?case using 2(1-4) by (cases k; cases "m = 0") (simp_all add: Let_def clip pdu_simps add.commute [of m 5] del: min_less_iff_conj)
next
  case (3 v buf k r)
  then show ?case by (cases k; cases "v = []") (simp_all add: pdu_simps Let_def)
qed auto

section \<open>Properties\<close>

text \<open>
  C6: What \<open>enc_write_cmd\<close>, \<open>enc_write_req\<close> and \<open>enc_prep_write_req\<close> encode in a buffer of at
  least the fixed size, the matching decoder gives back: the handle, the offset and the value, clipped to
  the room; nothing behind the returned length is touched.
\<close>

theorem att_write_roundtrip:
  assumes "5 \<le> len" and "len < 2 ^ 16" and "len \<le> length pdu" and "vlen \<le> length value" and "len \<le> length buf"
  shows "(\<exists>p m. m = min vlen (len - 3) \<and> enc_write_cmd h value vlen (Some pdu) len = Some (of_nat (3 + m), Some p) \<and>
       length p = length pdu \<and> drop (3 + m) p = drop (3 + m) pdu \<and>
       dec_write_cmd (Some p) (3 + m) (Some 0) (Some buf) (Some 0) =
         Some (of_nat (3 + m), Some h, Some (take m value @ drop m buf), Some m)) \<and>
     (\<exists>p m. m = min vlen (len - 3) \<and> enc_write_req h value vlen (Some pdu) len = Some (of_nat (3 + m), Some p) \<and>
       length p = length pdu \<and> drop (3 + m) p = drop (3 + m) pdu \<and>
       dec_write_req (Some p) (3 + m) (Some 0) (Some buf) (Some 0) =
         Some (of_nat (3 + m), Some h, Some (take m value @ drop m buf), Some m)) \<and>
     (\<exists>p m. m = min vlen (len - 5) \<and> enc_prep_write_req h off value vlen (Some pdu) len = Some (of_nat (5 + m), Some p) \<and>
       length p = length pdu \<and> drop (5 + m) p = drop (5 + m) pdu \<and>
       dec_prep_write_req (Some p) (5 + m) (Some 0) (Some 0) (Some buf) (Some 0) =
         Some (of_nat (5 + m), Some h, Some off, Some (take m value @ drop m buf), Some m))"
proof -
  have "3 \<le> len" "len < 2 ^ 64" "min vlen (len - 3) \<le> length buf" "min vlen (len - 5) \<le> length buf"
    using assms by auto
  then show ?thesis
    using write_cmd.roundtrip [of len pdu vlen "value" _ buf h, OF _ _ assms(3,4) refl]
      write_req.roundtrip [of len pdu vlen "value" _ buf h, OF _ _ assms(3,4) refl]
      prep_write_req.roundtrip [of len pdu vlen "value" _ buf "(h, off)", OF assms(1) _ assms(3,4) refl]
    by (auto simp del: enc_write_cmd.simps enc_write_req.simps enc_prep_write_req.simps dec_write_cmd.simps
        dec_write_req.simps dec_prep_write_req.simps)
qed

theorem att_write_roundtrip_witness:
  "\<exists>p. enc_write_cmd 0x2A [7, 8] 2 (Some (replicate 23 0)) 23 = Some (5, Some p) \<and>
     dec_write_cmd (Some p) 5 (Some 0) (Some (replicate 23 0)) (Some 0) =
       Some (5, Some 0x2A, Some ([7, 8] @ replicate 21 0), Some 2)"
proof -
  have "\<exists>p m. m = min 2 (23 - 3) \<and> enc_write_cmd 0x2A [7, 8] 2 (Some (replicate 23 0)) 23 = Some (of_nat (3 + m), Some p) \<and>
       length p = length (replicate 23 (0 :: u8)) \<and> drop (3 + m) p = drop (3 + m) (replicate 23 0) \<and>
       dec_write_cmd (Some p) (3 + m) (Some 0) (Some (replicate 23 0)) (Some 0) =
         Some (of_nat (3 + m), Some 0x2A, Some (take m [7, 8] @ drop m (replicate 23 0)), Some m)"
    by (rule att_write_roundtrip [THEN conjunct1]) simp_all
  then show ?thesis by (auto simp del: enc_write_cmd.simps dec_write_cmd.simps)
qed

lemma signed_header:
  assumes "15 \<le> len" and "len < 2 ^ 16 - 4" and "len \<le> length pdu" and "vlen \<le> len - 15" and "vlen \<le> length value"
    and "msg = ATT_OP_SIGNED_WRITE_CMD # le16_bytes h @ take vlen value"
    and "bt_crypto_sign_att K csrk (msg @ drop (3 + vlen) pdu) (of_nat (3 + vlen)) cnt = Some (Some sig)"
    and "length sig = 12"
  shows "enc_signed_write_cmd h value vlen K csrk cnt (Some pdu) len =
     Some (of_nat (15 + vlen), Some (msg @ sig @ drop (15 + vlen) pdu))"
proof -
  have c: "\<not> size_sub len 15 < vlen" "3 + vlen < 2 ^ 64" "15 + vlen < 2 ^ 64" using assms by auto
  have lens: "1 \<le> length pdu" "2 \<le> length (drop 1 pdu)" "vlen \<le> length (drop 3 pdu)" using assms by auto
  have p1: "put_u8 ATT_OP_SIGNED_WRITE_CMD 0 pdu = Some (ATT_OP_SIGNED_WRITE_CMD # drop 1 pdu)"
    using lens by (simp add: put_u8_0)
  have p2: "put_le16 h 1 (ATT_OP_SIGNED_WRITE_CMD # drop 1 pdu) =
      Some (ATT_OP_SIGNED_WRITE_CMD # le16_bytes h @ drop 3 pdu)"
    using put_le16_1 [of "drop 1 pdu" h] lens by simp
  have p3: "(if 0 < vlen then copy_to value 0 vlen (ATT_OP_SIGNED_WRITE_CMD # le16_bytes h @ drop 3 pdu) 3
      else Some (ATT_OP_SIGNED_WRITE_CMD # le16_bytes h @ drop 3 pdu)) = Some (msg @ drop (3 + vlen) pdu)"
    using copy_to_3 [OF assms(5) lens(3)] assms(6) by (simp add: add.commute [of vlen 3])
  have p4: "buf_write (msg @ drop (3 + vlen) pdu) (3 + vlen) sig = Some (msg @ sig @ drop (15 + vlen) pdu)"
    using assms(1,3-6,8) by (subst buf_write_append) (simp_all add: add.commute [of vlen])
  have n: "(3 :: nat) + 12 = 15" "size_add 3 vlen = 3 + vlen" "size_add 15 vlen = 15 + vlen" using c by simp_all
  show ?thesis
    by (simp only: enc_signed_write_cmd.simps Let_def n if_not_P [OF c(1)] p1 p2 p3 p4 assms(7) Option.bind_lunit
        option.case)
qed

lemma signed_decode:
  assumes "length v = n" and "n \<le> length buf" and "length sig = 12" and "length sg = 12"
  shows "dec_signed_write_cmd (Some (ATT_OP_SIGNED_WRITE_CMD # le16_bytes h @ v @ sig @ r)) (15 + n)
     (Some 0) (Some buf) (Some 0) sg = Some (of_nat (15 + n), Some h, Some (v @ drop n buf), Some n, sig)"
proof -
  let ?p = "ATT_OP_SIGNED_WRITE_CMD # le16_bytes h @ v @ sig @ r"
  have "copy_to ?p 3 n buf 0 = Some (v @ drop n buf)"
    using copy_from_3 [of v buf _ h "sig @ r"] assms(1,2) by simp
  moreover have "copy_to ?p (3 + n) 12 sg 0 = Some sig"
  proof -
    have q: "?p = (ATT_OP_SIGNED_WRITE_CMD # le16_bytes h @ v) @ sig @ r" by simp
    have "drop (3 + n) ?p = sig @ r" unfolding q using assms(1) by (subst drop_append) simp
    then show ?thesis using assms by (simp add: copy_to_def buf_read_def buf_write_0)
  qed
  moreover have "get_le16 ?p 1 = Some h" using get_le16_1 by simp
  moreover have "buf_get ?p 0 = Some ATT_OP_SIGNED_WRITE_CMD" by (rule buf_get_append_0)
  moreover have "15 + n - 15 = n" "(3 :: nat) + 12 = 15" by simp_all
  ultimately show ?thesis
    by (simp only: dec_signed_write_cmd.simps Let_def Option.bind_lunit) simp
qed

text \<open>
  A signed write decodes to its handle, its value and the signature of the header and the value
  under the key and the counter.
\<close>

theorem att_signed_write_roundtrip:
  assumes "cmac_kernel K mac" and "length k = 16"
    and "15 \<le> len" and "len < 2 ^ 16 - 4" and "len \<le> length pdu" and "vlen \<le> len - 15"
    and "vlen \<le> length value" and "vlen \<le> length buf" and "length sg = 12"
  shows "\<exists>p. enc_signed_write_cmd h value vlen (Some K) (rev k) cnt (Some pdu) len = Some (of_nat (15 + vlen), Some p) \<and>
     dec_signed_write_cmd (Some p) (15 + vlen) (Some 0) (Some buf) (Some 0) sg =
       Some (of_nat (15 + vlen), Some h, Some (take vlen value @ drop vlen buf), Some vlen,
         rev (sign_spec mac k (rev (ATT_OP_SIGNED_WRITE_CMD # le16_bytes h @ take vlen value)) cnt))"
proof -
  define msg where "msg = ATT_OP_SIGNED_WRITE_CMD # le16_bytes h @ take vlen value"
  let ?sig = "rev (sign_spec mac k (rev msg) cnt)"
  have l: "length msg = 3 + vlen" using assms(7) by (simp add: msg_def)
  have "bt_crypto_sign_att (Some K) (rev k) (rev (rev msg) @ drop (3 + vlen) pdu) (of_nat (length (rev msg))) cnt =
      Some (Some ?sig)"
    by (rule sign_att_rev [OF assms(1,2)]) (use assms(4,6) l in auto)
  then have sig: "bt_crypto_sign_att (Some K) (rev k) (msg @ drop (3 + vlen) pdu) (of_nat (3 + vlen)) cnt = Some (Some ?sig)"
    by (simp only: rev_rev_ident length_rev l)
  have ls: "length ?sig = 12" using mac_length [OF assms(1,2)] by (simp add: sign_spec_def)
  have "enc_signed_write_cmd h value vlen (Some K) (rev k) cnt (Some pdu) len =
      Some (of_nat (15 + vlen), Some (msg @ ?sig @ drop (15 + vlen) pdu))"
    by (rule signed_header [OF assms(3-7) msg_def sig ls])
  moreover have "dec_signed_write_cmd (Some (msg @ ?sig @ drop (15 + vlen) pdu)) (15 + vlen) (Some 0) (Some buf)
      (Some 0) sg = Some (of_nat (15 + vlen), Some h, Some (take vlen value @ drop vlen buf), Some vlen, ?sig)"
    using signed_decode [OF _ assms(8) ls assms(9), of "take vlen value" h] assms(7) by (simp add: msg_def)
  ultimately show ?thesis unfolding msg_def by blast
qed

theorem att_signed_write_roundtrip_witness:
  "\<exists>p sig. enc_signed_write_cmd 3 [7, 8] 2 (Some toy_kernel) (replicate 16 5) 1 (Some (replicate 23 0)) 23 = Some (17, Some p) \<and>
     dec_signed_write_cmd (Some p) 17 (Some 0) (Some [0, 0]) (Some 0) (replicate 12 0) =
       Some (17, Some 3, Some [7, 8], Some 2, sig)"
  using att_signed_write_roundtrip [OF toy_kernel_ok(2), of "replicate 16 5" 23 "replicate 23 0" 2 "[7, 8]"
      "[0, 0]" "replicate 12 0" 3 1]
  by (auto simp del: enc_signed_write_cmd.simps dec_signed_write_cmd.simps)

text \<open>
  The requests of fixed size decode to what was encoded: read and read blob, find information, the
  exchange of the MTU, the execution of prepared writes (whose flags must be 0 or 1).
\<close>

theorem att_requests_roundtrip:
  assumes "5 \<le> length pdu" and "5 \<le> len" and "f \<le> 1"
  shows "(\<exists>p. enc_read_req h (Some pdu) len = Some (3, Some p) \<and> dec_read_req (Some p) len (Some 0) = Some (3, Some h)) \<and>
     (\<exists>p. enc_read_blob_req h off (Some pdu) len = Some (5, Some p) \<and>
        dec_read_blob_req (Some p) len (Some 0) (Some 0) = Some (5, Some h, Some off)) \<and>
     (\<exists>p. enc_find_info_req st en (Some pdu) len = Some (5, Some p) \<and>
        dec_find_info_req (Some p) len (Some 0) (Some 0) = Some (5, Some st, Some en)) \<and>
     (\<exists>p. enc_mtu_req mtu (Some pdu) len = Some (3, Some p) \<and> dec_mtu_req (Some p) len (Some 0) = Some (3, Some mtu)) \<and>
     (\<exists>p. enc_mtu_resp mtu (Some pdu) len = Some (3, Some p) \<and> dec_mtu_resp (Some p) len (Some 0) = Some (3, Some mtu)) \<and>
     (\<exists>p. enc_exec_write_req f (Some pdu) len = Some (2, Some p) \<and>
        dec_exec_write_req (Some p) len (Some 0) = Some (2, Some f))"
proof -
  have "\<not> len < 5" "\<not> len < 3" "\<not> len < 2" "\<not> 1 < f" "1 \<le> length pdu" using assms by auto
  moreover have "2 \<le> length (drop 1 pdu)" "2 \<le> length (drop 3 pdu)" "2 \<le> length pdu - 1" "2 \<le> length pdu - 3"
    using assms by auto
  moreover have "put_u8 f 1 (x # drop 1 pdu) = Some (x # f # drop 2 pdu)" for x
  proof -
    obtain a b r where "pdu = a # b # r" using assms(1) by (cases pdu; cases "tl pdu") auto
    then show ?thesis by (simp add: put_u8_def buf_write_def)
  qed
  ultimately show ?thesis by (simp add: pdu_simps buf_get_def)
qed

theorem att_requests_roundtrip_witness:
  "\<exists>p. enc_exec_write_req 1 (Some (replicate 23 0)) 23 = Some (2, Some p) \<and>
     dec_exec_write_req (Some p) 23 (Some 0) = Some (2, Some 1)"
  using att_requests_roundtrip [of "replicate 23 0" 23 1]
  by (simp del: enc_exec_write_req.simps dec_exec_write_req.simps enc_mtu_req.simps dec_mtu_req.simps
      enc_mtu_resp.simps dec_mtu_resp.simps enc_read_req.simps dec_read_req.simps enc_read_blob_req.simps
      dec_read_blob_req.simps enc_find_info_req.simps dec_find_info_req.simps)

text \<open>
  A read response carries the value, and a read blob response the value from an offset inside it,
  clipped to the room; \<open>dec_read_resp\<close> delivers it when the buffer is announced as large enough and
  answers \<open>-ENOBUFS\<close> otherwise.
\<close>

theorem att_read_resp_roundtrip:
  assumes "1 \<le> len" and "len < 2 ^ 16" and "len \<le> length pdu" and "vlen \<le> length value"
    and "unat off \<le> vlen" and "m = min vlen (len - 1)" and "b = min (vlen - unat off) (len - 1)"
    and "m \<le> length buf"
  shows "(\<exists>p. enc_read_resp value vlen (Some pdu) len = Some (of_nat (m + 1), Some p) \<and>
       dec_read_resp (Some p) (m + 1) (Some buf) blen =
         Some (if blen < m then (- ENOBUFS, Some buf) else (int m, Some (take m value @ drop m buf)))) \<and>
     enc_read_blob_resp value vlen off (Some pdu) len =
       Some (of_nat (b + 1), Some (ATT_OP_READ_BLOB_RESP # take b (drop (unat off) value) @ drop (b + 1) pdu))"
proof -
  have l: "size_sub len 1 = len - 1" "size_sub vlen (unat off) = vlen - unat off" "1 \<le> length pdu" using assms by auto
  have mb: "m \<le> vlen" "m \<le> len - 1" "b \<le> vlen - unat off" "b \<le> len - 1" using assms(6,7) by simp_all
  have m: "m \<le> length value" "m \<le> length (drop 1 pdu)" "size_add m 1 = m + 1" "size_sub (m + 1) 1 = m"
    "m < 2 ^ 63" using mb(1,2) assms(1-4) by simp_all
  have b: "unat off + b \<le> length value" "b \<le> length (drop 1 pdu)" "size_add b 1 = b + 1"
    using mb(3,4) assms(1-5) by simp_all
  let ?p = "ATT_OP_READ_RESP # take m value @ drop (m + 1) pdu"
  have c1: "copy_to value 0 m (ATT_OP_READ_RESP # drop 1 pdu) 1 = Some ?p"
    using copy_to_1 [of 0 m "value" "drop 1 pdu" ATT_OP_READ_RESP] m by simp
  have c2: "copy_to value (unat off) b (ATT_OP_READ_BLOB_RESP # drop 1 pdu) 1 =
      Some (ATT_OP_READ_BLOB_RESP # take b (drop (unat off) value) @ drop (b + 1) pdu)"
    using copy_to_1 [OF b(1,2)] by simp
  have c3: "copy_to ?p 1 m buf 0 = Some (take m value @ drop m buf)"
    using copy_from_1 [of "take m value" buf ATT_OP_READ_RESP "drop (m + 1) pdu"] assms(8) m(1)
    by (simp add: min_absorb2)
  have e1: "enc_read_resp value vlen (Some pdu) len = Some (of_nat (m + 1), Some ?p)"
    unfolding enc_read_resp.simps Let_def clip l assms(6) [symmetric] put_u8_0 [OF l(3)] Option.bind_lunit c1 m(3) ..
  have e2: "enc_read_blob_resp value vlen off (Some pdu) len =
      Some (of_nat (b + 1), Some (ATT_OP_READ_BLOB_RESP # take b (drop (unat off) value) @ drop (b + 1) pdu))"
    unfolding enc_read_blob_resp.simps Let_def clip l assms(7) [symmetric] put_u8_0 [OF l(3)] Option.bind_lunit c2 b(3) ..
  have "dec_read_resp (Some ?p) (m + 1) (Some buf) blen =
      Some (if blen < m then (- ENOBUFS, Some buf) else (int m, Some (take m value @ drop m buf)))"
    unfolding dec_read_resp.simps buf_get_append_0 Option.bind_lunit option.case m(4) c3
    using m(5) by (simp add: ssize_def)
  with e1 e2 show ?thesis by blast
qed

theorem att_read_resp_roundtrip_witness:
  "enc_read_blob_resp [1, 2, 3, 4] 4 1 (Some (replicate 3 0)) 3 = Some (3, Some [ATT_OP_READ_BLOB_RESP, 2, 3])"
proof -
  have "enc_read_blob_resp [1, 2, 3, 4] 4 1 (Some (replicate 3 0)) 3 =
      Some (of_nat (2 + 1), Some (ATT_OP_READ_BLOB_RESP # take 2 (drop (unat (1 :: u16)) [1, 2, 3, 4]) @
        drop (2 + 1) (replicate 3 0)))"
    by (rule att_read_resp_roundtrip [THEN conjunct2, of 3 _ _ _ _ 2 2 "[0, 0]"]) simp_all
  then show ?thesis by (simp only:) simp
qed

text \<open>
  Notifications and indications are not clipped: what does not fit is refused and the buffer is left
  as it was. An indication decodes to its handle and as much of its value as the caller has room for.
\<close>

theorem att_notify_indicate:
  assumes "len < 2 ^ 16" and "len \<le> length pdu" and "vlen \<le> length value" and "vlen < 2 ^ 63" and "c = min vlen blen"
    and "c \<le> length buf"
  shows "if vlen + 3 \<le> len
     then enc_notification h value vlen (Some pdu) len =
         Some (of_nat (vlen + 3), Some (ATT_OP_HANDLE_NOTIFY # le16_bytes h @ take vlen value @ drop (vlen + 3) pdu)) \<and>
       (\<exists>p. enc_indication h value vlen (Some pdu) len = Some (of_nat (vlen + 3), Some p) \<and>
         dec_indication (Some p) (vlen + 3) (Some 0) buf blen = Some (of_nat c, Some h, take c value @ drop c buf))
     else enc_notification h value vlen (Some pdu) len = Some (0, Some pdu) \<and>
       enc_indication h value vlen (Some pdu) len = Some (0, Some pdu)"
proof -
  have a: "size_add vlen 3 = vlen + 3" using assms(4) by simp
  show ?thesis
  proof (cases "vlen + 3 \<le> len")
    case False
    then show ?thesis by (simp add: a)
  next
    case True
    then have l: "\<not> len < vlen + 3" "1 \<le> length pdu" "2 \<le> length (drop 1 pdu)" "vlen \<le> length (drop 3 pdu)"
      using assms(2) by auto
    have p: "put_le16 h 1 (x # drop 1 pdu) = Some (x # le16_bytes h @ drop 3 pdu)" for x
      using put_le16_1 [of "drop 1 pdu" h x] l by simp
    have c: "copy_to value 0 vlen (x # le16_bytes h @ drop 3 pdu) 3 =
        Some (x # le16_bytes h @ take vlen value @ drop (vlen + 3) pdu)" for x
      using copy_to_3 [OF assms(3) l(4)] by simp
    let ?p = "ATT_OP_HANDLE_IND # le16_bytes h @ take vlen value @ drop (vlen + 3) pdu"
    have e: "enc_indication h value vlen (Some pdu) len = Some (of_nat (vlen + 3), Some ?p)"
      "enc_notification h value vlen (Some pdu) len =
         Some (of_nat (vlen + 3), Some (ATT_OP_HANDLE_NOTIFY # le16_bytes h @ take vlen value @ drop (vlen + 3) pdu))"
      using l by (simp_all only: enc_indication.simps enc_notification.simps a if_False put_u8_0 Option.bind_lunit p c)
    have q: "take vlen value @ r = take c value @ drop c (take vlen value) @ r" for r
      using assms(5) by (metis append_assoc append_take_drop_id min.cobounded1 min.absorb1 min.commute take_take)
    have lc: "length (take c value) = c" "unat (of_nat c :: u16) = c" "min (vlen + 3 - 3) blen = c"
      using assms(1,3,5) True by (auto simp: unat_of_nat_small)
    have g: "get_le16 ?p 1 = Some h" using get_le16_1 by simp
    have "copy_to ?p 3 c buf 0 = Some (take c value @ drop c buf)"
      using copy_from_3 [of "take c value" buf ATT_OP_HANDLE_IND h "drop c (take vlen value) @ drop (vlen + 3) pdu"]
        assms(6) unfolding q [symmetric] lc(1) .
    then have "dec_indication (Some ?p) (vlen + 3) (Some 0) buf blen = Some (of_nat c, Some h, take c value @ drop c buf)"
      using g lc by (simp only: dec_indication.simps buf_get_append_0 Option.bind_lunit Let_def) simp
    with e True show ?thesis by auto
  qed
qed

theorem att_notify_indicate_witness:
  "enc_notification 3 [7, 8] 2 (Some (replicate 5 0)) 5 = Some (5, Some [ATT_OP_HANDLE_NOTIFY, 3, 0, 7, 8])"
  using att_notify_indicate [of 5 "replicate 5 0" 2 "[7, 8]" 2 2 "[0, 0]" 3]
  by (simp add: le16_bytes_def del: enc_notification.simps enc_indication.simps dec_indication.simps)

section \<open>Where the code is not what it means to be\<close>

text \<open>
  \<open>dec_prep_write_resp\<close> tests the opcode of the request: it refuses every response that
  \<open>enc_prep_write_resp\<close> encodes, and takes the encoded request for a response.
\<close>

theorem att_prep_write_resp_opcode:
  assumes "5 \<le> len" and "len < 2 ^ 16" and "len \<le> length pdu" and "vlen \<le> length value" and "len \<le> length buf"
    and "m = min vlen (len - 5)"
  shows "(\<exists>p. enc_prep_write_resp h off value vlen (Some pdu) len = Some (of_nat (5 + m), Some p) \<and>
       dec_prep_write_resp (Some p) (5 + m) (Some 0) (Some 0) (Some buf) (Some 0) =
         Some (0, Some 0, Some 0, Some buf, Some 0)) \<and>
     (\<exists>p. enc_prep_write_req h off value vlen (Some pdu) len = Some (of_nat (5 + m), Some p) \<and>
       dec_prep_write_resp (Some p) (5 + m) (Some 0) (Some 0) (Some buf) (Some 0) =
         Some (of_nat (5 + m), Some h, Some off, Some (take m value @ drop m buf), Some m))"
proof -
  have m: "m \<le> length value" "m \<le> length pdu - 5" "5 + m < 2 ^ 64" "min vlen (len - 5) = m" "m \<le> length buf"
    using assms by auto
  have "\<exists>p. enc_prep_write_resp h off value vlen (Some pdu) len = Some (of_nat (5 + m), Some p) \<and>
      buf_get p 0 = Some ATT_OP_PREP_WRITE_RESP"
    using m assms(1-4) by (cases "m = 0")
      (simp_all add: Let_def clip pdu_simps add.commute [of m 5] del: min_less_iff_conj)
  then have "\<exists>p. enc_prep_write_resp h off value vlen (Some pdu) len = Some (of_nat (5 + m), Some p) \<and>
       dec_prep_write_resp (Some p) (5 + m) (Some 0) (Some 0) (Some buf) (Some 0) =
         Some (0, Some 0, Some 0, Some buf, Some 0)"
    by (elim exE) (auto simp del: enc_prep_write_resp.simps)
  moreover have same: "dec_prep_write_resp (Some p) n (Some a) (Some b) (Some c) (Some d) =
      dec_prep_write_req (Some p) n (Some a) (Some b) (Some c) (Some d)" for p n a b c d
    by simp
  have "\<exists>p. enc_prep_write_req h off value vlen (Some pdu) len = Some (of_nat (5 + m), Some p) \<and>
       length p = length pdu \<and> drop (5 + m) p = drop (5 + m) pdu \<and>
       dec_prep_write_req (Some p) (5 + m) (Some 0) (Some 0) (Some buf) (Some 0) =
         Some (of_nat (5 + m), Some h, Some off, Some (take m value @ drop m buf), Some m)"
    using prep_write_req.roundtrip [of len pdu vlen "value" m buf "(h, off)"] assms m(5)
    by (simp del: enc_prep_write_req.simps dec_prep_write_req.simps)
  ultimately show ?thesis unfolding same by blast
qed

theorem att_prep_write_resp_opcode_witness:
  "\<exists>p. enc_prep_write_resp 3 0 [7] 1 (Some (replicate 23 0)) 23 = Some (6, Some p) \<and>
     dec_prep_write_resp (Some p) 6 (Some 0) (Some 0) (Some (replicate 23 0)) (Some 0) =
       Some (0, Some 0, Some 0, Some (replicate 23 0), Some 0)"
  using att_prep_write_resp_opcode [of 23 "replicate 23 0" 1 "[7]" "replicate 23 0" 1 3 0]
  by (simp del: enc_prep_write_resp.simps dec_prep_write_resp.simps enc_prep_write_req.simps)

text \<open>
  The offset of a read blob response is not compared with the length of the value: one beyond the end
  makes the code read outside the value.
\<close>

lemma att_read_blob_overread:
  assumes "length value < unat off" and "1 \<le> len" and "len < 2 ^ 16" and "1 \<le> length pdu"
  shows "enc_read_blob_resp value (length value) off (Some pdu) len = None"
proof -
  have "unat off < 2 ^ 16" using unat_u16_bound [of off] by simp
  then have "size_sub (length value) (unat off) = 2 ^ 64 - (unat off - length value)"
    using assms(1) by (intro size_sub_wraps) auto
  then have "len - 1 < size_sub (length value) (unat off)"
    using assms(3) \<open>unat off < 2 ^ 16\<close> by simp
  then show ?thesis using assms(1,2) put_u8_0 [OF assms(4)]
    by (simp add: Let_def copy_to_def buf_read_def)
qed

text \<open>A room smaller than the header wraps, and nothing is clipped: the value runs over the room.\<close>

lemma att_write_short_room:
  assumes "len < 3" and "0 < vlen" and "vlen < 2 ^ 16" and "vlen \<le> length value" and "vlen + 3 \<le> length pdu"
  shows "\<exists>p. enc_write_req h value vlen (Some pdu) len = Some (of_nat (3 + vlen), Some p) \<and> len < 3 + vlen \<and>
     take vlen (drop 3 p) = take vlen value"
proof -
  have "size_sub len 3 = 2 ^ 64 - (3 - len)" using assms(1) by (intro size_sub_wraps) auto
  then have c: "\<not> size_sub len 3 < vlen" using assms(3) by simp
  have "vlen \<le> length (drop 3 pdu)" "2 \<le> length (drop 1 pdu)" "1 \<le> length pdu" using assms(5) by auto
  then show ?thesis using c assms(1-4)
    by (simp add: Let_def pdu_simps)
qed

end
