(* ===== verification/Att_List.thy ===== *)
theory Att_List
  imports Att_Value
begin

text \<open>
  The ATT PDUs of \<open>attrib/att.c\<close> for discovery: requests with a handle range and a UUID, responses
  that carry a list of entries of one size or of handle ranges. The loops of the encoders are
  recursive functions with the loop's variables as arguments.
\<close>

section \<open>Requests\<close>

fun enc_read_by_grp_req ::
  "u16 \<Rightarrow> u16 \<Rightarrow> bt_uuid option \<Rightarrow> u8 list \<Rightarrow> nat \<Rightarrow> (u16 \<times> u8 list) option" where
  "enc_read_by_grp_req start end None pdu len = Some (0, pdu)"
| "enc_read_by_grp_req start end (Some uuid) pdu len =
     (let fill = (\<lambda>uuid_len. do {
        pdu \<leftarrow> put_u8 ATT_OP_READ_BY_GROUP_REQ 0 pdu;
        pdu \<leftarrow> put_le16 start 1 pdu;
        pdu \<leftarrow> put_le16 end 3 pdu;
        pdu \<leftarrow> put_uuid_le uuid 5 pdu;
        Some (5 + uuid_len, pdu) })
      in case uuid of UUID16 _ \<Rightarrow> fill 2 | UUID128 _ \<Rightarrow> fill 16 | _ \<Rightarrow> Some (0, pdu))"

fun dec_read_by_grp_req ::
  "u8 list option \<Rightarrow> nat \<Rightarrow> u16 option \<Rightarrow> u16 option \<Rightarrow> bt_uuid option \<Rightarrow>
   (u16 \<times> u16 option \<times> u16 option \<times> bt_uuid option) option" where
  "dec_read_by_grp_req (Some pdu) len (Some start) (Some end) (Some uuid) = do {
     opcode \<leftarrow> buf_get pdu 0;
     if opcode \<noteq> ATT_OP_READ_BY_GROUP_REQ then Some (0, Some start, Some end, Some uuid)
     else if len \<noteq> 5 + 2 \<and> len \<noteq> 5 + 16 then Some (0, Some start, Some end, Some uuid)
     else do {
       start \<leftarrow> get_le16 pdu 1;
       end \<leftarrow> get_le16 pdu 3;
       uuid \<leftarrow> get_uuid (len = 5 + 2) pdu 5;
       Some (of_nat len, Some start, Some end, Some uuid) } }"
| "dec_read_by_grp_req pdu len start end uuid = Some (0, start, end, uuid)"

fun enc_read_by_type_req ::
  "u16 \<Rightarrow> u16 \<Rightarrow> bt_uuid option \<Rightarrow> u8 list \<Rightarrow> nat \<Rightarrow> (u16 \<times> u8 list) option" where
  "enc_read_by_type_req start end None pdu len = Some (0, pdu)"
| "enc_read_by_type_req start end (Some uuid) pdu len =
     (let fill = (\<lambda>uuid_len. do {
        pdu \<leftarrow> put_u8 ATT_OP_READ_BY_TYPE_REQ 0 pdu;
        pdu \<leftarrow> put_le16 start 1 pdu;
        pdu \<leftarrow> put_le16 end 3 pdu;
        pdu \<leftarrow> put_uuid_le uuid 5 pdu;
        Some (5 + uuid_len, pdu) })
      in case uuid of UUID16 _ \<Rightarrow> fill 2 | UUID128 _ \<Rightarrow> fill 16 | _ \<Rightarrow> Some (0, pdu))"

fun dec_read_by_type_req ::
  "u8 list option \<Rightarrow> nat \<Rightarrow> u16 option \<Rightarrow> u16 option \<Rightarrow> bt_uuid option \<Rightarrow>
   (u16 \<times> u16 option \<times> u16 option \<times> bt_uuid option) option" where
  "dec_read_by_type_req (Some pdu) len (Some start) (Some end) (Some uuid) =
     (if len \<noteq> 5 + 2 \<and> len \<noteq> 5 + 16 then Some (0, Some start, Some end, Some uuid)
      else do {
        opcode \<leftarrow> buf_get pdu 0;
        if opcode \<noteq> ATT_OP_READ_BY_TYPE_REQ then Some (0, Some start, Some end, Some uuid)
        else do {
          start \<leftarrow> get_le16 pdu 1;
          end \<leftarrow> get_le16 pdu 3;
          uuid \<leftarrow> get_uuid (len = 5 + 2) pdu 5;
          Some (of_nat len, Some start, Some end, Some uuid) } })"
| "dec_read_by_type_req pdu len start end uuid = Some (0, start, end, uuid)"

fun enc_find_by_type_req ::
  "u16 \<Rightarrow> u16 \<Rightarrow> bt_uuid option \<Rightarrow> u8 list \<Rightarrow> nat \<Rightarrow> u8 list option \<Rightarrow> nat \<Rightarrow>
   (u16 \<times> u8 list option) option" where
  "enc_find_by_type_req start end (Some (UUID16 u)) value vlen (Some pdu) len =
     (let min_len = 7; vlen = (if size_sub len min_len < vlen then size_sub len min_len else vlen)
      in do {
        pdu \<leftarrow> put_u8 ATT_OP_FIND_BY_TYPE_REQ 0 pdu;
        pdu \<leftarrow> put_le16 start 1 pdu;
        pdu \<leftarrow> put_le16 end 3 pdu;
        pdu \<leftarrow> put_le16 u 5 pdu;
        if 0 < vlen then do {
          pdu \<leftarrow> copy_to value 0 vlen pdu 7;
          Some (of_nat (size_add min_len vlen), Some pdu) }
        else Some (of_nat min_len, Some pdu) })"
| "enc_find_by_type_req start end uuid value vlen pdu len = Some (0, pdu)"

text \<open>The output parameters are not tested.\<close>

fun dec_find_by_type_req ::
  "u8 list option \<Rightarrow> nat \<Rightarrow> u16 \<Rightarrow> u16 \<Rightarrow> bt_uuid \<Rightarrow> u8 list \<Rightarrow> nat \<Rightarrow>
   (u16 \<times> u16 \<times> u16 \<times> bt_uuid \<times> u8 list \<times> nat) option" where
  "dec_find_by_type_req None len start end uuid value vlen = Some (0, start, end, uuid, value, vlen)"
| "dec_find_by_type_req (Some pdu) len start end uuid value vlen =
     (if len < 7 then Some (0, start, end, uuid, value, vlen)
      else do {
        opcode \<leftarrow> buf_get pdu 0;
        if opcode \<noteq> ATT_OP_FIND_BY_TYPE_REQ then Some (0, start, end, uuid, value, vlen)
        else do {
          start \<leftarrow> get_le16 pdu 1;
          end \<leftarrow> get_le16 pdu 3;
          u \<leftarrow> get_le16 pdu 5;
          let vlen = len - 7;
          value \<leftarrow> (if 0 < vlen then copy_to pdu 7 vlen value 0 else Some value);
          Some (of_nat len, start, end, bt_uuid16_create u, value, vlen) } })"

section \<open>Lists of handle ranges\<close>

text \<open>The offset has 16 bits.\<close>

fun range_fill :: "att_range list \<Rightarrow> u16 \<Rightarrow> u8 list \<Rightarrow> nat \<Rightarrow> (u16 \<times> u8 list) option" where
  "range_fill [] offset pdu len = Some (offset, pdu)"
| "range_fill (r # l) offset pdu len =
     (if unat offset + 4 \<le> len then do {
        pdu \<leftarrow> put_le16 (range_start r) (unat offset) pdu;
        pdu \<leftarrow> put_le16 (range_end r) (unat offset + 2) pdu;
        range_fill l (offset + 4) pdu len }
      else Some (offset, pdu))"

fun enc_find_by_type_resp :: "att_range list \<Rightarrow> u8 list option \<Rightarrow> nat \<Rightarrow> (u16 \<times> u8 list option) option" where
  "enc_find_by_type_resp matches None len = Some (0, None)"
| "enc_find_by_type_resp matches (Some pdu) len = do {
     pdu \<leftarrow> put_u8 ATT_OP_FIND_BY_TYPE_RESP 0 pdu;
     (offset, pdu) \<leftarrow> range_fill matches 1 pdu len;
     Some (offset, Some pdu) }"

function range_scan :: "u8 list \<Rightarrow> nat \<Rightarrow> nat \<Rightarrow> att_range list \<Rightarrow> att_range list option" where
  "range_scan pdu len offset matches =
     (if offset + 4 \<le> len then do {
        s \<leftarrow> get_le16 pdu offset;
        e \<leftarrow> get_le16 pdu (offset + 2);
        range_scan pdu len (offset + 4) (matches @ [\<lparr>range_start = s, range_end = e\<rparr>]) }
      else Some matches)"
  by pat_completeness auto
termination by (relation "measure (\<lambda>(pdu, len, offset, matches). len - offset)") auto

declare range_scan.simps [simp del]

text \<open>The empty list is the \<open>NULL\<close> result.\<close>

fun dec_find_by_type_resp :: "u8 list option \<Rightarrow> nat \<Rightarrow> att_range list option" where
  "dec_find_by_type_resp None len = Some []"
| "dec_find_by_type_resp (Some pdu) len =
     (if len < 5 then Some []
      else do {
        opcode \<leftarrow> buf_get pdu 0;
        if opcode \<noteq> ATT_OP_FIND_BY_TYPE_RESP then Some []
        else if (len - 1) mod 4 \<noteq> 0 then Some []
        else range_scan pdu len 1 [] })"

section \<open>Lists of entries of one size\<close>

text \<open>The loop of \<open>enc_read_by_grp_resp\<close>, whose \<open>w\<close> has 16 bits.\<close>

function fill16 :: "att_data_list \<Rightarrow> nat \<Rightarrow> nat \<Rightarrow> nat \<Rightarrow> u16 \<Rightarrow> u8 list \<Rightarrow> (u16 \<times> u8 list) option" where
  "fill16 list len i ptr w pdu =
     (if i < unat (adl_num list) \<and> unat w + unat (adl_len list) \<le> len then do {
        d \<leftarrow> buf_get (adl_data list) i;
        pdu \<leftarrow> copy_to d 0 (unat (adl_len list)) pdu ptr;
        fill16 list len (i + 1) (ptr + unat (adl_len list)) (w + adl_len list) pdu }
      else Some (w, pdu))"
  by pat_completeness auto
termination by (relation "measure (\<lambda>(list, len, i, ptr, w, pdu). unat (adl_num list) - i)") auto

text \<open>The loop of the other encoders, whose \<open>w\<close> is a \<open>size_t\<close>; \<open>l\<close> bytes of each entry.\<close>

function fill_size :: "att_data_list \<Rightarrow> nat \<Rightarrow> nat \<Rightarrow> nat \<Rightarrow> nat \<Rightarrow> nat \<Rightarrow> u8 list \<Rightarrow> (nat \<times> u8 list) option" where
  "fill_size list l len i ptr w pdu =
     (if i < unat (adl_num list) \<and> w + l \<le> len then do {
        d \<leftarrow> buf_get (adl_data list) i;
        pdu \<leftarrow> copy_to d 0 l pdu ptr;
        fill_size list l len (i + 1) (ptr + l) (w + l) pdu }
      else Some (w, pdu))"
  by pat_completeness auto
termination by (relation "measure (\<lambda>(list, l, len, i, ptr, w, pdu). unat (adl_num list) - i)") auto

text \<open>The loop of the decoders.\<close>

function adl_scan :: "u8 list \<Rightarrow> nat \<Rightarrow> nat \<Rightarrow> att_data_list \<Rightarrow> att_data_list option" where
  "adl_scan pdu i ptr list =
     (if i < unat (adl_num list) then do {
        d \<leftarrow> buf_get (adl_data list) i;
        d \<leftarrow> copy_to pdu ptr (unat (adl_len list)) d 0;
        adl_scan pdu (i + 1) (ptr + unat (adl_len list)) (list\<lparr>adl_data := (adl_data list)[i := d]\<rparr>) }
      else Some list)"
  by pat_completeness auto
termination by (relation "measure (\<lambda>(pdu, i, ptr, list). unat (adl_num list) - i)") auto

declare fill16.simps [simp del] fill_size.simps [simp del] adl_scan.simps [simp del]

fun enc_read_by_grp_resp :: "att_data_list option \<Rightarrow> u8 list \<Rightarrow> nat \<Rightarrow> (u16 \<times> u8 list) option" where
  "enc_read_by_grp_resp None pdu len = Some (0, pdu)"
| "enc_read_by_grp_resp (Some list) pdu len =
     (if len < unat (adl_len list) + 2 then Some (0, pdu)
      else do {
        pdu \<leftarrow> put_u8 ATT_OP_READ_BY_GROUP_RESP 0 pdu;
        pdu \<leftarrow> put_u8 (ucast (adl_len list)) 1 pdu;
        fill16 list len 0 2 2 pdu })"

text \<open>The inner option is the \<open>NULL\<close> result.\<close>

definition dec_read_by_grp_resp :: "u8 list \<Rightarrow> nat \<Rightarrow> att_data_list option option" where
  "dec_read_by_grp_resp pdu len = do {
     opcode \<leftarrow> buf_get pdu 0;
     if opcode \<noteq> ATT_OP_READ_BY_GROUP_RESP then Some None
     else if len < 7 then Some None
     else do {
       e \<leftarrow> buf_get pdu 1;
       let elen = (ucast e :: u16);
       if elen < 5 then Some None
       else if (len - 2) mod unat elen \<noteq> 0 then Some None
       else
         let num = (of_nat ((len - 2) div unat elen) :: u16)
         in case att_data_list_alloc num elen of
              None \<Rightarrow> Some None
            | Some list \<Rightarrow> map_option Some (adl_scan pdu 0 2 list) } }"

text \<open>The room is not tested before it is used; the entries are cut to it.\<close>

fun enc_read_by_type_resp :: "att_data_list option \<Rightarrow> u8 list option \<Rightarrow> nat \<Rightarrow> (u16 \<times> u8 list option) option" where
  "enc_read_by_type_resp (Some list) (Some pdu) len =
     (let l = min (size_sub len 2) (unat (adl_len list))
      in do {
        pdu \<leftarrow> put_u8 ATT_OP_READ_BY_TYPE_RESP 0 pdu;
        pdu \<leftarrow> put_u8 (of_nat l) 1 pdu;
        (w, pdu) \<leftarrow> fill_size list l len 0 2 2 pdu;
        Some (of_nat w, Some pdu) })"
| "enc_read_by_type_resp list pdu len = Some (0, pdu)"

definition dec_read_by_type_resp :: "u8 list \<Rightarrow> nat \<Rightarrow> att_data_list option option" where
  "dec_read_by_type_resp pdu len = do {
     opcode \<leftarrow> buf_get pdu 0;
     if opcode \<noteq> ATT_OP_READ_BY_TYPE_RESP then Some None
     else if len < 5 then Some None
     else do {
       e \<leftarrow> buf_get pdu 1;
       let elen = (ucast e :: u16);
       if elen < 3 then Some None
       else if (len - 2) mod unat elen \<noteq> 0 then Some None
       else
         let num = (of_nat ((len - 2) div unat elen) :: u16)
         in case att_data_list_alloc num elen of
              None \<Rightarrow> Some None
            | Some list \<Rightarrow> map_option Some (adl_scan pdu 0 2 list) } }"

fun enc_find_info_resp :: "u8 \<Rightarrow> att_data_list option \<Rightarrow> u8 list option \<Rightarrow> nat \<Rightarrow> (u16 \<times> u8 list option) option" where
  "enc_find_info_resp format (Some list) (Some pdu) len =
     (if len < unat (adl_len list) + 2 then Some (0, Some pdu)
      else do {
        pdu \<leftarrow> put_u8 ATT_OP_FIND_INFO_RESP 0 pdu;
        pdu \<leftarrow> put_u8 format 1 pdu;
        (w, pdu) \<leftarrow> fill_size list (unat (adl_len list)) len 0 2 2 pdu;
        Some (of_nat w, Some pdu) })"
| "enc_find_info_resp format list pdu len = Some (0, pdu)"

text \<open>The result and what \<open>*format\<close> holds afterwards; the length is not tested.\<close>

fun dec_find_info_resp ::
  "u8 list option \<Rightarrow> nat \<Rightarrow> u8 option \<Rightarrow> (att_data_list option \<times> u8 option) option" where
  "dec_find_info_resp (Some pdu) len (Some format) = do {
     opcode \<leftarrow> buf_get pdu 0;
     if opcode \<noteq> ATT_OP_FIND_INFO_RESP then Some (None, Some format)
     else do {
       format \<leftarrow> buf_get pdu 1;
       let elen = (if format = 0x01 then 2 + 2 else if format = 0x02 then 2 + 16 else 2 :: u16);
       let num = (of_nat (size_sub len 2 div unat elen) :: u16);
       case att_data_list_alloc num elen of
         None \<Rightarrow> Some (None, Some format)
       | Some list \<Rightarrow> map_option (\<lambda>l. (Some l, Some format)) (adl_scan pdu 0 2 list) } }"
| "dec_find_info_resp pdu len format = Some (None, format)"

section \<open>What the loops do\<close>

definition range_bytes :: "att_range list \<Rightarrow> u8 list" where
  "range_bytes rs = concat (map (\<lambda>r. le16_bytes (range_start r) @ le16_bytes (range_end r)) rs)"

lemma range_bytes_simps [simp]:
  "range_bytes [] = []"
  "range_bytes (r # rs) = le16_bytes (range_start r) @ le16_bytes (range_end r) @ range_bytes rs"
  by (simp_all add: range_bytes_def)

lemma range_bytes_length [simp]: "length (range_bytes rs) = 4 * length rs"
  by (induction rs) simp_all

lemma range_fill_bytes:
  "unat off = length p \<Longrightarrow> len \<le> length p + length r \<Longrightarrow> len < 2 ^ 16 \<Longrightarrow>
   k = min (length rs) ((len - length p) div 4) \<Longrightarrow>
   range_fill rs off (p @ r) len =
     Some (of_nat (length p + 4 * k), p @ range_bytes (take k rs) @ drop (4 * k) r)"
proof (induction rs arbitrary: off p r k)
  case Nil
  then show ?case using unat_eq_imp [of off] by simp
next
  case (Cons x rs)
  show ?case
  proof (cases "length p + 4 \<le> len")
    case False
    then have "(len - length p) div 4 = 0" by simp
    then have "k = 0" using Cons.prems(4) by simp
    then show ?thesis using False Cons.prems(1) unat_eq_imp [of off] by simp
  next
    case True
    define j where "j = k - 1"
    have d: "(len - length p) div 4 = Suc ((len - (length p + 4)) div 4)"
      using True div_add_self2 [of 4 "len - (length p + 4)"] by (simp add: Suc_diff_le)
    then have k: "k = Suc j" "j = min (length rs) ((len - (length p + 4)) div 4)"
      using Cons.prems(4) by (simp_all add: j_def)
    let ?p = "p @ le16_bytes (range_start x) @ le16_bytes (range_end x)"
    have r: "2 \<le> length r" "2 \<le> length (drop 2 r)" using True Cons.prems(2) by auto
    have w1: "put_le16 (range_start x) (unat off) (p @ r) = Some (p @ le16_bytes (range_start x) @ drop 2 r)"
      by (rule put_le16_at [OF Cons.prems(1) r(1)])
    have w2: "put_le16 (range_end x) (unat off + 2) (p @ le16_bytes (range_start x) @ drop 2 r) = Some (?p @ drop 4 r)"
      using put_le16_at [of "unat off + 2" "p @ le16_bytes (range_start x)" "drop 2 r" "range_end x"] r
        Cons.prems(1) by simp
    have o: "unat (off + 4) = length ?p"
      using unat_add_of_nat [of off 4] Cons.prems(1,3) True by simp
    have "range_fill rs (off + 4) (?p @ drop 4 r) len =
        Some (of_nat (length ?p + 4 * j), ?p @ range_bytes (take j rs) @ drop (4 * j) (drop 4 r))"
      by (rule Cons.IH [OF o]) (use Cons.prems(2,3) k(2) in \<open>auto simp: add.assoc\<close>)
    moreover have "range_fill (x # rs) off (p @ r) len = range_fill rs (off + 4) (?p @ drop 4 r) len"
      using True Cons.prems(1) w1 w2 by simp
    moreover have "4 * j + 4 = 4 * k" using k(1) by simp
    ultimately show ?thesis using k(1) by (simp add: algebra_simps)
  qed
qed

lemma range_scan_bytes:
  "n = length p + 4 * length rs \<Longrightarrow>
   range_scan (p @ range_bytes rs @ r) n (length p) acc = Some (acc @ rs)"
proof (induction rs arbitrary: p acc)
  case Nil
  then show ?case by (simp add: range_scan.simps)
next
  case (Cons x rs)
  let ?p = "p @ le16_bytes (range_start x) @ le16_bytes (range_end x)"
  let ?pdu = "p @ range_bytes (x # rs) @ r"
  have g: "get_le16 ?pdu (length p) = Some (range_start x)"
    using get_le16_at [of "length p" p "range_start x"] by simp
  have g': "get_le16 ?pdu (length p + 2) = Some (range_end x)"
    using get_le16_at [of "length p + 2" "p @ le16_bytes (range_start x)" "range_end x"] by simp
  have "range_scan (?p @ range_bytes rs @ r) n (length ?p) (acc @ [x]) = Some ((acc @ [x]) @ rs)"
    by (rule Cons.IH) (use Cons.prems in simp)
  moreover have "\<lparr>range_start = range_start x, range_end = range_end x\<rparr> = x"
    by (rule att_range.equality) simp_all
  ultimately have "range_scan (?p @ range_bytes rs @ r) n (length ?p)
      (acc @ [\<lparr>range_start = range_start x, range_end = range_end x\<rparr>]) = Some ((acc @ [x]) @ rs)"
    by (simp only:)
  then show ?case using g g' Cons.prems by (subst range_scan.simps) simp
qed

text \<open>Below \<open>2 ^ 16\<close> the width of the counter makes no difference.\<close>

lemma fill16_fill_size:
  "len < 2 ^ 16 \<Longrightarrow>
   fill16 list len i ptr w pdu =
     map_option (\<lambda>(w, p). (of_nat w, p)) (fill_size list (unat (adl_len list)) len i ptr (unat w) pdu)"
proof (induction list len i ptr w pdu rule: fill16.induct)
  case (1 list len i ptr w pdu)
  show ?case
  proof (cases "i < unat (adl_num list) \<and> unat w + unat (adl_len list) \<le> len")
    case True
    have "unat (w + adl_len list) = unat w + unat (adl_len list)"
      using True 1(2) unat_add_of_nat [of w "unat (adl_len list)"] by simp
    then show ?thesis
      by (subst fill16.simps, subst fill_size.simps)
        (use True 1 in \<open>auto simp: Option.bind_map_option option.map_comp bind_eq_Some_conv
          map_option_bind split: option.splits intro!: bind_option_cong\<close>)
  next
    case False
    have "of_nat (unat w) = w" by simp
    with False show ?thesis by (subst fill16.simps, subst fill_size.simps) auto
  qed
qed

text \<open>As many entries as fit, the first \<open>l\<close> bytes of each.\<close>

lemma fill_size_entries:
  "unat (adl_num list) = length (adl_data list) \<Longrightarrow> (\<And>d. d \<in> set (adl_data list) \<Longrightarrow> l \<le> length d) \<Longrightarrow> 0 < l \<Longrightarrow>
   i \<le> length (adl_data list) \<Longrightarrow> ptr = length p \<Longrightarrow> w = length p \<Longrightarrow> len \<le> length p + length r \<Longrightarrow>
   k = min (length (adl_data list) - i) ((len - length p) div l) \<Longrightarrow>
   fill_size list l len i ptr w (p @ r) =
     Some (length p + k * l, p @ concat (map (take l) (take k (drop i (adl_data list)))) @ drop (k * l) r)"
proof (induction "length (adl_data list) - i" arbitrary: i p r k ptr w)
  case 0
  then show ?case by (subst fill_size.simps) simp
next
  case (Suc n)
  show ?case
  proof (cases "length p + l \<le> len")
    case False
    then have "(len - length p) div l = 0" using Suc.prems(3) by simp
    then have "k = 0" using Suc.prems(8) by simp
    then show ?thesis using False Suc.prems by (subst fill_size.simps) simp
  next
    case True
    define j where "j = k - 1"
    let ?d = "adl_data list ! i"
    let ?p = "p @ take l ?d"
    have i: "i < length (adl_data list)" using Suc.hyps(2) by simp
    then have ld: "l \<le> length ?d" using Suc.prems(2) by simp
    have d: "(len - length p) div l = Suc ((len - (length p + l)) div l)"
      using True div_add_self2 [of l "len - (length p + l)"] Suc.prems(3) by (simp add: Suc_diff_le)
    have "length (adl_data list) - i = Suc (length (adl_data list) - Suc i)" using i by simp
    then have k: "k = Suc j" "j = min (length (adl_data list) - Suc i) ((len - (length p + l)) div l)"
      unfolding j_def Suc.prems(8) d by simp_all
    have g: "buf_get (adl_data list) i = Some ?d" using i by (simp add: buf_get_def)
    have lr: "l \<le> length r" using True Suc.prems(7) by linarith
    have c: "copy_to ?d 0 l (p @ r) ptr = Some (?p @ drop l r)"
      using copy_to_at [OF Suc.prems(5), of 0 l ?d r] ld lr by simp
    have lp: "length ?p = length p + l" using ld by simp
    have "fill_size list l len (i + 1) (ptr + l) (w + l) (?p @ drop l r) =
        Some (length ?p + j * l, ?p @ concat (map (take l) (take j (drop (i + 1) (adl_data list)))) @ drop (j * l) (drop l r))"
      by (rule Suc.hyps(1)) (use Suc.hyps(2) Suc.prems lp lr k(2) in auto)
    then have "fill_size list l len i ptr w (p @ r) =
        Some (length ?p + j * l, ?p @ concat (map (take l) (take j (drop (i + 1) (adl_data list)))) @ drop (j * l) (drop l r))"
      using g c True i Suc.prems(1,6) by (subst fill_size.simps) simp
    moreover have "take k (drop i (adl_data list)) = ?d # take j (drop (i + 1) (adl_data list))"
      using i k(1) by (simp add: Cons_nth_drop_Suc [symmetric])
    moreover have "length ?p + j * l = length p + k * l" "j * l + l = k * l" using lp k(1) by simp_all
    ultimately show ?thesis by (simp only: drop_drop list.map concat.simps append_assoc)
  qed
qed

lemma concat_length: "\<forall>e\<in>set es. length e = l \<Longrightarrow> length (concat es) = length es * l"
  by (induction es) auto

lemma adl_scan_entries:
  assumes "length ds = length es" and "\<forall>d\<in>set ds. length d = unat l" and "\<forall>e\<in>set es. length e = unat l"
    and "unat n = length es"
  shows "i \<le> length es \<Longrightarrow> q = length p + i * unat l \<Longrightarrow>
     adl_scan (p @ concat es @ r) i q \<lparr>adl_num = n, adl_len = l, adl_data = take i es @ drop i ds\<rparr> =
       Some \<lparr>adl_num = n, adl_len = l, adl_data = es\<rparr>"
proof (induction "length es - i" arbitrary: i q)
  case 0
  then show ?case using assms by (subst adl_scan.simps) simp
next
  case (Suc k)
  then have i: "i < length es" by simp
  let ?L = "\<lparr>adl_num = n, adl_len = l, adl_data = take i es @ drop i ds\<rparr>"
  have g: "buf_get (take i es @ drop i ds) i = Some (ds ! i)"
    using i assms(1) by (simp add: buf_get_def nth_append)
  have le: "length (es ! i) = unat l" "length (ds ! i) = unat l" using assms(1-3) i by auto
  have sum: "length (concat (take j es)) = j * unat l" if "j \<le> length es" for j
  proof -
    have "\<forall>e\<in>set (take j es). length e = unat l" using assms(3) by (auto dest: in_set_takeD)
    from concat_length [OF this] show ?thesis using that by (simp add: min_absorb2)
  qed
  have split: "concat es = concat (take i es) @ es ! i @ concat (drop (Suc i) es)"
    using i by (metis append_take_drop_id concat.simps(2) concat_append Cons_nth_drop_Suc)
  have d: "drop q (p @ concat es @ r) = es ! i @ concat (drop (Suc i) es) @ r"
    using Suc.prems(2) sum [of i] i by (subst split) simp
  have c: "copy_to (p @ concat es @ r) q (unat l) (ds ! i) 0 = Some (es ! i)"
  proof -
    have "q + unat l \<le> length p + length (concat es)"
      using sum [of "length es"] i Suc.prems(2) mult_le_mono1 [of "Suc i" "length es" "unat l"] by simp
    then have "buf_read (p @ concat es @ r) q (unat l) = Some (es ! i)"
      unfolding buf_read_def d using le(1) by simp
    then show ?thesis using le by (simp add: copy_to_def buf_write_0)
  qed
  have u: "(take i es @ drop i ds)[i := es ! i] = take (Suc i) es @ drop (Suc i) ds"
    using i assms(1) by (simp add: list_update_append take_Suc_conv_app_nth Cons_nth_drop_Suc [symmetric])
  have "adl_scan (p @ concat es @ r) (Suc i) (q + unat l)
      \<lparr>adl_num = n, adl_len = l, adl_data = take (Suc i) es @ drop (Suc i) ds\<rparr> =
      Some \<lparr>adl_num = n, adl_len = l, adl_data = es\<rparr>"
    by (rule Suc.hyps(1)) (use Suc.hyps(2) Suc.prems i in auto)
  then show ?case using g c i assms(4) u by (subst adl_scan.simps) simp
qed

section \<open>The codec of an attribute data list\<close>

definition entries_ok :: "nat \<Rightarrow> att_data_list \<Rightarrow> bool" where
  "entries_ok lo L \<longleftrightarrow> adl_wf L \<and> lo \<le> unat (adl_len L) \<and> unat (adl_len L) \<le> 255 \<and> adl_data L \<noteq> []"

text \<open>How many entries fit.\<close>

definition fitting :: "att_data_list \<Rightarrow> nat \<Rightarrow> nat" where
  "fitting L len = min (length (adl_data L)) ((len - 2) div unat (adl_len L))"

text \<open>
  What the responses that carry entries of one size share: the opcode, the size, as many entries as fit;
  the decoder takes back exactly such a list.
\<close>

locale entry_list =
  fixes op :: u8 and lo :: nat
    and enc :: "att_data_list \<Rightarrow> u8 list \<Rightarrow> nat \<Rightarrow> (u16 \<times> u8 list) option"
    and dec :: "u8 list \<Rightarrow> nat \<Rightarrow> att_data_list option option"
  assumes lo_pos: "0 < lo"
    and enc_law: "entries_ok lo L \<Longrightarrow> unat (adl_len L) + 2 \<le> len \<Longrightarrow> len < 2 ^ 16 \<Longrightarrow> len \<le> length pdu \<Longrightarrow>
      k = fitting L len \<Longrightarrow>
      enc L pdu len = Some (of_nat (2 + k * unat (adl_len L)),
        [op, ucast (adl_len L)] @ concat (take k (adl_data L)) @ drop (2 + k * unat (adl_len L)) pdu)"
    and dec_law: "entries_ok lo L \<Longrightarrow> n = 2 + length (adl_data L) * unat (adl_len L) \<Longrightarrow> n < 2 ^ 16 \<Longrightarrow>
      dec ([op, ucast (adl_len L)] @ concat (adl_data L) @ r) n = Some (Some L)"
begin

lemma roundtrip:
  assumes "entries_ok lo L" and "unat (adl_len L) + 2 \<le> len" and "len < 2 ^ 16" and "len \<le> length pdu"
    and "k = fitting L len"
  shows "0 < k \<and> (\<exists>p. enc L pdu len = Some (of_nat (2 + k * unat (adl_len L)), p) \<and> length p = length pdu \<and>
     dec p (2 + k * unat (adl_len L)) = Some (Some (L\<lparr>adl_num := of_nat k, adl_data := take k (adl_data L)\<rparr>)))"
proof -
  let ?l = "unat (adl_len L)" and ?K = "L\<lparr>adl_num := of_nat k, adl_data := take k (adl_data L)\<rparr>"
  have l: "0 < ?l" using assms(1) lo_pos by (simp add: entries_ok_def)
  have "0 < (len - 2) div ?l" using assms(2) l by (simp add: div_greater_zero_iff)
  then have k: "0 < k" "k \<le> length (adl_data L)" "k \<le> (len - 2) div ?l"
    using assms(1,5) by (simp_all add: fitting_def entries_ok_def)
  have "k * ?l \<le> (len - 2) div ?l * ?l" by (rule mult_le_mono1 [OF k(3)])
  also have "\<dots> \<le> len - 2" by simp
  finally have kl: "2 + k * ?l \<le> len" using assms(2) by linarith
  have "length (adl_data L) = unat (adl_num L)" using assms(1) by (simp add: entries_ok_def adl_wf_def)
  then have "k < 2 ^ 16" using k(2) unat_u16_bound [of "adl_num L"] by simp
  then have "unat (of_nat k :: u16) = k" by (intro unat_of_nat_small) simp
  then have ok: "entries_ok lo ?K"
    using assms(1) k by (auto simp: entries_ok_def adl_wf_def min_absorb2 dest: in_set_takeD)
  let ?p = "[op, ucast (adl_len L)] @ concat (take k (adl_data L)) @ drop (2 + k * ?l) pdu"
  have "dec ([op, ucast (adl_len ?K)] @ concat (adl_data ?K) @ drop (2 + k * ?l) pdu) (2 + k * ?l) = Some (Some ?K)"
    by (rule dec_law [OF ok]) (use k(2) kl assms(3) in \<open>simp_all add: min_absorb2\<close>)
  moreover have "length (concat (take k (adl_data L))) = k * ?l"
    using concat_length [of "take k (adl_data L)" ?l] ok k(2) by (simp add: entries_ok_def adl_wf_def min_absorb2)
  then have "length ?p = length pdu" using kl assms(4) by simp
  ultimately show ?thesis using enc_law [OF assms] k(1) by simp
qed

lemma roundtrip_all:
  assumes "entries_ok lo L" and "2 + length (adl_data L) * unat (adl_len L) \<le> len" and "len < 2 ^ 16" and "len \<le> length pdu"
  shows "\<exists>p. enc L pdu len = Some (of_nat (2 + length (adl_data L) * unat (adl_len L)), p) \<and>
     dec p (2 + length (adl_data L) * unat (adl_len L)) = Some (Some L)"
proof -
  let ?n = "length (adl_data L)" and ?l = "unat (adl_len L)"
  have l: "0 < ?l" and n: "0 < ?n" using assms(1) lo_pos by (simp_all add: entries_ok_def)
  have "1 \<le> ?n" using n by linarith
  then have "?l \<le> ?n * ?l" using mult_le_mono1 [of 1 ?n ?l] by (simp only: mult_1)
  then have len: "?l + 2 \<le> len" using assms(2) by linarith
  have "?n * ?l div ?l \<le> (len - 2) div ?l" using assms(2) by (intro div_le_mono) simp
  then have "?n = fitting L len" using l by (simp add: fitting_def)
  from roundtrip [OF assms(1) len assms(3,4) this] have "\<exists>p. enc L pdu len = Some (of_nat (2 + ?n * ?l), p) \<and>
     dec p (2 + ?n * ?l) = Some (Some (L\<lparr>adl_num := of_nat ?n, adl_data := take ?n (adl_data L)\<rparr>))" by blast
  moreover have "L\<lparr>adl_num := of_nat ?n, adl_data := take ?n (adl_data L)\<rparr> = L"
    using assms(1) unat_eq_imp [of "adl_num L"] by (intro att_data_list.equality) (simp_all add: entries_ok_def adl_wf_def)
  ultimately show ?thesis by simp
qed

end

lemma ucast_len: "unat (l :: u16) \<le> 255 \<Longrightarrow> (ucast (ucast l :: u8) :: u16) = l"
proof -
  assume "unat l \<le> 255"
  then have "unat (ucast l :: u8) = unat l" by (simp add: unsigned_ucast_eq take_bit_nat_eq_self)
  then have "unat (ucast (ucast l :: u8) :: u16) = unat l" by (simp add: unat_ucast_up)
  then show ?thesis by (simp only: word_unat_eq_iff)
qed

lemma fill_wf:
  assumes "adl_wf L" and "0 < unat (adl_len L)" and "k = fitting L len" and "len \<le> 2 + length r"
  shows "fill_size L (unat (adl_len L)) len 0 2 2 ([a, b] @ r) =
     Some (2 + k * unat (adl_len L), [a, b] @ concat (take k (adl_data L)) @ drop (k * unat (adl_len L)) r)"
proof -
  have "map (take (unat (adl_len L))) (take k (adl_data L)) = take k (adl_data L)"
    using assms(1) by (auto simp: adl_wf_def intro!: map_idI dest: in_set_takeD)
  moreover have "fill_size L (unat (adl_len L)) len 0 2 2 ([a, b] @ r) =
      Some (length [a, b] + k * unat (adl_len L),
        [a, b] @ concat (map (take (unat (adl_len L))) (take k (drop 0 (adl_data L)))) @ drop (k * unat (adl_len L)) r)"
    by (rule fill_size_entries) (use assms in \<open>simp_all add: adl_wf_def fitting_def numeral_2_eq_2\<close>)
  ultimately show ?thesis by (simp add: numeral_2_eq_2)
qed

lemma scan_wf:
  assumes "adl_wf L" and "unat (adl_len L) \<le> 255"
  shows "\<exists>l. att_data_list_alloc (adl_num L) (adl_len L) = Some l \<and>
     adl_scan ([a, b] @ concat (adl_data L) @ r) 0 2 l = Some L"
proof -
  let ?l = "\<lparr>adl_num = adl_num L, adl_len = adl_len L,
    adl_data = replicate (unat (adl_num L)) (replicate (unat (adl_len L)) 0)\<rparr>"
  have "att_data_list_alloc (adl_num L) (adl_len L) = Some ?l"
    using assms(2) by (simp add: att_data_list_alloc_def word_less_nat_alt)
  moreover have "adl_scan ([a, b] @ concat (adl_data L) @ r) 0 2 ?l = Some L"
    using adl_scan_entries [of "replicate (unat (adl_num L)) (replicate (unat (adl_len L)) 0)" "adl_data L"
        "adl_len L" "adl_num L" 0 2 "[a, b]" r] assms(1)
    by (simp add: adl_wf_def)
  ultimately show ?thesis by blast
qed

lemma put_header: "2 \<le> length pdu \<Longrightarrow>
  put_u8 a 0 pdu = Some (a # drop 1 pdu) \<and> put_u8 b (Suc 0) (a # drop (Suc 0) pdu) = Some (a # b # drop 2 pdu)"
  by (cases pdu; cases "tl pdu") (auto simp: put_u8_def buf_write_def)

interpretation read_by_grp: entry_list ATT_OP_READ_BY_GROUP_RESP 5
  "\<lambda>L pdu len. enc_read_by_grp_resp (Some L) pdu len" dec_read_by_grp_resp
proof (unfold_locales, goal_cases)
  case (2 L len pdu k)
  then have ok: "adl_wf L" "0 < unat (adl_len L)" and r: "len \<le> 2 + length (drop 2 pdu)" "2 \<le> length pdu"
    by (auto simp: entries_ok_def)
  have "fill16 L len 0 2 2 (ATT_OP_READ_BY_GROUP_RESP # ucast (adl_len L) # drop 2 pdu) =
      Some (of_nat (2 + k * unat (adl_len L)), ATT_OP_READ_BY_GROUP_RESP # ucast (adl_len L) #
        concat (take k (adl_data L)) @ drop (k * unat (adl_len L)) (drop 2 pdu))"
    unfolding fill16_fill_size [OF 2(3)]
    using fill_wf [OF ok 2(5) r(1)] by simp
  then show ?case using 2(2) put_header [OF r(2)] by (simp add: add.commute)
next
  case (3 L n r)
  then have ok: "adl_wf L" "unat (adl_len L) \<le> 255" "5 \<le> unat (adl_len L)" "1 \<le> length (adl_data L)"
    by (auto simp: entries_ok_def Suc_le_eq)
  have "unat (adl_len L) \<le> length (adl_data L) * unat (adl_len L)"
    using mult_le_mono1 [OF ok(4), of "unat (adl_len L)"] by (simp only: mult_1)
  then have "\<not> n < 7" using 3(2) ok(3) by linarith
  moreover have "(n - 2) mod unat (adl_len L) = 0" "(n - 2) div unat (adl_len L) = length (adl_data L)"
    using 3(2) ok(3) by simp_all
  moreover have "of_nat (length (adl_data L)) = adl_num L" using ok(1) by (simp add: adl_wf_def)
  moreover have "\<not> adl_len L < 5" using ok(3) by (simp add: word_less_nat_alt)
  moreover obtain l where "att_data_list_alloc (adl_num L) (adl_len L) = Some l"
    "adl_scan ([ATT_OP_READ_BY_GROUP_RESP, ucast (adl_len L)] @ concat (adl_data L) @ r) 0 2 l = Some L"
    using scan_wf [OF ok(1,2)] by blast
  ultimately show ?case using ucast_len [OF ok(2)]
    by (simp add: dec_read_by_grp_resp_def buf_get_def Let_def)
qed simp

interpretation read_by_type: entry_list ATT_OP_READ_BY_TYPE_RESP 3
  "\<lambda>L pdu len. map_option (\<lambda>(w, p). (w, the p)) (enc_read_by_type_resp (Some L) (Some pdu) len)"
  dec_read_by_type_resp
proof (unfold_locales, goal_cases)
  case (2 L len pdu k)
  then have ok: "adl_wf L" "0 < unat (adl_len L)" and r: "len \<le> 2 + length (drop 2 pdu)" "2 \<le> length pdu"
    by (auto simp: entries_ok_def)
  have "min (size_sub len 2) (unat (adl_len L)) = unat (adl_len L)" using 2(2) by simp
  moreover have "(of_nat (unat (adl_len L)) :: u8) = ucast (adl_len L)" by (simp add: of_nat_unat)
  moreover have "fill_size L (unat (adl_len L)) len 0 2 2 (ATT_OP_READ_BY_TYPE_RESP # ucast (adl_len L) # drop 2 pdu) =
      Some (2 + k * unat (adl_len L), ATT_OP_READ_BY_TYPE_RESP # ucast (adl_len L) #
        concat (take k (adl_data L)) @ drop (k * unat (adl_len L)) (drop 2 pdu))"
    using fill_wf [OF ok 2(5) r(1)] by simp
  ultimately show ?case using put_header [OF r(2)] by (simp add: add.commute)
next
  case (3 L n r)
  then have ok: "adl_wf L" "unat (adl_len L) \<le> 255" "3 \<le> unat (adl_len L)" "1 \<le> length (adl_data L)"
    by (auto simp: entries_ok_def Suc_le_eq)
  have "unat (adl_len L) \<le> length (adl_data L) * unat (adl_len L)"
    using mult_le_mono1 [OF ok(4), of "unat (adl_len L)"] by (simp only: mult_1)
  then have "\<not> n < 5" using 3(2) ok(3) by linarith
  moreover have "(n - 2) mod unat (adl_len L) = 0" "(n - 2) div unat (adl_len L) = length (adl_data L)"
    using 3(2) ok(3) by simp_all
  moreover have "of_nat (length (adl_data L)) = adl_num L" using ok(1) by (simp add: adl_wf_def)
  moreover have "\<not> adl_len L < 3" using ok(3) by (simp add: word_less_nat_alt)
  moreover obtain l where "att_data_list_alloc (adl_num L) (adl_len L) = Some l"
    "adl_scan ([ATT_OP_READ_BY_TYPE_RESP, ucast (adl_len L)] @ concat (adl_data L) @ r) 0 2 l = Some L"
    using scan_wf [OF ok(1,2)] by blast
  ultimately show ?case using ucast_len [OF ok(2)]
    by (simp add: dec_read_by_type_resp_def buf_get_def Let_def)
qed simp

section \<open>Properties\<close>

text \<open>
  A read-by-group-type and a read-by-type response carry as many entries as fit, at least one; the
  decoder gives back exactly these, and the whole list when it fits.
\<close>

theorem att_entry_lists_roundtrip:
  assumes "entries_ok 5 L" and "unat (adl_len L) + 2 \<le> len" and "len < 2 ^ 16" and "len \<le> length pdu"
  shows "let k = fitting L len; K = L\<lparr>adl_num := of_nat k, adl_data := take k (adl_data L)\<rparr>;
      n = 2 + k * unat (adl_len L)
    in 0 < k \<and>
     (\<exists>p. enc_read_by_grp_resp (Some L) pdu len = Some (of_nat n, p) \<and> length p = length pdu \<and>
        dec_read_by_grp_resp p n = Some (Some K)) \<and>
     (\<exists>p. enc_read_by_type_resp (Some L) (Some pdu) len = Some (of_nat n, Some p) \<and> length p = length pdu \<and>
        dec_read_by_type_resp p n = Some (Some K))"
proof -
  have "entries_ok 3 L" using assms(1) by (simp add: entries_ok_def)
  from read_by_grp.roundtrip [OF assms refl] read_by_type.roundtrip [OF this assms(2-4) refl]
  show ?thesis by (auto simp: Let_def bind_eq_Some_conv simp del: enc_read_by_grp_resp.simps)
qed

definition two_att_entries :: att_data_list where
  "two_att_entries = \<lparr>adl_num = 2, adl_len = 6, adl_data = [[1, 0, 2, 0, 3, 4], [5, 0, 9, 0, 3, 4]]\<rparr>"

theorem att_entry_lists_roundtrip_witness:
  "\<exists>p. enc_read_by_grp_resp (Some two_att_entries) (replicate 23 0) 23 = Some (14, p) \<and>
     dec_read_by_grp_resp p 14 = Some (Some two_att_entries)"
  using att_entry_lists_roundtrip [of two_att_entries 23 "replicate 23 0"]
  by (simp add: two_att_entries_def entries_ok_def adl_wf_def fitting_def Let_def del: enc_read_by_grp_resp.simps
      enc_read_by_type_resp.simps) blast

text \<open>The header of the requests with a handle range.\<close>

lemma put_range:
  assumes "5 \<le> length pdu"
  shows "do { pdu \<leftarrow> put_u8 op 0 pdu; pdu \<leftarrow> put_le16 s 1 pdu; pdu \<leftarrow> put_le16 e 3 pdu; f pdu } =
     f ((op # le16_bytes s @ le16_bytes e) @ drop 5 pdu)"
proof -
  have "1 \<le> length pdu" "2 \<le> length (drop (Suc 0) pdu)" "2 \<le> length (drop 3 pdu)" using assms by auto
  then show ?thesis by (simp add: put_u8_0 put_le16_1 put_le16_3)
qed

lemma get_range:
  "buf_get ((op # le16_bytes s @ le16_bytes e) @ r) 0 = Some op"
  "get_le16 ((op # le16_bytes s @ le16_bytes e) @ r) 1 = Some s"
  "get_le16 ((op # le16_bytes s @ le16_bytes e) @ r) 3 = Some e"
  using get_le16_1 [of op s "le16_bytes e @ r"] get_le16_3 [of op s e r] by (simp_all add: buf_get_append_0)

lemma uuid_request:
  assumes "att_uuid u" and "5 + length (uuid_le u) \<le> length pdu"
  shows "put_uuid_le u 5 ((op # le16_bytes s @ le16_bytes e) @ drop 5 pdu) =
       Some ((op # le16_bytes s @ le16_bytes e) @ uuid_le u @ drop (5 + length (uuid_le u)) pdu)"
    and "get_uuid (is16 u) ((op # le16_bytes s @ le16_bytes e) @ uuid_le u @ r) 5 = Some u"
  using put_uuid_le_at [OF assms(1), of 5 "op # le16_bytes s @ le16_bytes e" "drop 5 pdu"] assms(2)
    get_uuid_at [OF assms(1), of 5 "op # le16_bytes s @ le16_bytes e" r]
  by (simp_all add: add.commute)

text \<open>
  Read-by-group-type and read-by-type requests decode to their handle range and their UUID, a 16 or
  a 128 bit one; other UUIDs are refused and the buffer is left as it was.
\<close>

theorem att_uuid_requests_roundtrip:
  assumes "uuid_wf u" and "21 \<le> length pdu"
  shows "if att_uuid u
     then \<exists>n\<in>{7, 21}.
       (\<exists>p. enc_read_by_grp_req s e (Some u) pdu len = Some (of_nat n, p) \<and>
          dec_read_by_grp_req (Some p) n (Some 0) (Some 0) (Some UNSPEC) = Some (of_nat n, Some s, Some e, Some u)) \<and>
       (\<exists>p. enc_read_by_type_req s e (Some u) pdu len = Some (of_nat n, p) \<and>
          dec_read_by_type_req (Some p) n (Some 0) (Some 0) (Some UNSPEC) = Some (of_nat n, Some s, Some e, Some u))
     else enc_read_by_grp_req s e (Some u) pdu len = Some (0, pdu) \<and>
       enc_read_by_type_req s e (Some u) pdu len = Some (0, pdu)"
proof (cases "att_uuid u")
  case True
  let ?n = "5 + length (uuid_le u)"
  have l: "length (uuid_le u) = (if is16 u then 2 else 16)" by (rule uuid_le_length [OF True])
  then have le: "?n \<le> length pdu" "5 \<le> length pdu" using assms(2) by (auto split: if_splits)
  note req = uuid_request [OF True le(1)]
  define P where "P op = (op # le16_bytes s @ le16_bytes e) @ uuid_le u @ drop ?n pdu" for op :: u8
  have is7: "(?n = 5 + 2) = is16 u" "?n \<noteq> 5 + 2 \<longrightarrow> ?n = 5 + 16" using l by auto
  have put: "do { pdu \<leftarrow> put_u8 op 0 pdu; pdu \<leftarrow> put_le16 s 1 pdu; pdu \<leftarrow> put_le16 e 3 pdu;
      pdu \<leftarrow> put_uuid_le u 5 pdu; Some (x, pdu) } = Some (x, P op)" for op and x :: u16
    by (simp only: put_range [OF le(2)] req(1) Option.bind_lunit P_def)
  have enc: "enc_read_by_grp_req s e (Some u) pdu len = Some (of_nat ?n, P ATT_OP_READ_BY_GROUP_REQ) \<and>
      enc_read_by_type_req s e (Some u) pdu len = Some (of_nat ?n, P ATT_OP_READ_BY_TYPE_REQ)"
  proof (cases u)
    case (UUID16 v)
    have "(of_nat ?n :: u16) = 5 + 2" by (simp add: UUID16)
    moreover note put [unfolded UUID16]
    ultimately show ?thesis
      by (simp only: UUID16 enc_read_by_grp_req.simps enc_read_by_type_req.simps Let_def bt_uuid.case simp_thms)
  next
    case (UUID128 v)
    have "(of_nat ?n :: u16) = 5 + 16" by (simp add: UUID128)
    moreover note put [unfolded UUID128]
    ultimately show ?thesis
      by (simp only: UUID128 enc_read_by_grp_req.simps enc_read_by_type_req.simps Let_def bt_uuid.case simp_thms)
  qed (use True in \<open>simp_all add: att_uuid_def\<close>)
  have g: "buf_get (P op) 0 = Some op" "get_le16 (P op) 1 = Some s" "get_le16 (P op) 3 = Some e"
    "get_uuid (is16 u) (P op) 5 = Some u" for op
    unfolding P_def using req(2) by (simp_all only: get_range)
  have d1: "dec_read_by_grp_req (Some (P ATT_OP_READ_BY_GROUP_REQ)) ?n (Some 0) (Some 0) (Some UNSPEC) =
      Some (of_nat ?n, Some s, Some e, Some u)"
    using g [of ATT_OP_READ_BY_GROUP_REQ] is7 by (cases "is16 u") simp_all
  have d2: "dec_read_by_type_req (Some (P ATT_OP_READ_BY_TYPE_REQ)) ?n (Some 0) (Some 0) (Some UNSPEC) =
      Some (of_nat ?n, Some s, Some e, Some u)"
    using g [of ATT_OP_READ_BY_TYPE_REQ] is7 by (cases "is16 u") simp_all
  have "?n \<in> {7, 21}" using l by auto
  with enc d1 d2 show ?thesis unfolding if_P [OF True] by blast
next
  case False
  then show ?thesis using assms(1) by (cases u) (auto simp: att_uuid_def)
qed

theorem att_uuid_requests_roundtrip_witness:
  "\<exists>p n. enc_read_by_grp_req 1 0xFFFF (Some (UUID16 0x2800)) (replicate 23 0) 23 = Some (of_nat n, p) \<and>
     dec_read_by_grp_req (Some p) n (Some 0) (Some 0) (Some UNSPEC) =
       Some (of_nat n, Some 1, Some 0xFFFF, Some (UUID16 0x2800))"
proof -
  have u: "att_uuid (UUID16 0x2800)" by (simp add: att_uuid_def)
  have "uuid_wf (UUID16 0x2800)" "21 \<le> length (replicate 23 (0 :: u8))" by simp_all
  from att_uuid_requests_roundtrip [OF this, of 1 "0xFFFF" 23, unfolded if_P [OF u]] show ?thesis by blast
qed

text \<open>
  A find-by-type-value response carries as many handle ranges as fit; the decoder gives them back in
  order.
\<close>

theorem att_find_by_type_resp_roundtrip:
  assumes "matches \<noteq> []" and "5 \<le> len" and "len < 2 ^ 16" and "len \<le> length pdu"
    and "k = min (length matches) ((len - 1) div 4)"
  shows "\<exists>p. enc_find_by_type_resp matches (Some pdu) len = Some (of_nat (1 + 4 * k), Some p) \<and>
     length p = length pdu \<and> dec_find_by_type_resp (Some p) (1 + 4 * k) = Some (take k matches)"
proof -
  have k: "1 \<le> k" "k \<le> length matches" "1 + 4 * k \<le> len" using assms(1,2,5) by (auto simp: Suc_le_eq)
  let ?h = "[ATT_OP_FIND_BY_TYPE_RESP]"
  let ?p = "?h @ range_bytes (take k matches) @ drop (4 * k) (drop 1 pdu)"
  have "range_fill matches 1 (?h @ drop 1 pdu) len = Some (of_nat (length ?h + 4 * k), ?p)"
    by (rule range_fill_bytes) (use assms in auto)
  then have "enc_find_by_type_resp matches (Some pdu) len = Some (of_nat (1 + 4 * k), Some ?p)"
    using put_u8_0 [of pdu ATT_OP_FIND_BY_TYPE_RESP] assms(2,4) by simp
  moreover have "range_scan ?p (1 + 4 * k) (length ?h) [] = Some ([] @ take k matches)"
    by (rule range_scan_bytes) (use k in simp)
  then have "dec_find_by_type_resp (Some ?p) (1 + 4 * k) = Some (take k matches)"
    using k(1) by (simp add: buf_get_append_0)
  moreover have "length ?p = length pdu" using k assms(4) by simp
  ultimately show ?thesis by blast
qed

theorem att_find_by_type_resp_roundtrip_witness:
  "\<exists>p. enc_find_by_type_resp [\<lparr>range_start = 1, range_end = 5\<rparr>, \<lparr>range_start = 6, range_end = 9\<rparr>]
       (Some (replicate 23 0)) 6 = Some (5, Some p) \<and>
     dec_find_by_type_resp (Some p) 5 = Some [\<lparr>range_start = 1, range_end = 5\<rparr>]"
  using att_find_by_type_resp_roundtrip
    [of "[\<lparr>range_start = 1, range_end = 5\<rparr>, \<lparr>range_start = 6, range_end = 9\<rparr>]" 6 "replicate 23 0" 1]
  by (auto simp del: enc_find_by_type_resp.simps dec_find_by_type_resp.simps)

text \<open>
  A find-information response carries as many entries as fit, four bytes each for format 1 and
  eighteen for format 2; the decoder gives back the format and these entries.
\<close>

theorem att_find_info_resp_roundtrip:
  assumes "entries_ok 1 L" and "f = 1 \<and> adl_len L = 4 \<or> f = 2 \<and> adl_len L = 18"
    and "unat (adl_len L) + 2 \<le> len" and "len < 2 ^ 16" and "len \<le> length pdu" and "k = fitting L len"
  shows "\<exists>p. enc_find_info_resp f (Some L) (Some pdu) len = Some (of_nat (2 + k * unat (adl_len L)), Some p) \<and>
     dec_find_info_resp (Some p) (2 + k * unat (adl_len L)) (Some 0) =
       Some (Some (L\<lparr>adl_num := of_nat k, adl_data := take k (adl_data L)\<rparr>), Some f)"
proof -
  let ?l = "unat (adl_len L)" and ?K = "L\<lparr>adl_num := of_nat k, adl_data := take k (adl_data L)\<rparr>"
  have wf: "adl_wf L" "0 < ?l" "?l \<le> 255" using assms(1) by (auto simp: entries_ok_def)
  have r: "len \<le> 2 + length (drop 2 pdu)" "2 \<le> length pdu" using assms(3,5) by auto
  have kn: "k \<le> length (adl_data L)" using assms(6) by (simp add: fitting_def)
  have "k < 2 ^ 16" using kn wf(1) unat_u16_bound [of "adl_num L"] by (simp add: adl_wf_def)
  then have uk: "unat (of_nat k :: u16) = k" by (intro unat_of_nat_small) simp
  then have wfK: "adl_wf ?K" using wf(1) kn by (auto simp: adl_wf_def min_absorb2 dest: in_set_takeD)
  let ?p = "[ATT_OP_FIND_INFO_RESP, f] @ concat (take k (adl_data L)) @ drop (k * ?l) (drop 2 pdu)"
  have "enc_find_info_resp f (Some L) (Some pdu) len = Some (of_nat (2 + k * ?l), Some ?p)"
    using assms(3) put_header [OF r(2)] fill_wf [OF wf(1,2) assms(6) r(1), of ATT_OP_FIND_INFO_RESP f] by simp
  moreover obtain l where l: "att_data_list_alloc (of_nat k) (adl_len L) = Some l" "adl_scan ?p 0 2 l = Some ?K"
    using scan_wf [OF wfK, of ATT_OP_FIND_INFO_RESP f "drop (k * ?l) (drop 2 pdu)"] wf(3) by auto
  have "k * ?l div ?l = k" using wf(2) by simp
  then have "dec_find_info_resp (Some ?p) (2 + k * ?l) (Some 0) = Some (Some ?K, Some f)"
    using assms(2) l by (auto simp: buf_get_def Let_def)
  ultimately show ?thesis by blast
qed

theorem att_find_info_resp_roundtrip_witness:
  "\<exists>p. enc_find_info_resp 1 (Some \<lparr>adl_num = 1, adl_len = 4, adl_data = [[1, 0, 0, 0x28]]\<rparr>) (Some (replicate 23 0)) 23 =
       Some (6, Some p) \<and>
     dec_find_info_resp (Some p) 6 (Some 0) =
       Some (Some \<lparr>adl_num = 1, adl_len = 4, adl_data = [[1, 0, 0, 0x28]]\<rparr>, Some 1)"
  using att_find_info_resp_roundtrip [of "\<lparr>adl_num = 1, adl_len = 4, adl_data = [[1, 0, 0, 0x28]]\<rparr>" 1 23 "replicate 23 0" 1]
  by (simp add: entries_ok_def adl_wf_def fitting_def del: enc_find_info_resp.simps dec_find_info_resp.simps)

text \<open>The find-by-type-value request is a value behind a handle range and a 16 bit UUID.\<close>

lemma put_le16_5:
  "2 \<le> length r \<Longrightarrow> put_le16 w 5 ((x # le16_bytes s @ le16_bytes e) @ r) =
     Some ((x # le16_bytes s @ le16_bytes e) @ le16_bytes w @ drop 2 r)"
  by (rule put_le16_at) simp_all

interpretation find_by_type_req: value_pdu
  "\<lambda>(s, e, u). (ATT_OP_FIND_BY_TYPE_REQ # le16_bytes s @ le16_bytes e) @ le16_bytes u" 7
  "\<lambda>(s, e, u) value vlen pdu len. enc_find_by_type_req s e (Some (UUID16 u)) value vlen (Some pdu) len"
  "\<lambda>pdu len buf. dec_find_by_type_req (Some pdu) len 0 0 UNSPEC buf 0"
  "\<lambda>r (s, e, u) v n. (r, s, e, UUID16 u, v, n)"
proof (unfold_locales, goal_cases)
  case (2 len pdu vlen "value" m k)
  obtain s e u where k: "k = (s, e, u)" by (cases k)
  have m: "m \<le> length value" "m \<le> length (drop 7 pdu)" "size_add 7 m = 7 + m" "size_sub len 7 = len - 7"
    using 2 by auto
  have l: "5 \<le> length pdu" "2 \<le> length (drop 5 pdu)" using 2(1,3) by auto
  let ?h = "(ATT_OP_FIND_BY_TYPE_REQ # le16_bytes s @ le16_bytes e)"
  have w: "put_le16 u 5 (?h @ drop 5 pdu) = Some ((?h @ le16_bytes u) @ drop 7 pdu)"
    using put_le16_5 [OF l(2), of u] by simp
  have c: "(if 0 < m then do { pdu \<leftarrow> copy_to value 0 m ((?h @ le16_bytes u) @ drop 7 pdu) 7; Some (of_nat (7 + m), Some pdu) }
      else Some (of_nat 7, Some ((?h @ le16_bytes u) @ drop 7 pdu))) =
      Some (of_nat (7 + m) :: u16, Some ((?h @ le16_bytes u) @ take m value @ drop (7 + m) pdu))"
    using copy_to_at [of 7 "?h @ le16_bytes u" 0 m "value" "drop 7 pdu"] m by (simp add: add.commute [of m 7])
  show ?case
    unfolding k prod.case enc_find_by_type_req.simps Let_def m(4) clip 2(5) [symmetric]
    by (simp only: put_range [OF l(1)] w Option.bind_lunit m(3) c)
next
  case (3 v buf k r)
  obtain s e u where k: "k = (s, e, u)" by (cases k)
  let ?h = "(ATT_OP_FIND_BY_TYPE_REQ # le16_bytes s @ le16_bytes e)"
  let ?p = "?h @ le16_bytes u @ v @ r"
  have g: "buf_get ?p 0 = Some ATT_OP_FIND_BY_TYPE_REQ" "get_le16 ?p 1 = Some s" "get_le16 ?p 3 = Some e"
    "get_le16 ?p 5 = Some u"
    by (simp_all only: get_range) (rule get_le16_at, simp)
  have "drop 7 ((?h @ le16_bytes u) @ v @ r) = v @ r" by (subst drop_append) simp
  then have c: "(if 0 < length v then copy_to ?p 7 (length v) buf 0 else Some buf) = Some (v @ drop (length v) buf)"
    using 3 by (auto simp: copy_to_def buf_read_def buf_write_0)
  have n: "\<not> 7 + length v < 7" "7 + length v - 7 = length v" by simp_all
  show ?case
    unfolding k prod.case append_assoc dec_find_by_type_req.simps Let_def n(2)
    by (simp only: n(1) g c Option.bind_lunit if_False simp_thms bt_uuid16_create_def)
qed auto

text \<open>
  A find-by-type-value request decodes to its handle range, its 16 bit UUID and its value, clipped to
  the room; a request for a longer UUID is refused.
\<close>

theorem att_find_by_type_req_roundtrip:
  assumes "7 \<le> len" and "len < 2 ^ 16" and "len \<le> length pdu" and "vlen \<le> length value"
    and "m = min vlen (len - 7)" and "m \<le> length buf"
  shows "(\<exists>p. enc_find_by_type_req s e (Some (UUID16 u)) value vlen (Some pdu) len = Some (of_nat (7 + m), Some p) \<and>
       dec_find_by_type_req (Some p) (7 + m) 0 0 UNSPEC buf 0 =
         Some (of_nat (7 + m), s, e, UUID16 u, take m value @ drop m buf, m)) \<and>
     enc_find_by_type_req s e (Some (UUID128 x)) value vlen (Some pdu) len = Some (0, Some pdu)"
  using find_by_type_req.roundtrip [OF assms(1) _ assms(3-6), of "(s, e, u)"] assms(2)
  by (auto simp del: enc_find_by_type_req.simps(1) dec_find_by_type_req.simps)

theorem att_find_by_type_req_roundtrip_witness:
  "\<exists>p. enc_find_by_type_req 1 9 (Some (UUID16 0x2800)) [7] 1 (Some (replicate 23 0)) 23 = Some (8, Some p) \<and>
     dec_find_by_type_req (Some p) 8 0 0 UNSPEC [0] 0 = Some (8, 1, 9, UUID16 0x2800, [7], 1)"
  using att_find_by_type_req_roundtrip [of 23 "replicate 23 0" 1 "[7]" 1 "[0]" 1 9 "0x2800"]
  by (auto simp del: enc_find_by_type_req.simps dec_find_by_type_req.simps)

end
