(* ===== verification/Obex_Apparam.thy ===== *)
theory Obex_Apparam
  imports Blue_Prelude
begin

text \<open>
  OBEX application parameters (\<open>gobex/gobex-apparam.c\<close>): a hash table of tags, its encoding as a
  sequence of identifier, length and value, and the typed accessors. The \<open>GHashTable\<close> is a map from
  the identifiers; the order in which it is iterated is an argument of the encoder. The outer
  \<^const>\<open>None\<close> of a result is an access outside an object, the inner one \<open>NULL\<close> or
  \<open>FALSE\<close>.
\<close>

section \<open>State\<close>

text \<open>The tag is allocated with exactly \<open>len\<close> bytes of value.\<close>

record apparam_tag =
  tag_id :: u8
  tag_len :: u8
  tag_value :: "u8 list"

record GObexApparam =
  tags :: "u8 \<Rightarrow> apparam_tag option"


section \<open>Operations\<close>

text \<open>\<open>off\<close> is where in the object the pointer \<open>data\<close> points to.\<close>

definition tag_new :: "u8 \<Rightarrow> u8 \<Rightarrow> u8 list \<Rightarrow> nat \<Rightarrow> apparam_tag option" where
  "tag_new i len data off = do {
     v \<leftarrow> buf_read data off (unat len);
     Some \<lparr>tag_id = i, tag_len = len, tag_value = v\<rparr> }"

definition g_obex_apparam_new :: GObexApparam where
  "g_obex_apparam_new = \<lparr>tags = (\<lambda>_. None)\<rparr>"

definition apparam_tag_decode :: "u8 list \<Rightarrow> nat \<Rightarrow> nat \<Rightarrow> (apparam_tag \<times> nat) option option" where
  "apparam_tag_decode data off sz =
     (if sz < 2 then Some None
      else do {
        i \<leftarrow> buf_get data off;
        len \<leftarrow> buf_get data (off + 1);
        if sz - 2 < unat len then Some None
        else do {
          tag \<leftarrow> tag_new i len data (off + 2);
          Some (Some (tag, 2 + unat (tag_len tag))) } })"

text \<open>The \<open>while\<close> loop: the count where it stops and the table.\<close>

lemma tag_decode_progress:
  "apparam_tag_decode data off sz = Some (Some (t, n)) \<Longrightarrow> 2 \<le> n \<and> n \<le> sz"
  by (auto simp: apparam_tag_decode_def tag_new_def bind_eq_Some_conv split: if_splits)

function decode_tags :: "u8 list \<Rightarrow> nat \<Rightarrow> nat \<Rightarrow> (u8 \<Rightarrow> apparam_tag option) \<Rightarrow>
    (nat \<times> (u8 \<Rightarrow> apparam_tag option)) option" where
  "decode_tags data sz count tbl =
     (if count < sz then
        (case apparam_tag_decode data count (sz - count) of
           None \<Rightarrow> None
         | Some None \<Rightarrow> Some (count, tbl)
         | Some (Some (tag, parsed)) \<Rightarrow> decode_tags data sz (count + parsed) (tbl(tag_id tag \<mapsto> tag)))
      else Some (count, tbl))"
  by pat_completeness auto
termination
  by (relation "measure (\<lambda>(data, sz, count, tbl). sz - count)") (auto dest!: tag_decode_progress)

declare decode_tags.simps [simp del]

definition g_obex_apparam_decode :: "u8 list \<Rightarrow> nat \<Rightarrow> GObexApparam option option" where
  "g_obex_apparam_decode data sz =
     (if sz < 2 then Some None
      else do {
        (count, tbl) \<leftarrow> decode_tags data sz 0 (tags g_obex_apparam_new);
        Some (if count \<noteq> sz then None else Some \<lparr>tags = tbl\<rparr>) })"

definition tag_bytes :: "apparam_tag \<Rightarrow> u8 list" where
  "tag_bytes t = [tag_id t, tag_len t] @ tag_value t"

text \<open>The result, and the buffer afterwards.\<close>

definition tag_encode :: "apparam_tag \<Rightarrow> u8 list \<Rightarrow> nat \<Rightarrow> nat \<Rightarrow> (int \<times> u8 list) option" where
  "tag_encode tag buf off len =
     (let count = 2 + unat (tag_len tag)
      in if len < count then Some (- ENOBUFS, buf)
         else do {
           d \<leftarrow> buf_read (tag_bytes tag) 0 count;
           buf \<leftarrow> buf_write buf off d;
           Some (int count, buf) })"

fun encode_tags :: "apparam_tag list \<Rightarrow> u8 list \<Rightarrow> nat \<Rightarrow> nat \<Rightarrow> (int \<times> u8 list) option" where
  "encode_tags [] buf count len = Some (int count, buf)"
| "encode_tags (tag # ts) buf count len = do {
     (ret, buf) \<leftarrow> tag_encode tag buf count (size_sub len count);
     if ret < 0 then Some (ret, buf) else encode_tags ts buf (count + nat ret) len }"

text \<open>\<open>order\<close> is the sequence of the keys the iterator delivers.\<close>

fun g_obex_apparam_encode :: "u8 list \<Rightarrow> GObexApparam option \<Rightarrow> u8 list \<Rightarrow> nat \<Rightarrow> (int \<times> u8 list) option" where
  "g_obex_apparam_encode order None buf len = Some (0, buf)"
| "g_obex_apparam_encode order (Some apparam) buf len =
     encode_tags (List.map_filter (tags apparam) order) buf 0 len"

text \<open>The length is passed on in 8 bits.\<close>

definition g_obex_apparam_set_bytes :: "GObexApparam option \<Rightarrow> u8 \<Rightarrow> u8 list \<Rightarrow> nat \<Rightarrow> GObexApparam option" where
  "g_obex_apparam_set_bytes apparam i value len =
     (let a = (case apparam of None \<Rightarrow> g_obex_apparam_new | Some a \<Rightarrow> a)
      in do {
        tag \<leftarrow> tag_new i (of_nat len) value 0;
        Some (a\<lparr>tags := (tags a)(i \<mapsto> tag)\<rparr>) })"

definition g_obex_apparam_set_uint8 :: "GObexApparam option \<Rightarrow> u8 \<Rightarrow> u8 \<Rightarrow> GObexApparam option" where
  "g_obex_apparam_set_uint8 apparam i value = g_obex_apparam_set_bytes apparam i [value] 1"

definition g_obex_apparam_set_uint16 :: "GObexApparam option \<Rightarrow> u8 \<Rightarrow> u16 \<Rightarrow> GObexApparam option" where
  "g_obex_apparam_set_uint16 apparam i value = g_obex_apparam_set_bytes apparam i (be16_bytes value) 2"

definition g_obex_apparam_set_uint32 :: "GObexApparam option \<Rightarrow> u8 \<Rightarrow> u32 \<Rightarrow> GObexApparam option" where
  "g_obex_apparam_set_uint32 apparam i value = g_obex_apparam_set_bytes apparam i (be32_bytes value) 4"

definition be64_bytes :: "u64 \<Rightarrow> u8 list" where
  "be64_bytes w = be32_bytes (ucast (drop_bit 32 w)) @ be32_bytes (ucast w)"

definition be64_val :: "u32 \<Rightarrow> u32 \<Rightarrow> u64" where
  "be64_val h l = push_bit 32 (ucast h) OR ucast l"

definition g_obex_apparam_set_uint64 :: "GObexApparam option \<Rightarrow> u8 \<Rightarrow> u64 \<Rightarrow> GObexApparam option" where
  "g_obex_apparam_set_uint64 apparam i value = g_obex_apparam_set_bytes apparam i (be64_bytes value) 8"

text \<open>
  \<open>value\<close> is the memory of the string, with its terminating zero; a string that is too long is cut in
  place. The second component is that memory afterwards.
\<close>

definition g_obex_apparam_set_string :: "GObexApparam option \<Rightarrow> u8 \<Rightarrow> u8 list \<Rightarrow> (GObexApparam \<times> u8 list) option" where
  "g_obex_apparam_set_string apparam i value =
     (let len = length (takeWhile (\<lambda>c. c \<noteq> 0) value) + 1
      in if 255 < len then do {
           value \<leftarrow> buf_write value (255 - 1) [0];
           a \<leftarrow> g_obex_apparam_set_bytes apparam i value 255;
           Some (a, value) }
         else do {
           a \<leftarrow> g_obex_apparam_set_bytes apparam i value len;
           Some (a, value) })"

definition g_obex_apparam_find_tag :: "GObexApparam \<Rightarrow> u8 \<Rightarrow> apparam_tag option" where
  "g_obex_apparam_find_tag apparam i = tags apparam i"

text \<open>The length is not tested.\<close>

definition g_obex_apparam_get_uint8 :: "GObexApparam \<Rightarrow> u8 \<Rightarrow> u8 option option" where
  "g_obex_apparam_get_uint8 apparam i =
     (case g_obex_apparam_find_tag apparam i of
        None \<Rightarrow> Some None
      | Some tag \<Rightarrow> map_option Some (buf_get (tag_value tag) 0))"

definition g_obex_apparam_get_uint16 :: "GObexApparam \<Rightarrow> u8 \<Rightarrow> u16 option option" where
  "g_obex_apparam_get_uint16 apparam i =
     (case g_obex_apparam_find_tag apparam i of
        None \<Rightarrow> Some None
      | Some tag \<Rightarrow>
          if tag_len tag < 2 then Some None
          else do {
            a \<leftarrow> buf_get (tag_value tag) 0; b \<leftarrow> buf_get (tag_value tag) 1;
            Some (Some (be16_val a b)) })"

definition get_be32 :: "u8 list \<Rightarrow> nat \<Rightarrow> u32 option" where
  "get_be32 v off = do {
     a \<leftarrow> buf_get v off; b \<leftarrow> buf_get v (off + 1); c \<leftarrow> buf_get v (off + 2); d \<leftarrow> buf_get v (off + 3);
     Some (be32_val a b c d) }"

definition g_obex_apparam_get_uint32 :: "GObexApparam \<Rightarrow> u8 \<Rightarrow> u32 option option" where
  "g_obex_apparam_get_uint32 apparam i =
     (case g_obex_apparam_find_tag apparam i of
        None \<Rightarrow> Some None
      | Some tag \<Rightarrow>
          if tag_len tag < 4 then Some None else map_option Some (get_be32 (tag_value tag) 0))"

definition g_obex_apparam_get_uint64 :: "GObexApparam \<Rightarrow> u8 \<Rightarrow> u64 option option" where
  "g_obex_apparam_get_uint64 apparam i =
     (case g_obex_apparam_find_tag apparam i of
        None \<Rightarrow> Some None
      | Some tag \<Rightarrow>
          if tag_len tag < 8 then Some None
          else do {
            h \<leftarrow> get_be32 (tag_value tag) 0; l \<leftarrow> get_be32 (tag_value tag) 4;
            Some (Some (be64_val h l)) })"

definition g_obex_apparam_get_string :: "GObexApparam \<Rightarrow> u8 \<Rightarrow> u8 list option option" where
  "g_obex_apparam_get_string apparam i =
     (case g_obex_apparam_find_tag apparam i of
        None \<Rightarrow> Some None
      | Some tag \<Rightarrow> do {
          s \<leftarrow> buf_read (tag_value tag) 0 (unat (tag_len tag));
          Some (Some (takeWhile (\<lambda>c. c \<noteq> 0) s)) })"

definition g_obex_apparam_get_bytes :: "GObexApparam \<Rightarrow> u8 \<Rightarrow> (u8 list \<times> nat) option" where
  "g_obex_apparam_get_bytes apparam i =
     map_option (\<lambda>tag. (tag_value tag, unat (tag_len tag))) (g_obex_apparam_find_tag apparam i)"

section \<open>Well-formed tables\<close>

definition tag_wf :: "apparam_tag \<Rightarrow> bool" where
  "tag_wf t \<longleftrightarrow> length (tag_value t) = unat (tag_len t)"

text \<open>Every tag is stored under its identifier, with as many bytes as its length says.\<close>

definition apparam_wf :: "GObexApparam \<Rightarrow> bool" where
  "apparam_wf a \<longleftrightarrow> (\<forall>i t. tags a i = Some t \<longrightarrow> tag_id t = i \<and> tag_wf t)"

lemma tag_new_wf: "tag_new i len d off = Some t \<Longrightarrow> tag_wf t \<and> tag_id t = i \<and> tag_len t = len"
  by (auto simp: tag_new_def tag_wf_def bind_eq_Some_conv dest: buf_read_length)

lemma new_wf: "apparam_wf g_obex_apparam_new"
  by (simp add: apparam_wf_def g_obex_apparam_new_def)

lemma set_bytes_eq:
  "g_obex_apparam_set_bytes ap i v n = Some b \<longleftrightarrow>
   unat (of_nat n :: u8) \<le> length v \<and>
   b = (let a = (case ap of None \<Rightarrow> g_obex_apparam_new | Some a \<Rightarrow> a)
        in a\<lparr>tags := (tags a)(i \<mapsto> \<lparr>tag_id = i, tag_len = of_nat n, tag_value = take (unat (of_nat n :: u8)) v\<rparr>)\<rparr>)"
  by (auto simp: g_obex_apparam_set_bytes_def tag_new_def buf_read_def Let_def bind_eq_Some_conv)

lemma set_bytes_wf:
  assumes "g_obex_apparam_set_bytes ap i v n = Some b" and "\<And>a. ap = Some a \<Longrightarrow> apparam_wf a"
  shows "apparam_wf b"
  using assms new_wf
  by (auto simp: set_bytes_eq apparam_wf_def tag_wf_def Let_def split: option.splits)

text \<open>Decoding reads back encoded tags; a later tag replaces an earlier one of its identifier.\<close>

definition tag_table :: "apparam_tag list \<Rightarrow> (u8 \<Rightarrow> apparam_tag option) \<Rightarrow> u8 \<Rightarrow> apparam_tag option" where
  "tag_table ts tbl = foldl (\<lambda>m t. m(tag_id t \<mapsto> t)) tbl ts"

lemma tag_bytes_length: "tag_wf t \<Longrightarrow> length (tag_bytes t) = 2 + unat (tag_len t)"
  by (simp add: tag_bytes_def tag_wf_def)

lemma tag_decode_bytes:
  assumes "tag_wf t" and "off = length p" and "2 + unat (tag_len t) \<le> sz"
  shows "apparam_tag_decode (p @ tag_bytes t @ r) off sz = Some (Some (t, 2 + unat (tag_len t)))"
  using assms
  by (auto simp: apparam_tag_decode_def tag_bytes_def tag_new_def buf_get_def buf_read_def nth_append tag_wf_def)

lemma decode_tags_bytes:
  "\<forall>t\<in>set ts. tag_wf t \<Longrightarrow> n = length (p @ concat (map tag_bytes ts)) \<Longrightarrow>
   decode_tags (p @ concat (map tag_bytes ts) @ r) n (length p) tbl = Some (n, tag_table ts tbl)"
proof (induction ts arbitrary: p tbl)
  case Nil
  then show ?case by (simp add: decode_tags.simps tag_table_def)
next
  case (Cons t ts)
  let ?d = "p @ concat (map tag_bytes (t # ts)) @ r" and ?p = "p @ tag_bytes t"
  have wf: "tag_wf t" using Cons.prems by simp
  have s: "2 + unat (tag_len t) \<le> n - length p" "length p < n"
    using tag_bytes_length [OF wf] Cons.prems(2) by simp_all
  have l: "length ?p = length p + (2 + unat (tag_len t))" using tag_bytes_length [OF wf] by simp
  have "apparam_tag_decode ?d (length p) (n - length p) = Some (Some (t, 2 + unat (tag_len t)))"
    using tag_decode_bytes [OF wf refl s(1), of p "concat (map tag_bytes ts) @ r"] by simp
  then have "decode_tags ?d n (length p) tbl =
      decode_tags (?p @ concat (map tag_bytes ts) @ r) n (length ?p) (tbl(tag_id t \<mapsto> t))"
    using s l by (subst decode_tags.simps) simp
  also have "\<dots> = Some (n, tag_table ts (tbl(tag_id t \<mapsto> t)))"
    by (rule Cons.IH) (use Cons.prems in simp_all)
  finally show ?case by (simp add: tag_table_def)
qed

text \<open>And only encoded tags are decoded.\<close>

lemma tag_decode_sound:
  assumes "apparam_tag_decode data off sz = Some (Some (t, n))"
  shows "tag_wf t \<and> take n (drop off data) = tag_bytes t \<and> n = length (tag_bytes t) \<and> off + n \<le> length data"
proof -
  from assms obtain v where v: "buf_read data (off + 2) (unat (tag_len t)) = Some v" "tag_value t = v"
    "off + 1 < length data" "data ! off = tag_id t" "data ! (off + 1) = tag_len t" "n = 2 + unat (tag_len t)"
    by (auto simp: apparam_tag_decode_def tag_new_def bind_eq_Some_conv buf_get_def split: if_splits)
  have "drop off data = tag_id t # tag_len t # drop (off + 2) data"
    using v(3-5) by (metis Cons_nth_drop_Suc Suc_eq_plus1 add_2_eq_Suc' lessI less_trans)
  then have "take n (drop off data) = tag_bytes t"
    using v by (auto simp: buf_read_def tag_bytes_def split: if_splits)
  moreover have "length (tag_value t) = unat (tag_len t)" using v(1,2) buf_read_length by blast
  ultimately show ?thesis using v by (auto simp: tag_wf_def tag_bytes_def buf_read_def split: if_splits)
qed

lemma decode_tags_sound:
  "decode_tags data sz count tbl = Some (n, tbl') \<Longrightarrow> count \<le> sz \<Longrightarrow> sz \<le> length data \<Longrightarrow>
   \<exists>ts. (\<forall>t\<in>set ts. tag_wf t) \<and> tbl' = tag_table ts tbl \<and> count \<le> n \<and> n \<le> sz \<and>
     take (n - count) (drop count data) = concat (map tag_bytes ts)"
proof (induction data sz count tbl rule: decode_tags.induct)
  case (1 data sz count tbl)
  show ?case
  proof (cases "count < sz")
    case False
    then show ?thesis using 1(2,3) by (intro exI [of _ "[]"]) (auto simp: decode_tags.simps tag_table_def)
  next
    case True
    then obtain q where q: "apparam_tag_decode data count (sz - count) = Some q"
      using 1(2) by (subst (asm) decode_tags.simps) (auto split: option.splits)
    show ?thesis
    proof (cases q)
      case None
      then show ?thesis using 1(2,3) True q
        by (intro exI [of _ "[]"]) (auto simp: decode_tags.simps tag_table_def)
    next
      case (Some p)
      obtain t k where p: "p = (t, k)" by (cases p)
      note sound = tag_decode_sound [OF q [unfolded Some p]]
      have k: "k \<le> sz - count" using tag_decode_progress q Some p by blast
      have rec: "decode_tags data sz (count + k) (tbl(tag_id t \<mapsto> t)) = Some (n, tbl')"
        using 1(2) True q Some p by (subst (asm) decode_tags.simps) simp
      have le: "count + k \<le> sz" using k True by simp
      from 1(1) [OF True q Some p [symmetric] rec le 1(4)] obtain ts where
        ts: "\<forall>t\<in>set ts. tag_wf t" "tbl' = tag_table ts (tbl(tag_id t \<mapsto> t))" "count + k \<le> n" "n \<le> sz"
          "take (n - (count + k)) (drop (count + k) data) = concat (map tag_bytes ts)" by blast
      have "take (n - count) (drop count data) =
          take k (drop count data) @ take (n - (count + k)) (drop (count + k) data)"
        using ts(3) take_add [of k "n - (count + k)" "drop count data"] by (simp add: add.commute)
      then show ?thesis using ts sound by (intro exI [of _ "t # ts"]) (auto simp: tag_table_def)
    qed
  qed
qed

text \<open>Encoding.\<close>

lemma encode_tags_bytes:
  "\<forall>t\<in>set ts. tag_wf t \<Longrightarrow> count = length p \<Longrightarrow> len \<le> length p + length r \<Longrightarrow> length p \<le> len \<Longrightarrow> len < 2 ^ 64 \<Longrightarrow>
   n = length (concat (map tag_bytes ts)) \<Longrightarrow>
   (if length p + n \<le> len
    then encode_tags ts (p @ r) count len = Some (int (length p + n), p @ concat (map tag_bytes ts) @ drop n r)
    else \<exists>b. encode_tags ts (p @ r) count len = Some (- ENOBUFS, b) \<and> length b = length p + length r)"
proof (induction ts arbitrary: p r count n)
  case (Cons t ts)
  have wf: "tag_wf t" using Cons.prems(1) by simp
  let ?l = "length (tag_bytes t)"
  have l: "?l = 2 + unat (tag_len t)" by (rule tag_bytes_length [OF wf])
  have sub: "size_sub len count = len - length p" using Cons.prems(2,4) by simp
  show ?case
  proof (cases "len - length p < ?l")
    case True
    then have "\<not> length p + n \<le> len" using Cons.prems(6) by simp
    then show ?thesis using True l sub by (simp add: tag_encode_def ENOBUFS_def)
  next
    case False
    then have lr: "?l \<le> length r" "length p + ?l \<le> len" using Cons.prems(3,4) by auto
    have "tag_encode t (p @ r) count (len - length p) = Some (int ?l, (p @ tag_bytes t) @ drop ?l r)"
      using False l lr Cons.prems(2) buf_write_append [of count p "tag_bytes t" r]
      by (simp add: tag_encode_def buf_read_def)
    then have rec: "encode_tags (t # ts) (p @ r) count len = encode_tags ts ((p @ tag_bytes t) @ drop ?l r) (count + ?l) len"
      using sub by simp
    have "if length (p @ tag_bytes t) + length (concat (map tag_bytes ts)) \<le> len
       then encode_tags ts ((p @ tag_bytes t) @ drop ?l r) (count + ?l) len =
         Some (int (length (p @ tag_bytes t) + length (concat (map tag_bytes ts))),
           (p @ tag_bytes t) @ concat (map tag_bytes ts) @ drop (length (concat (map tag_bytes ts))) (drop ?l r))
       else \<exists>b. encode_tags ts ((p @ tag_bytes t) @ drop ?l r) (count + ?l) len = Some (- ENOBUFS, b) \<and>
         length b = length (p @ tag_bytes t) + length (drop ?l r)"
      by (rule Cons.IH) (use Cons.prems lr in auto)
    then show ?thesis unfolding rec using Cons.prems(6) lr
      by (auto split: if_splits simp: add.assoc add.commute [of _ ?l])
  qed
qed (simp add: ENOBUFS_def)

section \<open>Iteration orders\<close>

definition iter_order :: "u8 list \<Rightarrow> GObexApparam \<Rightarrow> bool" where
  "iter_order order a \<longleftrightarrow> distinct order \<and> set order = dom (tags a)"

definition tags_in :: "u8 list \<Rightarrow> GObexApparam \<Rightarrow> apparam_tag list" where
  "tags_in order a = List.map_filter (tags a) order"

lemma tags_in_map: "iter_order order a \<Longrightarrow> tags_in order a = map (\<lambda>i. the (tags a i)) order"
proof -
  assume "iter_order order a"
  then have "filter (\<lambda>i. tags a i \<noteq> None) order = order" by (auto simp: iter_order_def filter_id_conv)
  then show ?thesis by (simp add: tags_in_def List.map_filter_def comp_def)
qed

lemma tag_table_map_of: "tag_table ts tbl = tbl ++ map_of (rev (map (\<lambda>t. (tag_id t, t)) ts))"
  by (induction ts arbitrary: tbl) (auto simp: tag_table_def map_add_def fun_eq_iff split: option.splits)

lemma tags_in_wf: "apparam_wf a \<Longrightarrow> iter_order order a \<Longrightarrow> \<forall>t\<in>set (tags_in order a). tag_wf t"
  by (auto simp: tags_in_map apparam_wf_def iter_order_def dom_def)

lemma tags_in_table:
  assumes "apparam_wf a" and "iter_order order a"
  shows "tag_table (tags_in order a) (\<lambda>_. None) = tags a"
proof
  fix i
  let ?f = "\<lambda>i. the (tags a i)"
  have some: "tags a j = Some (?f j) \<and> tag_id (?f j) = j" if "j \<in> set order" for j
    using assms that by (auto simp: apparam_wf_def iter_order_def dom_def)
  have keys: "map (\<lambda>t. (tag_id t, t)) (map ?f order) = map (\<lambda>j. (j, ?f j)) order"
    using some by simp
  have "map_of (rev (map (\<lambda>j. (j, ?f j)) order)) i = tags a i"
  proof (cases "i \<in> set order")
    case True
    have "distinct (map fst (rev (map (\<lambda>j. (j, ?f j)) order)))"
      using assms(2) by (simp add: iter_order_def comp_def rev_map)
    then have "map_of (rev (map (\<lambda>j. (j, ?f j)) order)) i = Some (?f i)"
      by (rule map_of_is_SomeI) (use True in auto)
    then show ?thesis using some [OF True] by simp
  next
    case False
    then have "tags a i = None" using assms(2) by (auto simp: iter_order_def)
    moreover have "map_of (rev (map (\<lambda>j. (j, ?f j)) order)) i = None"
      using False by (auto simp: map_of_eq_None_iff)
    ultimately show ?thesis by simp
  qed
  then show "tag_table (tags_in order a) (\<lambda>_. None) i = tags a i"
    unfolding tag_table_map_of tags_in_map [OF assms(2)] keys by (simp add: map_add_def split: option.splits)
qed

lemma tag_table_wf: "\<forall>t\<in>set ts. tag_wf t \<Longrightarrow> apparam_wf \<lparr>tags = tag_table ts (\<lambda>_. None)\<rparr>"
  by (auto simp: apparam_wf_def tag_table_map_of map_add_def dest!: map_of_SomeD split: option.splits)

section \<open>Integers\<close>

text \<open>
  What the users of the typed accessors rely on: a value that was set is read back, the other tags are
  left alone, nothing is found in a new table.
\<close>

definition base :: "GObexApparam option \<Rightarrow> GObexApparam" where
  "base ap = (case ap of None \<Rightarrow> g_obex_apparam_new | Some a \<Rightarrow> a)"

fun set_all :: "(GObexApparam option \<Rightarrow> u8 \<Rightarrow> 'w \<Rightarrow> GObexApparam option) \<Rightarrow> (u8 \<times> 'w) list \<Rightarrow>
    GObexApparam option \<Rightarrow> GObexApparam option" where
  "set_all put [] ap = ap"
| "set_all put ((i, v) # xs) ap = (case put ap i v of None \<Rightarrow> None | Some a \<Rightarrow> set_all put xs (Some a))"

locale tag_accessors =
  fixes put :: "GObexApparam option \<Rightarrow> u8 \<Rightarrow> 'w \<Rightarrow> GObexApparam option"
    and get :: "GObexApparam \<Rightarrow> u8 \<Rightarrow> 'w option option"
  assumes put_total: "\<exists>a. put ap i v = Some a"
    and get_put: "put ap i v = Some a \<Longrightarrow> get a i = Some (Some v)"
    and get_other: "put ap i v = Some a \<Longrightarrow> j \<noteq> i \<Longrightarrow> get a j = get (base ap) j"
    and get_new: "get g_obex_apparam_new i = Some None"
begin

lemma set_all_total: "\<exists>a. set_all put xs (Some b) = Some a"
proof (induction xs arbitrary: b)
  case (Cons x xs)
  obtain i v where x: "x = (i, v)" by (cases x)
  obtain a where "put (Some b) i v = Some a" using put_total by blast
  with Cons.IH show ?case by (simp add: x)
qed simp

lemma get_set_all:
  "set_all put xs ap = Some a \<Longrightarrow>
   get a j = (case map_of (rev xs) j of Some v \<Rightarrow> Some (Some v) | None \<Rightarrow> get (base ap) j)"
proof (induction xs arbitrary: ap)
  case Nil
  then show ?case by (simp add: base_def)
next
  case (Cons x xs)
  obtain i v where x: "x = (i, v)" by (cases x)
  from Cons.prems obtain b where b: "put ap i v = Some b" "set_all put xs (Some b) = Some a"
    by (auto simp: x split: option.splits)
  have "get b j = (if j = i then Some (Some v) else get (base ap) j)"
    using get_put [OF b(1)] get_other [OF b(1)] by auto
  with Cons.IH [OF b(2)] show ?case
    by (auto simp: x base_def [of "Some b"] map_add_def split: option.splits)
qed

lemma last_set_wins: "set_all put xs None = Some a \<Longrightarrow> get a j = Some (map_of (rev xs) j)"
  using get_set_all [of xs None a j] get_new by (auto simp: base_def split: option.splits)

end

lemma get_be32_bytes: "off = length p \<Longrightarrow> get_be32 (p @ be32_bytes w @ r) off = Some w"
  by (simp add: get_be32_def buf_get_def be32_bytes_def nth_append)

lemma be64_val_bytes: "be64_val (ucast (drop_bit 32 w)) (ucast w) = w"
  unfolding be64_val_def by (rule bit_word_eqI) (auto simp: bit_simps)

lemmas accessor_defs = g_obex_apparam_set_uint8_def g_obex_apparam_set_uint16_def
  g_obex_apparam_set_uint32_def g_obex_apparam_set_uint64_def g_obex_apparam_get_uint8_def
  g_obex_apparam_get_uint16_def g_obex_apparam_get_uint32_def g_obex_apparam_get_uint64_def
  set_bytes_eq g_obex_apparam_find_tag_def g_obex_apparam_new_def base_def

interpretation uint8_tags: tag_accessors g_obex_apparam_set_uint8 g_obex_apparam_get_uint8
  by unfold_locales (auto simp: accessor_defs buf_get_def split: option.splits)

interpretation uint16_tags: tag_accessors g_obex_apparam_set_uint16 g_obex_apparam_get_uint16
  by unfold_locales (auto simp: accessor_defs buf_get_def be16_bytes_def split: option.splits)

interpretation uint32_tags: tag_accessors g_obex_apparam_set_uint32 g_obex_apparam_get_uint32
  using get_be32_bytes [of 0 "[]" _ "[]"]
  by unfold_locales (auto simp: accessor_defs split: option.splits)

lemma be64_bytes_length [simp]: "length (be64_bytes w) = 8"
  by (simp add: be64_bytes_def)

lemma be64_bytes_read:
  "get_be32 (be64_bytes w) 0 = Some (ucast (drop_bit 32 w))" "get_be32 (be64_bytes w) 4 = Some (ucast w)"
  using get_be32_bytes [of 0 "[]" "ucast (drop_bit 32 w)" "be32_bytes (ucast w)"]
    get_be32_bytes [of 4 "be32_bytes (ucast (drop_bit 32 w))" "ucast w" "[]"]
  by (simp_all add: be64_bytes_def)

interpretation uint64_tags: tag_accessors g_obex_apparam_set_uint64 g_obex_apparam_get_uint64
  by unfold_locales (auto simp: accessor_defs be64_bytes_read be64_val_bytes split: option.splits)

section \<open>Properties\<close>

text \<open>A whole table, encoded in some order, and decoded also when other bytes follow.\<close>

lemma encode_table:
  assumes "apparam_wf a" and "iter_order order a" and "len \<le> length buf" and "len < 2 ^ 64"
    and "n = length (concat (map tag_bytes (tags_in order a)))"
  shows "if n \<le> len then g_obex_apparam_encode order (Some a) buf len =
        Some (int n, concat (map tag_bytes (tags_in order a)) @ drop n buf)
     else \<exists>b. g_obex_apparam_encode order (Some a) buf len = Some (- ENOBUFS, b) \<and> length b = length buf"
  using encode_tags_bytes [OF tags_in_wf [OF assms(1,2)], of 0 "[]" len buf n] assms(3-5)
  by (simp add: tags_in_def split: if_splits)

lemma decode_table:
  assumes "apparam_wf a" and "iter_order order a" and "order \<noteq> []"
    and "n = length (concat (map tag_bytes (tags_in order a)))"
  shows "g_obex_apparam_decode (concat (map tag_bytes (tags_in order a)) @ r) n = Some (Some a)"
proof -
  let ?ts = "tags_in order a"
  obtain i js where "order = i # js" using assms(3) by (cases order) auto
  then have "?ts = the (tags a i) # map (\<lambda>i. the (tags a i)) js"
    using tags_in_map [OF assms(2)] by (simp only: list.map)
  then have "2 \<le> n" using assms(4) by (simp add: tag_bytes_def)
  moreover have "decode_tags ([] @ concat (map tag_bytes ?ts) @ r) n (length ([] :: u8 list)) (\<lambda>_. None) =
      Some (n, tag_table ?ts (\<lambda>_. None))"
    by (rule decode_tags_bytes [OF tags_in_wf [OF assms(1,2)]]) (simp add: assms(4))
  ultimately show ?thesis
    using tags_in_table [OF assms(1,2)] by (simp add: g_obex_apparam_decode_def g_obex_apparam_new_def)
qed

text \<open>
  C29: Encoding a table in any iteration order and decoding the bytes gives the table back; when the buffer
  is too small the encoder answers \<open>-ENOBUFS\<close> and writes nothing outside.
\<close>

theorem apparam_roundtrip:
  assumes "apparam_wf a" and "iter_order order a" and "order \<noteq> []" and "len \<le> length buf" and "len < 2 ^ 64"
    and "n = length (concat (map tag_bytes (tags_in order a)))"
  shows "if n \<le> len
     then \<exists>b. g_obex_apparam_encode order (Some a) buf len = Some (int n, b) \<and> length b = length buf \<and>
       drop n b = drop n buf \<and> g_obex_apparam_decode (take n b) n = Some (Some a)
     else \<exists>b. g_obex_apparam_encode order (Some a) buf len = Some (- ENOBUFS, b) \<and> length b = length buf"
  using encode_table [OF assms(1,2,4,5,6)] decode_table [OF assms(1,2,3), of n "[]"] assms(4,6)
  by (auto split: if_splits)

definition apparam_example :: GObexApparam where
  "apparam_example = \<lparr>tags = [1 \<mapsto> \<lparr>tag_id = 1, tag_len = 1, tag_value = [7]\<rparr>,
     2 \<mapsto> \<lparr>tag_id = 2, tag_len = 2, tag_value = [8, 9]\<rparr>]\<rparr>"

theorem apparam_roundtrip_witness:
  "\<exists>b. g_obex_apparam_encode [2, 1] (Some apparam_example) (replicate 10 0) 10 = Some (7, b) \<and>
     g_obex_apparam_decode (take 7 b) 7 = Some (Some apparam_example)"
proof -
  have "apparam_wf apparam_example" "iter_order [2, 1] apparam_example"
    by (auto simp: apparam_wf_def apparam_example_def tag_wf_def iter_order_def split: if_splits)
  moreover have "length (concat (map tag_bytes (tags_in [2, 1] apparam_example))) = 7"
    by (simp add: tags_in_def apparam_example_def tag_bytes_def List.map_filter_def)
  ultimately show ?thesis
    using apparam_roundtrip [of apparam_example "[2, 1]" 10 "replicate 10 0" 7]
    by (auto simp del: g_obex_apparam_encode.simps)
qed

text \<open>
  C39: The decoder accepts exactly the sequences of encoded tags, at least one, that fill the data, and
  builds the table in which the last tag of an identifier is the one that counts.
\<close>

theorem apparam_decode_exact:
  "g_obex_apparam_decode data (length data) = Some (Some a) \<longleftrightarrow>
   (\<exists>ts. ts \<noteq> [] \<and> (\<forall>t\<in>set ts. tag_wf t) \<and> data = concat (map tag_bytes ts) \<and>
      tags a = map_of (rev (map (\<lambda>t. (tag_id t, t)) ts)))"
proof
  assume d: "g_obex_apparam_decode data (length data) = Some (Some a)"
  then have "decode_tags data (length data) 0 (\<lambda>_. None) = Some (length data, tags a)" "2 \<le> length data"
    by (auto simp: g_obex_apparam_decode_def g_obex_apparam_new_def bind_eq_Some_conv split: if_splits)
  from decode_tags_sound [OF this(1)] obtain ts where ts: "\<forall>t\<in>set ts. tag_wf t" "tags a = tag_table ts (\<lambda>_. None)"
    "data = concat (map tag_bytes ts)" by auto
  moreover have "ts \<noteq> []" using ts(3) \<open>2 \<le> length data\<close> by auto
  ultimately show "\<exists>ts. ts \<noteq> [] \<and> (\<forall>t\<in>set ts. tag_wf t) \<and>
      data = concat (map tag_bytes ts) \<and> tags a = map_of (rev (map (\<lambda>t. (tag_id t, t)) ts))"
    unfolding tag_table_map_of empty_map_add by blast
next
  assume "\<exists>ts. ts \<noteq> [] \<and> (\<forall>t\<in>set ts. tag_wf t) \<and> data = concat (map tag_bytes ts) \<and>
      tags a = map_of (rev (map (\<lambda>t. (tag_id t, t)) ts))"
  then obtain ts where ts: "ts \<noteq> []" "\<forall>t\<in>set ts. tag_wf t" "data = concat (map tag_bytes ts)"
    "tags a = tag_table ts (\<lambda>_. None)"
    by (auto simp: tag_table_map_of map_add_def fun_eq_iff split: option.splits)
  have "2 \<le> length data" using ts(1) by (cases ts) (simp_all add: ts(3) tag_bytes_def)
  then show "g_obex_apparam_decode data (length data) = Some (Some a)"
    using decode_tags_bytes [OF ts(2) refl, of "[]" "[]" "\<lambda>_. None"] ts(3,4)
    by (cases a) (simp add: g_obex_apparam_decode_def g_obex_apparam_new_def)
qed

theorem apparam_decode_exact_witness:
  "g_obex_apparam_decode [1, 1, 7, 2, 2, 8, 9] 7 = Some (Some apparam_example)"
proof -
  let ?ts = "[\<lparr>tag_id = 1, tag_len = 1, tag_value = [7]\<rparr>, \<lparr>tag_id = 2, tag_len = 2, tag_value = [8, 9]\<rparr>]"
  have "[1, 1, 7, 2, 2, 8, 9] = concat (map tag_bytes ?ts)" by (simp add: tag_bytes_def)
  moreover have "tags apparam_example = map_of (rev (map (\<lambda>t. (tag_id t, t)) ?ts))"
    by (auto simp: apparam_example_def fun_eq_iff)
  moreover have "\<forall>t\<in>set ?ts. tag_wf t" by (simp add: tag_wf_def)
  moreover have "?ts \<noteq> []" by simp
  ultimately have "\<exists>ts. ts \<noteq> [] \<and> (\<forall>t\<in>set ts. tag_wf t) \<and> [1, 1, 7, 2, 2, 8, 9] = concat (map tag_bytes ts) \<and>
      tags apparam_example = map_of (rev (map (\<lambda>t. (tag_id t, t)) ts))" by (intro exI [of _ ?ts] conjI)
  from apparam_decode_exact [THEN iffD2, OF this]
  have "g_obex_apparam_decode [1, 1, 7, 2, 2, 8, 9] (length [1, 1, 7, 2, 2, 8, 9 :: u8]) = Some (Some apparam_example)" .
  moreover have "length [1, 1, 7, 2, 2, 8, 9 :: u8] = 7" by simp
  ultimately show ?thesis by (simp only:)
qed

text \<open>
  After any sequence of settings of one width, each integer reads back as the value that was set last
  for its identifier, and what was never set is not found; for 8, 16, 32 and 64 bits.
\<close>

theorem apparam_integers:
  "(set_all g_obex_apparam_set_uint8 xs None = Some a8 \<longrightarrow> g_obex_apparam_get_uint8 a8 i = Some (map_of (rev xs) i)) \<and>
   (set_all g_obex_apparam_set_uint16 ys None = Some a16 \<longrightarrow> g_obex_apparam_get_uint16 a16 i = Some (map_of (rev ys) i)) \<and>
   (set_all g_obex_apparam_set_uint32 zs None = Some a32 \<longrightarrow> g_obex_apparam_get_uint32 a32 i = Some (map_of (rev zs) i)) \<and>
   (set_all g_obex_apparam_set_uint64 ws None = Some a64 \<longrightarrow> g_obex_apparam_get_uint64 a64 i = Some (map_of (rev ws) i))"
  using uint8_tags.last_set_wins uint16_tags.last_set_wins uint32_tags.last_set_wins uint64_tags.last_set_wins
  by blast

theorem apparam_integers_witness:
  "\<exists>a. set_all g_obex_apparam_set_uint16 [(1, 5), (2, 6), (1, 7)] None = Some a \<and>
     g_obex_apparam_get_uint16 a 1 = Some (Some 7)"
proof -
  obtain b where "g_obex_apparam_set_uint16 None 1 5 = Some b" using uint16_tags.put_total by blast
  moreover obtain a where "set_all g_obex_apparam_set_uint16 [(2, 6), (1, 7)] (Some b) = Some a"
    using uint16_tags.set_all_total by blast
  ultimately have a: "set_all g_obex_apparam_set_uint16 [(1, 5), (2, 6), (1, 7)] None = Some a" by simp
  with apparam_integers [of "[]" undefined 1 "[(1, 5), (2, 6), (1, 7)]" a "[]" undefined "[]" undefined]
  show ?thesis by auto
qed

text \<open>
  A string reads back as it was set, cut to 254 characters, and a longer one is also cut in the
  caller's memory.
\<close>

theorem apparam_string:
  assumes "0 \<notin> set s" and "value = s @ [0]"
  shows "\<exists>a v. g_obex_apparam_set_string ap i value = Some (a, v) \<and>
     g_obex_apparam_get_string a i = Some (Some (take 254 s)) \<and>
     v = (if length s \<le> 254 then value else value[254 := 0])"
proof -
  have tw: "takeWhile (\<lambda>c. c \<noteq> 0) (xs @ 0 # ys) = xs" if "0 \<notin> set xs" for xs ys :: "u8 list"
    using that by (subst takeWhile_append2) auto
  have len: "length (takeWhile (\<lambda>c. c \<noteq> 0) value) = length s" using tw [OF assms(1)] assms(2) by simp
  show ?thesis
  proof (cases "length s \<le> 254")
    case True
    then have u: "unat (of_nat (length s + 1) :: u8) = length s + 1" by (intro unat_of_nat_small) simp
    let ?tag = "\<lparr>tag_id = i, tag_len = of_nat (length s + 1), tag_value = take (length s + 1) value\<rparr>"
    have "g_obex_apparam_set_bytes ap i value (length s + 1) = Some (base ap \<lparr>tags := (tags (base ap))(i \<mapsto> ?tag)\<rparr>)"
      unfolding set_bytes_eq u using assms(2) by (simp add: base_def Let_def)
    then have "g_obex_apparam_set_string ap i value = Some (base ap \<lparr>tags := (tags (base ap))(i \<mapsto> ?tag)\<rparr>, value)"
      using True by (simp add: g_obex_apparam_set_string_def len)
    moreover have "take (length s + 1) value = s @ [0]" using assms(2) by simp
    ultimately show ?thesis using True u tw [OF assms(1), of "[]"]
      by (simp add: g_obex_apparam_get_string_def g_obex_apparam_find_tag_def buf_read_def)
  next
    case False
    let ?v = "take 254 s @ 0 # drop 255 value"
    have v: "buf_write value 254 [0] = Some ?v" using False assms(2) by (simp add: buf_write_def)
    have up: "?v = value[254 := 0]" using False assms(2) by (simp add: upd_conv_take_nth_drop)
    have nz: "0 \<notin> set (take 254 s)" using assms(1) by (auto dest: in_set_takeD)
    let ?tag = "\<lparr>tag_id = i, tag_len = 255, tag_value = take 254 s @ [0]\<rparr>"
    have "g_obex_apparam_set_bytes ap i ?v 255 = Some (base ap \<lparr>tags := (tags (base ap))(i \<mapsto> ?tag)\<rparr>)"
      unfolding set_bytes_eq using False by (simp add: base_def Let_def)
    then have "g_obex_apparam_set_string ap i value = Some (base ap \<lparr>tags := (tags (base ap))(i \<mapsto> ?tag)\<rparr>, ?v)"
      using False v by (simp add: g_obex_apparam_set_string_def len)
    then show ?thesis using False tw [OF nz, of "[]"] up
      by (simp add: g_obex_apparam_get_string_def g_obex_apparam_find_tag_def buf_read_def)
  qed
qed

theorem apparam_string_witness:
  "\<exists>a v. g_obex_apparam_set_string None 3 [72, 105, 0] = Some (a, v) \<and>
     g_obex_apparam_get_string a 3 = Some (Some [72, 105])"
  using apparam_string [of "[72, 105]" "[72, 105, 0]" None 3] by auto

text \<open>256 bytes are stored as none: the length is cut to 8 bits.\<close>

lemma apparam_set_bytes_truncates:
  "length v = 256 \<Longrightarrow> \<exists>a. g_obex_apparam_set_bytes None i v 256 = Some a \<and> g_obex_apparam_get_bytes a i = Some ([], 0)"
  by (simp add: set_bytes_eq g_obex_apparam_get_bytes_def g_obex_apparam_find_tag_def)

text \<open>The 8 bit accessor reads an empty value.\<close>

lemma apparam_get_uint8_empty:
  "tags a i = Some \<lparr>tag_id = i, tag_len = 0, tag_value = []\<rparr> \<Longrightarrow> g_obex_apparam_get_uint8 a i = None"
  by (simp add: g_obex_apparam_get_uint8_def g_obex_apparam_find_tag_def buf_get_def)

end
