(* ===== verification/Item_Stream.thy ===== *)
theory Item_Stream
  imports Blue_Prelude
begin

text \<open>
  The loop with which the code takes items of their own length off a buffer until nothing is left, and
  the contract of a decoder for one item (locale \<open>item_codec\<close>): what it does on an encoded item
  whatever follows, that it consumes something and never more than it was given, and that it reads
  inside the buffer. The lemmas give the same for the whole loop; the packet decoder of OBEX rests on
  them with the header decoder as the item.
\<close>

text \<open>
  \<open>dec off len\<close> decodes one item at \<open>off\<close> with \<open>len\<close> bytes left; \<open>upd\<close> is what the body
  of the loop does with it and with the number of bytes it had. The first error ends the loop.
\<close>

partial_function (option) decode_items ::
  "(nat \<Rightarrow> nat \<Rightarrow> ('e + 'a \<times> nat) option) \<Rightarrow> ('a \<Rightarrow> nat \<Rightarrow> 's \<Rightarrow> 's) \<Rightarrow> nat \<Rightarrow> nat \<Rightarrow> 's \<Rightarrow> ('e + 's) option"
  where
  "decode_items dec upd off len s =
     (if len = 0 then Some (Inr s)
      else Option.bind (dec off len) (\<lambda>r.
        case r of
          Inl e \<Rightarrow> Some (Inl e)
        | Inr (x, parsed) \<Rightarrow> decode_items dec upd (off + parsed) (size_sub len parsed) (upd x parsed s)))"

lemma decode_items_0 [simp]: "decode_items dec upd off 0 s = Some (Inr s)"
  by (subst decode_items.simps) simp

lemma decode_items_step:
  "dec off len = Some (Inr (x, k)) \<Longrightarrow> 0 < len \<Longrightarrow> k \<le> len \<Longrightarrow>
   decode_items dec upd off len s = decode_items dec upd (off + k) (len - k) (upd x k s)"
  by (subst decode_items.simps) simp

lemma decode_items_error:
  "dec off len = Some (Inl e) \<Longrightarrow> 0 < len \<Longrightarrow> decode_items dec upd off len s = Some (Inl e)"
  by (subst decode_items.simps) simp

text \<open>
  \<open>wf\<close> are the items the contract speaks about, \<open>bytes\<close> their encoding, \<open>recv\<close> what
  the decoder makes of an item that is followed by the given bytes.
\<close>

locale item_codec =
  fixes bytes :: "'a \<Rightarrow> u8 list"
    and dec :: "u8 list \<Rightarrow> nat \<Rightarrow> nat \<Rightarrow> ('e + 'b \<times> nat) option"
    and wf :: "'a \<Rightarrow> bool"
    and recv :: "'a \<Rightarrow> u8 list \<Rightarrow> 'b"
  assumes dec_bytes: "wf x \<Longrightarrow> length (bytes x) \<le> n \<Longrightarrow> n \<le> length (bytes x @ r) \<Longrightarrow>
      dec (p @ bytes x @ r) (length p) n = Some (Inr (recv x r, length (bytes x)))"
    and dec_progress: "dec data off n = Some (Inr (y, k)) \<Longrightarrow> 0 < k \<and> k \<le> n"
    and dec_inside: "0 < n \<Longrightarrow> off + n \<le> length data \<Longrightarrow> dec data off n \<noteq> None"
begin

fun recv_all :: "'a list \<Rightarrow> u8 list \<Rightarrow> ('b \<times> nat) list" where
  "recv_all [] r = []"
| "recv_all (x # xs) r = (recv x (concat (map bytes xs) @ r), length (bytes x)) # recv_all xs r"

lemma bytes_not_empty: "wf x \<Longrightarrow> bytes x \<noteq> []"
  using dec_bytes [of x "length (bytes x)" "[]" "[]"] dec_progress by fastforce

lemma stream_decodes:
  assumes "\<forall>x \<in> set xs. wf x"
  shows "decode_items (dec (p @ concat (map bytes xs) @ r)) upd (length p) (length (concat (map bytes xs))) s =
     Some (Inr (fold (\<lambda>(x, k). upd x k) (recv_all xs r) s))"
  using assms
proof (induction xs arbitrary: p s)
  case (Cons x xs)
  let ?b = "concat (map bytes xs)"
  have "dec (p @ bytes x @ ?b @ r) (length p) (length (bytes x @ ?b)) =
      Some (Inr (recv x (?b @ r), length (bytes x)))"
    using Cons.prems by (intro dec_bytes) simp_all
  moreover have "bytes x \<noteq> []" using Cons.prems bytes_not_empty by simp
  ultimately have "decode_items (dec (p @ bytes x @ ?b @ r)) upd (length p) (length (bytes x @ ?b)) s =
      decode_items (dec ((p @ bytes x) @ ?b @ r)) upd (length (p @ bytes x)) (length ?b)
        (upd (recv x (?b @ r)) (length (bytes x)) s)"
    by (subst decode_items_step) auto
  also have "\<dots> = Some (Inr (fold (\<lambda>(x, k). upd x k) (recv_all xs r) (upd (recv x (?b @ r)) (length (bytes x)) s)))"
    using Cons.prems by (intro Cons.IH) simp
  finally show ?case by simp
qed simp

text \<open>On any bytes the loop ends without reading outside.\<close>

lemma stream_total:
  "off + n \<le> length data \<Longrightarrow> decode_items (dec data) upd off n s \<noteq> None"
proof (induction n arbitrary: off s rule: less_induct)
  case (less n)
  show ?case
  proof (cases "n = 0")
    case False
    then obtain r where r: "dec data off n = Some r" using dec_inside [of n off data] less.prems by auto
    show ?thesis
    proof (cases r)
      case (Inl e)
      then show ?thesis using r False by (simp add: decode_items_error)
    next
      case (Inr yk)
      obtain y k where yk: "yk = (y, k)" by (cases yk)
      then have k: "0 < k" "k \<le> n" using dec_progress r Inr by auto
      then have "decode_items (dec data) upd (off + k) (n - k) (upd y k s) \<noteq> None"
        using False less.prems by (intro less.IH) auto
      then show ?thesis using r Inr yk k False by (simp add: decode_items_step)
    qed
  qed simp
qed

text \<open>
  A property of the state and of the number of bytes taken that the body of the loop keeps holds, at
  the end, for all the bytes; an error of the loop is the error of an item.
\<close>

lemma stream_invariant:
  assumes "decode_items (dec data) upd off n s = Some (Inr t)" and "P j s" and "j + n = whole"
    and "\<And>off n x k s j. dec data off n = Some (Inr (x, k)) \<Longrightarrow> j + k \<le> whole \<Longrightarrow> P j s \<Longrightarrow> P (j + k) (upd x k s)"
  shows "P whole t"
  using assms(1-3)
proof (induction n arbitrary: off s j rule: less_induct)
  case (less n)
  show ?case
  proof (cases "n = 0")
    case False
    with less.prems(1) obtain r where r: "dec data off n = Some r"
      by (subst (asm) decode_items.simps) (auto simp: bind_eq_Some_conv)
    moreover obtain x k where "r = Inr (x, k)"
      using less.prems(1) False r by (cases r) (auto simp: decode_items_error)
    ultimately have x: "dec data off n = Some (Inr (x, k))" by simp
    then have k: "0 < k" "k \<le> n" using dec_progress by auto
    with x False less.prems(1) have "decode_items (dec data) upd (off + k) (n - k) (upd x k s) = Some (Inr t)"
      by (simp add: decode_items_step)
    moreover have "P (j + k) (upd x k s)" by (rule assms(4) [OF x]) (use less.prems k in simp_all)
    ultimately show ?thesis using less.IH [of "n - k" "off + k" "upd x k s" "j + k"] k less.prems(3) by simp
  qed (use less.prems in simp)
qed

lemma stream_error:
  assumes "decode_items (dec data) upd off n s = Some (Inl e)"
  shows "\<exists>off n. dec data off n = Some (Inl e)"
  using assms
proof (induction n arbitrary: off s rule: less_induct)
  case (less n)
  have "n \<noteq> 0" using less.prems by (cases "n = 0") simp_all
  with less.prems obtain r where r: "dec data off n = Some r"
    by (subst (asm) decode_items.simps) (auto simp: bind_eq_Some_conv)
  show ?case
  proof (cases r)
    case (Inl e')
    then show ?thesis using less.prems r \<open>n \<noteq> 0\<close> by (auto simp: decode_items_error)
  next
    case (Inr xk)
    obtain x k where xk: "xk = (x, k)" by (cases xk)
    then have k: "0 < k" "k \<le> n" using dec_progress r Inr by auto
    then show ?thesis
      using less.IH [of "n - k" "off + k" "upd x k s"] less.prems r Inr xk \<open>n \<noteq> 0\<close> by (simp add: decode_items_step)
  qed
qed

end

end
