(* ===== verification/Obex_Header.thy ===== *)
theory Obex_Header
  imports Obex_Apparam Item_Stream
begin

text \<open>
  The headers of OBEX packets, \<open>gobex/gobex-header.c\<close>: one identifier byte whose upper two bits
  give the encoding, and a value, which is a string, a sequence of bytes or an integer of one or four
  bytes. The conversions between UTF-8 and UTF-16 are GLib's and a parameter (\<open>glib\<close>). An
  assertion of the code that fails ends the program; like undefined behaviour it is the value
  \<^const>\<open>None\<close>. A value that refers to the decoded buffer is the memory from there on.
\<close>

section \<open>State\<close>

datatype GObexDataPolicy = G_OBEX_DATA_INHERIT | G_OBEX_DATA_COPY | G_OBEX_DATA_REF

datatype GObexError = G_OBEX_ERROR_PARSE_ERROR | G_OBEX_ERROR_INVALID_ARGS

text \<open>The union: text without its terminator, an own buffer, a reference, the integers.\<close>

datatype hdr_value = HString "u8 list" | HData "u8 list" | HExt "u8 list" | HU8 u8 | HU32 u32

record GObexHeader =
  h_id :: u8
  h_extdata :: bool
  h_vlen :: nat
  h_hlen :: nat
  h_v :: hdr_value

text \<open>
  GLib: the conversion of UTF-8 text to UTF-16 and of UTF-16BE bytes to UTF-8 (\<^const>\<open>None\<close>
  for text that is not well formed), and the number of characters of a text.
\<close>

record glib =
  g_utf8_to_utf16 :: "u8 list \<Rightarrow> u16 list option"
  g_convert :: "u8 list \<Rightarrow> u8 list option"
  g_utf8_strlen :: "u8 list \<Rightarrow> nat"

abbreviation (input) HDR_ENC_UNICODE :: u8 where "HDR_ENC_UNICODE \<equiv> 0x00"
abbreviation (input) HDR_ENC_BYTES :: u8 where "HDR_ENC_BYTES \<equiv> 0x40"
abbreviation (input) HDR_ENC_UINT8 :: u8 where "HDR_ENC_UINT8 \<equiv> 0x80"
abbreviation (input) HDR_ENC_UINT32 :: u8 where "HDR_ENC_UINT32 \<equiv> 0xC0"

definition G_OBEX_HDR_ENC :: "u8 \<Rightarrow> u8" where
  "G_OBEX_HDR_ENC i = i AND 0xC0"

definition G_OBEX_HDR_INVALID :: u8 where "G_OBEX_HDR_INVALID = 0x00"
definition G_OBEX_HDR_BODY :: u8 where "G_OBEX_HDR_BODY = 0x48"
definition G_OBEX_HDR_BODY_END :: u8 where "G_OBEX_HDR_BODY_END = 0x49"
definition G_OBEX_HDR_APPARAM :: u8 where "G_OBEX_HDR_APPARAM = 0x4C"

text \<open>Reading a member of the union that was not stored is not defined.\<close>

fun the_string :: "hdr_value \<Rightarrow> u8 list option" where
  "the_string (HString s) = Some (takeWhile (\<lambda>c. c \<noteq> 0) s)"
| "the_string _ = None"

fun the_data :: "bool \<Rightarrow> hdr_value \<Rightarrow> u8 list option" where
  "the_data False (HData d) = Some d"
| "the_data True (HExt d) = Some d"
| "the_data _ _ = None"

fun the_u8 :: "hdr_value \<Rightarrow> u8 option" where
  "the_u8 (HU8 x) = Some x"
| "the_u8 _ = None"

fun the_u32 :: "hdr_value \<Rightarrow> u32 option" where
  "the_u32 (HU32 x) = Some x"
| "the_u32 _ = None"

section \<open>Encoder\<close>

text \<open>
  The bytes of the words in network byte order, with the terminator GLib appends, and their number;
  no bytes at all for the empty text.
\<close>

definition utf8_to_utf16 :: "glib \<Rightarrow> u8 list \<Rightarrow> u8 list \<times> int" where
  "utf8_to_utf16 G s =
     (if s = [] then ([], 0)
      else case g_utf8_to_utf16 G s of
        None \<Rightarrow> ([], -1)
      | Some w \<Rightarrow> (concat (map be16_bytes w) @ [0, 0], (int (length w) + 1) * 2))"

definition g_obex_header_encode :: "glib \<Rightarrow> GObexHeader \<Rightarrow> u8 list \<Rightarrow> nat \<Rightarrow> nat \<Rightarrow> (int \<times> u8 list) option" where
  "g_obex_header_encode G header buf off buf_len =
     (if buf_len < h_hlen header then Some (-1, buf)
      else do {
        buf \<leftarrow> buf_write buf off [h_id header];
        if G_OBEX_HDR_ENC (h_id header) = HDR_ENC_UNICODE then do {
          s \<leftarrow> the_string (h_v header);
          let (utf16, utf16_len) = utf8_to_utf16 G s;
          if utf16_len < 0 \<or> int buf_len < uint (word_of_int utf16_len :: u16) then Some (-1, buf)
          else if utf16_len + 3 \<noteq> int (h_hlen header) then None
          else do {
            buf \<leftarrow> buf_write buf (off + 1) (be16_bytes (word_of_int (utf16_len + 3)));
            buf \<leftarrow> buf_write buf (off + 3) utf16;
            Some (int (h_hlen header), buf) } }
        else if G_OBEX_HDR_ENC (h_id header) = HDR_ENC_BYTES then do {
          buf \<leftarrow> buf_write buf (off + 1) (be16_bytes (of_nat (h_hlen header)));
          d \<leftarrow> the_data (h_extdata header) (h_v header);
          d \<leftarrow> buf_read d 0 (h_vlen header);
          buf \<leftarrow> buf_write buf (off + 3) d;
          Some (int (h_hlen header), buf) }
        else if G_OBEX_HDR_ENC (h_id header) = HDR_ENC_UINT8 then do {
          x \<leftarrow> the_u8 (h_v header);
          buf \<leftarrow> buf_write buf (off + 1) [x];
          Some (int (h_hlen header), buf) }
        else do {
          x \<leftarrow> the_u32 (h_v header);
          buf \<leftarrow> buf_write buf (off + 1) (be32_bytes x);
          Some (int (h_hlen header), buf) } })"

section \<open>Decoder\<close>

text \<open>
  \<open>err\<close> tells whether the caller wants the error. Past the test of the shortest header, the code
  reads through the pointer without a test, so that an error is not defined for a caller that does not.
\<close>

definition hdr_failed :: "bool \<Rightarrow> GObexError \<Rightarrow> (GObexError option + 'a) option" where
  "hdr_failed err e = (if err then Some (Inl (Some e)) else None)"

definition g_obex_header_decode ::
  "glib \<Rightarrow> u8 list \<Rightarrow> nat \<Rightarrow> nat \<Rightarrow> GObexDataPolicy \<Rightarrow> bool \<Rightarrow> (GObexError option + GObexHeader \<times> nat) option" where
  "g_obex_header_decode G data off len policy err =
     (if len < 2 then Some (Inl (if err then Some G_OBEX_ERROR_PARSE_ERROR else None))
      else do {
        i \<leftarrow> buf_get data off;
        if G_OBEX_HDR_ENC i = HDR_ENC_UNICODE then
          (if len < 3 then hdr_failed err G_OBEX_ERROR_PARSE_ERROR
           else do {
             a \<leftarrow> buf_get data (off + 1); b \<leftarrow> buf_get data (off + 2);
             let hdr_len = unat (be16_val a b);
             if hdr_len = 3 then
               Some (Inr (\<lparr>h_id = i, h_extdata = False, h_vlen = 0, h_hlen = 3, h_v = HString []\<rparr>, 3))
             else if len < hdr_len \<or> hdr_len < 5 then hdr_failed err G_OBEX_ERROR_PARSE_ERROR
             else do {
               d \<leftarrow> buf_read data (off + 3) (hdr_len - 5);
               case g_convert G d of
                 None \<Rightarrow> hdr_failed err G_OBEX_ERROR_PARSE_ERROR
               | Some s \<Rightarrow>
                   Some (Inr (\<lparr>h_id = i, h_extdata = False, h_vlen = length s, h_hlen = hdr_len,
                               h_v = HString s\<rparr>, hdr_len)) } })
        else if G_OBEX_HDR_ENC i = HDR_ENC_BYTES then
          (if len < 3 then hdr_failed err G_OBEX_ERROR_PARSE_ERROR
           else do {
             a \<leftarrow> buf_get data (off + 1); b \<leftarrow> buf_get data (off + 2);
             let hdr_len = unat (be16_val a b);
             if len < hdr_len then hdr_failed err G_OBEX_ERROR_PARSE_ERROR
             else if hdr_len < 3 then hdr_failed err G_OBEX_ERROR_PARSE_ERROR
             else (case policy of
                 G_OBEX_DATA_COPY \<Rightarrow> do {
                   d \<leftarrow> buf_read data (off + 3) (hdr_len - 3);
                   Some (Inr (\<lparr>h_id = i, h_extdata = False, h_vlen = hdr_len - 3, h_hlen = hdr_len,
                               h_v = HData d\<rparr>, hdr_len)) }
               | G_OBEX_DATA_REF \<Rightarrow>
                   Some (Inr (\<lparr>h_id = i, h_extdata = True, h_vlen = hdr_len - 3, h_hlen = hdr_len,
                               h_v = HExt (drop (off + 3) data)\<rparr>, hdr_len))
               | G_OBEX_DATA_INHERIT \<Rightarrow> hdr_failed err G_OBEX_ERROR_INVALID_ARGS) })
        else if G_OBEX_HDR_ENC i = HDR_ENC_UINT8 then do {
          x \<leftarrow> buf_get data (off + 1);
          Some (Inr (\<lparr>h_id = i, h_extdata = False, h_vlen = 1, h_hlen = 2, h_v = HU8 x\<rparr>, 2)) }
        else if len < 5 then hdr_failed err G_OBEX_ERROR_PARSE_ERROR
        else do {
          x \<leftarrow> get_be32 data (off + 1);
          Some (Inr (\<lparr>h_id = i, h_extdata = False, h_vlen = 4, h_hlen = 5, h_v = HU32 x\<rparr>, 5)) } })"

section \<open>Accessors and constructors\<close>

text \<open>The inner \<^const>\<open>None\<close> is the result \<open>FALSE\<close> or a NULL pointer.\<close>

definition g_obex_header_get_unicode :: "GObexHeader \<Rightarrow> u8 list option option" where
  "g_obex_header_get_unicode header =
     (if G_OBEX_HDR_ENC (h_id header) \<noteq> HDR_ENC_UNICODE then Some None
      else map_option Some (the_string (h_v header)))"

definition g_obex_header_get_bytes :: "GObexHeader \<Rightarrow> (u8 list \<times> nat) option option" where
  "g_obex_header_get_bytes header =
     (if G_OBEX_HDR_ENC (h_id header) \<noteq> HDR_ENC_BYTES then Some None
      else map_option (\<lambda>d. Some (d, h_vlen header)) (the_data (h_extdata header) (h_v header)))"

definition g_obex_header_get_apparam :: "GObexHeader \<Rightarrow> GObexApparam option option" where
  "g_obex_header_get_apparam header = do {
     r \<leftarrow> g_obex_header_get_bytes header;
     case r of None \<Rightarrow> Some None | Some (val, len) \<Rightarrow> g_obex_apparam_decode val len }"

definition g_obex_header_get_uint8 :: "GObexHeader \<Rightarrow> u8 option option" where
  "g_obex_header_get_uint8 header =
     (if G_OBEX_HDR_ENC (h_id header) \<noteq> HDR_ENC_UINT8 then Some None
      else map_option Some (the_u8 (h_v header)))"

definition g_obex_header_get_uint32 :: "GObexHeader \<Rightarrow> u32 option option" where
  "g_obex_header_get_uint32 header =
     (if G_OBEX_HDR_ENC (h_id header) \<noteq> HDR_ENC_UINT32 then Some None
      else map_option Some (the_u32 (h_v header)))"

definition g_obex_header_new_unicode :: "glib \<Rightarrow> u8 \<Rightarrow> u8 list \<Rightarrow> GObexHeader option" where
  "g_obex_header_new_unicode G i str =
     (if G_OBEX_HDR_ENC i \<noteq> HDR_ENC_UNICODE then None
      else let s = takeWhile (\<lambda>c. c \<noteq> 0) str; len = g_utf8_strlen G s
        in Some \<lparr>h_id = i, h_extdata = False, h_vlen = len,
                 h_hlen = (if len = 0 then 3 else 3 + (len + 1) * 2), h_v = HString s\<rparr>)"

text \<open>\<open>g_memdup\<close> takes the length in 32 bits.\<close>

definition g_obex_header_new_bytes :: "u8 \<Rightarrow> u8 list \<Rightarrow> nat \<Rightarrow> GObexHeader option option" where
  "g_obex_header_new_bytes i data len =
     (if G_OBEX_HDR_ENC i \<noteq> HDR_ENC_BYTES then Some None
      else do {
        d \<leftarrow> buf_read data 0 (len mod 2 ^ 32);
        Some (Some \<lparr>h_id = i, h_extdata = False, h_vlen = len, h_hlen = size_add len 3, h_v = HData d\<rparr>) })"

text \<open>
  The local buffer of 1024 bytes starts with arbitrary contents, the first argument; \<open>order\<close> is
  the iteration order of the table.
\<close>

definition g_obex_header_new_tag :: "u8 list \<Rightarrow> u8 list \<Rightarrow> u8 \<Rightarrow> GObexApparam option \<Rightarrow> GObexHeader option option" where
  "g_obex_header_new_tag stack order i apparam = do {
     (len, buf) \<leftarrow> g_obex_apparam_encode order apparam stack 1024;
     if len < 0 then Some None else g_obex_header_new_bytes i buf (nat len) }"

definition g_obex_header_new_apparam :: "u8 list \<Rightarrow> u8 list \<Rightarrow> GObexApparam option \<Rightarrow> GObexHeader option option" where
  "g_obex_header_new_apparam stack order apparam = g_obex_header_new_tag stack order G_OBEX_HDR_APPARAM apparam"

definition g_obex_header_new_uint8 :: "u8 \<Rightarrow> u8 \<Rightarrow> GObexHeader option" where
  "g_obex_header_new_uint8 i val =
     (if G_OBEX_HDR_ENC i \<noteq> HDR_ENC_UINT8 then None
      else Some \<lparr>h_id = i, h_extdata = False, h_vlen = 1, h_hlen = 2, h_v = HU8 val\<rparr>)"

definition g_obex_header_new_uint32 :: "u8 \<Rightarrow> u32 \<Rightarrow> GObexHeader option" where
  "g_obex_header_new_uint32 i val =
     (if G_OBEX_HDR_ENC i \<noteq> HDR_ENC_UINT32 then None
      else Some \<lparr>h_id = i, h_extdata = False, h_vlen = 4, h_hlen = 5, h_v = HU32 val\<rparr>)"

definition g_obex_header_get_id :: "GObexHeader \<Rightarrow> u8" where
  "g_obex_header_get_id header = h_id header"

definition g_obex_header_get_length :: "GObexHeader \<Rightarrow> u16" where
  "g_obex_header_get_length header = of_nat (h_hlen header)"

text \<open>
  The variable arguments of \<open>g_obex_header_create_list\<close>; taking one as another type is not
  defined, nor is taking one too many.
\<close>

datatype va = VString "u8 list" | VMemory "u8 list" | VSize nat | VInt u32

function create_list ::
  "glib \<Rightarrow> u32 \<Rightarrow> va list \<Rightarrow> GObexHeader list \<Rightarrow> nat \<Rightarrow> (GObexHeader list \<times> nat) option" where
  "create_list G i args l total_len =
     (if i = 0 then Some (l, total_len)
      else if G_OBEX_HDR_ENC (ucast i) = HDR_ENC_UNICODE then
        (case args of
           VString str # VInt next # args \<Rightarrow> do {
             hdr \<leftarrow> g_obex_header_new_unicode G (ucast i) str;
             create_list G next args (l @ [hdr]) (size_add total_len (h_hlen hdr)) }
         | _ \<Rightarrow> None)
      else if G_OBEX_HDR_ENC (ucast i) = HDR_ENC_BYTES then
        (case args of
           VMemory bytes # VSize len # VInt next # args \<Rightarrow> do {
             h \<leftarrow> g_obex_header_new_bytes (ucast i) bytes len;
             hdr \<leftarrow> h;
             create_list G next args (l @ [hdr]) (size_add total_len (h_hlen hdr)) }
         | _ \<Rightarrow> None)
      else if G_OBEX_HDR_ENC (ucast i) = HDR_ENC_UINT8 then
        (case args of
           VInt val # VInt next # args \<Rightarrow> do {
             hdr \<leftarrow> g_obex_header_new_uint8 (ucast i) (ucast val);
             create_list G next args (l @ [hdr]) (size_add total_len (h_hlen hdr)) }
         | _ \<Rightarrow> None)
      else
        (case args of
           VInt val # VInt next # args \<Rightarrow> do {
             hdr \<leftarrow> g_obex_header_new_uint32 (ucast i) val;
             create_list G next args (l @ [hdr]) (size_add total_len (h_hlen hdr)) }
         | _ \<Rightarrow> None))"
  by pat_completeness auto
termination
  by (relation "measure (\<lambda>(G, i, args, l, total_len). length args)") auto

declare create_list.simps [simp del]

definition g_obex_header_create_list :: "glib \<Rightarrow> u32 \<Rightarrow> va list \<Rightarrow> (GObexHeader list \<times> nat) option" where
  "g_obex_header_create_list G first_hdr_id args = create_list G first_hdr_id args [] 0"

section \<open>Headers on the wire\<close>

text \<open>What the encoder writes for a header that the code can hold and the wire can carry.\<close>

fun value_bytes :: "glib \<Rightarrow> nat \<Rightarrow> hdr_value \<Rightarrow> u8 list" where
  "value_bytes G n (HString s) = be16_bytes (of_nat (n + 3)) @ fst (utf8_to_utf16 G s)"
| "value_bytes G n (HData d) = be16_bytes (of_nat (n + 3)) @ take n d"
| "value_bytes G n (HExt d) = be16_bytes (of_nat (n + 3)) @ take n d"
| "value_bytes G n (HU8 x) = [x]"
| "value_bytes G n (HU32 x) = be32_bytes x"

definition hdr_bytes :: "glib \<Rightarrow> GObexHeader \<Rightarrow> u8 list" where
  "hdr_bytes G h = h_id h # value_bytes G (h_hlen h - 3) (h_v h)"

text \<open>
  The text of a header has no zero byte, GLib converts it to UTF-16 and back, and the length is that of
  the UTF-16 form.
\<close>

definition text_wf :: "glib \<Rightarrow> u8 list \<Rightarrow> nat \<Rightarrow> bool" where
  "text_wf G s n \<longleftrightarrow> 0 \<notin> set s \<and>
     (if s = [] then n = 3
      else case g_utf8_to_utf16 G s of
        None \<Rightarrow> False
      | Some w \<Rightarrow> n = 5 + 2 * length w \<and> g_convert G (concat (map be16_bytes w)) = Some s)"

definition hdr_wf :: "glib \<Rightarrow> GObexHeader \<Rightarrow> bool" where
  "hdr_wf G h \<longleftrightarrow> h_hlen h < 2 ^ 16 \<and>
     (case h_v h of
        HString s \<Rightarrow> G_OBEX_HDR_ENC (h_id h) = HDR_ENC_UNICODE \<and> text_wf G s (h_hlen h)
      | HData d \<Rightarrow> G_OBEX_HDR_ENC (h_id h) = HDR_ENC_BYTES \<and> \<not> h_extdata h \<and>
          h_vlen h \<le> length d \<and> h_hlen h = h_vlen h + 3
      | HExt d \<Rightarrow> G_OBEX_HDR_ENC (h_id h) = HDR_ENC_BYTES \<and> h_extdata h \<and>
          h_vlen h \<le> length d \<and> h_hlen h = h_vlen h + 3
      | HU8 x \<Rightarrow> G_OBEX_HDR_ENC (h_id h) = HDR_ENC_UINT8 \<and> h_hlen h = 2
      | HU32 x \<Rightarrow> G_OBEX_HDR_ENC (h_id h) = HDR_ENC_UINT32 \<and> h_hlen h = 5)"

text \<open>What the decoder makes of it when the bytes \<open>r\<close> follow.\<close>

definition hdr_received :: "GObexDataPolicy \<Rightarrow> GObexHeader \<Rightarrow> u8 list \<Rightarrow> GObexHeader" where
  "hdr_received policy h r =
     (let n = h_hlen h - 3;
          mk = (\<lambda>x n v. \<lparr>h_id = h_id h, h_extdata = x, h_vlen = n, h_hlen = h_hlen h, h_v = v\<rparr>);
          bytes = (\<lambda>d. if policy = G_OBEX_DATA_REF then mk True n (HExt (take n d @ r))
                       else mk False n (HData (take n d)))
      in case h_v h of
           HString s \<Rightarrow> mk False (length s) (HString s)
         | HData d \<Rightarrow> bytes d
         | HExt d \<Rightarrow> bytes d
         | HU8 x \<Rightarrow> mk False 1 (HU8 x)
         | HU32 x \<Rightarrow> mk False 4 (HU32 x))"

lemma concat_be16_length: "length (concat (map be16_bytes w)) = 2 * length w"
  by (induction w) simp_all

lemma no_zero_takeWhile: "0 \<notin> set s \<Longrightarrow> takeWhile (\<lambda>c. c \<noteq> 0) s = s"
  by (auto simp: takeWhile_eq_all_conv)

lemma text_wf_utf16:
  assumes "text_wf G s n" and "n < 2 ^ 16"
  shows "utf8_to_utf16 G s = (fst (utf8_to_utf16 G s), int n - 3)"
    and "length (fst (utf8_to_utf16 G s)) = n - 3" and "3 \<le> n"
  using assms
  by (auto simp: text_wf_def utf8_to_utf16_def concat_be16_length split: option.splits if_splits)

lemma hdr_bytes_length:
  assumes "hdr_wf G h"
  shows "length (hdr_bytes G h) = h_hlen h"
proof (cases "h_v h")
  case (HString s)
  then show ?thesis using assms text_wf_utf16 [of G s "h_hlen h"] by (simp add: hdr_wf_def hdr_bytes_def)
qed (use assms in \<open>auto simp: hdr_wf_def hdr_bytes_def\<close>)

lemma buf_write_append2:
  "off = length p + length a \<Longrightarrow> length s \<le> length r \<Longrightarrow>
   buf_write (p @ a @ r) off s = Some (p @ a @ s @ drop (length s) r)"
  using buf_write_append [of off "p @ a" s r] by simp

lemma buf_write_append3:
  "off = length p + length a + length b \<Longrightarrow> length s \<le> length r \<Longrightarrow>
   buf_write (p @ a @ b @ r) off s = Some (p @ a @ b @ s @ drop (length s) r)"
  using buf_write_append [of off "p @ a @ b" s r] by simp

lemma hdr_encode:
  assumes "hdr_wf G h" and "h_hlen h \<le> n" and "n \<le> length r"
  shows "g_obex_header_encode G h (p @ r) (length p) n =
     Some (int (h_hlen h), p @ hdr_bytes G h @ drop (h_hlen h) r)"
proof -
  let ?b = "p @ h_id h # drop (Suc 0) r"
  have first: "buf_write (p @ r) (length p) [h_id h] = Some ?b" if "1 \<le> h_hlen h"
    using that assms(2,3) by (subst buf_write_append) simp_all
  have wr: "buf_write ?b (Suc (length p)) s = Some (p @ h_id h # s @ drop (length s) (drop (Suc 0) r))"
    if "length s < h_hlen h" for s
    using that assms(2,3) buf_write_append2 [of "Suc (length p)" p "[h_id h]" s "drop (Suc 0) r"] by simp
  have wr2: "buf_write (p @ h_id h # a @ r') (length p + 3) s = Some (p @ h_id h # a @ s @ drop (length s) r')"
    if "length a = 2" "length s \<le> length r'" for a s r'
    using that buf_write_append3 [of "length p + 3" p "[h_id h]" a s r'] by simp
  have n3: "Suc (Suc (Suc m)) = m + 3" for m by simp
  show ?thesis
  proof (cases "h_v h")
    case (HString s)
    then have wf: "text_wf G s (h_hlen h)" "h_hlen h < 2 ^ 16" "G_OBEX_HDR_ENC (h_id h) = HDR_ENC_UNICODE"
      using assms(1) by (simp_all add: hdr_wf_def)
    obtain b where u: "utf8_to_utf16 G s = (b, int (h_hlen h) - 3)" "length b = h_hlen h - 3" "3 \<le> h_hlen h"
      using text_wf_utf16 [OF wf(1,2)] by (metis fst_conv)
    have z: "takeWhile (\<lambda>c. c \<noteq> 0) s = s" using wf(1) by (simp add: text_wf_def no_zero_takeWhile)
    have "uint (word_of_int (int (h_hlen h) - 3) :: u16) = int (h_hlen h) - 3"
      using u(3) wf(2) by (simp only: uint_word_of_int) simp
    then have ok: "\<not> (int (h_hlen h) - 3 < 0 \<or> int n < uint (word_of_int (int (h_hlen h) - 3) :: u16))"
      using u(3) assms(2) by simp
    have w: "word_of_int (int (h_hlen h) - 3 + 3) = (of_nat (h_hlen h) :: u16)" by simp
    have m3: "h_hlen h - 3 + 3 = h_hlen h" using u(3) by simp
    show ?thesis using assms(2,3) u wf ok
      by (simp add: g_obex_header_encode_def HString first wr wr2 z w hdr_bytes_def n3 m3)
  next
    case (HData d)
    then have wf: "h_hlen h = h_vlen h + 3" "\<not> h_extdata h" "h_vlen h \<le> length d"
        "G_OBEX_HDR_ENC (h_id h) = HDR_ENC_BYTES"
      using assms(1) by (simp_all add: hdr_wf_def)
    then show ?thesis using assms(2,3)
      by (simp add: g_obex_header_encode_def HData first wr wr2 buf_read_0 hdr_bytes_def n3)
  next
    case (HExt d)
    then have wf: "h_hlen h = h_vlen h + 3" "h_extdata h" "h_vlen h \<le> length d"
        "G_OBEX_HDR_ENC (h_id h) = HDR_ENC_BYTES"
      using assms(1) by (simp_all add: hdr_wf_def)
    then show ?thesis using assms(2,3)
      by (simp add: g_obex_header_encode_def HExt first wr wr2 buf_read_0 hdr_bytes_def n3)
  next
    case (HU8 x)
    moreover have "drop (Suc (Suc 0)) r = drop 2 r" by (simp only: numeral_2_eq_2)
    ultimately show ?thesis using assms wr [of "[x]"]
      by (simp add: g_obex_header_encode_def hdr_wf_def first hdr_bytes_def)
  next
    case (HU32 x)
    then show ?thesis using assms wr [of "be32_bytes x"]
      by (simp add: g_obex_header_encode_def hdr_wf_def first hdr_bytes_def)
  qed
qed

section \<open>Decoding what was encoded\<close>

lemma buf_get_append2: "i = length p + length a \<Longrightarrow> buf_get (p @ a @ x # r) i = Some x"
  by (simp add: buf_get_def nth_append)

lemma buf_read_append2:
  "off = length p + length a \<Longrightarrow> n = length s \<Longrightarrow> buf_read (p @ a @ s @ r) off n = Some s"
  by (simp add: buf_read_def)

lemma hdr_decode:
  assumes "hdr_wf G h" and "policy \<noteq> G_OBEX_DATA_INHERIT"
    and "h_hlen h \<le> n" and "n \<le> length (hdr_bytes G h @ r)"
  shows "g_obex_header_decode G (p @ hdr_bytes G h @ r) (length p) n policy err =
     Some (Inr (hdr_received policy h r, h_hlen h))"
proof -
  have small: "h_hlen h < 2 ^ 16" using assms(1) by (simp add: hdr_wf_def)
  have id: "buf_get (p @ h_id h # x) (length p) = Some (h_id h)" for x by (simp add: buf_get_def)
  have b1: "buf_get (p @ h_id h # x # y) (Suc (length p)) = Some x" for x y
    using buf_get_append2 [of "Suc (length p)" p "[h_id h]"] by simp
  have b2: "buf_get (p @ h_id h # z # x # y) (Suc (Suc (length p))) = Some x" for x y z
    using buf_get_append2 [of "Suc (Suc (length p))" p "[h_id h, z]"] by simp
  have rest: "buf_read (p @ h_id h # y # z # s @ r') (length p + 3) m = Some s" if "m = length s" for y z s r' m
    using that buf_read_append2 [of "length p + 3" p "[h_id h, y, z]" m s r'] by simp
  obtain x y where xy: "be16_bytes (of_nat (h_hlen h)) = [x, y]" "unat (be16_val x y) = h_hlen h"
    using small by (simp add: be16_bytes_def unat_of_nat_small)
  have bytes: ?thesis if d: "h_v h = HData d \<or> h_v h = HExt d" for d
  proof -
    have wf: "h_hlen h = h_vlen h + 3" "h_vlen h \<le> length d" "G_OBEX_HDR_ENC (h_id h) = HDR_ENC_BYTES"
      using assms(1) d by (auto simp: hdr_wf_def)
    have r: "hdr_received pol h r =
        \<lparr>h_id = h_id h, h_extdata = (pol = G_OBEX_DATA_REF), h_vlen = h_vlen h, h_hlen = h_hlen h,
         h_v = (if pol = G_OBEX_DATA_REF then HExt (take (h_vlen h) d @ r) else HData (take (h_vlen h) d))\<rparr>"
      for pol using d wf(1) by (auto simp: hdr_received_def Let_def)
    have b: "hdr_bytes G h = h_id h # x # y # take (h_vlen h) d" using d wf(1) xy(1) by (auto simp: hdr_bytes_def)
    show ?thesis using assms(2-4) wf xy(2)
      by (cases policy) (simp_all add: g_obex_header_decode_def b r id b1 b2 rest Let_def)
  qed
  show ?thesis
  proof (cases "h_v h")
    case (HString s)
    then have wf: "text_wf G s (h_hlen h)" "G_OBEX_HDR_ENC (h_id h) = HDR_ENC_UNICODE"
      using assms(1) by (simp_all add: hdr_wf_def)
    have l3: "3 \<le> h_hlen h" using text_wf_utf16(3) [OF wf(1) small] .
    then have b: "hdr_bytes G h = h_id h # x # y # fst (utf8_to_utf16 G s)"
      using xy(1) by (simp add: hdr_bytes_def HString)
    show ?thesis
    proof (cases "s = []")
      case True
      then have "h_hlen h = 3" using wf(1) by (simp add: text_wf_def)
      then show ?thesis using assms(3) wf(2) HString True xy(2)
        by (simp add: g_obex_header_decode_def b id b1 b2 hdr_received_def)
    next
      case False
      then obtain w where w: "g_utf8_to_utf16 G s = Some w" "h_hlen h = 5 + 2 * length w"
          "g_convert G (concat (map be16_bytes w)) = Some s"
        using wf(1) by (auto simp: text_wf_def split: option.splits)
      have "fst (utf8_to_utf16 G s) = concat (map be16_bytes w) @ [0, 0]"
        using False w(1) by (simp add: utf8_to_utf16_def)
      then show ?thesis using assms(3) wf(2) HString w xy(2)
        by (simp add: g_obex_header_decode_def b id b1 b2 rest hdr_received_def concat_be16_length Let_def)
    qed
  next
    case (HU8 v)
    then show ?thesis using assms(1,3)
      by (simp add: g_obex_header_decode_def hdr_wf_def hdr_bytes_def id b1 hdr_received_def)
  next
    case (HU32 v)
    have "get_be32 (p @ h_id h # be32_bytes v @ r) (Suc (length p)) = Some v"
      using get_be32_bytes [of "Suc (length p)" "p @ [h_id h]" v r] by simp
    then show ?thesis using assms(1,3) HU32
      by (simp add: g_obex_header_decode_def hdr_wf_def hdr_bytes_def id hdr_received_def)
  qed (use bytes in auto)
qed

lemma hdr_decode_progress:
  assumes "g_obex_header_decode G data off n policy err = Some (Inr (h, k))"
  shows "2 \<le> k \<and> k \<le> n \<and> h_hlen h = k"
  using assms
  by (auto simp: g_obex_header_decode_def hdr_failed_def bind_eq_Some_conv Let_def
      split: if_splits option.splits GObexDataPolicy.splits)

lemma hdr_decode_error:
  "g_obex_header_decode G data off n policy True = Some (Inl e) \<Longrightarrow> e \<noteq> None"
  by (auto simp: g_obex_header_decode_def hdr_failed_def bind_eq_Some_conv Let_def
      split: if_splits option.splits GObexDataPolicy.splits)

lemma get_be32_inside: "off + 4 \<le> length data \<Longrightarrow> get_be32 data off \<noteq> None"
  by (simp add: get_be32_def buf_get_def)

lemma hdr_decode_inside:
  assumes "0 < n" and "off + n \<le> length data"
  shows "g_obex_header_decode G data off n policy True \<noteq> None"
proof (cases "n < 2")
  case False
  then have get: "buf_get data (off + i) = Some (data ! (off + i))" if "i < n" for i
    using that assms(2) by (simp add: buf_get_def)
  have rd: "buf_read data (off + 3) m = Some (take m (drop (off + 3) data))" if "3 + m \<le> n" for m
    using that assms(2) by (simp add: buf_read_def)
  have be: "\<exists>x. get_be32 data (Suc off) = Some x" if "5 \<le> n"
    using that assms(2) get_be32_inside [of "off + 1" data] by auto
  show ?thesis
  proof (cases "n < 5")
    case True
    then show ?thesis using False get [of 0] get [of 1] get [of 2]
      by (auto simp: g_obex_header_decode_def hdr_failed_def rd Let_def not_less
          split: option.split GObexDataPolicy.split)
  next
    case n5: False
    then obtain x where "get_be32 data (Suc off) = Some x" using be by auto
    then show ?thesis using n5 get [of 0] get [of 1] get [of 2]
      by (auto simp: g_obex_header_decode_def hdr_failed_def rd Let_def not_less
          split: option.split GObexDataPolicy.split)
  qed
qed (simp add: g_obex_header_decode_def)

interpretation obex_headers: item_codec "hdr_bytes G" "\<lambda>d off n. g_obex_header_decode G d off n policy True"
  "\<lambda>h. hdr_wf G h \<and> policy \<noteq> G_OBEX_DATA_INHERIT" "hdr_received policy" for G policy
proof unfold_locales
  fix h n r p
  assume "hdr_wf G h \<and> policy \<noteq> G_OBEX_DATA_INHERIT" and "length (hdr_bytes G h) \<le> n"
    and "n \<le> length (hdr_bytes G h @ r)"
  then show "g_obex_header_decode G (p @ hdr_bytes G h @ r) (length p) n policy True =
      Some (Inr (hdr_received policy h r, length (hdr_bytes G h)))"
    using hdr_decode [of G h policy n r p True] hdr_bytes_length [of G h] by simp
next
  fix data :: "u8 list" and off n y k
  assume "g_obex_header_decode G data off n policy True = Some (Inr (y, k))"
  from hdr_decode_progress [OF this] show "0 < k \<and> k \<le> n" by simp
next
  fix n off and data :: "u8 list"
  assume "(0 :: nat) < n" and "off + n \<le> length data"
  then show "g_obex_header_decode G data off n policy True \<noteq> None" by (rule hdr_decode_inside)
qed

section \<open>Constructed headers\<close>

lemma new_uint8_wf: "g_obex_header_new_uint8 i x = Some h \<Longrightarrow> hdr_wf G h \<and> h_hlen h = 2 \<and> h_v h = HU8 x"
  by (auto simp: g_obex_header_new_uint8_def hdr_wf_def split: if_splits)

lemma new_uint32_wf: "g_obex_header_new_uint32 i x = Some h \<Longrightarrow> hdr_wf G h \<and> h_hlen h = 5 \<and> h_v h = HU32 x"
  by (auto simp: g_obex_header_new_uint32_def hdr_wf_def split: if_splits)

lemma new_bytes_wf:
  assumes "g_obex_header_new_bytes i d len = Some (Some h)" and "len + 3 < 2 ^ 16"
  shows "hdr_wf G h \<and> h_hlen h = len + 3 \<and> h_v h = HData (take len d) \<and> len \<le> length d"
  using assms
  by (auto simp: g_obex_header_new_bytes_def hdr_wf_def buf_read_def bind_eq_Some_conv split: if_splits)

lemma new_unicode_wf:
  assumes "g_obex_header_new_unicode G i str = Some h" and "0 \<notin> set str" and "str \<noteq> []"
    and "g_utf8_to_utf16 G str = Some w" and "g_convert G (concat (map be16_bytes w)) = Some str"
    and "g_utf8_strlen G str = length w" and "w \<noteq> []" and "length w < 2 ^ 15 - 3"
  shows "hdr_wf G h \<and> h_hlen h = 5 + 2 * length w \<and> h_v h = HString str"
  using assms
  by (auto simp: g_obex_header_new_unicode_def hdr_wf_def text_wf_def no_zero_takeWhile Let_def split: if_splits)

text \<open>A header encoded in a buffer and decoded from there.\<close>

definition exchange :: "glib \<Rightarrow> GObexDataPolicy \<Rightarrow> GObexHeader \<Rightarrow> u8 list \<Rightarrow> GObexHeader option" where
  "exchange G policy h buf =
     (case g_obex_header_encode G h buf 0 (length buf) of
        None \<Rightarrow> None
      | Some (n, b) \<Rightarrow>
          (case g_obex_header_decode G b 0 (length b) policy True of
             Some (Inr (h', k)) \<Rightarrow> if int k = n then Some h' else None
           | _ \<Rightarrow> None))"

lemma exchange_wf:
  assumes "hdr_wf G h" and "policy \<noteq> G_OBEX_DATA_INHERIT" and "h_hlen h \<le> length buf"
  shows "exchange G policy h buf = Some (hdr_received policy h (drop (h_hlen h) buf))"
proof -
  have "g_obex_header_encode G h buf 0 (length buf) =
      Some (int (h_hlen h), hdr_bytes G h @ drop (h_hlen h) buf)"
    using hdr_encode [OF assms(1,3) le_refl, of "[]"] by simp
  moreover have "g_obex_header_decode G (hdr_bytes G h @ drop (h_hlen h) buf) 0
      (length (hdr_bytes G h @ drop (h_hlen h) buf)) policy True =
      Some (Inr (hdr_received policy h (drop (h_hlen h) buf), h_hlen h))"
    using hdr_decode [OF assms(1,2), of "length (hdr_bytes G h @ drop (h_hlen h) buf)" "drop (h_hlen h) buf" "[]" True]
      hdr_bytes_length [OF assms(1)] by simp
  ultimately show ?thesis by (simp add: exchange_def)
qed

section \<open>Properties\<close>

text \<open>A GLib that knows seven bit text only, for the instances below.\<close>

fun ascii_of :: "u8 list \<Rightarrow> u8 list option" where
  "ascii_of [] = Some []"
| "ascii_of (a # b # r) = (if a = 0 then map_option ((#) b) (ascii_of r) else None)"
| "ascii_of [a] = None"

definition ascii_glib :: glib where
  "ascii_glib = \<lparr>g_utf8_to_utf16 = (\<lambda>s. if list_all (\<lambda>c. c < 128) s then Some (map ucast s) else None),
     g_convert = ascii_of, g_utf8_strlen = length\<rparr>"

text \<open>
  C32: A header that the wire can carry is encoded in exactly its length, with the rest of the buffer left
  alone, and decoded from there, under both policies that are allowed and whatever follows, to a
  header of the same identifier, length and value.
\<close>

theorem obex_header_roundtrip:
  assumes "hdr_wf G h" and "policy \<noteq> G_OBEX_DATA_INHERIT" and "h_hlen h \<le> n" and "n \<le> length r"
  shows "\<exists>b. g_obex_header_encode G h (p @ r) (length p) n = Some (int (h_hlen h), p @ b @ drop (h_hlen h) r) \<and>
     length b = h_hlen h \<and>
     g_obex_header_decode G (p @ b @ drop (h_hlen h) r) (length p) n policy err =
       Some (Inr (hdr_received policy h (drop (h_hlen h) r), h_hlen h))"
  using hdr_encode [OF assms(1,3,4)] hdr_bytes_length [OF assms(1)] assms(3,4)
    hdr_decode [OF assms(1-3), of "drop (h_hlen h) r"] by simp

theorem obex_header_roundtrip_witness:
  "\<exists>b. g_obex_header_encode ascii_glib \<lparr>h_id = 1, h_extdata = False, h_vlen = 2, h_hlen = 9, h_v = HString [65, 66]\<rparr>
       ([7] @ replicate 12 0) 1 10 = Some (9, [7] @ b @ replicate 3 0) \<and>
     g_obex_header_decode ascii_glib ([7] @ b @ replicate 3 0) 1 10 G_OBEX_DATA_COPY False =
       Some (Inr (\<lparr>h_id = 1, h_extdata = False, h_vlen = 2, h_hlen = 9, h_v = HString [65, 66]\<rparr>, 9))"
proof -
  let ?h = "\<lparr>h_id = 1, h_extdata = False, h_vlen = 2, h_hlen = 9, h_v = HString [65, 66]\<rparr>"
  have "hdr_wf ascii_glib ?h"
    by (simp add: hdr_wf_def text_wf_def ascii_glib_def G_OBEX_HDR_ENC_def be16_bytes_def)
  from obex_header_roundtrip [OF this, of G_OBEX_DATA_COPY 10 "replicate 12 0" "[7]" False]
  show ?thesis by (auto simp: hdr_received_def)
qed

text \<open>
  Given any bytes, the decoder reads inside them and answers: an error, or a header with the number
  of bytes it had, at least two and at most as many as there were.
\<close>

theorem obex_header_decode_safe:
  assumes "off + n \<le> length data" and "0 < n"
  shows "\<exists>res. g_obex_header_decode G data off n policy True = Some res \<and>
     (case res of Inl e \<Rightarrow> e \<noteq> None | Inr (h, k) \<Rightarrow> 2 \<le> k \<and> k \<le> n \<and> h_hlen h = k)"
proof -
  obtain res where res: "g_obex_header_decode G data off n policy True = Some res"
    using hdr_decode_inside [OF assms(2,1), of G policy] by auto
  moreover have "e \<noteq> None" if "res = Inl e" for e
    using hdr_decode_error res that by simp
  moreover have "2 \<le> k \<and> k \<le> n \<and> h_hlen h = k" if "res = Inr (h, k)" for h k
    using hdr_decode_progress res that by simp
  ultimately show ?thesis by (auto split: sum.split)
qed

theorem obex_header_decode_safe_witness:
  "\<exists>res. g_obex_header_decode ascii_glib [0x48, 0, 9, 1] 0 4 G_OBEX_DATA_REF True = Some res \<and>
     (case res of Inl e \<Rightarrow> e \<noteq> None | Inr (h, k) \<Rightarrow> 2 \<le> k \<and> k \<le> 4 \<and> h_hlen h = k)"
  by (rule obex_header_decode_safe) simp_all

text \<open>What the accessor of its kind gives for a header that was made from a value and exchanged.\<close>

lemma exchange_uint8:
  assumes "policy \<noteq> G_OBEX_DATA_INHERIT" and "g_obex_header_new_uint8 i x = Some h" and "2 \<le> length buf"
  shows "\<exists>h'. exchange G policy h buf = Some h' \<and> g_obex_header_get_uint8 h' = Some (Some x)"
proof -
  note wf = new_uint8_wf [OF assms(2), of G]
  then have "G_OBEX_HDR_ENC (h_id h) = HDR_ENC_UINT8" by (auto simp: hdr_wf_def)
  then show ?thesis
    using exchange_wf [of G h policy buf] wf assms(1,3) by (simp add: hdr_received_def g_obex_header_get_uint8_def)
qed

lemma exchange_uint32:
  assumes "policy \<noteq> G_OBEX_DATA_INHERIT" and "g_obex_header_new_uint32 i y = Some h" and "5 \<le> length buf"
  shows "\<exists>h'. exchange G policy h buf = Some h' \<and> g_obex_header_get_uint32 h' = Some (Some y)"
proof -
  note wf = new_uint32_wf [OF assms(2), of G]
  then have "G_OBEX_HDR_ENC (h_id h) = HDR_ENC_UINT32" by (auto simp: hdr_wf_def)
  then show ?thesis
    using exchange_wf [of G h policy buf] wf assms(1,3) by (simp add: hdr_received_def g_obex_header_get_uint32_def)
qed

lemma exchange_bytes:
  assumes "policy \<noteq> G_OBEX_DATA_INHERIT" and "g_obex_header_new_bytes i d len = Some (Some h)"
    and "len + 3 < 2 ^ 16" and "len + 3 \<le> length buf"
  shows "\<exists>h' v. exchange G policy h buf = Some h' \<and>
     g_obex_header_get_bytes h' = Some (Some (take len d @ v, len)) \<and> length (take len d) = len"
proof -
  note wf = new_bytes_wf [OF assms(2,3), of G]
  then have "G_OBEX_HDR_ENC (h_id h) = HDR_ENC_BYTES" by (auto simp: hdr_wf_def)
  then show ?thesis
    using exchange_wf [of G h policy buf] wf assms(1,4)
    by (cases policy) (simp_all add: hdr_received_def g_obex_header_get_bytes_def Let_def)
qed

lemma exchange_unicode:
  assumes "policy \<noteq> G_OBEX_DATA_INHERIT"
    and "g_obex_header_new_unicode G i s = Some h" and "0 \<notin> set s" and "s \<noteq> []"
    and "g_utf8_to_utf16 G s = Some w" and "g_convert G (concat (map be16_bytes w)) = Some s"
    and "g_utf8_strlen G s = length w" and "w \<noteq> []" and "length w < 2 ^ 15 - 3"
    and "5 + 2 * length w \<le> length buf"
  shows "\<exists>h'. exchange G policy h buf = Some h' \<and> g_obex_header_get_unicode h' = Some (Some s)"
proof -
  note wf = new_unicode_wf [OF assms(2-9)]
  then have "G_OBEX_HDR_ENC (h_id h) = HDR_ENC_UNICODE" by (auto simp: hdr_wf_def)
  then show ?thesis
    using exchange_wf [of G h policy buf] wf assms(1,3,10)
    by (simp add: hdr_received_def g_obex_header_get_unicode_def no_zero_takeWhile)
qed

text \<open>
  A header made from a value, encoded in a buffer with room and decoded, gives the value to the
  accessor of its kind: integers, byte sequences up to what 16 bits of length can say, and texts that
  GLib converts back and whose characters are one UTF-16 unit each.
\<close>

theorem obex_header_values:
  assumes "policy \<noteq> G_OBEX_DATA_INHERIT"
  shows "(g_obex_header_new_uint8 i x = Some h \<and> 2 \<le> length buf \<longrightarrow>
      (\<exists>h'. exchange G policy h buf = Some h' \<and> g_obex_header_get_uint8 h' = Some (Some x))) \<and>
    (g_obex_header_new_uint32 i y = Some h \<and> 5 \<le> length buf \<longrightarrow>
      (\<exists>h'. exchange G policy h buf = Some h' \<and> g_obex_header_get_uint32 h' = Some (Some y))) \<and>
    (g_obex_header_new_bytes i d len = Some (Some h) \<and> len + 3 < 2 ^ 16 \<and> len + 3 \<le> length buf \<longrightarrow>
      (\<exists>h' v. exchange G policy h buf = Some h' \<and>
        g_obex_header_get_bytes h' = Some (Some (take len d @ v, len)) \<and> length (take len d) = len)) \<and>
    (g_obex_header_new_unicode G i s = Some h \<and> 0 \<notin> set s \<and> s \<noteq> [] \<and>
      g_utf8_to_utf16 G s = Some w \<and> g_convert G (concat (map be16_bytes w)) = Some s \<and>
      g_utf8_strlen G s = length w \<and> w \<noteq> [] \<and> length w < 2 ^ 15 - 3 \<and> 5 + 2 * length w \<le> length buf \<longrightarrow>
      (\<exists>h'. exchange G policy h buf = Some h' \<and> g_obex_header_get_unicode h' = Some (Some s)))"
  using exchange_uint8 [OF assms, of i x h buf G] exchange_uint32 [OF assms, of i y h buf G]
    exchange_bytes [OF assms, of i d len h buf G] exchange_unicode [OF assms, of G i s h w buf]
  by blast

theorem obex_header_values_witness:
  "\<exists>h h'. g_obex_header_new_unicode ascii_glib 1 [72, 105] = Some h \<and>
     exchange ascii_glib G_OBEX_DATA_REF h (replicate 9 0) = Some h' \<and>
     g_obex_header_get_unicode h' = Some (Some [72, 105])"
proof -
  obtain h where h: "g_obex_header_new_unicode ascii_glib 1 [72, 105] = Some h"
    by (simp add: g_obex_header_new_unicode_def G_OBEX_HDR_ENC_def Let_def)
  then show ?thesis
    using obex_header_values [of G_OBEX_DATA_REF 1 0 h "replicate 9 0" ascii_glib 0 "[]" 0 "[72, 105]" "[72, 105]"]
    by (auto simp: ascii_glib_def be16_bytes_def)
qed

text \<open>
  \<open>g_obex_header_new_unicode\<close> counts the characters of its text, the encoder the UTF-16
  units: for a text with a character that takes two units, the assertion in the encoder ends the
  program, however large the buffer.
\<close>

theorem obex_header_supplementary:
  assumes "g_obex_header_new_unicode G i s = Some h" and "0 \<notin> set s" and "s \<noteq> []"
    and "g_utf8_to_utf16 G s = Some w" and "g_utf8_strlen G s < length w"
    and "2 * length w + 5 \<le> n" and "n \<le> length r"
  shows "g_obex_header_encode G h (p @ r) (length p) n = None"
proof -
  let ?c = "g_utf8_strlen G s"
  have z: "takeWhile (\<lambda>c. c \<noteq> 0) s = s" using assms(2) by (rule no_zero_takeWhile)
  have h: "G_OBEX_HDR_ENC (h_id h) = HDR_ENC_UNICODE" "h_v h = HString s"
      "h_hlen h = (if ?c = 0 then 3 else 3 + (?c + 1) * 2)"
    using assms(1) by (auto simp: g_obex_header_new_unicode_def z Let_def split: if_splits)
  let ?l = "(int (length w) + 1) * 2"
  have u: "utf8_to_utf16 G s = (concat (map be16_bytes w) @ [0, 0], ?l)"
    using assms(3,4) by (simp add: utf8_to_utf16_def)
  have "uint (word_of_int ?l :: u16) \<le> ?l" by (simp only: uint_word_of_int) (rule zmod_le_nonneg_dividend, simp)
  also have "\<dots> \<le> int n" using assms(6) by simp
  finally have fits: "\<not> (?l < 0 \<or> int n < uint (word_of_int ?l :: u16))" by simp
  have "h_hlen h \<le> n" "?l + 3 \<noteq> int (h_hlen h)" using h(3) assms(5,6) by auto
  moreover have "buf_write (p @ r) (length p) [h_id h] \<noteq> None"
    using assms(6,7) by (simp add: buf_write_def)
  ultimately show ?thesis using h(1,2) fits
    by (auto simp: g_obex_header_encode_def u z Let_def simp del: uint_word_of_int_eq)
qed

definition emoji_glib :: glib where
  "emoji_glib = \<lparr>g_utf8_to_utf16 = (\<lambda>s. Some [0xD83D, 0xDE00]), g_convert = (\<lambda>s. Some [0xF0, 0x9F, 0x98, 0x80]),
     g_utf8_strlen = (\<lambda>s. 1)\<rparr>"

theorem obex_header_supplementary_witness:
  "\<exists>h. g_obex_header_new_unicode emoji_glib 1 [0xF0, 0x9F, 0x98, 0x80] = Some h \<and>
     g_obex_header_encode emoji_glib h ([] @ replicate 100 0) (length ([] :: u8 list)) 100 = None"
proof -
  obtain h where h: "g_obex_header_new_unicode emoji_glib 1 [0xF0, 0x9F, 0x98, 0x80] = Some h"
    by (simp add: g_obex_header_new_unicode_def G_OBEX_HDR_ENC_def Let_def)
  moreover have "g_obex_header_encode emoji_glib h ([] @ replicate 100 0) (length ([] :: u8 list)) 100 = None"
    by (rule obex_header_supplementary [OF h, where w = "[0xD83D, 0xDE00]"]) (simp_all add: emoji_glib_def)
  ultimately show ?thesis by blast
qed

text \<open>
  Application parameters survive the way through a header: a table whose encoding fits the local
  buffer of 1024 bytes becomes a header that, encoded and decoded, gives the same table; a larger one
  gives no header.
\<close>

theorem obex_header_apparam:
  assumes "apparam_wf a" and "iter_order order a" and "order \<noteq> []" and "length stack = 1024"
    and "n = length (concat (map tag_bytes (tags_in order a)))"
    and "policy \<noteq> G_OBEX_DATA_INHERIT" and "n + 3 \<le> length buf"
  shows "if n \<le> 1024
     then \<exists>h h'. g_obex_header_new_apparam stack order (Some a) = Some (Some h) \<and>
       exchange G policy h buf = Some h' \<and> g_obex_header_get_apparam h' = Some (Some a)
     else g_obex_header_new_apparam stack order (Some a) = Some None"
proof (cases "n \<le> 1024")
  case False
  then obtain b where "g_obex_apparam_encode order (Some a) stack 1024 = Some (- ENOBUFS, b)"
    using encode_table [OF assms(1,2), of 1024 stack n] assms(4,5) by auto
  then show ?thesis using False
    by (simp add: g_obex_header_new_apparam_def g_obex_header_new_tag_def ENOBUFS_def)
next
  case True
  let ?d = "concat (map tag_bytes (tags_in order a))"
  have "g_obex_apparam_encode order (Some a) stack 1024 = Some (int n, ?d @ drop n stack)"
    using encode_table [OF assms(1,2), of 1024 stack n] assms(4,5) True by simp
  moreover obtain h where h: "g_obex_header_new_bytes G_OBEX_HDR_APPARAM (?d @ drop n stack) n = Some (Some h)"
    using True assms(4,5)
    by (simp add: g_obex_header_new_bytes_def G_OBEX_HDR_APPARAM_def G_OBEX_HDR_ENC_def buf_read_0)
  ultimately have new: "g_obex_header_new_apparam stack order (Some a) = Some (Some h)"
    by (simp add: g_obex_header_new_apparam_def g_obex_header_new_tag_def)
  obtain h' v where h': "exchange G policy h buf = Some h'"
    "g_obex_header_get_bytes h' = Some (Some (take n (?d @ drop n stack) @ v, n))"
    using exchange_bytes [OF assms(6) h, of buf G] True assms(7) by auto
  have "g_obex_apparam_decode (?d @ v) n = Some (Some a)"
    by (rule decode_table [OF assms(1-3,5)])
  then have "g_obex_header_get_apparam h' = Some (Some a)"
    using h'(2) assms(5) by (simp add: g_obex_header_get_apparam_def)
  then show ?thesis using True new h'(1) by auto
qed

theorem obex_header_apparam_witness:
  "\<exists>h h'. g_obex_header_new_apparam (replicate 1024 0) [2, 1] (Some apparam_example) = Some (Some h) \<and>
     exchange ascii_glib G_OBEX_DATA_COPY h (replicate 10 0) = Some h' \<and>
     g_obex_header_get_apparam h' = Some (Some apparam_example)"
proof -
  have "apparam_wf apparam_example" "iter_order [2, 1] apparam_example"
    by (auto simp: apparam_wf_def apparam_example_def tag_wf_def iter_order_def split: if_splits)
  moreover have "7 = length (concat (map tag_bytes (tags_in [2, 1] apparam_example)))"
    by (simp add: tags_in_def apparam_example_def tag_bytes_def List.map_filter_def)
  ultimately show ?thesis
    using obex_header_apparam [of apparam_example "[2, 1]" "replicate 1024 0" 7 G_OBEX_DATA_COPY "replicate 10 0" ascii_glib]
    by simp
qed

text \<open>An error past the first test is not defined for a caller that passes no place for it.\<close>

lemma obex_header_decode_null_err: "g_obex_header_decode G [0x48, 0, 2] 0 3 G_OBEX_DATA_COPY False = None"
  by (simp add: g_obex_header_decode_def G_OBEX_HDR_ENC_def buf_get_def be16_val_def hdr_failed_def)

text \<open>A byte sequence of more than 65532 bytes is announced with its length modulo \<open>2 ^ 16\<close>.\<close>

lemma obex_header_long_bytes:
  assumes "g_obex_header_new_bytes i d 65533 = Some (Some h)" and "length buf = 65536"
  shows "\<exists>b. g_obex_header_encode G h buf 0 65536 = Some (65536, b) \<and> take 3 b = [h_id h, 0, 0]"
proof -
  have h: "h_hlen h = 65536" "h_vlen h = 65533" "\<not> h_extdata h" "h_v h = HData (take 65533 d)" "65533 \<le> length d"
      "G_OBEX_HDR_ENC (h_id h) = HDR_ENC_BYTES"
    using assms(1) by (auto simp: g_obex_header_new_bytes_def buf_read_0 bind_eq_Some_conv split: if_splits)
  have z: "(word_of_nat 65536 :: u16) = 0" by simp
  have d: "buf_read (take 65533 d) 0 65533 = Some (take 65533 d)" using h(5) by (simp add: buf_read_0)
  show ?thesis using assms(2) h d
    by (simp add: g_obex_header_encode_def buf_write_def be16_bytes_def z)
qed

end
