(* ===== verification/Obex_Packet.thy ===== *)
theory Obex_Packet
  imports Obex_Header
begin

text \<open>
  OBEX packets, \<open>gobex/gobex-packet.c\<close>: an operation code with the final bit, the length of the
  packet, data of the operation, headers, and a body that a callback produces while the packet is
  encoded. The decoder takes the headers off the packet with the loop of \<open>Item_Stream\<close>; its lemmas
  about the loop come from the interpretation \<open>obex_headers\<close>.
\<close>

section \<open>State\<close>

text \<open>
  The data pointer is \<^const>\<open>None\<close> when NULL, or the memory it points to. The callback is given
  the room there is, and answers its return value and the bytes it stored.
\<close>

record GObexPacket =
  p_opcode :: u8
  p_final :: bool
  p_data_policy :: GObexDataPolicy
  p_data :: "u8 list option"
  p_data_len :: nat
  p_hlen :: nat
  p_headers :: "GObexHeader list"
  p_get_body :: "(nat \<Rightarrow> int \<times> u8 list) option"

definition FINAL_BIT :: u8 where "FINAL_BIT = 0x80"
definition G_OBEX_RSP_CONTINUE :: u8 where "G_OBEX_RSP_CONTINUE = 0x10"
definition G_OBEX_RSP_SUCCESS :: u8 where "G_OBEX_RSP_SUCCESS = 0x20"

section \<open>Accessors\<close>

definition g_obex_packet_get_header :: "GObexPacket \<Rightarrow> u8 \<Rightarrow> GObexHeader option" where
  "g_obex_packet_get_header pkt i = List.find (\<lambda>hdr. g_obex_header_get_id hdr = i) (p_headers pkt)"

definition packet_body :: "GObexPacket \<Rightarrow> GObexHeader option" where
  "packet_body pkt =
     (case g_obex_packet_get_header pkt G_OBEX_HDR_BODY of
        Some body \<Rightarrow> Some body
      | None \<Rightarrow> g_obex_packet_get_header pkt G_OBEX_HDR_BODY_END)"

definition g_obex_packet_get_operation :: "GObexPacket \<Rightarrow> u8 \<times> bool" where
  "g_obex_packet_get_operation pkt = (p_opcode pkt, p_final pkt)"

definition g_obex_packet_prepend_header :: "GObexPacket \<Rightarrow> GObexHeader \<Rightarrow> GObexPacket" where
  "g_obex_packet_prepend_header pkt header =
     pkt\<lparr>p_headers := header # p_headers pkt,
         p_hlen := size_add (p_hlen pkt) (unat (g_obex_header_get_length header))\<rparr>"

definition g_obex_packet_add_header :: "GObexPacket \<Rightarrow> GObexHeader \<Rightarrow> GObexPacket" where
  "g_obex_packet_add_header pkt header =
     pkt\<lparr>p_headers := p_headers pkt @ [header],
         p_hlen := size_add (p_hlen pkt) (unat (g_obex_header_get_length header))\<rparr>"

definition g_obex_packet_add_body :: "GObexPacket \<Rightarrow> (nat \<Rightarrow> int \<times> u8 list) \<Rightarrow> bool \<times> GObexPacket" where
  "g_obex_packet_add_body pkt func =
     (if p_get_body pkt \<noteq> None then (False, pkt) else (True, pkt\<lparr>p_get_body := Some func\<rparr>))"

definition g_obex_packet_add_unicode :: "glib \<Rightarrow> GObexPacket \<Rightarrow> u8 \<Rightarrow> u8 list \<Rightarrow> bool \<times> GObexPacket" where
  "g_obex_packet_add_unicode G pkt i str =
     (case g_obex_header_new_unicode G i str of
        None \<Rightarrow> (False, pkt)
      | Some hdr \<Rightarrow> (True, g_obex_packet_add_header pkt hdr))"

definition g_obex_packet_add_bytes :: "GObexPacket \<Rightarrow> u8 \<Rightarrow> u8 list \<Rightarrow> nat \<Rightarrow> (bool \<times> GObexPacket) option" where
  "g_obex_packet_add_bytes pkt i data len = do {
     h \<leftarrow> g_obex_header_new_bytes i data len;
     Some (case h of None \<Rightarrow> (False, pkt) | Some hdr \<Rightarrow> (True, g_obex_packet_add_header pkt hdr)) }"

definition g_obex_packet_add_uint8 :: "GObexPacket \<Rightarrow> u8 \<Rightarrow> u8 \<Rightarrow> bool \<times> GObexPacket" where
  "g_obex_packet_add_uint8 pkt i val =
     (case g_obex_header_new_uint8 i val of
        None \<Rightarrow> (False, pkt)
      | Some hdr \<Rightarrow> (True, g_obex_packet_add_header pkt hdr))"

definition g_obex_packet_add_uint32 :: "GObexPacket \<Rightarrow> u8 \<Rightarrow> u32 \<Rightarrow> bool \<times> GObexPacket" where
  "g_obex_packet_add_uint32 pkt i val =
     (case g_obex_header_new_uint32 i val of
        None \<Rightarrow> (False, pkt)
      | Some hdr \<Rightarrow> (True, g_obex_packet_add_header pkt hdr))"

definition g_obex_packet_get_data :: "GObexPacket \<Rightarrow> u8 list option \<times> nat" where
  "g_obex_packet_get_data pkt =
     (if p_data_len pkt = 0 then (None, 0) else (p_data pkt, p_data_len pkt))"

text \<open>\<open>g_memdup\<close> gives NULL for NULL and for no bytes.\<close>

definition g_obex_packet_set_data :: "GObexPacket \<Rightarrow> u8 list option \<Rightarrow> nat \<Rightarrow> GObexDataPolicy \<Rightarrow> (bool \<times> GObexPacket) option" where
  "g_obex_packet_set_data pkt data len policy =
     (if p_data pkt \<noteq> None then Some (False, pkt)
      else let pkt = pkt\<lparr>p_data_policy := policy, p_data_len := len\<rparr> in
        case policy of
          G_OBEX_DATA_COPY \<Rightarrow>
            (case data of
               None \<Rightarrow> Some (True, pkt\<lparr>p_data := None\<rparr>)
             | Some d \<Rightarrow>
                 if len mod 2 ^ 32 = 0 then Some (True, pkt\<lparr>p_data := None\<rparr>)
                 else do {
                   d \<leftarrow> buf_read d 0 (len mod 2 ^ 32);
                   Some (True, pkt\<lparr>p_data := Some d\<rparr>) })
        | G_OBEX_DATA_REF \<Rightarrow> Some (True, pkt\<lparr>p_data := data\<rparr>)
        | G_OBEX_DATA_INHERIT \<Rightarrow> Some (True, pkt\<lparr>p_data := data\<rparr>))"

definition g_obex_packet_new_valist :: "glib \<Rightarrow> u8 \<Rightarrow> bool \<Rightarrow> u32 \<Rightarrow> va list \<Rightarrow> GObexPacket option" where
  "g_obex_packet_new_valist G opcode final first_hdr_id args = do {
     (l, total_len) \<leftarrow> g_obex_header_create_list G first_hdr_id args;
     Some \<lparr>p_opcode = opcode, p_final = final, p_data_policy = G_OBEX_DATA_COPY, p_data = None,
           p_data_len = 0, p_hlen = total_len, p_headers = l, p_get_body = None\<rparr> }"

definition g_obex_packet_new :: "glib \<Rightarrow> u8 \<Rightarrow> bool \<Rightarrow> u32 \<Rightarrow> va list \<Rightarrow> GObexPacket option" where
  "g_obex_packet_new G opcode final first_hdr_id args = g_obex_packet_new_valist G opcode final first_hdr_id args"

section \<open>Decoder\<close>

definition packet_take_header :: "GObexHeader \<Rightarrow> nat \<Rightarrow> GObexPacket \<Rightarrow> GObexPacket" where
  "packet_take_header header parsed pkt =
     pkt\<lparr>p_headers := p_headers pkt @ [header], p_hlen := size_add (p_hlen pkt) parsed\<rparr>"

definition parse_headers ::
  "glib \<Rightarrow> GObexPacket \<Rightarrow> u8 list \<Rightarrow> nat \<Rightarrow> nat \<Rightarrow> GObexDataPolicy \<Rightarrow> bool \<Rightarrow> (GObexError option + GObexPacket) option" where
  "parse_headers G pkt data off len policy err =
     decode_items (\<lambda>off n. g_obex_header_decode G data off n policy err) packet_take_header off len pkt"

definition g_obex_packet_decode ::
  "glib \<Rightarrow> u8 list \<Rightarrow> nat \<Rightarrow> nat \<Rightarrow> GObexDataPolicy \<Rightarrow> bool \<Rightarrow> (GObexError option + GObexPacket) option" where
  "g_obex_packet_decode G data len header_offset policy err =
     (if policy = G_OBEX_DATA_INHERIT then Some (Inl (if err then Some G_OBEX_ERROR_INVALID_ARGS else None))
      else if len < size_add 3 header_offset then Some (Inl (if err then Some G_OBEX_ERROR_PARSE_ERROR else None))
      else do {
        opcode \<leftarrow> buf_get data 0;
        a \<leftarrow> buf_get data 1; b \<leftarrow> buf_get data 2;
        if unat (be16_val a b) \<noteq> len then Some (Inl (if err then Some G_OBEX_ERROR_PARSE_ERROR else None))
        else do {
          pkt \<leftarrow> g_obex_packet_new G (opcode AND NOT FINAL_BIT) (opcode AND FINAL_BIT \<noteq> 0) 0 [];
          pkt \<leftarrow> (if header_offset = 0 then Some pkt
                 else do {
                   (_, pkt) \<leftarrow> g_obex_packet_set_data pkt (Some (drop 3 data)) header_offset policy;
                   Some pkt });
          parse_headers G pkt data (3 + header_offset) (size_sub len (size_add 3 header_offset)) policy err } })"

section \<open>Encoder\<close>

text \<open>
  \<open>get_body\<close>: the callback stores behind the three bytes of a header. Storing more than it was
  given room for is not defined.
\<close>

definition get_body :: "(nat \<Rightarrow> int \<times> u8 list) \<Rightarrow> u8 list \<Rightarrow> nat \<Rightarrow> nat \<Rightarrow> (int \<times> u8 list) option" where
  "get_body func buf off len =
     (if len < 3 then Some (- ENOBUFS, buf)
      else let (ret, d) = func (len - 3) in
        if len - 3 < length d then None
        else do {
          buf \<leftarrow> buf_write buf (off + 3) d;
          if ret < 0 then Some (ret, buf)
          else do {
            buf \<leftarrow> buf_write buf off [if 0 < ret then G_OBEX_HDR_BODY else G_OBEX_HDR_BODY_END];
            buf \<leftarrow> buf_write buf (off + 1) (be16_bytes (word_of_int (ret + 3)));
            Some (ret, buf) } })"

text \<open>The loop over the headers: a negative result, or the count behind the last one.\<close>

fun encode_headers :: "glib \<Rightarrow> GObexHeader list \<Rightarrow> u8 list \<Rightarrow> nat \<Rightarrow> nat \<Rightarrow> ((int + nat) \<times> u8 list) option" where
  "encode_headers G [] buf count len = Some (Inr count, buf)"
| "encode_headers G (hdr # l) buf count len =
     (if len \<le> count then Some (Inl (- ENOBUFS), buf)
      else do {
        (ret, buf) \<leftarrow> g_obex_header_encode G hdr buf count (len - count);
        if ret < 0 then Some (Inl ret, buf) else encode_headers G l buf (count + nat ret) len })"

text \<open>
  The body and the length: \<open>count\<close> bytes of the packet are there. A body that is at its end turns
  the response Continue into Success and sets the final bit.
\<close>

definition encode_body :: "GObexPacket \<Rightarrow> u8 list \<Rightarrow> nat \<Rightarrow> nat \<Rightarrow> ((int + nat) \<times> u8 list) option" where
  "encode_body pkt buf count len =
     (case p_get_body pkt of
        None \<Rightarrow> Some (Inr count, buf)
      | Some func \<Rightarrow> do {
          (ret, buf) \<leftarrow> get_body func buf count (size_sub len count);
          if ret < 0 then Some (Inl ret, buf)
          else do {
            first \<leftarrow> buf_get buf 0;
            buf \<leftarrow> (if ret = 0 then
                buf_write buf 0 [(if p_opcode pkt = G_OBEX_RSP_CONTINUE then G_OBEX_RSP_SUCCESS else first) OR FINAL_BIT]
              else Some buf);
            Some (Inr (count + nat ret + 3), buf) } })"

definition packet_finish :: "GObexPacket \<Rightarrow> u8 list \<Rightarrow> nat \<Rightarrow> nat \<Rightarrow> (int \<times> u8 list) option" where
  "packet_finish pkt buf count len = do {
     (r, buf) \<leftarrow> encode_body pkt buf count len;
     case r of
       Inl e \<Rightarrow> Some (e, buf)
     | Inr count \<Rightarrow> do {
         buf \<leftarrow> buf_write buf 1 (be16_bytes (of_nat count));
         Some (int count, buf) } }"

definition g_obex_packet_encode :: "glib \<Rightarrow> GObexPacket \<Rightarrow> u8 list \<Rightarrow> nat \<Rightarrow> (int \<times> u8 list) option" where
  "g_obex_packet_encode G pkt buf len =
     (if len < size_add (size_add 3 (p_data_len pkt)) (p_hlen pkt) then Some (- ENOBUFS, buf)
      else do {
        buf \<leftarrow> buf_write buf 0 [if p_final pkt then p_opcode pkt OR FINAL_BIT else p_opcode pkt];
        buf \<leftarrow> (if 0 < p_data_len pkt then do {
                 d \<leftarrow> p_data pkt;
                 d \<leftarrow> buf_read d 0 (p_data_len pkt);
                 buf_write buf 3 d }
               else Some buf);
        (r, buf) \<leftarrow> encode_headers G (p_headers pkt) buf (3 + p_data_len pkt) len;
        case r of
          Inl e \<Rightarrow> Some (e, buf)
        | Inr count \<Rightarrow> packet_finish pkt buf count len })"

section \<open>Packets on the wire\<close>

definition packet_wf :: "glib \<Rightarrow> GObexPacket \<Rightarrow> bool" where
  "packet_wf G pkt \<longleftrightarrow> p_opcode pkt AND FINAL_BIT = 0 \<and> (\<forall>h \<in> set (p_headers pkt). hdr_wf G h) \<and>
     p_hlen pkt = sum_list (map h_hlen (p_headers pkt)) \<and>
     (0 < p_data_len pkt \<longrightarrow> (\<exists>d. p_data pkt = Some d \<and> p_data_len pkt \<le> length d))"

definition first_byte :: "GObexPacket \<Rightarrow> u8" where
  "first_byte pkt = (if p_final pkt then p_opcode pkt OR FINAL_BIT else p_opcode pkt)"

definition data_bytes :: "GObexPacket \<Rightarrow> u8 list" where
  "data_bytes pkt = (if p_data_len pkt = 0 then [] else take (p_data_len pkt) (the (p_data pkt)))"

definition headers_bytes :: "glib \<Rightarrow> GObexPacket \<Rightarrow> u8 list" where
  "headers_bytes G pkt = concat (map (hdr_bytes G) (p_headers pkt))"

text \<open>The length of a packet without its body.\<close>

definition packet_length :: "GObexPacket \<Rightarrow> nat" where
  "packet_length pkt = 3 + p_data_len pkt + p_hlen pkt"

lemma headers_length: "\<forall>h \<in> set hs. hdr_wf G h \<Longrightarrow> length (concat (map (hdr_bytes G) hs)) = sum_list (map h_hlen hs)"
  by (induction hs) (simp_all add: hdr_bytes_length)

lemma packet_wf_lengths:
  assumes "packet_wf G pkt"
  shows "length (data_bytes pkt) = p_data_len pkt" and "length (headers_bytes G pkt) = p_hlen pkt"
  using assms by (auto simp: packet_wf_def data_bytes_def headers_bytes_def headers_length)

lemma encode_headers_bytes:
  "\<forall>h \<in> set hs. hdr_wf G h \<Longrightarrow> n = length (concat (map (hdr_bytes G) hs)) \<Longrightarrow> length p + n \<le> len \<Longrightarrow>
   len \<le> length (p @ r) \<Longrightarrow> count = length p \<Longrightarrow>
   encode_headers G hs (p @ r) count len =
     Some (Inr (count + n), p @ concat (map (hdr_bytes G) hs) @ drop n r)"
proof (induction hs arbitrary: p r count n)
  case (Cons h hs)
  let ?b = "hdr_bytes G h" and ?bs = "concat (map (hdr_bytes G) hs)"
  have wf: "hdr_wf G h" and l: "length ?b = h_hlen h" using Cons.prems(1) hdr_bytes_length by auto
  have pos: "0 < length ?b" by (simp add: hdr_bytes_def)
  have n: "n = length ?b + length ?bs" using Cons.prems(2) by simp
  have enc: "g_obex_header_encode G h (p @ r) count (len - count) =
      Some (int (length ?b), p @ ?b @ drop (length ?b) r)"
    using hdr_encode [OF wf, of "len - length p" r p] Cons.prems(3-5) n l by simp
  have "encode_headers G hs ((p @ ?b) @ drop (length ?b) r) (count + length ?b) len =
      Some (Inr (count + length ?b + length ?bs), (p @ ?b) @ ?bs @ drop (length ?bs) (drop (length ?b) r))"
    by (rule Cons.IH) (use Cons.prems n in auto)
  moreover have "\<not> len \<le> count" using Cons.prems(3,5) n pos by linarith
  ultimately show ?case using enc Cons.prems(3,5) n by (simp add: add.commute add.left_commute)
qed simp

lemma packet_encode_front:
  assumes "packet_wf G pkt" and "packet_length pkt \<le> len" and "len \<le> length buf" and "len < 2 ^ 64"
  obtains x y where
    "g_obex_packet_encode G pkt buf len =
      packet_finish pkt (first_byte pkt # x # y # data_bytes pkt @ headers_bytes G pkt @ drop (packet_length pkt) buf)
        (packet_length pkt) len"
proof -
  obtain a x y r where buf: "buf = a # x # y # r"
    using length_ge_3 [of buf] assms(2,3) by (auto simp: packet_length_def)
  note l = packet_wf_lengths [OF assms(1)]
  let ?f = "first_byte pkt # x # y # data_bytes pkt" and ?m = "p_data_len pkt"
  have r: "?m + p_hlen pkt \<le> length r" using assms(2,3) by (simp add: buf packet_length_def)
  have size: "\<not> len < size_add (size_add 3 ?m) (p_hlen pkt)"
    using assms(2,4) by (simp add: packet_length_def size_add_def)
  have one: "buf_write buf 0 [first_byte pkt] = Some (first_byte pkt # x # y # r)" by (simp add: buf buf_write_0)
  have data: "(if 0 < ?m then do {
        d \<leftarrow> p_data pkt; d \<leftarrow> buf_read d 0 ?m; buf_write (first_byte pkt # x # y # r) 3 d }
      else Some (first_byte pkt # x # y # r)) = Some (?f @ drop ?m r)"
  proof (cases "?m = 0")
    case False
    then obtain d where d: "p_data pkt = Some d" "?m \<le> length d" using assms(1) by (auto simp: packet_wf_def)
    have "buf_write ([first_byte pkt, x, y] @ r) 3 (take ?m d) = Some ([first_byte pkt, x, y] @ take ?m d @ drop ?m r)"
      using buf_write_append [of 3 "[first_byte pkt, x, y]" "take ?m d" r] d(2) r by simp
    then show ?thesis using False d by (simp add: buf_read_0 data_bytes_def)
  qed (simp add: data_bytes_def)
  have hdrs: "encode_headers G (p_headers pkt) (?f @ drop ?m r) (3 + ?m) len =
      Some (Inr (packet_length pkt), ?f @ headers_bytes G pkt @ drop (p_hlen pkt) (drop ?m r))"
    using encode_headers_bytes [of "p_headers pkt" G "p_hlen pkt" ?f len "drop ?m r" "3 + ?m"] assms(1-3) l r
    by (simp add: packet_wf_def headers_bytes_def packet_length_def buf)
  have d: "drop (packet_length pkt) buf = drop (p_hlen pkt) (drop ?m r)"
  proof -
    have "packet_length pkt = Suc (Suc (Suc (?m + p_hlen pkt)))" by (simp add: packet_length_def)
    then show ?thesis by (simp add: buf add.commute)
  qed
  have "g_obex_packet_encode G pkt buf len = (do {
      buf \<leftarrow> Some (?f @ drop ?m r);
      (r, buf) \<leftarrow> encode_headers G (p_headers pkt) buf (3 + ?m) len;
      case r of Inl e \<Rightarrow> Some (e, buf) | Inr count \<Rightarrow> packet_finish pkt buf count len })"
    unfolding g_obex_packet_encode_def
    by (simp only: size if_False one [unfolded first_byte_def] data [unfolded first_byte_def] first_byte_def
        Option.bind_lunit)
  then show ?thesis
    using that [of x y] by (simp only: Option.bind_lunit hdrs [simplified] append_Cons append_assoc prod.case sum.case d drop_drop)
qed

text \<open>The two ways a packet ends: without a body, and with what the callback stored.\<close>

lemma packet_encode_plain:
  assumes "packet_wf G pkt" and "packet_length pkt \<le> len" and "len \<le> length buf" and "len < 2 ^ 64"
    and "p_get_body pkt = None"
  shows "g_obex_packet_encode G pkt buf len = Some (int (packet_length pkt),
     first_byte pkt # be16_bytes (of_nat (packet_length pkt)) @ data_bytes pkt @ headers_bytes G pkt @
       drop (packet_length pkt) buf)"
proof -
  obtain x y where "g_obex_packet_encode G pkt buf len =
      packet_finish pkt (first_byte pkt # x # y # data_bytes pkt @ headers_bytes G pkt @ drop (packet_length pkt) buf)
        (packet_length pkt) len"
    by (rule packet_encode_front [OF assms(1-4)])
  then show ?thesis
    using assms(5) by (simp add: packet_finish_def encode_body_def buf_simps be16_bytes_def)
qed

lemma packet_encode_body:
  assumes "packet_wf G pkt" and "packet_length pkt + 3 + length d \<le> len" and "len \<le> length buf" and "len < 2 ^ 64"
    and "p_get_body pkt = Some func" and "func (len - packet_length pkt - 3) = (int (length d), d)"
  shows "g_obex_packet_encode G pkt buf len = Some (int (packet_length pkt + 3 + length d),
     (if d = [] then (if p_opcode pkt = G_OBEX_RSP_CONTINUE then G_OBEX_RSP_SUCCESS else first_byte pkt) OR FINAL_BIT
      else first_byte pkt)
     # be16_bytes (of_nat (packet_length pkt + 3 + length d)) @ data_bytes pkt @ headers_bytes G pkt @
     (if d = [] then G_OBEX_HDR_BODY_END else G_OBEX_HDR_BODY) # be16_bytes (of_nat (3 + length d)) @ d @
     drop (packet_length pkt + 3 + length d) buf)"
proof -
  let ?n = "packet_length pkt"
  obtain x y where front: "g_obex_packet_encode G pkt buf len =
      packet_finish pkt (first_byte pkt # x # y # data_bytes pkt @ headers_bytes G pkt @ drop ?n buf) ?n len"
    by (rule packet_encode_front [OF assms(1) _ assms(3,4)]) (use assms(2) in simp_all)
  let ?p = "first_byte pkt # x # y # data_bytes pkt @ headers_bytes G pkt" and ?r = "drop ?n buf"
  have n: "?n = length ?p" using packet_wf_lengths [OF assms(1)] by (simp add: packet_length_def)
  have len: "length d + 3 \<le> length ?r" "size_sub len ?n = len - ?n" "\<not> len - ?n < 3" "\<not> len - ?n - 3 < length d"
    using assms(2,3) by simp_all
  obtain a b c r where r: "?r = a # b # c # r" using length_ge_3 [of ?r] len(1) by auto
  then have dr: "length d \<le> length r" using len(1) by simp
  let ?h = "if d = [] then G_OBEX_HDR_BODY_END else G_OBEX_HDR_BODY"
  have body: "buf_write (?p @ a # b # c # r) (?n + 3) d = Some (?p @ a # b # c # d @ drop (length d) r)"
    using buf_write_append [of "?n + 3" "?p @ [a, b, c]" d r] dr n by simp
  have h: "buf_write (?p @ a # b # c # d @ drop (length d) r) ?n [z] = Some (?p @ z # b # c # d @ drop (length d) r)"
    for z using buf_write_append [of ?n ?p "[z]" "a # b # c # d @ drop (length d) r"] n by simp
  have l: "buf_write (?p @ z # b # c # d @ drop (length d) r) (?n + 1) (be16_bytes w) =
      Some (?p @ z # be16_bytes w @ d @ drop (length d) r)" for z w
    using buf_write_append [of "?n + 1" "?p @ [z]" "be16_bytes w" "b # c # d @ drop (length d) r"] n by simp
  have get: "get_body func (?p @ ?r) ?n (len - ?n) = Some (int (length d),
      ?p @ ?h # be16_bytes (of_nat (3 + length d)) @ d @ drop (length d) r)"
    unfolding get_body_def r
    by (simp only: len(3,4) if_False Let_def assms(6) prod.case body h l Option.bind_lunit) (simp add: add.commute)
  have tail: "drop (length d) r = drop (?n + 3 + length d) buf"
  proof -
    have "drop (length d) r = drop (Suc (Suc (Suc (length d)))) ?r" using r by simp
    moreover have "Suc (Suc (Suc (length d))) + ?n = ?n + 3 + length d" by simp
    ultimately show ?thesis by (simp only: drop_drop)
  qed
  have "encode_body pkt (?p @ ?r) ?n len = Some (Inr (?n + 3 + length d),
      (if d = [] then (if p_opcode pkt = G_OBEX_RSP_CONTINUE then G_OBEX_RSP_SUCCESS else first_byte pkt) OR FINAL_BIT
       else first_byte pkt) # x # y # data_bytes pkt @ headers_bytes G pkt @
      ?h # be16_bytes (of_nat (3 + length d)) @ d @ drop (length d) r)"
    unfolding encode_body_def assms(5) option.case len(2) get Option.bind_lunit prod.case
    by (simp add: buf_simps)
  then have "packet_finish pkt (?p @ ?r) ?n len = Some (int (?n + 3 + length d),
      (if d = [] then (if p_opcode pkt = G_OBEX_RSP_CONTINUE then G_OBEX_RSP_SUCCESS else first_byte pkt) OR FINAL_BIT
       else first_byte pkt) # be16_bytes (of_nat (?n + 3 + length d)) @ data_bytes pkt @ headers_bytes G pkt @
      ?h # be16_bytes (of_nat (3 + length d)) @ d @ drop (length d) r)"
    unfolding packet_finish_def by (simp add: buf_simps be16_bytes_def)
  then show ?thesis using front tail by simp
qed

section \<open>Decoding packets\<close>

lemma new_packet_eq:
  "g_obex_packet_new G opcode final 0 [] = Some \<lparr>p_opcode = opcode, p_final = final,
     p_data_policy = G_OBEX_DATA_COPY, p_data = None, p_data_len = 0, p_hlen = 0, p_headers = [], p_get_body = None\<rparr>"
  by (simp add: g_obex_packet_new_def g_obex_packet_new_valist_def g_obex_header_create_list_def create_list.simps)

lemma final_bits:
  assumes "x AND FINAL_BIT = 0"
  shows "(x OR FINAL_BIT) AND NOT FINAL_BIT = x" and "(x OR FINAL_BIT) AND FINAL_BIT \<noteq> 0"
    and "x AND NOT FINAL_BIT = x"
proof -
  have b: "\<not> (bit x n \<and> bit FINAL_BIT n)" for n
    using arg_cong [OF assms, of "\<lambda>w. bit w n"] by (simp add: bit_and_iff)
  show "x AND NOT FINAL_BIT = x" by (rule bit_word_eqI) (use b in \<open>auto simp: bit_simps\<close>)
  show "(x OR FINAL_BIT) AND NOT FINAL_BIT = x" by (rule bit_word_eqI) (use b in \<open>auto simp: bit_simps\<close>)
  have "(x OR FINAL_BIT) AND FINAL_BIT = FINAL_BIT" by (rule bit_word_eqI) (auto simp: bit_simps)
  then show "(x OR FINAL_BIT) AND FINAL_BIT \<noteq> 0" by (simp add: FINAL_BIT_def)
qed

lemma first_byte_bits:
  assumes "p_opcode pkt AND FINAL_BIT = 0"
  shows "first_byte pkt AND NOT FINAL_BIT = p_opcode pkt" and "first_byte pkt AND FINAL_BIT \<noteq> 0 \<longleftrightarrow> p_final pkt"
  using final_bits [OF assms] assms by (simp_all add: first_byte_def)

text \<open>What the loop adds to the packet for the headers it takes.\<close>

lemma fold_take_header:
  "fold (\<lambda>(h, k). packet_take_header h k) l pkt = pkt\<lparr>p_headers := p_headers pkt @ map fst l,
     p_hlen := fold (\<lambda>k n. size_add n k) (map snd l) (p_hlen pkt)\<rparr>"
  by (induction l arbitrary: pkt) (auto simp: packet_take_header_def)

lemma size_add_fold:
  "n + sum_list ks < 2 ^ 64 \<Longrightarrow> fold (\<lambda>k n. size_add n k) ks n = n + sum_list ks"
  by (induction ks arbitrary: n) simp_all

lemma recv_all_fst:
  "list_all2 (\<lambda>h h'. \<exists>r. h' = hdr_received policy h r) hs (map fst (obex_headers.recv_all G policy hs r))"
  by (induction hs) auto

lemma recv_all_snd:
  "\<forall>h \<in> set hs. hdr_wf G h \<Longrightarrow> map snd (obex_headers.recv_all G policy hs r) = map h_hlen hs"
  by (induction hs) (simp_all add: hdr_bytes_length)

text \<open>
  The decoded packet carries the data as a reference or a copy, and each header as its decoder
  receives it.
\<close>

definition packet_received :: "GObexDataPolicy \<Rightarrow> GObexPacket \<Rightarrow> GObexPacket \<Rightarrow> bool" where
  "packet_received policy pkt pkt' \<longleftrightarrow>
     p_opcode pkt' = p_opcode pkt \<and> p_final pkt' = p_final pkt \<and>
     (\<exists>r. g_obex_packet_get_data pkt' =
        (if p_data_len pkt = 0 then (None, 0) else (Some (data_bytes pkt @ r), p_data_len pkt))) \<and>
     list_all2 (\<lambda>h h'. \<exists>r. h' = hdr_received policy h r) (p_headers pkt) (p_headers pkt') \<and>
     p_hlen pkt' = p_hlen pkt \<and> p_get_body pkt' = None"

lemma parse_headers_bytes:
  assumes "\<forall>h \<in> set hs. hdr_wf G h" and "policy \<noteq> G_OBEX_DATA_INHERIT"
    and "n = sum_list (map h_hlen hs)" and "p_hlen pkt + n < 2 ^ 64" and "off = length p"
  shows "\<exists>hs'. parse_headers G pkt (p @ concat (map (hdr_bytes G) hs)) off n policy True =
       Some (Inr (pkt\<lparr>p_headers := p_headers pkt @ hs', p_hlen := p_hlen pkt + n\<rparr>)) \<and>
     list_all2 (\<lambda>h h'. \<exists>r. h' = hdr_received policy h r) hs hs'"
proof -
  let ?l = "obex_headers.recv_all G policy hs []"
  have "decode_items (\<lambda>off n. g_obex_header_decode G (p @ concat (map (hdr_bytes G) hs) @ []) off n policy True)
      packet_take_header (length p) (length (concat (map (hdr_bytes G) hs))) pkt =
    Some (Inr (fold (\<lambda>(x, k). packet_take_header x k) ?l pkt))"
    by (rule obex_headers.stream_decodes) (use assms(1,2) in simp)
  moreover have "length (concat (map (hdr_bytes G) hs)) = n" using headers_length [OF assms(1)] assms(3) by simp
  moreover have "fold (\<lambda>k n. size_add n k) (map snd ?l) (p_hlen pkt) = p_hlen pkt + n"
    using recv_all_snd [OF assms(1)] assms(3,4) by (simp add: size_add_fold)
  ultimately show ?thesis
    using recv_all_fst [of policy hs G "[]"] by (auto simp: parse_headers_def fold_take_header assms(5))
qed

lemma set_received_data:
  assumes "policy \<noteq> G_OBEX_DATA_INHERIT" and "length d = m" and "m < 2 ^ 16" and "p_data pkt = None"
    and "p_data_len pkt = 0"
  shows "\<exists>x r. (if m = 0 then Some pkt else do {
       (_, pkt) \<leftarrow> g_obex_packet_set_data pkt (Some (d @ rest)) m policy; Some pkt }) =
     Some (pkt\<lparr>p_data_policy := x, p_data_len := m, p_data := (if m = 0 then None else Some (d @ r))\<rparr>)"
proof (cases "m = 0")
  case True
  then show ?thesis using assms(4,5) by (intro exI [of _ "p_data_policy pkt"] exI) simp
next
  case False
  have "m mod 2 ^ 32 = m" using assms(3) by simp
  then show ?thesis
    using False assms
    by (intro exI [of _ policy] exI [of _ "if policy = G_OBEX_DATA_COPY then [] else rest"], cases policy)
      (auto simp: g_obex_packet_set_data_def Let_def buf_read_0)
qed

lemma packet_decode_bytes:
  assumes "packet_wf G pkt" and "policy \<noteq> G_OBEX_DATA_INHERIT" and "n = packet_length pkt" and "n < 2 ^ 16"
  shows "\<exists>pkt'. g_obex_packet_decode G (first_byte pkt # be16_bytes (of_nat n) @ data_bytes pkt @ headers_bytes G pkt)
      n (p_data_len pkt) policy True = Some (Inr pkt') \<and> packet_received policy pkt pkt'"
proof -
  let ?m = "p_data_len pkt" and ?d = "data_bytes pkt" and ?h = "headers_bytes G pkt"
  obtain x y where xy: "be16_bytes (of_nat n) = [x, y]" "unat (be16_val x y) = n"
    using assms(4) by (simp add: be16_bytes_def unat_of_nat_small)
  let ?p = "first_byte pkt # x # y # ?d"
  have wf: "p_opcode pkt AND FINAL_BIT = 0" "\<forall>h \<in> set (p_headers pkt). hdr_wf G h"
      "p_hlen pkt = sum_list (map h_hlen (p_headers pkt))"
    using assms(1) by (auto simp: packet_wf_def)
  have l: "length ?d = ?m" "n = 3 + ?m + p_hlen pkt"
    using packet_wf_lengths [OF assms(1)] assms(3) by (simp_all add: packet_length_def)
  let ?new = "\<lparr>p_opcode = p_opcode pkt, p_final = p_final pkt, p_data_policy = G_OBEX_DATA_COPY, p_data = None,
     p_data_len = 0, p_hlen = 0, p_headers = [], p_get_body = None\<rparr>"
  obtain pol r where new: "(if ?m = 0 then Some ?new else do {
        (_, pkt) \<leftarrow> g_obex_packet_set_data ?new (Some (?d @ ?h)) ?m policy; Some pkt }) =
      Some (?new\<lparr>p_data_policy := pol, p_data_len := ?m, p_data := (if ?m = 0 then None else Some (?d @ r))\<rparr>)"
    (is "_ = Some ?pkt")
    using set_received_data [OF assms(2) l(1), of ?new ?h] l(2) assms(4) by auto
  obtain hs' where hs': "parse_headers G ?pkt (?p @ ?h) (3 + ?m) (p_hlen pkt) policy True =
      Some (Inr (?pkt\<lparr>p_headers := hs', p_hlen := p_hlen pkt\<rparr>))"
      "list_all2 (\<lambda>h h'. \<exists>r. h' = hdr_received policy h r) (p_headers pkt) hs'"
    using parse_headers_bytes [OF wf(2) assms(2) wf(3), of ?pkt "3 + ?m" ?p] l assms(4)
    by (auto simp: headers_bytes_def)
  have pre: "(policy = G_OBEX_DATA_INHERIT) = False" "(n < size_add 3 ?m) = False"
      "buf_get (?p @ ?h) 0 = Some (first_byte pkt)" "buf_get (?p @ ?h) 1 = Some x" "buf_get (?p @ ?h) 2 = Some y"
      "(unat (be16_val x y) \<noteq> n) = False" "size_sub n (size_add 3 ?m) = p_hlen pkt" "drop 3 (?p @ ?h) = ?d @ ?h"
    using assms(2,4) l xy(2) by (simp_all add: buf_simps size_add_def size_sub_def)
  have "g_obex_packet_decode G (?p @ ?h) n ?m policy True =
      Some (Inr (?pkt\<lparr>p_headers := hs', p_hlen := p_hlen pkt\<rparr>))"
    unfolding g_obex_packet_decode_def pre if_False Option.bind_lunit new_packet_eq first_byte_bits [OF wf(1)]
      new hs'(1) by (rule refl)
  moreover have "packet_received policy pkt (?pkt\<lparr>p_headers := hs', p_hlen := p_hlen pkt\<rparr>)"
    using hs'(2) by (auto simp: packet_received_def g_obex_packet_get_data_def)
  ultimately show ?thesis using xy(1) by auto
qed

lemma splice:
  assumes "length pre = n" and "length body = k" and "n + k \<le> length buf"
  shows "length (pre @ body @ drop (n + k) buf) = length buf"
    and "drop (n + k) (pre @ body @ drop (n + k) buf) = drop (n + k) buf"
    and "take k (drop n (pre @ body @ drop (n + k) buf)) = body"
  using assms by simp_all

section \<open>Properties\<close>

text \<open>
  C30: A packet of well-formed headers that 16 bits of length can say is encoded in its length, with the
  rest of the buffer left alone, and decoded, given the length of the data before the headers, to
  a packet of the same operation, data and headers.
\<close>

theorem obex_packet_roundtrip:
  assumes "packet_wf G pkt" and "p_get_body pkt = None" and "n = packet_length pkt" and "n < 2 ^ 16"
    and "n \<le> len" and "len \<le> length buf" and "len < 2 ^ 64" and "policy \<noteq> G_OBEX_DATA_INHERIT"
  shows "\<exists>b pkt'. g_obex_packet_encode G pkt buf len = Some (int n, b) \<and>
     length b = length buf \<and> drop n b = drop n buf \<and>
     g_obex_packet_decode G (take n b) n (p_data_len pkt) policy True = Some (Inr pkt') \<and>
     packet_received policy pkt pkt'"
proof -
  let ?b = "first_byte pkt # be16_bytes (of_nat n) @ data_bytes pkt @ headers_bytes G pkt"
  have enc: "g_obex_packet_encode G pkt buf len = Some (int n, ?b @ drop n buf)"
    using packet_encode_plain [OF assms(1) _ assms(6,7,2)] assms(3,5) by simp
  have l: "length ?b = n" using packet_wf_lengths [OF assms(1)] assms(3) by (simp add: packet_length_def)
  then have "length (?b @ drop n buf) = length buf" "drop n (?b @ drop n buf) = drop n buf" "take n (?b @ drop n buf) = ?b"
    using assms(5,6) by (simp_all only: length_append drop_append take_append) simp_all
  then show ?thesis using enc packet_decode_bytes [OF assms(1,8,3,4)] by metis
qed

definition packet_example :: GObexPacket where
  "packet_example = \<lparr>p_opcode = 2, p_final = True, p_data_policy = G_OBEX_DATA_COPY, p_data = Some [9, 8, 7],
     p_data_len = 2, p_hlen = 7,
     p_headers = [\<lparr>h_id = 0xCB, h_extdata = False, h_vlen = 4, h_hlen = 5, h_v = HU32 1\<rparr>,
                  \<lparr>h_id = 0x97, h_extdata = False, h_vlen = 1, h_hlen = 2, h_v = HU8 1\<rparr>],
     p_get_body = None\<rparr>"

lemma packet_example_wf: "packet_wf G packet_example"
  by (simp add: packet_wf_def packet_example_def FINAL_BIT_def hdr_wf_def G_OBEX_HDR_ENC_def)

theorem obex_packet_roundtrip_witness:
  "\<exists>b pkt'. g_obex_packet_encode ascii_glib packet_example (replicate 20 0) 20 = Some (12, b) \<and>
     g_obex_packet_decode ascii_glib (take 12 b) 12 2 G_OBEX_DATA_REF True = Some (Inr pkt') \<and>
     packet_received G_OBEX_DATA_REF packet_example pkt'"
  using obex_packet_roundtrip [OF packet_example_wf [of ascii_glib] _ refl, of 20 "replicate 20 0" G_OBEX_DATA_REF]
  by (auto simp: packet_example_def packet_length_def)

text \<open>The headers a packet was given are counted in full.\<close>

definition hlen_inv :: "GObexPacket \<Rightarrow> bool" where
  "hlen_inv pkt \<longleftrightarrow> p_hlen pkt = sum_list (map h_hlen (p_headers pkt))"

lemma parse_headers_inv:
  assumes "parse_headers G pkt data off n policy True = Some (Inr pkt')" and "hlen_inv pkt" and "p_hlen pkt + n < 2 ^ 64"
  shows "hlen_inv pkt' \<and> p_hlen pkt' = p_hlen pkt + n \<and> p_data_len pkt' = p_data_len pkt"
proof -
  let ?P = "\<lambda>j q. hlen_inv q \<and> p_hlen q = j \<and> p_data_len q = p_data_len pkt"
  have step: "?P (j + k) (packet_take_header h k q)"
    if "g_obex_header_decode G data off' m policy True = Some (Inr (h, k))" "j + k \<le> p_hlen pkt + n" "?P j q"
    for off' m h k q j
    using hdr_decode_progress [OF that(1)] that(2,3) assms(3) by (auto simp: packet_take_header_def hlen_inv_def)
  have "?P (p_hlen pkt + n) pkt'"
    using assms(1) unfolding parse_headers_def
    by (rule obex_headers.stream_invariant [where P = ?P and j = "p_hlen pkt"])
      (simp add: assms(2), rule refl, rule step)
  then show ?thesis by simp
qed

text \<open>
  C31: Given any bytes, the packet decoder reads inside them and answers: an error, or a packet whose
  data and headers fill exactly the bytes that were given, with the length of its headers in
  \<open>hlen\<close>.
\<close>

theorem obex_packet_decode_safe:
  assumes "len \<le> length data" and "len < 2 ^ 64" and "header_offset < 2 ^ 32"
  shows "\<exists>res. g_obex_packet_decode G data len header_offset policy True = Some res \<and>
     (case res of
        Inl e \<Rightarrow> e \<noteq> None
      | Inr pkt \<Rightarrow> policy \<noteq> G_OBEX_DATA_INHERIT \<and> packet_length pkt = len \<and>
          p_data_len pkt = header_offset \<and> hlen_inv pkt)"
proof (cases "policy = G_OBEX_DATA_INHERIT \<or> len < 3 + header_offset")
  case True
  then show ?thesis using assms(3) by (auto simp: g_obex_packet_decode_def size_add_def)
next
  case False
  then have ok: "policy \<noteq> G_OBEX_DATA_INHERIT" "3 + header_offset \<le> len" by auto
  obtain x y z r where data: "data = x # y # z # r" using length_ge_3 [of data] ok(2) assms(1) by auto
  show ?thesis
  proof (cases "unat (be16_val y z) = len")
    case False
    then show ?thesis using ok by (simp add: g_obex_packet_decode_def data buf_simps)
  next
    case len: True
    let ?new = "\<lparr>p_opcode = x AND NOT FINAL_BIT, p_final = (x AND FINAL_BIT \<noteq> 0), p_data_policy = G_OBEX_DATA_COPY,
       p_data = None, p_data_len = 0, p_hlen = 0, p_headers = [], p_get_body = None\<rparr>"
    let ?d = "take header_offset r"
    have small: "len < 2 ^ 16" using len unat_u16_bound [of "be16_val y z"] by simp
    have "length ?d = header_offset" using ok(2) assms(1) by (simp add: data)
    then obtain pol q where new: "(if header_offset = 0 then Some ?new else do {
          (_, pkt) \<leftarrow> g_obex_packet_set_data ?new (Some r) header_offset policy; Some pkt }) =
        Some (?new\<lparr>p_data_policy := pol, p_data_len := header_offset,
          p_data := (if header_offset = 0 then None else Some (?d @ q))\<rparr>)" (is "_ = Some ?pkt")
      using set_received_data [OF ok(1), of ?d header_offset ?new "drop header_offset r",
          unfolded append_take_drop_id] ok(2) small by auto
    have "g_obex_packet_decode G data len header_offset policy True =
        parse_headers G ?pkt data (3 + header_offset) (len - (3 + header_offset)) policy True"
    proof -
      have pre: "(policy = G_OBEX_DATA_INHERIT) = False" "(len < size_add 3 header_offset) = False"
          "buf_get data 0 = Some x" "buf_get data 1 = Some y" "buf_get data 2 = Some z"
          "(unat (be16_val y z) \<noteq> len) = False" "size_sub len (size_add 3 header_offset) = len - (3 + header_offset)"
          "drop 3 data = r"
        using ok small len by (simp_all add: buf_simps size_add_def size_sub_def data)
      show ?thesis
        unfolding g_obex_packet_decode_def pre if_False Option.bind_lunit new_packet_eq new by (rule refl)
    qed
    moreover obtain res where res:
        "parse_headers G ?pkt data (3 + header_offset) (len - (3 + header_offset)) policy True = Some res"
      using obex_headers.stream_total [of "3 + header_offset" "len - (3 + header_offset)" data G policy
          packet_take_header ?pkt] ok(2) assms(1) by (auto simp: parse_headers_def)
    moreover have "e \<noteq> None" if "res = Inl e" for e
      using obex_headers.stream_error res hdr_decode_error that unfolding parse_headers_def by metis
    moreover have "packet_length pkt = len \<and> p_data_len pkt = header_offset \<and> hlen_inv pkt" if "res = Inr pkt" for pkt
      using parse_headers_inv [of G ?pkt data "3 + header_offset" "len - (3 + header_offset)" policy pkt]
        res that ok(2) less_imp_diff_less [OF assms(2), of "3 + header_offset"]
      by (auto simp: hlen_inv_def packet_length_def)
    ultimately show ?thesis using ok(1) by (auto split: sum.split)
  qed
qed

theorem obex_packet_decode_safe_witness:
  "\<exists>res. g_obex_packet_decode ascii_glib [0x82, 0, 6, 0x97, 1, 0x48] 6 0 G_OBEX_DATA_COPY True = Some res \<and>
     (case res of
        Inl e \<Rightarrow> e \<noteq> None
      | Inr pkt \<Rightarrow> G_OBEX_DATA_COPY \<noteq> G_OBEX_DATA_INHERIT \<and> packet_length pkt = 6 \<and> p_data_len pkt = 0 \<and> hlen_inv pkt)"
  by (rule obex_packet_decode_safe) simp_all

text \<open>
  Every way to give a packet a header keeps the sum of the lengths in \<open>hlen\<close>, as long as the
  header fits the 16 bits of a length: one that is longer is counted modulo \<open>2 ^ 16\<close>. What is refused
  leaves the packet as it was.
\<close>

theorem obex_packet_hlen:
  assumes "hlen_inv pkt" and "h_hlen h < 2 ^ 16" and "p_hlen pkt < 2 ^ 63"
  shows "hlen_inv (g_obex_packet_add_header pkt h) \<and> hlen_inv (g_obex_packet_prepend_header pkt h) \<and>
     hlen_inv (snd (g_obex_packet_add_uint8 pkt i x)) \<and> hlen_inv (snd (g_obex_packet_add_uint32 pkt i y)) \<and>
     (\<forall>b pkt'. len + 3 < 2 ^ 16 \<and> g_obex_packet_add_bytes pkt i d len = Some (b, pkt') \<longrightarrow> hlen_inv pkt') \<and>
     (g_utf8_strlen G (takeWhile (\<lambda>c. c \<noteq> 0) s) < 2 ^ 15 - 5 \<longrightarrow>
       hlen_inv (snd (g_obex_packet_add_unicode G pkt i s)))"
proof -
  have add: "hlen_inv (g_obex_packet_add_header pkt h)" "hlen_inv (g_obex_packet_prepend_header pkt h)"
    if "h_hlen h < 2 ^ 16" for h
    using assms(1,3) that
    by (simp_all add: hlen_inv_def g_obex_packet_add_header_def g_obex_packet_prepend_header_def
        g_obex_header_get_length_def unat_of_nat_small)
  have u8: "hlen_inv (snd (g_obex_packet_add_uint8 pkt i x))"
    using add(1) new_uint8_wf assms(1) by (auto simp: g_obex_packet_add_uint8_def hdr_wf_def split: option.split)
  have u32: "hlen_inv (snd (g_obex_packet_add_uint32 pkt i y))"
    using add(1) new_uint32_wf assms(1) by (auto simp: g_obex_packet_add_uint32_def hdr_wf_def split: option.split)
  have bytes: "hlen_inv pkt'" if "len + 3 < 2 ^ 16" "g_obex_packet_add_bytes pkt i d len = Some (b, pkt')" for b pkt'
    using that add(1) new_bytes_wf [OF _ that(1)] assms(1)
    by (fastforce simp: g_obex_packet_add_bytes_def hdr_wf_def bind_eq_Some_conv split: option.splits)
  have uni: "hlen_inv (snd (g_obex_packet_add_unicode G pkt i s))"
    if "g_utf8_strlen G (takeWhile (\<lambda>c. c \<noteq> 0) s) < 2 ^ 15 - 5"
    using that add(1) assms(1)
    by (auto simp: g_obex_packet_add_unicode_def g_obex_header_new_unicode_def Let_def)
  show ?thesis using add [OF assms(2)] u8 u32 bytes uni by blast
qed

theorem obex_packet_hlen_witness:
  "hlen_inv (snd (g_obex_packet_add_uint8 packet_example 0x97 1))"
proof -
  let ?h = "\<lparr>h_id = 0, h_extdata = False, h_vlen = 0, h_hlen = 3, h_v = HString []\<rparr>"
  have "hlen_inv packet_example" "h_hlen ?h < 2 ^ 16" "p_hlen packet_example < 2 ^ 63"
    by (simp_all add: hlen_inv_def packet_example_def)
  from obex_packet_hlen [OF this, of "0x97" 1] show ?thesis by blast
qed

text \<open>
  A packet with a callback for its body ends in a header with what the callback stored: Body, or
  End of Body when it stored nothing. In that case, and only then, the final bit is set, and the
  response Continue has become Success.
\<close>

theorem obex_packet_body:
  assumes "packet_wf G pkt" and "n = packet_length pkt" and "n + 3 + length d \<le> len" and "len \<le> length buf"
    and "len < 2 ^ 64" and "p_get_body pkt = Some func" and "func (len - n - 3) = (int (length d), d)"
    and "\<not> p_final pkt"
  shows "\<exists>b. g_obex_packet_encode G pkt buf len = Some (int (n + 3 + length d), b) \<and>
     length b = length buf \<and> drop (n + 3 + length d) b = drop (n + 3 + length d) buf \<and>
     take (3 + length d) (drop n b) =
       (if d = [] then G_OBEX_HDR_BODY_END else G_OBEX_HDR_BODY) # be16_bytes (of_nat (3 + length d)) @ d \<and>
     (b ! 0 AND FINAL_BIT \<noteq> 0 \<longleftrightarrow> d = []) \<and>
     b ! 0 AND NOT FINAL_BIT =
       (if d = [] \<and> p_opcode pkt = G_OBEX_RSP_CONTINUE then G_OBEX_RSP_SUCCESS else p_opcode pkt)"
proof -
  let ?first = "if d = [] then (if p_opcode pkt = G_OBEX_RSP_CONTINUE then G_OBEX_RSP_SUCCESS else first_byte pkt) OR FINAL_BIT
      else first_byte pkt"
  let ?body = "(if d = [] then G_OBEX_HDR_BODY_END else G_OBEX_HDR_BODY) # be16_bytes (of_nat (3 + length d)) @ d"
  let ?m = "n + 3 + length d"
  define first where "first = ?first"
  define pre where "pre = first # be16_bytes (of_nat ?m) @ data_bytes pkt @ headers_bytes G pkt"
  define body where "body = ?body"
  define b where "b = pre @ body @ drop (n + (3 + length d)) buf"
  have enc: "g_obex_packet_encode G pkt buf len = Some (int ?m, b)"
    using packet_encode_body [OF assms(1) _ assms(4-6)] assms(2,3,7)
    by (simp add: first_def pre_def body_def b_def add.assoc)
  have l: "length pre = n" "length body = 3 + length d"
    using packet_wf_lengths [OF assms(1)] assms(2) by (simp_all add: packet_length_def pre_def body_def)
  have op: "p_opcode pkt AND FINAL_BIT = 0" using assms(1) by (simp add: packet_wf_def)
  have succ: "G_OBEX_RSP_SUCCESS AND FINAL_BIT = 0" by (simp add: G_OBEX_RSP_SUCCESS_def FINAL_BIT_def)
  have cont: "G_OBEX_RSP_CONTINUE AND FINAL_BIT = 0" by (simp add: G_OBEX_RSP_CONTINUE_def FINAL_BIT_def)
  have f: "first_byte pkt = p_opcode pkt" using assms(8) by (simp add: first_byte_def)
  have "(first AND FINAL_BIT \<noteq> 0 \<longleftrightarrow> d = []) \<and> first AND NOT FINAL_BIT =
      (if d = [] \<and> p_opcode pkt = G_OBEX_RSP_CONTINUE then G_OBEX_RSP_SUCCESS else p_opcode pkt)"
    unfolding first_def f
    by (cases "d = []"; cases "p_opcode pkt = G_OBEX_RSP_CONTINUE")
      (use op in \<open>simp_all only: final_bits [OF op] final_bits [OF succ] final_bits [OF cont] simp_thms if_True if_False\<close>)
  moreover have "b ! 0 = first" by (simp add: b_def pre_def)
  moreover have "length b = length buf" "drop ?m b = drop ?m buf" "take (3 + length d) (drop n b) = ?body"
    using splice [OF l, of buf] assms(3,4) by (simp_all add: b_def body_def add.assoc)
  ultimately show ?thesis using enc by metis
qed

theorem obex_packet_body_witness:
  "\<exists>b. g_obex_packet_encode ascii_glib
       (packet_example\<lparr>p_opcode := G_OBEX_RSP_CONTINUE, p_final := False, p_get_body := Some (\<lambda>n. (0, []))\<rparr>)
       (replicate 20 0) 20 = Some (15, b) \<and> b ! 0 AND FINAL_BIT \<noteq> 0 \<and> b ! 0 AND NOT FINAL_BIT = G_OBEX_RSP_SUCCESS"
proof -
  let ?pkt = "packet_example\<lparr>p_opcode := G_OBEX_RSP_CONTINUE, p_final := False, p_get_body := Some (\<lambda>n. (0, []))\<rparr>"
  have wf: "packet_wf ascii_glib ?pkt"
    using packet_example_wf [of ascii_glib] by (simp add: packet_wf_def G_OBEX_RSP_CONTINUE_def FINAL_BIT_def)
  have n: "12 = packet_length ?pkt" by (simp add: packet_example_def packet_length_def)
  have gb: "p_get_body ?pkt = Some (\<lambda>n. (0, []))" and nf: "\<not> p_final ?pkt"
      and op: "p_opcode ?pkt = G_OBEX_RSP_CONTINUE" by simp_all
  have size: "12 + 3 + length ([] :: u8 list) \<le> 20" "20 \<le> length (replicate 20 0 :: u8 list)" "(20 :: nat) < 2 ^ 64"
      "(\<lambda>n. (0, [])) (20 - 12 - 3 :: nat) = (int (length ([] :: u8 list)), [] :: u8 list)" by simp_all
  obtain b where "g_obex_packet_encode ascii_glib ?pkt (replicate 20 0) 20 =
      Some (int (12 + 3 + length ([] :: u8 list)), b)" "b ! 0 AND FINAL_BIT \<noteq> 0" "b ! 0 AND NOT FINAL_BIT = G_OBEX_RSP_SUCCESS"
    using obex_packet_body [OF wf n size(1-3) gb size(4) nf] op by (elim exE conjE) simp
  then show ?thesis by (intro exI [of _ b]) simp
qed

end
