(* ===== verification/Shared_Att.thy ===== *)
theory Shared_Att
  imports Shared_Crypto
begin

text \<open>
  The attribute protocol transport of \<open>src/shared/att.c\<close>: the queues of operations to send, the
  request and the indication that wait for an answer, the dispatch of received PDUs, the registered
  handlers, and what happens when the link breaks.

  The record \<open>bt_att\<close> is the struct; its queues are lists, by the contract proved in
  \<open>Shared_Queue\<close>. Function pointers and user data are numbers, a NULL function pointer is
  \<^const>\<open>None\<close>. \<open>att_sys\<close> adds a log of what an observer sees: callbacks, bytes sent, calls
  of the I/O layer, and a note when an operation is queued. A callback may use the object: what it
  does is the function \<open>react\<close> of the environment, which the theorems restrict by \<open>client_ok\<close>,
  the relation that every operation of the API guarantees in turn. A callback that releases the last
  reference is not covered by it, except in \<open>can_read_data\<close>, which holds a reference of its own.

  The remaining fields of the environment are the answers of the system: the I/O layer, the security
  level of the socket, and the contents of fresh memory.
\<close>

section \<open>Opcodes and their types\<close>

datatype att_op_type =
  ATT_OP_TYPE_REQ | ATT_OP_TYPE_RSP | ATT_OP_TYPE_CMD | ATT_OP_TYPE_IND | ATT_OP_TYPE_NOT
| ATT_OP_TYPE_CONF | ATT_OP_TYPE_UNKNOWN

abbreviation (input) "BT_ATT_OP_ERROR_RSP \<equiv> 0x01 :: u8"
abbreviation (input) "BT_ATT_OP_HANDLE_VAL_CONF \<equiv> 0x1E :: u8"
abbreviation (input) "BT_ATT_ALL_REQUESTS \<equiv> 0x00 :: u8"
abbreviation (input) "ATT_OP_CMD_MASK \<equiv> 0x40 :: u8"
abbreviation (input) "ATT_OP_SIGNED_MASK \<equiv> 0x80 :: u8"
abbreviation (input) "BT_ATT_DEFAULT_LE_MTU \<equiv> 23 :: u16"

definition att_opcode_type_table :: "(u8 \<times> att_op_type) list" where
  "att_opcode_type_table =
     [(0x01, ATT_OP_TYPE_RSP), (0x02, ATT_OP_TYPE_REQ), (0x03, ATT_OP_TYPE_RSP),
      (0x04, ATT_OP_TYPE_REQ), (0x05, ATT_OP_TYPE_RSP), (0x06, ATT_OP_TYPE_REQ),
      (0x07, ATT_OP_TYPE_RSP), (0x08, ATT_OP_TYPE_REQ), (0x09, ATT_OP_TYPE_RSP),
      (0x0a, ATT_OP_TYPE_REQ), (0x0b, ATT_OP_TYPE_RSP), (0x0c, ATT_OP_TYPE_REQ),
      (0x0d, ATT_OP_TYPE_RSP), (0x0e, ATT_OP_TYPE_REQ), (0x0f, ATT_OP_TYPE_RSP),
      (0x10, ATT_OP_TYPE_REQ), (0x11, ATT_OP_TYPE_RSP), (0x12, ATT_OP_TYPE_REQ),
      (0x13, ATT_OP_TYPE_RSP), (0x52, ATT_OP_TYPE_CMD), (0xD2, ATT_OP_TYPE_CMD),
      (0x16, ATT_OP_TYPE_REQ), (0x17, ATT_OP_TYPE_RSP), (0x18, ATT_OP_TYPE_REQ),
      (0x19, ATT_OP_TYPE_RSP), (0x1B, ATT_OP_TYPE_NOT), (0x1D, ATT_OP_TYPE_IND),
      (0x1E, ATT_OP_TYPE_CONF)]"

definition get_op_type :: "u8 \<Rightarrow> att_op_type" where
  "get_op_type opcode =
     (case map_of att_opcode_type_table opcode of
        Some t \<Rightarrow> t
      | None \<Rightarrow> if opcode AND ATT_OP_CMD_MASK \<noteq> 0 then ATT_OP_TYPE_CMD else ATT_OP_TYPE_UNKNOWN)"

text \<open>Pairs of a response opcode and its request opcode.\<close>

definition att_req_rsp_mapping_table :: "(u8 \<times> u8) list" where
  "att_req_rsp_mapping_table =
     [(0x03, 0x02), (0x05, 0x04), (0x07, 0x06), (0x09, 0x08), (0x0b, 0x0a), (0x0d, 0x0c),
      (0x0f, 0x0e), (0x11, 0x10), (0x13, 0x12), (0x17, 0x16), (0x19, 0x18)]"

definition get_req_opcode :: "u8 \<Rightarrow> u8" where
  "get_req_opcode rsp_opcode =
     (case map_of att_req_rsp_mapping_table rsp_opcode of Some q \<Rightarrow> q | None \<Rightarrow> 0)"

section \<open>The state\<close>

type_synonym fn = nat
type_synonym ptr = nat

record att_send_op =
  op_id :: u32
  op_timeout_id :: u32
  op_type :: att_op_type
  op_opcode :: u8
  op_pdu :: "u8 list"
  op_len :: u16
  op_callback :: "fn option"
  op_destroy :: "fn option"
  op_user_data :: ptr

record att_notify =
  nt_id :: u32
  nt_opcode :: u16
  nt_callback :: "fn option"
  nt_destroy :: "fn option"
  nt_user_data :: ptr

record att_disconn =
  dn_id :: u32
  dn_removed :: bool
  dn_callback :: "fn option"
  dn_destroy :: "fn option"
  dn_user_data :: ptr

record sign_info =
  sg_key :: "u8 list"
  sg_counter :: fn
  sg_user_data :: ptr

record bt_att =
  att_ref_count :: int
  fd :: int
  io :: "ptr option"
  io_on_l2cap :: bool
  io_sec_level :: int
  enc_size :: u8
  req_queue :: "att_send_op list"
  pending_req :: "att_send_op option"
  ind_queue :: "att_send_op list"
  pending_ind :: "att_send_op option"
  write_queue :: "att_send_op list"
  writer_active :: bool
  notify_list :: "att_notify list"
  disconn_list :: "att_disconn list"
  in_req :: bool
  buf :: "u8 list"
  mtu :: u16
  next_send_id :: u32
  next_reg_id :: u32
  timeout_callback :: "fn option"
  timeout_destroy :: "fn option"
  timeout_data :: ptr
  debug_callback :: "fn option"
  debug_destroy :: "fn option"
  debug_data :: ptr
  crypto :: "kernel option"
  local_sign :: "sign_info option"
  remote_sign :: "sign_info option"

text \<open>
  What an observer sees. \<open>Response\<close>, \<open>Notified\<close>, \<open>Disconnected\<close>, \<open>TimedOut\<close> and
  the three \<open>Destroy\<close> entries are calls of client functions (of an operation, of a registered
  handler, of the timeout and debug hooks); \<open>Queued\<close> notes that an operation was accepted.
\<close>

datatype act =
  Response fn u8 "u8 list option" ptr
| Notified fn u8 "u8 list" ptr
| Disconnected fn int ptr
| TimedOut fn u32 u8 ptr
| DestroyOp fn ptr
| DestroyReg fn ptr
| DestroyHook fn ptr
| Queued att_send_op
| IoSend "u8 list"
| IoShutdown
| IoDestroy
| TimeoutAdd u32
| TimeoutRemove u32
| SetSecurity int

record att_sys = bt_att +
  trace :: "act list"

record env =
  react :: "act \<Rightarrow> att_sys \<Rightarrow> att_sys"
  sign_counter :: "fn \<Rightarrow> ptr \<Rightarrow> u32 option \<Rightarrow> u32 option"
  fresh :: "nat \<Rightarrow> u8"
  write_handler :: bool
  sock_security :: "int option"
  sock_set_security :: "int \<Rightarrow> bool"
  new_timeout :: u32

definition logged :: "act \<Rightarrow> att_sys \<Rightarrow> att_sys" where
  "logged c a = a\<lparr>trace := trace a @ [c]\<rparr>"

text \<open>A call through a function pointer that is tested for NULL.\<close>

definition call_if :: "env \<Rightarrow> fn option \<Rightarrow> (fn \<Rightarrow> act) \<Rightarrow> att_sys \<Rightarrow> att_sys" where
  "call_if E f c a = (case f of None \<Rightarrow> a | Some g \<Rightarrow> react E (c g) (logged (c g) a))"

definition malloc :: "env \<Rightarrow> nat \<Rightarrow> u8 list" where
  "malloc E n = map (fresh E) [0..<n]"

text \<open>The I/O layer, with a NULL object.\<close>

definition io_shutdown :: "att_sys \<Rightarrow> att_sys" where
  "io_shutdown a = (if io a = None then a else logged IoShutdown a)"

definition io_set_write_handler :: "env \<Rightarrow> att_sys \<Rightarrow> bool" where
  "io_set_write_handler E a = (io a \<noteq> None \<and> write_handler E)"

definition write_watch_destroy :: "att_sys \<Rightarrow> att_sys" where
  "write_watch_destroy a = a\<lparr>writer_active := False\<rparr>"

text \<open>Destroying the I/O object runs the destroy function of its write handler.\<close>

definition io_destroy :: "att_sys \<Rightarrow> att_sys" where
  "io_destroy a = (if io a = None then a else write_watch_destroy (logged IoDestroy a))"

section \<open>Operations to send\<close>

definition destroy_att_send_op :: "env \<Rightarrow> att_send_op \<Rightarrow> att_sys \<Rightarrow> att_sys" where
  "destroy_att_send_op E op a =
     (let a = (if op_timeout_id op \<noteq> 0 then logged (TimeoutRemove (op_timeout_id op)) a else a)
      in call_if E (op_destroy op) (\<lambda>d. DestroyOp d (op_user_data op)) a)"

definition clear_op :: "att_send_op \<Rightarrow> att_send_op" where
  "clear_op op = op\<lparr>op_user_data := 0, op_callback := None, op_destroy := None\<rparr>"

text \<open>
  Only the pending operations are cancelled in place: the fields are cleared, after the destroy
  function has run, in the operation the object still points to.
\<close>

definition cancel_pending_req :: "env \<Rightarrow> att_sys \<Rightarrow> att_sys" where
  "cancel_pending_req E a =
     (case pending_req a of
        None \<Rightarrow> a
      | Some op \<Rightarrow>
          let a = call_if E (op_destroy op) (\<lambda>d. DestroyOp d (op_user_data op)) a
          in a\<lparr>pending_req := map_option clear_op (pending_req a)\<rparr>)"

definition cancel_pending_ind :: "env \<Rightarrow> att_sys \<Rightarrow> att_sys" where
  "cancel_pending_ind E a =
     (case pending_ind a of
        None \<Rightarrow> a
      | Some op \<Rightarrow>
          let a = call_if E (op_destroy op) (\<lambda>d. DestroyOp d (op_user_data op)) a
          in a\<lparr>pending_ind := map_option clear_op (pending_ind a)\<rparr>)"

text \<open>The length of the PDU is computed in 16 bits; the copy takes all of \<open>len\<close>.\<close>

definition pdu_length :: "att_sys \<Rightarrow> u8 \<Rightarrow> u8 list option \<Rightarrow> u16 \<Rightarrow> u16" where
  "pdu_length a opcode pdu len =
     (let pdu_len = 1;
          pdu_len = (if local_sign a \<noteq> None \<and> opcode AND ATT_OP_SIGNED_MASK \<noteq> 0
                     then pdu_len + 12 else pdu_len)
      in if len \<noteq> 0 \<and> pdu \<noteq> None then pdu_len + len else pdu_len)"

definition encode_pdu ::
  "env \<Rightarrow> att_sys \<Rightarrow> att_send_op \<Rightarrow> u8 list option \<Rightarrow> u16 \<Rightarrow> att_send_op option option" where
  "encode_pdu E a op pdu len =
     (if mtu a < pdu_length a (op_opcode op) pdu len then Some None
      else do {
        p \<leftarrow> buf_write (malloc E (unat (pdu_length a (op_opcode op) pdu len))) 0 [op_opcode op];
        p \<leftarrow> (if 1 < pdu_length a (op_opcode op) pdu len
              then do {
                d \<leftarrow> (case pdu of None \<Rightarrow> if len = 0 then Some [] else None
                                | Some d \<Rightarrow> buf_read d 0 (unat len));
                buf_write p 1 d }
              else Some p);
        let op = op\<lparr>op_len := pdu_length a (op_opcode op) pdu len, op_pdu := p\<rparr>;
        case local_sign a of
          None \<Rightarrow> Some (Some op)
        | Some sign \<Rightarrow>
            if op_opcode op AND ATT_OP_SIGNED_MASK = 0 \<or> crypto a = None then Some (Some op)
            else case sign_counter E (sg_counter sign) (sg_user_data sign) None of
                None \<Rightarrow> Some None
              | Some sign_cnt \<Rightarrow>
                  and_then (bt_crypto_sign_att (crypto a) (sg_key sign) p (1 + len) sign_cnt) (\<lambda>sig. do {
                    p \<leftarrow> buf_write p (1 + unat len) sig;
                    Some (Some (op\<lparr>op_pdu := p\<rparr>)) }) })"

definition create_att_send_op ::
  "env \<Rightarrow> att_sys \<Rightarrow> u8 \<Rightarrow> u8 list option \<Rightarrow> u16 \<Rightarrow> fn option \<Rightarrow> ptr \<Rightarrow> fn option \<Rightarrow>
   att_send_op option option" where
  "create_att_send_op E a opcode pdu len callback user_data destroy =
     (let type = get_op_type opcode
      in if len \<noteq> 0 \<and> pdu = None then Some None
      else if type = ATT_OP_TYPE_UNKNOWN then Some None
      else if callback \<noteq> None \<and> type \<noteq> ATT_OP_TYPE_REQ \<and> type \<noteq> ATT_OP_TYPE_IND then Some None
      else if callback = None \<and> (type = ATT_OP_TYPE_REQ \<or> type = ATT_OP_TYPE_IND) then Some None
      else encode_pdu E a
        \<lparr>op_id = 0, op_timeout_id = 0, op_type = type, op_opcode = opcode, op_pdu = [], op_len = 0,
         op_callback = callback, op_destroy = destroy, op_user_data = user_data\<rparr> pdu len)"

definition pick_next_send_op :: "att_sys \<Rightarrow> att_send_op option \<times> att_sys" where
  "pick_next_send_op a =
     (case write_queue a of
        op # q \<Rightarrow> (Some op, a\<lparr>write_queue := q\<rparr>)
      | [] \<Rightarrow>
          (case (pending_req a, req_queue a) of
             (None, op # q) \<Rightarrow> (Some op, a\<lparr>req_queue := q\<rparr>)
           | _ \<Rightarrow>
               (case (pending_ind a, ind_queue a) of
                  (None, op # q) \<Rightarrow> (Some op, a\<lparr>ind_queue := q\<rparr>)
                | _ \<Rightarrow> (None, a))))"

definition wakeup_writer :: "env \<Rightarrow> att_sys \<Rightarrow> att_sys" where
  "wakeup_writer E a =
     (if writer_active a then a
      else if write_queue a = [] \<and> (pending_req a \<noteq> None \<or> req_queue a = []) \<and>
              (pending_ind a \<noteq> None \<or> ind_queue a = []) then a
      else if \<not> io_set_write_handler E a then a
      else a\<lparr>writer_active := True\<rparr>)"

definition bt_att_send ::
  "env \<Rightarrow> u8 \<Rightarrow> u8 list option \<Rightarrow> u16 \<Rightarrow> fn option \<Rightarrow> ptr \<Rightarrow> fn option \<Rightarrow> att_sys \<Rightarrow>
   (u32 \<times> att_sys) option" where
  "bt_att_send E opcode pdu len callback user_data destroy a =
     (if io a = None then Some (0, a)
      else do {
        r \<leftarrow> create_att_send_op E a opcode pdu len callback user_data destroy;
        case r of
          None \<Rightarrow> Some (0, a)
        | Some op \<Rightarrow>
            let nid = (if next_send_id a < 1 then 1 else next_send_id a);
                op = op\<lparr>op_id := nid\<rparr>;
                a = logged (Queued op) (a\<lparr>next_send_id := nid + 1\<rparr>);
                a = (case op_type op of
                       ATT_OP_TYPE_REQ \<Rightarrow> a\<lparr>req_queue := req_queue a @ [op]\<rparr>
                     | ATT_OP_TYPE_IND \<Rightarrow> a\<lparr>ind_queue := ind_queue a @ [op]\<rparr>
                     | _ \<Rightarrow> a\<lparr>write_queue := write_queue a @ [op]\<rparr>)
            in Some (nid, wakeup_writer E a) })"

definition match_op_id :: "u32 \<Rightarrow> att_send_op \<Rightarrow> bool" where
  "match_op_id i op \<longleftrightarrow> op_id op = i"

definition pending_is :: "u32 \<Rightarrow> att_send_op option \<Rightarrow> bool" where
  "pending_is i p = (case p of None \<Rightarrow> False | Some op \<Rightarrow> op_id op = i)"

definition bt_att_cancel :: "env \<Rightarrow> u32 \<Rightarrow> att_sys \<Rightarrow> bool \<times> att_sys" where
  "bt_att_cancel E i a =
     (if i = 0 then (False, a)
      else if pending_is i (pending_req a) then (True, cancel_pending_req E a)
      else if pending_is i (pending_ind a) then (True, cancel_pending_ind E a)
      else case take_first (match_op_id i) (req_queue a) of
        Some (op, q) \<Rightarrow> (True, wakeup_writer E (destroy_att_send_op E op (a\<lparr>req_queue := q\<rparr>)))
      | None \<Rightarrow>
          (case take_first (match_op_id i) (ind_queue a) of
             Some (op, q) \<Rightarrow> (True, wakeup_writer E (destroy_att_send_op E op (a\<lparr>ind_queue := q\<rparr>)))
           | None \<Rightarrow>
               (case take_first (match_op_id i) (write_queue a) of
                  Some (op, q) \<Rightarrow> (True, wakeup_writer E (destroy_att_send_op E op (a\<lparr>write_queue := q\<rparr>)))
                | None \<Rightarrow> (False, a))))"

text \<open>
  \<open>queue_remove_all\<close> without a match function empties the queue before it hands out the data.
\<close>

definition flush_queues :: "(att_send_op \<Rightarrow> att_sys \<Rightarrow> att_sys) \<Rightarrow> att_sys \<Rightarrow> att_sys" where
  "flush_queues f a =
     (let a = fold f (req_queue a) (a\<lparr>req_queue := []\<rparr>);
          a = fold f (ind_queue a) (a\<lparr>ind_queue := []\<rparr>)
      in fold f (write_queue a) (a\<lparr>write_queue := []\<rparr>))"

definition bt_att_cancel_all :: "env \<Rightarrow> att_sys \<Rightarrow> att_sys" where
  "bt_att_cancel_all E a =
     cancel_pending_ind E (cancel_pending_req E (flush_queues (destroy_att_send_op E) a))"

definition ENOENT :: int where "ENOENT = 2"
definition ENOMEM :: int where "ENOMEM = 12"
definition EALREADY :: int where "EALREADY = 114"
definition EOVERFLOW :: int where "EOVERFLOW = 75"
definition EIO :: int where "EIO = 5"

definition att_ecode_from_error :: "int \<Rightarrow> u8" where
  "att_ecode_from_error err =
     (if 0 < err \<and> err < 255 then word_of_int err
      else if err = - ENOENT then 0x01
      else if err = - ENOMEM then 0x11
      else if err = - EALREADY then 0xfe
      else if err = - EOVERFLOW then 0xff
      else 0x0E)"

definition bt_att_send_error_rsp ::
  "env \<Rightarrow> u8 \<Rightarrow> u16 \<Rightarrow> int \<Rightarrow> att_sys \<Rightarrow> (u32 \<times> att_sys) option" where
  "bt_att_send_error_rsp E opcode handle error a =
     (if opcode = 0 then Some (0, a)
      else bt_att_send E BT_ATT_OP_ERROR_RSP
        (Some ([opcode] @ le16_bytes handle @ [att_ecode_from_error error])) 4 None 0 None a)"

definition respond_not_supported :: "env \<Rightarrow> u8 \<Rightarrow> att_sys \<Rightarrow> att_sys option" where
  "respond_not_supported E opcode a =
     map_option snd (bt_att_send E BT_ATT_OP_ERROR_RSP
       (Some ([opcode] @ le16_bytes 0 @ [0x06])) 4 None 0 None a)"

section \<open>Registered handlers\<close>

definition destroy_att_notify :: "env \<Rightarrow> att_notify \<Rightarrow> att_sys \<Rightarrow> att_sys" where
  "destroy_att_notify E n = call_if E (nt_destroy n) (\<lambda>d. DestroyReg d (nt_user_data n))"

definition destroy_att_disconn :: "env \<Rightarrow> att_disconn \<Rightarrow> att_sys \<Rightarrow> att_sys" where
  "destroy_att_disconn E n = call_if E (dn_destroy n) (\<lambda>d. DestroyReg d (dn_user_data n))"

definition match_notify_id :: "u32 \<Rightarrow> att_notify \<Rightarrow> bool" where
  "match_notify_id i n \<longleftrightarrow> nt_id n = i"

definition match_disconn_id :: "u32 \<Rightarrow> att_disconn \<Rightarrow> bool" where
  "match_disconn_id i n \<longleftrightarrow> dn_id n = i"

definition bt_att_register ::
  "u8 \<Rightarrow> fn option \<Rightarrow> ptr \<Rightarrow> fn option \<Rightarrow> att_sys \<Rightarrow> u32 \<times> att_sys" where
  "bt_att_register opcode callback user_data destroy a =
     (if callback = None \<or> io a = None then (0, a)
      else let nid = (if next_reg_id a < 1 then 1 else next_reg_id a);
               notify = \<lparr>nt_id = nid, nt_opcode = ucast opcode, nt_callback = callback,
                         nt_destroy = destroy, nt_user_data = user_data\<rparr>
           in (nid, a\<lparr>next_reg_id := nid + 1, notify_list := notify_list a @ [notify]\<rparr>))"

definition bt_att_unregister :: "env \<Rightarrow> u32 \<Rightarrow> att_sys \<Rightarrow> bool \<times> att_sys" where
  "bt_att_unregister E i a =
     (if i = 0 then (False, a)
      else case take_first (match_notify_id i) (notify_list a) of
        None \<Rightarrow> (False, a)
      | Some (n, q) \<Rightarrow> (True, destroy_att_notify E n (a\<lparr>notify_list := q\<rparr>)))"

definition bt_att_register_disconnect ::
  "fn option \<Rightarrow> ptr \<Rightarrow> fn option \<Rightarrow> att_sys \<Rightarrow> u32 \<times> att_sys" where
  "bt_att_register_disconnect callback user_data destroy a =
     (if io a = None then (0, a)
      else let nid = (if next_reg_id a < 1 then 1 else next_reg_id a);
               disconn = \<lparr>dn_id = nid, dn_removed = False, dn_callback = callback,
                          dn_destroy = destroy, dn_user_data = user_data\<rparr>
           in (nid, a\<lparr>next_reg_id := nid + 1, disconn_list := disconn_list a @ [disconn]\<rparr>))"

text \<open>While the disconnect handlers run, a handler is only marked.\<close>

fun mark_removed :: "u32 \<Rightarrow> att_disconn list \<Rightarrow> att_disconn list" where
  "mark_removed i [] = []"
| "mark_removed i (d # ds) =
     (if match_disconn_id i d then d\<lparr>dn_removed := True\<rparr> # ds else d # mark_removed i ds)"

definition bt_att_unregister_disconnect :: "env \<Rightarrow> u32 \<Rightarrow> att_sys \<Rightarrow> bool \<times> att_sys" where
  "bt_att_unregister_disconnect E i a =
     (if i = 0 then (False, a)
      else if io a = None then
        (if find (match_disconn_id i) (disconn_list a) = None then (False, a)
         else (True, a\<lparr>disconn_list := mark_removed i (disconn_list a)\<rparr>))
      else case take_first (match_disconn_id i) (disconn_list a) of
        None \<Rightarrow> (False, a)
      | Some (d, q) \<Rightarrow> (True, destroy_att_disconn E d (a\<lparr>disconn_list := q\<rparr>)))"

definition bt_att_unregister_all :: "env \<Rightarrow> att_sys \<Rightarrow> att_sys" where
  "bt_att_unregister_all E a =
     (let a = fold (destroy_att_notify E) (notify_list a) (a\<lparr>notify_list := []\<rparr>)
      in fold (destroy_att_disconn E) (disconn_list a) (a\<lparr>disconn_list := []\<rparr>))"

section \<open>References\<close>

text \<open>The object after a release: still held, or freed, with the log at that time.\<close>

datatype held = Held att_sys | Freed "act list"

definition bt_att_ref :: "att_sys \<Rightarrow> att_sys" where
  "bt_att_ref a = a\<lparr>att_ref_count := att_ref_count a + 1\<rparr>"

definition destroy_pending :: "env \<Rightarrow> att_send_op option \<Rightarrow> att_sys \<Rightarrow> att_sys" where
  "destroy_pending E p a = (case p of None \<Rightarrow> a | Some op \<Rightarrow> destroy_att_send_op E op a)"

definition bt_att_free :: "env \<Rightarrow> att_sys \<Rightarrow> act list" where
  "bt_att_free E a =
     (let a = destroy_pending E (pending_req a) a;
          a = destroy_pending E (pending_ind a) a;
          a = io_destroy a;
          a = call_if E (timeout_destroy a) (\<lambda>d. DestroyHook d (timeout_data a)) a;
          a = call_if E (debug_destroy a) (\<lambda>d. DestroyHook d (debug_data a)) a
      in trace a)"

definition bt_att_unref :: "env \<Rightarrow> att_sys \<Rightarrow> held" where
  "bt_att_unref E a =
     (let a = a\<lparr>att_ref_count := att_ref_count a - 1\<rparr>
      in if att_ref_count a \<noteq> 0 then Held a
      else Freed (bt_att_free E (bt_att_cancel_all E (bt_att_unregister_all E a))))"

text \<open>An object that was freed must not be used again.\<close>

fun still_held :: "held \<Rightarrow> att_sys option" where
  "still_held (Held a) = Some a"
| "still_held (Freed t) = None"

section \<open>Events of the write side\<close>

text \<open>
  While a callback of a pending operation runs, the operation may be cancelled in place; afterwards
  the code reads it through its own pointer, which is the one the object holds.
\<close>

definition current :: "att_send_op option \<Rightarrow> att_send_op \<Rightarrow> att_send_op" where
  "current p op = (case p of None \<Rightarrow> op | Some op' \<Rightarrow> op')"

text \<open>\<open>timeout_cb\<close>, with the identifier the timer was started for.\<close>

definition timeout_cb :: "env \<Rightarrow> u32 \<Rightarrow> att_sys \<Rightarrow> att_sys" where
  "timeout_cb E i a =
     (let (op, a) =
        (if pending_is i (pending_req a) then (pending_req a, a\<lparr>pending_req := None\<rparr>)
         else if pending_is i (pending_ind a) then (pending_ind a, a\<lparr>pending_ind := None\<rparr>)
         else (None, a))
      in case op of
        None \<Rightarrow> a
      | Some op \<Rightarrow>
          let a = call_if E (timeout_callback a) (\<lambda>f. TimedOut f (op_id op) (op_opcode op) (timeout_data a)) a
          in io_shutdown (destroy_att_send_op E (op\<lparr>op_timeout_id := 0\<rparr>) a))"

definition call_response :: "env \<Rightarrow> att_send_op \<Rightarrow> u8 \<Rightarrow> u8 list option \<Rightarrow> att_sys \<Rightarrow> att_sys" where
  "call_response E op opcode pdu =
     call_if E (op_callback op) (\<lambda>cb. Response cb opcode pdu (op_user_data op))"

text \<open>\<open>ret\<close> is what sending answers; a timer is started for a request and an indication.\<close>

definition can_write_data :: "env \<Rightarrow> int \<Rightarrow> att_sys \<Rightarrow> bool \<times> att_sys" where
  "can_write_data E ret a =
     (case pick_next_send_op a of
        (None, a) \<Rightarrow> (False, a)
      | (Some op, a) \<Rightarrow>
          if ret < 0 then
            (True, destroy_att_send_op E op (call_response E op BT_ATT_OP_ERROR_RSP None a))
          else
            let a = logged (IoSend (op_pdu op)) a
            in case op_type op of
                 ATT_OP_TYPE_REQ \<Rightarrow>
                   (True, logged (TimeoutAdd (op_id op))
                     (a\<lparr>pending_req := Some (op\<lparr>op_timeout_id := new_timeout E\<rparr>)\<rparr>))
               | ATT_OP_TYPE_IND \<Rightarrow>
                   (True, logged (TimeoutAdd (op_id op))
                     (a\<lparr>pending_ind := Some (op\<lparr>op_timeout_id := new_timeout E\<rparr>)\<rparr>))
               | ATT_OP_TYPE_RSP \<Rightarrow> (True, destroy_att_send_op E op (a\<lparr>in_req := False\<rparr>))
               | _ \<Rightarrow> (True, destroy_att_send_op E op a))"

text \<open>
  The I/O layer calls the handler when the socket can take data, and its destroy function when the
  handler answers false (\<open>io_callback\<close> of \<open>src/shared/io-mainloop.c\<close>).
\<close>

definition io_write_ready :: "env \<Rightarrow> int \<Rightarrow> att_sys \<Rightarrow> att_sys" where
  "io_write_ready E ret a =
     (let (again, a) = can_write_data E ret a in if again then a else write_watch_destroy a)"

section \<open>Disconnection\<close>

definition disc_att_send_op :: "env \<Rightarrow> att_send_op \<Rightarrow> att_sys \<Rightarrow> att_sys" where
  "disc_att_send_op E op a =
     destroy_att_send_op E op (call_response E op BT_ATT_OP_ERROR_RSP None a)"

definition disc_pending_req :: "env \<Rightarrow> att_sys \<Rightarrow> att_sys" where
  "disc_pending_req E a =
     (case pending_req a of
        None \<Rightarrow> a
      | Some op \<Rightarrow>
          let a = call_response E op BT_ATT_OP_ERROR_RSP None a;
              a = destroy_att_send_op E (current (pending_req a) op) a
          in a\<lparr>pending_req := None\<rparr>)"

definition disc_pending_ind :: "env \<Rightarrow> att_sys \<Rightarrow> att_sys" where
  "disc_pending_ind E a =
     (case pending_ind a of
        None \<Rightarrow> a
      | Some op \<Rightarrow>
          let a = call_response E op BT_ATT_OP_ERROR_RSP None a;
              a = destroy_att_send_op E (current (pending_ind a) op) a
          in a\<lparr>pending_ind := None\<rparr>)"

text \<open>The entry with an identifier, and the entry after it.\<close>

fun entry_at :: "('a \<Rightarrow> bool) \<Rightarrow> 'a list \<Rightarrow> ('a \<times> 'a option) option" where
  "entry_at p [] = None"
| "entry_at p (x # xs) =
     (if p x then Some (x, case xs of [] \<Rightarrow> None | y # _ \<Rightarrow> Some y) else entry_at p xs)"

definition first_entry :: "'a list \<Rightarrow> 'a option" where
  "first_entry xs = (case xs of [] \<Rightarrow> None | x # _ \<Rightarrow> Some x)"

definition disconn_handler :: "env \<Rightarrow> int \<Rightarrow> att_disconn \<Rightarrow> att_sys \<Rightarrow> att_sys" where
  "disconn_handler E err d a =
     (if dn_removed d then a else call_if E (dn_callback d) (\<lambda>f. Disconnected f err (dn_user_data d)) a)"

text \<open>
  \<open>queue_foreach\<close> over the disconnect handlers. Entries are told apart by their identifiers; the
  entry to go on with has to be in the list still, otherwise its memory was freed.
\<close>

partial_function (option) disconn_loop ::
  "env \<Rightarrow> int \<Rightarrow> u32 option \<Rightarrow> att_sys \<Rightarrow> att_sys option" where
  [code]: "disconn_loop E err cur a =
     (case cur of
        None \<Rightarrow> Some a
      | Some i \<Rightarrow>
          if disconn_list a = [] then Some a
          else case entry_at (match_disconn_id i) (disconn_list a) of
            None \<Rightarrow> None
          | Some (d, nxt) \<Rightarrow> disconn_loop E err (map_option dn_id nxt) (disconn_handler E err d a))"

text \<open>\<open>so_error\<close> is the pending error of the socket, when it can be read.\<close>

definition disconnect_cb :: "env \<Rightarrow> int option \<Rightarrow> att_sys \<Rightarrow> held option" where
  "disconnect_cb E so_error a =
     (let err = (case so_error of None \<Rightarrow> 0 | Some e \<Rightarrow> e);
          a = (io_destroy a)\<lparr>io := None\<rparr>;
          a = flush_queues (disc_att_send_op E) a;
          a = disc_pending_req E a;
          a = disc_pending_ind E a;
          a = bt_att_ref a
      in do {
        a \<leftarrow> disconn_loop E err (map_option dn_id (first_entry (disconn_list a))) a;
        Some (bt_att_unref E (bt_att_unregister_all E a)) })"

section \<open>Security\<close>

definition bt_att_get_security :: "env \<Rightarrow> att_sys \<Rightarrow> int \<times> u8 option" where
  "bt_att_get_security E a =
     (if \<not> io_on_l2cap a then (io_sec_level a, Some (enc_size a))
      else case sock_security E of
        None \<Rightarrow> (- EIO, None)
      | Some level \<Rightarrow> (level, Some (enc_size a)))"

definition bt_att_set_security :: "env \<Rightarrow> int \<Rightarrow> att_sys \<Rightarrow> bool \<times> att_sys" where
  "bt_att_set_security E level a =
     (if level < 0 \<or> 3 < level then (False, a)
      else if \<not> io_on_l2cap a then (True, a\<lparr>io_sec_level := level\<rparr>)
      else (sock_set_security E level, logged (SetSecurity level) a))"

definition change_security :: "env \<Rightarrow> u8 \<Rightarrow> att_sys \<Rightarrow> bool \<times> att_sys" where
  "change_security E ecode a =
     (if io_sec_level a \<noteq> 0 then (False, a)
      else let security = fst (bt_att_get_security E a)
      in if ecode = 0x0F \<and> security < 2 then bt_att_set_security E 2 a
      else if ecode = 0x05 then
        (if security < 2 then bt_att_set_security E 2 a
         else if security < 3 then bt_att_set_security E 3 a
         else if security < 4 then bt_att_set_security E 4 a
         else (False, a))
      else (False, a))"

section \<open>Received PDUs\<close>

text \<open>
  The answer says whether the operation is sent again, and the opcode of the request the error is
  about. \<open>pdu\<close> is what follows the opcode, in the length received.
\<close>

definition handle_error_rsp :: "env \<Rightarrow> u8 list \<Rightarrow> att_send_op \<Rightarrow> att_sys \<Rightarrow> bool \<times> u8 \<times> att_sys" where
  "handle_error_rsp E pdu op a =
     (if length pdu \<noteq> 4 then (False, 0, a)
      else let opcode = pdu ! 0;
               (changed, a) = change_security E (pdu ! 3) a
      in if \<not> changed then (False, opcode, a)
      else let (op, a) =
                 (if op_timeout_id op \<noteq> 0
                  then (op\<lparr>op_timeout_id := 0\<rparr>, logged (TimeoutRemove (op_timeout_id op)) a)
                  else (op, a))
      in (True, opcode, a\<lparr>pending_req := None, req_queue := op # req_queue a\<rparr>))"

text \<open>The end of \<open>handle_rsp\<close>, from the label \<open>done\<close>.\<close>

definition rsp_done :: "env \<Rightarrow> u8 \<Rightarrow> u8 list option \<Rightarrow> att_send_op \<Rightarrow> att_sys \<Rightarrow> att_sys" where
  "rsp_done E rsp_opcode rsp_pdu op a =
     (let a = call_response E op rsp_opcode rsp_pdu a;
          a = destroy_att_send_op E (current (pending_req a) op) a
      in wakeup_writer E (a\<lparr>pending_req := None\<rparr>))"

definition rsp_match :: "env \<Rightarrow> u8 \<Rightarrow> u8 list \<Rightarrow> u8 \<Rightarrow> att_send_op \<Rightarrow> att_sys \<Rightarrow> att_sys" where
  "rsp_match E opcode pdu req_opcode op a =
     (if req_opcode \<noteq> op_opcode op then rsp_done E BT_ATT_OP_ERROR_RSP None op a
      else rsp_done E opcode (if pdu = [] then None else Some pdu) op a)"

definition handle_rsp :: "env \<Rightarrow> u8 \<Rightarrow> u8 list \<Rightarrow> att_sys \<Rightarrow> att_sys" where
  "handle_rsp E opcode pdu a =
     (case pending_req a of
        None \<Rightarrow> io_shutdown a
      | Some op \<Rightarrow>
          if opcode = BT_ATT_OP_ERROR_RSP then
            let (retry, req_opcode, a) = handle_error_rsp E pdu op a
            in if retry then wakeup_writer E a else rsp_match E opcode pdu req_opcode op a
          else if get_req_opcode opcode = 0 then rsp_done E BT_ATT_OP_ERROR_RSP None op a
          else rsp_match E opcode pdu (get_req_opcode opcode) op a)"

definition handle_conf :: "env \<Rightarrow> u8 list \<Rightarrow> att_sys \<Rightarrow> att_sys" where
  "handle_conf E pdu a =
     (case pending_ind a of
        None \<Rightarrow> io_shutdown a
      | Some op \<Rightarrow>
          if pdu \<noteq> [] then io_shutdown a
          else let a = call_response E op BT_ATT_OP_HANDLE_VAL_CONF None a;
                   a = destroy_att_send_op E (current (pending_ind a) op) a
               in wakeup_writer E (a\<lparr>pending_ind := None\<rparr>))"

definition opcode_match :: "u8 \<Rightarrow> u8 \<Rightarrow> bool" where
  "opcode_match opcode test_opcode =
     (let op_type = get_op_type test_opcode
      in if opcode = BT_ATT_ALL_REQUESTS \<and> (op_type = ATT_OP_TYPE_REQ \<or> op_type = ATT_OP_TYPE_CMD)
         then True else opcode = test_opcode)"

text \<open>The signature that is computed goes over the one received; they are not compared.\<close>

definition handle_signed :: "env \<Rightarrow> u8 list \<Rightarrow> att_sys \<Rightarrow> bool option" where
  "handle_signed E pdu a =
     (if length pdu < 2 + 12 then Some False
      else case remote_sign a of
        None \<Rightarrow> Some False
      | Some sign \<Rightarrow> do {
          sign_cnt \<leftarrow> get_le32 (drop (length pdu - 12) pdu);
          case sign_counter E (sg_counter sign) (sg_user_data sign) (Some sign_cnt) of
            None \<Rightarrow> Some False
          | Some sign_cnt \<Rightarrow> do {
              r \<leftarrow> bt_crypto_sign_att (crypto a) (sg_key sign) pdu (of_nat (length pdu - 12)) sign_cnt;
              Some (r \<noteq> None) } })"

text \<open>
  The loop of \<open>handle_notify\<close>: the successor of an entry is read before its callback runs.
\<close>

partial_function (option) notify_loop ::
  "env \<Rightarrow> u8 \<Rightarrow> u8 list \<Rightarrow> u32 option \<Rightarrow> bool \<Rightarrow> att_sys \<Rightarrow> (bool \<times> att_sys) option" where
  [code]: "notify_loop E opcode pdu cur found a =
     (case cur of
        None \<Rightarrow> Some (found, a)
      | Some i \<Rightarrow>
          (case entry_at (match_notify_id i) (notify_list a) of
             None \<Rightarrow> None
           | Some (n, nxt) \<Rightarrow>
               if \<not> opcode_match (ucast (nt_opcode n)) opcode
               then notify_loop E opcode pdu (map_option nt_id nxt) found a
               else let a = call_if E (nt_callback n) (\<lambda>f. Notified f opcode pdu (nt_user_data n)) a
                    in if notify_list a = [] then Some (True, a)
                       else notify_loop E opcode pdu (map_option nt_id nxt) True a))"

definition handle_notify :: "env \<Rightarrow> u8 \<Rightarrow> u8 list \<Rightarrow> att_sys \<Rightarrow> held option" where
  "handle_notify E opcode pdu a =
     (let signed = (opcode AND ATT_OP_SIGNED_MASK \<noteq> 0 \<and> crypto a = None)
      in do {
        ok \<leftarrow> (if signed then handle_signed E pdu a else Some True);
        if \<not> ok then Some (Held a)
        else do {
          let pdu = (if signed then take (length pdu - 12) pdu else pdu);
          let a = bt_att_ref a;
          (found, a) \<leftarrow> notify_loop E opcode pdu (map_option nt_id (first_entry (notify_list a))) False a;
          a \<leftarrow> (if \<not> found \<and> get_op_type opcode \<noteq> ATT_OP_TYPE_CMD
               then respond_not_supported E opcode a else Some a);
          Some (bt_att_unref E a) } })"

text \<open>What \<open>can_read_data\<close> does with a PDU, by the type of its opcode.\<close>

definition dispatch_pdu :: "env \<Rightarrow> u8 \<Rightarrow> u8 list \<Rightarrow> att_sys \<Rightarrow> (bool \<times> held) option" where
  "dispatch_pdu E opcode pdu a =
     (case get_op_type opcode of
        ATT_OP_TYPE_RSP \<Rightarrow> Some (True, bt_att_unref E (handle_rsp E opcode pdu a))
      | ATT_OP_TYPE_CONF \<Rightarrow> Some (True, bt_att_unref E (handle_conf E pdu a))
      | ty \<Rightarrow>
          if ty = ATT_OP_TYPE_REQ \<and> in_req a then
            Some (False, bt_att_unref E (io_shutdown a))
          else do {
            h \<leftarrow> handle_notify E opcode pdu (if ty = ATT_OP_TYPE_REQ then a\<lparr>in_req := True\<rparr> else a);
            a \<leftarrow> still_held h;
            Some (True, bt_att_unref E a) })"

text \<open>
  \<open>rd\<close> is what reading the socket delivers, \<^const>\<open>None\<close> for an error; at most
  \<open>mtu\<close> bytes are taken.
\<close>

definition can_read_data :: "env \<Rightarrow> u8 list option \<Rightarrow> att_sys \<Rightarrow> (bool \<times> held) option" where
  "can_read_data E rd a =
     (case rd of
        None \<Rightarrow> Some (False, Held a)
      | Some d \<Rightarrow> do {
          b \<leftarrow> buf_write (buf a) 0 (take (unat (mtu a)) d);
          let a = a\<lparr>buf := b\<rparr>;
          case take (unat (mtu a)) d of
            [] \<Rightarrow> Some (True, Held a)
          | opcode # pdu \<Rightarrow> dispatch_pdu E opcode pdu (bt_att_ref a) })"

section \<open>The object\<close>

definition is_io_l2cap_based :: "int option \<Rightarrow> int option \<Rightarrow> bool" where
  "is_io_l2cap_based domain proto =
     (case domain of
        None \<Rightarrow> False
      | Some d \<Rightarrow> if d \<noteq> 31 then False else (case proto of None \<Rightarrow> False | Some p \<Rightarrow> p = 0))"

definition get_l2cap_mtu :: "u16 option \<Rightarrow> u16" where
  "get_l2cap_mtu omtu = (case omtu of None \<Rightarrow> 0 | Some m \<Rightarrow> m)"

text \<open>\<open>sockname\<close> is an error number, or the type of the local address.\<close>

definition bt_att_get_link_type :: "int + u8 \<Rightarrow> att_sys \<Rightarrow> u8" where
  "bt_att_get_link_type sockname a =
     (if \<not> io_on_l2cap a then 0xff
      else case sockname of
        Inl errno \<Rightarrow> word_of_int (- errno)
      | Inr bdaddr_type \<Rightarrow> if bdaddr_type = 0 then 0x00 else 0x01)"

record att_os =
  os_io :: "ptr option"
  os_crypto :: "kernel option"
  os_handlers :: bool
  os_domain :: "int option"
  os_proto :: "int option"
  os_sockname :: "int + u8"
  os_omtu :: "u16 option"

definition bt_att_new :: "env \<Rightarrow> att_os \<Rightarrow> int \<Rightarrow> bool \<Rightarrow> att_sys option" where
  "bt_att_new E S descr ext_signed =
     (if descr < 0 then None
      else if os_io S = None then None
      else if \<not> os_handlers S then None
      else
        let l2cap = is_io_l2cap_based (os_domain S) (os_proto S);
            a = \<lparr>att_ref_count = 0, fd = descr, io = os_io S, io_on_l2cap = l2cap,
                 io_sec_level = (if l2cap then 0 else 1), enc_size = 0,
                 req_queue = [], pending_req = None, ind_queue = [], pending_ind = None,
                 write_queue = [], writer_active = False, notify_list = [], disconn_list = [],
                 in_req = False, buf = [], mtu = 0, next_send_id = 0, next_reg_id = 0,
                 timeout_callback = None, timeout_destroy = None, timeout_data = 0,
                 debug_callback = None, debug_destroy = None, debug_data = 0,
                 crypto = (if ext_signed then None else os_crypto S),
                 local_sign = None, remote_sign = None, trace = []\<rparr>;
            m = (if bt_att_get_link_type (os_sockname S) a = 0x00
                 then get_l2cap_mtu (os_omtu S) else BT_ATT_DEFAULT_LE_MTU)
        in if m < BT_ATT_DEFAULT_LE_MTU then None
        else Some (bt_att_ref (a\<lparr>mtu := m, buf := malloc E (unat m)\<rparr>)))"

definition bt_att_set_mtu :: "env \<Rightarrow> u16 \<Rightarrow> att_sys \<Rightarrow> bool \<times> att_sys" where
  "bt_att_set_mtu E m a =
     (if m < BT_ATT_DEFAULT_LE_MTU then (False, a)
      else (True, a\<lparr>mtu := m, buf := malloc E (unat m)\<rparr>))"

definition bt_att_set_debug ::
  "env \<Rightarrow> fn option \<Rightarrow> ptr \<Rightarrow> fn option \<Rightarrow> att_sys \<Rightarrow> att_sys" where
  "bt_att_set_debug E callback user_data destroy a =
     (call_if E (debug_destroy a) (\<lambda>d. DestroyHook d (debug_data a)) a)
       \<lparr>debug_callback := callback, debug_destroy := destroy, debug_data := user_data\<rparr>"

definition bt_att_set_timeout_cb ::
  "env \<Rightarrow> fn option \<Rightarrow> ptr \<Rightarrow> fn option \<Rightarrow> att_sys \<Rightarrow> att_sys" where
  "bt_att_set_timeout_cb E callback user_data destroy a =
     (call_if E (timeout_destroy a) (\<lambda>d. DestroyHook d (timeout_data a)) a)
       \<lparr>timeout_callback := callback, timeout_destroy := destroy, timeout_data := user_data\<rparr>"

definition bt_att_set_enc_key_size :: "u8 \<Rightarrow> att_sys \<Rightarrow> att_sys" where
  "bt_att_set_enc_key_size n a = a\<lparr>enc_size := n\<rparr>"

text \<open>\<open>memcpy\<close> takes 16 bytes of the key.\<close>

definition sign_set_key :: "u8 list \<Rightarrow> fn \<Rightarrow> ptr \<Rightarrow> sign_info option" where
  "sign_set_key key func user_data = do {
     k \<leftarrow> buf_read key 0 16;
     Some \<lparr>sg_key = k, sg_counter = func, sg_user_data = user_data\<rparr> }"

definition bt_att_set_local_key :: "u8 list \<Rightarrow> fn \<Rightarrow> ptr \<Rightarrow> att_sys \<Rightarrow> (bool \<times> att_sys) option" where
  "bt_att_set_local_key key func user_data a = do {
     sg \<leftarrow> sign_set_key key func user_data; Some (True, a\<lparr>local_sign := Some sg\<rparr>) }"

definition bt_att_set_remote_key :: "u8 list \<Rightarrow> fn \<Rightarrow> ptr \<Rightarrow> att_sys \<Rightarrow> (bool \<times> att_sys) option" where
  "bt_att_set_remote_key key func user_data a = do {
     sg \<leftarrow> sign_set_key key func user_data; Some (True, a\<lparr>remote_sign := Some sg\<rparr>) }"

definition bt_att_has_crypto :: "att_sys \<Rightarrow> bool" where
  "bt_att_has_crypto a = (crypto a \<noteq> None)"

section \<open>The interface and the events\<close>

datatype api_call =
  Send u8 "u8 list option" u16 "fn option" ptr "fn option"
| SendErrorRsp u8 u16 int
| Cancel u32
| CancelAll
| Register u8 "fn option" ptr "fn option"
| Unregister u32
| UnregisterAll
| RegisterDisconnect "fn option" ptr "fn option"
| UnregisterDisconnect u32
| SetMtu u16
| SetSecurityLevel int
| SetEncKeySize u8
| SetLocalKey "u8 list" fn ptr
| SetRemoteKey "u8 list" fn ptr
| SetDebug "fn option" ptr "fn option"
| SetTimeoutCb "fn option" ptr "fn option"
| Ref

datatype reply = Rid u32 | Rbool bool | Rvoid

text \<open>
  The operations on a non-NULL object; each tests for NULL first and then answers \<open>api_null\<close>.
\<close>

fun api :: "env \<Rightarrow> api_call \<Rightarrow> att_sys \<Rightarrow> (reply \<times> att_sys) option" where
  "api E (Send opcode pdu len cb ud ds) a =
     map_option (apfst Rid) (bt_att_send E opcode pdu len cb ud ds a)"
| "api E (SendErrorRsp opcode h e) a = map_option (apfst Rid) (bt_att_send_error_rsp E opcode h e a)"
| "api E (Cancel i) a = Some (apfst Rbool (bt_att_cancel E i a))"
| "api E CancelAll a = Some (Rbool True, bt_att_cancel_all E a)"
| "api E (Register opcode cb ud ds) a = Some (apfst Rid (bt_att_register opcode cb ud ds a))"
| "api E (Unregister i) a = Some (apfst Rbool (bt_att_unregister E i a))"
| "api E UnregisterAll a = Some (Rbool True, bt_att_unregister_all E a)"
| "api E (RegisterDisconnect cb ud ds) a = Some (apfst Rid (bt_att_register_disconnect cb ud ds a))"
| "api E (UnregisterDisconnect i) a = Some (apfst Rbool (bt_att_unregister_disconnect E i a))"
| "api E (SetMtu m) a = Some (apfst Rbool (bt_att_set_mtu E m a))"
| "api E (SetSecurityLevel l) a = Some (apfst Rbool (bt_att_set_security E l a))"
| "api E (SetEncKeySize n) a = Some (Rvoid, bt_att_set_enc_key_size n a)"
| "api E (SetLocalKey k f u) a = map_option (apfst Rbool) (bt_att_set_local_key k f u a)"
| "api E (SetRemoteKey k f u) a = map_option (apfst Rbool) (bt_att_set_remote_key k f u a)"
| "api E (SetDebug cb ud ds) a = Some (Rbool True, bt_att_set_debug E cb ud ds a)"
| "api E (SetTimeoutCb cb ud ds) a = Some (Rbool True, bt_att_set_timeout_cb E cb ud ds a)"
| "api E Ref a = Some (Rvoid, bt_att_ref a)"

fun api_null :: "api_call \<Rightarrow> reply" where
  "api_null (Send opcode pdu len cb ud ds) = Rid 0"
| "api_null (SendErrorRsp opcode h e) = Rid 0"
| "api_null (Register opcode cb ud ds) = Rid 0"
| "api_null (RegisterDisconnect cb ud ds) = Rid 0"
| "api_null (SetEncKeySize n) = Rvoid"
| "api_null Ref = Rvoid"
| "api_null _ = Rbool False"

text \<open>
  The steps of an object: a call of the interface, and the callbacks of the main loop, which fire
  under the conditions of the I/O layer. A callback may free the object, which ends its steps.
\<close>

inductive att_step :: "env \<Rightarrow> att_sys \<Rightarrow> att_sys \<Rightarrow> bool" for E where
  call: "api E c a = Some (r, a') \<Longrightarrow> att_step E a a'"
| release: "bt_att_unref E a = Held a' \<Longrightarrow> att_step E a a'"
| can_write: "io a \<noteq> None \<Longrightarrow> writer_active a \<Longrightarrow> att_step E a (io_write_ready E ret a)"
| can_read: "io a \<noteq> None \<Longrightarrow> can_read_data E rd a = Some (again, Held a') \<Longrightarrow> att_step E a a'"
| timeout: "att_step E a (timeout_cb E i a)"
| hangup: "io a \<noteq> None \<Longrightarrow> disconnect_cb E so_error a = Some (Held a') \<Longrightarrow> att_step E a a'"

end
