(* ===== verification/Att_Contract.thy ===== *)
theory Att_Contract
  imports Shared_Att
begin

text \<open>
  The contract between the transport of \<open>Shared_Att\<close> and its client, in rely/guarantee form:
  \<open>att_keeps\<close> and \<open>balance\<close> say what a callback may do to the object while the transport is in
  the middle of an operation, and every operation of the interface is shown to guarantee the same, so
  that a client whose callbacks use the interface meets the contract.
\<close>

section \<open>Well-formed objects\<close>

definition op_wf :: "att_send_op \<Rightarrow> bool" where
  "op_wf op \<longleftrightarrow>
     get_op_type (op_opcode op) = op_type op \<and> op_type op \<noteq> ATT_OP_TYPE_UNKNOWN \<and>
     length (op_pdu op) = unat (op_len op) \<and> (\<exists>r. op_pdu op = op_opcode op # r)"

text \<open>Each operation is well-formed and waits in the queue of its type.\<close>

definition att_wf :: "att_sys \<Rightarrow> bool" where
  "att_wf a \<longleftrightarrow>
     (\<forall>op\<in>set (req_queue a) \<union> set_option (pending_req a). op_wf op \<and> op_type op = ATT_OP_TYPE_REQ) \<and>
     (\<forall>op\<in>set (ind_queue a) \<union> set_option (pending_ind a). op_wf op \<and> op_type op = ATT_OP_TYPE_IND) \<and>
     (\<forall>op\<in>set (write_queue a). op_wf op \<and> op_type op \<notin> {ATT_OP_TYPE_REQ, ATT_OP_TYPE_IND}) \<and>
     BT_ATT_DEFAULT_LE_MTU \<le> mtu a \<and> length (buf a) = unat (mtu a)"

text \<open>An operation can be sent now; if so, the object waits to be called when the socket is ready.\<close>

definition sendable :: "att_sys \<Rightarrow> bool" where
  "sendable a \<longleftrightarrow> write_queue a \<noteq> [] \<or> (pending_req a = None \<and> req_queue a \<noteq> []) \<or>
     (pending_ind a = None \<and> ind_queue a \<noteq> [])"

definition awake :: "att_sys \<Rightarrow> bool" where
  "awake a \<longleftrightarrow> io a = None \<or> IoShutdown \<in> set (trace a) \<or> writer_active a \<or> \<not> sendable a"

text \<open>Without a link nothing waits.\<close>

definition quiet :: "att_sys \<Rightarrow> bool" where
  "quiet a \<longleftrightarrow> (io a = None \<longrightarrow>
     req_queue a = [] \<and> pending_req a = None \<and> ind_queue a = [] \<and> pending_ind a = None \<and>
     write_queue a = [] \<and> notify_list a = [] \<and> disconn_list a = [])"

section \<open>The ledger of destroy functions\<close>

text \<open>
  For a destroy function and its datum: how often it came in with an accepted operation, less how
  often it ran, less how often it is still held.
\<close>

definition tok :: "fn \<times> ptr \<Rightarrow> att_send_op \<Rightarrow> int" where
  "tok x op = (if op_destroy op = Some (fst x) \<and> op_user_data op = snd x then 1 else 0)"

definition toks :: "fn \<times> ptr \<Rightarrow> att_send_op list \<Rightarrow> int" where
  "toks x ops = sum_list (map (tok x) ops)"

definition pend :: "fn \<times> ptr \<Rightarrow> att_send_op option \<Rightarrow> int" where
  "pend x p = (case p of None \<Rightarrow> 0 | Some op \<Rightarrow> tok x op)"

definition owned :: "fn \<times> ptr \<Rightarrow> att_sys \<Rightarrow> int" where
  "owned x a = toks x (req_queue a) + toks x (ind_queue a) + toks x (write_queue a) +
     pend x (pending_req a) + pend x (pending_ind a)"

fun entry_in :: "fn \<times> ptr \<Rightarrow> act \<Rightarrow> int" where
  "entry_in x (Queued op) = tok x op"
| "entry_in x _ = 0"

fun entry_out :: "fn \<times> ptr \<Rightarrow> act \<Rightarrow> int" where
  "entry_out x (DestroyOp d u) = (if (d, u) = x then 1 else 0)"
| "entry_out x _ = 0"

definition taken_in :: "fn \<times> ptr \<Rightarrow> act list \<Rightarrow> int" where
  "taken_in x t = sum_list (map (entry_in x) t)"

definition given_out :: "fn \<times> ptr \<Rightarrow> act list \<Rightarrow> int" where
  "given_out x t = sum_list (map (entry_out x) t)"

definition balance :: "fn \<times> ptr \<Rightarrow> att_sys \<Rightarrow> int" where
  "balance x a = taken_in x (trace a) - given_out x (trace a) - owned x a"

lemma toks_simps [simp]:
  "toks x [] = 0" "toks x (op # ops) = tok x op + toks x ops"
  "toks x (ops @ ops') = toks x ops + toks x ops'"
  by (simp_all add: toks_def)

lemma pend_simps [simp]: "pend x None = 0" "pend x (Some op) = tok x op"
  by (simp_all add: pend_def)

lemma tok_clear [simp]: "tok x (clear_op op) = 0"
  by (simp add: tok_def clear_op_def)

lemma pend_clear [simp]: "pend x (map_option clear_op p) = 0"
  by (cases p) simp_all

lemma tok_updates [simp]:
  "tok x (op\<lparr>op_id := i\<rparr>) = tok x op" "tok x (op\<lparr>op_timeout_id := t\<rparr>) = tok x op"
  "tok x (op\<lparr>op_len := n\<rparr>) = tok x op" "tok x (op\<lparr>op_pdu := p\<rparr>) = tok x op"
  by (simp_all add: tok_def)

lemma taken_in_append [simp]: "taken_in x (t @ t') = taken_in x t + taken_in x t'"
  by (simp add: taken_in_def)

lemma given_out_append [simp]: "given_out x (t @ t') = given_out x t + given_out x t'"
  by (simp add: given_out_def)

lemma balance_logged:
  "balance x (logged c a) = balance x a + entry_in x c - entry_out x c"
  by (simp add: balance_def logged_def owned_def taken_in_def given_out_def)

section \<open>What a callback may do\<close>

definition shrinks :: "att_sys \<Rightarrow> att_sys \<Rightarrow> bool" where
  "shrinks a a' \<longleftrightarrow>
     (req_queue a = [] \<longrightarrow> req_queue a' = []) \<and> (ind_queue a = [] \<longrightarrow> ind_queue a' = []) \<and>
     (write_queue a = [] \<longrightarrow> write_queue a' = []) \<and> (notify_list a = [] \<longrightarrow> notify_list a' = []) \<and>
     (disconn_list a' = [] \<or> map dn_id (disconn_list a') = map dn_id (disconn_list a))"

text \<open>
  The link and the answer that is owed stay as they are, pending operations stay (their functions may
  be cleared), the log grows, the object stays well-formed, awake and held, and without a link nothing
  comes in.
\<close>

definition att_keeps :: "att_sys \<Rightarrow> att_sys \<Rightarrow> bool" where
  "att_keeps a a' \<longleftrightarrow>
     io a' = io a \<and> in_req a' = in_req a \<and>
     map_option clear_op (pending_req a') = map_option clear_op (pending_req a) \<and>
     map_option clear_op (pending_ind a') = map_option clear_op (pending_ind a) \<and>
     (\<exists>t. trace a' = trace a @ t) \<and> (att_wf a \<longrightarrow> att_wf a') \<and> (awake a \<longrightarrow> awake a') \<and>
     (0 < att_ref_count a \<longrightarrow> 0 < att_ref_count a') \<and> (io a = None \<longrightarrow> shrinks a a')"

definition att_evolves :: "att_sys \<Rightarrow> att_sys \<Rightarrow> bool" where
  "att_evolves a a' \<longleftrightarrow> att_keeps a a' \<and> (\<forall>x. balance x a' = balance x a)"

text \<open>
  The client: its callbacks evolve the object, and a destroy function of an operation does not cancel
  a pending operation (the one it belongs to is still pending while it runs).
\<close>

definition client_ok :: "env \<Rightarrow> bool" where
  "client_ok E \<longleftrightarrow>
     (\<forall>c a. att_evolves a (react E c a)) \<and>
     (\<forall>d u a. pending_req (react E (DestroyOp d u) a) = pending_req a \<and>
        pending_ind (react E (DestroyOp d u) a) = pending_ind a)"

lemma shrinks_refl [simp]: "shrinks a a"
  by (simp add: shrinks_def)

lemma att_keeps_refl [simp]: "att_keeps a a"
  by (simp add: att_keeps_def)

lemma shrinks_trans: "shrinks a b \<Longrightarrow> shrinks b c \<Longrightarrow> shrinks a c"
  unfolding shrinks_def by (metis map_is_Nil_conv)

lemma att_keeps_trans [trans]:
  assumes "att_keeps a b" and "att_keeps b c"
  shows "att_keeps a c"
proof -
  obtain t where t: "trace b = trace a @ t" using assms(1) by (auto simp: att_keeps_def)
  obtain t' where t': "trace c = trace b @ t'" using assms(2) by (auto simp: att_keeps_def)
  from t t' have "trace c = trace a @ (t @ t')" by simp
  moreover have "io a = None \<longrightarrow> shrinks a c"
    using assms shrinks_trans [of a b c] by (simp add: att_keeps_def)
  ultimately show ?thesis using assms unfolding att_keeps_def by (intro conjI) (blast | simp)+
qed

lemma att_evolves_refl [simp]: "att_evolves a a"
  by (simp add: att_evolves_def)

lemma att_evolves_trans [trans]: "att_evolves a b \<Longrightarrow> att_evolves b c \<Longrightarrow> att_evolves a c"
  unfolding att_evolves_def using att_keeps_trans by auto

lemma keeps_react: "client_ok E \<Longrightarrow> att_keeps a (react E c a)"
  by (simp add: client_ok_def att_evolves_def)

lemma balance_react: "client_ok E \<Longrightarrow> balance x (react E c a) = balance x a"
  unfolding client_ok_def att_evolves_def by blast

lemma pending_react_destroy:
  "client_ok E \<Longrightarrow> pending_req (react E (DestroyOp d u) a) = pending_req a"
  "client_ok E \<Longrightarrow> pending_ind (react E (DestroyOp d u) a) = pending_ind a"
  by (simp_all add: client_ok_def)

lemma logged_simps [simp]:
  "io (logged c a) = io a" "in_req (logged c a) = in_req a"
  "pending_req (logged c a) = pending_req a" "pending_ind (logged c a) = pending_ind a"
  "req_queue (logged c a) = req_queue a" "ind_queue (logged c a) = ind_queue a"
  "write_queue (logged c a) = write_queue a" "writer_active (logged c a) = writer_active a"
  "notify_list (logged c a) = notify_list a" "disconn_list (logged c a) = disconn_list a"
  "trace (logged c a) = trace a @ [c]" "mtu (logged c a) = mtu a" "buf (logged c a) = buf a"
  "att_ref_count (logged c a) = att_ref_count a"
  "next_send_id (logged c a) = next_send_id a"
  by (simp_all add: logged_def)

lemma att_wf_logged [simp]: "att_wf (logged c a) = att_wf a"
  by (simp add: att_wf_def)

lemma keeps_logged: "att_keeps a (logged c a)"
  by (auto simp: att_keeps_def awake_def sendable_def shrinks_def)

lemma keeps_call: "client_ok E \<Longrightarrow> att_keeps a (react E c (logged c' a))"
  by (rule att_keeps_trans [OF keeps_logged keeps_react])

lemma keeps_call_if: "client_ok E \<Longrightarrow> att_keeps a (call_if E f c a)"
  by (cases f) (simp_all add: call_if_def keeps_call)

lemma evolves_call_if:
  "client_ok E \<Longrightarrow> (\<And>g x. entry_in x (c g) = 0 \<and> entry_out x (c g) = 0) \<Longrightarrow>
   att_evolves a (call_if E f c a)"
  by (cases f) (simp_all add: att_evolves_def keeps_call call_if_def balance_react balance_logged)

section \<open>Destroying and cancelling\<close>

lemma keeps_destroy_op: "client_ok E \<Longrightarrow> att_keeps a (destroy_att_send_op E op a)"
  by (auto simp: destroy_att_send_op_def Let_def intro: att_keeps_trans [OF keeps_logged] keeps_call_if)

lemma balance_destroy_op:
  "client_ok E \<Longrightarrow> balance x (destroy_att_send_op E op a) = balance x a - tok x op"
  by (cases "op_destroy op"; cases x)
     (auto simp: destroy_att_send_op_def Let_def call_if_def balance_react balance_logged tok_def)

lemma pending_destroy_op:
  "client_ok E \<Longrightarrow> pending_req (destroy_att_send_op E op a) = pending_req a"
  "client_ok E \<Longrightarrow> pending_ind (destroy_att_send_op E op a) = pending_ind a"
  by (auto simp: destroy_att_send_op_def Let_def call_if_def pending_react_destroy split: option.split)

lemma keeps_cancel_req: "client_ok E \<Longrightarrow> att_keeps a (cancel_pending_req E a)"
proof (cases "pending_req a")
  case (Some op)
  assume ok: "client_ok E"
  let ?b = "call_if E (op_destroy op) (\<lambda>d. DestroyOp d (op_user_data op)) a"
  have "att_keeps ?b (?b\<lparr>pending_req := map_option clear_op (pending_req ?b)\<rparr>)"
    by (cases "pending_req ?b")
       (auto simp: att_keeps_def awake_def sendable_def shrinks_def att_wf_def op_wf_def clear_op_def)
  with keeps_call_if [OF ok] show ?thesis
    using Some by (auto simp: cancel_pending_req_def Let_def intro: att_keeps_trans)
qed (simp add: cancel_pending_req_def)

lemma keeps_cancel_ind: "client_ok E \<Longrightarrow> att_keeps a (cancel_pending_ind E a)"
proof (cases "pending_ind a")
  case (Some op)
  assume ok: "client_ok E"
  let ?b = "call_if E (op_destroy op) (\<lambda>d. DestroyOp d (op_user_data op)) a"
  have "att_keeps ?b (?b\<lparr>pending_ind := map_option clear_op (pending_ind ?b)\<rparr>)"
    by (cases "pending_ind ?b")
       (auto simp: att_keeps_def awake_def sendable_def shrinks_def att_wf_def op_wf_def clear_op_def)
  with keeps_call_if [OF ok] show ?thesis
    using Some by (auto simp: cancel_pending_ind_def Let_def intro: att_keeps_trans)
qed (simp add: cancel_pending_ind_def)

lemma call_destroy_as_op:
  "call_if E (op_destroy op) (\<lambda>d. DestroyOp d (op_user_data op)) a =
   destroy_att_send_op E (op\<lparr>op_timeout_id := 0\<rparr>) a"
  by (simp add: destroy_att_send_op_def)

lemma balance_updates [simp]:
  "balance x (a\<lparr>pending_req := p\<rparr>) = balance x a + pend x (pending_req a) - pend x p"
  "balance x (a\<lparr>pending_ind := p\<rparr>) = balance x a + pend x (pending_ind a) - pend x p"
  "balance x (a\<lparr>req_queue := q\<rparr>) = balance x a + toks x (req_queue a) - toks x q"
  "balance x (a\<lparr>ind_queue := q\<rparr>) = balance x a + toks x (ind_queue a) - toks x q"
  "balance x (a\<lparr>write_queue := q\<rparr>) = balance x a + toks x (write_queue a) - toks x q"
  "balance x (a\<lparr>writer_active := w\<rparr>) = balance x a"
  "balance x (a\<lparr>notify_list := ns\<rparr>) = balance x a"
  "balance x (a\<lparr>disconn_list := ds\<rparr>) = balance x a"
  "balance x (a\<lparr>in_req := i\<rparr>) = balance x a" "balance x (a\<lparr>io := p'\<rparr>) = balance x a"
  "balance x (a\<lparr>buf := b\<rparr>) = balance x a" "balance x (a\<lparr>mtu := m\<rparr>) = balance x a"
  "balance x (a\<lparr>next_send_id := n\<rparr>) = balance x a" "balance x (a\<lparr>next_reg_id := n\<rparr>) = balance x a"
  "balance x (a\<lparr>att_ref_count := r\<rparr>) = balance x a" "balance x (a\<lparr>io_sec_level := l\<rparr>) = balance x a"
  "balance x (a\<lparr>enc_size := e\<rparr>) = balance x a"
  "balance x (a\<lparr>local_sign := sg\<rparr>) = balance x a" "balance x (a\<lparr>remote_sign := sg\<rparr>) = balance x a"
  "balance x (a\<lparr>debug_callback := f, debug_destroy := g, debug_data := u\<rparr>) = balance x a"
  "balance x (a\<lparr>timeout_callback := f, timeout_destroy := g, timeout_data := u\<rparr>) = balance x a"
  by (simp_all add: balance_def owned_def)

lemma balance_cancel_req: "client_ok E \<Longrightarrow> balance x (cancel_pending_req E a) = balance x a"
  by (simp add: cancel_pending_req_def Let_def call_destroy_as_op balance_destroy_op
      pending_destroy_op split: option.split)

lemma balance_cancel_ind: "client_ok E \<Longrightarrow> balance x (cancel_pending_ind E a) = balance x a"
  by (simp add: cancel_pending_ind_def Let_def call_destroy_as_op balance_destroy_op
      pending_destroy_op split: option.split)

lemma evolves_cancel_pending:
  "client_ok E \<Longrightarrow> att_evolves a (cancel_pending_req E a)"
  "client_ok E \<Longrightarrow> att_evolves a (cancel_pending_ind E a)"
  by (simp_all add: att_evolves_def keeps_cancel_req keeps_cancel_ind balance_cancel_req balance_cancel_ind)

section \<open>Waking the writer\<close>

lemma wakeup_cases: "wakeup_writer E a = a \<or> wakeup_writer E a = a\<lparr>writer_active := True\<rparr>"
  by (simp add: wakeup_writer_def)

lemma keeps_writer: "att_keeps a (a\<lparr>writer_active := True\<rparr>)"
  by (auto simp: att_keeps_def awake_def shrinks_def att_wf_def)

lemma evolves_wakeup: "att_evolves a (wakeup_writer E a)"
  using wakeup_cases [of E a] keeps_writer [of a] by (auto simp: att_evolves_def)

lemma awake_wakeup: "write_handler E \<Longrightarrow> awake (wakeup_writer E a)"
  by (auto simp: wakeup_writer_def awake_def sendable_def io_set_write_handler_def)

lemma att_wf_wakeup: "att_wf (wakeup_writer E a) = att_wf a"
  using wakeup_cases [of E a] by (auto simp: att_wf_def)

lemma balance_wakeup [simp]: "balance x (wakeup_writer E a) = balance x a"
  using wakeup_cases [of E a] by auto

section \<open>Taking operations out of the queues\<close>

lemma keeps_dequeue:
  "set q \<subseteq> set (req_queue a) \<Longrightarrow> att_keeps a (a\<lparr>req_queue := q\<rparr>)"
  "set q \<subseteq> set (ind_queue a) \<Longrightarrow> att_keeps a (a\<lparr>ind_queue := q\<rparr>)"
  "set q \<subseteq> set (write_queue a) \<Longrightarrow> att_keeps a (a\<lparr>write_queue := q\<rparr>)"
  by (auto simp: att_keeps_def awake_def sendable_def shrinks_def att_wf_def)

lemma keeps_unlist:
  "(notify_list a = [] \<Longrightarrow> ns = []) \<Longrightarrow> att_keeps a (a\<lparr>notify_list := ns\<rparr>)"
  "(io a = None \<Longrightarrow> ds = [] \<or> map dn_id ds = map dn_id (disconn_list a)) \<Longrightarrow>
   att_keeps a (a\<lparr>disconn_list := ds\<rparr>)"
  by (auto simp: att_keeps_def awake_def sendable_def shrinks_def att_wf_def)

lemma keeps_fold:
  "(\<And>y a. y \<in> set ys \<Longrightarrow> att_keeps a (f y a)) \<Longrightarrow> att_keeps a (fold f ys a)"
  by (induction ys arbitrary: a) (auto intro: att_keeps_trans)

lemma balance_fold:
  "(\<And>y a. y \<in> set ys \<Longrightarrow> balance x (f y a) = balance x a - g y) \<Longrightarrow>
   balance x (fold f ys a) = balance x a - sum_list (map g ys)"
  by (induction ys arbitrary: a) auto

lemma keeps_flush:
  assumes "\<And>op a. att_keeps a (f op a)"
  shows "att_keeps a (flush_queues f a)"
proof -
  let ?a = "fold f (req_queue a) (a\<lparr>req_queue := []\<rparr>)"
  let ?b = "fold f (ind_queue ?a) (?a\<lparr>ind_queue := []\<rparr>)"
  have "att_keeps a ?a" by (rule att_keeps_trans [OF keeps_dequeue(1) keeps_fold]) (simp_all add: assms)
  also have "att_keeps ?a ?b" by (rule att_keeps_trans [OF keeps_dequeue(2) keeps_fold]) (simp_all add: assms)
  also have "att_keeps ?b (fold f (write_queue ?b) (?b\<lparr>write_queue := []\<rparr>))"
    by (rule att_keeps_trans [OF keeps_dequeue(3) keeps_fold]) (simp_all add: assms)
  finally show ?thesis by (simp add: flush_queues_def Let_def)
qed

lemma balance_flush:
  assumes "\<And>op a. balance x (f op a) = balance x a - tok x op"
  shows "balance x (flush_queues f a) = balance x a"
  by (simp add: flush_queues_def Let_def balance_fold [where g = "tok x", OF assms] toks_def [symmetric])

lemma evolves_cancel_all: "client_ok E \<Longrightarrow> att_evolves a (bt_att_cancel_all E a)"
proof -
  assume ok: "client_ok E"
  have "att_evolves a (flush_queues (destroy_att_send_op E) a)"
    by (simp add: att_evolves_def keeps_flush keeps_destroy_op balance_flush balance_destroy_op ok)
  also note evolves_cancel_pending(1) [OF ok]
  also note evolves_cancel_pending(2) [OF ok]
  finally show ?thesis by (simp add: bt_att_cancel_all_def)
qed

lemma evolves_take_out:
  assumes "client_ok E" and "att_keeps a b" and "\<And>x. balance x b = balance x a + tok x op"
  shows "att_evolves a (wakeup_writer E (destroy_att_send_op E op b))"
proof -
  have "att_evolves a (destroy_att_send_op E op b)"
    using assms att_keeps_trans [OF assms(2) keeps_destroy_op]
    by (simp add: att_evolves_def balance_destroy_op)
  then show ?thesis using evolves_wakeup by (rule att_evolves_trans)
qed

lemma evolves_cancel:
  assumes ok: "client_ok E"
  shows "att_evolves a (snd (bt_att_cancel E i a))"
proof -
  have req: "att_evolves a (wakeup_writer E (destroy_att_send_op E op (a\<lparr>req_queue := q\<rparr>)))"
    if "take_first (match_op_id i) (req_queue a) = Some (op, q)" for op q
    using take_first_Some [OF that] by (intro evolves_take_out [OF ok] keeps_dequeue) auto
  have ind: "att_evolves a (wakeup_writer E (destroy_att_send_op E op (a\<lparr>ind_queue := q\<rparr>)))"
    if "take_first (match_op_id i) (ind_queue a) = Some (op, q)" for op q
    using take_first_Some [OF that] by (intro evolves_take_out [OF ok] keeps_dequeue) auto
  have wr: "att_evolves a (wakeup_writer E (destroy_att_send_op E op (a\<lparr>write_queue := q\<rparr>)))"
    if "take_first (match_op_id i) (write_queue a) = Some (op, q)" for op q
    using take_first_Some [OF that] by (intro evolves_take_out [OF ok] keeps_dequeue) auto
  show ?thesis
    by (simp add: bt_att_cancel_def evolves_cancel_pending [OF ok] req ind wr split: option.split prod.split)
qed

section \<open>Queueing an operation\<close>

lemma buf_write_shape:
  "buf_write (c # p) (Suc n) d = Some q \<Longrightarrow> \<exists>r. q = c # r \<and> length r = length p"
  by (auto simp: buf_write_def split: if_splits)

lemma buf_write_head: "buf_write b 0 [c] = Some p \<Longrightarrow> length p = length b \<and> (\<exists>r. p = c # r)"
  by (auto simp: buf_write_def split: if_splits)

definition made_from :: "u8 \<Rightarrow> u16 \<Rightarrow> u8 list \<Rightarrow> bool" where
  "made_from opcode n p \<longleftrightarrow> length p = unat n \<and> (\<exists>r. p = opcode # r)"

lemma made_from_write:
  "made_from opcode n p \<Longrightarrow> buf_write p (Suc i) d = Some q \<Longrightarrow> made_from opcode n q"
  using buf_write_shape [of opcode _ i d q] by (fastforce simp: made_from_def)

lemma malloc_length [simp]: "length (malloc E n) = n"
  by (simp add: malloc_def)

text \<open>
  What \<open>encode_pdu\<close> leaves of an operation: everything but the PDU and its length is as it was.
\<close>

definition encoded_from :: "att_send_op \<Rightarrow> att_send_op \<Rightarrow> bool" where
  "encoded_from op op' \<longleftrightarrow>
     made_from (op_opcode op) (op_len op') (op_pdu op') \<and>
     op' = op\<lparr>op_len := op_len op', op_pdu := op_pdu op'\<rparr>"

lemma encoded_fromI: "made_from (op_opcode op) n p \<Longrightarrow> encoded_from op (op\<lparr>op_len := n, op_pdu := p\<rparr>)"
  by (simp add: encoded_from_def)

definition yields :: "('a \<Rightarrow> bool) \<Rightarrow> 'a option option \<Rightarrow> bool" where
  "yields P m \<longleftrightarrow> (\<forall>x. m = Some (Some x) \<longrightarrow> P x)"

lemma yields_simps [simp]: "yields P None" "yields P (Some None)" "yields P (Some (Some x)) = P x"
  by (simp_all add: yields_def)

lemma yields_bind: "(\<And>x. m = Some x \<Longrightarrow> yields P (f x)) \<Longrightarrow> yields P (m \<bind> f)"
  by (cases m) simp_all

lemma yields_and_then: "(\<And>x. m = Some (Some x) \<Longrightarrow> yields P (f x)) \<Longrightarrow> yields P (and_then m f)"
  by (auto simp: and_then_def split: option.split)

lemma yields_if: "(c \<Longrightarrow> yields P m) \<Longrightarrow> (\<not> c \<Longrightarrow> yields P n) \<Longrightarrow> yields P (if c then m else n)"
  by simp

lemma yields_case_option:
  "(y = None \<Longrightarrow> yields P m) \<Longrightarrow> (\<And>x. y = Some x \<Longrightarrow> yields P (f x)) \<Longrightarrow>
   yields P (case y of None \<Rightarrow> m | Some x \<Rightarrow> f x)"
  by (cases y) simp_all

lemmas yields_rules = yields_bind yields_and_then yields_if yields_case_option

lemma encode_pdu_yields: "yields (encoded_from op) (encode_pdu E a op pdu len)"
proof -
  have first: "made_from (op_opcode op) n p" if "buf_write (malloc E (unat n)) 0 [op_opcode op] = Some p" for n p
    using buf_write_head [OF that] by (simp add: made_from_def)
  have body: "made_from c n q" if "made_from c n p" and
      "(if b then d \<bind> buf_write p 1 else Some p) = Some q" for c n p q b d
    using that made_from_write [of c n p 0] by (auto simp: bind_eq_Some_conv split: if_splits)
  have sig: "made_from c n q" if "made_from c n p" and "buf_write p (1 + i) d = Some q" for c n p q i d
    using that made_from_write [of c n p i] by simp
  have sig': "encoded_from op (op\<lparr>op_len := n, op_pdu := q\<rparr>)"
    if "made_from (op_opcode op) n p" and "buf_write p (1 + i) d = Some q" for n p q i d
    using sig [OF that] by (rule encoded_fromI)
  show ?thesis unfolding encode_pdu_def Let_def
  proof (rule yields_if, simp, rule yields_bind, rule yields_bind)
    fix p q
    assume "buf_write (malloc E (unat (pdu_length a (op_opcode op) pdu len))) 0 [op_opcode op] = Some p"
      and "(if 1 < pdu_length a (op_opcode op) pdu len
            then (case pdu of None \<Rightarrow> if len = 0 then Some [] else None
                  | Some d \<Rightarrow> buf_read d 0 (unat len)) \<bind> buf_write p 1 else Some p) = Some q"
    then have q: "made_from (op_opcode op) (pdu_length a (op_opcode op) pdu len) q"
      by (blast intro: body first)
    show "yields (encoded_from op) (case local_sign a of
        None \<Rightarrow> Some (Some (op\<lparr>op_len := pdu_length a (op_opcode op) pdu len, op_pdu := q\<rparr>))
      | Some sign \<Rightarrow>
          if op_opcode (op\<lparr>op_len := pdu_length a (op_opcode op) pdu len, op_pdu := q\<rparr>) AND 128 = 0 \<or>
             crypto a = None
          then Some (Some (op\<lparr>op_len := pdu_length a (op_opcode op) pdu len, op_pdu := q\<rparr>))
          else case sign_counter E (sg_counter sign) (sg_user_data sign) None of
              None \<Rightarrow> Some None
            | Some sign_cnt \<Rightarrow>
                and_then (bt_crypto_sign_att (crypto a) (sg_key sign) q (1 + len) sign_cnt)
                  (\<lambda>sig. buf_write q (1 + unat len) sig \<bind> (\<lambda>p.
                     Some (Some (op\<lparr>op_len := pdu_length a (op_opcode op) pdu len, op_pdu := q,
                       op_pdu := p\<rparr>)))))"
      using encoded_fromI [OF q] sig' [OF q]
      by (intro yields_rules) (simp_all del: One_nat_def plus_1_eq_Suc)
  qed
qed

lemmas encode_pdu_from = encode_pdu_yields [unfolded yields_def, rule_format]

lemma create_att_send_op_wf:
  assumes "create_att_send_op E a opcode pdu len cb ud ds = Some (Some op)"
  shows "op_wf op \<and> op_type op = get_op_type opcode \<and> op_opcode op = opcode \<and> op_callback op = cb \<and>
    op_destroy op = ds \<and> op_user_data op = ud \<and> op_timeout_id op = 0"
proof -
  let ?op = "\<lparr>op_id = 0, op_timeout_id = 0, op_type = get_op_type opcode, op_opcode = opcode, op_pdu = [],
    op_len = 0, op_callback = cb, op_destroy = ds, op_user_data = ud\<rparr>"
  from assms have ty: "get_op_type opcode \<noteq> ATT_OP_TYPE_UNKNOWN"
    and "encode_pdu E a ?op pdu len = Some (Some op)"
    by (auto simp: create_att_send_op_def Let_def split: if_splits)
  from encode_pdu_from [OF this(2)] obtain n p where "op = ?op\<lparr>op_len := n, op_pdu := p\<rparr>"
    and "made_from opcode n p" by (auto simp: encoded_from_def)
  then show ?thesis using ty by (auto simp: op_wf_def made_from_def)
qed

lemma op_wf_id [simp]: "op_wf (op\<lparr>op_id := i\<rparr>) = op_wf op" "op_wf (op\<lparr>op_timeout_id := t\<rparr>) = op_wf op"
  by (simp_all add: op_wf_def)

definition enqueue :: "att_send_op \<Rightarrow> att_sys \<Rightarrow> att_sys" where
  "enqueue op a =
     (case op_type op of
        ATT_OP_TYPE_REQ \<Rightarrow> a\<lparr>req_queue := req_queue a @ [op]\<rparr>
      | ATT_OP_TYPE_IND \<Rightarrow> a\<lparr>ind_queue := ind_queue a @ [op]\<rparr>
      | _ \<Rightarrow> a\<lparr>write_queue := write_queue a @ [op]\<rparr>)"

lemma enqueue_wf: "att_wf a \<Longrightarrow> op_wf op \<Longrightarrow> att_wf (enqueue op a)"
  by (cases "op_type op") (auto simp: enqueue_def att_wf_def)

lemma enqueue_same [simp]:
  "io (enqueue op a) = io a" "in_req (enqueue op a) = in_req a" "trace (enqueue op a) = trace a"
  "pending_req (enqueue op a) = pending_req a" "pending_ind (enqueue op a) = pending_ind a"
  "att_ref_count (enqueue op a) = att_ref_count a"
  "notify_list (enqueue op a) = notify_list a" "disconn_list (enqueue op a) = disconn_list a"
  by (cases "op_type op"; simp add: enqueue_def)+

lemma balance_enqueue [simp]: "balance x (enqueue op a) = balance x a - tok x op"
  by (cases "op_type op") (simp_all add: enqueue_def)

lemma wakeup_same [simp]:
  "io (wakeup_writer E a) = io a" "in_req (wakeup_writer E a) = in_req a"
  "trace (wakeup_writer E a) = trace a"
  "pending_req (wakeup_writer E a) = pending_req a" "pending_ind (wakeup_writer E a) = pending_ind a"
  "att_ref_count (wakeup_writer E a) = att_ref_count a"
  "req_queue (wakeup_writer E a) = req_queue a" "ind_queue (wakeup_writer E a) = ind_queue a"
  "write_queue (wakeup_writer E a) = write_queue a"
  "notify_list (wakeup_writer E a) = notify_list a" "disconn_list (wakeup_writer E a) = disconn_list a"
  using wakeup_cases [of E a] by auto

text \<open>
  \<open>bt_att_send\<close> answers 0 and changes nothing, or the operation is at the end of its queue.
\<close>

lemma bt_att_send_cases:
  assumes "bt_att_send E opcode pdu len cb ud ds a = Some (i, a')"
  obtains "i = 0" "a' = a"
  | op where "io a \<noteq> None" "create_att_send_op E a opcode pdu len cb ud ds = Some (Some op)"
      "i = (if next_send_id a < 1 then 1 else next_send_id a)"
      "a' = wakeup_writer E (enqueue (op\<lparr>op_id := i\<rparr>)
              (logged (Queued (op\<lparr>op_id := i\<rparr>)) (a\<lparr>next_send_id := i + 1\<rparr>)))"
proof (cases "io a = None")
  case True
  with assms that(1) show ?thesis by (simp add: bt_att_send_def)
next
  case False
  then obtain r where r: "create_att_send_op E a opcode pdu len cb ud ds = Some r"
    using assms by (auto simp: bt_att_send_def bind_eq_Some_conv)
  show ?thesis
  proof (cases r)
    case None
    with assms False r that(1) show ?thesis by (simp add: bt_att_send_def)
  next
    case (Some op)
    with assms False r that(2) [of op] show ?thesis
      by (auto simp: bt_att_send_def enqueue_def Let_def)
  qed
qed

lemma evolves_send:
  assumes "write_handler E" and "bt_att_send E opcode pdu len cb ud ds a = Some (i, a')"
  shows "att_evolves a a'"
proof -
  from assms(2) show ?thesis
  proof (cases rule: bt_att_send_cases)
    case (2 op)
    have wf: "op_wf op" using create_att_send_op_wf [OF 2(2)] by simp
    let ?b = "logged (Queued (op\<lparr>op_id := i\<rparr>)) (a\<lparr>next_send_id := i + 1\<rparr>)"
    have "att_wf a \<Longrightarrow> att_wf ?b" by (simp add: att_wf_def)
    then have "att_wf a \<Longrightarrow> att_wf a'" using wf 2(4) by (simp add: att_wf_wakeup enqueue_wf)
    moreover have "awake a'" unfolding 2(4) by (rule awake_wakeup [OF assms(1)])
    moreover have "balance x a' = balance x a" for x unfolding 2(4) by (simp add: balance_logged)
    moreover have "io a' = io a" "in_req a' = in_req a" "pending_req a' = pending_req a"
      "pending_ind a' = pending_ind a" "trace a' = trace a @ [Queued (op\<lparr>op_id := i\<rparr>)]"
      "att_ref_count a' = att_ref_count a"
      unfolding 2(4) by simp_all
    ultimately show ?thesis using 2(1) unfolding att_evolves_def att_keeps_def by auto
  qed simp
qed

section \<open>Handlers and settings\<close>

lemma keeps_same:
  assumes "io a' = io a" "in_req a' = in_req a" "trace a' = trace a"
    "req_queue a' = req_queue a" "pending_req a' = pending_req a"
    "ind_queue a' = ind_queue a" "pending_ind a' = pending_ind a"
    "write_queue a' = write_queue a" "writer_active a' = writer_active a"
    "BT_ATT_DEFAULT_LE_MTU \<le> mtu a \<longrightarrow> length (buf a) = unat (mtu a) \<longrightarrow>
       BT_ATT_DEFAULT_LE_MTU \<le> mtu a' \<and> length (buf a') = unat (mtu a')"
    "att_ref_count a \<le> att_ref_count a'"
    "io a = None \<longrightarrow> notify_list a' = notify_list a \<and> disconn_list a' = disconn_list a"
  shows "att_keeps a a'"
  using assms by (auto simp: att_keeps_def att_wf_def awake_def sendable_def shrinks_def)

lemma evolves_same:
  assumes "att_keeps a a'" and "\<And>x. balance x a' = balance x a"
  shows "att_evolves a a'"
  using assms by (simp add: att_evolves_def)

lemma evolves_register: "att_evolves a (snd (bt_att_register opcode cb ud ds a))"
  by (auto simp: bt_att_register_def Let_def balance_def owned_def intro!: evolves_same keeps_same)

lemma evolves_register_disconnect: "att_evolves a (snd (bt_att_register_disconnect cb ud ds a))"
  by (auto simp: bt_att_register_disconnect_def Let_def balance_def owned_def intro!: evolves_same keeps_same)

lemma evolves_destroy_notify: "client_ok E \<Longrightarrow> att_evolves a (destroy_att_notify E n a)"
  by (simp add: destroy_att_notify_def evolves_call_if)

lemma evolves_destroy_disconn: "client_ok E \<Longrightarrow> att_evolves a (destroy_att_disconn E n a)"
  by (simp add: destroy_att_disconn_def evolves_call_if)

lemma evolves_unlist:
  "(notify_list a = [] \<Longrightarrow> ns = []) \<Longrightarrow> att_evolves a (a\<lparr>notify_list := ns\<rparr>)"
  "(io a = None \<Longrightarrow> ds = [] \<or> map dn_id ds = map dn_id (disconn_list a)) \<Longrightarrow>
   att_evolves a (a\<lparr>disconn_list := ds\<rparr>)"
  by (simp_all add: att_evolves_def keeps_unlist)

lemma evolves_fold: "(\<And>y a. att_evolves a (f y a)) \<Longrightarrow> att_evolves a (fold f ys a)"
  by (induction ys arbitrary: a) (auto intro: att_evolves_trans)

lemma evolves_unregister: "client_ok E \<Longrightarrow> att_evolves a (snd (bt_att_unregister E i a))"
proof -
  assume ok: "client_ok E"
  have "att_evolves a (destroy_att_notify E n (a\<lparr>notify_list := q\<rparr>))"
    if "take_first (match_notify_id i) (notify_list a) = Some (n, q)" for n q
    using take_first_Some [OF that]
    by (intro att_evolves_trans [OF evolves_unlist(1) evolves_destroy_notify [OF ok]]) auto
  then show ?thesis by (simp add: bt_att_unregister_def split: option.split prod.split)
qed

lemma mark_removed_ids [simp]: "map dn_id (mark_removed i ds) = map dn_id ds"
  by (induction ds) auto

lemma evolves_unregister_disconnect: "client_ok E \<Longrightarrow> att_evolves a (snd (bt_att_unregister_disconnect E i a))"
proof -
  assume ok: "client_ok E"
  have "att_evolves a (destroy_att_disconn E d (a\<lparr>disconn_list := q\<rparr>))" if "io a \<noteq> None" for d q
    using that by (intro att_evolves_trans [OF evolves_unlist(2) evolves_destroy_disconn [OF ok]]) auto
  moreover have "att_evolves a (a\<lparr>disconn_list := mark_removed i (disconn_list a)\<rparr>)"
    by (rule evolves_unlist(2)) simp
  ultimately show ?thesis
    by (simp add: bt_att_unregister_disconnect_def split: option.split prod.split)
qed

lemma evolves_unregister_all: "client_ok E \<Longrightarrow> att_evolves a (bt_att_unregister_all E a)"
proof -
  assume ok: "client_ok E"
  let ?b = "fold (destroy_att_notify E) (notify_list a) (a\<lparr>notify_list := []\<rparr>)"
  have "att_evolves a ?b"
    by (rule att_evolves_trans [OF evolves_unlist(1) evolves_fold])
       (simp_all add: evolves_destroy_notify ok)
  also have "att_evolves ?b (fold (destroy_att_disconn E) (disconn_list ?b) (?b\<lparr>disconn_list := []\<rparr>))"
    by (rule att_evolves_trans [OF evolves_unlist(2) evolves_fold])
       (simp_all add: evolves_destroy_disconn ok)
  finally show ?thesis by (simp add: bt_att_unregister_all_def Let_def)
qed

lemma evolves_set_mtu: "att_evolves a (snd (bt_att_set_mtu E m a))"
  by (auto simp: bt_att_set_mtu_def not_less balance_def owned_def intro!: evolves_same keeps_same)

lemma evolves_set_security: "att_evolves a (snd (bt_att_set_security E l a))"
  by (auto simp: bt_att_set_security_def att_evolves_def balance_logged keeps_logged intro!: keeps_same)

lemma evolves_set_enc_size: "att_evolves a (bt_att_set_enc_key_size n a)"
  by (auto simp: bt_att_set_enc_key_size_def intro!: evolves_same keeps_same)

lemma evolves_set_keys:
  "bt_att_set_local_key k f u a = Some (r, a') \<Longrightarrow> att_evolves a a'"
  "bt_att_set_remote_key k f u a = Some (r, a') \<Longrightarrow> att_evolves a a'"
  by (auto simp: bt_att_set_local_key_def bt_att_set_remote_key_def bind_eq_Some_conv
      intro!: evolves_same keeps_same)

lemma evolves_hooks:
  assumes ok: "client_ok E"
  shows "att_evolves a (bt_att_set_debug E cb ud ds a)"
    and "att_evolves a (bt_att_set_timeout_cb E cb ud ds a)"
proof -
  have deb: "att_evolves b (b\<lparr>debug_callback := f, debug_destroy := g, debug_data := u\<rparr>)"
    and tim: "att_evolves b (b\<lparr>timeout_callback := f, timeout_destroy := g, timeout_data := u\<rparr>)" for b f g u
    by (auto intro!: evolves_same keeps_same)
  show "att_evolves a (bt_att_set_debug E cb ud ds a)"
    unfolding bt_att_set_debug_def by (rule att_evolves_trans [OF evolves_call_if [OF ok] deb]) simp
  show "att_evolves a (bt_att_set_timeout_cb E cb ud ds a)"
    unfolding bt_att_set_timeout_cb_def by (rule att_evolves_trans [OF evolves_call_if [OF ok] tim]) simp
qed

lemma evolves_ref: "att_evolves a (bt_att_ref a)"
  by (auto simp: bt_att_ref_def intro!: evolves_same keeps_same)

lemma evolves_error_rsp:
  assumes "write_handler E" and "bt_att_send_error_rsp E opcode h e a = Some (i, a')"
  shows "att_evolves a a'"
  using assms evolves_send [OF assms(1)] by (auto simp: bt_att_send_error_rsp_def split: if_splits)

lemma apfst_snd: "apfst f p = (r, b) \<Longrightarrow> b = snd p"
  by (cases p) simp

lemma api_evolves:
  assumes "client_ok E" and "write_handler E" and "api E c a = Some (r, a')"
  shows "att_evolves a a'"
proof (cases c)
  case (Send opcode pdu len cb ud ds)
  with assms(3) obtain i where "bt_att_send E opcode pdu len cb ud ds a = Some (i, a')" by auto
  then show ?thesis by (rule evolves_send [OF assms(2)])
next
  case (SendErrorRsp opcode h e)
  with assms(3) obtain i where "bt_att_send_error_rsp E opcode h e a = Some (i, a')" by auto
  then show ?thesis by (rule evolves_error_rsp [OF assms(2)])
next
  case (SetLocalKey k f u)
  with assms(3) obtain i where "bt_att_set_local_key k f u a = Some (i, a')" by auto
  then show ?thesis by (rule evolves_set_keys)
next
  case (SetRemoteKey k f u)
  with assms(3) obtain i where "bt_att_set_remote_key k f u a = Some (i, a')" by auto
  then show ?thesis by (rule evolves_set_keys)
qed (use assms(3) evolves_cancel [OF assms(1), of a] evolves_cancel_all [OF assms(1), of a]
      evolves_register [of a] evolves_unregister [OF assms(1), of a]
      evolves_unregister_all [OF assms(1), of a] evolves_register_disconnect [of a]
      evolves_unregister_disconnect [OF assms(1), of a] evolves_set_mtu [of a E]
      evolves_set_security [of a E] evolves_set_enc_size [of a] evolves_hooks [OF assms(1), of a]
      evolves_ref [of a] in \<open>auto dest!: apfst_snd\<close>)

end
