(* ===== verification/Att_Transport.thy ===== *)
theory Att_Transport
  imports Att_Contract
begin

text \<open>
  The events of the transport and its invariant: every step of \<open>att_step\<close> keeps an object
  well-formed, awake, quiet once the link is gone, and with a balanced ledger. The properties read this
  invariant off the reachable objects, and say what each event does.
\<close>

section \<open>What an event may do\<close>

definition att_moves :: "att_sys \<Rightarrow> att_sys \<Rightarrow> bool" where
  "att_moves a a' \<longleftrightarrow> io a' = io a \<and>
     (att_wf a \<longrightarrow> att_wf a' \<and> (awake a \<longrightarrow> awake a') \<and> (\<forall>x. balance x a' = balance x a))"

definition att_inv :: "att_sys \<Rightarrow> bool" where
  "att_inv a \<longleftrightarrow> att_wf a \<and> awake a \<and> quiet a \<and> (\<forall>x. balance x a = 0)"

lemma att_moves_trans [trans]: "att_moves a b \<Longrightarrow> att_moves b c \<Longrightarrow> att_moves a c"
  by (auto simp: att_moves_def)

lemma att_moves_refl [simp]: "att_moves a a"
  by (simp add: att_moves_def)

lemma evolves_balance: "att_evolves a b \<Longrightarrow> balance x b = balance x a"
  unfolding att_evolves_def by blast

lemma evolves_keeps: "att_evolves a b \<Longrightarrow> att_keeps a b"
  by (simp add: att_evolves_def)

lemma keeps_facts:
  assumes "att_keeps a b"
  shows "io b = io a" "in_req b = in_req a" "att_wf a \<Longrightarrow> att_wf b" "awake a \<Longrightarrow> awake b"
    "pending_req a = Some op \<Longrightarrow> \<exists>op'. pending_req b = Some op'"
    "pending_ind a = Some op \<Longrightarrow> \<exists>op'. pending_ind b = Some op'"
  using assms by (auto simp: att_keeps_def)

lemma evolves_moves: "att_evolves a b \<Longrightarrow> att_moves a b"
  by (auto simp: att_evolves_def att_keeps_def att_moves_def)

lemma moves_inv: "att_inv a \<Longrightarrow> att_moves a b \<Longrightarrow> io a \<noteq> None \<Longrightarrow> att_inv b"
  by (auto simp: att_inv_def att_moves_def quiet_def)

lemma map_clear_Some: "map_option clear_op p = map_option clear_op (Some op) \<Longrightarrow> \<exists>op'. p = Some op'"
  by (cases p) auto

lemma map_clear_None: "map_option clear_op p = map_option clear_op None \<Longrightarrow> p = None"
  by (cases p) auto

lemma evolves_quiet: "att_evolves a b \<Longrightarrow> quiet a \<Longrightarrow> quiet b"
  unfolding att_evolves_def att_keeps_def quiet_def shrinks_def
  by (metis map_clear_None map_is_Nil_conv)

lemma evolves_inv: "att_inv a \<Longrightarrow> att_evolves a b \<Longrightarrow> att_inv b"
  using evolves_quiet [of a b] evolves_moves [of a b] by (auto simp: att_inv_def att_moves_def)

lemma moves_held: "bt_att_unref E a = Held b \<Longrightarrow> att_moves a b"
  by (auto simp: bt_att_unref_def Let_def att_moves_def att_wf_def awake_def sendable_def split: if_splits)

lemma moves_in_req: "att_moves a (a\<lparr>in_req := i\<rparr>)"
  by (auto simp: att_moves_def att_wf_def awake_def sendable_def)

lemma moves_shutdown: "att_moves a (io_shutdown a)"
  by (auto simp: io_shutdown_def att_moves_def balance_logged awake_def sendable_def)

section \<open>Sending\<close>

lemma pick_next_None: "pick_next_send_op a = (None, b) \<Longrightarrow> b = a \<and> \<not> sendable a"
  by (auto simp: pick_next_send_op_def sendable_def split: list.splits option.splits)

lemma pick_next_Some:
  assumes "pick_next_send_op a = (Some op, b)" and "att_wf a"
  shows "att_keeps a b \<and> (\<forall>x. balance x b = balance x a + tok x op) \<and> op_wf op \<and>
    writer_active b = writer_active a \<and>
    (op_type op = ATT_OP_TYPE_REQ \<longrightarrow> pending_req b = None) \<and>
    (op_type op = ATT_OP_TYPE_IND \<longrightarrow> pending_ind b = None)"
proof -
  consider q where "write_queue a = op # q" "b = a\<lparr>write_queue := q\<rparr>"
    | q where "pending_req a = None" "req_queue a = op # q" "b = a\<lparr>req_queue := q\<rparr>"
    | q where "pending_ind a = None" "ind_queue a = op # q" "b = a\<lparr>ind_queue := q\<rparr>"
    using assms(1) by (auto simp: pick_next_send_op_def split: list.splits option.splits)
  then show ?thesis
  proof cases
    case 1
    then show ?thesis using assms(2) keeps_dequeue(3) [of q a] by (auto simp: att_wf_def)
  next
    case 2
    then show ?thesis using assms(2) keeps_dequeue(1) [of q a] by (auto simp: att_wf_def)
  next
    case 3
    then show ?thesis using assms(2) keeps_dequeue(2) [of q a] by (auto simp: att_wf_def)
  qed
qed

lemma evolves_response: "client_ok E \<Longrightarrow> att_evolves a (call_response E op opcode pdu a)"
  by (simp add: call_response_def evolves_call_if)

text \<open>An operation that was taken out and is handed back.\<close>

lemma moves_give_back:
  assumes "client_ok E" and "att_keeps a b" and "\<And>x. balance x b = balance x a + tok x op"
  shows "att_moves a (destroy_att_send_op E op b)"
  using att_keeps_trans [OF assms(2) keeps_destroy_op [OF assms(1)]] assms
  by (auto simp: att_moves_def att_keeps_def balance_destroy_op)

lemma moves_pending:
  "att_wf b \<Longrightarrow> op_wf op \<Longrightarrow> op_type op = ATT_OP_TYPE_REQ \<Longrightarrow> att_wf (b\<lparr>pending_req := Some op\<rparr>)"
  "att_wf b \<Longrightarrow> op_wf op \<Longrightarrow> op_type op = ATT_OP_TYPE_IND \<Longrightarrow> att_wf (b\<lparr>pending_ind := Some op\<rparr>)"
  by (auto simp: att_wf_def)

text \<open>A write event that is answered with true leaves the handler in place.\<close>

lemma can_write_data_moves:
  assumes ok: "client_ok E" and wf: "att_wf a" and wr: "writer_active a" and io: "io a \<noteq> None"
    and w: "can_write_data E ret a = (again, c)"
  shows "att_moves a (if again then c else write_watch_destroy c)"
proof -
  obtain r b where pick: "pick_next_send_op a = (r, b)" by fastforce
  show ?thesis
  proof (cases r)
    case None
    then have "b = a" "\<not> sendable a" using pick_next_None pick by auto
    then show ?thesis using w pick None wf
      by (auto simp: can_write_data_def write_watch_destroy_def att_moves_def att_wf_def awake_def sendable_def)
  next
    case (Some op)
    note p = pick_next_Some [OF pick [unfolded Some] wf]
    have out: "att_moves a (destroy_att_send_op E op c)"
      if "att_keeps b c" "\<And>x. balance x c = balance x b" for c
      by (rule moves_give_back [OF ok att_keeps_trans [of a b c]]) (use p that in auto)
    have resp: "att_moves a (destroy_att_send_op E op (call_response E op BT_ATT_OP_ERROR_RSP None b))"
      using evolves_response [OF ok] by (intro out) (auto simp: att_evolves_def)
    have plain: "att_moves a (destroy_att_send_op E op (logged (IoSend p) b))" for p
      by (intro out keeps_logged) (simp add: balance_logged)
    have inr: "att_moves a (destroy_att_send_op E op ((logged (IoSend p) b)\<lparr>in_req := False\<rparr>))" for p
      using moves_in_req [of "logged (IoSend p) b" False] keeps_logged [of b "IoSend p"] p ok
        att_keeps_trans [of a b] keeps_destroy_op [OF ok, of "(logged (IoSend p) b)\<lparr>in_req := False\<rparr>" op]
      by (auto simp: att_moves_def att_keeps_def balance_destroy_op balance_logged)
    have "att_wf (logged (IoSend p) b)" for p using p wf by (auto simp: att_keeps_def)
    then have req: "op_type op = ATT_OP_TYPE_REQ \<Longrightarrow> att_moves a (logged (TimeoutAdd i)
        ((logged (IoSend p) b)\<lparr>pending_req := Some (op\<lparr>op_timeout_id := t\<rparr>)\<rparr>))"
      and ind: "op_type op = ATT_OP_TYPE_IND \<Longrightarrow> att_moves a (logged (TimeoutAdd i)
        ((logged (IoSend p) b)\<lparr>pending_ind := Some (op\<lparr>op_timeout_id := t\<rparr>)\<rparr>))" for i p t
      using moves_pending [of "logged (IoSend p) b" "op\<lparr>op_timeout_id := t\<rparr>"] p wr io
      by (auto simp: att_moves_def att_keeps_def balance_logged awake_def)
    have "again" using w pick Some
      by (auto simp: can_write_data_def Let_def split: if_splits att_op_type.splits)
    then show ?thesis using w pick Some resp plain inr req ind
      by (cases "op_type op") (auto simp: can_write_data_def Let_def split: if_splits)
  qed
qed

lemma timeout_cb_inv:
  assumes ok: "client_ok E" and inv: "att_inv a"
  shows "att_inv (timeout_cb E i a)"
proof -
  have fin: "att_inv (io_shutdown (destroy_att_send_op E (op\<lparr>op_timeout_id := 0\<rparr>)
        (call_if E f (\<lambda>g. TimedOut g j o' u) b)))"
    if b: "att_wf b" "io b \<noteq> None" "\<And>x. balance x b = tok x op" for b op f j o' u
  proof -
    let ?c = "call_if E f (\<lambda>g. TimedOut g j o' u) b"
    let ?d = "destroy_att_send_op E (op\<lparr>op_timeout_id := 0\<rparr>) ?c"
    have bc: "att_evolves b ?c" by (rule evolves_call_if [OF ok]) simp
    have "att_keeps b ?d"
      using att_keeps_trans [OF _ keeps_destroy_op [OF ok]] bc by (auto simp: att_evolves_def)
    moreover have "balance x ?d = 0" for x
      by (simp add: evolves_balance [OF bc] b(3) balance_destroy_op [OF ok])
    ultimately show ?thesis using b keeps_facts(1,3) [of b ?d]
      by (auto simp: io_shutdown_def att_inv_def quiet_def awake_def balance_logged)
  qed
  show ?thesis
  proof (cases "pending_is i (pending_req a) \<or> pending_is i (pending_ind a)")
    case True
    then have io: "io a \<noteq> None" using inv by (auto simp: att_inv_def quiet_def pending_is_def)
    have wf: "att_wf a" "\<And>x. balance x a = 0" using inv by (auto simp: att_inv_def)
    then have "att_wf (a\<lparr>pending_req := None\<rparr>)" "att_wf (a\<lparr>pending_ind := None\<rparr>)"
      by (auto simp: att_wf_def)
    with True io wf(2) fin [of "a\<lparr>pending_req := None\<rparr>"] fin [of "a\<lparr>pending_ind := None\<rparr>"]
    show ?thesis by (auto simp: timeout_cb_def Let_def pending_is_def split: option.splits)
  next
    case False
    then show ?thesis using inv by (simp add: timeout_cb_def)
  qed
qed

section \<open>Receiving\<close>

text \<open>
  The request or indication is answered, its functions run, and only then is its slot free; a
  cancellation meanwhile only cleared its functions.
\<close>

lemma rsp_done_moves:
  assumes ok: "client_ok E" and wh: "write_handler E" and p: "pending_req a = Some op"
  shows "att_moves a (rsp_done E rsp_opcode rsp_pdu op a)"
proof -
  let ?b = "call_response E op rsp_opcode rsp_pdu a"
  have ab: "att_evolves a ?b" by (rule evolves_response [OF ok])
  obtain op' where p': "pending_req ?b = Some op'"
    using keeps_facts(5) [OF evolves_keeps [OF ab] p] by blast
  let ?c = "destroy_att_send_op E op' ?b"
  have ac: "att_keeps a ?c" using att_keeps_trans [OF evolves_keeps [OF ab] keeps_destroy_op [OF ok]] .
  have "att_wf (?c\<lparr>pending_req := None\<rparr>)" if "att_wf a"
    using keeps_facts(3) [OF ac that] by (auto simp: att_wf_def)
  moreover have "balance x (?c\<lparr>pending_req := None\<rparr>) = balance x a" for x
    using p' by (simp add: pending_destroy_op [OF ok] balance_destroy_op [OF ok] evolves_balance [OF ab])
  ultimately show ?thesis using ac awake_wakeup [OF wh, of "?c\<lparr>pending_req := None\<rparr>"]
    by (simp add: rsp_done_def Let_def p' current_def att_moves_def att_wf_wakeup keeps_facts [OF ac])
qed

lemma change_security_evolves: "att_evolves a (snd (change_security E e a))"
  using evolves_set_security by (simp add: change_security_def Let_def)

lemma change_security_pending: "pending_req (snd (change_security E e a)) = pending_req a"
  by (simp add: change_security_def bt_att_set_security_def Let_def)

lemma handle_error_rsp_moves:
  assumes wh: "write_handler E" and p: "pending_req a = Some op"
    and h: "handle_error_rsp E pdu op a = (retry, q, b)"
  shows "if retry then att_moves a (wakeup_writer E b) else att_evolves a b \<and> pending_req b = Some op"
proof (cases "length pdu \<noteq> 4")
  case True
  then show ?thesis using h p by (auto simp: handle_error_rsp_def)
next
  case False
  obtain ch c where c: "change_security E (pdu ! 3) a = (ch, c)" by fastforce
  have ac: "att_evolves a c" and pc: "pending_req c = Some op"
    using change_security_evolves [of a E "pdu ! 3"] change_security_pending [of E "pdu ! 3" a] c p by auto
  show ?thesis
  proof (cases ch)
    case False
    with \<open>\<not> length pdu \<noteq> 4\<close> h c ac pc show ?thesis by (auto simp: handle_error_rsp_def)
  next
    case True
    have retried: "att_moves a (wakeup_writer E (d\<lparr>pending_req := None, req_queue := op' # req_queue d\<rparr>))"
      if d: "att_evolves c d" "pending_req d = Some op" and op': "op' = op \<or> op' = op\<lparr>op_timeout_id := 0\<rparr>" for d op'
    proof -
      let ?e = "d\<lparr>pending_req := None, req_queue := op' # req_queue d\<rparr>"
      have ad: "att_evolves a d" using ac d(1) by (rule att_evolves_trans)
      have "att_wf d \<Longrightarrow> att_wf ?e" using d(2) op' by (auto simp: att_wf_def)
      moreover have "balance x ?e = balance x d" for x
        using d(2) op' by (auto simp: balance_def owned_def)
      ultimately show ?thesis using awake_wakeup [OF wh, of ?e] keeps_facts(1,3) [OF evolves_keeps [OF ad]]
        by (simp add: att_moves_def att_wf_wakeup evolves_balance [OF ad])
    qed
    have "att_evolves c (logged (TimeoutRemove t) c)" for t
      by (simp add: att_evolves_def keeps_logged balance_logged)
    then show ?thesis
      using \<open>\<not> length pdu \<noteq> 4\<close> True h c pc retried [of c op]
        retried [of "logged (TimeoutRemove (op_timeout_id op)) c" "op\<lparr>op_timeout_id := 0\<rparr>"]
      by (auto simp: handle_error_rsp_def Let_def split: if_splits)
  qed
qed

lemma handle_rsp_moves:
  assumes ok: "client_ok E" and wh: "write_handler E"
  shows "att_moves a (handle_rsp E opcode pdu a)"
proof (cases "pending_req a")
  case None
  then show ?thesis by (simp add: handle_rsp_def moves_shutdown)
next
  case (Some op)
  have m: "att_moves b (rsp_match E o' pdu q op b)" if "pending_req b = Some op" for b o' q
    using rsp_done_moves [OF ok wh that] by (simp add: rsp_match_def)
  obtain retry q b where h: "handle_error_rsp E pdu op a = (retry, q, b)" by (metis prod_cases3)
  have "att_moves a (if retry then wakeup_writer E b else rsp_match E opcode pdu q op b)"
    using handle_error_rsp_moves [OF wh Some h] m [of b opcode q] att_moves_trans [OF evolves_moves]
    by (auto split: if_splits)
  then show ?thesis using Some m [OF Some] h rsp_done_moves [OF ok wh Some] by (simp add: handle_rsp_def)
qed

lemma handle_conf_moves:
  assumes ok: "client_ok E" and wh: "write_handler E"
  shows "att_moves a (handle_conf E pdu a)"
proof (cases "pending_ind a")
  case None
  then show ?thesis by (simp add: handle_conf_def moves_shutdown)
next
  case (Some op)
  let ?b = "call_response E op BT_ATT_OP_HANDLE_VAL_CONF None a"
  have ab: "att_evolves a ?b" by (rule evolves_response [OF ok])
  obtain op' where p': "pending_ind ?b = Some op'"
    using keeps_facts(6) [OF evolves_keeps [OF ab] Some] by blast
  let ?c = "destroy_att_send_op E op' ?b"
  have ac: "att_keeps a ?c" using att_keeps_trans [OF evolves_keeps [OF ab] keeps_destroy_op [OF ok]] .
  have "att_wf (?c\<lparr>pending_ind := None\<rparr>)" if "att_wf a"
    using keeps_facts(3) [OF ac that] by (auto simp: att_wf_def)
  moreover have "balance x (?c\<lparr>pending_ind := None\<rparr>) = balance x a" for x
    using p' by (simp add: pending_destroy_op [OF ok] balance_destroy_op [OF ok] evolves_balance [OF ab])
  ultimately show ?thesis using Some ac awake_wakeup [OF wh, of "?c\<lparr>pending_ind := None\<rparr>"] moves_shutdown [of a]
    by (simp add: handle_conf_def Let_def p' current_def att_moves_def att_wf_wakeup keeps_facts [OF ac])
qed

lemmas notify_loop_induct = notify_loop.raw_induct [rotated, consumes 1, case_names step]

lemma notify_loop_evolves:
  "notify_loop E opcode pdu cur found a = Some r \<Longrightarrow> client_ok E \<Longrightarrow> att_evolves a (snd r)"
proof (induction E opcode pdu cur found a r rule: notify_loop_induct)
  case (step loop E opcode pdu cur found a r)
  have call: "att_evolves a (call_if E f (\<lambda>f. Notified f opcode pdu u) a)" for f u
    by (rule evolves_call_if [OF step.prems]) simp
  show ?case
  proof (cases "\<exists>i n nxt. cur = Some i \<and> entry_at (match_notify_id i) (notify_list a) = Some (n, nxt)")
    case False
    with step.hyps have "r = (found, a)" by (auto split: option.splits)
    then show ?thesis by simp
  next
    case True
    then obtain i n nxt where e: "cur = Some i" "entry_at (match_notify_id i) (notify_list a) = Some (n, nxt)"
      by blast
    let ?b = "call_if E (nt_callback n) (\<lambda>f. Notified f opcode pdu (nt_user_data n)) a"
    have "(if \<not> opcode_match (ucast (nt_opcode n)) opcode
           then loop E opcode pdu (map_option nt_id nxt) found a
           else if notify_list ?b = [] then Some (True, ?b)
           else loop E opcode pdu (map_option nt_id nxt) True ?b) = Some r"
      using step.hyps unfolding e option.case prod.case Let_def .
    then consider "loop E opcode pdu (map_option nt_id nxt) found a = Some r" | "r = (True, ?b)"
      | "loop E opcode pdu (map_option nt_id nxt) True ?b = Some r"
      by (metis option.inject)
    then show ?thesis
    proof cases
      case 1
      then show ?thesis by (rule step.IH [OF _ step.prems])
    next
      case 2
      then show ?thesis using call by simp
    next
      case 3
      show ?thesis by (rule att_evolves_trans [OF call step.IH [OF 3 step.prems]])
    qed
  qed
qed

lemma respond_evolves:
  "write_handler E \<Longrightarrow> respond_not_supported E opcode a = Some b \<Longrightarrow> att_evolves a b"
  using evolves_send by (fastforce simp: respond_not_supported_def)

lemma handle_notify_moves:
  assumes ok: "client_ok E" and wh: "write_handler E" and h: "handle_notify E opcode pdu a = Some (Held b)"
  shows "att_moves a b"
proof (cases "b = a")
  case False
  then obtain pdu' found c d where
    c: "notify_loop E opcode pdu' (map_option nt_id (first_entry (notify_list a))) False (bt_att_ref a) = Some (found, c)"
    and d: "d = c \<or> respond_not_supported E opcode c = Some d" and b: "bt_att_unref E d = Held b"
    using h by (auto simp: handle_notify_def Let_def bt_att_ref_def bind_eq_Some_conv split: if_splits)
  have "att_evolves a c" 
    using att_evolves_trans [OF evolves_ref notify_loop_evolves [OF c ok]] by simp
  also have "att_evolves c d" using d respond_evolves [OF wh] by auto
  finally show ?thesis using moves_held [OF b] by (rule att_moves_trans [OF evolves_moves])
qed simp

fun_cases still_heldE: "still_held h = Some a"

lemma dispatch_pdu_moves:
  assumes ok: "client_ok E" and wh: "write_handler E" and h: "dispatch_pdu E opcode pdu a = Some (again, Held b)"
  shows "att_moves a b"
proof -
  have oth: "att_moves a b"
    if "handle_notify E opcode pdu c = Some e" "still_held e = Some e'" "bt_att_unref E e' = Held b"
      "c = a \<or> c = a\<lparr>in_req := i\<rparr>" for c i e e'
  proof -
    from that(2) have "e = Held e'" by (rule still_heldE)
    with that(1,3) have "att_moves c b" using handle_notify_moves [OF ok wh] moves_held att_moves_trans by blast
    then show ?thesis using that(4) moves_in_req att_moves_trans by blast
  qed
  have rsp: "att_moves a b" if "bt_att_unref E (handle_rsp E opcode pdu a) = Held b"
    using att_moves_trans [OF handle_rsp_moves [OF ok wh] moves_held [OF that]] .
  have cnf: "att_moves a b" if "bt_att_unref E (handle_conf E pdu a) = Held b"
    using att_moves_trans [OF handle_conf_moves [OF ok wh] moves_held [OF that]] .
  have shut: "att_moves a b" if "bt_att_unref E (io_shutdown a) = Held b"
    using att_moves_trans [OF moves_shutdown moves_held [OF that]] .
  show ?thesis using h
    by (cases "get_op_type opcode")
       (auto simp: dispatch_pdu_def bind_eq_Some_conv split: if_splits intro: oth rsp cnf shut)
qed

lemma can_read_data_moves:
  assumes ok: "client_ok E" and wh: "write_handler E" and h: "can_read_data E rd a = Some (again, Held b)"
  shows "att_moves a b"
proof (cases rd)
  case None
  with h show ?thesis by (simp add: can_read_data_def)
next
  case (Some d)
  then obtain bf where bf: "buf_write (buf a) 0 (take (unat (mtu a)) d) = Some bf"
    using h by (auto simp: can_read_data_def bind_eq_Some_conv)
  let ?a = "a\<lparr>buf := bf\<rparr>"
  have "length bf = length (buf a)" using bf by (auto simp: buf_write_def split: if_splits)
  then have a: "att_moves a ?a" by (auto simp: att_moves_def att_wf_def awake_def sendable_def)
  note r = att_moves_trans [OF a evolves_moves [OF evolves_ref]]
  show ?thesis
  proof (cases "take (unat (mtu a)) d")
    case Nil
    with h Some bf a show ?thesis by (simp add: can_read_data_def)
  next
    case (Cons opcode pdu)
    then have "dispatch_pdu E opcode pdu (bt_att_ref ?a) = Some (again, Held b)"
      using h Some bf by (simp add: can_read_data_def)
    with r show ?thesis by (rule att_moves_trans [OF _ dispatch_pdu_moves [OF ok wh]])
  qed
qed

section \<open>Disconnection\<close>

lemma disc_op_keeps: "client_ok E \<Longrightarrow> att_keeps a (disc_att_send_op E op a)"
  unfolding disc_att_send_op_def
  by (rule att_keeps_trans [OF evolves_keeps [OF evolves_response] keeps_destroy_op])

lemma disc_op_balance: "client_ok E \<Longrightarrow> balance x (disc_att_send_op E op a) = balance x a - tok x op"
  by (simp add: disc_att_send_op_def balance_destroy_op evolves_balance [OF evolves_response])

text \<open>Without a link, operations only go away.\<close>

definition att_drops :: "att_sys \<Rightarrow> att_sys \<Rightarrow> bool" where
  "att_drops a b \<longleftrightarrow> io a = None \<and> io b = None \<and> (att_wf a \<longrightarrow> att_wf b) \<and>
     (\<forall>x. balance x b = balance x a) \<and> shrinks a b \<and>
     (pending_req a = None \<longrightarrow> pending_req b = None) \<and> (pending_ind a = None \<longrightarrow> pending_ind b = None)"

lemma att_drops_trans [trans]: "att_drops a b \<Longrightarrow> att_drops b c \<Longrightarrow> att_drops a c"
  unfolding att_drops_def using shrinks_trans by auto

lemma drops_balance: "att_drops a b \<Longrightarrow> balance x b = balance x a"
  unfolding att_drops_def by blast

lemma inv_balance: "att_inv a \<Longrightarrow> balance x a = 0"
  unfolding att_inv_def by blast

lemma keeps_shrinks: "att_keeps a b \<Longrightarrow> io a = None \<Longrightarrow> shrinks a b"
  by (simp add: att_keeps_def)

lemma keeps_pending_None:
  "att_keeps a b \<Longrightarrow> pending_req a = None \<Longrightarrow> pending_req b = None"
  "att_keeps a b \<Longrightarrow> pending_ind a = None \<Longrightarrow> pending_ind b = None"
  by (auto simp: att_keeps_def)

lemma keeps_drops:
  "att_keeps a b \<Longrightarrow> (\<And>x. balance x b = balance x a) \<Longrightarrow> io a = None \<Longrightarrow> att_drops a b"
  unfolding att_drops_def using keeps_facts(1,3) keeps_shrinks keeps_pending_None by auto

lemma evolves_drops: "att_evolves a b \<Longrightarrow> io a = None \<Longrightarrow> att_drops a b"
  using keeps_drops evolves_keeps evolves_balance by blast

lemma disc_pending_req_drops:
  assumes ok: "client_ok E" and io: "io a = None"
  shows "att_drops a (disc_pending_req E a) \<and> pending_req (disc_pending_req E a) = None"
proof (cases "pending_req a")
  case None
  then show ?thesis using io by (simp add: disc_pending_req_def att_drops_def)
next
  case (Some op)
  let ?b = "call_response E op BT_ATT_OP_ERROR_RSP None a"
  have ab: "att_evolves a ?b" by (rule evolves_response [OF ok])
  obtain op' where p': "pending_req ?b = Some op'"
    using keeps_facts(5) [OF evolves_keeps [OF ab] Some] by blast
  let ?c = "destroy_att_send_op E op' ?b"
  have ac: "att_keeps a ?c" using att_keeps_trans [OF evolves_keeps [OF ab] keeps_destroy_op [OF ok]] .
  have "att_wf (?c\<lparr>pending_req := None\<rparr>)" if "att_wf a"
    using keeps_facts(3) [OF ac that] by (auto simp: att_wf_def)
  moreover have "balance x (?c\<lparr>pending_req := None\<rparr>) = balance x a" for x
    using p' by (simp add: pending_destroy_op [OF ok] balance_destroy_op [OF ok] evolves_balance [OF ab])
  moreover have "shrinks a (?c\<lparr>pending_req := None\<rparr>)"
    using keeps_shrinks [OF ac io] by (simp add: shrinks_def)
  ultimately show ?thesis using Some io keeps_facts(1) [OF ac] keeps_pending_None(2) [OF ac]
    by (simp add: disc_pending_req_def Let_def p' current_def att_drops_def)
qed

lemma disc_pending_ind_drops:
  assumes ok: "client_ok E" and io: "io a = None"
  shows "att_drops a (disc_pending_ind E a) \<and> pending_ind (disc_pending_ind E a) = None"
proof (cases "pending_ind a")
  case None
  then show ?thesis using io by (simp add: disc_pending_ind_def att_drops_def)
next
  case (Some op)
  let ?b = "call_response E op BT_ATT_OP_ERROR_RSP None a"
  have ab: "att_evolves a ?b" by (rule evolves_response [OF ok])
  obtain op' where p': "pending_ind ?b = Some op'"
    using keeps_facts(6) [OF evolves_keeps [OF ab] Some] by blast
  let ?c = "destroy_att_send_op E op' ?b"
  have ac: "att_keeps a ?c" using att_keeps_trans [OF evolves_keeps [OF ab] keeps_destroy_op [OF ok]] .
  have "att_wf (?c\<lparr>pending_ind := None\<rparr>)" if "att_wf a"
    using keeps_facts(3) [OF ac that] by (auto simp: att_wf_def)
  moreover have "balance x (?c\<lparr>pending_ind := None\<rparr>) = balance x a" for x
    using p' by (simp add: pending_destroy_op [OF ok] balance_destroy_op [OF ok] evolves_balance [OF ab])
  moreover have "shrinks a (?c\<lparr>pending_ind := None\<rparr>)"
    using keeps_shrinks [OF ac io] by (simp add: shrinks_def)
  ultimately show ?thesis using Some io keeps_facts(1) [OF ac] keeps_pending_None(1) [OF ac]
    by (simp add: disc_pending_ind_def Let_def p' current_def att_drops_def)
qed

lemma flush_empties:
  assumes f: "\<And>op a. att_keeps a (f op a)" and io: "io a = None"
  shows "req_queue (flush_queues f a) = [] \<and> ind_queue (flush_queues f a) = [] \<and> write_queue (flush_queues f a) = []"
proof -
  let ?a = "fold f (req_queue a) (a\<lparr>req_queue := []\<rparr>)"
  let ?b = "fold f (ind_queue ?a) (?a\<lparr>ind_queue := []\<rparr>)"
  let ?c = "fold f (write_queue ?b) (?b\<lparr>write_queue := []\<rparr>)"
  have kf: "att_keeps b (fold f ys b)" for ys b by (rule keeps_fold) (rule f)
  have io': "io ?a = None" "io ?b = None"
    using io keeps_facts(1) [OF kf, of _ "a\<lparr>req_queue := []\<rparr>"] keeps_facts(1) [OF kf, of _ "?a\<lparr>ind_queue := []\<rparr>"]
    by simp_all
  have a: "req_queue ?a = []"
    using keeps_shrinks [OF kf, of "a\<lparr>req_queue := []\<rparr>"] io by (simp add: shrinks_def)
  have b: "req_queue ?b = []" "ind_queue ?b = []"
    using keeps_shrinks [OF kf, of "?a\<lparr>ind_queue := []\<rparr>" "ind_queue ?a"] io' a by (simp_all add: shrinks_def)
  have "req_queue ?c = []" "ind_queue ?c = []" "write_queue ?c = []"
    using keeps_shrinks [OF kf, of "?b\<lparr>write_queue := []\<rparr>" "write_queue ?b"] io' b by (simp_all add: shrinks_def)
  then show ?thesis by (simp add: flush_queues_def Let_def)
qed

lemmas disconn_loop_induct = disconn_loop.raw_induct [rotated, consumes 1, case_names step]

lemma disconn_handler_evolves: "client_ok E \<Longrightarrow> att_evolves a (disconn_handler E err d a)"
  by (simp add: disconn_handler_def evolves_call_if)

lemma disconn_loop_evolves:
  "disconn_loop E err cur a = Some b \<Longrightarrow> client_ok E \<Longrightarrow> att_evolves a b"
proof (induction E err cur a b rule: disconn_loop_induct)
  case (step loop E err cur a b)
  show ?case
  proof (cases "cur = None \<or> disconn_list a = []")
    case True
    with step.hyps show ?thesis by (auto split: option.splits)
  next
    case False
    then obtain i d nxt where e: "cur = Some i" "disconn_list a \<noteq> []"
        "entry_at (match_disconn_id i) (disconn_list a) = Some (d, nxt)"
      using step.hyps by (auto split: option.splits)
    have "loop E err (map_option dn_id nxt) (disconn_handler E err d a) = Some b"
      using step.hyps e by simp
    from step.IH [OF this step.prems] show ?thesis
      by (rule att_evolves_trans [OF disconn_handler_evolves [OF step.prems]])
  qed
qed

text \<open>The object right after the link is gone, and when all operations have been handed back.\<close>

definition cut_off :: "att_sys \<Rightarrow> att_sys" where
  "cut_off a = (io_destroy a)\<lparr>io := None\<rparr>"

definition hand_back :: "env \<Rightarrow> att_sys \<Rightarrow> att_sys" where
  "hand_back E a = disc_pending_ind E (disc_pending_req E (flush_queues (disc_att_send_op E) (cut_off a)))"

lemma disconnect_cb_alt:
  "disconnect_cb E so_error a =
     map_option (\<lambda>b. bt_att_unref E (bt_att_unregister_all E b))
       (disconn_loop E (case so_error of None \<Rightarrow> 0 | Some e \<Rightarrow> e)
         (map_option dn_id (first_entry (disconn_list (hand_back E a)))) (bt_att_ref (hand_back E a)))"
  by (simp add: disconnect_cb_def hand_back_def cut_off_def Let_def bt_att_ref_def map_conv_bind_option
      comp_def split: option.split)

lemma hand_back_drops:
  assumes ok: "client_ok E"
  shows "att_drops (cut_off a) (hand_back E a)" and "req_queue (hand_back E a) = []"
    and "ind_queue (hand_back E a) = []" and "write_queue (hand_back E a) = []"
    and "pending_req (hand_back E a) = None" and "pending_ind (hand_back E a) = None"
proof -
  let ?f = "flush_queues (disc_att_send_op E) (cut_off a)"
  have io: "io (cut_off a) = None" by (simp add: cut_off_def)
  have f: "att_drops (cut_off a) ?f"
    by (intro keeps_drops keeps_flush balance_flush) (simp_all add: disc_op_keeps disc_op_balance ok io)
  then have iof: "io ?f = None" by (simp add: att_drops_def)
  note r = disc_pending_req_drops [OF ok iof]
  then have ior: "io (disc_pending_req E ?f) = None" by (simp add: att_drops_def)
  note i = disc_pending_ind_drops [OF ok ior]
  have fr: "att_drops ?f (hand_back E a)"
    using att_drops_trans [of ?f "disc_pending_req E ?f" "hand_back E a"] r i by (simp add: hand_back_def)
  show "att_drops (cut_off a) (hand_back E a)" using att_drops_trans [OF f fr] .
  show "req_queue (hand_back E a) = []" "ind_queue (hand_back E a) = []" "write_queue (hand_back E a) = []"
    using flush_empties [of "disc_att_send_op E" "cut_off a"] disc_op_keeps [OF ok] io fr
    by (auto simp: att_drops_def shrinks_def)
  show "pending_req (hand_back E a) = None" "pending_ind (hand_back E a) = None"
    using r i by (auto simp: hand_back_def att_drops_def)
qed

lemma unregister_all_empties:
  assumes ok: "client_ok E" and io: "io a = None"
  shows "notify_list (bt_att_unregister_all E a) = [] \<and> disconn_list (bt_att_unregister_all E a) = []"
proof -
  let ?a = "fold (destroy_att_notify E) (notify_list a) (a\<lparr>notify_list := []\<rparr>)"
  let ?b = "fold (destroy_att_disconn E) (disconn_list ?a) (?a\<lparr>disconn_list := []\<rparr>)"
  have n: "att_keeps b (fold (destroy_att_notify E) ys b)" for ys b
    by (rule keeps_fold) (rule evolves_keeps [OF evolves_destroy_notify [OF ok]])
  have d: "att_keeps b (fold (destroy_att_disconn E) ys b)" for ys b
    by (rule keeps_fold) (rule evolves_keeps [OF evolves_destroy_disconn [OF ok]])
  have a: "io ?a = None" "notify_list ?a = []"
    using keeps_facts(1) [OF n, of _ "a\<lparr>notify_list := []\<rparr>"] keeps_shrinks [OF n, of "a\<lparr>notify_list := []\<rparr>"] io
    by (simp_all add: shrinks_def)
  then have "notify_list ?b = [] \<and> disconn_list ?b = []"
    using keeps_shrinks [OF d, of "?a\<lparr>disconn_list := []\<rparr>"] by (simp add: shrinks_def)
  then show ?thesis by (simp add: bt_att_unregister_all_def Let_def)
qed

lemma disconnect_settled:
  assumes ok: "client_ok E" and inv: "att_inv a"
    and c: "disconn_loop E err cur (bt_att_ref (hand_back E a)) = Some c"
  shows "att_inv (bt_att_unregister_all E c) \<and> io (bt_att_unregister_all E c) = None"
proof -
  let ?h = "hand_back E a"
  have "att_wf (cut_off a)" "io (cut_off a) = None" "balance x (cut_off a) = balance x a" for x
    using inv by (auto simp: cut_off_def io_destroy_def write_watch_destroy_def att_inv_def att_wf_def balance_logged)
  then have wf: "att_wf ?h" "io ?h = None" "balance x ?h = 0" for x
    using hand_back_drops(1) [OF ok, of a] drops_balance [OF hand_back_drops(1) [OF ok], of x a]
      inv_balance [OF inv, of x] by (simp_all add: att_drops_def)
  let ?d = "bt_att_unregister_all E c"
  have "att_evolves ?h c" using att_evolves_trans [OF evolves_ref disconn_loop_evolves [OF c ok]] .
  also have "att_evolves c ?d" by (rule evolves_unregister_all [OF ok])
  finally have hd: "att_evolves ?h ?d" .
  note k = evolves_keeps [OF hd]
  have d: "att_wf ?d" "io ?d = None" "balance x ?d = 0" "pending_req ?d = None" "pending_ind ?d = None"
    "shrinks ?h ?d" for x
    using wf k keeps_facts [OF k] keeps_pending_None [OF k] hand_back_drops(5,6) [OF ok, of a]
      keeps_shrinks [OF k] evolves_balance [OF hd] by simp_all
  have "io c = None" using \<open>att_evolves ?h c\<close> wf keeps_facts(1) evolves_keeps by fastforce
  then have "quiet ?d" using d hand_back_drops(2-4) [OF ok, of a] unregister_all_empties [OF ok, of c]
    by (simp add: quiet_def shrinks_def)
  then show ?thesis using d by (simp add: att_inv_def awake_def)
qed

lemma disconnect_cb_inv:
  assumes ok: "client_ok E" and inv: "att_inv a" and h: "disconnect_cb E so_error a = Some (Held b)"
  shows "att_inv b \<and> io b = None"
proof -
  obtain c err where c: "disconn_loop E err (map_option dn_id (first_entry (disconn_list (hand_back E a))))
      (bt_att_ref (hand_back E a)) = Some c"
    and b: "bt_att_unref E (bt_att_unregister_all E c) = Held b"
    using h by (auto simp: disconnect_cb_alt)
  then have "b = (bt_att_unregister_all E c)
      \<lparr>att_ref_count := att_ref_count (bt_att_unregister_all E c) - 1\<rparr>"
    by (auto simp: bt_att_unref_def Let_def split: if_splits)
  then show ?thesis using disconnect_settled [OF ok inv c]
    by (simp add: att_inv_def att_wf_def awake_def quiet_def)
qed

section \<open>Reachable objects\<close>

text \<open>
  The client and the system may differ from step to step; the main loop accepts the write handler.
\<close>

inductive att_reach :: "att_sys \<Rightarrow> bool" where
  new: "bt_att_new E S descr ext_signed = Some a \<Longrightarrow> att_reach a"
| step: "att_reach a \<Longrightarrow> client_ok E \<Longrightarrow> write_handler E \<Longrightarrow> att_step E a b \<Longrightarrow> att_reach b"

lemma new_inv: "bt_att_new E S descr ext_signed = Some a \<Longrightarrow> att_inv a"
  by (auto simp: bt_att_new_def Let_def bt_att_ref_def att_inv_def att_wf_def awake_def sendable_def quiet_def
      balance_def owned_def taken_in_def given_out_def not_less split: if_splits)

lemma att_step_inv:
  assumes step: "att_step E a b" and inv: "att_inv a" and ok: "client_ok E" and wh: "write_handler E"
  shows "att_inv b"
  using step
proof (cases rule: att_step.cases)
  case (call c r)
  then show ?thesis using evolves_inv [OF inv api_evolves [OF ok wh]] by blast
next
  case release
  then have "b = a\<lparr>att_ref_count := att_ref_count a - 1\<rparr>"
    by (auto simp: bt_att_unref_def Let_def split: if_splits)
  with inv show ?thesis by (simp add: att_inv_def att_wf_def awake_def sendable_def quiet_def)
next
  case (can_write ret)
  obtain again c where w: "can_write_data E ret a = (again, c)" by fastforce
  have "att_wf a" using inv by (simp add: att_inv_def)
  then have "att_moves a (io_write_ready E ret a)"
    using can_write_data_moves [OF ok _ can_write(3,2) w] by (simp add: io_write_ready_def w)
  then show ?thesis using can_write moves_inv [OF inv] by simp
next
  case (can_read rd again)
  then show ?thesis using moves_inv [OF inv can_read_data_moves [OF ok wh]] by blast
next
  case (timeout i)
  then show ?thesis using timeout_cb_inv [OF ok inv] by simp
next
  case (hangup so_error)
  then show ?thesis using disconnect_cb_inv [OF ok inv] by blast
qed

end
