(* ===== verification/Att_Behaviour.thy ===== *)
theory Att_Behaviour
  imports Att_Transport
begin

text \<open>
  What the transport of \<open>src/shared/att.c\<close> promises: the invariant of every reachable object and
  what follows from it, the behaviour of each event, and the inputs on which the code goes wrong.
\<close>

section \<open>Concrete environments\<close>

text \<open>
  A system whose client does nothing in its callbacks, and one whose client answers every response
  with a new read request.
\<close>

definition idle_env :: env where
  "idle_env = \<lparr>react = \<lambda>c a. a, sign_counter = \<lambda>f u i. None, fresh = \<lambda>i. 0, write_handler = True,
     sock_security = None, sock_set_security = \<lambda>l. False, new_timeout = 5\<rparr>"

definition read_again :: "att_sys \<Rightarrow> att_sys" where
  "read_again a = (case bt_att_send idle_env 0x0a (Some [1, 0]) 2 (Some 7) 8 (Some 9) a of
     None \<Rightarrow> a | Some (i, b) \<Rightarrow> b)"

definition busy_env :: env where
  "busy_env = idle_env\<lparr>react := \<lambda>c a. case c of Response f o' p u \<Rightarrow> read_again a | _ \<Rightarrow> a\<rparr>"

lemma idle_env_simps [simp]:
  "react idle_env c a = a" "write_handler idle_env" "sign_counter idle_env f u i = None"
  "fresh idle_env n = 0" "new_timeout idle_env = 5" "sock_security idle_env = None"
  by (simp_all add: idle_env_def)

lemma idle_ok: "client_ok idle_env"
  by (simp add: client_ok_def)

lemma busy_ok: "client_ok busy_env"
proof -
  have "att_evolves a (read_again a)" for a
    using evolves_send [of idle_env] by (auto simp: read_again_def split: option.split)
  then show ?thesis by (auto simp: client_ok_def busy_env_def split: act.split)
qed

lemma busy_write: "write_handler busy_env"
  by (simp add: busy_env_def)

definition plain_os :: att_os where
  "plain_os = \<lparr>os_io = Some 1, os_crypto = None, os_handlers = True, os_domain = None, os_proto = None,
     os_sockname = Inr 0, os_omtu = None\<rparr>"

text \<open>A new object on a socket that is not L2CAP, and with one read request sent and not answered.\<close>

definition fresh_att :: att_sys where
  "fresh_att = \<lparr>att_ref_count = 1, fd = 3, io = Some 1, io_on_l2cap = False,
     io_sec_level = 1, enc_size = 0, req_queue = [], pending_req = None, ind_queue = [],
     pending_ind = None, write_queue = [], writer_active = False, notify_list = [],
     disconn_list = [], in_req = False, buf = replicate 23 0, mtu = 23, next_send_id = 0,
     next_reg_id = 0, timeout_callback = None, timeout_destroy = None, timeout_data = 0,
     debug_callback = None, debug_destroy = None, debug_data = 0, crypto = None,
     local_sign = None, remote_sign = None, trace = []\<rparr>"

definition read_op :: att_send_op where
  "read_op = \<lparr>op_id = 1, op_timeout_id = 0, op_type = ATT_OP_TYPE_REQ, op_opcode = 0x0a,
     op_pdu = [0x0a, 1, 0], op_len = 3, op_callback = Some 7, op_destroy = Some 9, op_user_data = 8\<rparr>"

definition asked_att :: att_sys where
  "asked_att = fresh_att\<lparr>req_queue := [read_op], next_send_id := 2, writer_active := True,
     trace := [Queued read_op]\<rparr>"

lemma fresh_att_new: "bt_att_new E plain_os 3 True = Some (fresh_att\<lparr>buf := malloc E 23\<rparr>)"
  by (simp add: bt_att_new_def plain_os_def fresh_att_def bt_att_get_link_type_def is_io_l2cap_based_def
      bt_att_ref_def Let_def)

lemma malloc_idle: "malloc idle_env n = replicate n 0"
  by (rule nth_equalityI) (simp_all add: malloc_def)

lemma fresh_reach: "att_reach fresh_att"
proof -
  have "fresh_att\<lparr>buf := malloc idle_env 23\<rparr> = fresh_att"
    unfolding malloc_idle by (simp add: fresh_att_def)
  then show ?thesis using att_reach.new [OF fresh_att_new [of idle_env]] by simp
qed

lemma asked_encode:
  "create_att_send_op idle_env fresh_att 0x0a (Some [1, 0]) 2 (Some 7) 8 (Some 9) =
   Some (Some (read_op\<lparr>op_id := 0\<rparr>))"
proof -
  have t: "get_op_type 0x0a = ATT_OP_TYPE_REQ" by (simp add: get_op_type_def att_opcode_type_table_def)
  have n: "pdu_length fresh_att 0x0a (Some [1, 0]) 2 = 3" by (simp add: pdu_length_def fresh_att_def)
  have m: "malloc idle_env 3 = [0, 0, 0]" by (simp add: malloc_idle numeral_eq_Suc)
  show ?thesis
    by (simp add: create_att_send_op_def encode_pdu_def t n m buf_simps read_op_def)
       (simp add: fresh_att_def)
qed

lemma asked_send:
  "bt_att_send idle_env 0x0a (Some [1, 0]) 2 (Some 7) 8 (Some 9) fresh_att = Some (1, asked_att)"
  by (simp add: bt_att_send_def asked_encode)
     (simp add: fresh_att_def read_op_def asked_att_def wakeup_writer_def io_set_write_handler_def logged_def Let_def)

lemma asked_reach: "att_reach asked_att"
  using asked_send by (intro att_reach.step [OF fresh_reach idle_ok idle_env_simps(2)] att_step.call
      [where c = "Send 0x0a (Some [1, 0]) 2 (Some 7) 8 (Some 9)"]) simp

section \<open>The contract of the interface\<close>

text \<open>
  C33: Every operation of the interface meets the contract that the transport asks of the callbacks of its
  client: the link, the pending operations and the answer owed are left alone, the object stays
  well-formed and awake, and the ledger of destroy functions is balanced.
\<close>

theorem att_api_contract:
  assumes "client_ok E" and "write_handler E" and "api E c a = Some (r, b)"
  shows "att_evolves a b"
  using assms by (rule api_evolves)

theorem att_api_contract_witness:
  "\<exists>b. api busy_env (Cancel 1) asked_att = Some (Rbool True, b) \<and> att_evolves asked_att b \<and>
     trace b = [Queued read_op, DestroyOp 9 8]"
proof -
  let ?b = "fresh_att\<lparr>next_send_id := 2, writer_active := True, trace := [Queued read_op, DestroyOp 9 8]\<rparr>"
  have "api busy_env (Cancel 1) asked_att = Some (Rbool True, ?b)"
    by (simp add: bt_att_cancel_def asked_att_def fresh_att_def pending_is_def match_op_id_def read_op_def
        destroy_att_send_op_def call_if_def logged_def busy_env_def wakeup_writer_def)
  with att_api_contract [OF busy_ok busy_write this] show ?thesis by simp
qed

section \<open>The invariant and what it gives\<close>

lemma reach_inv: "att_reach a \<Longrightarrow> att_inv a"
proof (induction rule: att_reach.induct)
  case (new E S descr ext_signed a)
  then show ?case by (rule new_inv)
next
  case (step a E b)
  show ?case by (rule att_step_inv [OF step.hyps(4) step.IH step.hyps(2,3)])
qed

text \<open>
  C8: In every reachable object each operation is well-formed and waits in the queue of its type, at most
  one request and one indication are outstanding, and without a link nothing waits.
\<close>

theorem att_object_invariant:
  assumes "att_reach a"
  shows "att_wf a \<and> quiet a"
  using reach_inv [OF assms] by (simp add: att_inv_def)

theorem att_object_invariant_witness: "att_wf asked_att \<and> quiet asked_att"
  by (rule att_object_invariant [OF asked_reach])

definition sent :: "act list \<Rightarrow> u8 list list" where
  "sent t = concat (map (\<lambda>c. case c of IoSend p \<Rightarrow> [p] | _ \<Rightarrow> []) t)"

lemma sent_simps [simp]:
  "sent [] = []" "sent (IoSend p # t) = p # sent t" "sent (t @ t') = sent t @ sent t'"
  "sent (TimeoutAdd i # t) = sent t" "sent (TimeoutRemove i # t) = sent t"
  "sent (DestroyOp d u # t) = sent t"
  by (simp_all add: sent_def)

text \<open>The log after a write event starts with the bytes of the operation that was picked.\<close>

lemma write_sends:
  assumes ok: "client_ok E" and pick: "pick_next_send_op a = (Some op, b)" and ret: "0 \<le> ret"
  shows "\<exists>t. trace (io_write_ready E ret a) = trace a @ IoSend (op_pdu op) # t"
proof -
  have tr: "trace b = trace a"
    using pick by (auto simp: pick_next_send_op_def split: list.splits option.splits)
  have gone: "\<exists>t. trace (destroy_att_send_op E op c) = trace a @ IoSend (op_pdu op) # t"
    if "trace c = trace a @ [IoSend (op_pdu op)]" for c
  proof -
    obtain t where "trace (destroy_att_send_op E op c) = trace c @ t"
      using keeps_destroy_op [OF ok, of c op] by (auto simp: att_keeps_def)
    with that show ?thesis by simp
  qed
  show ?thesis using ret tr
    by (cases "op_type op") (auto simp: io_write_ready_def can_write_data_def pick Let_def intro!: gone)
qed

text \<open>
  C7: No wakeup is lost: as long as the link is up and was not shut down, an object that has an operation
  it may send waits for the socket, and when the socket takes data it sends that operation.
\<close>

theorem att_no_lost_wakeup:
  assumes "att_reach a" and "io a \<noteq> None" and "IoShutdown \<notin> set (trace a)" and "sendable a"
    and "client_ok E" and "0 \<le> ret"
  shows "writer_active a \<and> (\<exists>op b t. pick_next_send_op a = (Some op, b) \<and>
    trace (io_write_ready E ret a) = trace a @ IoSend (op_pdu op) # t)"
proof -
  obtain r b where "pick_next_send_op a = (r, b)" by fastforce
  moreover from this assms(4) obtain op where "r = Some op" using pick_next_None by (cases r) auto
  moreover have "writer_active a" using reach_inv [OF assms(1)] assms(2-4) by (auto simp: att_inv_def awake_def)
  ultimately show ?thesis using write_sends [OF assms(5) _ assms(6)] by blast
qed

theorem att_no_lost_wakeup_witness:
  "writer_active asked_att \<and> (\<exists>op b t. pick_next_send_op asked_att = (Some op, b) \<and>
    trace (io_write_ready busy_env 3 asked_att) = trace asked_att @ IoSend (op_pdu op) # t)"
  by (rule att_no_lost_wakeup [OF asked_reach _ _ _ busy_ok])
     (simp_all add: asked_att_def fresh_att_def sendable_def)

lemma owned_nonneg: "0 \<le> owned x a"
proof -
  have t: "0 \<le> tok x op" for op by (simp add: tok_def)
  then have "0 \<le> toks x ops" for ops by (induction ops) simp_all
  moreover have "0 \<le> pend x p" for p using t by (cases p) simp_all
  ultimately show ?thesis by (simp add: owned_def)
qed

text \<open>
  C11: Destroy functions: none runs more often than it came in with accepted operations, and once the link
  is gone each has run exactly as often.
\<close>

theorem att_destroy_ledger:
  assumes "att_reach a"
  shows "given_out x (trace a) \<le> taken_in x (trace a) \<and>
    (io a = None \<longrightarrow> given_out x (trace a) = taken_in x (trace a))"
proof -
  have b: "taken_in x (trace a) - given_out x (trace a) = owned x a"
    using inv_balance [OF reach_inv [OF assms], of x] by (simp add: balance_def)
  have "io a = None \<longrightarrow> owned x a = 0"
    using reach_inv [OF assms] by (simp add: att_inv_def quiet_def owned_def)
  with b owned_nonneg [of x a] show ?thesis by auto
qed

definition gone_att :: att_sys where
  "gone_att = fresh_att\<lparr>io := None, next_send_id := 2,
     trace := [Queued read_op, IoDestroy, Response 7 0x01 None 8, DestroyOp 9 8]\<rparr>"

lemma asked_hangup: "disconnect_cb idle_env None asked_att = Some (Held gone_att)"
  by (simp add: disconnect_cb_def disconn_loop.simps io_destroy_def write_watch_destroy_def asked_att_def
      fresh_att_def flush_queues_def disc_att_send_op_def call_response_def call_if_def logged_def
      destroy_att_send_op_def read_op_def disc_pending_req_def disc_pending_ind_def first_entry_def
      bt_att_ref_def bt_att_unregister_all_def bt_att_unref_def gone_att_def Let_def)

lemma gone_reach: "att_reach gone_att"
  by (rule att_reach.step [OF asked_reach idle_ok idle_env_simps(2) att_step.hangup [OF _ asked_hangup]])
     (simp add: asked_att_def fresh_att_def)

theorem att_destroy_ledger_witness:
  "io gone_att = None \<and> given_out (9, 8) (trace gone_att) = taken_in (9, 8) (trace gone_att) \<and>
   taken_in (9, 8) (trace gone_att) = 1"
  using att_destroy_ledger [OF gone_reach, of "(9, 8)"]
  by (simp add: gone_att_def taken_in_def tok_def read_op_def)

section \<open>Requests and responses\<close>

text \<open>A request that is in the tables is answered by the response with the next opcode.\<close>

lemma req_opcode_iff:
  assumes "get_op_type q = ATT_OP_TYPE_REQ"
  shows "get_req_opcode r = q \<longleftrightarrow> r = q + 1"
proof -
  have q: "q \<in> {0x02, 0x04, 0x06, 0x08, 0x0a, 0x0c, 0x0e, 0x10, 0x12, 0x16, 0x18}"
    using assms by (auto simp: get_op_type_def att_opcode_type_table_def split: if_splits)
  show ?thesis
  proof
    assume "get_req_opcode r = q"
    with q show "r = q + 1"
      by (auto simp: get_req_opcode_def att_req_rsp_mapping_table_def split: if_splits)
  next
    assume "r = q + 1"
    with q show "get_req_opcode r = q"
      by (auto simp: get_req_opcode_def att_req_rsp_mapping_table_def)
  qed
qed

lemma req_opcode_nonzero: "get_op_type q = ATT_OP_TYPE_REQ \<Longrightarrow> q \<noteq> 0"
  by (auto simp: get_op_type_def att_opcode_type_table_def)

text \<open>What the callback of the pending request is given.\<close>

definition answer_of :: "u8 \<Rightarrow> u8 \<Rightarrow> u8 list \<Rightarrow> u8 \<times> u8 list option" where
  "answer_of q opcode pdu =
     (if opcode = q + 1 \<or> (opcode = 0x01 \<and> length pdu = 4 \<and> pdu ! 0 = q)
      then (opcode, if pdu = [] then None else Some pdu) else (0x01, None))"

text \<open>An error response that makes the code raise the security of the link.\<close>

definition raises_security :: "env \<Rightarrow> att_sys \<Rightarrow> u8 \<Rightarrow> u8 list \<Rightarrow> bool" where
  "raises_security E a opcode pdu \<longleftrightarrow>
     opcode = 0x01 \<and> length pdu = 4 \<and> fst (change_security E (pdu ! 3) a)"

lemma handle_rsp_answers:
  assumes p: "pending_req a = Some op" and ty: "get_op_type (op_opcode op) = ATT_OP_TYPE_REQ"
    and sec: "\<not> raises_security E a opcode pdu"
  shows "\<exists>b. (b = a \<or> (\<exists>c. b = snd (change_security E c a))) \<and>
    handle_rsp E opcode pdu a =
      rsp_done E (fst (answer_of (op_opcode op) opcode pdu)) (snd (answer_of (op_opcode op) opcode pdu)) op b"
proof -
  let ?q = "op_opcode op"
  show ?thesis
  proof (cases "opcode = 0x01")
    case False
    have "handle_rsp E opcode pdu a = rsp_done E (fst (answer_of ?q opcode pdu)) (snd (answer_of ?q opcode pdu)) op a"
      using False p req_opcode_iff [OF ty, of opcode] req_opcode_nonzero [OF ty]
      by (auto simp: handle_rsp_def rsp_match_def answer_of_def)
    then show ?thesis by blast
  next
    case True
    have q1: "?q + 1 \<noteq> 1" using req_opcode_nonzero [OF ty] by simp
    show ?thesis
    proof (cases "length pdu = 4")
      case False
      then have "handle_rsp E opcode pdu a = rsp_done E (fst (answer_of ?q opcode pdu)) (snd (answer_of ?q opcode pdu)) op a"
        using True p q1 req_opcode_nonzero [OF ty]
        by (simp add: handle_rsp_def handle_error_rsp_def rsp_match_def answer_of_def)
      then show ?thesis by blast
    next
      case len: True
      obtain ch b where ch: "change_security E (pdu ! 3) a = (ch, b)" by fastforce
      then have "\<not> ch" using sec True len by (simp add: raises_security_def)
      then have "handle_rsp E opcode pdu a = rsp_done E (fst (answer_of ?q opcode pdu)) (snd (answer_of ?q opcode pdu)) op b"
        using True p q1 len ch
        by (auto simp: handle_rsp_def handle_error_rsp_def rsp_match_def answer_of_def)
      then show ?thesis using ch by (metis snd_conv)
    qed
  qed
qed

lemma change_security_same:
  "snd (change_security E e a) = a \<or> (\<exists>l. snd (change_security E e a) = a\<lparr>io_sec_level := l\<rparr>) \<or>
   (\<exists>l. snd (change_security E e a) = logged (SetSecurity l) a)"
  by (auto simp: change_security_def bt_att_set_security_def Let_def)

lemma change_security_trace:
  "\<exists>s. (\<forall>c\<in>set s. \<exists>l. c = SetSecurity l) \<and> trace (snd (change_security E e a)) = trace a @ s \<and>
     pending_req (snd (change_security E e a)) = pending_req a \<and> req_queue (snd (change_security E e a)) = req_queue a"
  using change_security_same [of E e a] by (auto intro: exI [of _ "[]"])

text \<open>The end of a request: the callback is called once, or nothing is for a request without one, and then it is destroyed.\<close>

lemma destroy_op_trace:
  assumes "client_ok E"
  shows "\<exists>t. trace (destroy_att_send_op E op a) =
    trace a @ (if op_timeout_id op \<noteq> 0 then [TimeoutRemove (op_timeout_id op)] else []) @
      (case op_destroy op of Some d \<Rightarrow> DestroyOp d (op_user_data op) # t | None \<Rightarrow> [])"
proof -
  let ?b = "if op_timeout_id op \<noteq> 0 then logged (TimeoutRemove (op_timeout_id op)) a else a"
  have "\<exists>t. trace (react E (DestroyOp d u) (logged (DestroyOp d u) ?b)) = trace ?b @ DestroyOp d u # t" for d u
    using keeps_react [OF assms, of "logged (DestroyOp d u) ?b" "DestroyOp d u"] by (auto simp: att_keeps_def)
  then show ?thesis by (cases "op_destroy op") (auto simp: destroy_att_send_op_def call_if_def Let_def)
qed

lemma rsp_done_trace:
  assumes ok: "client_ok E" and p: "pending_req a = Some op"
  shows "pending_req (rsp_done E r p op a) = None"
    "op_callback op = Some cb \<Longrightarrow> \<exists>t. trace (rsp_done E r p op a) = trace a @ Response cb r p (op_user_data op) # t"
    "op_callback op = None \<Longrightarrow> \<exists>t. trace (rsp_done E r p op a) =
       trace a @ (if op_timeout_id op \<noteq> 0 then [TimeoutRemove (op_timeout_id op)] else []) @
         (case op_destroy op of Some d \<Rightarrow> DestroyOp d (op_user_data op) # t | None \<Rightarrow> [])"
proof -
  let ?b = "call_response E op r p a"
  let ?c = "destroy_att_send_op E (current (pending_req ?b) op) ?b"
  show "pending_req (rsp_done E r p op a) = None" by (simp add: rsp_done_def Let_def)
  show "\<exists>t. trace (rsp_done E r p op a) = trace a @ Response cb r p (op_user_data op) # t" if cb: "op_callback op = Some cb"
  proof -
    have "\<exists>t. trace ?b = trace a @ Response cb r p (op_user_data op) # t"
      using keeps_react [OF ok, of "logged (Response cb r p (op_user_data op)) a" "Response cb r p (op_user_data op)"]
      by (auto simp: call_response_def call_if_def cb att_keeps_def)
    moreover have "\<exists>t. trace ?c = trace ?b @ t"
      using keeps_destroy_op [OF ok, of ?b] by (auto simp: att_keeps_def)
    ultimately show ?thesis by (auto simp: rsp_done_def Let_def)
  qed
  show "\<exists>t. trace (rsp_done E r p op a) =
      trace a @ (if op_timeout_id op \<noteq> 0 then [TimeoutRemove (op_timeout_id op)] else []) @
        (case op_destroy op of Some d \<Rightarrow> DestroyOp d (op_user_data op) # t | None \<Rightarrow> [])" if cb: "op_callback op = None"
  proof -
    have "?b = a" by (simp add: call_response_def call_if_def cb)
    then show ?thesis using destroy_op_trace [OF ok, of op a] p by (simp add: rsp_done_def current_def Let_def)
  qed
qed

text \<open>
  An error response after which the security can be raised puts the pending request back at the head
  of its queue, without a timer, and tells the client nothing. The opcode the error names is not looked
  at.
\<close>

lemma handle_rsp_retry:
  assumes "pending_req a = Some op" and "raises_security E a opcode pdu"
  shows "pending_req (handle_rsp E opcode pdu a) = None \<and>
    (\<exists>s. (\<forall>c\<in>set s. \<exists>l. c = SetSecurity l) \<and> req_queue (handle_rsp E opcode pdu a) = op\<lparr>op_timeout_id := 0\<rparr> # req_queue a \<and>
       trace (handle_rsp E opcode pdu a) =
         trace a @ s @ (if op_timeout_id op \<noteq> 0 then [TimeoutRemove (op_timeout_id op)] else []))"
proof -
  obtain b where b: "change_security E (pdu ! 3) a = (True, b)" and o: "opcode = 0x01" "length pdu = 4"
    using assms(2) by (auto simp: raises_security_def) (metis prod.collapse)
  obtain s where s: "\<forall>c\<in>set s. \<exists>l. c = SetSecurity l" "trace b = trace a @ s" "req_queue b = req_queue a"
    using change_security_trace [of E "pdu ! 3" a] b by auto
  have clear: "op_timeout_id op = 0 \<Longrightarrow> op\<lparr>op_timeout_id := 0\<rparr> = op" by simp
  have h: "handle_rsp E opcode pdu a = wakeup_writer E (if op_timeout_id op \<noteq> 0
      then (logged (TimeoutRemove (op_timeout_id op)) b)\<lparr>pending_req := None, req_queue := op\<lparr>op_timeout_id := 0\<rparr> # req_queue b\<rparr>
      else b\<lparr>pending_req := None, req_queue := op # req_queue b\<rparr>)"
    using assms(1) b o by (simp add: handle_rsp_def handle_error_rsp_def)
  show ?thesis unfolding h using s clear by (intro conjI exI [of _ s]) simp_all
qed

text \<open>
  C10: A response frees the slot of the pending request and, unless it is an error response after which the security of
  the link can be raised, completes the request: its callback is given the PDU exactly when the response is the one to
  that request (its opcode is the next one, or it is an error response that names the request), and a failure
  otherwise; a request that was cancelled has no callback, and nothing is called. After an error response that raises
  the security the request goes back to the head of its queue, without a timer, and nothing is called. A response that
  nothing waits for shuts the link down.
\<close>

theorem att_response_answered:
  assumes "client_ok E" and "att_wf a"
  shows "case pending_req a of
      None \<Rightarrow> handle_rsp E opcode pdu a = io_shutdown a
    | Some op \<Rightarrow> pending_req (handle_rsp E opcode pdu a) = None \<and>
        (\<exists>s. (\<forall>c\<in>set s. \<exists>l. c = SetSecurity l) \<and>
          (if raises_security E a opcode pdu
           then req_queue (handle_rsp E opcode pdu a) = op\<lparr>op_timeout_id := 0\<rparr> # req_queue a \<and>
             trace (handle_rsp E opcode pdu a) =
               trace a @ s @ (if op_timeout_id op \<noteq> 0 then [TimeoutRemove (op_timeout_id op)] else [])
           else case op_callback op of
               Some cb \<Rightarrow> \<exists>t. trace (handle_rsp E opcode pdu a) = trace a @ s @
                 (case answer_of (op_opcode op) opcode pdu of (r, p) \<Rightarrow> Response cb r p (op_user_data op)) # t
             | None \<Rightarrow> \<exists>t. trace (handle_rsp E opcode pdu a) = trace a @ s @
                 (if op_timeout_id op \<noteq> 0 then [TimeoutRemove (op_timeout_id op)] else []) @
                 (case op_destroy op of Some d \<Rightarrow> DestroyOp d (op_user_data op) # t | None \<Rightarrow> [])))"
proof (cases "pending_req a")
  case None
  then show ?thesis by (simp add: handle_rsp_def)
next
  case (Some op)
  have ty: "get_op_type (op_opcode op) = ATT_OP_TYPE_REQ"
    using assms(2) Some by (auto simp: att_wf_def op_wf_def)
  show ?thesis
  proof (cases "raises_security E a opcode pdu")
    case True
    then show ?thesis using handle_rsp_retry [OF Some True] Some by simp
  next
    case False
    obtain b where b: "b = a \<or> (\<exists>c. b = snd (change_security E c a))" and
      h: "handle_rsp E opcode pdu a =
        rsp_done E (fst (answer_of (op_opcode op) opcode pdu)) (snd (answer_of (op_opcode op) opcode pdu)) op b"
      using handle_rsp_answers [OF Some ty False] by blast
    obtain s where s: "\<forall>c\<in>set s. \<exists>l. c = SetSecurity l" "trace b = trace a @ s" "pending_req b = Some op"
    proof (cases "b = a")
      case True
      then show ?thesis using Some that [of "[]"] by simp
    next
      case False
      then obtain c where "b = snd (change_security E c a)" using b by blast
      then show ?thesis using Some that change_security_trace [of E c a] by auto
    qed
    obtain r p where rp: "answer_of (op_opcode op) opcode pdu = (r, p)" by fastforce
    note d = rsp_done_trace [OF assms(1) s(3)]
    have h: "handle_rsp E opcode pdu a = rsp_done E r p op b" using h rp by simp
    note pending = \<open>pending_req a = Some op\<close>
    show ?thesis
    proof (cases "op_callback op")
      case None
      show ?thesis
        unfolding pending option.case None if_not_P [OF False] h
        using d(1) [of r p] d(3) [OF None, of r p] s(1) unfolding s(2) append_assoc
        by - (rule conjI, assumption, rule exI [of _ s], rule conjI, assumption, assumption)
    next
      case (Some cb)
      show ?thesis
        unfolding pending option.case Some if_not_P [OF False] h rp prod.case
        using d(1) [of r p] d(2) [OF Some, of r p] s(1) unfolding s(2) append_assoc
        by - (rule conjI, assumption, rule exI [of _ s], rule conjI, assumption, assumption)
    qed
  qed
qed

definition waiting_att :: att_sys where
  "waiting_att = fresh_att\<lparr>pending_req := Some (read_op\<lparr>op_timeout_id := 5\<rparr>), next_send_id := 2,
     writer_active := True, trace := [Queued read_op, IoSend [0x0a, 1, 0], TimeoutAdd 1]\<rparr>"

lemma waiting_write: "io_write_ready idle_env 3 asked_att = waiting_att"
  by (simp add: io_write_ready_def can_write_data_def pick_next_send_op_def asked_att_def fresh_att_def
      read_op_def logged_def waiting_att_def)

lemma waiting_reach: "att_reach waiting_att"
  using att_reach.step [OF asked_reach idle_ok idle_env_simps(2) att_step.can_write [of asked_att idle_env 3]]
  unfolding waiting_write by (simp add: asked_att_def fresh_att_def)

lemma waiting_pending: "pending_req waiting_att = Some (read_op\<lparr>op_timeout_id := 5\<rparr>)" "att_wf waiting_att"
  using reach_inv [OF waiting_reach] by (simp_all add: waiting_att_def att_inv_def)

text \<open>The request is answered; or the link is not secure, and it goes back into the queue after an error about another one.\<close>

theorem att_response_answered_witness:
  "(\<exists>s t. (\<forall>c\<in>set s. \<exists>l. c = SetSecurity l) \<and>
     trace (handle_rsp busy_env 0x0b [0x42] waiting_att) =
       trace waiting_att @ s @ Response 7 0x0b (Some [0x42]) 8 # t \<and>
     pending_req (handle_rsp busy_env 0x0b [0x42] waiting_att) = None) \<and>
   req_queue (handle_rsp idle_env 0x01 [0x12, 1, 0, 0x05] (waiting_att\<lparr>io_sec_level := 0\<rparr>)) = [read_op\<lparr>op_timeout_id := 0\<rparr>]"
proof -
  let ?a = "waiting_att\<lparr>io_sec_level := 0\<rparr>"
  have no: "\<not> raises_security busy_env waiting_att 0x0b [0x42]" by (simp add: raises_security_def)
  have yes: "raises_security idle_env ?a 0x01 [0x12, 1, 0, 0x05]"
    by (simp add: raises_security_def change_security_def bt_att_get_security_def bt_att_set_security_def
        waiting_att_def fresh_att_def)
  have wf: "att_wf ?a" using waiting_pending(2) by (simp add: att_wf_def)
  have "pending_req ?a = Some (read_op\<lparr>op_timeout_id := 5\<rparr>)" "req_queue ?a = []"
    by (simp_all add: waiting_att_def fresh_att_def)
  then show ?thesis
    using att_response_answered [OF busy_ok waiting_pending(2), where opcode = "0x0b" and pdu = "[0x42]"]
      att_response_answered [OF idle_ok wf, where opcode = 1 and pdu = "[0x12, 1, 0, 0x05]"] no yes
    by (simp add: waiting_pending(1) read_op_def answer_of_def) blast
qed

lemma pick_pending:
  assumes "att_wf a" and "pending_req a = Some op" and "pick_next_send_op a = (r, b)"
  shows "req_queue b = req_queue a \<and> pending_req b = Some op \<and>
    (\<forall>op'. r = Some op' \<longrightarrow> op_type op' \<noteq> ATT_OP_TYPE_REQ)"
  using assms by (auto simp: pick_next_send_op_def att_wf_def split: list.splits option.splits)

text \<open>
  One request at a time: while a request waits for its answer, a write event picks no other request
  and leaves it pending, whatever the client does in its callbacks (it may only clear its functions).
\<close>

theorem att_one_request:
  assumes "client_ok E" and "att_wf a" and "pending_req a = Some op"
  shows "(\<forall>op' b. pick_next_send_op a = (Some op', b) \<longrightarrow> op_type op' \<noteq> ATT_OP_TYPE_REQ) \<and>
    (\<exists>op'. pending_req (io_write_ready E ret a) = Some op' \<and> clear_op op' = clear_op op)"
proof -
  obtain r b where pick: "pick_next_send_op a = (r, b)" by fastforce
  note p = pick_pending [OF assms(2,3) pick]
  have keeps: "\<exists>op'. pending_req d = Some op' \<and> clear_op op' = clear_op op"
    if "att_keeps c d" "pending_req c = Some op" for c d
    using that by (cases "pending_req d") (auto simp: att_keeps_def)
  have resp: "att_keeps b (destroy_att_send_op E o' (call_response E o' x y b))" for o' x y
    by (rule att_keeps_trans [OF evolves_keeps [OF evolves_response [OF assms(1)]] keeps_destroy_op [OF assms(1)]])
  note dest = keeps [OF keeps_destroy_op [OF assms(1)]]
  have "\<exists>op'. pending_req (io_write_ready E ret a) = Some op' \<and> clear_op op' = clear_op op"
  proof (cases r)
    case None
    with pick p show ?thesis by (simp add: io_write_ready_def can_write_data_def write_watch_destroy_def)
  next
    case (Some op')
    with pick p show ?thesis
      by (cases "op_type op'") (auto simp: io_write_ready_def can_write_data_def Let_def keeps [OF resp] dest)
  qed
  with p pick show ?thesis by simp
qed

theorem att_one_request_witness:
  "\<exists>op'. pending_req (io_write_ready busy_env 3 waiting_att) = Some op' \<and>
     clear_op op' = clear_op (read_op\<lparr>op_timeout_id := 5\<rparr>)"
proof -
  have "att_wf waiting_att" using reach_inv [OF waiting_reach] by (simp add: att_inv_def)
  then show ?thesis using att_one_request [OF busy_ok, of waiting_att "read_op\<lparr>op_timeout_id := 5\<rparr>" 3]
    by (simp add: waiting_att_def)
qed

text \<open>
  The peer has one request at a time as well: while our answer to its request was not sent, another
  one shuts the link down and reaches no handler.
\<close>

theorem att_second_request:
  assumes "get_op_type opcode = ATT_OP_TYPE_REQ" and "in_req a" and "rd = opcode # pdu"
    and "length rd \<le> unat (mtu a)" and "length (buf a) = unat (mtu a)" and "io a \<noteq> None" and "0 < att_ref_count a"
  shows "\<exists>b. can_read_data E (Some rd) a = Some (False, Held b) \<and> trace b = trace a @ [IoShutdown]"
proof -
  have "buf_write (buf a) 0 (take (unat (mtu a)) rd) \<noteq> None" using assms(4,5) by (simp add: buf_write_def)
  then show ?thesis using assms
    by (auto simp: can_read_data_def dispatch_pdu_def bt_att_ref_def bt_att_unref_def io_shutdown_def Let_def)
qed

theorem att_second_request_witness:
  "\<exists>b. can_read_data idle_env (Some [0x0a, 1, 0]) (fresh_att\<lparr>in_req := True\<rparr>) = Some (False, Held b) \<and>
     trace b = [IoShutdown]"
proof -
  have t: "get_op_type 0x0a = ATT_OP_TYPE_REQ" by (simp add: get_op_type_def att_opcode_type_table_def)
  show ?thesis
    using att_second_request [OF t, of "fresh_att\<lparr>in_req := True\<rparr>" "[0x0a, 1, 0]" "[1, 0]" idle_env]
    by (simp add: fresh_att_def)
qed

section \<open>The end of the link\<close>

lemma entry_at_ids:
  "distinct (map dn_id ds) \<Longrightarrow> map dn_id ds = us @ v # vs \<Longrightarrow>
   \<exists>d nxt. entry_at (match_disconn_id v) ds = Some (d, nxt) \<and> map_option dn_id nxt = first_entry vs"
proof (induction us arbitrary: ds)
  case Nil
  then show ?case
    by (auto simp: match_disconn_id_def first_entry_def map_eq_Cons_conv split: list.splits)
next
  case (Cons u us)
  then obtain e es where ds: "ds = e # es" "dn_id e = u" "map dn_id es = us @ v # vs" by auto
  with Cons.prems(1) have "u \<noteq> v" by auto
  then show ?case using Cons.IH [OF _ ds(3)] Cons.prems(1) ds by (auto simp: match_disconn_id_def)
qed

lemma disconn_loop_ends:
  assumes ok: "client_ok E" and ids: "distinct (us @ vs)"
  shows "io a = None \<Longrightarrow> map dn_id (disconn_list a) = us @ vs \<or> disconn_list a = [] \<Longrightarrow>
    disconn_loop E err (first_entry vs) a \<noteq> None"
  using ids
proof (induction vs arbitrary: us a)
  case Nil
  then show ?case by (simp add: disconn_loop.simps first_entry_def)
next
  case (Cons v vs)
  show ?case
  proof (cases "disconn_list a = []")
    case True
    then show ?thesis by (simp add: disconn_loop.simps first_entry_def)
  next
    case False
    with Cons.prems have m: "map dn_id (disconn_list a) = us @ v # vs" by simp
    with Cons.prems(3) have "distinct (map dn_id (disconn_list a))" by simp
    from entry_at_ids [OF this m] obtain d nxt where e:
      "entry_at (match_disconn_id v) (disconn_list a) = Some (d, nxt)" "map_option dn_id nxt = first_entry vs"
      by blast
    let ?b = "disconn_handler E err d a"
    have k: "att_keeps a ?b" by (rule evolves_keeps [OF disconn_handler_evolves [OF ok]])
    have b: "io ?b = None" "map dn_id (disconn_list ?b) = (us @ [v]) @ vs \<or> disconn_list ?b = []"
      using keeps_facts(1) [OF k] keeps_shrinks [OF k] Cons.prems(1) m by (auto simp: shrinks_def)
    have "disconn_loop E err (first_entry vs) ?b \<noteq> None"
      using Cons.IH [OF b] Cons.prems(3) by simp
    then show ?thesis using False e by (subst disconn_loop.simps) (simp add: first_entry_def)
  qed
qed

lemma settled_ledger:
  assumes "att_inv b" and "io b = None"
  shows "given_out x (trace b) = taken_in x (trace b)"
proof -
  have "owned x b = 0" using assms by (simp add: att_inv_def quiet_def owned_def)
  then show ?thesis using inv_balance [OF assms(1), of x] by (simp add: balance_def)
qed

text \<open>An object without a link that is freed takes nothing with it.\<close>

lemma freed_ledger:
  assumes ok: "client_ok E" and inv: "att_inv d" and io: "io d = None" and f: "bt_att_unref E d = Freed t"
  shows "given_out x t = taken_in x t"
proof -
  let ?a = "d\<lparr>att_ref_count := att_ref_count d - 1\<rparr>"
  let ?b = "bt_att_cancel_all E (bt_att_unregister_all E ?a)"
  let ?c = "call_if E (timeout_destroy ?b) (\<lambda>d. DestroyHook d (timeout_data ?b)) ?b"
  let ?e = "call_if E (debug_destroy ?c) (\<lambda>d. DestroyHook d (debug_data ?c)) ?c"
  have a: "att_inv ?a" "io ?a = None" using inv io by (simp_all add: att_inv_def att_wf_def awake_def quiet_def)
  have ab: "att_evolves ?a ?b"
    by (rule att_evolves_trans [OF evolves_unregister_all [OF ok] evolves_cancel_all [OF ok]])
  have bc: "att_evolves ?b ?c" and ce: "att_evolves ?c ?e" by (simp_all add: evolves_call_if ok)
  have b: "att_inv ?b" "io ?b = None"
    using evolves_inv [OF a(1) ab] keeps_facts(1) [OF evolves_keeps [OF ab]] a(2) by simp_all
  note be = att_evolves_trans [OF bc ce]
  have e: "att_inv ?e" "io ?e = None"
    using evolves_inv [OF b(1) be] keeps_facts(1) [OF evolves_keeps [OF be]] b(2) by simp_all
  have "pending_req ?b = None" "pending_ind ?b = None" using b by (auto simp: att_inv_def quiet_def)
  then have "t = trace ?e"
    using f b(2) by (simp add: bt_att_unref_def Let_def bt_att_free_def destroy_pending_def io_destroy_def
        split: if_splits)
  then show ?thesis using settled_ledger [OF e] by simp
qed

fun final_trace :: "held \<Rightarrow> act list" where
  "final_trace (Held a) = trace a"
| "final_trace (Freed t) = t"

lemma cut_off_same: "disconn_list (cut_off a) = disconn_list a" "io (cut_off a) = None"
  by (simp_all add: cut_off_def io_destroy_def write_watch_destroy_def)

lemma first_entry_ids: "map_option dn_id (first_entry ds) = first_entry (map dn_id ds)"
  by (cases ds) (simp_all add: first_entry_def)

lemma hand_back_ids:
  assumes "client_ok E"
  shows "disconn_list (hand_back E a) = [] \<or> map dn_id (disconn_list (hand_back E a)) = map dn_id (disconn_list a)"
  using hand_back_drops(1) [OF assms, of a] cut_off_same(1) [of a]
  by (simp add: att_drops_def shrinks_def)

text \<open>
  C9: A hangup comes to an end, whatever the client does in its callbacks, and never uses a freed entry:
  the object is quiet afterwards, and with it, or with the log when it was freed, every destroy
  function that came in has run exactly as often.
\<close>

theorem att_disconnect_completes:
  assumes "att_reach a" and "client_ok E" and "distinct (map dn_id (disconn_list a))"
  shows "\<exists>h. disconnect_cb E so_error a = Some h \<and>
    (\<forall>b. h = Held b \<longrightarrow> io b = None \<and> quiet b) \<and>
    (\<forall>x. given_out x (final_trace h) = taken_in x (final_trace h))"
proof -
  note inv = reach_inv [OF assms(1)] and ok = assms(2)
  let ?h = "hand_back E a"
  define err where "err = (case so_error of None \<Rightarrow> 0 | Some e \<Rightarrow> e)"
  have "disconn_loop E err (first_entry (map dn_id (disconn_list ?h))) (bt_att_ref ?h) \<noteq> None"
    using hand_back_ids [OF ok, of a] hand_back_drops(1) [OF ok, of a] assms(3)
    by (intro disconn_loop_ends [OF ok, of "[]"]) (auto simp: att_drops_def bt_att_ref_def)
  then obtain c where c: "disconn_loop E err (map_option dn_id (first_entry (disconn_list ?h))) (bt_att_ref ?h) = Some c"
    by (auto simp: first_entry_ids)
  let ?d = "bt_att_unregister_all E c"
  note d = disconnect_settled [OF ok inv c]
  have h: "disconnect_cb E so_error a = Some (bt_att_unref E ?d)"
    using c by (simp add: disconnect_cb_alt err_def)
  show ?thesis
  proof (cases "bt_att_unref E ?d")
    case (Held b)
    then have b: "att_inv b \<and> io b = None" using disconnect_cb_inv [OF ok inv, of so_error b] h by simp
    with Held h settled_ledger [of b] show ?thesis by (simp add: att_inv_def)
  next
    case (Freed t)
    have "given_out x t = taken_in x t" for x
      using freed_ledger [OF ok _ _ Freed] d by blast
    with Freed h show ?thesis by simp
  qed
qed

theorem att_disconnect_completes_witness:
  "\<exists>h. disconnect_cb busy_env (Some 110) asked_att = Some h \<and>
    (\<forall>b. h = Held b \<longrightarrow> io b = None \<and> quiet b) \<and>
    (\<forall>x. given_out x (final_trace h) = taken_in x (final_trace h))"
  by (rule att_disconnect_completes [OF asked_reach busy_ok]) (simp add: asked_att_def fresh_att_def)

section \<open>Dispatch to the handlers\<close>

definition matching :: "u8 \<Rightarrow> att_notify list \<Rightarrow> att_notify list" where
  "matching opcode ns = filter (\<lambda>n. opcode_match (ucast (nt_opcode n)) opcode) ns"

definition notify_call :: "env \<Rightarrow> u8 \<Rightarrow> u8 list \<Rightarrow> att_notify \<Rightarrow> att_sys \<Rightarrow> att_sys" where
  "notify_call E opcode pdu n = call_if E (nt_callback n) (\<lambda>f. Notified f opcode pdu (nt_user_data n))"

lemma entry_at_notify:
  "distinct (map nt_id (us @ n # vs)) \<Longrightarrow>
   entry_at (match_notify_id (nt_id n)) (us @ n # vs) = Some (n, first_entry vs)"
  by (induction us) (auto simp: match_notify_id_def first_entry_def split: list.split)

lemma notify_call_list:
  assumes "\<And>c a. notify_list (react E c a) = notify_list a"
  shows "notify_list (notify_call E opcode pdu n a) = notify_list a"
  by (simp add: notify_call_def call_if_def assms split: option.split)

lemma notify_loop_calls:
  assumes same: "\<And>c a. notify_list (react E c a) = notify_list a"
  shows "notify_list a = us @ vs \<Longrightarrow> distinct (map nt_id (us @ vs)) \<Longrightarrow>
    notify_loop E opcode pdu (map_option nt_id (first_entry vs)) found a =
      Some (found \<or> matching opcode vs \<noteq> [], fold (notify_call E opcode pdu) (matching opcode vs) a)"
proof (induction vs arbitrary: us a found)
  case Nil
  then show ?case by (simp add: notify_loop.simps first_entry_def matching_def)
next
  case (Cons n vs)
  have e: "entry_at (match_notify_id (nt_id n)) (notify_list a) = Some (n, first_entry vs)"
    unfolding Cons.prems(1) by (rule entry_at_notify [OF Cons.prems(2)])
  let ?b = "notify_call E opcode pdu n a"
  have d: "distinct (map nt_id ((us @ [n]) @ vs))" using Cons.prems(2) by simp
  have b: "notify_list ?b = (us @ [n]) @ vs" "notify_list a = (us @ [n]) @ vs"
    using Cons.prems(1) notify_call_list [OF same] by simp_all
  have ih: "notify_loop E opcode pdu (map_option nt_id (first_entry vs)) True ?b =
      Some (True, fold (notify_call E opcode pdu) (matching opcode vs) ?b)"
    using Cons.IH [OF b(1) d, of True] by simp
  note skip = Cons.IH [OF b(2) d, of found]
  have start: "map_option nt_id (first_entry (n # vs)) = Some (nt_id n)" by (simp add: first_entry_def)
  show ?case unfolding start
    by (subst notify_loop.simps)
       (simp add: e skip Let_def ih [unfolded notify_call_def [abs_def]] matching_def
          b(1) [unfolded notify_call_def] notify_call_def [abs_def])
qed

text \<open>What dispatching comes to: the matching handlers in the order they were registered.\<close>

definition dispatched :: "env \<Rightarrow> u8 \<Rightarrow> u8 list \<Rightarrow> att_sys \<Rightarrow> held option" where
  "dispatched E opcode pdu a =
     (let ns = matching opcode (notify_list a);
          c = fold (notify_call E opcode pdu) ns (bt_att_ref a)
      in if ns = [] \<and> get_op_type opcode \<noteq> ATT_OP_TYPE_CMD
         then map_option (bt_att_unref E) (respond_not_supported E opcode c)
         else Some (bt_att_unref E c))"

lemma notify_dispatch:
  assumes "\<And>c a. notify_list (react E c a) = notify_list a" and "distinct (map nt_id (notify_list a))"
    and "opcode AND 0x80 = 0 \<or> crypto a \<noteq> None"
  shows "handle_notify E opcode pdu a = dispatched E opcode pdu a"
proof -
  have "notify_loop E opcode pdu (map_option nt_id (first_entry (notify_list a))) False (bt_att_ref a) =
      Some (matching opcode (notify_list a) \<noteq> [],
        fold (notify_call E opcode pdu) (matching opcode (notify_list a)) (bt_att_ref a))"
    using notify_loop_calls [OF assms(1), of "bt_att_ref a" "[]" "notify_list a" opcode pdu False] assms(2)
    by (simp add: bt_att_ref_def)
  then show ?thesis using assms(3)
    by (auto simp: handle_notify_def dispatched_def Let_def bt_att_ref_def map_conv_bind_option comp_def)
qed

text \<open>
  A PDU goes to every handler whose opcode matches, in the order of registration, as long as the
  handlers leave the list of handlers alone; one that is not a command and that no handler takes is
  answered with an error.
\<close>

theorem att_notify_dispatch:
  assumes "\<And>c a. notify_list (react E c a) = notify_list a" and "distinct (map nt_id (notify_list a))"
    and "opcode AND 0x80 = 0 \<or> crypto a \<noteq> None"
  shows "handle_notify E opcode pdu a = dispatched E opcode pdu a"
  using assms by (rule notify_dispatch)

definition handler_att :: att_sys where
  "handler_att = fresh_att\<lparr>notify_list :=
     [\<lparr>nt_id = 1, nt_opcode = 0, nt_callback = Some 4, nt_destroy = None, nt_user_data = 5\<rparr>,
      \<lparr>nt_id = 2, nt_opcode = 0x1B, nt_callback = Some 6, nt_destroy = None, nt_user_data = 7\<rparr>,
      \<lparr>nt_id = 3, nt_opcode = 0x1B, nt_callback = Some 8, nt_destroy = None, nt_user_data = 9\<rparr>]\<rparr>"

theorem att_notify_dispatch_witness:
  "handle_notify idle_env 0x1B [1, 0, 2] handler_att =
     Some (Held (handler_att\<lparr>trace := [Notified 6 0x1B [1, 0, 2] 7, Notified 8 0x1B [1, 0, 2] 9]\<rparr>))"
proof -
  have t: "get_op_type 0x1B = ATT_OP_TYPE_NOT" by (simp add: get_op_type_def att_opcode_type_table_def)
  have "handle_notify idle_env 0x1B [1, 0, 2] handler_att = dispatched idle_env 0x1B [1, 0, 2] handler_att"
    by (rule att_notify_dispatch) (simp_all add: handler_att_def)
  also have "\<dots> = Some (Held (handler_att\<lparr>trace := [Notified 6 0x1B [1, 0, 2] 7, Notified 8 0x1B [1, 0, 2] 9]\<rparr>))"
    by (simp add: dispatched_def matching_def opcode_match_def t handler_att_def fresh_att_def notify_call_def
        call_if_def logged_def bt_att_ref_def bt_att_unref_def Let_def)
  finally show ?thesis .
qed

lemma signed_dropped:
  assumes "opcode AND 0x80 \<noteq> 0" and "crypto a = None"
  shows "handle_notify E opcode pdu a = Some (Held a)"
proof -
  have "get_le32 (drop (length pdu - 12) pdu) \<noteq> None" if "14 \<le> length pdu"
    using that by (auto simp: get_le32_def buf_get_def)
  then have "handle_signed E pdu a = Some False"
    using assms(2) by (auto simp: handle_signed_def bt_crypto_sign_att_def Let_def split: option.split)
  with assms show ?thesis by (simp add: handle_notify_def)
qed

text \<open>
  Signed commands are never verified: without cryptography they are dropped, whatever their signature,
  and with it they go to the handlers unchecked, signature included.
\<close>

theorem att_signed_unverified:
  assumes "opcode AND 0x80 \<noteq> 0"
    and "\<And>c a. notify_list (react E c a) = notify_list a" and "distinct (map nt_id (notify_list a))"
  shows "handle_notify E opcode pdu a =
    (if crypto a = None then Some (Held a) else dispatched E opcode pdu a)"
  using signed_dropped [OF assms(1)] notify_dispatch [OF assms(2,3)] by simp

definition signed_att :: "kernel option \<Rightarrow> att_sys" where
  "signed_att K = fresh_att\<lparr>crypto := K, notify_list :=
     [\<lparr>nt_id = 1, nt_opcode = 0xD2, nt_callback = Some 4, nt_destroy = None, nt_user_data = 5\<rparr>]\<rparr>"

text \<open>A kernel that refuses every key.\<close>

definition deaf_kernel :: kernel where
  "deaf_kernel = \<lparr>k_key = \<lambda>a k. False, k_run = \<lambda>a k m. None\<rparr>"

theorem att_signed_unverified_witness:
  "handle_notify idle_env 0xD2 [1, 0, 2] (signed_att None) = Some (Held (signed_att None)) \<and>
   handle_notify idle_env 0xD2 [1, 0, 2] (signed_att (Some deaf_kernel)) =
     Some (Held ((signed_att (Some deaf_kernel))\<lparr>trace := [Notified 4 0xD2 [1, 0, 2] 5]\<rparr>))"
proof -
  have t: "get_op_type 0xD2 = ATT_OP_TYPE_CMD" by (simp add: get_op_type_def att_opcode_type_table_def)
  have h: "handle_notify idle_env 0xD2 [1, 0, 2] (signed_att Q) =
      (if crypto (signed_att Q) = None then Some (Held (signed_att Q))
       else dispatched idle_env 0xD2 [1, 0, 2] (signed_att Q))"
    for Q by (rule att_signed_unverified) (simp_all add: signed_att_def)
  have "dispatched idle_env 0xD2 [1, 0, 2] (signed_att (Some deaf_kernel)) =
      Some (Held ((signed_att (Some deaf_kernel))\<lparr>trace := [Notified 4 0xD2 [1, 0, 2] 5]\<rparr>))"
    by (simp add: dispatched_def matching_def opcode_match_def t signed_att_def fresh_att_def notify_call_def
        call_if_def logged_def bt_att_ref_def bt_att_unref_def Let_def)
  then show ?thesis by (simp add: h) (simp add: signed_att_def fresh_att_def)
qed

section \<open>Draining the queues\<close>

text \<open>What can be sent without waiting for the peer, in the order it goes out.\<close>

definition ready_ops :: "att_sys \<Rightarrow> att_send_op list" where
  "ready_ops a = write_queue a @ (if pending_req a = None then take 1 (req_queue a) else []) @
     (if pending_ind a = None then take 1 (ind_queue a) else [])"

lemma ready_sendable: "ready_ops a = [] \<longleftrightarrow> \<not> sendable a"
  by (auto simp: ready_ops_def sendable_def)

lemma trace_update_same:
  "ready_ops (a\<lparr>trace := t\<rparr>) = ready_ops a" "att_wf (a\<lparr>trace := t\<rparr>) = att_wf a"
  by (simp_all add: ready_ops_def att_wf_def)

lemma idle_destroy:
  "\<exists>t. destroy_att_send_op idle_env op a = a\<lparr>trace := trace a @ t\<rparr> \<and> sent t = []"
proof -
  let ?r = "if op_timeout_id op \<noteq> 0 then [TimeoutRemove (op_timeout_id op)] else []"
  let ?d = "case op_destroy op of None \<Rightarrow> [] | Some d \<Rightarrow> [DestroyOp d (op_user_data op)]"
  have "destroy_att_send_op idle_env op a = a\<lparr>trace := trace a @ ?r @ ?d\<rparr>"
    by (simp add: destroy_att_send_op_def call_if_def logged_def split: option.split)
  moreover have "sent (?r @ ?d) = []" by (simp split: option.split)
  ultimately show ?thesis by blast
qed

lemma write_ready_step:
  assumes wf: "att_wf a" and r: "ready_ops a = op # ops"
  shows "ready_ops (io_write_ready idle_env 0 a) = ops \<and> att_wf (io_write_ready idle_env 0 a) \<and>
    sent (trace (io_write_ready idle_env 0 a)) = sent (trace a) @ [op_pdu op]"
proof -
  consider (wr) q where "write_queue a = op # q"
    | (req) q where "write_queue a = []" "pending_req a = None" "req_queue a = op # q"
    | (ind) q where "write_queue a = []" "pending_req a \<noteq> None \<or> req_queue a = []"
        "pending_ind a = None" "ind_queue a = op # q"
    using r by (cases "write_queue a"; cases "req_queue a"; cases "ind_queue a")
      (auto simp: ready_ops_def split: if_splits)
  then show ?thesis
  proof cases
    case wr
    have ty: "op_type op \<notin> {ATT_OP_TYPE_REQ, ATT_OP_TYPE_IND}" using wf wr by (auto simp: att_wf_def)
    let ?b = "logged (IoSend (op_pdu op)) (a\<lparr>write_queue := q\<rparr>)"
    obtain c where c: "c = (if op_type op = ATT_OP_TYPE_RSP then ?b\<lparr>in_req := False\<rparr> else ?b)" by blast
    have e: "io_write_ready idle_env 0 a = destroy_att_send_op idle_env op c"
      using ty wr by (cases "op_type op") (auto simp: io_write_ready_def can_write_data_def pick_next_send_op_def Let_def c)
    have "att_wf c" using wf wr by (auto simp: att_wf_def c)
    moreover have "ready_ops c = ops" using r wr by (auto simp: ready_ops_def c)
    moreover have "trace c = trace a @ [IoSend (op_pdu op)]" by (simp add: c)
    moreover obtain t where "destroy_att_send_op idle_env op c = c\<lparr>trace := trace c @ t\<rparr>" "sent t = []"
      using idle_destroy by blast
    ultimately show ?thesis by (simp add: e trace_update_same)
  next
    case req
    then have ty: "op_type op = ATT_OP_TYPE_REQ" "op_wf op" using wf by (auto simp: att_wf_def)
    with req wf r show ?thesis
      by (auto simp: io_write_ready_def can_write_data_def pick_next_send_op_def Let_def ready_ops_def att_wf_def)
  next
    case ind
    then have ty: "op_type op = ATT_OP_TYPE_IND" "op_wf op" using wf by (auto simp: att_wf_def)
    with ind wf r show ?thesis
      by (auto simp: io_write_ready_def can_write_data_def pick_next_send_op_def Let_def ready_ops_def att_wf_def
          split: option.splits list.splits)
  qed
qed

text \<open>
  As many write events as there are operations ready send them all, in order: first what needs no
  answer, then one request, then one indication. The next event turns the write handler off.
\<close>

theorem att_drain:
  assumes "att_wf a"
  shows "sent (trace ((io_write_ready idle_env 0 ^^ length (ready_ops a)) a)) =
      sent (trace a) @ map op_pdu (ready_ops a) \<and>
    \<not> sendable ((io_write_ready idle_env 0 ^^ length (ready_ops a)) a) \<and>
    \<not> writer_active ((io_write_ready idle_env 0 ^^ Suc (length (ready_ops a))) a)"
proof -
  have "sent (trace ((io_write_ready idle_env 0 ^^ length ops) a)) = sent (trace a) @ map op_pdu ops \<and>
      \<not> sendable ((io_write_ready idle_env 0 ^^ length ops) a)" if "ready_ops a = ops" "att_wf a" for ops a
    using that
  proof (induction ops arbitrary: a)
    case Nil
    then show ?case using ready_sendable [of a] by simp
  next
    case (Cons op ops)
    show ?case using write_ready_step [OF Cons.prems(2,1)] Cons.IH [of "io_write_ready idle_env 0 a"]
      by (simp add: funpow_swap1)
  qed
  note n = this [OF refl assms]
  moreover have "\<not> writer_active (io_write_ready idle_env 0 b)" if "\<not> sendable b" for b
  proof -
    obtain r c where "pick_next_send_op b = (r, c)" by fastforce
    moreover from this that have "r = None" using ready_sendable [of b]
      by (auto simp: ready_ops_def pick_next_send_op_def sendable_def split: list.splits option.splits)
    ultimately show ?thesis by (simp add: io_write_ready_def can_write_data_def write_watch_destroy_def)
  qed
  ultimately show ?thesis by simp
qed

theorem att_drain_witness:
  "sent (trace ((io_write_ready idle_env 0 ^^ 1) asked_att)) = [[0x0a, 1, 0]] \<and>
   \<not> writer_active ((io_write_ready idle_env 0 ^^ 2) asked_att)"
proof -
  have wf: "att_wf asked_att" using reach_inv [OF asked_reach] by (simp add: att_inv_def)
  have r: "ready_ops asked_att = [read_op]" by (simp add: ready_ops_def asked_att_def fresh_att_def)
  have "sent (trace asked_att) = []" "op_pdu read_op = [0x0a, 1, 0]"
    by (simp_all add: asked_att_def sent_def read_op_def)
  with att_drain [OF wf, unfolded r] show ?thesis by (simp add: numeral_2_eq_2)
qed

section \<open>The size of a PDU\<close>

lemma unsigned_pdu_length:
  "local_sign a = None \<or> opcode AND 0x80 = 0 \<Longrightarrow> pdu_length a opcode (Some d) len = len + 1"
  by (auto simp: pdu_length_def Let_def)

lemma unat_u16_plus1: "unat (len + 1 :: u16) = (if len = 0xffff then 0 else Suc (unat len))"
proof -
  have "unat len \<noteq> 65535" if "len \<noteq> 0xffff"
  proof
    assume "unat len = 65535"
    then have "len = of_nat 65535" by (rule unat_eq_imp)
    with that show False by simp
  qed
  then show ?thesis using unat_u16_bound [of len] unat_add_1 [of len] by auto
qed

lemma encode_pdu_unsigned:
  assumes "local_sign a = None \<or> op_opcode op AND 0x80 = 0" and "length d = unat len"
  shows "encode_pdu E a op (Some d) len =
    (if len = 0xffff then None
     else if unat (mtu a) \<le> unat len then Some None
     else Some (Some (op\<lparr>op_len := len + 1, op_pdu := op_opcode op # d\<rparr>)))"
proof -
  have n: "pdu_length a (op_opcode op) (Some d) len = len + 1" by (rule unsigned_pdu_length [OF assms(1)])
  show ?thesis
  proof (cases "len = 0xffff")
    case True
    then have "pdu_length a (op_opcode op) (Some d) len = 0" using n by simp
    then have "encode_pdu E a op (Some d) len = None" by (simp add: encode_pdu_def buf_write_def)
    with True show ?thesis by simp
  next
    case False
    then have u: "unat (len + 1) = Suc (unat len)" by (simp add: unat_u16_plus1)
    have lt: "mtu a < len + 1 \<longleftrightarrow> unat (mtu a) \<le> unat len" by (simp add: word_less_nat_alt u less_Suc_eq_le)
    obtain m where m: "malloc E (Suc (unat len)) = fresh E 0 # m" "length m = unat len"
      using upt_conv_Cons [of 0 "Suc (unat len)"] by (simp add: malloc_def del: upt_Suc)
    have one: "1 < len + 1 \<longleftrightarrow> d \<noteq> []"
    proof -
      have "1 < len + 1 \<longleftrightarrow> unat (1 :: u16) < unat (len + 1)" by (rule word_less_nat_alt)
      then show ?thesis using assms(2) by (cases d) (auto simp: u)
    qed
    show ?thesis using False assms m
      by (auto simp: encode_pdu_def n lt u one buf_simps buf_read_def Let_def split: option.split)
  qed
qed

text \<open>
  C34: An unsigned PDU is queued, with its opcode in front, exactly when it fits the MTU, and refused with 0
  when it does not; but the length of its copy is computed in 16 bits, so that with 65535 bytes of content
  it is 0 and passes the test, and the opcode is written behind an allocation of no bytes (the content is then not copied).
\<close>

theorem att_send_bounds:
  assumes "io a \<noteq> None" and "local_sign a = None \<or> opcode AND 0x80 = 0" and "length d = unat len"
    and "get_op_type opcode \<noteq> ATT_OP_TYPE_UNKNOWN"
    and "cb \<noteq> None \<longleftrightarrow> get_op_type opcode \<in> {ATT_OP_TYPE_REQ, ATT_OP_TYPE_IND}"
  shows "(unat len < unat (mtu a) \<and> len \<noteq> 0xffff \<longrightarrow>
      (\<exists>i b op. bt_att_send E opcode (Some d) len cb ud ds a = Some (i, b) \<and> i \<noteq> 0 \<and> op_id op = i \<and>
         op_pdu op = opcode # d \<and> op \<in> set (req_queue b @ ind_queue b @ write_queue b))) \<and>
    (unat (mtu a) \<le> unat len \<and> len \<noteq> 0xffff \<longrightarrow>
      bt_att_send E opcode (Some d) len cb ud ds a = Some (0, a)) \<and>
    (len = 0xffff \<longrightarrow> len + 1 \<le> mtu a \<and> buf_write (malloc E (unat (len + 1))) 0 [opcode] = None \<and>
      bt_att_send E opcode (Some d) len cb ud ds a = None)"
proof -
  let ?op = "\<lparr>op_id = 0, op_timeout_id = 0, op_type = get_op_type opcode, op_opcode = opcode, op_pdu = [],
    op_len = 0, op_callback = cb, op_destroy = ds, op_user_data = ud\<rparr>"
  have c: "create_att_send_op E a opcode (Some d) len cb ud ds = encode_pdu E a ?op (Some d) len"
    using assms(4,5) by (auto simp: create_att_send_op_def Let_def)
  have e: "encode_pdu E a ?op (Some d) len =
    (if len = 0xffff then None
     else if unat (mtu a) \<le> unat len then Some None
     else Some (Some (?op\<lparr>op_len := len + 1, op_pdu := opcode # d\<rparr>)))"
    using encode_pdu_unsigned [of a ?op d len E] assms(2,3) by simp
  have enq: "op \<in> set (req_queue (enqueue op b) @ ind_queue (enqueue op b) @ write_queue (enqueue op b))" for op b
    by (cases "op_type op") (simp_all add: enqueue_def)
  define i where "i = (if next_send_id a < 1 then 1 else next_send_id a)"
  let ?o = "?op\<lparr>op_len := len + 1, op_pdu := opcode # d, op_id := i\<rparr>"
  have i: "i \<noteq> 0" by (auto simp: i_def)
  have s: "bt_att_send E opcode (Some d) len cb ud ds a =
      Some (i, wakeup_writer E (enqueue ?o (logged (Queued ?o) (a\<lparr>next_send_id := i + 1\<rparr>))))"
    if "unat len < unat (mtu a)" "len \<noteq> 0xffff"
    using that assms(1) by (simp add: bt_att_send_def c e enqueue_def Let_def i_def)
  have "\<exists>i b op. bt_att_send E opcode (Some d) len cb ud ds a = Some (i, b) \<and> i \<noteq> 0 \<and> op_id op = i \<and>
         op_pdu op = opcode # d \<and> op \<in> set (req_queue b @ ind_queue b @ write_queue b)"
    if "unat len < unat (mtu a)" "len \<noteq> 0xffff"
  proof -
    define b where "b = wakeup_writer E (enqueue ?o (logged (Queued ?o) (a\<lparr>next_send_id := i + 1\<rparr>)))"
    have "?o \<in> set (req_queue b @ ind_queue b @ write_queue b)"
      using enq [of ?o "logged (Queued ?o) (a\<lparr>next_send_id := i + 1\<rparr>)"] by (simp add: b_def)
    moreover have "bt_att_send E opcode (Some d) len cb ud ds a = Some (i, b)"
      using s [OF that] by (simp add: b_def)
    moreover have "op_id ?o = i" "op_pdu ?o = opcode # d" by simp_all
    ultimately show ?thesis using i by blast
  qed
  moreover have "len + 1 \<le> mtu a \<and> buf_write (malloc E (unat (len + 1))) 0 [opcode] = None \<and>
      bt_att_send E opcode (Some d) len cb ud ds a = None" if "len = 0xffff"
  proof -
    have "create_att_send_op E a opcode (Some d) len cb ud ds = None" unfolding c e using that by simp
    then have "bt_att_send E opcode (Some d) len cb ud ds a = None" using assms(1) by (simp add: bt_att_send_def)
    moreover have "(0xffff :: u16) + 1 = 0" by code_simp
    then have "len + 1 = 0" using that by (simp only:)
    then have "len + 1 \<le> mtu a \<and> buf_write (malloc E (unat (len + 1))) 0 [opcode] = None"
      by (simp only:) (simp add: malloc_def buf_write_def)
    ultimately show ?thesis by blast
  qed
  moreover have "bt_att_send E opcode (Some d) len cb ud ds a = Some (0, a)"
    if "unat (mtu a) \<le> unat len" "len \<noteq> 0xffff"
    using that assms(1) by (simp add: bt_att_send_def c e)
  ultimately show ?thesis by blast
qed

theorem att_send_bounds_witness:
  "bt_att_send idle_env 0x52 (Some (replicate 65535 0)) 0xffff None 0 None fresh_att = None"
proof -
  have t: "get_op_type 0x52 = ATT_OP_TYPE_CMD" by (simp add: get_op_type_def att_opcode_type_table_def)
  have f: "io fresh_att \<noteq> None" "local_sign fresh_att = None \<or> (0x52 :: u8) AND 0x80 = 0"
    by (simp_all add: fresh_att_def)
  show ?thesis using att_send_bounds [OF f, of "replicate 65535 0" "0xffff" None idle_env 0 None] by (simp add: t)
qed

section \<open>A client that cancels in a destroy function\<close>

text \<open>
  The contract forbids it for a reason: the operation is still pending while its destroy function runs,
  so cancelling there runs the function again.
\<close>

definition cancelling_env :: env where
  "cancelling_env = idle_env\<lparr>react := \<lambda>c a. case c of DestroyOp d u \<Rightarrow> snd (bt_att_cancel idle_env 1 a) | _ \<Rightarrow> a\<rparr>"

lemma destroyed_twice:
  "trace (handle_rsp cancelling_env 0x0b [0x42] waiting_att) =
     trace waiting_att @ [Response 7 0x0b (Some [0x42]) 8, TimeoutRemove 5, DestroyOp 9 8, DestroyOp 9 8]"
proof -
  have q: "get_req_opcode 0x0b = 0x0a" by (simp add: get_req_opcode_def att_req_rsp_mapping_table_def)
  show ?thesis
    by (simp add: handle_rsp_def rsp_match_def rsp_done_def q waiting_att_def fresh_att_def read_op_def
        call_response_def call_if_def logged_def destroy_att_send_op_def current_def cancelling_env_def
        bt_att_cancel_def pending_is_def cancel_pending_req_def Let_def)
qed

end
