(* ===== verification/Shared_Ecc.thy ===== *)
theory Shared_Ecc
  imports Blue_Prelude
begin

text \<open>
  The P-256 arithmetic of \<open>src/shared/ecc.c\<close>. A number is a list of 64 bit digits, the least
  significant first, of the length of the C array (four digits, eight for a product). Loops over the
  digits are recursions over the lists; a function that writes an array answers the new one, also
  where the code writes in place. Loops that go on until a comparison holds are partial functions:
  \<^const>\<open>None\<close> would mean that they do not end.
\<close>

type_synonym vli = "u64 list"

section \<open>The curve\<close>

record ecc_point =
  ept_x :: vli
  ept_y :: vli

definition curve_p :: vli where
  "curve_p = [0xFFFFFFFFFFFFFFFF, 0x00000000FFFFFFFF, 0x0000000000000000, 0xFFFFFFFF00000001]"

definition curve_g :: ecc_point where
  "curve_g =
     \<lparr>ept_x = [0xF4A13945D898C296, 0x77037D812DEB33A0, 0xF8BCE6E563A440F2, 0x6B17D1F2E12C4247],
      ept_y = [0xCBB6406837BF51F5, 0x2BCE33576B315ECE, 0x8EE7EB4A7C0F9E16, 0x4FE342E2FE1A7F9B]\<rparr>"

definition curve_n :: vli where
  "curve_n = [0xF3B9CAC2FC632551, 0xBCE6FAADA7179E84, 0xFFFFFFFFFFFFFFFF, 0xFFFFFFFF00000000]"

definition curve_b :: vli where
  "curve_b = [0x3BCE3C3E27D2604B, 0x651D06B0CC53B0F6, 0xB3EBBD55769886BC, 0x5AC635D8AA3A93E7]"

section \<open>Digits\<close>

definition vli_clear :: vli where
  "vli_clear = replicate 4 0"

fun vli_is_zero :: "vli \<Rightarrow> bool" where
  "vli_is_zero [] = True"
| "vli_is_zero (d # ds) = (if d \<noteq> 0 then False else vli_is_zero ds)"

text \<open>The callers ask for bits below 256.\<close>

definition vli_test_bit :: "vli \<Rightarrow> nat \<Rightarrow> u64" where
  "vli_test_bit v b = (v ! (b div 64)) AND push_bit (b mod 64) 1"

definition vli_num_digits :: "vli \<Rightarrow> nat" where
  "vli_num_digits v = length (dropWhile (\<lambda>d. d = 0) (rev v))"

function digit_bits :: "u64 \<Rightarrow> nat" where
  "digit_bits d = (if d = 0 then 0 else Suc (digit_bits (drop_bit 1 d)))"
  by auto

termination digit_bits
proof (relation "measure unat")
  fix d :: u64
  assume "d \<noteq> 0"
  then have "unat d \<noteq> 0" by (simp add: unat_eq_0)
  then show "(drop_bit 1 d, d) \<in> measure unat" by (simp add: drop_bit_eq_div unat_div)
qed simp

declare digit_bits.simps [simp del]

definition vli_num_bits :: "vli \<Rightarrow> nat" where
  "vli_num_bits v =
     (let n = vli_num_digits v
      in if n = 0 then 0 else (n - 1) * 64 + digit_bits (v ! (n - 1)))"

text \<open>Comparison goes down from the most significant digit.\<close>

fun cmp_down :: "u64 list \<Rightarrow> u64 list \<Rightarrow> int" where
  "cmp_down (l # ls) (r # rs) = (if r < l then 1 else if l < r then -1 else cmp_down ls rs)"
| "cmp_down _ _ = 0"

definition vli_cmp :: "vli \<Rightarrow> vli \<Rightarrow> int" where
  "vli_cmp left right = cmp_down (rev left) (rev right)"

fun diff_bits :: "u64 list \<Rightarrow> u64 list \<Rightarrow> u64 \<Rightarrow> u64" where
  "diff_bits (l # ls) (r # rs) diff = diff_bits ls rs (diff OR (l XOR r))"
| "diff_bits _ _ diff = diff"

definition vli_equal :: "vli \<Rightarrow> vli \<Rightarrow> bool" where
  "vli_equal left right \<longleftrightarrow> diff_bits (rev left) (rev right) 0 = 0"

text \<open>The loops of shift, addition and subtraction carry a word along; the answer ends with it.\<close>

fun lshift_up :: "nat \<Rightarrow> u64 \<Rightarrow> vli \<Rightarrow> vli \<times> u64" where
  "lshift_up shift carry [] = ([], carry)"
| "lshift_up shift carry (temp # ds) =
     (let (ds', carry') = lshift_up shift (drop_bit (64 - shift) temp) ds
      in ((push_bit shift temp OR carry) # ds', carry'))"

definition vli_lshift :: "vli \<Rightarrow> nat \<Rightarrow> vli \<times> u64" where
  "vli_lshift v shift = lshift_up shift 0 v"

fun rshift_down :: "u64 \<Rightarrow> u64 list \<Rightarrow> u64 list" where
  "rshift_down carry [] = []"
| "rshift_down carry (temp # ds) = (drop_bit 1 temp OR carry) # rshift_down (push_bit 63 temp) ds"

definition vli_rshift1 :: "vli \<Rightarrow> vli" where
  "vli_rshift1 v = rev (rshift_down 0 (rev v))"

fun add_up :: "u64 \<Rightarrow> vli \<Rightarrow> vli \<Rightarrow> vli \<times> u64" where
  "add_up carry (l # ls) (r # rs) =
     (let sum = l + r + carry;
          carry = (if sum \<noteq> l then (if sum < l then 1 else 0) else carry);
          (ds, carry') = add_up carry ls rs
      in (sum # ds, carry'))"
| "add_up carry _ _ = ([], carry)"

definition vli_add :: "vli \<Rightarrow> vli \<Rightarrow> vli \<times> u64" where
  "vli_add left right = add_up 0 left right"

fun sub_up :: "u64 \<Rightarrow> vli \<Rightarrow> vli \<Rightarrow> vli \<times> u64" where
  "sub_up borrow (l # ls) (r # rs) =
     (let diff = l - r - borrow;
          borrow = (if diff \<noteq> l then (if l < diff then 1 else 0) else borrow);
          (ds, borrow') = sub_up borrow ls rs
      in (diff # ds, borrow'))"
| "sub_up borrow _ _ = ([], borrow)"

definition vli_sub :: "vli \<Rightarrow> vli \<Rightarrow> vli \<times> u64" where
  "vli_sub left right = sub_up 0 left right"

section \<open>Products\<close>

record ecc_uint128 =
  m_low :: u64
  m_high :: u64

definition mul_64_64 :: "u64 \<Rightarrow> u64 \<Rightarrow> ecc_uint128" where
  "mul_64_64 left right =
     (let a0 = left AND 0xffffffff; a1 = drop_bit 32 left;
          b0 = right AND 0xffffffff; b1 = drop_bit 32 right;
          m0 = a0 * b0; m1 = a0 * b1; m2 = a1 * b0; m3 = a1 * b1;
          m2 = m2 + drop_bit 32 m0;
          m2 = m2 + m1;
          m3 = (if m2 < m1 then m3 + 0x100000000 else m3)
      in \<lparr>m_low = (m0 AND 0xffffffff) OR push_bit 32 m2, m_high = m3 + drop_bit 32 m2\<rparr>)"

definition add_128_128 :: "ecc_uint128 \<Rightarrow> ecc_uint128 \<Rightarrow> ecc_uint128" where
  "add_128_128 a b =
     (let low = m_low a + m_low b
      in \<lparr>m_low = low, m_high = m_high a + m_high b + (if low < m_low a then 1 else 0)\<rparr>)"

text \<open>One product into the accumulator \<open>r01\<close>, with its overflow \<open>r2\<close>.\<close>

definition accumulate :: "ecc_uint128 \<Rightarrow> ecc_uint128 \<times> u64 \<Rightarrow> ecc_uint128 \<times> u64" where
  "accumulate product s =
     (let r01 = add_128_128 (fst s) product
      in (r01, snd s + (if m_high r01 < m_high product then 1 else 0)))"

text \<open>The end of a column: the low digit is the result, the rest moves down.\<close>

definition next_column :: "ecc_uint128 \<times> u64 \<Rightarrow> ecc_uint128 \<times> u64" where
  "next_column s = (\<lparr>m_low = m_high (fst s), m_high = snd s\<rparr>, 0)"

definition column_min :: "nat \<Rightarrow> nat" where
  "column_min k = (if k < 4 then 0 else k + 1 - 4)"

definition mult_column :: "vli \<Rightarrow> vli \<Rightarrow> nat \<Rightarrow> ecc_uint128 \<times> u64 \<Rightarrow> ecc_uint128 \<times> u64" where
  "mult_column left right k s =
     fold (\<lambda>i. accumulate (mul_64_64 (left ! i) (right ! (k - i)))) [column_min k..<min (Suc k) 4] s"

fun mult_columns :: "vli \<Rightarrow> vli \<Rightarrow> nat list \<Rightarrow> ecc_uint128 \<times> u64 \<Rightarrow> vli" where
  "mult_columns left right [] s = [m_low (fst s)]"
| "mult_columns left right (k # ks) s =
     (let s = mult_column left right k s
      in m_low (fst s) # mult_columns left right ks (next_column s))"

definition vli_mult :: "vli \<Rightarrow> vli \<Rightarrow> vli" where
  "vli_mult left right = mult_columns left right [0..<7] (\<lparr>m_low = 0, m_high = 0\<rparr>, 0)"

text \<open>A product that occurs twice is doubled, its top bit counted before it is lost.\<close>

definition double_product :: "ecc_uint128 \<Rightarrow> ecc_uint128" where
  "double_product p = \<lparr>m_low = push_bit 1 (m_low p), m_high = push_bit 1 (m_high p) OR drop_bit 63 (m_low p)\<rparr>"

definition square_term :: "vli \<Rightarrow> nat \<Rightarrow> nat \<Rightarrow> ecc_uint128 \<times> u64 \<Rightarrow> ecc_uint128 \<times> u64" where
  "square_term left k i s =
     (let product = mul_64_64 (left ! i) (left ! (k - i))
      in if i < k - i then accumulate (double_product product) (fst s, snd s + drop_bit 63 (m_high product))
         else accumulate product s)"

definition square_column :: "vli \<Rightarrow> nat \<Rightarrow> ecc_uint128 \<times> u64 \<Rightarrow> ecc_uint128 \<times> u64" where
  "square_column left k s = fold (square_term left k) [column_min k..<Suc (k div 2)] s"

fun square_columns :: "vli \<Rightarrow> nat list \<Rightarrow> ecc_uint128 \<times> u64 \<Rightarrow> vli" where
  "square_columns left [] s = [m_low (fst s)]"
| "square_columns left (k # ks) s =
     (let s = square_column left k s
      in m_low (fst s) # square_columns left ks (next_column s))"

definition vli_square :: "vli \<Rightarrow> vli" where
  "vli_square left = square_columns left [0..<7] (\<lparr>m_low = 0, m_high = 0\<rparr>, 0)"

section \<open>Arithmetic modulo a number\<close>

definition vli_mod_add :: "vli \<Rightarrow> vli \<Rightarrow> vli \<Rightarrow> vli" where
  "vli_mod_add left right modulus =
     (let (result, carry) = vli_add left right
      in if carry \<noteq> 0 \<or> 0 \<le> vli_cmp result modulus then fst (vli_sub result modulus) else result)"

definition vli_mod_sub :: "vli \<Rightarrow> vli \<Rightarrow> vli \<Rightarrow> vli" where
  "vli_mod_sub left right modulus =
     (let (result, borrow) = vli_sub left right
      in if borrow \<noteq> 0 then fst (vli_add result modulus) else result)"

text \<open>The two loops at the end of the reduction; \<open>carry\<close> is an \<open>int\<close>.\<close>

partial_function (option) reduce_up :: "int \<Rightarrow> vli \<Rightarrow> vli option" where
  [code]: "reduce_up carry result =
     (let (result, c) = vli_add result curve_p; carry = carry + uint c
      in if carry < 0 then reduce_up carry result else Some result)"

partial_function (option) reduce_down :: "int \<Rightarrow> vli \<Rightarrow> vli option" where
  [code]: "reduce_down carry result =
     (if carry \<noteq> 0 \<or> vli_cmp curve_p result \<noteq> 1
      then let (result, c) = vli_sub result curve_p in reduce_down (carry - uint c) result
      else Some result)"

text \<open>Adding and subtracting a term of the reduction.\<close>

definition red_add :: "vli \<Rightarrow> vli \<times> int \<Rightarrow> vli \<times> int" where
  "red_add tmp s = (let (result, c) = vli_add (fst s) tmp in (result, snd s + uint c))"

definition red_sub :: "vli \<Rightarrow> vli \<times> int \<Rightarrow> vli \<times> int" where
  "red_sub tmp s = (let (result, c) = vli_sub (fst s) tmp in (result, snd s - uint c))"

definition red_add_twice :: "vli \<Rightarrow> vli \<times> int \<Rightarrow> vli \<times> int" where
  "red_add_twice tmp s = (let (tmp, c) = vli_lshift tmp 1 in red_add tmp (fst s, snd s + uint c))"

definition red_terms :: "vli \<Rightarrow> vli \<times> int" where
  "red_terms p =
     (let h = (\<lambda>d. d AND 0xffffffff00000000); l = (\<lambda>d. d AND 0xffffffff);
          up = (\<lambda>d. push_bit 32 d); dn = (\<lambda>d. drop_bit 32 d);
          s = (take 4 p, 0);
          s = red_add_twice [0, h (p ! 5), p ! 6, p ! 7] s;
          s = red_add_twice [0, up (p ! 6), dn (p ! 6) OR up (p ! 7), dn (p ! 7)] s;
          s = red_add [p ! 4, l (p ! 5), 0, p ! 7] s;
          s = red_add [dn (p ! 4) OR up (p ! 5), dn (p ! 5) OR h (p ! 6), p ! 7, dn (p ! 6) OR up (p ! 4)] s;
          s = red_sub [dn (p ! 5) OR up (p ! 6), dn (p ! 6), 0, l (p ! 4) OR up (p ! 5)] s;
          s = red_sub [p ! 6, p ! 7, 0, dn (p ! 4) OR h (p ! 5)] s;
          s = red_sub [dn (p ! 6) OR up (p ! 7), dn (p ! 7) OR up (p ! 4), dn (p ! 4) OR up (p ! 5), up (p ! 6)] s
      in red_sub [p ! 7, h (p ! 4), p ! 5, h (p ! 6)] s)"

definition vli_mmod_fast :: "vli \<Rightarrow> vli option" where
  "vli_mmod_fast product =
     (let (result, carry) = red_terms product
      in if carry < 0 then reduce_up carry result else reduce_down carry result)"

definition vli_mod_mult_fast :: "vli \<Rightarrow> vli \<Rightarrow> vli option" where
  "vli_mod_mult_fast left right = vli_mmod_fast (vli_mult left right)"

definition vli_mod_square_fast :: "vli \<Rightarrow> vli option" where
  "vli_mod_square_fast left = vli_mmod_fast (vli_square left)"

section \<open>The inverse\<close>

definition vli_even :: "vli \<Rightarrow> bool" where
  "vli_even v \<longleftrightarrow> (v ! 0) AND 1 = 0"

text \<open>Halving modulo an odd number: the carry of the sum becomes the top bit.\<close>

definition halve_mod :: "vli \<Rightarrow> vli \<Rightarrow> vli" where
  "halve_mod u modulus =
     (let (u, carry) = (if \<not> vli_even u then vli_add u modulus else (u, 0));
          u = vli_rshift1 u
      in if carry \<noteq> 0 then u[3 := (u ! 3) OR 0x8000000000000000] else u)"

definition cofactor_sub :: "vli \<Rightarrow> vli \<Rightarrow> vli \<Rightarrow> vli" where
  "cofactor_sub u v modulus =
     (let u = (if vli_cmp u v < 0 then fst (vli_add u modulus) else u)
      in fst (vli_sub u v))"

partial_function (option) inv_loop :: "vli \<Rightarrow> vli \<Rightarrow> vli \<Rightarrow> vli \<Rightarrow> vli \<Rightarrow> vli option" where
  [code]: "inv_loop modulus a b u v =
     (if vli_cmp a b = 0 then Some u
      else if vli_even a then inv_loop modulus (vli_rshift1 a) b (halve_mod u modulus) v
      else if vli_even b then inv_loop modulus a (vli_rshift1 b) u (halve_mod v modulus)
      else if 0 < vli_cmp a b then
        inv_loop modulus (vli_rshift1 (fst (vli_sub a b))) b (halve_mod (cofactor_sub u v modulus) modulus) v
      else
        inv_loop modulus a (vli_rshift1 (fst (vli_sub b a))) u (halve_mod (cofactor_sub v u modulus) modulus))"

definition vli_mod_inv :: "vli \<Rightarrow> vli \<Rightarrow> vli option" where
  "vli_mod_inv input modulus =
     (if vli_is_zero input then Some vli_clear
      else inv_loop modulus input modulus (1 # replicate 3 0) vli_clear)"

section \<open>Points\<close>

definition ecc_point_is_zero :: "ecc_point \<Rightarrow> bool" where
  "ecc_point_is_zero point \<longleftrightarrow> vli_is_zero (ept_x point) \<and> vli_is_zero (ept_y point)"

definition ecc_point_double_jacobian :: "vli \<Rightarrow> vli \<Rightarrow> vli \<Rightarrow> (vli \<times> vli \<times> vli) option" where
  "ecc_point_double_jacobian x1 y1 z1 =
     (if vli_is_zero z1 then Some (x1, y1, z1)
      else do {
        t4 \<leftarrow> vli_mod_square_fast y1;
        t5 \<leftarrow> vli_mod_mult_fast x1 t4;
        t4 \<leftarrow> vli_mod_square_fast t4;
        y1 \<leftarrow> vli_mod_mult_fast y1 z1;
        z1 \<leftarrow> vli_mod_square_fast z1;
        let x1 = vli_mod_add x1 z1 curve_p;
        let z1 = vli_mod_add z1 z1 curve_p;
        let z1 = vli_mod_sub x1 z1 curve_p;
        x1 \<leftarrow> vli_mod_mult_fast x1 z1;
        let z1 = vli_mod_add x1 x1 curve_p;
        let x1 = vli_mod_add x1 z1 curve_p;
        let x1 = (if vli_test_bit x1 0 \<noteq> 0
                  then let (x1, carry) = vli_add x1 curve_p;
                           x1 = vli_rshift1 x1
                       in x1[3 := (x1 ! 3) OR push_bit 63 carry]
                  else vli_rshift1 x1);
        z1 \<leftarrow> vli_mod_square_fast x1;
        let z1 = vli_mod_sub z1 t5 curve_p;
        let z1 = vli_mod_sub z1 t5 curve_p;
        let t5 = vli_mod_sub t5 z1 curve_p;
        x1 \<leftarrow> vli_mod_mult_fast x1 t5;
        let t4 = vli_mod_sub x1 t4 curve_p;
        Some (z1, t4, y1) })"

definition apply_z :: "vli \<Rightarrow> vli \<Rightarrow> vli \<Rightarrow> (vli \<times> vli) option" where
  "apply_z x1 y1 z = do {
     t1 \<leftarrow> vli_mod_square_fast z;
     x1 \<leftarrow> vli_mod_mult_fast x1 t1;
     t1 \<leftarrow> vli_mod_mult_fast t1 z;
     y1 \<leftarrow> vli_mod_mult_fast y1 t1;
     Some (x1, y1) }"

text \<open>The answer is the doubled point and the point in the same coordinates.\<close>

definition xycz_initial_double ::
  "vli \<Rightarrow> vli \<Rightarrow> vli option \<Rightarrow> ((vli \<times> vli) \<times> (vli \<times> vli)) option" where
  "xycz_initial_double x1 y1 initial_z = do {
     let x2 = x1;
     let y2 = y1;
     let z = (case initial_z of None \<Rightarrow> 1 # replicate 3 0 | Some z \<Rightarrow> z);
     (x1, y1) \<leftarrow> apply_z x1 y1 z;
     (x1, y1, z) \<leftarrow> ecc_point_double_jacobian x1 y1 z;
     (x2, y2) \<leftarrow> apply_z x2 y2 z;
     Some ((x1, y1), (x2, y2)) }"

definition xycz_add :: "vli \<times> vli \<Rightarrow> vli \<times> vli \<Rightarrow> ((vli \<times> vli) \<times> (vli \<times> vli)) option" where
  "xycz_add P1 P2 = do {
     let (x1, y1) = P1;
     let (x2, y2) = P2;
     let t5 = vli_mod_sub x2 x1 curve_p;
     t5 \<leftarrow> vli_mod_square_fast t5;
     x1 \<leftarrow> vli_mod_mult_fast x1 t5;
     x2 \<leftarrow> vli_mod_mult_fast x2 t5;
     let y2 = vli_mod_sub y2 y1 curve_p;
     t5 \<leftarrow> vli_mod_square_fast y2;
     let t5 = vli_mod_sub t5 x1 curve_p;
     let t5 = vli_mod_sub t5 x2 curve_p;
     let x2 = vli_mod_sub x2 x1 curve_p;
     y1 \<leftarrow> vli_mod_mult_fast y1 x2;
     let x2 = vli_mod_sub x1 t5 curve_p;
     y2 \<leftarrow> vli_mod_mult_fast y2 x2;
     let y2 = vli_mod_sub y2 y1 curve_p;
     let x2 = t5;
     Some ((x1, y1), (x2, y2)) }"

definition xycz_add_c :: "vli \<times> vli \<Rightarrow> vli \<times> vli \<Rightarrow> ((vli \<times> vli) \<times> (vli \<times> vli)) option" where
  "xycz_add_c P1 P2 = do {
     let (x1, y1) = P1;
     let (x2, y2) = P2;
     let t5 = vli_mod_sub x2 x1 curve_p;
     t5 \<leftarrow> vli_mod_square_fast t5;
     x1 \<leftarrow> vli_mod_mult_fast x1 t5;
     x2 \<leftarrow> vli_mod_mult_fast x2 t5;
     let t5 = vli_mod_add y2 y1 curve_p;
     let y2 = vli_mod_sub y2 y1 curve_p;
     let t6 = vli_mod_sub x2 x1 curve_p;
     y1 \<leftarrow> vli_mod_mult_fast y1 t6;
     let t6 = vli_mod_add x1 x2 curve_p;
     x2 \<leftarrow> vli_mod_square_fast y2;
     let x2 = vli_mod_sub x2 t6 curve_p;
     let t7 = vli_mod_sub x1 x2 curve_p;
     y2 \<leftarrow> vli_mod_mult_fast y2 t7;
     let y2 = vli_mod_sub y2 y1 curve_p;
     t7 \<leftarrow> vli_mod_square_fast t5;
     let t7 = vli_mod_sub t7 t6 curve_p;
     let t6 = vli_mod_sub t7 x1 curve_p;
     t6 \<leftarrow> vli_mod_mult_fast t6 t5;
     let y1 = vli_mod_sub t6 y1 curve_p;
     let x1 = t7;
     Some ((x1, y1), (x2, y2)) }"

text \<open>The two points of the ladder, \<open>R0\<close> and \<open>R1\<close>, are a list that \<open>nb\<close> indexes.\<close>

definition ladder_nb :: "vli \<Rightarrow> nat \<Rightarrow> nat" where
  "ladder_nb scalar i = (if vli_test_bit scalar i = 0 then 1 else 0)"

definition ladder_add_c :: "nat \<Rightarrow> (vli \<times> vli) list \<Rightarrow> (vli \<times> vli) list option" where
  "ladder_add_c nb R = do {
     (P, Q) \<leftarrow> xycz_add_c (R ! (1 - nb)) (R ! nb);
     Some (R[1 - nb := P, nb := Q]) }"

definition ladder_add :: "nat \<Rightarrow> (vli \<times> vli) list \<Rightarrow> (vli \<times> vli) list option" where
  "ladder_add nb R = do {
     (P, Q) \<leftarrow> xycz_add (R ! nb) (R ! (1 - nb));
     Some (R[nb := P, 1 - nb := Q]) }"

fun ladder :: "vli \<Rightarrow> nat list \<Rightarrow> (vli \<times> vli) list \<Rightarrow> (vli \<times> vli) list option" where
  "ladder scalar [] R = Some R"
| "ladder scalar (i # is') R = do {
     let nb = ladder_nb scalar i;
     R \<leftarrow> ladder_add_c nb R;
     R \<leftarrow> ladder_add nb R;
     ladder scalar is' R }"

definition ecc_point_mult :: "ecc_point \<Rightarrow> vli \<Rightarrow> vli option \<Rightarrow> nat \<Rightarrow> ecc_point option" where
  "ecc_point_mult point scalar initial_z num_bits = do {
     (R1, R0) \<leftarrow> xycz_initial_double (ept_x point) (ept_y point) initial_z;
     R \<leftarrow> ladder scalar (rev [1..<num_bits - 1]) [R0, R1];
     let nb = ladder_nb scalar 0;
     R \<leftarrow> ladder_add_c nb R;
     let z = vli_mod_sub (fst (R ! 1)) (fst (R ! 0)) curve_p;
     z \<leftarrow> vli_mod_mult_fast z (snd (R ! (1 - nb)));
     z \<leftarrow> vli_mod_mult_fast z (ept_x point);
     z \<leftarrow> vli_mod_inv z curve_p;
     z \<leftarrow> vli_mod_mult_fast z (ept_y point);
     z \<leftarrow> vli_mod_mult_fast z (fst (R ! (1 - nb)));
     R \<leftarrow> ladder_add nb R;
     (x, y) \<leftarrow> apply_z (fst (R ! 0)) (snd (R ! 0)) z;
     Some \<lparr>ept_x = x, ept_y = y\<rparr> }"

definition ecc_valid_point :: "ecc_point \<Rightarrow> bool option" where
  "ecc_valid_point point =
     (if ecc_point_is_zero point then Some False
      else if vli_cmp curve_p (ept_x point) \<noteq> 1 \<or> vli_cmp curve_p (ept_y point) \<noteq> 1 then Some False
      else do {
        tmp1 \<leftarrow> vli_mod_square_fast (ept_y point);
        tmp2 \<leftarrow> vli_mod_square_fast (ept_x point);
        let tmp2 = vli_mod_sub tmp2 [3, 0, 0, 0] curve_p;
        tmp2 \<leftarrow> vli_mod_mult_fast tmp2 (ept_x point);
        let tmp2 = vli_mod_add tmp2 curve_b curve_p;
        Some (vli_equal tmp1 tmp2) })"

section \<open>Keys\<close>

definition le64_val :: "u8 list \<Rightarrow> u64" where
  "le64_val b =
     ucast (b ! 0) OR push_bit 8 (ucast (b ! 1)) OR push_bit 16 (ucast (b ! 2)) OR
     push_bit 24 (ucast (b ! 3)) OR push_bit 32 (ucast (b ! 4)) OR push_bit 40 (ucast (b ! 5)) OR
     push_bit 48 (ucast (b ! 6)) OR push_bit 56 (ucast (b ! 7))"

definition le64_bytes :: "u64 \<Rightarrow> u8 list" where
  "le64_bytes w = map (\<lambda>i. ucast (drop_bit (8 * i) w)) [0..<8]"

definition ecc_bytes2native :: "u8 list \<Rightarrow> vli option" where
  "ecc_bytes2native bytes =
     those (map (\<lambda>i. map_option le64_val (buf_read bytes (8 * i) 8)) [0..<4])"

definition ecc_native2bytes :: "vli \<Rightarrow> u8 list" where
  "ecc_native2bytes native = concat (map le64_bytes native)"

text \<open>
  Reading random bytes until the number is full: \<open>reads\<close> are the results of the reads in turn, a
  descriptor that cannot be opened or a failing or empty read ends it with a failure.
\<close>

fun random_bytes :: "nat \<Rightarrow> u8 list option list \<Rightarrow> u8 list option" where
  "random_bytes 0 reads = Some []"
| "random_bytes (Suc left) [] = None"
| "random_bytes (Suc left) (None # reads) = None"
| "random_bytes (Suc left) (Some d # reads) =
     (if d = [] then None
      else map_option ((@) (take (Suc left) d)) (random_bytes (Suc left - length d) reads))"

definition get_random_number :: "bool \<Rightarrow> u8 list option list \<Rightarrow> vli option" where
  "get_random_number opened reads =
     (if \<not> opened then None
      else case random_bytes 32 reads of None \<Rightarrow> None | Some b \<Rightarrow> ecc_bytes2native b)"

text \<open>Outer \<^const>\<open>None\<close>: a buffer too short; inner \<^const>\<open>None\<close>: the function answers false.\<close>

definition ecc_make_public_key :: "u8 list \<Rightarrow> u8 list option option" where
  "ecc_make_public_key private_key = do {
     priv \<leftarrow> ecc_bytes2native private_key;
     if vli_is_zero priv then Some None
     else if vli_cmp curve_n priv \<noteq> 1 then Some None
     else do {
       pk \<leftarrow> ecc_point_mult curve_g priv None (vli_num_bits priv);
       if ecc_point_is_zero pk then Some None
       else Some (Some (ecc_native2bytes (ept_x pk) @ ecc_native2bytes (ept_y pk))) } }"

text \<open>
  The loop of \<open>ecc_make_key\<close>: \<open>rnd\<close> gives the random number of each try. A \<open>continue\<close> goes to
  the test of the loop, which reads the point even when no try has set it.
\<close>

function make_key_loop :: "(nat \<Rightarrow> vli option) \<Rightarrow> nat \<Rightarrow> ecc_point option \<Rightarrow> (vli \<times> ecc_point) option option" where
  "make_key_loop rnd tries pk =
     (case rnd tries of
        None \<Rightarrow> Some None
      | Some priv \<Rightarrow>
          if 16 \<le> tries then Some None
          else if vli_is_zero priv \<or> vli_cmp curve_n priv \<noteq> 1 then
            (case pk of
               None \<Rightarrow> None
             | Some q \<Rightarrow> if ecc_point_is_zero q then make_key_loop rnd (Suc tries) pk else Some (Some (priv, q)))
          else
            (case ecc_point_mult curve_g priv None (vli_num_bits priv) of
               None \<Rightarrow> None
             | Some q \<Rightarrow> if ecc_point_is_zero q then make_key_loop rnd (Suc tries) (Some q)
                         else Some (Some (priv, q))))"
  by pat_completeness auto

termination make_key_loop
  by (relation "measure (\<lambda>(rnd, tries, pk). 16 - tries)") auto

declare make_key_loop.simps [simp del]

definition ecc_make_key :: "(nat \<Rightarrow> vli option) \<Rightarrow> (u8 list \<times> u8 list) option option" where
  "ecc_make_key rnd =
     map_option (map_option (\<lambda>(priv, pk). (ecc_native2bytes (ept_x pk) @ ecc_native2bytes (ept_y pk), ecc_native2bytes priv)))
       (make_key_loop rnd 0 None)"

definition ecc_valid_public_key :: "u8 list \<Rightarrow> bool option" where
  "ecc_valid_public_key public_key = do {
     x \<leftarrow> ecc_bytes2native public_key;
     y \<leftarrow> ecc_bytes2native (drop 32 public_key);
     ecc_valid_point \<lparr>ept_x = x, ept_y = y\<rparr> }"

definition ecdh_shared_secret :: "vli option \<Rightarrow> u8 list \<Rightarrow> u8 list \<Rightarrow> (bool \<times> u8 list) option option" where
  "ecdh_shared_secret rand public_key private_key =
     (case rand of
        None \<Rightarrow> Some None
      | Some rand \<Rightarrow> do {
          x \<leftarrow> ecc_bytes2native public_key;
          y \<leftarrow> ecc_bytes2native (drop 32 public_key);
          ok \<leftarrow> ecc_valid_point \<lparr>ept_x = x, ept_y = y\<rparr>;
          if \<not> ok then Some None
          else do {
            priv \<leftarrow> ecc_bytes2native private_key;
            product \<leftarrow> ecc_point_mult \<lparr>ept_x = x, ept_y = y\<rparr> priv (Some rand) (vli_num_bits priv);
            Some (Some (\<not> ecc_point_is_zero product, ecc_native2bytes (ept_x product))) } })"

end
