(* ===== verification/Ecc_Arith.thy ===== *)
theory Ecc_Arith
  imports Shared_Ecc
begin

text \<open>
  The value of the numbers of \<open>Shared_Ecc\<close> and what the digit loops compute: sums and
  differences with their carry, comparison, shifts, sums and differences modulo a number, the
  product of two digits and of two numbers. The accumulator of the products does not see every carry:
  \<open>mult_loss\<close> and \<open>square_loss\<close> are the value of the carries it misses, the product is right
  when they are zero.
\<close>

section \<open>The value of a number\<close>

fun vli_val :: "vli \<Rightarrow> int" where
  "vli_val [] = 0"
| "vli_val (d # ds) = uint d + 2 ^ 64 * vli_val ds"

definition vli_base :: "nat \<Rightarrow> int" where
  "vli_base n = 2 ^ (64 * n)"

lemma vli_base_simps [simp]:
  "vli_base 0 = 1" "vli_base (Suc n) = 2 ^ 64 * vli_base n"
  by (simp_all add: vli_base_def power_add)

lemma vli_base_pos [simp]: "0 < vli_base n"
  by (simp add: vli_base_def)

lemma uint_u64_bound: "0 \<le> uint (w :: u64)" "uint w < 2 ^ 64"
  using uint_lt2p [of w] by simp_all

lemma digit_below:
  assumes "0 \<le> d" "d < b" "0 \<le> x" "x < (c :: int)"
  shows "d + b * x < b * c"
proof -
  have "b * x + b \<le> b * c" using assms mult_left_mono [of "x + 1" c b] by (simp add: distrib_left)
  then show ?thesis using assms by simp
qed

lemma vli_val_nonneg [simp]: "0 \<le> vli_val v"
  by (induction v) auto

lemma vli_val_bound: "vli_val v < vli_base (length v)"
  using digit_below [OF uint_u64_bound] by (induction v) auto

lemma vli_val_append: "vli_val (v @ w) = vli_val v + vli_base (length v) * vli_val w"
  by (induction v) (simp_all add: algebra_simps)

lemma mod_range: "q * b \<le> x \<Longrightarrow> x < q * b + b \<Longrightarrow> x mod b = x - q * b" for x :: int
  using mod_pos_pos_trivial [of "x - q * b" b] mod_mult_self1 [of "x - q * b" q b] by simp

lemma digit_unique:
  assumes "(d :: int) + b * x = d' + b * y" "0 \<le> d" "d < b" "0 \<le> d'" "d' < b"
  shows "d = d'" "x = y"
proof -
  have "(d + b * x) mod b = (d' + b * y) mod b" using assms(1) by (rule arg_cong)
  then show "d = d'" using assms(2-) by (simp add: mod_pos_pos_trivial)
  then show "x = y" using assms by simp
qed

lemma vli_val_inj: "length v = length w \<Longrightarrow> vli_val v = vli_val w \<Longrightarrow> v = w"
proof (induction v w rule: list_induct2)
  case (Cons x xs y ys)
  then have "uint x = uint y" "vli_val xs = vli_val ys"
    using digit_unique [of "uint x" "2 ^ 64" "vli_val xs" "uint y" "vli_val ys"] uint_u64_bound
    by auto
  then show ?case using Cons by (simp add: word_uint_eqI)
qed simp

lemma wrapped_sum:
  fixes x y z :: int
  assumes "0 \<le> x" "x < b" "0 \<le> y" "y < b" "z = 0 \<or> z = 1"
  shows "(x + y + z) mod b = (if x + y + z < b then x + y + z else x + y + z - b)"
  using mod_range [of 0 b "x + y + z"] mod_range [of 1 b "x + y + z"] assms by auto

lemma wrapped_difference:
  fixes x y z :: int
  assumes "0 \<le> x" "x < b" "0 \<le> y" "y < b" "z = 0 \<or> z = 1"
  shows "(x - y - z) mod b = (if y + z \<le> x then x - y - z else x - y - z + b)"
  using mod_range [of 0 b "x - y - z"] mod_range [of "-1" b "x - y - z"] assms by auto

lemma carry_digit:
  fixes x y z s :: int
  assumes "0 \<le> x" "x < b" "0 \<le> y" "y < b" "z = 0 \<or> z = 1"
    and "s = (x + y + z) mod b"
  shows "s + b * (if s \<noteq> x then (if s < x then 1 else 0) else z) = x + y + z"
  using assms(1-5) unfolding assms(6) wrapped_sum [OF assms(1-5)] by auto

lemma borrow_digit:
  fixes x y z s :: int
  assumes "0 \<le> x" "x < b" "0 \<le> y" "y < b" "z = 0 \<or> z = 1"
    and "s = (x - y - z) mod b"
  shows "s - b * (if s \<noteq> x then (if x < s then 1 else 0) else z) = x - y - z"
  using assms(1-5) unfolding assms(6) wrapped_difference [OF assms(1-5)] by auto

lemma add_digit:
  fixes l r c :: u64
  assumes "c = 0 \<or> c = 1"
  defines "s \<equiv> l + r + c"
  defines "c' \<equiv> if s \<noteq> l then (if s < l then 1 else 0) else c"
  shows "uint s + 2 ^ 64 * uint c' = uint l + uint r + uint c" "c' = 0 \<or> c' = 1"
proof -
  have c': "uint c' = (if uint s \<noteq> uint l then (if uint s < uint l then 1 else 0) else uint c)"
    by (auto simp: c'_def word_less_def word_uint_eq_iff)
  have "uint s = (uint l + uint r + uint c) mod 2 ^ 64"
    by (simp add: s_def uint_word_ariths mod_simps)
  moreover have "uint c = 0 \<or> uint c = 1" using assms by auto
  ultimately show "uint s + 2 ^ 64 * uint c' = uint l + uint r + uint c"
    unfolding c' by (intro carry_digit uint_u64_bound)
  show "c' = 0 \<or> c' = 1" using assms by (auto simp: c'_def)
qed

lemma sub_digit:
  fixes l r c :: u64
  assumes "c = 0 \<or> c = 1"
  defines "s \<equiv> l - r - c"
  defines "c' \<equiv> if s \<noteq> l then (if l < s then 1 else 0) else c"
  shows "uint s - 2 ^ 64 * uint c' = uint l - uint r - uint c" "c' = 0 \<or> c' = 1"
proof -
  have c': "uint c' = (if uint s \<noteq> uint l then (if uint l < uint s then 1 else 0) else uint c)"
    by (auto simp: c'_def word_less_def word_uint_eq_iff)
  have "uint s = (uint l - uint r - uint c) mod 2 ^ 64"
    by (simp add: s_def uint_word_ariths mod_simps)
  moreover have "uint c = 0 \<or> uint c = 1" using assms by auto
  ultimately show "uint s - 2 ^ 64 * uint c' = uint l - uint r - uint c"
    unfolding c' by (intro borrow_digit uint_u64_bound)
  show "c' = 0 \<or> c' = 1" using assms by (auto simp: c'_def)
qed

lemma add_up_value:
  assumes "length l = length r" "c = 0 \<or> c = 1" "add_up c l r = (s, c')"
  shows "vli_val s + vli_base (length l) * uint c' = vli_val l + vli_val r + uint c \<and>
         (c' = 0 \<or> c' = 1) \<and> length s = length l"
  using assms
proof (induction l r arbitrary: c s c' rule: list_induct2)
  case (Cons x xs y ys)
  define d where "d = (if x + y + c \<noteq> x then (if x + y + c < x then 1 else 0) else c)"
  obtain t where t: "add_up d xs ys = (t, c')" and s: "s = (x + y + c) # t"
    using Cons.prems by (auto simp: Let_def d_def split: prod.splits)
  have d: "d = 0 \<or> d = 1" "uint (x + y + c) + 2 ^ 64 * uint d = uint x + uint y + uint c"
    using add_digit [of c x y] Cons.prems by (simp_all add: d_def)
  have "vli_val t + vli_base (length xs) * uint c' = vli_val xs + vli_val ys + uint d"
    "c' = 0 \<or> c' = 1" "length t = length xs"
    using Cons.IH [OF d(1) t] by auto
  then show ?case using d(2) by (simp add: s algebra_simps)
qed auto

lemma sub_up_value:
  assumes "length l = length r" "c = 0 \<or> c = 1" "sub_up c l r = (s, c')"
  shows "vli_val s - vli_base (length l) * uint c' = vli_val l - vli_val r - uint c \<and>
         (c' = 0 \<or> c' = 1) \<and> length s = length l"
  using assms
proof (induction l r arbitrary: c s c' rule: list_induct2)
  case (Cons x xs y ys)
  define d where "d = (if x - y - c \<noteq> x then (if x < x - y - c then 1 else 0) else c)"
  obtain t where t: "sub_up d xs ys = (t, c')" and s: "s = (x - y - c) # t"
    using Cons.prems by (auto simp: Let_def d_def split: prod.splits)
  have d: "d = 0 \<or> d = 1" "uint (x - y - c) - 2 ^ 64 * uint d = uint x - uint y - uint c"
    using sub_digit [of c x y] Cons.prems by (simp_all add: d_def)
  have "vli_val t - vli_base (length xs) * uint c' = vli_val xs - vli_val ys - uint d"
    "c' = 0 \<or> c' = 1" "length t = length xs"
    using Cons.IH [OF d(1) t] by auto
  then show ?case using d(2) by (simp add: s algebra_simps)
qed auto

lemma vli_add_value:
  assumes "length l = length r" "vli_add l r = (s, c)"
  shows "vli_val s = vli_val l + vli_val r - vli_base (length l) * uint c"
    "c = 0 \<or> c = 1" "length s = length l"
  using add_up_value [OF assms(1), of 0 s c] assms(2) by (auto simp: vli_add_def)

lemma vli_sub_value:
  assumes "length l = length r" "vli_sub l r = (s, c)"
  shows "vli_val s = vli_val l - vli_val r + vli_base (length l) * uint c"
    "c = 0 \<or> c = 1" "length s = length l"
  using sub_up_value [OF assms(1), of 0 s c] assms(2) by (auto simp: vli_sub_def)

lemma vli_sub_borrow:
  assumes "length l = length r" "vli_sub l r = (s, c)"
  shows "c = (if vli_val l < vli_val r then 1 else 0)"
  using vli_sub_value [OF assms] vli_val_bound [of s] vli_val_bound [of r] vli_val_nonneg [of s]
    vli_val_nonneg [of l] by auto

lemma vli_add_carry:
  assumes "length l = length r" "vli_add l r = (s, c)"
  shows "c = (if vli_val l + vli_val r < vli_base (length l) then 0 else 1)"
  using vli_add_value [OF assms] vli_val_bound [of s] vli_val_nonneg [of s] by auto

lemma lead_less:
  assumes "vli_val xs + 1 \<le> vli_val ys"
  shows "vli_val (x # xs) < vli_val (y # ys)"
proof -
  have "vli_val (x # xs) < 2 ^ 64 * (vli_val xs + 1)"
    using uint_u64_bound [of x] by (simp add: distrib_left)
  also have "\<dots> \<le> 2 ^ 64 * vli_val ys" using assms by (intro mult_left_mono) simp_all
  also have "\<dots> \<le> vli_val (y # ys)" by simp
  finally show ?thesis .
qed

lemma cmp_down_append:
  "length xs = length ys \<Longrightarrow>
   cmp_down (xs @ [x]) (ys @ [y]) = (if cmp_down xs ys \<noteq> 0 then cmp_down xs ys
     else if y < x then 1 else if x < y then -1 else 0)"
  by (induction xs ys rule: list_induct2) auto

lemma vli_cmp_sgn: "length l = length r \<Longrightarrow> vli_cmp l r = sgn (vli_val l - vli_val r)"
proof (induction l r rule: list_induct2)
  case (Cons x xs y ys)
  have eq: "vli_cmp (x # xs) (y # ys) =
      (if vli_cmp xs ys \<noteq> 0 then vli_cmp xs ys else if y < x then 1 else if x < y then -1 else 0)"
    using cmp_down_append [of "rev xs" "rev ys" x y] Cons.hyps by (simp add: vli_cmp_def)
  consider "vli_val xs = vli_val ys" | "vli_val xs + 1 \<le> vli_val ys" | "vli_val ys + 1 \<le> vli_val xs"
    by linarith
  then show ?case
  proof cases
    case 1
    then show ?thesis using eq Cons.IH by (auto simp: sgn_if word_less_def word_uint_eq_iff)
  next
    case 2
    then have "vli_val (x # xs) < vli_val (y # ys)" by (intro lead_less)
    then show ?thesis using 2 eq Cons.IH by (simp add: sgn_if del: vli_val.simps)
  next
    case 3
    then have "vli_val (y # ys) < vli_val (x # xs)" by (intro lead_less)
    then show ?thesis using 3 eq Cons.IH by (simp add: sgn_if del: vli_val.simps)
  qed
qed (simp add: vli_cmp_def)

lemma vli_is_zero_val: "vli_is_zero v \<longleftrightarrow> vli_val v = 0"
proof (induction v)
  case (Cons d ds)
  have "vli_val (d # ds) = 0 \<longleftrightarrow> uint d = 0 \<and> vli_val ds = 0"
    using uint_u64_bound [of d] by (simp add: add_nonneg_eq_0_iff)
  then show ?case using Cons.IH by (simp del: vli_val.simps add: word_uint_eq_iff)
qed simp

lemma diff_bits_zero:
  "length xs = length ys \<Longrightarrow> diff_bits xs ys d = 0 \<longleftrightarrow> d = 0 \<and> xs = ys"
proof (induction xs ys arbitrary: d rule: list_induct2)
  case (Cons x xs y ys)
  have "(x XOR y) XOR y = x" by (simp only: xor.assoc xor_self_eq xor.right_neutral)
  then have "x XOR y = 0 \<longleftrightarrow> x = y" by (cases "x XOR y = 0") auto
  then have "d OR (x XOR y) = 0 \<longleftrightarrow> d = 0 \<and> x = y" by (simp only: or_eq_0_iff)
  then show ?case using Cons.IH by auto
qed simp

lemma vli_equal_iff: "length l = length r \<Longrightarrow> vli_equal l r \<longleftrightarrow> l = r"
  by (simp add: vli_equal_def diff_bits_zero)

lemma vli_equal_val: "length l = length r \<Longrightarrow> vli_equal l r \<longleftrightarrow> vli_val l = vli_val r"
  using vli_equal_iff vli_val_inj by blast

section \<open>Shifts\<close>

lemma or_int_disjoint:
  fixes k b :: int
  assumes "0 \<le> b" "b < 2 ^ n"
  shows "2 ^ n * k OR b = 2 ^ n * k + b"
proof -
  have b: "take_bit n b = b" using assms by (simp add: take_bit_int_eq_self)
  have "push_bit n k AND b = 0"
    by (subst b [symmetric]) (auto simp: bit_eq_iff bit_simps)
  then show ?thesis by (simp add: push_bit_eq_mult mult.commute flip: disjunctive_add_eq_or)
qed

lemma uint_or_disjoint:
  "uint a = 2 ^ n * k \<Longrightarrow> uint b < 2 ^ n \<Longrightarrow> uint (a OR b) = uint a + uint b"
  for a b :: "'a::len word"
  by (simp add: unsigned_or_eq or_int_disjoint)

lemma uint_drop: "uint (drop_bit n w) = uint w div 2 ^ n" for w :: u64
  by (simp only: unsigned_drop_bit_eq drop_bit_eq_div [symmetric])
    (use uint_u64_bound [of w] in \<open>simp add: take_bit_int_eq_self\<close>)

lemma uint_push: "uint (push_bit n w) = (2 ^ n * uint w) mod 2 ^ 64" for w :: u64
  by (simp only: unsigned_push_bit_eq) (simp add: push_bit_eq_mult take_bit_eq_mod mult.commute)

lemma div_below: "x < a * b \<Longrightarrow> 0 < b \<Longrightarrow> x div b < a" for x :: int
  by (smt (verit) mult_less_cancel_right pos_mod_sign minus_mod_eq_div_mult)

lemma lshift_up_value:
  assumes "0 < n" "n < 64" "uint c < 2 ^ n" "lshift_up n c v = (w, c')"
  shows "vli_val w + vli_base (length v) * uint c' = 2 ^ n * vli_val v + uint c \<and>
         length w = length v \<and> uint c' < 2 ^ n"
  using assms(3,4)
proof (induction v arbitrary: c w c')
  case (Cons t ds)
  have p: "(2 :: int) ^ 64 = 2 ^ n * 2 ^ (64 - n)"
    using assms(2) by (simp only: power_add [symmetric]) simp
  obtain w' where w': "lshift_up n (drop_bit (64 - n) t) ds = (w', c')"
    and w: "w = (push_bit n t OR c) # w'"
    using Cons.prems by (auto split: prod.splits)
  have d: "uint (drop_bit (64 - n) t) = uint t div 2 ^ (64 - n)" by (rule uint_drop)
  have "uint t < 2 ^ n * 2 ^ (64 - n)" using uint_u64_bound [of t] by (simp only: p)
  then have d': "uint (drop_bit (64 - n) t) < 2 ^ n"
    unfolding d by (rule div_below) simp
  have "uint (push_bit n t) = 2 ^ n * (uint t mod 2 ^ (64 - n))"
    unfolding uint_push p by (rule mult_mod_right [symmetric])
  then have h: "uint (push_bit n t OR c) = 2 ^ n * (uint t mod 2 ^ (64 - n)) + uint c"
    using uint_or_disjoint [OF _ Cons.prems(1), of "push_bit n t" "uint t mod 2 ^ (64 - n)"] by simp
  have "2 ^ n * uint t = 2 ^ n * (uint t mod 2 ^ (64 - n) + 2 ^ (64 - n) * (uint t div 2 ^ (64 - n)))"
    by simp
  then have t: "2 ^ n * uint t = 2 ^ n * (uint t mod 2 ^ (64 - n)) + 2 ^ 64 * uint (drop_bit (64 - n) t)"
    by (simp only: d p distrib_left mult.assoc)
  have ih: "vli_val w' + vli_base (length ds) * uint c' = 2 ^ n * vli_val ds + uint (drop_bit (64 - n) t)"
    "length w' = length ds" "uint c' < 2 ^ n"
    using Cons.IH [OF d' w'] by auto
  have "vli_val w + vli_base (length (t # ds)) * uint c' =
      uint (push_bit n t OR c) + 2 ^ 64 * (vli_val w' + vli_base (length ds) * uint c')"
    by (simp add: w distrib_left mult.assoc)
  also have "\<dots> = 2 ^ n * vli_val (t # ds) + uint c"
    by (simp only: ih(1) h vli_val.simps distrib_left t) (simp add: algebra_simps)
  finally show ?case using ih by (simp add: w)
qed simp

lemma vli_lshift_value:
  assumes "0 < n" "n < 64" "vli_lshift v n = (w, c)"
  shows "vli_val w = 2 ^ n * vli_val v - vli_base (length v) * uint c"
    "length w = length v" "uint c < 2 ^ n"
  using lshift_up_value [OF assms(1,2), of 0 v w c] assms(3) by (auto simp: vli_lshift_def)

lemma rshift_down_value:
  assumes "uint c = 2 ^ 63 * k" "k = 0 \<or> k = 1"
  shows "vli_val (rev (rshift_down c xs)) = (vli_val (rev xs) + k * vli_base (length xs)) div 2 \<and>
         length (rshift_down c xs) = length xs"
  using assms
proof (induction xs arbitrary: c k)
  case (Cons t ds)
  define e q where "e = uint t mod 2" and "q = uint t div 2"
  have t: "uint t = 2 * q + e" by (simp add: e_def q_def)
  have "uint (push_bit 63 t) = (2 ^ 63 * uint t) mod (2 ^ 63 * 2)" by (simp add: uint_push)
  then have p: "uint (push_bit 63 t) = 2 ^ 63 * e" by (simp only: mod_mult_mult1 e_def)
  have "e = 0 \<or> e = 1" by (auto simp: e_def)
  note ih = Cons.IH [OF p this]
  have "uint (drop_bit 1 t OR c) = q + uint c"
    using uint_or_disjoint [of c 63 k "drop_bit 1 t"] Cons.prems(1) uint_u64_bound [of t]
    by (simp add: uint_drop q_def or.commute)
  then have "vli_val (rev (rshift_down c (t # ds))) =
      (vli_val (rev ds) + e * vli_base (length ds)) div 2 + vli_base (length ds) * (q + 2 ^ 63 * k)"
    using ih Cons.prems(1) by (simp add: vli_val_append)
  also have "\<dots> = (vli_val (rev ds) + e * vli_base (length ds) + 2 * (vli_base (length ds) * (q + 2 ^ 63 * k))) div 2"
    by simp
  also have "\<dots> = (vli_val (rev (t # ds)) + k * vli_base (length (t # ds))) div 2"
    by (rule arg_cong [where f = "\<lambda>x. x div 2"]) (simp add: vli_val_append t algebra_simps)
  finally show ?case using ih by simp
qed auto

lemma vli_rshift1_value: "vli_val (vli_rshift1 v) = vli_val v div 2"
  using rshift_down_value [of 0 0 "rev v"] by (simp add: vli_rshift1_def)

lemma vli_rshift1_length [simp]: "length (vli_rshift1 v) = length v"
  using rshift_down_value [of 0 0 "rev v"] by (simp add: vli_rshift1_def)

section \<open>Sums and differences modulo a number\<close>

lemma vli_mod_add_value:
  assumes "length l = length m" "length r = length m" "vli_val l < vli_val m" "vli_val r < vli_val m"
  shows "vli_val (vli_mod_add l r m) = (vli_val l + vli_val r) mod vli_val m"
    "length (vli_mod_add l r m) = length m"
proof -
  obtain s c where s: "vli_add l r = (s, c)" by (meson surj_pair)
  have len: "length l = length r" "length s = length m" using vli_add_value [OF _ s] assms by auto
  obtain d b where d: "vli_sub s m = (d, b)" by (meson surj_pair)
  note vs = vli_add_value [OF len(1) s] and vd = vli_sub_value [OF len(2) d]
  note cs = vli_add_carry [OF len(1) s] and bd = vli_sub_borrow [OF len(2) d]
  have cmp: "0 \<le> vli_cmp s m \<longleftrightarrow> vli_val m \<le> vli_val s"
    using vli_cmp_sgn [OF len(2)] by (simp add: sgn_if)
  have nn: "0 \<le> vli_val l" "0 \<le> vli_val r" "0 \<le> vli_val s" by simp_all
  have mm: "(vli_val l + vli_val r) mod vli_val m =
      (if vli_val l + vli_val r < vli_val m then vli_val l + vli_val r else vli_val l + vli_val r - vli_val m)"
    using wrapped_sum [OF nn(1) assms(3) nn(2) assms(4), of 0] by simp
  have mb: "vli_val m < vli_base (length m)" by (rule vli_val_bound)
  show "length (vli_mod_add l r m) = length m" using s d len vd(3) by (simp add: vli_mod_add_def)
  show "vli_val (vli_mod_add l r m) = (vli_val l + vli_val r) mod vli_val m"
    unfolding mm using s d cmp vs(1) vd(1) cs bd len assms mb nn
    by (auto simp: vli_mod_add_def split: if_splits)
qed

lemma vli_mod_sub_value:
  assumes "length l = length m" "length r = length m" "vli_val l < vli_val m" "vli_val r < vli_val m"
  shows "vli_val (vli_mod_sub l r m) = (vli_val l - vli_val r) mod vli_val m"
    "length (vli_mod_sub l r m) = length m"
proof -
  obtain s c where s: "vli_sub l r = (s, c)" by (meson surj_pair)
  have len: "length l = length r" "length s = length m" using vli_sub_value [OF _ s] assms by auto
  obtain d b where d: "vli_add s m = (d, b)" by (meson surj_pair)
  note vs = vli_sub_value [OF len(1) s] and vd = vli_add_value [OF len(2) d]
  note cs = vli_sub_borrow [OF len(1) s] and bd = vli_add_carry [OF len(2) d]
  have nn: "0 \<le> vli_val l" "0 \<le> vli_val r" "0 \<le> vli_val s" by simp_all
  have mm: "(vli_val l - vli_val r) mod vli_val m =
      (if vli_val r \<le> vli_val l then vli_val l - vli_val r else vli_val l - vli_val r + vli_val m)"
    using wrapped_difference [OF nn(1) assms(3) nn(2) assms(4), of 0] by simp
  have mb: "vli_val m < vli_base (length m)" by (rule vli_val_bound)
  show "length (vli_mod_sub l r m) = length m" using s d len vd(3) by (simp add: vli_mod_sub_def)
  show "vli_val (vli_mod_sub l r m) = (vli_val l - vli_val r) mod vli_val m"
  proof (cases "vli_val r \<le> vli_val l")
    case True
    then show ?thesis unfolding mm using s vs(1) cs by (simp add: vli_mod_sub_def)
  next
    case False
    then have c: "c = 1" using cs by simp
    then have v: "vli_val s = vli_val l - vli_val r + vli_base (length m)" using vs(1) assms(1) by simp
    have "vli_base (length m) \<le> vli_val s + vli_val m" using v assms(4) nn(1) by linarith
    then have "b = 1" using bd len(2) by simp
    then show ?thesis unfolding mm using False s d c v vd(1) len(2) by (simp add: vli_mod_sub_def)
  qed
qed

section \<open>Products of digits\<close>

lemma uint_low_half: "uint (w AND 0xffffffff) = uint w mod 2 ^ 32" for w :: u64
proof -
  have "w AND 0xffffffff = take_bit 32 w" by (simp add: take_bit_eq_mask mask_eq_exp_minus_1)
  then show ?thesis by (simp only: unsigned_take_bit_eq) (simp only: take_bit_eq_mod)
qed

lemma half_product:
  fixes a b :: int
  assumes "0 \<le> a" "a < 2 ^ 32" "0 \<le> b" "b < 2 ^ 32"
  shows "0 \<le> a * b" "a * b \<le> 2 ^ 64 - 2 ^ 33 + 1"
  using assms mult_mono [of a "2 ^ 32 - 1" b "2 ^ 32 - 1"] by simp_all

lemma uint_mult_small: "uint a * uint b < 2 ^ 64 \<Longrightarrow> uint (a * b) = uint a * uint b" for a b :: u64
  by (simp add: uint_word_ariths)

lemma uint_add_small: "uint a + uint b < 2 ^ 64 \<Longrightarrow> uint (a + b) = uint a + uint b" for a b :: u64
  by (simp add: uint_word_ariths)

lemma uint_add_wrap: "uint (a + b) = uint a + uint b - (if a + b < b then 2 ^ 64 else 0)" for a b :: u64
  using wrapped_sum [OF uint_u64_bound uint_u64_bound, of 0 a b] uint_u64_bound [of a] uint_u64_bound [of b]
  by (simp add: word_less_def uint_word_ariths)

definition val128 :: "ecc_uint128 \<Rightarrow> int" where
  "val128 p = uint (m_low p) + 2 ^ 64 * uint (m_high p)"

lemma val128_bound: "0 \<le> val128 p" "val128 p < 2 ^ 128"
  using digit_below [OF uint_u64_bound uint_u64_bound, of "m_low p" "m_high p"] by (simp_all add: val128_def)

lemma halves:
  fixes m c s :: int
  assumes "m + 2 ^ 64 * c = s"
  shows "2 ^ 32 * (m mod 2 ^ 32) + e + 2 ^ 64 * (p + 2 ^ 32 * c + m div 2 ^ 32) =
         e + 2 ^ 32 * s + 2 ^ 64 * p"
proof -
  obtain q r where "m div 2 ^ 32 = q" "m mod 2 ^ 32 = r" "m = r + 2 ^ 32 * q"
    using mod_mult_div_eq [of m "2 ^ 32", symmetric] by blast
  then show ?thesis using assms by (auto simp: algebra_simps)
qed

lemma mul_64_64_value: "val128 (mul_64_64 l r) = uint l * uint r"
proof -
  define a0 a1 b0 b1 where ab: "a0 = l AND 0xffffffff" "a1 = drop_bit 32 l"
    "b0 = r AND 0xffffffff" "b1 = drop_bit 32 r"
  define x0 x1 y0 y1 where xy: "x0 = uint a0" "x1 = uint a1" "y0 = uint b0" "y1 = uint b1"
  have l: "uint l = x0 + 2 ^ 32 * x1" and r: "uint r = y0 + 2 ^ 32 * y1"
    by (simp_all add: xy ab uint_low_half uint_drop)
  have b: "0 \<le> x0" "x0 < 2 ^ 32" "0 \<le> y0" "y0 < 2 ^ 32" "0 \<le> x1" "x1 < 2 ^ 32" "0 \<le> y1" "y1 < 2 ^ 32"
    using uint_u64_bound [of l] uint_u64_bound [of r]
    by (simp_all add: xy ab uint_low_half uint_drop div_below pos_imp_zdiv_nonneg_iff)
  define p0 p1 p2 p3 where p: "p0 = x0 * y0" "p1 = x0 * y1" "p2 = x1 * y0" "p3 = x1 * y1"
  have pb: "0 \<le> p0" "p0 \<le> 2 ^ 64 - 2 ^ 33 + 1" "0 \<le> p1" "p1 \<le> 2 ^ 64 - 2 ^ 33 + 1"
    "0 \<le> p2" "p2 \<le> 2 ^ 64 - 2 ^ 33 + 1" "0 \<le> p3" "p3 \<le> 2 ^ 64 - 2 ^ 33 + 1"
    unfolding p using b by (simp_all only: half_product)
  define m2 m2' where m2: "m2 = a1 * b0 + drop_bit 32 (a0 * b0)" and m2': "m2' = m2 + a0 * b1"
  define h where "h = p0 div 2 ^ 32"
  have hb: "0 \<le> h" "h < 2 ^ 32" using pb(1,2) by (simp_all add: h_def div_below)
  have m: "uint (a0 * b0) = p0" "uint (a0 * b1) = p1" "uint (a1 * b0) = p2" "uint (a1 * b1) = p3"
    using pb by (simp_all add: uint_mult_small p xy)
  have "uint m2 = p2 + h" using pb hb by (simp add: m2 uint_add_small uint_drop m h_def)
  then have ov: "uint m2' = p2 + h + p1 - (if m2' < a0 * b1 then 2 ^ 64 else 0)"
    using uint_add_wrap [of m2 "a0 * b1"] by (simp add: m2' m)
  define c :: int where "c = (if m2' < a0 * b1 then 1 else 0)"
  have c: "uint m2' + 2 ^ 64 * c = p2 + h + p1" using ov by (simp add: c_def)
  have cb: "0 \<le> c" "c \<le> 1" by (simp_all add: c_def)
  have "uint m2' < (2 ^ 32 - c) * 2 ^ 32"
    using c cb pb hb uint_u64_bound [of m2'] by (cases "c = 0") (auto simp: c_def split: if_splits)
  then have q: "0 \<le> uint m2' div 2 ^ 32" "uint m2' div 2 ^ 32 < 2 ^ 32 - c"
    by (simp_all add: div_below pos_imp_zdiv_nonneg_iff)
  define s where "s = a1 * b1 + (if m2' < a0 * b1 then 0x100000000 else 0)"
  have s: "uint s = p3 + 2 ^ 32 * c"
    using pb uint_add_small [of "a1 * b1" "0x100000000"] by (simp add: s_def c_def m)
  then have "uint s + uint (drop_bit 32 m2') < 2 ^ 64" using pb q cb by (simp add: uint_drop)
  then have hi: "uint (s + drop_bit 32 m2') = p3 + 2 ^ 32 * c + uint m2' div 2 ^ 32"
    using uint_add_small s by (simp add: uint_drop)
  have "uint (push_bit 32 m2') = (2 ^ 32 * uint m2') mod (2 ^ 32 * 2 ^ 32)" by (simp add: uint_push)
  then have lo1: "uint (push_bit 32 m2') = 2 ^ 32 * (uint m2' mod 2 ^ 32)" by (simp only: mod_mult_mult1)
  have "uint (push_bit 32 m2' OR (a0 * b0 AND 0xffffffff)) = 2 ^ 32 * (uint m2' mod 2 ^ 32) + p0 mod 2 ^ 32"
    using uint_or_disjoint [OF lo1, of "a0 * b0 AND 0xffffffff"] lo1 by (simp add: uint_low_half m)
  then have lo: "uint ((a0 * b0 AND 0xffffffff) OR push_bit 32 m2') = 2 ^ 32 * (uint m2' mod 2 ^ 32) + p0 mod 2 ^ 32"
    by (simp only: or.commute)
  have "mul_64_64 l r = \<lparr>m_low = (a0 * b0 AND 0xffffffff) OR push_bit 32 m2',
      m_high = s + drop_bit 32 m2'\<rparr>"
    by (simp add: mul_64_64_def Let_def ab m2 m2' s_def)
  then have "val128 (mul_64_64 l r) = 2 ^ 32 * (uint m2' mod 2 ^ 32) + p0 mod 2 ^ 32 +
      2 ^ 64 * (p3 + 2 ^ 32 * c + uint m2' div 2 ^ 32)"
    by (simp only: val128_def ecc_uint128.simps lo hi)
  also have "\<dots> = p0 mod 2 ^ 32 + 2 ^ 32 * (p2 + h + p1) + 2 ^ 64 * p3"
    by (rule halves [OF c])
  also have "\<dots> = p0 + 2 ^ 32 * (p1 + p2) + 2 ^ 64 * p3"
    unfolding minus_mult_div_eq_mod [of p0 "2 ^ 32", folded h_def, symmetric] by (simp add: algebra_simps)
  also have "\<dots> = uint l * uint r" by (simp add: l r p algebra_simps)
  finally show ?thesis .
qed

section \<open>Columns of products\<close>

text \<open>
  A column adds terms to the accumulator: a product and the bits its doubling lost. An addition whose
  low words carry into a high word that is all ones overflows to a sum that is not below the product:
  the code does not see this carry.
\<close>

definition carry_lost :: "ecc_uint128 \<Rightarrow> ecc_uint128 \<Rightarrow> bool" where
  "carry_lost a product \<longleftrightarrow> m_high a = -1 \<and> m_low a + m_low product < m_low a"

definition acc_term :: "ecc_uint128 \<times> u64 \<Rightarrow> ecc_uint128 \<times> u64 \<Rightarrow> ecc_uint128 \<times> u64" where
  "acc_term t s = accumulate (fst t) (fst s, snd s + snd t)"

fun term_losses :: "(ecc_uint128 \<times> u64) list \<Rightarrow> ecc_uint128 \<times> u64 \<Rightarrow> int" where
  "term_losses [] s = 0"
| "term_losses (t # ts) s = (if carry_lost (fst s) (fst t) then 1 else 0) + term_losses ts (acc_term t s)"

fun columns :: "(ecc_uint128 \<times> u64) list list \<Rightarrow> ecc_uint128 \<times> u64 \<Rightarrow> vli" where
  "columns [] s = [m_low (fst s)]"
| "columns (ts # tss) s =
     (let s = fold acc_term ts s in m_low (fst s) # columns tss (next_column s))"

fun columns_loss :: "(ecc_uint128 \<times> u64) list list \<Rightarrow> ecc_uint128 \<times> u64 \<Rightarrow> int" where
  "columns_loss [] s = 0"
| "columns_loss (ts # tss) s =
     2 ^ 128 * term_losses ts s + 2 ^ 64 * columns_loss tss (next_column (fold acc_term ts s))"

fun terms_exact :: "(ecc_uint128 \<times> u64) list \<Rightarrow> ecc_uint128 \<times> u64 \<Rightarrow> bool" where
  "terms_exact [] s = True"
| "terms_exact (t # ts) s = (\<not> carry_lost (fst s) (fst t) \<and> terms_exact ts (acc_term t s))"

fun columns_exact :: "(ecc_uint128 \<times> u64) list list \<Rightarrow> ecc_uint128 \<times> u64 \<Rightarrow> bool" where
  "columns_exact [] s = True"
| "columns_exact (ts # tss) s =
     (terms_exact ts s \<and> columns_exact tss (next_column (fold acc_term ts s)))"

definition val192 :: "ecc_uint128 \<times> u64 \<Rightarrow> int" where
  "val192 s = val128 (fst s) + 2 ^ 128 * uint (snd s)"

definition term_value :: "ecc_uint128 \<times> u64 \<Rightarrow> int" where
  "term_value t = val128 (fst t) + 2 ^ 128 * uint (snd t)"

fun columns_value :: "(ecc_uint128 \<times> u64) list list \<Rightarrow> int" where
  "columns_value [] = 0"
| "columns_value (ts # tss) = sum_list (map term_value ts) + 2 ^ 64 * columns_value tss"

lemma seen_carry:
  fixes x y z s :: int
  assumes "0 \<le> y" "y < b" "0 \<le> x" "x < b" "z = 0 \<or> z = 1" "x + z < b" "s = (y + x + z) mod b"
  shows "s + b * (if s < y then 1 else 0) = y + x + z"
  using assms(1-6) unfolding assms(7) wrapped_sum [OF assms(1-5)] by auto

lemma add_128_128_value:
  fixes a b :: ecc_uint128
  defines "r \<equiv> add_128_128 a b"
  shows "val128 r + 2 ^ 128 * ((if m_high r < m_high b then 1 else 0) + (if carry_lost a b then 1 else 0)) =
         val128 a + val128 b"
proof -
  define l where "l = m_low a + m_low b"
  define c where "c = (if l < m_low a then 1 else 0 :: u64)"
  have cc: "(if c = 0 then 0 else 1) = uint c" "c = 0 \<or> c = 1" by (auto simp: c_def)
  have r: "m_low r = l" "m_high r = m_high b + c + m_high a"
    by (simp_all add: r_def add_128_128_def Let_def l_def c_def add_ac)
  have lo: "uint l + 2 ^ 64 * uint c = uint (m_low a) + uint (m_low b)"
    using uint_add_wrap [of "m_low b" "m_low a"] by (simp add: l_def c_def add.commute split: if_splits)
  have lost: "carry_lost a b \<longleftrightarrow> m_high a = -1 \<and> c = 1"
    by (simp add: carry_lost_def c_def l_def)
  have hi: "uint (m_high r) = (uint (m_high b) + uint (m_high a) + uint c) mod 2 ^ 64"
    by (simp add: r(2) uint_word_ariths mod_simps add_ac)
  have hi': "uint (m_high r) + 2 ^ 64 * ((if m_high r < m_high b then 1 else 0) + (if carry_lost a b then 1 else 0)) =
      uint (m_high b) + uint (m_high a) + uint c"
  proof (cases "carry_lost a b")
    case True
    then have "m_high r = m_high b" "uint (m_high a) + uint c = 2 ^ 64"
      using r(2) lost by (simp_all add: unsigned_minus_1_eq_mask mask_eq_exp_minus_1)
    then show ?thesis using True by simp
  next
    case False
    then have "\<not> (uint (m_high a) = 2 ^ 64 - 1 \<and> uint c = 1)"
      using cc by (auto simp: lost word_uint_eq_iff unsigned_minus_1_eq_mask mask_eq_exp_minus_1)
    then have "uint (m_high a) + uint c < 2 ^ 64"
      using cc uint_u64_bound [of "m_high a"] by auto
    moreover have "uint c = 0 \<or> uint c = 1" using cc(2) by auto
    ultimately show ?thesis
      using seen_carry [OF uint_u64_bound uint_u64_bound _ _ hi] False by (simp add: word_less_def)
  qed
  have "val128 r + 2 ^ 128 * x = uint l + 2 ^ 64 * (uint (m_high r) + 2 ^ 64 * x)" for x
    by (simp add: val128_def r(1) distrib_left)
  then show ?thesis using lo hi' by (simp add: val128_def distrib_left)
qed

lemma acc_term_value:
  assumes "uint (snd s) + uint (snd t) + 1 < 2 ^ 64"
  shows "val192 (acc_term t s) + 2 ^ 128 * (if carry_lost (fst s) (fst t) then 1 else 0) =
         val192 s + term_value t"
    "uint (snd (acc_term t s)) \<le> uint (snd s) + uint (snd t) + 1"
proof -
  define r where "r = add_128_128 (fst s) (fst t)"
  define c where "c = (if m_high r < m_high (fst t) then 1 else 0 :: u64)"
  have c: "uint c = (if m_high r < m_high (fst t) then 1 else 0)" by (simp add: c_def)
  have e: "uint (snd s + snd t) = uint (snd s) + uint (snd t)"
    using assms by (intro uint_add_small) simp
  have a: "acc_term t s = (r, snd s + snd t + c)"
    by (simp add: acc_term_def accumulate_def Let_def r_def c_def)
  have u: "uint (snd s + snd t + c) = uint (snd s) + uint (snd t) + uint c"
    using uint_add_small [of "snd s + snd t" c] assms e c by simp
  show "uint (snd (acc_term t s)) \<le> uint (snd s) + uint (snd t) + 1"
    by (simp add: a u c)
  show "val192 (acc_term t s) + 2 ^ 128 * (if carry_lost (fst s) (fst t) then 1 else 0) =
         val192 s + term_value t"
    using add_128_128_value [of "fst s" "fst t", folded r_def, folded c]
    by (simp add: val192_def term_value_def a u distrib_left)
qed

lemma fold_acc_value:
  assumes "\<forall>t\<in>set ts. uint (snd t) \<le> 1" "uint (snd s) + 2 * int (length ts) < 2 ^ 63"
  shows "val192 (fold acc_term ts s) + 2 ^ 128 * term_losses ts s = val192 s + sum_list (map term_value ts)"
  using assms
proof (induction ts arbitrary: s)
  case (Cons t ts)
  have t: "uint (snd t) \<le> 1" using Cons.prems by simp
  note v = acc_term_value [of s t]
  have "val192 (fold acc_term ts (acc_term t s)) + 2 ^ 128 * term_losses ts (acc_term t s) =
      val192 (acc_term t s) + sum_list (map term_value ts)"
    using Cons.prems t v(2) by (intro Cons.IH) auto
  then show ?case using v(1) t Cons.prems(2) by (simp add: distrib_left)
qed simp

lemma next_column_value: "val192 s = uint (m_low (fst s)) + 2 ^ 64 * val192 (next_column s)"
  by (simp add: val192_def next_column_def val128_def)

lemma term_losses_nonneg: "0 \<le> term_losses ts s"
  by (induction ts s rule: term_losses.induct) auto

lemma columns_loss_nonneg: "0 \<le> columns_loss tss s"
  by (induction tss s rule: columns_loss.induct) (simp_all add: term_losses_nonneg)

lemma terms_exact_loss: "terms_exact ts s \<longleftrightarrow> term_losses ts s = 0"
proof (induction ts s rule: terms_exact.induct)
  case (2 t ts s)
  then show ?case using term_losses_nonneg [of ts "acc_term t s"] by auto
qed simp

lemma columns_exact_loss: "columns_exact tss s \<longleftrightarrow> columns_loss tss s = 0"
proof (induction tss s rule: columns_exact.induct)
  case (2 ts tss s)
  have "columns_loss (ts # tss) s = 0 \<longleftrightarrow>
      term_losses ts s = 0 \<and> columns_loss tss (next_column (fold acc_term ts s)) = 0"
    using term_losses_nonneg [of ts s] columns_loss_nonneg [of tss "next_column (fold acc_term ts s)"]
    by (simp add: add_nonneg_eq_0_iff)
  then show ?case using 2 by (simp add: terms_exact_loss del: columns_loss.simps)
qed simp

lemma columns_correct:
  assumes "\<forall>ts\<in>set tss. length ts \<le> 4 \<and> (\<forall>t\<in>set ts. uint (snd t) \<le> 1)" "snd s = 0"
  shows "\<exists>h\<ge>0. vli_val (columns tss s) + vli_base (Suc (length tss)) * h + columns_loss tss s =
                  val192 s + columns_value tss \<and> length (columns tss s) = Suc (length tss)"
  using assms
proof (induction tss arbitrary: s)
  case Nil
  then show ?case
    by (auto simp: val192_def val128_def vli_base_def intro!: exI [of _ "uint (m_high (fst s))"])
next
  case (Cons ts tss)
  define s' where "s' = fold acc_term ts s"
  have f: "val192 s' + 2 ^ 128 * term_losses ts s = val192 s + sum_list (map term_value ts)"
    unfolding s'_def using Cons.prems by (intro fold_acc_value) auto
  obtain h where h: "0 \<le> h"
    "vli_val (columns tss (next_column s')) + vli_base (Suc (length tss)) * h +
       columns_loss tss (next_column s') = val192 (next_column s') + columns_value tss"
    "length (columns tss (next_column s')) = Suc (length tss)"
    using Cons.IH [of "next_column s'"] Cons.prems by (auto simp: next_column_def)
  have "vli_val (columns (ts # tss) s) + vli_base (Suc (length (ts # tss))) * h + columns_loss (ts # tss) s =
      uint (m_low (fst s')) + 2 ^ 64 * (vli_val (columns tss (next_column s')) +
        vli_base (Suc (length tss)) * h + columns_loss tss (next_column s')) + 2 ^ 128 * term_losses ts s"
    by (simp add: s'_def [symmetric] Let_def distrib_left del: vli_base_simps)
      (simp add: algebra_simps)
  also have "\<dots> = val192 s' + 2 ^ 64 * columns_value tss + 2 ^ 128 * term_losses ts s"
    unfolding h(2) next_column_value [of s'] by (simp add: distrib_left)
  also have "\<dots> = val192 s + columns_value (ts # tss)" using f by simp
  finally show ?case using h by (auto simp: s'_def [symmetric] Let_def)
qed

section \<open>The products of numbers\<close>

abbreviation acc0 :: "ecc_uint128 \<times> u64" where
  "acc0 \<equiv> (\<lparr>m_low = 0, m_high = 0\<rparr>, 0)"

definition mult_terms :: "vli \<Rightarrow> vli \<Rightarrow> nat \<Rightarrow> (ecc_uint128 \<times> u64) list" where
  "mult_terms l r k = map (\<lambda>i. (mul_64_64 (l ! i) (r ! (k - i)), 0)) [column_min k..<min (Suc k) 4]"

definition square_terms :: "vli \<Rightarrow> nat \<Rightarrow> (ecc_uint128 \<times> u64) list" where
  "square_terms l k =
     map (\<lambda>i. let p = mul_64_64 (l ! i) (l ! (k - i))
              in if i < k - i then (double_product p, drop_bit 63 (m_high p)) else (p, 0))
       [column_min k..<Suc (k div 2)]"

definition mult_loss :: "vli \<Rightarrow> vli \<Rightarrow> int" where
  "mult_loss l r = columns_loss (map (mult_terms l r) [0..<7]) acc0"

definition square_loss :: "vli \<Rightarrow> int" where
  "square_loss l = columns_loss (map (square_terms l) [0..<7]) acc0"

definition mult_exact :: "vli \<Rightarrow> vli \<Rightarrow> bool" where
  "mult_exact l r \<longleftrightarrow> columns_exact (map (mult_terms l r) [0..<7]) acc0"

definition square_exact :: "vli \<Rightarrow> bool" where
  "square_exact l \<longleftrightarrow> columns_exact (map (square_terms l) [0..<7]) acc0"

lemma exact_loss: "mult_exact l r \<longleftrightarrow> mult_loss l r = 0" "square_exact l \<longleftrightarrow> square_loss l = 0"
  by (simp_all add: mult_exact_def mult_loss_def square_exact_def square_loss_def columns_exact_loss)

lemma mult_column_fold: "mult_column l r k s = fold acc_term (mult_terms l r k) s"
proof -
  have "accumulate p = acc_term (p, 0)" for p by (simp add: acc_term_def fun_eq_iff)
  then show ?thesis unfolding mult_column_def mult_terms_def fold_map comp_def by simp
qed

lemma mult_columns_columns: "mult_columns l r ks s = columns (map (mult_terms l r) ks) s"
  by (induction ks arbitrary: s) (simp_all add: mult_column_fold Let_def)

lemma square_column_fold: "square_column l k s = fold acc_term (square_terms l k) s"
proof -
  have "square_term l k = (\<lambda>i. acc_term (let p = mul_64_64 (l ! i) (l ! (k - i))
      in if i < k - i then (double_product p, drop_bit 63 (m_high p)) else (p, 0)))"
    by (auto simp: square_term_def acc_term_def Let_def intro!: ext)
  then show ?thesis by (simp add: square_column_def square_terms_def fold_map comp_def)
qed

lemma square_columns_columns: "square_columns l ks s = columns (map (square_terms l) ks) s"
  by (induction ks arbitrary: s) (simp_all add: square_column_fold Let_def)

lemma double_product_value:
  "term_value (double_product p, drop_bit 63 (m_high p)) = 2 * val128 p" "uint (drop_bit 63 w) \<le> (1 :: int)" for w :: u64
proof -
  define l h where "l = uint (m_low p)" and "h = uint (m_high p)"
  have b: "0 \<le> l" "l < 2 ^ 64" "0 \<le> h" "h < 2 ^ 64" by (simp_all add: l_def h_def uint_u64_bound [simplified])
  have d: "(2 * x) mod 2 ^ 64 = 2 * x - 2 ^ 64 * (x div 2 ^ 63)" for x :: int
    using mult_mod_right [of 2 x "2 ^ 63"] minus_mult_div_eq_mod [of x "2 ^ 63"] by simp
  have "uint (push_bit 1 (m_high p)) = 2 * (h mod 2 ^ 63)"
    using mult_mod_right [of 2 h "2 ^ 63"] by (simp only: uint_push) (simp add: h_def)
  moreover have "uint (drop_bit 63 (m_low p)) < 2 ^ 1"
    using b by (simp add: uint_drop l_def div_below)
  ultimately have "uint (push_bit 1 (m_high p) OR drop_bit 63 (m_low p)) = (2 * h) mod 2 ^ 64 + l div 2 ^ 63"
    using uint_or_disjoint [of "push_bit 1 (m_high p)" 1 "h mod 2 ^ 63"] mult_mod_right [of 2 h "2 ^ 63"]
    by (simp add: uint_drop l_def)
  moreover have "uint (push_bit 1 (m_low p)) = 2 * l - 2 ^ 64 * (l div 2 ^ 63)"
    using d [of l] by (simp only: uint_push) (simp add: l_def)
  ultimately show "term_value (double_product p, drop_bit 63 (m_high p)) = 2 * val128 p"
    by (simp add: term_value_def double_product_def val128_def uint_drop l_def [symmetric]
        h_def [symmetric] d [simplified])
  have "uint w < 2 * 2 ^ 63" using uint_u64_bound [of w] by simp
  then have "uint w div 2 ^ 63 < 2" by (rule div_below) simp
  then show "uint (drop_bit 63 w) \<le> 1" by (simp add: uint_drop)
qed

lemma vli4: "length v = 4 \<Longrightarrow> \<exists>a b c d. v = [a, b, c, d]"
  by (auto simp: numeral_eq_Suc length_Suc_conv)

lemma upt_7: "[0..<7] = [0, 1, 2, 3, 4, 5, 6]"
  by (simp add: upt_rec)

lemma mult_terms_unfold:
  "mult_terms [a, b, c, d] [e, f, g, h] 0 = [(mul_64_64 a e, 0)]"
  "mult_terms [a, b, c, d] [e, f, g, h] 1 = [(mul_64_64 a f, 0), (mul_64_64 b e, 0)]"
  "mult_terms [a, b, c, d] [e, f, g, h] 2 = [(mul_64_64 a g, 0), (mul_64_64 b f, 0), (mul_64_64 c e, 0)]"
  "mult_terms [a, b, c, d] [e, f, g, h] 3 =
     [(mul_64_64 a h, 0), (mul_64_64 b g, 0), (mul_64_64 c f, 0), (mul_64_64 d e, 0)]"
  "mult_terms [a, b, c, d] [e, f, g, h] 4 = [(mul_64_64 b h, 0), (mul_64_64 c g, 0), (mul_64_64 d f, 0)]"
  "mult_terms [a, b, c, d] [e, f, g, h] 5 = [(mul_64_64 c h, 0), (mul_64_64 d g, 0)]"
  "mult_terms [a, b, c, d] [e, f, g, h] 6 = [(mul_64_64 d h, 0)]"
  by (simp_all add: mult_terms_def column_min_def upt_rec)

lemma mult_terms_value:
  assumes "length l = 4" "length r = 4"
  shows "columns_value (map (mult_terms l r) [0..<7]) = vli_val l * vli_val r"
proof -
  obtain a b c d where l: "l = [a, b, c, d]" using assms vli4 by blast
  obtain e f g h where r: "r = [e, f, g, h]" using assms vli4 by blast
  show ?thesis
    unfolding upt_7 l r
    by (simp add: mult_terms_unfold mult_terms_unfold(2) [simplified] term_value_def mul_64_64_value)
      (simp add: algebra_simps)
qed

lemma square_terms_unfold:
  "map term_value (square_terms [a, b, c, d] 0) = [uint a * uint a]"
  "map term_value (square_terms [a, b, c, d] 1) = [2 * (uint a * uint b)]"
  "map term_value (square_terms [a, b, c, d] 2) = [2 * (uint a * uint c), uint b * uint b]"
  "map term_value (square_terms [a, b, c, d] 3) = [2 * (uint a * uint d), 2 * (uint b * uint c)]"
  "map term_value (square_terms [a, b, c, d] 4) = [2 * (uint b * uint d), uint c * uint c]"
  "map term_value (square_terms [a, b, c, d] 5) = [2 * (uint c * uint d)]"
  "map term_value (square_terms [a, b, c, d] 6) = [uint d * uint d]"
  by (simp_all add: square_terms_def column_min_def upt_rec Let_def double_product_value(1) mul_64_64_value)
    (simp_all add: term_value_def mul_64_64_value)

lemma square_terms_value:
  assumes "length l = 4"
  shows "columns_value (map (square_terms l) [0..<7]) = vli_val l * vli_val l"
proof -
  obtain a b c d where l: "l = [a, b, c, d]" using assms vli4 by blast
  show ?thesis
    unfolding upt_7 l
    by (simp add: square_terms_unfold square_terms_unfold(2) [simplified])
      (simp add: algebra_simps)
qed

lemma columns_product:
  assumes "\<forall>ts\<in>set tss. length ts \<le> 4 \<and> (\<forall>t\<in>set ts. uint (snd t) \<le> 1)" "length tss = 7"
    "columns_value tss < 2 ^ 512"
  shows "vli_val (columns tss acc0) = columns_value tss - columns_loss tss acc0"
    "length (columns tss acc0) = 8"
proof -
  obtain h where h: "0 \<le> h" "vli_val (columns tss acc0) + 2 ^ 512 * h + columns_loss tss acc0 = columns_value tss"
    "length (columns tss acc0) = 8"
    using columns_correct [OF assms(1), of acc0] assms(2)
    by (auto simp: val192_def val128_def vli_base_def)
  have "2 ^ 512 * h < 2 ^ 512 * 1"
    using h(2) assms(3) columns_loss_nonneg [of tss acc0] vli_val_nonneg [of "columns tss acc0"] by linarith
  then have "h < 1" by (rule mult_left_less_imp_less) simp
  then have "h = 0" using h(1) by simp
  then show "vli_val (columns tss acc0) = columns_value tss - columns_loss tss acc0" using h(2) by simp
  show "length (columns tss acc0) = 8" by (rule h(3))
qed

lemma vli_val_bound4: "length v = 4 \<Longrightarrow> vli_val v < 2 ^ 256"
  using vli_val_bound [of v] by (simp add: vli_base_def)

lemma product_bound: "length l = 4 \<Longrightarrow> length r = 4 \<Longrightarrow> vli_val l * vli_val r < 2 ^ 512"
  using mult_strict_mono [OF vli_val_bound4 vli_val_bound4, of l r] by simp

lemma vli_mult_value:
  assumes "length l = 4" "length r = 4"
  shows "vli_val (vli_mult l r) = vli_val l * vli_val r - mult_loss l r" "length (vli_mult l r) = 8"
proof -
  have "\<forall>ts\<in>set (map (mult_terms l r) [0..<7]). length ts \<le> 4 \<and> (\<forall>t\<in>set ts. uint (snd t) \<le> 1)"
    by (auto simp: mult_terms_def column_min_def)
  then show "vli_val (vli_mult l r) = vli_val l * vli_val r - mult_loss l r" "length (vli_mult l r) = 8"
    using columns_product [of "map (mult_terms l r) [0..<7]"] mult_terms_value [OF assms] product_bound [OF assms]
    by (simp_all add: vli_mult_def mult_columns_columns mult_loss_def)
qed

lemma vli_square_value:
  assumes "length l = 4"
  shows "vli_val (vli_square l) = vli_val l * vli_val l - square_loss l" "length (vli_square l) = 8"
proof -
  have "length (square_terms l k) \<le> 4" if "k < 7" for k
    using that by (auto simp: square_terms_def column_min_def)
  then have "\<forall>ts\<in>set (map (square_terms l) [0..<7]). length ts \<le> 4 \<and> (\<forall>t\<in>set ts. uint (snd t) \<le> 1)"
    by (auto simp: square_terms_def Let_def double_product_value(2))
  then show "vli_val (vli_square l) = vli_val l * vli_val l - square_loss l" "length (vli_square l) = 8"
    using columns_product [of "map (square_terms l) [0..<7]"] square_terms_value [OF assms] product_bound [OF assms assms]
    by (simp_all add: vli_square_def square_columns_columns square_loss_def)
qed

end
