(* ===== verification/Ecc_Field.thy ===== *)
theory Ecc_Field
  imports Ecc_Arith
begin

text \<open>
  The reduction modulo the prime of the curve, the product and the square modulo the prime: the
  terms that \<open>vli_mmod_fast\<close> adds are congruent to the product, and its closing loops end
  with the remainder, whatever the product.
\<close>

section \<open>The reduction\<close>

definition lo32 :: "u64 \<Rightarrow> int" where "lo32 w = uint w mod 2 ^ 32"
definition hi32 :: "u64 \<Rightarrow> int" where "hi32 w = uint w div 2 ^ 32"

lemma halves_value: "uint w = lo32 w + 2 ^ 32 * hi32 w"
  by (simp add: lo32_def hi32_def)

lemma halves_bound: "0 \<le> lo32 w" "lo32 w < 2 ^ 32" "0 \<le> hi32 w" "hi32 w < 2 ^ 32"
  using uint_u64_bound [of w] by (simp_all add: lo32_def hi32_def div_below pos_imp_zdiv_nonneg_iff)

lemma half_words:
  "uint (w AND 0xffffffff) = lo32 w"
  "uint (drop_bit 32 w) = hi32 w"
  "uint (push_bit 32 w) = 2 ^ 32 * lo32 w"
  "uint (w AND 0xffffffff00000000) = 2 ^ 32 * hi32 w"
proof -
  show "uint (w AND 0xffffffff) = lo32 w" by (simp only: uint_low_half lo32_def)
  show "uint (drop_bit 32 w) = hi32 w" by (simp only: uint_drop hi32_def)
  have "uint (push_bit 32 w) = (2 ^ 32 * uint w) mod (2 ^ 32 * 2 ^ 32)" by (simp only: uint_push) simp
  then show "uint (push_bit 32 w) = 2 ^ 32 * lo32 w" by (simp only: mod_mult_mult1 lo32_def)
  have "w AND push_bit 32 (mask 32) = push_bit 32 (drop_bit 32 w)"
    by (rule bit_word_eqI) (auto simp: bit_simps)
  moreover have "push_bit 32 (mask 32) = (0xffffffff00000000 :: u64)" by (simp add: mask_eq_exp_minus_1)
  ultimately have "(w AND 0xffffffff00000000) = push_bit 32 (drop_bit 32 w)" by (simp only:)
  then have "uint (w AND 0xffffffff00000000) = (2 ^ 32 * uint (drop_bit 32 w)) mod (2 ^ 32 * 2 ^ 32)"
    by (simp only: uint_push) simp
  then show "uint (w AND 0xffffffff00000000) = 2 ^ 32 * hi32 w"
    using halves_bound(3,4) [of w] by (simp only: mod_mult_mult1 uint_drop hi32_def) simp
qed

lemma half_words_or:
  "uint b = 2 ^ 32 * k \<Longrightarrow> uint a < 2 ^ 32 \<Longrightarrow> uint (a OR b) = uint a + 2 ^ 32 * k" for a b :: u64
  using uint_or_disjoint [of b 32 k a] by (simp add: or.commute)

lemma half_words_pairs:
  "uint (drop_bit 32 v OR push_bit 32 w) = hi32 v + 2 ^ 32 * lo32 w"
  "uint (drop_bit 32 v OR (w AND 0xffffffff00000000)) = hi32 v + 2 ^ 32 * hi32 w"
  "uint ((v AND 0xffffffff) OR push_bit 32 w) = lo32 v + 2 ^ 32 * lo32 w"
  using halves_bound [of v] by (simp_all only: half_words_or [OF half_words(3)] half_words_or [OF half_words(4)] half_words(1,2))

definition prime_p :: int where
  "prime_p = 2 ^ 256 - 2 ^ 224 + 2 ^ 192 + 2 ^ 96 - 1"

lemma prime_p_bounds: "0 < prime_p" "prime_p < 2 ^ 256" "2 ^ 255 < prime_p"
  by (simp_all add: prime_p_def)

lemma curve_p_value: "vli_val curve_p = prime_p" "length curve_p = 4"
  by (simp_all add: curve_p_def prime_p_def)

definition carried :: "vli \<times> int \<Rightarrow> int" where
  "carried s = vli_val (fst s) + 2 ^ 256 * snd s"

lemma vli_base_4: "vli_base 4 = 2 ^ 256"
  by (simp add: vli_base_def)

lemma red_add_value:
  assumes "length (fst s) = 4" "length tmp = 4"
  shows "carried (red_add tmp s) = carried s + vli_val tmp" "length (fst (red_add tmp s)) = 4"
proof -
  obtain r c where r: "vli_add (fst s) tmp = (r, c)" by (meson surj_pair)
  then show "carried (red_add tmp s) = carried s + vli_val tmp" "length (fst (red_add tmp s)) = 4"
    using vli_add_value [OF _ r] assms by (simp_all add: red_add_def carried_def vli_base_4 distrib_left)
qed

lemma red_sub_value:
  assumes "length (fst s) = 4" "length tmp = 4"
  shows "carried (red_sub tmp s) = carried s - vli_val tmp" "length (fst (red_sub tmp s)) = 4"
proof -
  obtain r c where r: "vli_sub (fst s) tmp = (r, c)" by (meson surj_pair)
  then show "carried (red_sub tmp s) = carried s - vli_val tmp" "length (fst (red_sub tmp s)) = 4"
    using vli_sub_value [OF _ r] assms
    by (simp_all add: red_sub_def carried_def vli_base_4 right_diff_distrib)
qed

lemma red_add_twice_value:
  assumes "length (fst s) = 4" "length tmp = 4"
  shows "carried (red_add_twice tmp s) = carried s + 2 * vli_val tmp" "length (fst (red_add_twice tmp s)) = 4"
proof -
  obtain t c where t: "vli_lshift tmp 1 = (t, c)" by (meson surj_pair)
  note v = vli_lshift_value [OF _ _ t]
  have "carried (red_add_twice tmp s) = carried (fst s, snd s + uint c) + vli_val t"
    using red_add_value(1) [of "(fst s, snd s + uint c)" t] v assms by (simp add: red_add_twice_def t [simplified])
  then show "carried (red_add_twice tmp s) = carried s + 2 * vli_val tmp"
    using v assms by (simp add: carried_def vli_base_4 distrib_left)
  show "length (fst (red_add_twice tmp s)) = 4"
    using red_add_value(2) [of "(fst s, snd s + uint c)" t] v assms by (simp add: red_add_twice_def t [simplified])
qed

lemmas red_values = red_add_value red_sub_value red_add_twice_value

lemma red_terms_value:
  assumes "p = [p0, p1, p2, p3, p4, p5, p6, p7]"
  shows "length (fst (red_terms p)) = 4"
    "carried (red_terms p) = vli_val [p0, p1, p2, p3]
       + 2 * vli_val [0, p5 AND 0xffffffff00000000, p6, p7]
       + 2 * vli_val [0, push_bit 32 p6, drop_bit 32 p6 OR push_bit 32 p7, drop_bit 32 p7]
       + vli_val [p4, p5 AND 0xffffffff, 0, p7]
       + vli_val [drop_bit 32 p4 OR push_bit 32 p5, drop_bit 32 p5 OR (p6 AND 0xffffffff00000000), p7, drop_bit 32 p6 OR push_bit 32 p4]
       - vli_val [drop_bit 32 p5 OR push_bit 32 p6, drop_bit 32 p6, 0, (p4 AND 0xffffffff) OR push_bit 32 p5]
       - vli_val [p6, p7, 0, drop_bit 32 p4 OR (p5 AND 0xffffffff00000000)]
       - vli_val [drop_bit 32 p6 OR push_bit 32 p7, drop_bit 32 p7 OR push_bit 32 p4, drop_bit 32 p4 OR push_bit 32 p5, push_bit 32 p6]
       - vli_val [p7, p4 AND 0xffffffff00000000, p5, p6 AND 0xffffffff00000000]"
  unfolding red_terms_def Let_def assms by (simp_all add: red_values) (simp add: carried_def)

lemma red_terms_congruent:
  assumes "length p = 8"
  shows "carried (red_terms p) mod prime_p = vli_val p mod prime_p" "length (fst (red_terms p)) = 4"
proof -
  obtain p0 p1 p2 p3 p4 p5 p6 p7 where p: "p = [p0, p1, p2, p3, p4, p5, p6, p7]"
    using assms by (auto simp: numeral_eq_Suc length_Suc_conv)
  show "length (fst (red_terms p)) = 4" by (rule red_terms_value(1) [OF p])
  have "vli_val p = carried (red_terms p) + prime_p *
      (1 * lo32 p4 + 4294967297 * hi32 p4 + 18446744078004518912 * lo32 p5 + 79228162532711081667253501951 * hi32 p5 + 340282367000166625977638945021017194495 * lo32 p6 + 1461501637671185285124623296161210883009696235519 * hi32 p6 + 6277101736848182401166692341332123086285927382448418586623 * lo32 p7 + 26959946673427741530053695850515137729844644212646842236464328081408 * hi32 p7)"
    unfolding red_terms_value(2) [OF p]
    unfolding p vli_val.simps half_words half_words_pairs
      halves_value [of p4] halves_value [of p5] halves_value [of p6] halves_value [of p7] prime_p_def
    by (simp add: algebra_simps)
  then show "carried (red_terms p) mod prime_p = vli_val p mod prime_p" by (simp only: mod_mult_self2)
qed

section \<open>The end of the reduction\<close>

lemma reduce_up_value:
  assumes "length r = 4" "c < 0"
  shows "\<exists>s. reduce_up c r = Some s \<and> length s = 4 \<and> vli_val s = carried (r, c) mod prime_p"
  using assms
proof (induction "nat (- carried (r, c))" arbitrary: r c rule: less_induct)
  case less
  obtain t d where t: "vli_add r curve_p = (t, d)" by (meson surj_pair)
  have v: "vli_val t = vli_val r + prime_p - 2 ^ 256 * uint d" "length t = 4" "d = 0 \<or> d = 1"
    using vli_add_value [OF _ t] less.prems curve_p_value by (simp_all add: vli_base_4)
  have t': "carried (t, c + uint d) = carried (r, c) + prime_p"
    using v(1) by (simp add: carried_def distrib_left)
  have m: "carried (t, c + uint d) mod prime_p = carried (r, c) mod prime_p" unfolding t' by simp
  have neg: "carried (r, c) < 0"
    using vli_val_bound4 [OF less.prems(1)] less.prems(2) by (simp add: carried_def)
  show ?case
  proof (cases "c + uint d < 0")
    case True
    have "\<exists>s. reduce_up (c + uint d) t = Some s \<and> length s = 4 \<and> vli_val s = carried (t, c + uint d) mod prime_p"
      using less.hyps [OF _ v(2) True] t' neg prime_p_bounds by simp
    then show ?thesis using True m by (simp add: reduce_up.simps [of c r] t Let_def)
  next
    case False
    then have "c + uint d = 0" using less.prems(2) v(3) by auto
    then have "vli_val t = carried (t, c + uint d)" by (simp add: carried_def)
    moreover have "carried (t, c + uint d) = carried (t, c + uint d) mod prime_p"
      using t' neg calculation vli_val_nonneg [of t] by (intro mod_pos_pos_trivial [symmetric]) linarith+
    ultimately show ?thesis using False v(2) m by (simp add: reduce_up.simps [of c r] t Let_def)
  qed
qed

lemma reduce_down_value:
  assumes "length r = 4" "0 \<le> c"
  shows "\<exists>s. reduce_down c r = Some s \<and> length s = 4 \<and> vli_val s = carried (r, c) mod prime_p"
  using assms
proof (induction "nat (carried (r, c))" arbitrary: r c rule: less_induct)
  case less
  obtain t d where t: "vli_sub r curve_p = (t, d)" by (meson surj_pair)
  have v: "vli_val t = vli_val r - prime_p + 2 ^ 256 * uint d" "length t = 4" "d = 0 \<or> d = 1"
    and d: "d = (if vli_val r < prime_p then 1 else 0)"
    using vli_sub_value [OF _ t] vli_sub_borrow [OF _ t] less.prems curve_p_value by (simp_all add: vli_base_4)
  have t': "carried (t, c - uint d) = carried (r, c) - prime_p"
    using v(1) by (simp add: carried_def right_diff_distrib)
  have m: "carried (t, c - uint d) mod prime_p = carried (r, c) mod prime_p" unfolding t' by simp
  have cmp: "vli_cmp curve_p r \<noteq> 1 \<longleftrightarrow> prime_p \<le> vli_val r"
    using vli_cmp_sgn [of curve_p r] less.prems curve_p_value by (simp add: sgn_if)
  show ?case
  proof (cases "c \<noteq> 0 \<or> prime_p \<le> vli_val r")
    case True
    then have nn: "0 \<le> c - uint d" using less.prems(2) d by auto
    then have "0 \<le> carried (t, c - uint d)" by (simp add: carried_def)
    then have "\<exists>s. reduce_down (c - uint d) t = Some s \<and> length s = 4 \<and>
        vli_val s = carried (t, c - uint d) mod prime_p"
      using less.hyps [OF _ v(2) nn] t' prime_p_bounds by simp
    then show ?thesis using True m cmp by (simp add: reduce_down.simps [of c r] t)
  next
    case False
    then have "carried (r, c) mod prime_p = vli_val r"
      by (simp add: carried_def mod_pos_pos_trivial)
    moreover have "reduce_down c r = Some r" using False cmp by (subst reduce_down.simps) simp
    ultimately show ?thesis using less.prems by simp
  qed
qed

lemma mmod_fast_value:
  assumes "length p = 8"
  shows "\<exists>r. vli_mmod_fast p = Some r \<and> length r = 4 \<and> vli_val r = vli_val p mod prime_p"
proof -
  obtain s c where s: "red_terms p = (s, c)" by (meson surj_pair)
  have "length s = 4" "carried (s, c) mod prime_p = vli_val p mod prime_p"
    using red_terms_congruent [OF assms] by (simp_all add: s)
  then show ?thesis
    using reduce_up_value [of s c] reduce_down_value [of s c]
    by (cases "c < 0") (simp_all add: vli_mmod_fast_def s)
qed

lemma mod_mult_fast_value:
  assumes "length l = 4" "length r = 4"
  shows "\<exists>s. vli_mod_mult_fast l r = Some s \<and> length s = 4 \<and>
             vli_val s = (vli_val l * vli_val r - mult_loss l r) mod prime_p"
  using mmod_fast_value vli_mult_value [OF assms] by (metis vli_mod_mult_fast_def)

lemma mod_square_fast_value:
  assumes "length l = 4"
  shows "\<exists>s. vli_mod_square_fast l = Some s \<and> length s = 4 \<and>
             vli_val s = (vli_val l * vli_val l - square_loss l) mod prime_p"
  using mmod_fast_value vli_square_value [OF assms] by (metis vli_mod_square_fast_def)

end
