(* ===== verification/Ecc_Inverse.thy ===== *)
theory Ecc_Inverse
  imports Ecc_Field
begin

text \<open>
  The inverse modulo an odd number: what halving and the difference of cofactors compute, the
  invariant of the loop of \<open>vli_mod_inv\<close> and its end.
\<close>

section \<open>Parity and halving\<close>

lemma vli_even_iff: "v \<noteq> [] \<Longrightarrow> vli_even v \<longleftrightarrow> even (vli_val v)"
proof -
  assume "v \<noteq> []"
  then obtain d ds where v: "v = d # ds" by (cases v) auto
  have "uint (d AND 1) = uint d mod 2"
    by (subst unsigned_and_eq) (simp only: unsigned_1 and_one_eq)
  then have "d AND 1 = 0 \<longleftrightarrow> uint d mod 2 = 0" by (simp only: word_uint_eq_iff unsigned_0)
  then show ?thesis by (simp add: v vli_even_def flip: even_iff_mod_2_eq_zero)
qed

lemma top_bit_value:
  assumes "length u = 4" "vli_val u < 2 ^ 255"
  shows "vli_val (u[3 := (u ! 3) OR 0x8000000000000000]) = vli_val u + 2 ^ 255"
proof -
  obtain a b c d where u: "u = [a, b, c, d]" using assms vli4 by blast
  have "2 ^ 192 * uint d \<le> vli_val u" by (simp add: u)
  then have d: "uint d < 2 ^ 63" using assms(2) by simp
  have "uint (d OR 0x8000000000000000) = uint d + 2 ^ 63"
    using uint_or_disjoint [of "0x8000000000000000" 63 1 d] d by (simp add: or.commute)
  then show ?thesis by (simp add: u numeral_3_eq_3)
qed

lemma halve_mod_value:
  assumes "length u = 4" "length m = 4" "vli_val u < vli_val m" "odd (vli_val m)"
  shows "2 * vli_val (halve_mod u m) = vli_val u + (if even (vli_val u) then 0 else vli_val m)"
    "vli_val (halve_mod u m) < vli_val m" "length (halve_mod u m) = 4"
proof -
  obtain s c where s: "vli_add u m = (s, c)" by (meson surj_pair)
  have e: "vli_even u \<longleftrightarrow> even (vli_val u)" using assms(1) by (intro vli_even_iff) auto
  note v = vli_add_value [OF _ s]
  have "2 * vli_val (halve_mod u m) = vli_val u + (if even (vli_val u) then 0 else vli_val m) \<and>
        length (halve_mod u m) = 4"
  proof (cases "even (vli_val u)")
    case True
    then show ?thesis using assms(1) e by (simp add: halve_mod_def vli_rshift1_value)
  next
    case False
    have sv: "vli_val s = vli_val u + vli_val m - 2 ^ 256 * uint c" "c = 0 \<or> c = 1" "length s = 4"
      using v assms by (simp_all add: vli_base_4)
    then have "even (vli_val s)" using False assms(4) by simp
    then have h: "2 * vli_val (vli_rshift1 s) = vli_val s" by (simp add: vli_rshift1_value)
    show ?thesis
    proof (cases "c = 0")
      case True
      then show ?thesis using False e s sv h by (simp add: halve_mod_def)
    next
      case c: False
      then have "c = 1" using sv(2) by simp
      moreover have "vli_val (vli_rshift1 s) < 2 ^ 255" using vli_val_bound4 [OF sv(3)] h by simp
      ultimately show ?thesis
        using False e s sv h top_bit_value [of "vli_rshift1 s"] by (simp add: halve_mod_def Let_def)
    qed
  qed
  then show "2 * vli_val (halve_mod u m) = vli_val u + (if even (vli_val u) then 0 else vli_val m)"
    "length (halve_mod u m) = 4" by simp_all
  then show "vli_val (halve_mod u m) < vli_val m"
    using assms(3) vli_val_nonneg [of "halve_mod u m"] by (cases "even (vli_val u)"; simp only: if_True if_False not_False_eq_True; linarith)
qed

lemma cofactor_sub_value:
  assumes "length u = 4" "length v = 4" "length m = 4" "vli_val u < vli_val m" "vli_val v < vli_val m"
  shows "vli_val (cofactor_sub u v m) = (vli_val u - vli_val v) mod vli_val m" "length (cofactor_sub u v m) = 4"
proof -
  have cmp: "vli_cmp u v < 0 \<longleftrightarrow> vli_val u < vli_val v"
    using vli_cmp_sgn [of u v] assms by (simp add: sgn_if)
  obtain s c where s: "vli_add u m = (s, c)" by (meson surj_pair)
  define t where "t = (if vli_val u < vli_val v then s else u)"
  define k where "k = (if vli_val u < vli_val v then uint c else 0)"
  have sv: "vli_val s = vli_val u + vli_val m - 2 ^ 256 * uint c" "length s = 4"
    using vli_add_value [OF _ s] assms by (simp_all add: vli_base_4)
  obtain d b where d: "vli_sub t v = (d, b)" by (meson surj_pair)
  have lt: "length t = 4" using sv assms(1) by (simp add: t_def)
  have dv: "vli_val d = vli_val t - vli_val v + 2 ^ 256 * uint b" "length d = 4"
    using vli_sub_value [OF _ d] assms lt by (simp_all add: vli_base_4)
  define x where "x = (vli_val u - vli_val v) mod vli_val m"
  have x: "x = vli_val u - vli_val v + (if vli_val u < vli_val v then vli_val m else 0)"
    unfolding x_def using wrapped_difference [of "vli_val u" "vli_val m" "vli_val v" 0] assms by auto
  have "0 \<le> x" "x < 2 ^ 256"
    using assms(4,5) vli_val_bound4 [OF assms(3)] vli_val_nonneg [of u] vli_val_nonneg [of v]
    unfolding x by (cases "vli_val u < vli_val v"; simp only: if_True if_False; linarith)+
  moreover have "vli_val d + 2 ^ 256 * (k - uint b) = x + 2 ^ 256 * 0"
    using dv sv by (auto simp: x t_def k_def right_diff_distrib)
  ultimately have "vli_val d = x"
    using digit_unique(1) [of "vli_val d" "2 ^ 256"] vli_val_bound4 [OF dv(2)] vli_val_nonneg [of d] by blast
  moreover have "cofactor_sub u v m = d" using cmp d s by (simp add: cofactor_sub_def t_def split: if_splits)
  ultimately show "vli_val (cofactor_sub u v m) = (vli_val u - vli_val v) mod vli_val m"
    "length (cofactor_sub u v m) = 4" using dv(2) by (simp_all add: x_def)
qed

section \<open>The loop\<close>

text \<open>
  The greatest common divisor of \<open>a\<close> and \<open>b\<close> stays that of the input and the modulus, and they are \<open>u\<close> and \<open>v\<close> times the input; each round
  halves one of them, or their difference.
\<close>

definition inv_state :: "int \<Rightarrow> int \<Rightarrow> vli \<Rightarrow> vli \<Rightarrow> vli \<Rightarrow> vli \<Rightarrow> vli \<Rightarrow> bool" where
  "inv_state g x m a b u v \<longleftrightarrow>
     length a = 4 \<and> length b = 4 \<and> length u = 4 \<and> length v = 4 \<and>
     0 < vli_val a \<and> 0 < vli_val b \<and> gcd (vli_val a) (vli_val b) = g \<and>
     vli_val u < vli_val m \<and> vli_val v < vli_val m \<and>
     vli_val m dvd vli_val u * x - vli_val a \<and> vli_val m dvd vli_val v * x - vli_val b"

lemma inv_state_sym: "inv_state g x m a b u v \<longleftrightarrow> inv_state g x m b a v u"
  by (auto simp: inv_state_def gcd.commute)

lemma halved_dvd:
  fixes m h w x a a' :: int
  assumes "odd m" "2 * h = w + (if even w then 0 else m)" "m dvd w * x - a" "a = 2 * a'"
  shows "m dvd h * x - a'"
proof -
  have "2 * (h * x - a') = (2 * h) * x - 2 * a'" by (simp add: algebra_simps)
  also have "\<dots> = (w * x - a) + (if even w then 0 else m) * x"
    unfolding assms(2) assms(4) [symmetric] by (simp add: algebra_simps)
  finally have "2 * (h * x - a') = (w * x - a) + (if even w then 0 else m) * x" .
  then have "m dvd 2 * (h * x - a')" using assms(3) by (auto intro: dvd_add)
  moreover have "coprime m 2" using assms(1) by simp
  ultimately show ?thesis using coprime_dvd_mult_right_iff by blast
qed

lemma inv_even_step:
  assumes "inv_state g x m a b u v" "odd (vli_val m)" "length m = 4" "odd g" "even (vli_val a)"
  shows "inv_state g x m (vli_rshift1 a) b (halve_mod u m) v"
    "vli_val (vli_rshift1 a) < vli_val a"
proof -
  have s: "length a = 4" "length u = 4" "0 < vli_val a" "gcd (vli_val a) (vli_val b) = g"
    "vli_val u < vli_val m" "vli_val m dvd vli_val u * x - vli_val a"
    using assms(1) by (simp_all add: inv_state_def)
  have a: "vli_val a = 2 * vli_val (vli_rshift1 a)" using assms(5) by (simp add: vli_rshift1_value)
  note h = halve_mod_value [OF s(2) assms(3) s(5) assms(2)]
  show "vli_val (vli_rshift1 a) < vli_val a" using a s(3) by linarith
  have "0 < vli_val (vli_rshift1 a)" using a s(3) by linarith
  moreover have "odd (vli_val b)" using s(4) assms(4,5) by (metis gcd_greatest)
  then have "gcd (vli_val (vli_rshift1 a)) (vli_val b) = g"
    using s(4) gcd_mult_left_left_cancel [of "vli_val b" 2 "vli_val (vli_rshift1 a)"] unfolding a by simp
  moreover have "vli_val m dvd vli_val (halve_mod u m) * x - vli_val (vli_rshift1 a)"
    by (rule halved_dvd [OF assms(2) h(1) s(6) a])
  ultimately show "inv_state g x m (vli_rshift1 a) b (halve_mod u m) v"
    using assms(1) h by (simp add: inv_state_def)
qed

lemma inv_odd_step:
  assumes "inv_state g x m a b u v" "odd (vli_val m)" "length m = 4" "odd g"
    "odd (vli_val a)" "odd (vli_val b)" "vli_val b < vli_val a"
  shows "inv_state g x m (vli_rshift1 (fst (vli_sub a b))) b (halve_mod (cofactor_sub u v m) m) v"
    "vli_val (vli_rshift1 (fst (vli_sub a b))) < vli_val a"
proof -
  have s: "length a = 4" "length b = 4" "length u = 4" "length v = 4" "0 < vli_val b" "gcd (vli_val a) (vli_val b) = g"
    "vli_val u < vli_val m" "vli_val v < vli_val m"
    "vli_val m dvd vli_val u * x - vli_val a" "vli_val m dvd vli_val v * x - vli_val b"
    using assms(1) by (simp_all add: inv_state_def)
  obtain d c where d: "vli_sub a b = (d, c)" by (meson surj_pair)
  have dv: "vli_val d = vli_val a - vli_val b" "length d = 4"
    using vli_sub_value [OF _ d] vli_sub_borrow [OF _ d] s assms(7) by simp_all
  note w = cofactor_sub_value [OF s(3,4) assms(3) s(7,8)]
  have mp: "0 < vli_val m" using s(7) vli_val_nonneg [of u] by linarith
  have "vli_val m dvd vli_val u * x - vli_val a - (vli_val v * x - vli_val b)"
    using s(9,10) by (rule dvd_diff)
  then have "vli_val m dvd (vli_val u - vli_val v) * x - vli_val d" by (simp add: dv algebra_simps)
  then have "vli_val m dvd vli_val (cofactor_sub u v m) * x - vli_val d"
    unfolding w(1) by (simp add: mod_eq_dvd_iff [symmetric] mod_mult_left_eq)
  moreover have "0 \<le> (vli_val u - vli_val v) mod vli_val m" "vli_val (cofactor_sub u v m) < vli_val m"
    using pos_mod_sign [OF mp] pos_mod_bound [OF mp] unfolding w(1) by simp_all
  moreover have "gcd (vli_val d) (vli_val b) = g" using s(6) unfolding dv by (simp add: gcd_diff1)
  ultimately have i: "inv_state g x m d b (cofactor_sub u v m) v"
    using assms(1,7) dv w by (simp add: inv_state_def)
  have "even (vli_val d)" using assms dv by simp
  from inv_even_step [OF i assms(2-4) this]
  show "inv_state g x m (vli_rshift1 (fst (vli_sub a b))) b (halve_mod (cofactor_sub u v m) m) v"
    "vli_val (vli_rshift1 (fst (vli_sub a b))) < vli_val a"
    using dv s(5) by (simp_all add: d)
qed

lemma inv_loop_value:
  assumes "inv_state g x m a b u v" "odd (vli_val m)" "length m = 4" "odd g"
  shows "\<exists>r. inv_loop m a b u v = Some r \<and> length r = 4 \<and> vli_val r < vli_val m \<and>
             vli_val m dvd vli_val r * x - g"
  using assms(1)
proof (induction "nat (vli_val a + vli_val b)" arbitrary: a b u v rule: less_induct)
  case less
  note I = less.prems and M = assms(2-4)
  have s: "length a = 4" "length b = 4" "0 < vli_val a" "0 < vli_val b" "gcd (vli_val a) (vli_val b) = g"
    using I by (simp_all add: inv_state_def)
  have cmp: "vli_cmp a b = sgn (vli_val a - vli_val b)" using s by (intro vli_cmp_sgn) simp
  have ev: "vli_even a \<longleftrightarrow> even (vli_val a)" "vli_even b \<longleftrightarrow> even (vli_val b)"
    using s by (auto intro!: vli_even_iff)
  note I' = I [THEN inv_state_sym [THEN iffD1]]
  consider (eq) "vli_val a = vli_val b" | (a) "vli_val a \<noteq> vli_val b" "even (vli_val a)"
    | (b) "vli_val a \<noteq> vli_val b" "odd (vli_val a)" "even (vli_val b)"
    | (gt) "odd (vli_val a)" "odd (vli_val b)" "vli_val b < vli_val a"
    | (lt) "odd (vli_val a)" "odd (vli_val b)" "vli_val a < vli_val b" by fastforce
  then show ?case
  proof cases
    case eq
    then have "vli_val a = g" using s by simp
    then have "vli_val m dvd vli_val u * x - g" using I by (simp add: inv_state_def)
    then show ?thesis using I cmp eq by (subst inv_loop.simps) (simp add: inv_state_def)
  next
    case a
    note st = inv_even_step [OF I M a(2)]
    show ?thesis using less.hyps [OF _ st(1)] st(2) s(3,4) a cmp ev by (subst inv_loop.simps) (simp add: sgn_if)
  next
    case b
    note st = inv_even_step [OF I' M b(3)]
    show ?thesis
      using less.hyps [OF _ st(1) [THEN inv_state_sym [THEN iffD1]]] st(2) s(3,4) b cmp ev
      by (subst inv_loop.simps) (simp add: sgn_if)
  next
    case gt
    note st = inv_odd_step [OF I M gt]
    show ?thesis using less.hyps [OF _ st(1)] st(2) s(3,4) gt cmp ev by (subst inv_loop.simps) (simp add: sgn_if)
  next
    case lt
    note st = inv_odd_step [OF I' M lt(2,1,3)]
    show ?thesis
      using less.hyps [OF _ st(1) [THEN inv_state_sym [THEN iffD1]]] st(2) s(3,4) lt cmp ev
      by (subst inv_loop.simps) (simp add: sgn_if)
  qed
qed

lemma mod_inv_value:
  assumes "length x = 4" "length m = 4" "odd (vli_val m)" "1 < vli_val m" "vli_val x \<noteq> 0"
  shows "\<exists>r. vli_mod_inv x m = Some r \<and> length r = 4 \<and> vli_val r < vli_val m \<and>
             vli_val r * vli_val x mod vli_val m = gcd (vli_val x) (vli_val m) mod vli_val m"
proof -
  define g where "g = gcd (vli_val x) (vli_val m)"
  have "odd g" using assms(3) unfolding g_def by (metis dvd_trans gcd_dvd2)
  have "0 < vli_val x" using assms(5) vli_val_nonneg [of x] by linarith
  then have "inv_state g (vli_val x) m x m (1 # replicate 3 0) vli_clear"
    using assms by (simp add: inv_state_def vli_clear_def numeral_eq_Suc g_def)
  from inv_loop_value [OF this assms(3,2) \<open>odd g\<close>] obtain r where
    r: "inv_loop m x m (1 # replicate 3 0) vli_clear = Some r"
    "length r = 4" "vli_val r < vli_val m" "vli_val m dvd vli_val r * vli_val x - g" by blast
  have "vli_val r * vli_val x mod vli_val m = g mod vli_val m" using r(4) by (simp add: mod_eq_dvd_iff)
  then show ?thesis using r assms(5) by (simp add: vli_mod_inv_def vli_is_zero_val g_def)
qed

lemma mod_inv_total:
  assumes "length x = 4" "length m = 4" "odd (vli_val m)" "1 < vli_val m"
  shows "\<exists>r. vli_mod_inv x m = Some r \<and> length r = 4 \<and> vli_val r < vli_val m"
  using mod_inv_value [OF assms] assms
  by (cases "vli_val x = 0") (auto simp: vli_mod_inv_def vli_is_zero_val vli_clear_def numeral_eq_Suc)

end
