(* ===== verification/Ecc_Keys.thy ===== *)
theory Ecc_Keys
  imports Ecc_Inverse
begin

text \<open>
  What the point and key operations of \<open>src/shared/ecc.c\<close> promise: they end with an answer for
  all numbers of four digits, the test of a point is the curve equation when none of its products
  loses a carry, private keys out of range are refused, and the byte format is little endian.
\<close>

section \<open>Operations that always answer\<close>

text \<open>\<open>ends_with m P\<close>: the computation ends with a result that has the property.\<close>

definition ends_with :: "'a option \<Rightarrow> ('a \<Rightarrow> bool) \<Rightarrow> bool" where
  "ends_with m P \<longleftrightarrow> (\<exists>x. m = Some x \<and> P x)"

named_theorems ends_intros \<open>operations that answer\<close>

lemma ends_Some [simp]: "ends_with (Some x) P \<longleftrightarrow> P x"
  by (simp add: ends_with_def)

lemma ends_bind: "ends_with m Q \<Longrightarrow> (\<And>x. Q x \<Longrightarrow> ends_with (f x) P) \<Longrightarrow> ends_with (Option.bind m f) P"
  by (auto simp: ends_with_def)

lemma ends_weaken: "ends_with m Q \<Longrightarrow> (\<And>x. Q x \<Longrightarrow> P x) \<Longrightarrow> ends_with m P"
  by (auto simp: ends_with_def)

abbreviation four :: "vli \<Rightarrow> bool" where
  "four v \<equiv> length v = 4"

definition four2 :: "vli \<times> vli \<Rightarrow> bool" where
  "four2 P \<longleftrightarrow> four (fst P) \<and> four (snd P)"

lemma four2_Pair [simp]: "four2 (x, y) \<longleftrightarrow> four x \<and> four y"
  by (simp add: four2_def)

lemma four_curve [simp]: "four curve_p" "four curve_n" "four curve_b" "four vli_clear"
  by (simp_all add: curve_p_def curve_n_def curve_b_def vli_clear_def)

lemma four_mod_add [simp]: "four l \<Longrightarrow> four r \<Longrightarrow> four (vli_mod_add l r curve_p)"
proof -
  assume a: "four l" "four r"
  obtain s c where s: "vli_add l r = (s, c)" by (meson surj_pair)
  obtain d b where d: "vli_sub s curve_p = (d, b)" by (meson surj_pair)
  show ?thesis using vli_add_value(3) [OF _ s] vli_sub_value(3) [OF _ d] a by (simp add: vli_mod_add_def s d)
qed

lemma four_mod_sub [simp]: "four l \<Longrightarrow> four r \<Longrightarrow> four (vli_mod_sub l r curve_p)"
proof -
  assume a: "four l" "four r"
  obtain s c where s: "vli_sub l r = (s, c)" by (meson surj_pair)
  obtain d b where d: "vli_add s curve_p = (d, b)" by (meson surj_pair)
  show ?thesis using vli_sub_value(3) [OF _ s] vli_add_value(3) [OF _ d] a by (simp add: vli_mod_sub_def s d)
qed

lemma ends_mult [ends_intros]: "four l \<Longrightarrow> four r \<Longrightarrow> ends_with (vli_mod_mult_fast l r) four"
  using mod_mult_fast_value by (auto simp: ends_with_def)

lemma ends_square [ends_intros]: "four l \<Longrightarrow> ends_with (vli_mod_square_fast l) four"
  using mod_square_fast_value by (auto simp: ends_with_def)

lemma ends_inv [ends_intros]: "four x \<Longrightarrow> ends_with (vli_mod_inv x curve_p) four"
  using mod_inv_total [of x curve_p] by (auto simp: ends_with_def curve_p_value(1) prime_p_def)

lemma ends_double [ends_intros]:
  "four x \<Longrightarrow> four y \<Longrightarrow> four z \<Longrightarrow>
   ends_with (ecc_point_double_jacobian x y z) (\<lambda>(x, y, z). four x \<and> four y \<and> four z)"
proof -
  assume a: "four x" "four y" "four z"
  have h: "four (if vli_test_bit v 0 \<noteq> 0
                  then let (v, carry) = vli_add v curve_p; v = vli_rshift1 v in v[3 := (v ! 3) OR push_bit 63 carry]
                  else vli_rshift1 v)" if "four v" for v
    using that vli_add_value(3) [of v curve_p] by (auto simp: Let_def split: prod.splits)
  show ?thesis
    using a unfolding ecc_point_double_jacobian_def Let_def
    by (auto intro!: ends_bind [OF ends_mult] ends_bind [OF ends_square] h [unfolded Let_def])
qed

lemma ends_apply_z [ends_intros]: "four x \<Longrightarrow> four y \<Longrightarrow> four z \<Longrightarrow> ends_with (apply_z x y z) four2"
  unfolding apply_z_def by (auto intro!: ends_bind [OF ends_mult] ends_bind [OF ends_square])

lemma ends_initial_double [ends_intros]:
  "four x \<Longrightarrow> four y \<Longrightarrow> (\<And>z. iz = Some z \<Longrightarrow> four z) \<Longrightarrow>
   ends_with (xycz_initial_double x y iz) (\<lambda>(P, Q). four2 P \<and> four2 Q)"
  unfolding xycz_initial_double_def Let_def
  by (auto intro!: ends_bind [OF ends_apply_z] ends_bind [OF ends_double] split: option.splits)

lemma ends_xycz_add [ends_intros]:
  "four2 P \<Longrightarrow> four2 Q \<Longrightarrow> ends_with (xycz_add P Q) (\<lambda>(P, Q). four2 P \<and> four2 Q)"
  unfolding xycz_add_def Let_def
  by (cases P, cases Q) (auto intro!: ends_bind [OF ends_mult] ends_bind [OF ends_square])

lemma ends_xycz_add_c [ends_intros]:
  "four2 P \<Longrightarrow> four2 Q \<Longrightarrow> ends_with (xycz_add_c P Q) (\<lambda>(P, Q). four2 P \<and> four2 Q)"
  unfolding xycz_add_c_def Let_def
  by (cases P, cases Q) (auto intro!: ends_bind [OF ends_mult] ends_bind [OF ends_square])

definition two_points :: "(vli \<times> vli) list \<Rightarrow> bool" where
  "two_points R \<longleftrightarrow> length R = 2 \<and> (\<forall>P\<in>set R. four2 P)"

lemma two_points_nth: "two_points R \<Longrightarrow> i < 2 \<Longrightarrow> four2 (R ! i)"
  by (simp add: two_points_def)

lemma two_points_update: "two_points R \<Longrightarrow> four2 P \<Longrightarrow> two_points (R[i := P])"
  by (auto simp: two_points_def dest!: set_update_subset_insert [THEN subsetD])

lemma ladder_nb_less: "ladder_nb s i < 2" "1 - ladder_nb s i < 2"
  by (simp_all add: ladder_nb_def)

lemma ends_ladder_add_c: "two_points R \<Longrightarrow> nb < 2 \<Longrightarrow> ends_with (ladder_add_c nb R) two_points"
  unfolding ladder_add_c_def
  by (auto intro!: ends_bind [OF ends_xycz_add_c] two_points_nth two_points_update)

lemma ends_ladder_add: "two_points R \<Longrightarrow> nb < 2 \<Longrightarrow> ends_with (ladder_add nb R) two_points"
  unfolding ladder_add_def
  by (auto intro!: ends_bind [OF ends_xycz_add] two_points_nth two_points_update)

lemma ends_ladder: "two_points R \<Longrightarrow> ends_with (ladder s ks R) two_points"
proof (induction ks arbitrary: R)
  case (Cons k ks)
  show ?case
    using Cons.prems
    by (auto simp: Let_def ladder_nb_less Cons.IH
        intro!: ends_bind [OF ends_ladder_add_c] ends_bind [OF ends_ladder_add])
qed simp

definition four_point :: "ecc_point \<Rightarrow> bool" where
  "four_point q \<longleftrightarrow> four (ept_x q) \<and> four (ept_y q)"

lemma ends_point_mult:
  assumes "four_point q" "\<And>z. iz = Some z \<Longrightarrow> four z"
  shows "ends_with (ecc_point_mult q s iz n) four_point"
proof -
  have q: "four (ept_x q)" "four (ept_y q)" using assms(1) by (simp_all add: four_point_def)
  have nth: "four (fst (R ! i))" "four (snd (R ! i))" if "two_points R" "i < 2" for R i
    using two_points_nth [OF that] by (simp_all add: four2_def)
  show ?thesis
    unfolding ecc_point_mult_def Let_def
    apply (rule ends_bind [OF ends_initial_double [OF q assms(2)]], assumption)
    apply (clarsimp split: prod.splits)
    apply (rule ends_bind [OF ends_ladder], simp add: two_points_def)
    apply (rule ends_bind [OF ends_ladder_add_c], assumption, rule ladder_nb_less)
    apply (rule ends_bind [OF ends_mult], simp add: nth, simp add: nth ladder_nb_less)
    apply (rule ends_bind [OF ends_mult], simp, rule q)
    apply (rule ends_bind [OF ends_inv], simp)
    apply (rule ends_bind [OF ends_mult], simp, rule q)
    apply (rule ends_bind [OF ends_mult], simp, simp add: nth ladder_nb_less)
    apply (rule ends_bind [OF ends_ladder_add], assumption, rule ladder_nb_less)
    apply (rule ends_bind [OF ends_apply_z])
       apply (simp_all add: nth)
    apply (clarsimp simp: four_point_def four2_def split: prod.splits)
    done
qed

section \<open>Bytes\<close>

fun le_value :: "u8 list \<Rightarrow> int" where
  "le_value [] = 0"
| "le_value (b # bs) = uint b + 2 ^ 8 * le_value bs"

lemma le_value_append: "le_value (a @ b) = le_value a + 2 ^ (8 * length a) * le_value b"
  by (induction a) (simp_all add: algebra_simps power_add)

lemma le64_bytes_length [simp]: "length (le64_bytes w) = 8"
  by (simp add: le64_bytes_def)

lemma uint_byte_of: "uint (ucast (drop_bit k w) :: u8) = (uint w div 2 ^ k) mod 2 ^ 8" for w :: u64
  by (simp only: unsigned_ucast_eq take_bit_eq_mod uint_drop) simp

lemma le_value_bytes_of:
  "le_value (map (\<lambda>i. ucast (drop_bit (8 * i) w)) [0..<n]) = uint w mod 2 ^ (8 * n)" for w :: u64
proof (induction n)
  case (Suc n)
  have "uint w mod (2 ^ (8 * n) * 2 ^ 8) = 2 ^ (8 * n) * ((uint w div 2 ^ (8 * n)) mod 2 ^ 8) + uint w mod 2 ^ (8 * n)"
    by (rule zmod_zmult2_eq) simp
  moreover have "(2 :: int) ^ (8 * Suc n) = 2 ^ (8 * n) * 2 ^ 8" by (simp only: power_add [symmetric]) (simp add: add.commute)
  ultimately show ?case using Suc by (simp only: upt_Suc_append map_append le_value_append)
      (simp add: uint_byte_of del: power_mult)
qed simp

lemma le_value_le64_bytes: "le_value (le64_bytes w) = uint w"
  using le_value_bytes_of [of w 8] uint_u64_bound [of w] by (simp add: le64_bytes_def mod_pos_pos_trivial del: upt_Suc)

lemma uint_ucast_8: "uint (ucast (b :: u8) :: u64) = uint b"
  by (rule uint_up_ucast) (simp add: is_up)

lemma uint_u8_bound: "0 \<le> uint (b :: u8)" "uint b < 2 ^ 8"
  using uint_lt2p [of b] by simp_all

lemma or_byte:
  fixes a :: u64 and b :: u8
  assumes "uint a < 2 ^ n" "n + 8 \<le> 64"
  shows "uint (a OR push_bit n (ucast b)) = uint a + 2 ^ n * uint b"
    "uint (a OR push_bit n (ucast b)) < 2 ^ (n + 8)"
proof -
  have "2 ^ n * uint b < 2 ^ n * 2 ^ 8" using uint_u8_bound(2) by (rule mult_strict_left_mono) simp
  also have "\<dots> \<le> 2 ^ 64" using assms(2) by (simp only: power_add [symmetric]) (rule power_increasing, simp_all)
  finally have "uint (push_bit n (ucast b :: u64)) = 2 ^ n * uint b"
    by (simp only: uint_push uint_ucast_8) (simp add: mod_pos_pos_trivial)
  then show v: "uint (a OR push_bit n (ucast b)) = uint a + 2 ^ n * uint b"
    using uint_or_disjoint [of "push_bit n (ucast b)" n "uint b" a] assms(1) by (simp add: or.commute)
  show "uint (a OR push_bit n (ucast b)) < 2 ^ (n + 8)"
    unfolding v power_add using assms(1) uint_u8_bound [of b] by (intro digit_below) simp_all
qed

lemma le64_val_value:
  assumes "length b = 8"
  shows "uint (le64_val b) = le_value b"
proof -
  obtain b0 b1 b2 b3 b4 b5 b6 b7 where b: "b = [b0, b1, b2, b3, b4, b5, b6, b7]"
    using assms by (auto simp: numeral_eq_Suc length_Suc_conv)
  have s0: "uint (ucast b0 :: u64) < 2 ^ 8" using uint_u8_bound by (simp only: uint_ucast_8)
  note s1 = or_byte [OF s0, of b1, simplified arith_simps]
  note s2 = or_byte [OF s1(2), of b2, simplified arith_simps]
  note s3 = or_byte [OF s2(2), of b3, simplified arith_simps]
  note s4 = or_byte [OF s3(2), of b4, simplified arith_simps]
  note s5 = or_byte [OF s4(2), of b5, simplified arith_simps]
  note s6 = or_byte [OF s5(2), of b6, simplified arith_simps]
  note s7 = or_byte [OF s6(2), of b7, simplified arith_simps]
  show ?thesis
    using s1 s2 s3 s4 s5 s6 s7 by (simp add: b le64_val_def uint_ucast_8 flip: or.assoc)
qed

lemma bytes2native_value:
  assumes "length b = 32 + k"
  shows "\<exists>v. ecc_bytes2native b = Some v \<and> four v \<and> vli_val v = le_value (take 32 b)"
proof -
  define p where "p = (\<lambda>i. take 8 (drop (8 * i) b))"
  have r: "buf_read b (8 * i) 8 = Some (p i)" "length (p i) = 8" if "i < 4" for i
    using that assms by (simp_all add: buf_read_def p_def)
  have u: "[0..<4] = [0, 1, 2, 3]" by (simp add: upt_rec)
  have "ecc_bytes2native b = Some [le64_val (p 0), le64_val (p 1), le64_val (p 2), le64_val (p 3)]"
    unfolding ecc_bytes2native_def u using r(1) [of 0] r(1) [of 1] r(1) [of 2] r(1) [of 3] by simp
  moreover have "take 32 b = p 0 @ p 1 @ p 2 @ p 3"
    unfolding p_def using take_add [of 8 24 b] take_add [of 8 16 "drop 8 b"] take_add [of 8 8 "drop 16 b"] by simp
  ultimately show ?thesis
    using r(2) [of 0] r(2) [of 1] r(2) [of 2] r(2) [of 3]
    by (simp add: le_value_append le64_val_value algebra_simps)
qed

lemma native2bytes_length: "length (ecc_native2bytes v) = 8 * length v"
  by (induction v) (simp_all add: ecc_native2bytes_def)

lemma native2bytes_value: "le_value (ecc_native2bytes v) = vli_val v"
  by (induction v) (simp_all add: ecc_native2bytes_def le_value_append le_value_le64_bytes)

lemma native_bytes_native:
  assumes "four v"
  shows "ecc_bytes2native (ecc_native2bytes v @ r) = Some v"
proof -
  obtain w where w: "ecc_bytes2native (ecc_native2bytes v @ r) = Some w" "four w"
    "vli_val w = le_value (take 32 (ecc_native2bytes v @ r))"
    using bytes2native_value [of "ecc_native2bytes v @ r" "length r"] assms by (auto simp: native2bytes_length)
  then have "vli_val w = vli_val v" using assms by (simp add: native2bytes_length native2bytes_value)
  then show ?thesis using w assms vli_val_inj [of w v] by simp
qed

lemma le_value_inj: "length a = length b \<Longrightarrow> le_value a = le_value b \<Longrightarrow> a = b"
proof (induction a b rule: list_induct2)
  case (Cons x xs y ys)
  then have "uint x = uint y" "le_value xs = le_value ys"
    using digit_unique [of "uint x" "2 ^ 8" "le_value xs" "uint y" "le_value ys"] uint_u8_bound by auto
  then show ?case using Cons by (simp add: word_uint_eqI)
qed simp

lemma bytes_native_bytes:
  assumes "length b = 32" "ecc_bytes2native b = Some v"
  shows "ecc_native2bytes v = b"
  using bytes2native_value [of b 0] assms le_value_inj [of "ecc_native2bytes v" b]
  by (simp add: native2bytes_length native2bytes_value)

section \<open>The test of a point\<close>

definition on_curve :: "int \<Rightarrow> int \<Rightarrow> bool" where
  "on_curve x y \<longleftrightarrow> y * y mod prime_p = (x * x * x - 3 * x + vli_val curve_b) mod prime_p"

text \<open>None of the three products of the test loses a carry.\<close>

definition valid_point_exact :: "ecc_point \<Rightarrow> bool" where
  "valid_point_exact q \<longleftrightarrow>
     square_exact (ept_y q) \<and> square_exact (ept_x q) \<and>
     (case vli_mod_square_fast (ept_x q) of
        None \<Rightarrow> True
      | Some t \<Rightarrow> mult_exact (vli_mod_sub t [3, 0, 0, 0] curve_p) (ept_x q))"

lemma cmp_curve_p: "four v \<Longrightarrow> vli_cmp curve_p v = 1 \<longleftrightarrow> vli_val v < prime_p"
  using vli_cmp_sgn [of curve_p v] by (simp add: curve_p_value(1) sgn_if)

lemma curve_b_bound: "vli_val curve_b < prime_p"
  by (simp add: curve_b_def prime_p_def)

lemma mod_p_bounds: "0 \<le> x mod prime_p" "x mod prime_p < prime_p"
  using prime_p_bounds(1) by simp_all

lemma valid_point_value:
  assumes "four_point q"
  shows "\<exists>r. ecc_valid_point q = Some r \<and>
    (valid_point_exact q \<longrightarrow>
       r = (\<not> ecc_point_is_zero q \<and> vli_val (ept_x q) < prime_p \<and> vli_val (ept_y q) < prime_p \<and>
            on_curve (vli_val (ept_x q)) (vli_val (ept_y q))))"
proof -
  define X Y where "X = vli_val (ept_x q)" and "Y = vli_val (ept_y q)"
  have q: "four (ept_x q)" "four (ept_y q)" using assms by (simp_all add: four_point_def)
  obtain t1 where t1: "vli_mod_square_fast (ept_y q) = Some t1" "four t1"
    "vli_val t1 = (Y * Y - square_loss (ept_y q)) mod prime_p"
    using mod_square_fast_value [OF q(2)] by (auto simp: Y_def)
  obtain t2 where t2: "vli_mod_square_fast (ept_x q) = Some t2" "four t2"
    "vli_val t2 = (X * X - square_loss (ept_x q)) mod prime_p"
    using mod_square_fast_value [OF q(1)] by (auto simp: X_def)
  define t3 where "t3 = vli_mod_sub t2 [3, 0, 0, 0] curve_p"
  have "vli_val [3, 0, 0, 0] < prime_p" by (simp add: prime_p_def)
  moreover have "vli_val t2 < prime_p" unfolding t2(3) by (rule mod_p_bounds)
  ultimately have t3: "vli_val t3 = (vli_val t2 - 3) mod prime_p" "four t3"
    using vli_mod_sub_value [of t2 curve_p "[3, 0, 0, 0]"] t2(2) by (simp_all add: t3_def curve_p_value(1))
  obtain t4 where t4: "vli_mod_mult_fast t3 (ept_x q) = Some t4" "four t4"
    "vli_val t4 = (vli_val t3 * X - mult_loss t3 (ept_x q)) mod prime_p"
    using mod_mult_fast_value [OF t3(2) q(1)] by (auto simp: X_def)
  define t5 where "t5 = vli_mod_add t4 curve_b curve_p"
  have "vli_val t4 < prime_p" unfolding t4(3) by (rule mod_p_bounds)
  then have t5: "vli_val t5 = (vli_val t4 + vli_val curve_b) mod prime_p" "four t5"
    using vli_mod_add_value [of t4 curve_p curve_b] t4(2) curve_b_bound by (simp_all add: t5_def curve_p_value(1))
  have run: "ecc_valid_point q = Some (\<not> ecc_point_is_zero q \<and> X < prime_p \<and> Y < prime_p \<and> vli_equal t1 t5)"
    using q t1(1) t2(1) t4(1) by (auto simp: ecc_valid_point_def cmp_curve_p X_def Y_def t3_def t5_def Let_def)
  have "vli_equal t1 t5 \<longleftrightarrow> on_curve X Y" if "valid_point_exact q"
  proof -
    have "vli_val t1 = Y * Y mod prime_p" using that t1(3) by (simp add: valid_point_exact_def exact_loss)
    moreover have "vli_val t5 = (((X * X) mod prime_p - 3) mod prime_p * X mod prime_p + vli_val curve_b) mod prime_p"
      using that t2 t3 t4 t5 by (simp add: valid_point_exact_def t3_def exact_loss)
    then have "vli_val t5 = ((X * X - 3) * X + vli_val curve_b) mod prime_p" by (simp add: mod_simps)
    ultimately show ?thesis using vli_equal_val [of t1 t5] t1(2) t5(2) by (simp add: on_curve_def algebra_simps)
  qed
  then show ?thesis using run by (auto simp: X_def Y_def)
qed

section \<open>Keys\<close>

lemma four_G: "four_point curve_g"
  by (simp add: four_point_def curve_g_def)

lemma curve_n_cmp: "four v \<Longrightarrow> vli_cmp curve_n v = 1 \<longleftrightarrow> vli_val v < vli_val curve_n"
  using vli_cmp_sgn [of curve_n v] by (simp add: sgn_if)

lemma make_public_key_value:
  assumes "length k = 32"
  shows "\<exists>v q. ecc_bytes2native k = Some v \<and> vli_val v = le_value k \<and>
    ecc_point_mult curve_g v None (vli_num_bits v) = Some q \<and> four_point q \<and>
    ecc_make_public_key k =
      Some (if le_value k = 0 \<or> vli_val curve_n \<le> le_value k \<or> ecc_point_is_zero q then None
            else Some (ecc_native2bytes (ept_x q) @ ecc_native2bytes (ept_y q)))"
proof -
  obtain v where v: "ecc_bytes2native k = Some v" "four v" "vli_val v = le_value k"
    using bytes2native_value [of k 0] assms by auto
  obtain q where q: "ecc_point_mult curve_g v None (vli_num_bits v) = Some q" "four_point q"
    using ends_point_mult [OF four_G, of None v] by (auto simp: ends_with_def)
  show ?thesis
    using v q by (auto simp: ecc_make_public_key_def vli_is_zero_val curve_n_cmp)
qed

lemma make_key_loop_pair:
  assumes "\<And>t v. rnd t = Some v \<Longrightarrow> four v" "\<And>q. pk = Some q \<Longrightarrow> ecc_point_is_zero q"
    "make_key_loop rnd t pk = Some (Some (priv, q))"
  shows "four priv \<and> \<not> vli_is_zero priv \<and> vli_cmp curve_n priv = 1 \<and> \<not> ecc_point_is_zero q \<and>
         ecc_point_mult curve_g priv None (vli_num_bits priv) = Some q"
  using assms
proof (induction rnd t pk rule: make_key_loop.induct)
  case (1 rnd t pk)
  obtain v where v: "rnd t = Some v" "t < 16"
    using "1.prems"(3) by (subst (asm) make_key_loop.simps) (auto split: option.splits if_splits)
  show ?case
  proof (cases "vli_is_zero v \<or> vli_cmp curve_n v \<noteq> 1")
    case True
    obtain z where z: "pk = Some z"
      using "1.prems"(3) v True by (subst (asm) make_key_loop.simps) (auto split: option.splits if_splits)
    then have "make_key_loop rnd t pk = make_key_loop rnd (Suc t) pk"
      using "1.prems"(2) v True by (subst make_key_loop.simps) auto
    then show ?thesis using "1.IH"(1) [OF v(1) _ True z] "1.prems" z v(2) by auto
  next
    case False
    obtain w where w: "ecc_point_mult curve_g v None (vli_num_bits v) = Some w"
      using "1.prems"(3) v False by (subst (asm) make_key_loop.simps) (auto split: option.splits if_splits)
    show ?thesis
    proof (cases "ecc_point_is_zero w")
      case True
      then have "make_key_loop rnd t pk = make_key_loop rnd (Suc t) (Some w)"
        using v False w by (subst make_key_loop.simps) auto
      then show ?thesis using "1.IH"(2) [OF v(1) _ False w True] "1.prems" v(2) True by auto
    next
      case False2: False
      then have "priv = v \<and> q = w"
        using "1.prems"(3) v False w by (subst (asm) make_key_loop.simps) auto
      then show ?thesis using False False2 w "1.prems"(1) v(1) by auto
    qed
  qed
qed

lemma make_key_pair:
  assumes "\<And>t v. rnd t = Some v \<Longrightarrow> four v" "ecc_make_key rnd = Some (Some (pub, prv))"
  shows "ecc_make_public_key prv = Some (Some pub)" "length prv = 32"
proof -
  obtain priv q where k: "make_key_loop rnd 0 None = Some (Some (priv, q))"
    and pub: "pub = ecc_native2bytes (ept_x q) @ ecc_native2bytes (ept_y q)" "prv = ecc_native2bytes priv"
    using assms(2) by (auto simp: ecc_make_key_def)
  have p: "four priv" "\<not> vli_is_zero priv" "vli_cmp curve_n priv = 1" "\<not> ecc_point_is_zero q"
    "ecc_point_mult curve_g priv None (vli_num_bits priv) = Some q"
    using make_key_loop_pair [OF assms(1) _ k] by simp_all
  show "length prv = 32" using p(1) by (simp add: pub native2bytes_length)
  show "ecc_make_public_key prv = Some (Some pub)"
    using p native_bytes_native [OF p(1), of "[]"] by (simp add: ecc_make_public_key_def pub)
qed

section \<open>What the arithmetic and the keys guarantee\<close>

text \<open>
  C28: The reduction modulo the prime of the curve ends for every product of eight digits and gives
  its remainder, in four digits.
\<close>

theorem vli_mmod_fast_correct:
  assumes "length product = 8"
  shows "\<exists>r. vli_mmod_fast product = Some r \<and> length r = 4 \<and> vli_val r = vli_val product mod vli_val curve_p"
  using mmod_fast_value [OF assms] by (simp add: curve_p_value)

theorem vli_mmod_fast_correct_witness:
  "\<exists>r. vli_mmod_fast (replicate 8 0xffffffffffffffff) = Some r \<and> length r = 4 \<and>
       vli_val r = vli_val (replicate 8 0xffffffffffffffff) mod vli_val curve_p"
  using vli_mmod_fast_correct [of "replicate 8 0xffffffffffffffff"] by simp

text \<open>
  C27: The inversion ends for every number that is not zero and every odd modulus, and its answer times
  the number is their greatest common divisor modulo the modulus: the inverse when they are coprime.
\<close>

theorem vli_mod_inv_correct:
  assumes "length x = 4" "length m = 4" "odd (vli_val m)" "1 < vli_val m" "\<not> vli_is_zero x"
  shows "\<exists>r. vli_mod_inv x m = Some r \<and> vli_val r < vli_val m \<and>
             vli_val r * vli_val x mod vli_val m = gcd (vli_val x) (vli_val m) mod vli_val m"
  using mod_inv_value [OF assms(1-4)] assms(5) by (auto simp: vli_is_zero_val)

theorem vli_mod_inv_correct_witness:
  "\<exists>r. vli_mod_inv [6, 0, 0, 0] curve_p = Some r \<and> vli_val r < vli_val curve_p \<and>
       vli_val r * vli_val [6, 0, 0, 0] mod vli_val curve_p =
         gcd (vli_val [6, 0, 0, 0]) (vli_val curve_p) mod vli_val curve_p"
proof (rule vli_mod_inv_correct)
  show "odd (vli_val curve_p)" "1 < vli_val curve_p" by (simp_all add: curve_p_def)
qed simp_all

text \<open>
  The product and the square of numbers of four digits are exact but for the carries that the
  accumulator misses, which are never added back: \<open>mult_loss\<close> and \<open>square_loss\<close> are what is
  missing from the result.
\<close>

theorem vli_products_but_for_lost_carries:
  assumes "length left = 4" "length right = 4"
  shows "vli_val (vli_mult left right) + mult_loss left right = vli_val left * vli_val right \<and>
         vli_val (vli_square left) + square_loss left = vli_val left * vli_val left \<and>
         0 \<le> mult_loss left right \<and> 0 \<le> square_loss left"
  using vli_mult_value [OF assms] vli_square_value [OF assms(1)]
  by (simp add: mult_loss_def square_loss_def columns_loss_nonneg)

theorem vli_products_but_for_lost_carries_witness:
  "vli_val (vli_mult [0, 1, 2, 3] [4, 5, 6, 7]) + mult_loss [0, 1, 2, 3] [4, 5, 6, 7] =
     vli_val [0, 1, 2, 3] * vli_val [4, 5, 6, 7]"
  using vli_products_but_for_lost_carries [of "[0, 1, 2, 3]" "[4, 5, 6, 7]"] by simp

text \<open>
  C25: The test of a point always answers; when none of its products loses a carry the answer is true
  exactly for the points other than zero whose coordinates are below the prime and satisfy the curve
  equation.
\<close>

theorem ecc_valid_point_correct:
  assumes "length (ept_x q) = 4" "length (ept_y q) = 4" "valid_point_exact q"
  shows "ecc_valid_point q =
    Some (\<not> ecc_point_is_zero q \<and> vli_val (ept_x q) < vli_val curve_p \<and> vli_val (ept_y q) < vli_val curve_p \<and>
          on_curve (vli_val (ept_x q)) (vli_val (ept_y q)))"
  using valid_point_value [of q] assms by (auto simp: four_point_def curve_p_value)

theorem ecc_valid_point_correct_witness:
  "ecc_valid_point \<lparr>ept_x = [5, 0, 0, 0], ept_y = [1, 0, 0, 0]\<rparr> =
    Some (\<not> ecc_point_is_zero \<lparr>ept_x = [5, 0, 0, 0], ept_y = [1, 0, 0, 0]\<rparr> \<and>
          vli_val [5, 0, 0, 0] < vli_val curve_p \<and> vli_val [1, 0, 0, 0] < vli_val curve_p \<and>
          on_curve (vli_val [5, 0, 0, 0]) (vli_val [1, 0, 0, 0]))"
proof -
  have "valid_point_exact \<lparr>ept_x = [5, 0, 0, 0], ept_y = [1, 0, 0, 0]\<rparr>" by code_simp
  then show ?thesis
    using ecc_valid_point_correct [of "\<lparr>ept_x = [5, 0, 0, 0], ept_y = [1, 0, 0, 0]\<rparr>"] by simp
qed

text \<open>
  Three numbers for which a square loses a carry, and what the operations of the test compute.
\<close>

definition lossy_x :: vli where
  "lossy_x = [0x808a05a6c4647159, 0x7204e52db2221a58, 0xfeed1d1b38dec0c2, 0xcd447e35b8b6d8fe]"

definition refused_y :: vli where
  "refused_y = [0xb5dfc03393f55ad4, 0x0d5350e081fe1eea, 0x30ab54b83524c8df, 0x6466c92fa7348609]"

definition accepted_y :: vli where
  "accepted_y = [0x83a413671785aaa0, 0xa2b55e712261a73c, 0x71ad65b6cddbdba6, 0x37155b85dcad3bef]"

lemma lossy_x_square: "vli_mod_square_fast lossy_x =
  Some [0x91e4ab0e79825395, 0x3111e862e5cb42d0, 0x4bf97d3f74d83c30, 0x494486a0d19a3e20]"
  by code_simp

lemma refused_y_square: "vli_mod_square_fast refused_y =
  Some [0xc2cc81d62202a6e2, 0xbd33a12799ba83b8, 0xf9553914229c587e, 0x4df55986a090d407]"
  by code_simp

lemma accepted_y_square: "vli_mod_square_fast accepted_y =
  Some [0x4de796e93f9bcbea, 0x7ab22d64fa7bf883, 0xe0efce302cf9e3c4, 0x7db64aec21e4a685]"
  by code_simp

lemma lossy_x_cube: "vli_mod_mult_fast
  [0x91e4ab0e79825392, 0x3111e862e5cb42d0, 0x4bf97d3f74d83c30, 0x494486a0d19a3e20] lossy_x =
  Some [0x12195aab17c96b9f, 0x159526b42e28478d, 0x2d0410dab6615d08, 0x22f0151377aa129e]"
  by code_simp

lemma lossy_x_equation:
  "vli_mod_sub [0x91e4ab0e79825395, 0x3111e862e5cb42d0, 0x4bf97d3f74d83c30, 0x494486a0d19a3e20] [3, 0, 0, 0] curve_p =
     [0x91e4ab0e79825392, 0x3111e862e5cb42d0, 0x4bf97d3f74d83c30, 0x494486a0d19a3e20]"
  "vli_mod_add [0x12195aab17c96b9f, 0x159526b42e28478d, 0x2d0410dab6615d08, 0x22f0151377aa129e] curve_b curve_p =
     [0x4de796e93f9bcbea, 0x7ab22d64fa7bf883, 0xe0efce302cf9e3c4, 0x7db64aec21e4a685]"
  by code_simp+

lemma lossy_points_below_p:
  "vli_cmp curve_p lossy_x = 1" "vli_cmp curve_p refused_y = 1" "vli_cmp curve_p accepted_y = 1"
  "\<not> vli_is_zero lossy_x"
  by (simp_all add: vli_cmp_def curve_p_def lossy_x_def refused_y_def accepted_y_def)

lemma lossy_values:
  "vli_val lossy_x = 0xcd447e35b8b6d8fefeed1d1b38dec0c27204e52db2221a58808a05a6c4647159"
  "vli_val refused_y = 0x6466c92fa734860930ab54b83524c8df0d5350e081fe1eeab5dfc03393f55ad4"
  "vli_val accepted_y = 0x37155b85dcad3bef71ad65b6cddbdba6a2b55e712261a73c83a413671785aaa0"
  "vli_val curve_b = 0x5ac635d8aa3a93e7b3ebbd55769886bc651d06b0cc53b0f63bce3c3e27d2604b"
  "vli_val curve_p = 0xffffffff00000001000000000000000000000000ffffffffffffffffffffffff" "prime_p = 0xffffffff00000001000000000000000000000000ffffffffffffffffffffffff"
  by (simp_all add: lossy_x_def refused_y_def accepted_y_def curve_b_def curve_p_def prime_p_def)

text \<open>The values of the two sides of the curve equation differ by a multiple of the prime, and by no multiple of it.\<close>

lemma lossy_sides:
  "vli_val lossy_x * vli_val lossy_x * vli_val lossy_x - 3 * vli_val lossy_x + vli_val curve_b =
     vli_val refused_y * vli_val refused_y +
     0x83f8c483668b37afa27cd0af1bd69a5fe2ccebff422dec0c4e9decce52b88e508a25dab1ea2349256b681d7b9cc9708db425ac244ae16a416ed1a49d3141ce87 * prime_p"
  "vli_val lossy_x * vli_val lossy_x * vli_val lossy_x - 3 * vli_val lossy_x + vli_val curve_b =
     vli_val accepted_y * vli_val accepted_y + 0xd03f0e997eac2d8318656ae3f5a274ba428173c39f3e8b3574e4eaece266daf7 +
     0x83f8c483668b37afa27cd0af1bd69a5fe2ccebff422dec0c4e9decce52b88e50a5ac220886de9f6e4bf72896b24fb9d7327d917946603b92b0e704cf1d9fcdee * prime_p"
  unfolding lossy_values by simp_all

lemma lossy_equation:
  "on_curve (vli_val lossy_x) (vli_val refused_y)" "\<not> on_curve (vli_val lossy_x) (vli_val accepted_y)"
proof -
  show "on_curve (vli_val lossy_x) (vli_val refused_y)" unfolding on_curve_def lossy_sides(1) by simp
  have "(0 :: int) < 0xd03f0e997eac2d8318656ae3f5a274ba428173c39f3e8b3574e4eaece266daf7" "0xd03f0e997eac2d8318656ae3f5a274ba428173c39f3e8b3574e4eaece266daf7 < prime_p"
    by (simp_all add: prime_p_def)
  then have "\<not> prime_p dvd - 0xd03f0e997eac2d8318656ae3f5a274ba428173c39f3e8b3574e4eaece266daf7" using zdvd_not_zless by fastforce
  then show "\<not> on_curve (vli_val lossy_x) (vli_val accepted_y)"
    unfolding on_curve_def lossy_sides(2) mod_mult_self1 by (subst mod_eq_dvd_iff) (simp del: dvd_minus_iff)
qed

lemmas lossy_points = lossy_x_square refused_y_square accepted_y_square lossy_x_cube lossy_x_equation
  lossy_points_below_p

text \<open>
  C26: A carry lost in a square makes the test of a point wrong both ways: a point of the curve is
  refused, and a point that is not on the curve, with both coordinates below the prime, is accepted.
\<close>

theorem ecc_valid_point_wrong_on_lost_carry:
  "on_curve (vli_val lossy_x) (vli_val refused_y) \<and> \<not> on_curve (vli_val lossy_x) (vli_val accepted_y) \<and>
   vli_val lossy_x < vli_val curve_p \<and> vli_val refused_y < vli_val curve_p \<and> vli_val accepted_y < vli_val curve_p \<and>
   ecc_valid_point \<lparr>ept_x = lossy_x, ept_y = refused_y\<rparr> = Some False \<and>
   ecc_valid_point \<lparr>ept_x = lossy_x, ept_y = accepted_y\<rparr> = Some True"
proof (intro conjI)
  show "on_curve (vli_val lossy_x) (vli_val refused_y)" "\<not> on_curve (vli_val lossy_x) (vli_val accepted_y)"
    by (rule lossy_equation)+
  show "vli_val lossy_x < vli_val curve_p" "vli_val refused_y < vli_val curve_p" "vli_val accepted_y < vli_val curve_p"
    unfolding lossy_values by simp_all
  show "ecc_valid_point \<lparr>ept_x = lossy_x, ept_y = refused_y\<rparr> = Some False"
    "ecc_valid_point \<lparr>ept_x = lossy_x, ept_y = accepted_y\<rparr> = Some True"
    by (simp_all add: ecc_valid_point_def ecc_point_is_zero_def lossy_points Let_def vli_equal_def)
qed

text \<open>
  Making the public key comes to an end, with defined behaviour, for every private key of 32
  bytes: the scalar multiplication and its inversion always finish. It refuses zero and the numbers
  that are not below the order of the curve, and an answer has 64 bytes.
\<close>

theorem ecc_make_public_key_range:
  assumes "length k = 32"
  shows "\<exists>r. ecc_make_public_key k = Some r \<and> (\<forall>pub. r = Some pub \<longrightarrow> length pub = 64) \<and>
             (le_value k = 0 \<or> vli_val curve_n \<le> le_value k \<longrightarrow> r = None)"
  using make_public_key_value [OF assms] by (auto simp: native2bytes_length four_point_def)

theorem ecc_make_public_key_range_witness:
  "\<exists>r. ecc_make_public_key (replicate 32 0xff) = Some r \<and> (\<forall>pub. r = Some pub \<longrightarrow> length pub = 64) \<and>
       (le_value (replicate 32 0xff) = 0 \<or> vli_val curve_n \<le> le_value (replicate 32 0xff) \<longrightarrow> r = None)"
  by (rule ecc_make_public_key_range) simp

text \<open>
  C37: When the first random number is not a private key the loop of \<open>ecc_make_key\<close> tests a point
  that no try has set, so it has no defined result: it does not take another number.
\<close>

theorem ecc_make_key_tests_unset_point:
  assumes "rnd 0 = Some v" "vli_is_zero v \<or> vli_cmp curve_n v \<noteq> 1"
  shows "ecc_make_key rnd = None"
  using assms by (auto simp: ecc_make_key_def make_key_loop.simps)

theorem ecc_make_key_tests_unset_point_witness:
  "ecc_make_key (\<lambda>t. Some (if t = 0 then curve_n else [1, 0, 0, 0])) = None"
  by (rule ecc_make_key_tests_unset_point [of _ curve_n]) (simp_all add: vli_cmp_def curve_n_def)

text \<open>
  The byte form of a key is little endian and loses nothing: numbers of four digits and 32
  bytes are read back as they were written, whatever follows them.
\<close>

theorem ecc_native_bytes_roundtrip:
  assumes "length v = 4" "length b = 32"
  shows "ecc_bytes2native (ecc_native2bytes v @ r) = Some v \<and> le_value (ecc_native2bytes v) = vli_val v \<and>
         map_option ecc_native2bytes (ecc_bytes2native b) = Some b"
  using native_bytes_native [OF assms(1)] native2bytes_value bytes_native_bytes [OF assms(2)]
    bytes2native_value [of b 0] assms(2) by auto

theorem ecc_native_bytes_roundtrip_witness:
  "ecc_bytes2native (ecc_native2bytes curve_n @ [7]) = Some curve_n \<and>
   le_value (ecc_native2bytes curve_n) = vli_val curve_n \<and>
   map_option ecc_native2bytes (ecc_bytes2native (replicate 32 9)) = Some (replicate 32 9)"
  by (rule ecc_native_bytes_roundtrip) (simp_all add: curve_n_def)

end
