(* ===== verification/Ecc_Sample.thy ===== *)
theory Ecc_Sample
  imports Ecc_Inverse
begin

text \<open>
  A key pair that is computed in the logic. The field operations are rewritten on the values of their numbers,
  \<open>digits n\<close> being the number of value \<open>n\<close>, where no carry of a product is lost; the point multiplication for the
  private key 3 is then a calculation with integers.
\<close>

section \<open>Numbers from their values\<close>

definition digits :: "int \<Rightarrow> vli" where
  "digits n = map word_of_int [n, n div 2 ^ 64, n div 2 ^ 128, n div 2 ^ 192]"

lemma length_digits [simp]: "length (digits n) = 4"
  by (simp add: digits_def)

lemma digit_split: "(n :: int) mod b + b * (n div b mod c) = n mod (b * c)" if "0 < b" "0 < c" for b c :: int
  using that by (simp add: zmod_zmult2_eq)

lemma vli_val_digits:
  assumes "0 \<le> n" and "n < 2 ^ 256"
  shows "vli_val (digits n) = n"
proof -
  have u: "uint (word_of_int k :: u64) = k mod 2 ^ 64" for k by (simp add: uint_word_of_int)
  have d: "n div 2 ^ 128 = n div 2 ^ 64 div 2 ^ 64" "n div 2 ^ 192 = n div 2 ^ 64 div 2 ^ 64 div 2 ^ 64"
    by (simp_all add: zdiv_zmult2_eq [symmetric])
  have "n div 2 ^ 64 div 2 ^ 64 div 2 ^ 64 < 2 ^ 64"
    using assms(2) by (simp add: zdiv_zmult2_eq [symmetric] div_less_iff_less_mult)
  moreover have "0 \<le> n div 2 ^ 64 div 2 ^ 64 div 2 ^ 64" using assms(1) by (simp add: pos_imp_zdiv_nonneg_iff)
  ultimately have top: "n div 2 ^ 64 div 2 ^ 64 div 2 ^ 64 mod 2 ^ 64 = n div 2 ^ 64 div 2 ^ 64 div 2 ^ 64"
    by (rule mod_pos_pos_trivial [rotated])
  have "k mod 2 ^ 64 + 2 ^ 64 * (k div 2 ^ 64) = k" for k :: int by (rule mod_mult_div_eq)
  then show ?thesis unfolding digits_def list.map vli_val.simps u d top mult_zero_right add_0_right by simp
qed

lemma digits_val: "length v = 4 \<Longrightarrow> digits (vli_val v) = v"
  using vli_val_inj [of "digits (vli_val v)" v] vli_val_digits [of "vli_val v"] vli_val_bound4 [of v] vli_val_nonneg [of v]
  by simp

lemma prime_p_numeral: "prime_p = 0xffffffff00000001000000000000000000000000ffffffffffffffffffffffff"
  by (simp add: prime_p_def)

lemma digits_eqI: "length s = 4 \<Longrightarrow> vli_val s = n \<Longrightarrow> s = digits n"
  using digits_val by metis

section \<open>Products that lose no carry\<close>

text \<open>A carry is lost only where the high word of the accumulator is all ones; its upper 16 bits are looked at.\<close>

fun sums_seen :: "int list \<Rightarrow> int \<Rightarrow> bool" where
  "sums_seen [] a = True"
| "sums_seen (t # ts) a = (take_bit 16 (drop_bit 112 a) \<noteq> 65535 \<and> sums_seen ts (a + t))"

fun columns_seen :: "int list list \<Rightarrow> int \<Rightarrow> bool" where
  "columns_seen [] a = True"
| "columns_seen (ts # tss) a = (sums_seen ts a \<and> columns_seen tss (drop_bit 64 (a + sum_list ts)))"

lemma low_div: "0 \<le> l \<Longrightarrow> l < b \<Longrightarrow> (l + b * h) div b = (h :: int)"
  by simp

lemma high_word: "val192 s div 2 ^ 64 mod 2 ^ 64 = uint (m_high (fst s))"
proof -
  have "val192 s = uint (m_low (fst s)) + 2 ^ 64 * (uint (m_high (fst s)) + 2 ^ 64 * uint (snd s))"
    by (simp add: val192_def val128_def)
  then have "val192 s div 2 ^ 64 = uint (m_high (fst s)) + 2 ^ 64 * uint (snd s)"
    by (simp only: low_div [OF uint_u64_bound])
  then show ?thesis using uint_u64_bound [of "m_high (fst s)"] by simp
qed

lemma high_ones: "m_high (fst s) = - 1 \<Longrightarrow> take_bit 16 (drop_bit 112 (val192 s)) = 65535"
proof -
  assume "m_high (fst s) = - 1"
  then have h: "val192 s div 2 ^ 64 mod 2 ^ 64 = 2 ^ 64 - 1"
    unfolding high_word by (simp add: unsigned_minus_1_eq_mask mask_eq_exp_minus_1)
  have "take_bit 16 (drop_bit 112 n) = n div 2 ^ 64 mod 2 ^ 64 div 2 ^ 48" for n :: int
    using drop_bit_take_bit [of 48 64 "drop_bit 64 n"] by (simp add: take_bit_eq_mod drop_bit_eq_div zdiv_zmult2_eq [symmetric])
  from this [of "val192 s"] show ?thesis unfolding h by simp
qed

lemma sums_seen_exact:
  assumes "\<forall>t\<in>set ts. uint (snd t) \<le> 1" and "uint (snd s) + 2 * int (length ts) < 2 ^ 63"
    and "sums_seen (map term_value ts) (val192 s)"
  shows "terms_exact ts s"
  using assms
proof (induction ts arbitrary: s)
  case (Cons t ts)
  have t: "uint (snd t) \<le> 1" using Cons.prems(1) by simp
  note v = acc_term_value [of s t]
  have "\<not> carry_lost (fst s) (fst t)"
    using Cons.prems(3) high_ones [of s] by (auto simp: carry_lost_def)
  moreover from this have "terms_exact ts (acc_term t s)"
    using Cons.prems t v by (intro Cons.IH) auto
  ultimately show ?case by simp
qed simp

lemma columns_seen_exact:
  assumes "\<forall>ts\<in>set tss. length ts \<le> 4 \<and> (\<forall>t\<in>set ts. uint (snd t) \<le> 1)" and "snd s = 0"
    and "columns_seen (map (map term_value) tss) (val192 s)"
  shows "columns_exact tss s"
  using assms
proof (induction tss arbitrary: s)
  case (Cons ts tss)
  let ?s = "fold acc_term ts s"
  have e: "terms_exact ts s" using Cons.prems by (intro sums_seen_exact) auto
  then have "val192 ?s = val192 s + sum_list (map term_value ts)"
    using fold_acc_value [of ts s] Cons.prems(1,2) by (auto simp: terms_exact_loss)
  then have "val192 (next_column ?s) = (val192 s + sum_list (map term_value ts)) div 2 ^ 64"
    using next_column_value [of ?s] low_div [OF uint_u64_bound] by metis
  then have "columns_exact tss (next_column ?s)"
    using Cons.prems unfolding drop_bit_eq_div [symmetric] by (intro Cons.IH) (auto simp: next_column_def)
  then show ?case using e by simp
qed simp

definition mult_seen :: "int \<Rightarrow> int \<Rightarrow> int \<Rightarrow> int \<Rightarrow> int \<Rightarrow> int \<Rightarrow> int \<Rightarrow> int \<Rightarrow> bool" where
  "mult_seen a b c d e f g h = columns_seen [[a * e], [a * f, b * e], [a * g, b * f, c * e],
     [a * h, b * g, c * f, d * e], [b * h, c * g, d * f], [c * h, d * g], [d * h]] 0"

definition square_seen :: "int \<Rightarrow> int \<Rightarrow> int \<Rightarrow> int \<Rightarrow> bool" where
  "square_seen a b c d = columns_seen [[a * a], [2 * (a * b)], [2 * (a * c), b * b], [2 * (a * d), 2 * (b * c)],
     [2 * (b * d), c * c], [2 * (c * d)], [d * d]] 0"

lemma val192_acc0: "val192 acc0 = 0"
  by (simp add: val192_def val128_def)

lemma mult_seen_exact:
  assumes "mult_seen (uint a) (uint b) (uint c) (uint d) (uint e) (uint f) (uint g) (uint h)"
  shows "mult_exact [a, b, c, d] [e, f, g, h]"
  unfolding mult_exact_def
proof (rule columns_seen_exact)
  let ?T = "mult_terms [a, b, c, d] [e, f, g, h]"
  have m: "map term_value (map (\<lambda>(x, y). (mul_64_64 x y, 0)) ps) = map (\<lambda>(x, y). uint x * uint y) ps" for ps
    by (induction ps) (auto simp: term_value_def mul_64_64_value)
  have "map (map term_value) (map ?T [0..<7]) = [[uint a * uint e], [uint a * uint f, uint b * uint e],
      [uint a * uint g, uint b * uint f, uint c * uint e],
      [uint a * uint h, uint b * uint g, uint c * uint f, uint d * uint e],
      [uint b * uint h, uint c * uint g, uint d * uint f], [uint c * uint h, uint d * uint g], [uint d * uint h]]"
    unfolding upt_7 by (simp add: mult_terms_unfold mult_terms_unfold(2) [simplified] term_value_def mul_64_64_value)
  then show "columns_seen (map (map term_value) (map ?T [0..<7])) (val192 acc0)"
    using assms unfolding mult_seen_def val192_acc0 by (simp only:)
  show "\<forall>ts\<in>set (map ?T [0..<7]). length ts \<le> 4 \<and> (\<forall>t\<in>set ts. uint (snd t) \<le> 1)"
    unfolding upt_7 by (simp add: mult_terms_unfold mult_terms_unfold(2) [simplified])
qed simp

lemma square_seen_exact:
  assumes "square_seen (uint a) (uint b) (uint c) (uint d)"
  shows "square_exact [a, b, c, d]"
  unfolding square_exact_def
proof (rule columns_seen_exact)
  have "map (map term_value) (map (square_terms [a, b, c, d]) [0..<7]) = [[uint a * uint a], [2 * (uint a * uint b)],
      [2 * (uint a * uint c), uint b * uint b], [2 * (uint a * uint d), 2 * (uint b * uint c)],
      [2 * (uint b * uint d), uint c * uint c], [2 * (uint c * uint d)], [uint d * uint d]]"
    unfolding upt_7 by (simp add: square_terms_unfold square_terms_unfold(2) [simplified])
  then show "columns_seen (map (map term_value) (map (square_terms [a, b, c, d]) [0..<7])) (val192 acc0)"
    using assms unfolding square_seen_def val192_acc0 by (simp only:)
  have "length (square_terms v k) \<le> 4" if "k < 7" for v k
    using that by (simp add: square_terms_def column_min_def) arith
  moreover have "uint (snd t) \<le> 1" if "t \<in> set (square_terms v k)" for t v k
    using that double_product_value(2) by (auto simp: square_terms_def Let_def)
  ultimately show "\<forall>ts\<in>set (map (square_terms [a, b, c, d]) [0..<7]). length ts \<le> 4 \<and> (\<forall>t\<in>set ts. uint (snd t) \<le> 1)"
    by auto
qed simp

section \<open>Field operations on values\<close>

text \<open>The four digits of a value.\<close>

abbreviation dig :: "nat \<Rightarrow> int \<Rightarrow> int" where
  "dig i n \<equiv> take_bit 64 (drop_bit (64 * i) n)"

lemma digits_uint: "digits n = map (\<lambda>i. word_of_int (dig i n)) [0, 1, 2, 3]"
  by (simp add: digits_def drop_bit_eq_div word_of_int_eq_iff)

lemma uint_dig: "uint (word_of_int (dig i n) :: u64) = dig i n"
  by (simp add: uint_word_of_int take_bit_eq_mod)

definition below_p :: "int \<Rightarrow> bool" where
  "below_p n \<longleftrightarrow> 0 \<le> n \<and> n < 0xffffffff00000001000000000000000000000000ffffffffffffffffffffffff"

lemma below_p_val: "below_p n \<Longrightarrow> vli_val (digits n) = n \<and> 0 \<le> n \<and> n < prime_p"
  using vli_val_digits [of n] by (simp add: below_p_def prime_p_numeral)

text \<open>A number is the value of another modulo the prime, which is a sum of five powers of 2, with the given quotient.\<close>

definition quotient_p :: "int \<Rightarrow> int \<Rightarrow> int \<Rightarrow> bool" where
  "quotient_p k n r \<longleftrightarrow> n + push_bit 224 k + k = r + push_bit 256 k + push_bit 192 k + push_bit 96 k"

lemma quotient_p_mod: "quotient_p k n r \<Longrightarrow> below_p r \<Longrightarrow> n mod prime_p = r"
proof -
  assume q: "quotient_p k n r" and r: "below_p r"
  have "n = r + k * prime_p" using q by (simp add: quotient_p_def push_bit_eq_mult prime_p_numeral)
  then have "n mod prime_p = r mod prime_p" by simp
  then show ?thesis using below_p_val [OF r] by simp
qed

lemma mult_digits:
  assumes "mult_seen (dig 0 a) (dig 1 a) (dig 2 a) (dig 3 a) (dig 0 b) (dig 1 b) (dig 2 b) (dig 3 b)"
    and "below_p a" and "below_p b" and "below_p r" and "quotient_p k (a * b) r"
  shows "vli_mod_mult_fast (digits a) (digits b) = Some (digits r)"
proof -
  have "mult_exact (digits a) (digits b)"
    unfolding digits_uint list.map by (rule mult_seen_exact) (use assms(1) in \<open>simp only: uint_dig\<close>)
  moreover obtain s where "vli_mod_mult_fast (digits a) (digits b) = Some s" "length s = 4"
    "vli_val s = (vli_val (digits a) * vli_val (digits b) - mult_loss (digits a) (digits b)) mod prime_p"
    using mod_mult_fast_value [of "digits a" "digits b"] by auto
  ultimately have s: "vli_mod_mult_fast (digits a) (digits b) = Some s" "length s = 4" "vli_val s = a * b mod prime_p"
    using below_p_val [OF assms(2)] below_p_val [OF assms(3)] by (simp_all add: exact_loss)
  show ?thesis unfolding s(1) using digits_eqI [OF s(2,3)] quotient_p_mod [OF assms(5,4)] by simp
qed

lemma square_digits:
  assumes "square_seen (dig 0 a) (dig 1 a) (dig 2 a) (dig 3 a)"
    and "below_p a" and "below_p r" and "quotient_p k (a * a) r"
  shows "vli_mod_square_fast (digits a) = Some (digits r)"
proof -
  have "square_exact (digits a)"
    unfolding digits_uint list.map by (rule square_seen_exact) (use assms(1) in \<open>simp only: uint_dig\<close>)
  moreover obtain s where "vli_mod_square_fast (digits a) = Some s" "length s = 4"
    "vli_val s = (vli_val (digits a) * vli_val (digits a) - square_loss (digits a)) mod prime_p"
    using mod_square_fast_value [of "digits a"] by auto
  ultimately have s: "vli_mod_square_fast (digits a) = Some s" "length s = 4" "vli_val s = a * a mod prime_p"
    using below_p_val [OF assms(2)] by (simp_all add: exact_loss)
  show ?thesis unfolding s(1) using digits_eqI [OF s(2,3)] quotient_p_mod [OF assms(4,3)] by simp
qed

lemma add_digits:
  assumes "below_p a" and "below_p b"
  shows "vli_mod_add (digits a) (digits b) curve_p =
    digits ((a + b) mod 0xffffffff00000001000000000000000000000000ffffffffffffffffffffffff)"
  using vli_mod_add_value [of "digits a" curve_p "digits b"] below_p_val [OF assms(1)] below_p_val [OF assms(2)] curve_p_value
  unfolding prime_p_numeral by (intro digits_eqI) simp_all

lemma sub_digits:
  assumes "below_p a" and "below_p b"
  shows "vli_mod_sub (digits a) (digits b) curve_p =
    digits ((a - b) mod 0xffffffff00000001000000000000000000000000ffffffffffffffffffffffff)"
  using vli_mod_sub_value [of "digits a" curve_p "digits b"] below_p_val [OF assms(1)] below_p_val [OF assms(2)] curve_p_value
  unfolding prime_p_numeral by (intro digits_eqI) simp_all

lemma inv_digits:
  assumes "below_p a" and "below_p r" and "quotient_p k (a * r) 1"
  shows "vli_mod_inv (digits a) curve_p = Some (digits r)"
proof -
  have one: "r * a mod prime_p = 1" using quotient_p_mod [OF assms(3)] by (simp add: below_p_def mult.commute)
  have a: "vli_val (digits a) = a" "0 \<le> r" "r < prime_p"
    using below_p_val [OF assms(1)] below_p_val [OF assms(2)] by simp_all
  have "a \<noteq> 0" using one by auto
  moreover have "odd (vli_val curve_p)" "1 < vli_val curve_p" by (simp_all add: curve_p_def)
  ultimately obtain s where s: "vli_mod_inv (digits a) curve_p = Some s" "length s = 4" "vli_val s < prime_p"
    "vli_val s * a mod prime_p = gcd a prime_p mod prime_p"
    using mod_inv_value [of "digits a" curve_p] a by (auto simp: curve_p_value)
  have "gcd a prime_p dvd r * a mod prime_p" by (simp add: dvd_mod)
  then have "gcd a prime_p = 1" unfolding one by simp
  then have sa: "vli_val s * a mod prime_p = 1 mod prime_p" using s(4) by simp
  have "r mod prime_p = (vli_val s * a mod prime_p) * r mod prime_p" unfolding sa by (simp add: mod_mult_left_eq)
  also have "\<dots> = vli_val s * (r * a mod prime_p) mod prime_p"
    by (simp only: mod_mult_left_eq mod_mult_right_eq) (simp add: ac_simps)
  finally have "vli_val s = r" using s(3) a(2,3) vli_val_nonneg [of s] by (simp add: one)
  then show ?thesis using s(1,2) digits_eqI by simp
qed

lemmas digit_ops = below_p_def mult_seen_def square_seen_def quotient_p_def

section \<open>The point of the private key 3\<close>

lemma op1: "vli_mod_square_fast (digits 0x1) =
  Some (digits 0x1)"
  by (rule square_digits [where k = "0x0"]) (simp_all add: digit_ops)

lemma op2: "vli_mod_mult_fast (digits 0x6b17d1f2e12c4247f8bce6e563a440f277037d812deb33a0f4a13945d898c296)
    (digits 0x1) =
  Some (digits 0x6b17d1f2e12c4247f8bce6e563a440f277037d812deb33a0f4a13945d898c296)"
  by (rule mult_digits [where k = "0x0"]) (simp_all add: digit_ops)

lemma op3: "vli_mod_mult_fast (digits 0x1)
    (digits 0x1) =
  Some (digits 0x1)"
  by (rule mult_digits [where k = "0x0"]) (simp_all add: digit_ops)

lemma op4: "vli_mod_mult_fast (digits 0x4fe342e2fe1a7f9b8ee7eb4a7c0f9e162bce33576b315ececbb6406837bf51f5)
    (digits 0x1) =
  Some (digits 0x4fe342e2fe1a7f9b8ee7eb4a7c0f9e162bce33576b315ececbb6406837bf51f5)"
  by (rule mult_digits [where k = "0x0"]) (simp_all add: digit_ops)

lemma op5: "vli_mod_square_fast (digits 0x4fe342e2fe1a7f9b8ee7eb4a7c0f9e162bce33576b315ececbb6406837bf51f5) =
  Some (digits 0x55df5d5850f47bad82149139979369fe498a9022a412b5e0bedd2cfc21c3ed91)"
  by (rule square_digits [where k = "0x18ee0d07e1cadf1365bd80dd843314dd534834655163ed44a7f051b975f0f918"]) (simp_all add: digit_ops)

lemma op6: "vli_mod_mult_fast (digits 0x6b17d1f2e12c4247f8bce6e563a440f277037d812deb33a0f4a13945d898c296)
    (digits 0x55df5d5850f47bad82149139979369fe498a9022a412b5e0bedd2cfc21c3ed91) =
  Some (digits 0xc6ff14fb47c6506c7b32914d0f06f28dceec6881a703920a2f170de2a9add9bb)"
  by (rule mult_digits [where k = "0x23ec598244955069477c03aadba751e416721108b87822aef550f2b400c0c4c5"]) (simp_all add: digit_ops)

lemma op7: "vli_mod_square_fast (digits 0x55df5d5850f47bad82149139979369fe498a9022a412b5e0bedd2cfc21c3ed91) =
  Some (digits 0xd9e1e190eba51c3e2e0ebc7bad04765ef484e3328c75ad1b110ac12128527ac3)"
  by (rule square_digits [where k = "0x1cce16e08476c43a7bddc43407d9a97a0c29408a41ea2081d0d71a75fef6aea2"]) (simp_all add: digit_ops)

lemma op8: "vli_mod_mult_fast (digits 0x6b17d1f2e12c4247f8bce6e563a440f277037d812deb33a0f4a13945d898c297)
    (digits 0x6b17d1f2e12c4247f8bce6e563a440f277037d812deb33a0f4a13945d898c295) =
  Some (digits 0x98f6b84d29bef2b281819a5e0e3690d833b699495d694dd1002ae56c426b3f8b)"
  by (rule mult_digits [where k = "0x2cccebb89adadb2d42e032c9f9d26319901d0e9589fc7dbbcf3d110b7c638fa8"]) (simp_all add: digit_ops)

lemma op9: "vli_mod_square_fast (digits 0x657214743e9e6c0b4242678d1551d9444d91e5ed8c1df4b98040582263a0df51) =
  Some (digits 0x74a40dce3ac10e430c28c1eed54d1cac7deba18be1df9b8825cd7ce637d1653b)"
  by (rule square_digits [where k = "0x283336fa1ac65be49ea758b17c4de6d952848a8b762617984644a991a9c32d9a"]) (simp_all add: digit_ops)

lemma op10: "vli_mod_mult_fast (digits 0x657214743e9e6c0b4242678d1551d9444d91e5ed8c1df4b98040582263a0df51)
    (digits 0xe05931249c91e301656ef1f857c7bafceed997f8132b1a966777acc1c53827f7) =
  Some (digits 0x206b29d9b94299c6eb52cc2c9ab040af174dbbe1d827e9530b5f8e75a6cd97e)"
  by (rule mult_digits [where k = "0x58e72a08841c0203d7d5777709f9076f1d739af11db5e1364f09537089780b57"]) (simp_all add: digit_ops)

lemma op11: "vli_mod_mult_fast (digits 0x55df5d5850f47bad82149139979369fe498a9022a412b5e0bedd2cfc21c3ed91)
    (digits 0x4fe342e2fe1a7f9b8ee7eb4a7c0f9e162bce33576b315ececbb6406837bf51f5) =
  Some (digits 0x71aec3f9cc1cb76d55fcb0a802d76056df0175f2096ff9c790a508412568119c)"
  by (rule mult_digits [where k = "0x1acc294ddb9513338f465717a5aaf0626e950c642c86cb649d4c2825708bd4d7"]) (simp_all add: digit_ops)

lemma op12: "vli_mod_mult_fast (digits 0x4fe342e2fe1a7f9b8ee7eb4a7c0f9e162bce33576b315ececbb6406837bf51f5)
    (digits 0x71aec3f9cc1cb76d55fcb0a802d76056df0175f2096ff9c790a508412568119c) =
  Some (digits 0xd9e1e190eba51c3e2e0ebc7bad04765ef484e3328c75ad1b110ac12128527ac3)"
  by (rule mult_digits [where k = "0x2379da25db9d48393ba681a6c472e096931a40456b23e725d442d224c6c34477"]) (simp_all add: digit_ops)

lemma op13: "vli_mod_square_fast (digits 0xe05931249c91e301656ef1f857c7bafceed997f8132b1a966777acc1c53827f7) =
  Some (digits 0xf869d9233832ac02c8f93f13e885c5cbbae211eb565ae5c7a9c338218ad9e785)"
  by (rule square_digits [where k = "0xc49c35140b7f68f1d10e637a422e428fb7380daabc06664753d193dfe28cb734"]) (simp_all add: digit_ops)

lemma op14: "vli_mod_mult_fast (digits 0xe6a5e3d5ab346d6c15c39f54b73f3790e012d08a93d87773c79f6120e475b1c3)
    (digits 0xf869d9233832ac02c8f93f13e885c5cbbae211eb565ae5c7a9c338218ad9e785) =
  Some (digits 0xc1227af93f74ec1cd57f2827ba274c7d5796d3b5768cc8848d46508a48d8a4ba)"
  by (rule mult_digits [where k = "0xdfd01264a9be4a726de4a4ebda79b4032763dab27cd412fba23380939801556b"]) (simp_all add: digit_ops)

lemma op15: "vli_mod_mult_fast (digits 0xc6ff14fb47c6506c7b32914d0f06f28dceec6881a703920a2f170de2a9add9bb)
    (digits 0xf869d9233832ac02c8f93f13e885c5cbbae211eb565ae5c7a9c338218ad9e785) =
  Some (digits 0x5fb50f7336e3c45474d2997ce50147cc7018df63c7ae35a3a8681b475101832a)"
  by (rule mult_digits [where k = "0xc11963bd630a004d3d28805e046882c52555b65867b3e2f83bd1d891ecb4a803"]) (simp_all add: digit_ops)

lemma op16: "vli_mod_mult_fast (digits 0x2824d10bafef0d5f40a670471ca68dabfceff88c910cd17a1fab37c6321a5eba)
    (digits 0x9e929478f76ed8389f5371552ad9fb4f18820baf51216d1f1b21cabd0828de6f) =
  Some (digits 0x96092a6a30eb48ee9d3f0cf940750868aea60e5a998f1cd37a0f10c2746940de)"
  by (rule mult_digits [where k = "0x18ddb54cc9073c7fd15d3e9bf5a9d9ed49105c551c859c24bbbaa7f93fc4e238"]) (simp_all add: digit_ops)

lemma op17: "vli_mod_square_fast (digits 0xb1bd10853bb60edeed684c34905de8b2f794eaa5fb68dba0f15f895af6381c09) =
  Some (digits 0xa112ac7df97b709b43ae716b92d6887b2bcaa8af22656bea39fa9b2e528a7597)"
  by (rule square_digits [where k = "0x7b66fc7a1dc3d4a9b6c65b346d6c152a229a228e70301c625f0760acbf887d46"]) (simp_all add: digit_ops)

lemma op18: "vli_mod_mult_fast (digits 0xb1bd10853bb60edeed684c34905de8b2f794eaa5fb68dba0f15f895af6381c09)
    (digits 0x40e758e8bc522bf1dc227860c679584bf37bde1e92625ac288fa212d90285708) =
  Some (digits 0x16988a6b6851832d0c0096db6dcc54aaaa06c48928bd4859d1bdeac85ea760f)"
  by (rule mult_digits [where k = "0x2d0fe375f7faf2ed73a7a1d82a01278f6ed1b4d1d9c148094d778b09513a86c7"]) (simp_all add: digit_ops)

lemma op19: "vli_mod_square_fast (digits 0x206b29d9b94299c6eb52cc2c9ab040af174dbbe1d827e9530b5f8e75a6cd97e) =
  Some (digits 0x808c99e0ad3c74c4bf245b218429dc1637c8927c05e933cbde168718eadbab0f)"
  by (rule square_digits [where k = "0x41af7527543f1f3a6822313a4065f701c3fa882143f5ddc252e8017c4d10b"]) (simp_all add: digit_ops)

lemma op20: "vli_mod_mult_fast (digits 0x9e929478f76ed8389f5371552ad9fb4f18820baf51216d1f1b21cabd0828de6f)
    (digits 0x206b29d9b94299c6eb52cc2c9ab040af174dbbe1d827e9530b5f8e75a6cd97e) =
  Some (digits 0xe39ca45fbce529b6175de57aeef37e447a22c38758aae1bde57ef6659017a2c)"
  by (rule mult_digits [where k = "0x1414b3bf985a629bf94eec6721b120e9383c49ad338af95d966dcd7d383e88a"]) (simp_all add: digit_ops)

lemma op21: "vli_mod_mult_fast (digits 0xdf79ed61b3c1042a7b75e9b5f153539b0bfde9cde383c7e1a41bebea98513577)
    (digits 0x78309fdacae309adc436d15e6e7a2f7b98fc1ddedbfb91486448dea3e498394d) =
  Some (digits 0x71db9726f1d832cd061789a46ed21806d5092844eabdbb9ae70de7a3e4d33150)"
  by (rule mult_digits [where k = "0x68eb99ae70e0028a3d3e83649a165597ba584323bfd369da62a3b58f44d69d85"]) (simp_all add: digit_ops)

lemma op22: "vli_mod_mult_fast (digits 0x71db9726f1d832cd061789a46ed21806d5092844eabdbb9ae70de7a3e4d33150)
    (digits 0x6b17d1f2e12c4247f8bce6e563a440f277037d812deb33a0f4a13945d898c296) =
  Some (digits 0xf557e6ec0dfc2bde5e0dee70231f4f557d060dee3f050759cdeb8811123f50e8)"
  by (rule mult_digits [where k = "0x2fa160485757d5445e4789c1e0bcbbe4df4a6e2725ffe8d819a271102ba1cc08"]) (simp_all add: digit_ops)

lemma op_inv: "vli_mod_inv (digits 0xf557e6ec0dfc2bde5e0dee70231f4f557d060dee3f050759cdeb8811123f50e8) curve_p =
  Some (digits 0x9c3c973f109b6a8617168f991cfb7219e66fb226689740fcef9c17d9ca0af447)"
  by (rule inv_digits [where k = "0x95bba245d7561530b3854d60877587282ac8605240e5baa88f9be4e75e436fa9"]) (simp_all add: digit_ops)

lemma op23: "vli_mod_mult_fast (digits 0x9c3c973f109b6a8617168f991cfb7219e66fb226689740fcef9c17d9ca0af447)
    (digits 0x4fe342e2fe1a7f9b8ee7eb4a7c0f9e162bce33576b315ececbb6406837bf51f5) =
  Some (digits 0x13e3d23f7dcb5788006ba83578c148e69148a63cc1c30593dddba575ea8de2ff)"
  by (rule mult_digits [where k = "0x30c16538eb5d26f5391db372a30f84cdf829c74feaba637fcb07d39a94cea40c"]) (simp_all add: digit_ops)

lemma op24: "vli_mod_mult_fast (digits 0x13e3d23f7dcb5788006ba83578c148e69148a63cc1c30593dddba575ea8de2ff)
    (digits 0x5fb50f7336e3c45474d2997ce50147cc7018df63c7ae35a3a8681b475101832a) =
  Some (digits 0xf3196c33e7922174bf91cfd7475b3951e89110389bd9d17f877f011995f7fa0e)"
  by (rule mult_digits [where k = "0x76f9c4c8aeeee0f1aeb7c6932204afe5622ac6cb05ed216333adba0ed893f38"]) (simp_all add: digit_ops)

lemma op25: "vli_mod_square_fast (digits 0xdf79ed61b3c1042a7b75e9b5f153539b0bfde9cde383c7e1a41bebea98513577) =
  Some (digits 0x718324751730fdbdc7f0052ce0b6961a5ef8f63024afa931d26e85ab16b01d14)"
  by (rule square_digits [where k = "0xc315a5a33cb9e3778517ae9ac3a77bccd1513af132f9f3c22c15c4dee6379fc3"]) (simp_all add: digit_ops)

lemma op26: "vli_mod_mult_fast (digits 0x803b22108322c02af95cafc6f3adf431641af596e42a6dc2044c2f5cb8b04db2)
    (digits 0x718324751730fdbdc7f0052ce0b6961a5ef8f63024afa931d26e85ab16b01d14) =
  Some (digits 0x87a734a3feab1253fa4df6343b6599b01f9ec6668f532c4203886ba810b555c)"
  by (rule mult_digits [where k = "0x38dbca8ee89ffa662f14f1a57fbe83f9be2ed7b4e6e5f93a44abd2c764181974"]) (simp_all add: digit_ops)

lemma op27: "vli_mod_mult_fast (digits 0x5fb50f7336e3c45474d2997ce50147cc7018df63c7ae35a3a8681b475101832a)
    (digits 0x718324751730fdbdc7f0052ce0b6961a5ef8f63024afa931d26e85ab16b01d14) =
  Some (digits 0x7fd6342715981de2d61d9366934f40a27b039cecb83bf13fb65a552eecad87c0)"
  by (rule mult_digits [where k = "0x2a6ff31a2a376be3ff7e52ace4bcb5e1700aac32922a55762befde11a3d38678"]) (simp_all add: digit_ops)

lemma op28: "vli_mod_square_fast (digits 0xcd0419f45493a6890b5d4e9f81272999d01bfefe2fed996413c10b9d317041d) =
  Some (digits 0x8e398e4bf06068bd939e1da4943f2a0e09c76573a4c94f5c5ed487d251edabc5)"
  by (rule square_digits [where k = "0xa42f91a2c5e850acfe21fdc8a275c318457ca3ade6ef3a1166030ec6a6c07c"]) (simp_all add: digit_ops)

lemma op29: "vli_mod_mult_fast (digits 0x6b605e3b8599cf453380fc747667bce1fbfa5deef8fcb7b2230ccdea11813530)
    (digits 0x775bc0dcd5ad6cbd9678b4034f98e7077909b0864f46be7b9621ce746ba23264) =
  Some (digits 0x7592f992c2d5dd9efbe81cab6bcbb8d5c29e9cfd23d0d77763a707ebdb4bac66)"
  by (rule mult_digits [where k = "0x321047f44370d07776f2db6871b492ec8023d168473bf5d62c761253100f85a6"]) (simp_all add: digit_ops)

lemma op30: "vli_mod_mult_fast (digits 0xcd0419f45493a6890b5d4e9f81272999d01bfefe2fed996413c10b9d317041d)
    (digits 0x2918c6fa50d176fc1c93488867cc9ca75301045e55d076b97f6dad19cd686b3) =
  Some (digits 0x16fcf9f4670882673b2ed210d26c6deb9116e355414e46f3adf9debf34aad04c)"
  by (rule mult_digits [where k = "0x20e97fe4542a6d2be3b4529adccdb210b6d9114e3c86366a175ee6732dc205"]) (simp_all add: digit_ops)

lemma op31: "vli_mod_square_fast (digits 0xf3196c33e7922174bf91cfd7475b3951e89110389bd9d17f877f011995f7fa0e) =
  Some (digits 0x1380ed5ed221913b765b7c432259f282a5523a4332984d316208739085932f2a)"
  by (rule square_digits [where k = "0xe6d945f1c057c1e867e798f62bcc5fb5338652e98cf7cbcdf1e6e78bbe4fd666"]) (simp_all add: digit_ops)

lemma op32: "vli_mod_mult_fast (digits 0x87a734a3feab1253fa4df6343b6599b01f9ec6668f532c4203886ba810b555c)
    (digits 0x1380ed5ed221913b765b7c432259f282a5523a4332984d316208739085932f2a) =
  Some (digits 0x5ecbe4d1a6330a44c8f7ef951d4bf165e6c6b721efada985fb41661bc6e7fd6c)"
  by (rule mult_digits [where k = "0xa55ba4a92b5dbdd57d746108a50e1e08555c16c5c182757e83b936b68c1854"]) (simp_all add: digit_ops)

lemma op33: "vli_mod_mult_fast (digits 0x1380ed5ed221913b765b7c432259f282a5523a4332984d316208739085932f2a)
    (digits 0xf3196c33e7922174bf91cfd7475b3951e89110389bd9d17f877f011995f7fa0e) =
  Some (digits 0xe05c8943b174119e4304a6c4a285a6d6bf01a0cb5aa68e65dded99f97f0922e3)"
  by (rule mult_digits [where k = "0x128551269ab57617a199c5cfee7b7203858279d4a5b22f2f7807d51081678a97"]) (simp_all add: digit_ops)

lemma op34: "vli_mod_mult_fast (digits 0x7592f992c2d5dd9efbe81cab6bcbb8d5c29e9cfd23d0d77763a707ebdb4bac66)
    (digits 0xe05c8943b174119e4304a6c4a285a6d6bf01a0cb5aa68e65dded99f97f0922e3) =
  Some (digits 0x8734640c4998ff7e374b06ce1a64a2ecd82ab036384fb83d9a79b127a27d5032)"
  by (rule mult_digits [where k = "0x670b1a3d40cb09f00e272e7af695ffd964f74e191463d4bd9629727e77e7e5c0"]) (simp_all add: digit_ops)

text \<open>The steps of the multiplication, on values.\<close>

lemma half_step:
  "vli_test_bit (digits 0xcae428e87d3cd8168484cf1a2aa3b2889b23cbdb183be9730080b044c741bea2) 0 = 0"
  "vli_rshift1 (digits 0xcae428e87d3cd8168484cf1a2aa3b2889b23cbdb183be9730080b044c741bea2) =
    digits 0x657214743e9e6c0b4242678d1551d9444d91e5ed8c1df4b98040582263a0df51"
  by code_simp+

lemma one_digits: "vli_is_zero (digits 1) = False" "1 # replicate 3 0 = digits 1"
  by code_simp+

lemma G_digits:
  "ept_x curve_g = digits 0x6b17d1f2e12c4247f8bce6e563a440f277037d812deb33a0f4a13945d898c296"
  "ept_y curve_g = digits 0x4fe342e2fe1a7f9b8ee7eb4a7c0f9e162bce33576b315ececbb6406837bf51f5"
  by code_simp+

lemmas products = op1 op2 op3 op4 op5 op6 op7 op8 op9 op10 op11 op12 op13 op14 op15 op16 op17 op18 op19 op20 op21 op22 op23 op24 op25 op26 op27 op28 op29 op30 op31 op32 op33 op34

lemma last_bit: "ladder_nb [3, 0, 0, 0] 0 = 0" "ladder_nb [1, 0, 0, 0] 0 = 0"
  by code_simp+

text \<open>The multiplication looks only at the lowest bit of a number of one or two bits.\<close>

lemma point_mult_three:
  "ecc_point_mult curve_g [3, 0, 0, 0] None 2 = Some
    \<lparr>ept_x = digits 0x5ecbe4d1a6330a44c8f7ef951d4bf165e6c6b721efada985fb41661bc6e7fd6c,
     ept_y = digits 0x8734640c4998ff7e374b06ce1a64a2ecd82ab036384fb83d9a79b127a27d5032\<rparr>"
  by (simp add: ecc_point_mult_def xycz_initial_double_def one_digits G_digits apply_z_def products op_inv
      ecc_point_double_jacobian_def half_step add_digits sub_digits digit_ops Let_def ladder_add_c_def ladder_add_def
      xycz_add_c_def xycz_add_def last_bit)

end
