(* ===== verification/Ecc_Make_Key.thy ===== *)
theory Ecc_Make_Key
  imports Ecc_Keys Ecc_Sample
begin

text \<open>
  The key pairs that \<open>ecc_make_key\<close> answers (\<open>src/shared/ecc.c\<close>), with one that is computed, and the private key 1,
  for which the point multiplication computes the point of 3.
\<close>

lemma make_key_loop_drawn:
  assumes "\<And>q. pk = Some q \<Longrightarrow> ecc_point_is_zero q" and "make_key_loop rnd t pk = Some (Some (priv, q))"
  shows "\<exists>u. t \<le> u \<and> u < 16 \<and> rnd u = Some priv"
  using assms
proof (induction rnd t pk rule: make_key_loop.induct)
  case (1 rnd t pk)
  obtain v where v: "rnd t = Some v" "t < 16"
    using "1.prems"(2) by (subst (asm) make_key_loop.simps) (auto split: option.splits if_splits)
  show ?case
  proof (cases "vli_is_zero v \<or> vli_cmp curve_n v \<noteq> 1")
    case True
    obtain z where z: "pk = Some z"
      using "1.prems"(2) v True by (subst (asm) make_key_loop.simps) (auto split: option.splits if_splits)
    then have "make_key_loop rnd t pk = make_key_loop rnd (Suc t) pk"
      using "1.prems"(1) v True by (subst make_key_loop.simps) auto
    then show ?thesis using "1.IH"(1) [OF v(1) _ True z] "1.prems" z v(2) Suc_leD by fastforce
  next
    case False
    obtain w where w: "ecc_point_mult curve_g v None (vli_num_bits v) = Some w"
      using "1.prems"(2) v False by (subst (asm) make_key_loop.simps) (auto split: option.splits if_splits)
    show ?thesis
    proof (cases "ecc_point_is_zero w")
      case True
      then have "make_key_loop rnd t pk = make_key_loop rnd (Suc t) (Some w)"
        using v False w by (subst make_key_loop.simps) auto
      then show ?thesis using "1.IH"(2) [OF v(1) _ False w True] "1.prems" v(2) True Suc_leD by fastforce
    next
      case False2: False
      then have "priv = v" using "1.prems"(2) v False w by (subst (asm) make_key_loop.simps) auto
      then show ?thesis using v by blast
    qed
  qed
qed

text \<open>The first number, when it is a private key with a public key.\<close>

lemma make_key_first:
  assumes "rnd 0 = Some v" and "length v = 4" and "ecc_make_public_key (ecc_native2bytes v) = Some (Some pub)"
  shows "ecc_make_key rnd = Some (Some (pub, ecc_native2bytes v))"
proof -
  have b: "ecc_bytes2native (ecc_native2bytes v) = Some v" using native_bytes_native [OF assms(2), of "[]"] by simp
  obtain q where q: "\<not> vli_is_zero v" "vli_cmp curve_n v = 1" "ecc_point_mult curve_g v None (vli_num_bits v) = Some q"
    "\<not> ecc_point_is_zero q" "pub = ecc_native2bytes (ept_x q) @ ecc_native2bytes (ept_y q)"
    using assms(3) b by (auto simp: ecc_make_public_key_def bind_eq_Some_conv split: if_splits)
  then show ?thesis using assms(1) by (simp add: ecc_make_key_def make_key_loop.simps)
qed

section \<open>A computed pair\<close>

definition three_public :: "u8 list" where
  "three_public =
     ecc_native2bytes (digits 0x5ecbe4d1a6330a44c8f7ef951d4bf165e6c6b721efada985fb41661bc6e7fd6c) @
     ecc_native2bytes (digits 0x8734640c4998ff7e374b06ce1a64a2ecd82ab036384fb83d9a79b127a27d5032)"

lemma small_scalars:
  "ecc_bytes2native (ecc_native2bytes [k, 0, 0, 0]) = Some [k, 0, 0, 0]"
  using native_bytes_native [of "[k, 0, 0, 0]" "[]"] by simp

lemma small_bits: "vli_num_bits [3, 0, 0, 0] = 2" "vli_num_bits [1, 0, 0, 0] = 1"
  by code_simp+

lemma small_range: "vli_cmp curve_n [3, 0, 0, 0] = 1" "vli_cmp curve_n [1, 0, 0, 0] = 1"
  by (simp_all add: vli_cmp_def curve_n_def)

lemma three_nonzero: "\<not> vli_is_zero (digits 0x5ecbe4d1a6330a44c8f7ef951d4bf165e6c6b721efada985fb41661bc6e7fd6c)"
  by code_simp

lemma public_three: "ecc_make_public_key (ecc_native2bytes [3, 0, 0, 0]) = Some (Some three_public)"
  by (simp add: ecc_make_public_key_def small_scalars small_bits small_range point_mult_three ecc_point_is_zero_def
      three_nonzero three_public_def)

text \<open>
  C36: Every key pair that \<open>ecc_make_key\<close> answers has as its private key one of the first 16 random numbers and as its
  public key the one \<open>ecc_make_public_key\<close> computes from it; and when the first random number has a public key,
  \<open>ecc_make_key\<close> does answer, with that pair.
\<close>

theorem ecc_make_key_pair_consistent:
  assumes "\<And>t v. rnd t = Some v \<Longrightarrow> length v = 4"
  shows "(\<forall>pub prv. ecc_make_key rnd = Some (Some (pub, prv)) \<longrightarrow> ecc_make_public_key prv = Some (Some pub) \<and>
      length prv = 32 \<and> (\<exists>t<16. \<exists>v. rnd t = Some v \<and> prv = ecc_native2bytes v)) \<and>
    (\<forall>v pub. rnd 0 = Some v \<and> ecc_make_public_key (ecc_native2bytes v) = Some (Some pub) \<longrightarrow>
      ecc_make_key rnd = Some (Some (pub, ecc_native2bytes v)))"
proof (intro conjI allI impI)
  fix pub prv
  assume k: "ecc_make_key rnd = Some (Some (pub, prv))"
  show "ecc_make_public_key prv = Some (Some pub)" "length prv = 32" using make_key_pair [OF assms k] by simp_all
  obtain priv q where "make_key_loop rnd 0 None = Some (Some (priv, q))" "prv = ecc_native2bytes priv"
    using k by (auto simp: ecc_make_key_def)
  then show "\<exists>t<16. \<exists>v. rnd t = Some v \<and> prv = ecc_native2bytes v"
    using make_key_loop_drawn [of None rnd 0 priv q] by auto
qed (use make_key_first assms in blast)

theorem ecc_make_key_pair_consistent_witness:
  "ecc_make_key (\<lambda>t. Some [3, 0, 0, 0]) = Some (Some (three_public, 3 # replicate 31 0)) \<and>
   ecc_make_public_key (3 # replicate 31 0) = Some (Some three_public)"
proof -
  have "ecc_native2bytes [3, 0, 0, 0] = 3 # replicate 31 0" by code_simp
  moreover have "ecc_make_key (\<lambda>t. Some [3, 0, 0, 0]) = Some (Some (three_public, ecc_native2bytes [3, 0, 0, 0]))"
  proof (rule ecc_make_key_pair_consistent [THEN conjunct2, rule_format])
    show "length v = 4" if "Some [3, 0, 0, 0] = Some v" for v :: vli using that by auto
    show "Some [3, 0, 0, 0] = Some [3, 0, 0, 0 :: u64] \<and>
        ecc_make_public_key (ecc_native2bytes [3, 0, 0, 0]) = Some (Some three_public)"
      using public_three by blast
  qed
  ultimately show ?thesis using public_three by simp
qed

section \<open>The private key 1\<close>

text \<open>
  The multiplication always takes the lowest bit of the scalar as one behind the top bit, also when it is the top bit:
  the private key 1 gets the public key of 3, which is not the base point.
\<close>

lemma point_mult_one: "ecc_point_mult q [1, 0, 0, 0] z 1 = ecc_point_mult q [3, 0, 0, 0] z 2"
  by (simp add: ecc_point_mult_def last_bit)

lemma public_one_is_three:
  "ecc_make_public_key (ecc_native2bytes [1, 0, 0, 0]) = Some (Some three_public)"
  "three_public \<noteq> ecc_native2bytes (ept_x curve_g) @ ecc_native2bytes (ept_y curve_g)"
proof -
  show "ecc_make_public_key (ecc_native2bytes [1, 0, 0, 0]) = Some (Some three_public)"
    using point_mult_three
    by (simp add: ecc_make_public_key_def small_scalars small_bits small_range point_mult_one [simplified] ecc_point_is_zero_def
        three_nonzero three_public_def)
  have "hd three_public \<noteq> hd (ecc_native2bytes (ept_x curve_g) @ ecc_native2bytes (ept_y curve_g))" by code_simp
  then show "three_public \<noteq> ecc_native2bytes (ept_x curve_g) @ ecc_native2bytes (ept_y curve_g)" by metis
qed

end
