(* ===== verification/Gatt_Db.thy ===== *)
theory Gatt_Db
  imports Att_Base
begin

text \<open>
  The database of a GATT server, \<open>src/shared/gatt-db.c\<close>: services and their attributes, how they
  are added, found and removed, and the clients that are told. A service lives at an address, an
  attribute pointer is the address of its service with the index in its array; one that leads nowhere
  is a use of freed memory, the value \<^const>\<open>None\<close>. The queues of the code are lists. Function
  pointers and user data are numbers, 0 is \<open>NULL\<close>; what they are called with is the log. The code
  touches no state of its own after such a call, so what a callback does to the database is the next
  operation. The database pointer is not \<open>NULL\<close>: the operations that test it do nothing then.
\<close>

section \<open>Data\<close>

type_synonym attr_ref = "nat \<times> nat"

text \<open>A pending read or write; the two structures have the same fields.\<close>

record gatt_pending =
  pd_id :: u32
  pd_timeout :: u32
  pd_func :: nat
  pd_user :: nat

text \<open>\<open>ga_value\<close> is the allocated block, which can be longer than \<open>value_len\<close> says.\<close>

record gatt_attr =
  ga_handle :: u16
  ga_uuid :: bt_uuid
  ga_permissions :: u32
  ga_value_len :: u16
  ga_value :: "u8 list option"
  ga_read_func :: nat
  ga_write_func :: nat
  ga_user_data :: nat
  ga_read_id :: u32
  ga_pending_reads :: "gatt_pending list"
  ga_write_id :: u32
  ga_pending_writes :: "gatt_pending list"

record gatt_service =
  sv_addr :: nat
  sv_active :: bool
  sv_claimed :: bool
  sv_num_handles :: u16
  sv_attributes :: "gatt_attr option list"

record gatt_notify =
  gn_id :: u32
  gn_added :: nat
  gn_removed :: nat
  gn_destroy :: nat
  gn_user :: nat

text \<open>What happens outside: calls of function pointers, and timers that are removed.\<close>

datatype gatt_event =
    Service_added nat attr_ref nat
  | Service_removed nat attr_ref nat
  | Notify_destroyed nat nat
  | Read_asked nat attr_ref u32 u16 u8 nat nat
  | Read_done nat attr_ref int "u8 list option" nat
  | Write_asked nat attr_ref u32 u16 "u8 list" u8 nat nat
  | Write_done nat attr_ref int nat
  | Timeout_removed u32

record gatt_db =
  db_ref_count :: int
  db_next_handle :: u16
  db_services :: "gatt_service list"
  db_notify_list :: "gatt_notify list"
  db_next_notify_id :: u32
  db_used :: nat
  db_log :: "gatt_event list"

definition primary_service_uuid :: bt_uuid where "primary_service_uuid = UUID16 0x2800"
definition secondary_service_uuid :: bt_uuid where "secondary_service_uuid = UUID16 0x2801"
definition included_service_uuid :: bt_uuid where "included_service_uuid = UUID16 0x2802"
definition characteristic_uuid :: bt_uuid where "characteristic_uuid = UUID16 0x2803"
definition ext_desc_uuid :: bt_uuid where "ext_desc_uuid = UUID16 0x2900"

abbreviation BT_ATT_PERM_READ :: u32 where "BT_ATT_PERM_READ \<equiv> 0x01"
abbreviation ECANCELED :: int where "ECANCELED \<equiv> 125"
abbreviation ETIMEDOUT :: int where "ETIMEDOUT \<equiv> 110"

definition db_event :: "gatt_event \<Rightarrow> gatt_db \<Rightarrow> gatt_db" where
  "db_event e db = db\<lparr>db_log := db_log db @ [e]\<rparr>"

text \<open>Following and writing through pointers.\<close>

definition db_service :: "gatt_db \<Rightarrow> nat \<Rightarrow> gatt_service option" where
  "db_service db addr = find (\<lambda>s. sv_addr s = addr) (db_services db)"

definition svc_attr :: "gatt_service \<Rightarrow> nat \<Rightarrow> gatt_attr option" where
  "svc_attr s i = Option.bind (buf_get (sv_attributes s) i) id"

definition db_attr :: "gatt_db \<Rightarrow> attr_ref \<Rightarrow> gatt_attr option" where
  "db_attr db r = Option.bind (db_service db (fst r)) (\<lambda>s. svc_attr s (snd r))"

definition update_service :: "nat \<Rightarrow> (gatt_service \<Rightarrow> gatt_service) \<Rightarrow> gatt_db \<Rightarrow> gatt_db" where
  "update_service addr f db =
     db\<lparr>db_services := map (\<lambda>s. if sv_addr s = addr then f s else s) (db_services db)\<rparr>"

definition set_slot :: "nat \<Rightarrow> gatt_attr \<Rightarrow> gatt_service \<Rightarrow> gatt_service" where
  "set_slot i a s = s\<lparr>sv_attributes := (sv_attributes s)[i := Some a]\<rparr>"

definition update_attr :: "attr_ref \<Rightarrow> gatt_attr \<Rightarrow> gatt_db \<Rightarrow> gatt_db" where
  "update_attr r a = update_service (fst r) (set_slot (snd r) a)"

section \<open>Attributes\<close>

definition set_attribute_data :: "nat \<Rightarrow> nat \<Rightarrow> u32 \<Rightarrow> nat \<Rightarrow> gatt_attr \<Rightarrow> gatt_attr" where
  "set_attribute_data read_func write_func permissions user_data a =
     a\<lparr>ga_permissions := permissions, ga_read_func := read_func, ga_write_func := write_func,
       ga_user_data := user_data\<rparr>"

definition pending_read_result ::
  "attr_ref \<Rightarrow> gatt_pending \<Rightarrow> int \<Rightarrow> u8 list option \<Rightarrow> gatt_db \<Rightarrow> gatt_db" where
  "pending_read_result r p err data db =
     (let db = (if 0 < pd_timeout p then db_event (Timeout_removed (pd_timeout p)) db else db)
      in db_event (Read_done (pd_func p) r err data (pd_user p)) db)"

definition pending_read_free :: "attr_ref \<Rightarrow> gatt_pending \<Rightarrow> gatt_db \<Rightarrow> gatt_db" where
  "pending_read_free r p = pending_read_result r p (- ECANCELED) None"

definition pending_write_result :: "attr_ref \<Rightarrow> gatt_pending \<Rightarrow> int \<Rightarrow> gatt_db \<Rightarrow> gatt_db" where
  "pending_write_result r p err db =
     (let db = (if 0 < pd_timeout p then db_event (Timeout_removed (pd_timeout p)) db else db)
      in db_event (Write_done (pd_func p) r err (pd_user p)) db)"

definition pending_write_free :: "attr_ref \<Rightarrow> gatt_pending \<Rightarrow> gatt_db \<Rightarrow> gatt_db" where
  "pending_write_free r p = pending_write_result r p (- ECANCELED)"

definition attribute_destroy :: "attr_ref \<Rightarrow> gatt_attr option \<Rightarrow> gatt_db \<Rightarrow> gatt_db" where
  "attribute_destroy r attribute db =
     (case attribute of
        None \<Rightarrow> db
      | Some a \<Rightarrow>
          fold (pending_write_free r) (ga_pending_writes a)
            (fold (pending_read_free r) (ga_pending_reads a) db))"

definition new_attribute :: "u16 \<Rightarrow> bt_uuid \<Rightarrow> u8 list \<Rightarrow> gatt_attr" where
  "new_attribute handle type val =
     \<lparr>ga_handle = handle, ga_uuid = type, ga_permissions = 0, ga_value_len = of_nat (length val),
      ga_value = (if val = [] then None else Some val), ga_read_func = 0, ga_write_func = 0,
      ga_user_data = 0, ga_read_id = 0, ga_pending_reads = [], ga_write_id = 0, ga_pending_writes = []\<rparr>"

section \<open>The database and its clients\<close>

definition gatt_db_ref :: "gatt_db \<Rightarrow> gatt_db" where
  "gatt_db_ref db = db\<lparr>db_ref_count := db_ref_count db + 1\<rparr>"

definition gatt_db_new :: gatt_db where
  "gatt_db_new = gatt_db_ref
     \<lparr>db_ref_count = 0, db_next_handle = 1, db_services = [], db_notify_list = [], db_next_notify_id = 0,
      db_used = 0, db_log = []\<rparr>"

definition notify_destroy :: "gatt_notify \<Rightarrow> gatt_db \<Rightarrow> gatt_db" where
  "notify_destroy n db =
     (if gn_destroy n \<noteq> 0 then db_event (Notify_destroyed (gn_destroy n) (gn_user n)) db else db)"

text \<open>\<^const>\<open>None\<close>: a call of a \<open>NULL\<close> function.\<close>

definition handle_notify :: "attr_ref \<Rightarrow> bool \<Rightarrow> gatt_notify \<Rightarrow> gatt_db \<Rightarrow> gatt_db option" where
  "handle_notify attr added n db =
     (let f = (if added then gn_added n else gn_removed n)
      in if f = 0 then None
         else Some (db_event ((if added then Service_added else Service_removed) f attr (gn_user n)) db))"

fun notify_all :: "attr_ref \<Rightarrow> bool \<Rightarrow> gatt_notify list \<Rightarrow> gatt_db \<Rightarrow> gatt_db option" where
  "notify_all attr added [] db = Some db"
| "notify_all attr added (n # ns) db = Option.bind (handle_notify attr added n db) (notify_all attr added ns)"

text \<open>The reference that the code holds during the calls is given back after them.\<close>

definition notify_service_changed :: "gatt_service \<Rightarrow> bool \<Rightarrow> gatt_db \<Rightarrow> gatt_db option" where
  "notify_service_changed s added db =
     (if db_notify_list db = [] then Some db
      else notify_all (sv_addr s, 0) added (db_notify_list db) db)"

definition gatt_db_service_destroy :: "gatt_service \<Rightarrow> gatt_db \<Rightarrow> gatt_db option" where
  "gatt_db_service_destroy s db = do {
     db \<leftarrow> (if sv_active s then notify_service_changed s False db else Some db);
     Some (fold (\<lambda>(i, a). attribute_destroy (sv_addr s, i) a)
             (take (unat (sv_num_handles s)) (enumerate 0 (sv_attributes s))) db) }"

fun destroy_services :: "gatt_service list \<Rightarrow> gatt_db \<Rightarrow> gatt_db option" where
  "destroy_services [] db = Some db"
| "destroy_services (s # ss) db = Option.bind (gatt_db_service_destroy s db) (destroy_services ss)"

text \<open>The clients go before the services, so that they are not told of their removal.\<close>

definition gatt_db_destroy :: "gatt_db \<Rightarrow> gatt_db option" where
  "gatt_db_destroy db =
     (let db = fold notify_destroy (db_notify_list db) db\<lparr>db_notify_list := []\<rparr>
      in destroy_services (db_services db) (db\<lparr>db_services := []\<rparr>))"

definition gatt_db_unref :: "gatt_db \<Rightarrow> gatt_db option" where
  "gatt_db_unref db =
     (let db = db\<lparr>db_ref_count := db_ref_count db - 1\<rparr>
      in if db_ref_count db \<noteq> 0 then Some db else gatt_db_destroy db)"

definition gatt_db_isempty :: "gatt_db \<Rightarrow> bool" where
  "gatt_db_isempty db \<longleftrightarrow> db_services db = []"

definition gatt_db_register :: "gatt_db \<Rightarrow> nat \<Rightarrow> nat \<Rightarrow> nat \<Rightarrow> nat \<Rightarrow> u32 \<times> gatt_db" where
  "gatt_db_register db service_added service_removed user_data destroy =
     (if \<not> (service_added \<noteq> 0 \<or> service_removed \<noteq> 0) then (0, db)
      else let nid = (if db_next_notify_id db < 1 then 1 else db_next_notify_id db)
           in (nid, db\<lparr>db_next_notify_id := nid + 1,
                       db_notify_list := db_notify_list db @
                         [\<lparr>gn_id = nid, gn_added = service_added, gn_removed = service_removed,
                           gn_destroy = destroy, gn_user = user_data\<rparr>]\<rparr>))"

definition match_notify_id :: "u32 \<Rightarrow> gatt_notify \<Rightarrow> bool" where
  "match_notify_id i n \<longleftrightarrow> gn_id n = i"

definition gatt_db_unregister :: "gatt_db \<Rightarrow> u32 \<Rightarrow> bool \<times> gatt_db" where
  "gatt_db_unregister db i =
     (if i = 0 then (False, db)
      else case take_first (match_notify_id i) (db_notify_list db) of
             None \<Rightarrow> (False, db)
           | Some (n, ns) \<Rightarrow> (True, notify_destroy n (db\<lparr>db_notify_list := ns\<rparr>)))"

section \<open>Stored UUIDs\<close>

definition uuid_to_le :: "bt_uuid \<Rightarrow> u8 list option" where
  "uuid_to_le uuid =
     (case uuid of
        UUID16 v \<Rightarrow> Some (le16_bytes v)
      | _ \<Rightarrow> (case bt_uuid_to_uuid128 uuid None of
                Some (UUID128 t) \<Rightarrow> Some (bswap_128 t)
              | _ \<Rightarrow> None))"

definition get_le32 :: "u8 list \<Rightarrow> nat \<Rightarrow> u32 option" where
  "get_le32 b off = do {
     d \<leftarrow> buf_read b off 4;
     Some (be32_val (d ! 3) (d ! 2) (d ! 1) (d ! 0)) }"

text \<open>The inner \<^const>\<open>None\<close> is the answer false.\<close>

definition le_to_uuid :: "u8 list \<Rightarrow> nat \<Rightarrow> nat \<Rightarrow> bt_uuid option option" where
  "le_to_uuid src off len =
     (if len = 2 then do { v \<leftarrow> get_le16 src off; Some (Some (bt_uuid16_create v)) }
      else if len = 4 then do { v \<leftarrow> get_le32 src off; Some (Some (bt_uuid32_create v)) }
      else if len \<noteq> 16 then Some None
      else do { d \<leftarrow> buf_read src off 16; Some (Some (bt_uuid128_create (Uint128 (bswap_128 (Uint128 d))))) })"

section \<open>Services\<close>

definition service_type :: "bool \<Rightarrow> bt_uuid" where
  "service_type primary = (if primary then primary_service_uuid else secondary_service_uuid)"

text \<open>\<open>num_handles\<close> of the service is set by the caller.\<close>

definition gatt_db_service_create ::
  "nat \<Rightarrow> bt_uuid \<Rightarrow> u16 \<Rightarrow> bool \<Rightarrow> u16 \<Rightarrow> gatt_service option option" where
  "gatt_db_service_create addr uuid handle primary num_handles =
     (if num_handles < 1 then Some None
      else do {
        value \<leftarrow> uuid_to_le uuid;
        let decl = set_attribute_data 0 0 BT_ATT_PERM_READ 0 (new_attribute handle (service_type primary) value);
        Some (Some \<lparr>sv_addr = addr, sv_active = False, sv_claimed = False, sv_num_handles = 0,
                    sv_attributes = (replicate (unat num_handles) None)[0 := Some decl]\<rparr>) })"

definition gatt_db_remove_service :: "gatt_db \<Rightarrow> attr_ref option \<Rightarrow> (bool \<times> gatt_db) option" where
  "gatt_db_remove_service db attrib =
     (case attrib of
        None \<Rightarrow> Some (False, db)
      | Some r \<Rightarrow> do {
          s \<leftarrow> db_service db (fst r);
          db \<leftarrow> gatt_db_service_destroy s
                  (db\<lparr>db_services := filter (\<lambda>t. sv_addr t \<noteq> sv_addr s) (db_services db)\<rparr>);
          Some (True, db) })"

definition gatt_db_service_get_handles :: "gatt_service \<Rightarrow> (u16 \<times> u16) option" where
  "gatt_db_service_get_handles s = do {
     decl \<leftarrow> svc_attr s 0;
     Some (ga_handle decl, ga_handle decl + sv_num_handles s - 1) }"

definition match_range :: "u16 \<Rightarrow> u16 \<Rightarrow> gatt_service \<Rightarrow> bool option" where
  "match_range start fin s = do {
     (svc_start, svc_end) \<leftarrow> gatt_db_service_get_handles s;
     Some (svc_start \<le> fin \<and> start \<le> svc_end) }"

text \<open>The services that match and those that stay.\<close>

fun split_services :: "(gatt_service \<Rightarrow> bool option) \<Rightarrow> gatt_service list \<Rightarrow>
    (gatt_service list \<times> gatt_service list) option" where
  "split_services f [] = Some ([], [])"
| "split_services f (s # ss) = do {
     m \<leftarrow> f s;
     (out, stay) \<leftarrow> split_services f ss;
     Some (if m then (s # out, stay) else (out, s # stay)) }"

definition gatt_db_clear_range :: "gatt_db \<Rightarrow> u16 \<Rightarrow> u16 \<Rightarrow> (bool \<times> gatt_db) option" where
  "gatt_db_clear_range db start_handle end_handle =
     (if end_handle < start_handle then Some (False, db)
      else do {
        (out, stay) \<leftarrow> (if start_handle = 1 \<and> end_handle = 0xffff then Some (db_services db, [])
                        else split_services (match_range start_handle end_handle) (db_services db));
        db \<leftarrow> destroy_services out (db\<lparr>db_services := stay\<rparr>);
        Some (True, if gatt_db_isempty db then db\<lparr>db_next_handle := 0\<rparr> else db) })"

definition gatt_db_clear :: "gatt_db \<Rightarrow> (bool \<times> gatt_db) option" where
  "gatt_db_clear db = gatt_db_clear_range db 1 0xffff"

text \<open>The service that is in the way, and the one behind which to insert.\<close>

fun find_insert_loc :: "u16 \<Rightarrow> u16 \<Rightarrow> gatt_service option \<Rightarrow> gatt_service list \<Rightarrow>
    (gatt_service option \<times> gatt_service option) option" where
  "find_insert_loc start fin after [] = Some (None, after)"
| "find_insert_loc start fin after (service # entries) = do {
     (cur_start, cur_end) \<leftarrow> gatt_db_service_get_handles service;
     if cur_start \<le> start \<and> start \<le> cur_end then Some (Some service, after)
     else if cur_start \<le> fin \<and> fin \<le> cur_end then Some (Some service, after)
     else if fin < cur_start then Some (None, after)
     else find_insert_loc start fin (Some service) entries }"

text \<open>\<open>queue_push_after\<close>: \<^const>\<open>None\<close> when the entry is not in the queue.\<close>

fun push_after :: "nat \<Rightarrow> gatt_service \<Rightarrow> gatt_service list \<Rightarrow> gatt_service list option" where
  "push_after addr new [] = None"
| "push_after addr new (s # ss) =
     (if sv_addr s = addr then Some (s # new # ss) else map_option ((#) s) (push_after addr new ss))"

text \<open>The UUID of a service; the inner \<^const>\<open>None\<close> is the answer false.\<close>

definition service_uuid :: "gatt_service \<Rightarrow> bt_uuid option option" where
  "service_uuid s = do {
     decl \<leftarrow> svc_attr s 0;
     if ga_value_len decl = 2 then do {
       b \<leftarrow> ga_value decl; v \<leftarrow> get_le16 b 0; Some (Some (bt_uuid16_create v)) }
     else if ga_value_len decl = 16 then do {
       b \<leftarrow> ga_value decl; d \<leftarrow> buf_read b 0 16;
       Some (Some (bt_uuid128_create (Uint128 (bswap_128 (Uint128 d))))) }
     else Some None }"

definition service_matches :: "gatt_service \<Rightarrow> u16 \<Rightarrow> bt_uuid \<Rightarrow> bool \<Rightarrow> u16 \<Rightarrow> bool option" where
  "service_matches s handle uuid primary num_handles = do {
     decl \<leftarrow> svc_attr s 0;
     value \<leftarrow> service_uuid s;
     c \<leftarrow> bt_uuid_cmp (ga_uuid decl) (service_type primary);
     if c \<noteq> 0 then Some False
     else do {
       value \<leftarrow> value;
       c \<leftarrow> bt_uuid_cmp value uuid;
       Some (c = 0 \<and> sv_num_handles s = num_handles \<and> ga_handle decl = handle) } }"

definition gatt_db_insert_service ::
  "gatt_db \<Rightarrow> u16 \<Rightarrow> bt_uuid \<Rightarrow> bool \<Rightarrow> u16 \<Rightarrow> (attr_ref option \<times> gatt_db) option" where
  "gatt_db_insert_service db handle uuid primary num_handles =
     (if handle < 1 then Some (None, db)
      else if num_handles < 1 \<or> 0xffff < int (unat handle) + int (unat num_handles) - 1 then Some (None, db)
      else do {
        (service, after) \<leftarrow> find_insert_loc handle (handle + num_handles - 1) None (db_services db);
        case service of
          Some s \<Rightarrow> do {
            same \<leftarrow> service_matches s handle uuid primary num_handles;
            Some (if same then Some (sv_addr s, 0) else None, db) }
        | None \<Rightarrow> do {
            created \<leftarrow> gatt_db_service_create (db_used db) uuid handle primary num_handles;
            case created of
              None \<Rightarrow> Some (None, db)
            | Some s \<Rightarrow>
                (case (case after of
                         Some a \<Rightarrow> push_after (sv_addr a) (s\<lparr>sv_num_handles := num_handles\<rparr>) (db_services db)
                       | None \<Rightarrow> Some (s\<lparr>sv_num_handles := num_handles\<rparr> # db_services db)) of
                   None \<Rightarrow> map_option (Pair None) (gatt_db_service_destroy s db)
                 | Some services \<Rightarrow>
                     Some (Some (sv_addr s, 0),
                       db\<lparr>db_services := services, db_used := db_used db + 1,
                          db_next_handle :=
                            of_nat (max (unat handle + unat num_handles) (unat (db_next_handle db)))\<rparr>)) } })"

definition gatt_db_add_service ::
  "gatt_db \<Rightarrow> bt_uuid \<Rightarrow> bool \<Rightarrow> u16 \<Rightarrow> (attr_ref option \<times> gatt_db) option" where
  "gatt_db_add_service db uuid primary num_handles =
     gatt_db_insert_service db (db_next_handle db) uuid primary num_handles"

definition gatt_db_service_set_active :: "gatt_db \<Rightarrow> attr_ref option \<Rightarrow> bool \<Rightarrow> (bool \<times> gatt_db) option" where
  "gatt_db_service_set_active db attrib active =
     (case attrib of
        None \<Rightarrow> Some (False, db)
      | Some r \<Rightarrow> do {
          s \<leftarrow> db_service db (fst r);
          if sv_active s = active then Some (True, db)
          else do {
            db \<leftarrow> notify_service_changed s active (update_service (fst r) (\<lambda>s. s\<lparr>sv_active := active\<rparr>) db);
            Some (True, db) } })"

definition gatt_db_service_get_active :: "gatt_db \<Rightarrow> attr_ref option \<Rightarrow> bool option" where
  "gatt_db_service_get_active db attrib =
     (case attrib of None \<Rightarrow> Some False | Some r \<Rightarrow> map_option sv_active (db_service db (fst r)))"

definition gatt_db_service_set_claimed :: "gatt_db \<Rightarrow> attr_ref option \<Rightarrow> bool \<Rightarrow> (bool \<times> gatt_db) option" where
  "gatt_db_service_set_claimed db attrib claimed =
     (case attrib of
        None \<Rightarrow> Some (False, db)
      | Some r \<Rightarrow> do {
          s \<leftarrow> db_service db (fst r);
          Some (True, update_service (fst r) (\<lambda>s. s\<lparr>sv_claimed := claimed\<rparr>) db) })"

definition gatt_db_service_get_claimed :: "gatt_db \<Rightarrow> attr_ref option \<Rightarrow> bool option" where
  "gatt_db_service_get_claimed db attrib =
     (case attrib of None \<Rightarrow> Some False | Some r \<Rightarrow> map_option sv_claimed (db_service db (fst r)))"

end
