(* ===== verification/Gatt_Attr.thy ===== *)
theory Gatt_Attr
  imports Gatt_Db
begin

text \<open>
  The attributes of \<open>src/shared/gatt-db.c\<close>: finding services and attributes by handle and by
  UUID, and filling a service with characteristics, descriptors and included services.
\<close>

section \<open>Finding\<close>

definition find_service_for_handle :: "u16 \<Rightarrow> gatt_service \<Rightarrow> bool option" where
  "find_service_for_handle handle s = do {
     (start, fin) \<leftarrow> gatt_db_service_get_handles s;
     Some (start \<le> handle \<and> handle \<le> fin) }"

text \<open>\<open>queue_find\<close>.\<close>

fun find_service :: "(gatt_service \<Rightarrow> bool option) \<Rightarrow> gatt_service list \<Rightarrow> gatt_service option option" where
  "find_service f [] = Some None"
| "find_service f (s # ss) = do { m \<leftarrow> f s; if m then Some (Some s) else find_service f ss }"

definition gatt_db_get_service :: "gatt_db \<Rightarrow> u16 \<Rightarrow> attr_ref option option" where
  "gatt_db_get_service db handle =
     (if handle = 0 then Some None
      else map_option (map_option (\<lambda>s. (sv_addr s, 0)))
             (find_service (find_service_for_handle handle) (db_services db)))"

fun attr_with_handle :: "u16 \<Rightarrow> nat \<Rightarrow> gatt_attr option list \<Rightarrow> nat option" where
  "attr_with_handle handle i [] = None"
| "attr_with_handle handle i (None # as) = attr_with_handle handle (Suc i) as"
| "attr_with_handle handle i (Some a # as) =
     (if ga_handle a = handle then Some i else attr_with_handle handle (Suc i) as)"

definition gatt_db_get_attribute :: "gatt_db \<Rightarrow> u16 \<Rightarrow> attr_ref option option" where
  "gatt_db_get_attribute db handle = do {
     attrib \<leftarrow> gatt_db_get_service db handle;
     case attrib of
       None \<Rightarrow> Some None
     | Some r \<Rightarrow> do {
         s \<leftarrow> db_service db (fst r);
         Some (map_option (Pair (sv_addr s))
                (attr_with_handle handle 0 (take (unat (sv_num_handles s)) (sv_attributes s)))) } }"

definition find_service_with_uuid :: "bt_uuid \<Rightarrow> gatt_service \<Rightarrow> bool option" where
  "find_service_with_uuid uuid s = do {
     svc_uuid \<leftarrow> service_uuid s;
     svc_uuid \<leftarrow> svc_uuid;
     c \<leftarrow> bt_uuid_cmp uuid svc_uuid;
     Some (c = 0) }"

definition gatt_db_get_service_with_uuid :: "gatt_db \<Rightarrow> bt_uuid option \<Rightarrow> attr_ref option option" where
  "gatt_db_get_service_with_uuid db uuid =
     (case uuid of
        None \<Rightarrow> Some None
      | Some u \<Rightarrow> map_option (map_option (\<lambda>s. (sv_addr s, 0)))
                    (find_service (find_service_with_uuid u) (db_services db)))"

section \<open>Filling a service\<close>

text \<open>The first free slot, 0 when there is none before the last \<open>end_offset\<close> ones.\<close>

definition get_attribute_index :: "gatt_service \<Rightarrow> nat \<Rightarrow> nat" where
  "get_attribute_index s end_offset =
     (let n = unat (sv_num_handles s) - end_offset;
          i = length (takeWhile (\<lambda>a. a \<noteq> None) (take n (sv_attributes s)))
      in if i = n then 0 else i)"

definition get_handle_at_index :: "gatt_service \<Rightarrow> nat \<Rightarrow> u16 option" where
  "get_handle_at_index s index = map_option ga_handle (svc_attr s index)"

definition attribute_update :: "gatt_service \<Rightarrow> nat \<Rightarrow> gatt_service option" where
  "attribute_update s index = do {
     prev \<leftarrow> svc_attr s (index - 1);
     a \<leftarrow> svc_attr s index;
     Some (set_slot index (a\<lparr>ga_handle := ga_handle prev + 1\<rparr>) s) }"

text \<open>The answer is the index of the new attribute with the service, or nothing.\<close>

definition service_insert_characteristic ::
  "gatt_service \<Rightarrow> u16 \<Rightarrow> bt_uuid \<Rightarrow> u32 \<Rightarrow> u8 \<Rightarrow> nat \<Rightarrow> nat \<Rightarrow> nat \<Rightarrow> (nat \<times> gatt_service) option option" where
  "service_insert_characteristic s handle uuid permissions properties read_func write_func user_data = do {
     decl \<leftarrow> svc_attr s 0;
     if handle \<noteq> 0 \<and> handle \<le> ga_handle decl then Some None
     else if handle = 0xffff then Some None
     else let i = get_attribute_index s 1
     in if i = 0 then Some None
     else do {
       prev \<leftarrow> get_handle_at_index s (i - 1);
       let handle = (if handle = 0 then prev + 2 else handle);
       u \<leftarrow> uuid_to_le uuid;
       let value = [properties] @ le16_bytes handle @ u;
       let s = set_slot i (set_attribute_data 0 0 BT_ATT_PERM_READ 0
                             (new_attribute (handle - 1) characteristic_uuid value)) s;
       let s = set_slot (Suc i) (set_attribute_data read_func write_func permissions user_data
                                   (new_attribute handle uuid [])) s;
       Some (Some (Suc i, s)) } }"

definition service_insert_descriptor ::
  "gatt_service \<Rightarrow> u16 \<Rightarrow> bt_uuid \<Rightarrow> u32 \<Rightarrow> nat \<Rightarrow> nat \<Rightarrow> nat \<Rightarrow> (nat \<times> gatt_service) option option" where
  "service_insert_descriptor s handle uuid permissions read_func write_func user_data =
     (let i = get_attribute_index s 0
      in if i = 0 then Some None
      else do {
        decl \<leftarrow> svc_attr s 0;
        if handle \<noteq> 0 \<and> handle \<le> ga_handle decl then Some None
        else do {
          prev \<leftarrow> get_handle_at_index s (i - 1);
          let handle = (if handle = 0 then prev + 1 else handle);
          Some (Some (i, set_slot i (set_attribute_data read_func write_func permissions user_data
                                       (new_attribute handle uuid [])) s)) } })"

definition included_value :: "gatt_service \<Rightarrow> u8 list option" where
  "included_value included = do {
     include \<leftarrow> svc_attr included 0;
     u \<leftarrow> (if ga_value_len include = 2 then do { b \<leftarrow> ga_value include; buf_read b 0 2 } else Some []);
     Some (le16_bytes (ga_handle include) @
           le16_bytes (ga_handle include + sv_num_handles included - 1) @ u) }"

definition service_insert_included ::
  "gatt_service \<Rightarrow> u16 \<Rightarrow> gatt_service \<Rightarrow> (nat \<times> gatt_service) option option" where
  "service_insert_included s handle included = do {
     value \<leftarrow> included_value included;
     let index = get_attribute_index s 0;
     if index = 0 then Some None
     else do {
       decl \<leftarrow> svc_attr s 0;
       if handle \<noteq> 0 \<and> handle \<le> ga_handle decl then Some None
       else do {
         prev \<leftarrow> get_handle_at_index s (index - 1);
         let handle = (if handle = 0 then prev + 1 else handle);
         let s = set_slot index (set_attribute_data 0 0 BT_ATT_PERM_READ 0
                                   (new_attribute handle included_service_uuid value)) s;
         s \<leftarrow> attribute_update s index;
         Some (Some (index, s)) } } }"

text \<open>An insertion into the service an attribute belongs to.\<close>

definition insert_into ::
  "gatt_db \<Rightarrow> attr_ref \<Rightarrow> (gatt_service \<Rightarrow> (nat \<times> gatt_service) option option) \<Rightarrow>
   (attr_ref option \<times> gatt_db) option" where
  "insert_into db r f = do {
     s \<leftarrow> db_service db (fst r);
     res \<leftarrow> f s;
     case res of
       None \<Rightarrow> Some (None, db)
     | Some (i, s') \<Rightarrow> Some (Some (fst r, i), update_service (fst r) (\<lambda>_. s') db) }"

definition gatt_db_insert_characteristic where
  "gatt_db_insert_characteristic db handle uuid permissions properties read_func write_func user_data = do {
     attrib \<leftarrow> gatt_db_get_service db handle;
     case attrib of
       None \<Rightarrow> Some (None, db)
     | Some r \<Rightarrow> insert_into db r (\<lambda>s.
         service_insert_characteristic s handle uuid permissions properties read_func write_func user_data) }"

definition gatt_db_service_insert_characteristic where
  "gatt_db_service_insert_characteristic db attrib handle uuid permissions properties read_func write_func user_data =
     (case attrib of
        None \<Rightarrow> Some (None, db)
      | Some r \<Rightarrow>
          if handle = 0 then Some (None, db)
          else insert_into db r (\<lambda>s.
            service_insert_characteristic s handle uuid permissions properties read_func write_func user_data))"

definition gatt_db_service_add_characteristic where
  "gatt_db_service_add_characteristic db attrib uuid permissions properties read_func write_func user_data =
     (case attrib of
        None \<Rightarrow> Some (None, db)
      | Some r \<Rightarrow> insert_into db r (\<lambda>s.
          service_insert_characteristic s 0 uuid permissions properties read_func write_func user_data))"

definition gatt_db_insert_descriptor where
  "gatt_db_insert_descriptor db handle uuid permissions read_func write_func user_data = do {
     attrib \<leftarrow> gatt_db_get_service db handle;
     case attrib of
       None \<Rightarrow> Some (None, db)
     | Some r \<Rightarrow> insert_into db r (\<lambda>s.
         service_insert_descriptor s handle uuid permissions read_func write_func user_data) }"

definition gatt_db_service_insert_descriptor where
  "gatt_db_service_insert_descriptor db attrib handle uuid permissions read_func write_func user_data =
     (case attrib of
        None \<Rightarrow> Some (None, db)
      | Some r \<Rightarrow>
          if handle = 0 then Some (None, db)
          else insert_into db r (\<lambda>s.
            service_insert_descriptor s handle uuid permissions read_func write_func user_data))"

definition gatt_db_service_add_descriptor where
  "gatt_db_service_add_descriptor db attrib uuid permissions read_func write_func user_data =
     (case attrib of
        None \<Rightarrow> Some (None, db)
      | Some r \<Rightarrow> insert_into db r (\<lambda>s.
          service_insert_descriptor s 0 uuid permissions read_func write_func user_data))"

definition include_into ::
  "gatt_db \<Rightarrow> attr_ref \<Rightarrow> u16 \<Rightarrow> attr_ref \<Rightarrow> (attr_ref option \<times> gatt_db) option" where
  "include_into db r handle include = do {
     included \<leftarrow> db_service db (fst include);
     insert_into db r (\<lambda>s. service_insert_included s handle included) }"

definition gatt_db_service_add_included where
  "gatt_db_service_add_included db attrib include =
     (case (attrib, include) of
        (Some r, Some i) \<Rightarrow> include_into db r 0 i
      | _ \<Rightarrow> Some (None, db))"

definition gatt_db_service_insert_included where
  "gatt_db_service_insert_included db attrib handle include =
     (case (attrib, include) of
        (Some r, Some i) \<Rightarrow> if handle = 0 then Some (None, db) else include_into db r handle i
      | _ \<Rightarrow> Some (None, db))"

definition gatt_db_insert_included where
  "gatt_db_insert_included db handle include = do {
     attrib \<leftarrow> gatt_db_get_service db handle;
     case attrib of
       None \<Rightarrow> Some (None, db)
     | Some r \<Rightarrow> include_into db r handle include }"

end
