(* ===== verification/Gatt_Access.thy ===== *)
theory Gatt_Access
  imports Gatt_Attr
begin

text \<open>
  What \<open>src/shared/gatt-db.c\<close> does for the GATT server: the searches it makes for clients, what an
  attribute says of itself, and reading and writing values. A search answers the attributes it calls its
  function with, or that it queues, in their order.
\<close>

section \<open>Searches\<close>

text \<open>The group types; a value of another length ends the search.\<close>

fun group_loop :: "u16 \<Rightarrow> u16 \<Rightarrow> bt_uuid \<Rightarrow> u16 \<Rightarrow> gatt_service list \<Rightarrow> attr_ref list option" where
  "group_loop start_handle end_handle type uuid_size [] = Some []"
| "group_loop start_handle end_handle type uuid_size (s # entries) =
     (if \<not> sv_active s then group_loop start_handle end_handle type uuid_size entries
      else do {
        decl \<leftarrow> svc_attr s 0;
        c \<leftarrow> bt_uuid_cmp type (ga_uuid decl);
        let grp_start = ga_handle decl;
        let grp_end = grp_start + sv_num_handles s - 1;
        if c \<noteq> 0 \<or> grp_end < start_handle \<or> end_handle < grp_start
           \<or> grp_start < start_handle \<or> end_handle < grp_start
        then group_loop start_handle end_handle type uuid_size entries
        else if uuid_size = 0 then
          map_option ((#) (sv_addr s, 0)) (group_loop start_handle end_handle type (ga_value_len decl) entries)
        else if uuid_size \<noteq> ga_value_len decl then Some []
        else map_option ((#) (sv_addr s, 0)) (group_loop start_handle end_handle type uuid_size entries) })"

definition gatt_db_read_by_group_type :: "gatt_db \<Rightarrow> u16 \<Rightarrow> u16 \<Rightarrow> bt_uuid \<Rightarrow> attr_ref list option" where
  "gatt_db_read_by_group_type db start_handle end_handle type =
     group_loop start_handle end_handle type 0 (db_services db)"

text \<open>The array of a service, as far as \<open>num_handles\<close> goes.\<close>

definition svc_slots :: "gatt_service \<Rightarrow> gatt_attr option list" where
  "svc_slots s = take (unat (sv_num_handles s)) (sv_attributes s)"

record find_by_type_value_data =
  fb_uuid :: bt_uuid
  fb_start_handle :: u16
  fb_end_handle :: u16
  fb_value :: "u8 list option"

definition value_matches :: "find_by_type_value_data \<Rightarrow> gatt_attr \<Rightarrow> bool option" where
  "value_matches d a =
     (case fb_value d of
        None \<Rightarrow> Some True
      | Some v \<Rightarrow>
          if length v \<noteq> unat (ga_value_len a) then Some False
          else if v = [] then Some True
          else do { b \<leftarrow> ga_value a; x \<leftarrow> buf_read b 0 (length v); Some (memcmp x v = 0) })"

fun find_by_type_loop :: "find_by_type_value_data \<Rightarrow> nat \<Rightarrow> nat \<Rightarrow> gatt_attr option list \<Rightarrow> attr_ref list option" where
  "find_by_type_loop d addr i [] = Some []"
| "find_by_type_loop d addr i (None # as) = find_by_type_loop d addr (Suc i) as"
| "find_by_type_loop d addr i (Some a # as) =
     (if ga_handle a < fb_start_handle d \<or> fb_end_handle d < ga_handle a
      then find_by_type_loop d addr (Suc i) as
      else do {
        c \<leftarrow> bt_uuid_cmp (fb_uuid d) (ga_uuid a);
        if c \<noteq> 0 then find_by_type_loop d addr (Suc i) as
        else do {
          m \<leftarrow> value_matches d a;
          if m then map_option ((#) (addr, i)) (find_by_type_loop d addr (Suc i) as)
          else find_by_type_loop d addr (Suc i) as } })"

definition find_by_type :: "find_by_type_value_data \<Rightarrow> gatt_service \<Rightarrow> attr_ref list option" where
  "find_by_type d s = (if \<not> sv_active s then Some [] else find_by_type_loop d (sv_addr s) 0 (svc_slots s))"

text \<open>\<open>queue_foreach\<close> over the services.\<close>

fun foreach_service :: "(gatt_service \<Rightarrow> attr_ref list option) \<Rightarrow> gatt_service list \<Rightarrow> attr_ref list option" where
  "foreach_service f [] = Some []"
| "foreach_service f (s # ss) = do { r \<leftarrow> f s; rs \<leftarrow> foreach_service f ss; Some (r @ rs) }"

text \<open>The answer: the attributes, and the number the function returns.\<close>

definition gatt_db_find_by_type :: "gatt_db \<Rightarrow> u16 \<Rightarrow> u16 \<Rightarrow> bt_uuid \<Rightarrow> (attr_ref list \<times> u32) option" where
  "gatt_db_find_by_type db start_handle end_handle type = do {
     rs \<leftarrow> foreach_service (find_by_type \<lparr>fb_uuid = type, fb_start_handle = start_handle,
                                         fb_end_handle = end_handle, fb_value = None\<rparr>) (db_services db);
     Some (rs, 0 + of_nat (length rs)) }"

text \<open>The counter is not set before the search: it starts with what the stack holds, \<open>stale\<close>.\<close>

definition gatt_db_find_by_type_value ::
  "u32 \<Rightarrow> gatt_db \<Rightarrow> u16 \<Rightarrow> u16 \<Rightarrow> bt_uuid \<Rightarrow> u8 list option \<Rightarrow> (attr_ref list \<times> u32) option" where
  "gatt_db_find_by_type_value stale db start_handle end_handle type value = do {
     rs \<leftarrow> foreach_service (find_by_type \<lparr>fb_uuid = type, fb_start_handle = start_handle,
                                         fb_end_handle = end_handle, fb_value = value\<rparr>) (db_services db);
     Some (rs, stale + of_nat (length rs)) }"

fun read_by_type_loop :: "bt_uuid \<Rightarrow> u16 \<Rightarrow> u16 \<Rightarrow> nat \<Rightarrow> nat \<Rightarrow> gatt_attr option list \<Rightarrow> attr_ref list option" where
  "read_by_type_loop uuid start_handle end_handle addr i [] = Some []"
| "read_by_type_loop uuid start_handle end_handle addr i (None # as) =
     read_by_type_loop uuid start_handle end_handle addr (Suc i) as"
| "read_by_type_loop uuid start_handle end_handle addr i (Some a # as) =
     (if ga_handle a < start_handle then read_by_type_loop uuid start_handle end_handle addr (Suc i) as
      else if end_handle < ga_handle a then Some []
      else do {
        c \<leftarrow> bt_uuid_cmp uuid (ga_uuid a);
        if c \<noteq> 0 then read_by_type_loop uuid start_handle end_handle addr (Suc i) as
        else map_option ((#) (addr, i)) (read_by_type_loop uuid start_handle end_handle addr (Suc i) as) })"

definition read_by_type :: "bt_uuid \<Rightarrow> u16 \<Rightarrow> u16 \<Rightarrow> gatt_service \<Rightarrow> attr_ref list option" where
  "read_by_type uuid start_handle end_handle s =
     (if \<not> sv_active s then Some []
      else read_by_type_loop uuid start_handle end_handle (sv_addr s) 0 (svc_slots s))"

definition gatt_db_read_by_type :: "gatt_db \<Rightarrow> u16 \<Rightarrow> u16 \<Rightarrow> bt_uuid \<Rightarrow> attr_ref list option" where
  "gatt_db_read_by_type db start_handle end_handle type =
     foreach_service (read_by_type type start_handle end_handle) (db_services db)"

fun find_information_loop :: "u16 \<Rightarrow> u16 \<Rightarrow> nat \<Rightarrow> nat \<Rightarrow> gatt_attr option list \<Rightarrow> attr_ref list" where
  "find_information_loop start_handle end_handle addr i [] = []"
| "find_information_loop start_handle end_handle addr i (None # as) =
     find_information_loop start_handle end_handle addr (Suc i) as"
| "find_information_loop start_handle end_handle addr i (Some a # as) =
     (if ga_handle a < start_handle then find_information_loop start_handle end_handle addr (Suc i) as
      else if end_handle < ga_handle a then []
      else (addr, i) # find_information_loop start_handle end_handle addr (Suc i) as)"

text \<open>The test of the range is on \<open>int\<close>.\<close>

definition find_information :: "u16 \<Rightarrow> u16 \<Rightarrow> gatt_service \<Rightarrow> attr_ref list option" where
  "find_information start_handle end_handle s =
     (if \<not> sv_active s then Some []
      else do {
        decl \<leftarrow> svc_attr s 0;
        if int (unat (ga_handle decl)) + int (unat (sv_num_handles s)) - 1 < int (unat start_handle) then Some []
        else Some (find_information_loop start_handle end_handle (sv_addr s) 0 (svc_slots s)) })"

definition gatt_db_find_information :: "gatt_db \<Rightarrow> u16 \<Rightarrow> u16 \<Rightarrow> attr_ref list option" where
  "gatt_db_find_information db start_handle end_handle =
     foreach_service (find_information start_handle end_handle) (db_services db)"

definition foreach_service_in_range :: "bt_uuid option \<Rightarrow> u16 \<Rightarrow> u16 \<Rightarrow> gatt_service \<Rightarrow> attr_ref list option" where
  "foreach_service_in_range uuid start fin s = do {
     svc_start \<leftarrow> get_handle_at_index s 0;
     if fin < svc_start \<or> svc_start < start then Some []
     else case uuid of
       None \<Rightarrow> Some [(sv_addr s, 0)]
     | Some u \<Rightarrow> do {
         v \<leftarrow> service_uuid s;
         v \<leftarrow> v;
         c \<leftarrow> bt_uuid_cmp v u;
         Some (if c \<noteq> 0 then [] else [(sv_addr s, 0)]) } }"

text \<open>\<open>func\<close> is the function pointer the code tests.\<close>

definition gatt_db_foreach_service_in_range ::
  "gatt_db \<Rightarrow> bt_uuid option \<Rightarrow> nat \<Rightarrow> u16 \<Rightarrow> u16 \<Rightarrow> attr_ref list option" where
  "gatt_db_foreach_service_in_range db uuid func start_handle end_handle =
     (if func = 0 \<or> end_handle < start_handle then Some []
      else foreach_service (foreach_service_in_range uuid start_handle end_handle) (db_services db))"

definition gatt_db_foreach_service :: "gatt_db \<Rightarrow> bt_uuid option \<Rightarrow> nat \<Rightarrow> attr_ref list option" where
  "gatt_db_foreach_service db uuid func = gatt_db_foreach_service_in_range db uuid func 0x0001 0xffff"

fun service_loop :: "bt_uuid option \<Rightarrow> nat \<Rightarrow> nat \<Rightarrow> gatt_attr option list \<Rightarrow> attr_ref list option" where
  "service_loop uuid addr i [] = Some []"
| "service_loop uuid addr i (None # as) = service_loop uuid addr (Suc i) as"
| "service_loop uuid addr i (Some a # as) = do {
     skip \<leftarrow> (case uuid of
                 None \<Rightarrow> Some False
               | Some u \<Rightarrow> map_option (\<lambda>c. c \<noteq> 0) (bt_uuid_cmp u (ga_uuid a)));
     if skip then service_loop uuid addr (Suc i) as
     else map_option ((#) (addr, i)) (service_loop uuid addr (Suc i) as) }"

definition gatt_db_service_foreach ::
  "gatt_db \<Rightarrow> attr_ref option \<Rightarrow> bt_uuid option \<Rightarrow> nat \<Rightarrow> attr_ref list option" where
  "gatt_db_service_foreach db attrib uuid func =
     (case attrib of
        None \<Rightarrow> Some []
      | Some r \<Rightarrow>
          if func = 0 then Some []
          else do { s \<leftarrow> db_service db (fst r); service_loop uuid (sv_addr s) 0 (svc_slots s) })"

definition gatt_db_service_foreach_char :: "gatt_db \<Rightarrow> attr_ref option \<Rightarrow> nat \<Rightarrow> attr_ref list option" where
  "gatt_db_service_foreach_char db attrib func =
     gatt_db_service_foreach db attrib (Some characteristic_uuid) func"

definition gatt_db_service_foreach_incl :: "gatt_db \<Rightarrow> attr_ref option \<Rightarrow> nat \<Rightarrow> attr_ref list option" where
  "gatt_db_service_foreach_incl db attrib func =
     gatt_db_service_foreach db attrib (Some included_service_uuid) func"

text \<open>The descriptors end at the next characteristic or included service.\<close>

fun desc_loop :: "nat \<Rightarrow> nat \<Rightarrow> gatt_attr option list \<Rightarrow> attr_ref list option" where
  "desc_loop addr i [] = Some []"
| "desc_loop addr i (None # as) = desc_loop addr (Suc i) as"
| "desc_loop addr i (Some a # as) = do {
     c \<leftarrow> bt_uuid_cmp characteristic_uuid (ga_uuid a);
     d \<leftarrow> (if c = 0 then Some 0 else bt_uuid_cmp included_service_uuid (ga_uuid a));
     if c = 0 \<or> d = 0 then Some []
     else map_option ((#) (addr, i)) (desc_loop addr (Suc i) as) }"

definition gatt_db_service_foreach_desc :: "gatt_db \<Rightarrow> attr_ref option \<Rightarrow> nat \<Rightarrow> attr_ref list option" where
  "gatt_db_service_foreach_desc db attrib func =
     (case attrib of
        None \<Rightarrow> Some []
      | Some r \<Rightarrow>
          if func = 0 then Some []
          else do {
            a \<leftarrow> db_attr db r;
            c \<leftarrow> bt_uuid_cmp characteristic_uuid (ga_uuid a);
            if c \<noteq> 0 then Some []
            else do {
              s \<leftarrow> db_service db (fst r);
              let i = (if snd r < unat (sv_num_handles s) then unat (of_nat (snd r) + 2 :: u16)
                       else unat (sv_num_handles s));
              desc_loop (sv_addr s) i (drop i (svc_slots s)) } })"

section \<open>What an attribute says\<close>

definition gatt_db_attribute_get_type :: "gatt_db \<Rightarrow> attr_ref option \<Rightarrow> bt_uuid option option" where
  "gatt_db_attribute_get_type db attrib =
     (case attrib of None \<Rightarrow> Some None | Some r \<Rightarrow> map_option (Some \<circ> ga_uuid) (db_attr db r))"

definition gatt_db_attribute_get_handle :: "gatt_db \<Rightarrow> attr_ref option \<Rightarrow> u16 option" where
  "gatt_db_attribute_get_handle db attrib =
     (case attrib of None \<Rightarrow> Some 0 | Some r \<Rightarrow> map_option ga_handle (db_attr db r))"

definition gatt_db_attribute_get_permissions :: "gatt_db \<Rightarrow> attr_ref option \<Rightarrow> u32 option" where
  "gatt_db_attribute_get_permissions db attrib =
     (case attrib of None \<Rightarrow> Some 0 | Some r \<Rightarrow> map_option ga_permissions (db_attr db r))"

definition gatt_db_attribute_get_user_data :: "gatt_db \<Rightarrow> attr_ref option \<Rightarrow> nat option" where
  "gatt_db_attribute_get_user_data db attrib =
     (case attrib of None \<Rightarrow> Some 0 | Some r \<Rightarrow> map_option ga_user_data (db_attr db r))"

text \<open>The inner \<^const>\<open>None\<close> of the following is the answer false, with nothing stored.\<close>

definition gatt_db_attribute_get_service_uuid :: "gatt_db \<Rightarrow> attr_ref option \<Rightarrow> bt_uuid option option" where
  "gatt_db_attribute_get_service_uuid db attrib =
     (case attrib of None \<Rightarrow> Some None | Some r \<Rightarrow> Option.bind (db_service db (fst r)) service_uuid)"

definition gatt_db_attribute_get_service_handles :: "gatt_db \<Rightarrow> attr_ref option \<Rightarrow> (u16 \<times> u16) option option" where
  "gatt_db_attribute_get_service_handles db attrib =
     (case attrib of
        None \<Rightarrow> Some None
      | Some r \<Rightarrow> do { s \<leftarrow> db_service db (fst r); map_option Some (gatt_db_service_get_handles s) })"

text \<open>Start, end, whether it is primary, and the UUID when the caller wants it and it can be read.\<close>

definition gatt_db_attribute_get_service_data ::
  "gatt_db \<Rightarrow> attr_ref option \<Rightarrow> bool \<Rightarrow> (bool \<times> (u16 \<times> u16 \<times> bool \<times> bt_uuid option) option) option" where
  "gatt_db_attribute_get_service_data db attrib want_uuid =
     (case attrib of
        None \<Rightarrow> Some (False, None)
      | Some r \<Rightarrow> do {
          s \<leftarrow> db_service db (fst r);
          decl \<leftarrow> svc_attr s 0;
          (start, fin) \<leftarrow> gatt_db_service_get_handles s;
          c \<leftarrow> bt_uuid_cmp (ga_uuid decl) secondary_service_uuid;
          if \<not> want_uuid then Some (True, Some (start, fin, c \<noteq> 0, None))
          else do {
            u \<leftarrow> (case ga_value decl of
                     Some b \<Rightarrow> le_to_uuid b 0 (unat (ga_value_len decl))
                   | None \<Rightarrow> if ga_value_len decl = 0 then Some None else None);
            Some (u \<noteq> None, Some (start, fin, c \<noteq> 0, u)) } })"

section \<open>Reading\<close>

text \<open>What a read of a stored value gives its callback: the error code and the bytes.\<close>

definition stored_read :: "gatt_attr \<Rightarrow> u16 \<Rightarrow> (int \<times> u8 list option) option" where
  "stored_read a offset =
     (if ga_value_len a < offset then Some (0x07, None)
      else if offset = ga_value_len a then Some (0, None)
      else do {
        b \<leftarrow> ga_value a;
        d \<leftarrow> buf_read b (unat offset) (unat (ga_value_len a) - unat offset);
        Some (0, Some d) })"

text \<open>\<open>timer\<close> is the identifier the new timeout gets; \<open>att\<close> a pointer that is passed on.\<close>

definition gatt_db_attribute_read ::
  "gatt_db \<Rightarrow> attr_ref option \<Rightarrow> u16 \<Rightarrow> u8 \<Rightarrow> nat \<Rightarrow> nat \<Rightarrow> nat \<Rightarrow> u32 \<Rightarrow> (bool \<times> gatt_db) option" where
  "gatt_db_attribute_read db attrib offset opcode att func user_data timer =
     (case attrib of
        None \<Rightarrow> Some (False, db)
      | Some r \<Rightarrow>
          if func = 0 then Some (False, db)
          else do {
            a \<leftarrow> db_attr db r;
            if ga_read_func a \<noteq> 0 then do {
              let rid = ga_read_id a + 1;
              let p = \<lparr>pd_id = rid, pd_timeout = timer, pd_func = func, pd_user = user_data\<rparr>;
              Some (True, db_event (Read_asked (ga_read_func a) r rid offset opcode att (ga_user_data a))
                (update_attr r (a\<lparr>ga_read_id := rid, ga_pending_reads := ga_pending_reads a @ [p]\<rparr>) db)) }
            else do {
              (err, d) \<leftarrow> stored_read a offset;
              Some (True, db_event (Read_done func r err d user_data) db) } })"

definition find_pending :: "u32 \<Rightarrow> gatt_pending \<Rightarrow> bool" where
  "find_pending i p \<longleftrightarrow> pd_id p = i"

definition gatt_db_attribute_read_result ::
  "gatt_db \<Rightarrow> attr_ref option \<Rightarrow> u32 \<Rightarrow> int \<Rightarrow> u8 list option \<Rightarrow> (bool \<times> gatt_db) option" where
  "gatt_db_attribute_read_result db attrib i err value =
     (case attrib of
        None \<Rightarrow> Some (False, db)
      | Some r \<Rightarrow>
          if i = 0 then Some (False, db)
          else do {
            a \<leftarrow> db_attr db r;
            case take_first (find_pending i) (ga_pending_reads a) of
              None \<Rightarrow> Some (False, db)
            | Some (p, ps) \<Rightarrow>
                Some (True, pending_read_result r p err value (update_attr r (a\<lparr>ga_pending_reads := ps\<rparr>) db)) })"

text \<open>The timeout of the pending read with the identifier \<open>i\<close>.\<close>

definition read_timeout :: "gatt_db \<Rightarrow> attr_ref \<Rightarrow> u32 \<Rightarrow> gatt_db option" where
  "read_timeout db r i = do {
     a \<leftarrow> db_attr db r;
     (p, ps) \<leftarrow> take_first (find_pending i) (ga_pending_reads a);
     Some (pending_read_result r (p\<lparr>pd_timeout := 0\<rparr>) (- ETIMEDOUT) None
             (update_attr r (a\<lparr>ga_pending_reads := ps\<rparr>) db)) }"

section \<open>Writing\<close>

text \<open>\<open>realloc\<close>: the bytes behind the old block are whatever \<open>heap\<close> says.\<close>

definition regrow :: "(nat \<Rightarrow> u8) \<Rightarrow> u8 list option \<Rightarrow> nat \<Rightarrow> u8 list" where
  "regrow heap old n =
     (let b = (case old of None \<Rightarrow> [] | Some b \<Rightarrow> b) in take n b @ map heap [length b..<n])"

definition gatt_db_attribute_write ::
  "(nat \<Rightarrow> u8) \<Rightarrow> gatt_db \<Rightarrow> attr_ref option \<Rightarrow> u16 \<Rightarrow> u8 list \<Rightarrow> u8 \<Rightarrow> nat \<Rightarrow> nat \<Rightarrow> nat \<Rightarrow> u32 \<Rightarrow>
   (bool \<times> gatt_db) option" where
  "gatt_db_attribute_write heap db attrib offset value opcode att func user_data timer =
     (case attrib of
        None \<Rightarrow> Some (False, db)
      | Some r \<Rightarrow>
          if func = 0 then Some (False, db)
          else do {
            a \<leftarrow> db_attr db r;
            if ga_write_func a \<noteq> 0 then do {
              let wid = ga_write_id a + 1;
              let p = \<lparr>pd_id = wid, pd_timeout = timer, pd_func = func, pd_user = user_data\<rparr>;
              Some (True, db_event (Write_asked (ga_write_func a) r wid offset value opcode att (ga_user_data a))
                (update_attr r (a\<lparr>ga_write_id := wid, ga_pending_writes := ga_pending_writes a @ [p]\<rparr>) db)) }
            else if value = [] then Some (True, db_event (Write_done func r 0 user_data) db)
            else do {
              let n = length value + unat offset;
              let (buf, len) =
                (if ga_value a = None \<or> ga_value_len a \<le> offset
                    \<or> unat (ga_value_len a) - unat offset < length value
                 then let b = regrow heap (ga_value a) n;
                          b = (if ga_value_len a = 0 then replicate (unat offset) 0 @ drop (unat offset) b else b)
                      in (Some b, of_nat n)
                 else (ga_value a, ga_value_len a));
              b \<leftarrow> buf;
              b \<leftarrow> buf_write b (unat offset) value;
              Some (True, db_event (Write_done func r 0 user_data)
                (update_attr r (a\<lparr>ga_value := Some b, ga_value_len := len\<rparr>) db)) } })"

definition gatt_db_attribute_write_result ::
  "gatt_db \<Rightarrow> attr_ref option \<Rightarrow> u32 \<Rightarrow> int \<Rightarrow> (bool \<times> gatt_db) option" where
  "gatt_db_attribute_write_result db attrib i err =
     (case attrib of
        None \<Rightarrow> Some (False, db)
      | Some r \<Rightarrow>
          if i = 0 then Some (False, db)
          else do {
            a \<leftarrow> db_attr db r;
            case take_first (find_pending i) (ga_pending_writes a) of
              None \<Rightarrow> Some (False, db)
            | Some (p, ps) \<Rightarrow>
                Some (True, pending_write_result r p err (update_attr r (a\<lparr>ga_pending_writes := ps\<rparr>) db)) })"

definition write_timeout :: "gatt_db \<Rightarrow> attr_ref \<Rightarrow> u32 \<Rightarrow> gatt_db option" where
  "write_timeout db r i = do {
     a \<leftarrow> db_attr db r;
     (p, ps) \<leftarrow> take_first (find_pending i) (ga_pending_writes a);
     Some (pending_write_result r (p\<lparr>pd_timeout := 0\<rparr>) (- ETIMEDOUT)
             (update_attr r (a\<lparr>ga_pending_writes := ps\<rparr>) db)) }"

definition gatt_db_attribute_reset :: "gatt_db \<Rightarrow> attr_ref option \<Rightarrow> (bool \<times> gatt_db) option" where
  "gatt_db_attribute_reset db attrib =
     (case attrib of
        None \<Rightarrow> Some (False, db)
      | Some r \<Rightarrow> do {
          a \<leftarrow> db_attr db r;
          if ga_value a = None \<or> ga_value_len a = 0 then Some (True, db)
          else Some (True, update_attr r (a\<lparr>ga_value := None, ga_value_len := 0\<rparr>) db) })"

section \<open>What a declaration says\<close>

text \<open>
  The extended properties: each descriptor is read with \<open>read_ext_prop_value\<close>, which stores the first
  byte of a two byte value, at once for a stored value. \<open>prop_func\<close> and \<open>prop_ptr\<close> are the address of that function and of
  the variable it stores to.
\<close>

definition read_ext_prop_value :: "int \<Rightarrow> u8 list option \<Rightarrow> u16 \<Rightarrow> u16" where
  "read_ext_prop_value err value ext_prop =
     (case value of
        Some [b, _] \<Rightarrow> if err \<noteq> 0 then ext_prop else ucast b
      | _ \<Rightarrow> ext_prop)"

definition read_ext_prop ::
  "nat \<Rightarrow> nat \<Rightarrow> u32 \<Rightarrow> attr_ref \<Rightarrow> u16 \<times> gatt_db \<Rightarrow> (u16 \<times> gatt_db) option" where
  "read_ext_prop prop_func prop_ptr timer r st =
     (let (ext_prop, db) = st
      in if ext_prop \<noteq> 0 then Some st
         else do {
           a \<leftarrow> db_attr db r;
           c \<leftarrow> bt_uuid_cmp ext_desc_uuid (ga_uuid a);
           if c \<noteq> 0 then Some st
           else do {
             (ok, db) \<leftarrow> gatt_db_attribute_read db (Some r) 0 0x0a 0 prop_func prop_ptr timer;
             if ga_read_func a \<noteq> 0 then Some (ext_prop, db)
             else do { (err, value) \<leftarrow> stored_read a 0; Some (read_ext_prop_value err value ext_prop, db) } } })"

fun read_ext_props ::
  "nat \<Rightarrow> nat \<Rightarrow> u32 \<Rightarrow> attr_ref list \<Rightarrow> u16 \<times> gatt_db \<Rightarrow> (u16 \<times> gatt_db) option" where
  "read_ext_props prop_func prop_ptr timer [] st = Some st"
| "read_ext_props prop_func prop_ptr timer (r # rs) st =
     Option.bind (read_ext_prop prop_func prop_ptr timer r st) (read_ext_props prop_func prop_ptr timer rs)"

definition get_char_extended_prop ::
  "nat \<Rightarrow> nat \<Rightarrow> u32 \<Rightarrow> gatt_db \<Rightarrow> attr_ref option \<Rightarrow> (u8 \<times> gatt_db) option" where
  "get_char_extended_prop prop_func prop_ptr timer db attrib =
     (case attrib of
        None \<Rightarrow> Some (0, db)
      | Some r \<Rightarrow> do {
          a \<leftarrow> db_attr db r;
          c \<leftarrow> bt_uuid_cmp characteristic_uuid (ga_uuid a);
          if c \<noteq> 0 then Some (0, db)
          else do {
            b \<leftarrow> ga_value a;
            props \<leftarrow> buf_get b 0;
            if props AND 0x80 = 0 then Some (0, db)
            else do {
              descs \<leftarrow> gatt_db_service_foreach_desc db (Some r) 1;
              (ext_prop, db) \<leftarrow> read_ext_props prop_func prop_ptr timer descs (0, db);
              Some (ucast ext_prop, db) } } })"

text \<open>Handle, value handle, properties, extended properties and UUID, the last two when wanted.\<close>

record char_data =
  cd_handle :: u16
  cd_value_handle :: u16
  cd_properties :: u8
  cd_ext_prop :: "u16 option"
  cd_uuid :: "bt_uuid option"

definition gatt_db_attribute_get_char_data ::
  "nat \<Rightarrow> nat \<Rightarrow> u32 \<Rightarrow> gatt_db \<Rightarrow> attr_ref option \<Rightarrow> bool \<Rightarrow> bool \<Rightarrow>
   ((bool \<times> char_data option) \<times> gatt_db) option" where
  "gatt_db_attribute_get_char_data prop_func prop_ptr timer db attrib want_ext want_uuid =
     (case attrib of
        None \<Rightarrow> Some ((False, None), db)
      | Some r \<Rightarrow> do {
          a \<leftarrow> db_attr db r;
          c \<leftarrow> bt_uuid_cmp characteristic_uuid (ga_uuid a);
          if c \<noteq> 0 then Some ((False, None), db)
          else case ga_value a of
            None \<Rightarrow> Some ((False, None), db)
          | Some b \<Rightarrow>
              if ga_value_len a \<noteq> 5 \<and> ga_value_len a \<noteq> 19 then Some ((False, None), db)
              else do {
                props \<leftarrow> buf_get b 0;
                (ext, db) \<leftarrow> (if want_ext
                  then map_option (\<lambda>(e, db). (Some (ucast e), db)) (get_char_extended_prop prop_func prop_ptr timer db attrib)
                  else Some (None, db));
                vh \<leftarrow> get_le16 b 1;
                u \<leftarrow> (if want_uuid then le_to_uuid b 3 (unat (ga_value_len a) - 3) else Some None);
                Some ((\<not> want_uuid \<or> u \<noteq> None,
                       Some \<lparr>cd_handle = ga_handle a, cd_value_handle = vh, cd_properties = props,
                             cd_ext_prop = ext, cd_uuid = u\<rparr>), db) } })"

definition gatt_db_attribute_get_incl_data ::
  "gatt_db \<Rightarrow> attr_ref option \<Rightarrow> (u16 \<times> u16 \<times> u16) option option" where
  "gatt_db_attribute_get_incl_data db attrib =
     (case attrib of
        None \<Rightarrow> Some None
      | Some r \<Rightarrow> do {
          a \<leftarrow> db_attr db r;
          c \<leftarrow> bt_uuid_cmp included_service_uuid (ga_uuid a);
          if c \<noteq> 0 then Some None
          else case ga_value a of
            None \<Rightarrow> Some None
          | Some b \<Rightarrow>
              if ga_value_len a < 4 \<or> 6 < ga_value_len a then Some None
              else do {
                start \<leftarrow> get_le16 b 0;
                fin \<leftarrow> get_le16 b 2;
                Some (Some (ga_handle a, start, fin)) } })"

end
