(* ===== verification/Gatt_Shape.thy ===== *)
theory Gatt_Shape
  imports Gatt_Access
begin

text \<open>
  The shape of a database: each service has its attributes at the front of its array with handles that
  rise within its range, the services follow one another without overlap, and what the operations of
  \<open>Gatt_Db\<close>, \<open>Gatt_Attr\<close> and \<open>Gatt_Access\<close> do to it.
\<close>

section \<open>Comparing UUIDs\<close>

text \<open>The 128 bit form, which comparison is about.\<close>

fun uuid128 :: "bt_uuid \<Rightarrow> u8 list" where
  "uuid128 u = (case bt_uuid_to_uuid128 u None of Some (UUID128 t) \<Rightarrow> u128_data t | _ \<Rightarrow> [])"

declare uuid128.simps [simp del]

lemma uuid_cmp_known:
  "u \<noteq> UNSPEC \<Longrightarrow> v \<noteq> UNSPEC \<Longrightarrow> bt_uuid_cmp u v = Some (memcmp (uuid128 u) (uuid128 v))"
  by (cases u; cases v) (simp_all add: bt_uuid_cmp_def uuid128.simps bt_uuid16_to_uuid128_def bt_uuid32_to_uuid128_def)

definition same_uuid :: "bt_uuid \<Rightarrow> bt_uuid \<Rightarrow> bool" where
  "same_uuid u v \<longleftrightarrow> uuid128 u = uuid128 v"

lemma uuid_cmp_same: "u \<noteq> UNSPEC \<Longrightarrow> v \<noteq> UNSPEC \<Longrightarrow> bt_uuid_cmp u v = Some c \<Longrightarrow> c = 0 \<longleftrightarrow> same_uuid u v"
  by (auto simp: uuid_cmp_known same_uuid_def)

lemma uuid_consts [simp]:
  "primary_service_uuid \<noteq> UNSPEC" "secondary_service_uuid \<noteq> UNSPEC" "included_service_uuid \<noteq> UNSPEC"
  "characteristic_uuid \<noteq> UNSPEC" "ext_desc_uuid \<noteq> UNSPEC" "service_type p \<noteq> UNSPEC"
  by (simp_all add: primary_service_uuid_def secondary_service_uuid_def included_service_uuid_def
      characteristic_uuid_def ext_desc_uuid_def service_type_def)

section \<open>One service\<close>

definition attr_ok :: "gatt_attr \<Rightarrow> bool" where
  "attr_ok a \<longleftrightarrow> ga_uuid a \<noteq> UNSPEC \<and>
     (case ga_value a of None \<Rightarrow> ga_value_len a = 0 | Some b \<Rightarrow> unat (ga_value_len a) \<le> length b)"

text \<open>The attributes of a service, its range of handles.\<close>

definition svc_attrs :: "gatt_service \<Rightarrow> gatt_attr list" where
  "svc_attrs s = map the (takeWhile (\<lambda>a. a \<noteq> None) (sv_attributes s))"

definition svc_num :: "gatt_service \<Rightarrow> nat" where
  "svc_num s = unat (sv_num_handles s)"

definition attr_handles :: "gatt_attr list \<Rightarrow> nat list" where
  "attr_handles as = map (\<lambda>a. unat (ga_handle a)) as"

definition svc_lo :: "gatt_service \<Rightarrow> nat" where
  "svc_lo s = unat (ga_handle (hd (svc_attrs s)))"

definition svc_hi :: "gatt_service \<Rightarrow> nat" where
  "svc_hi s = svc_lo s + svc_num s - 1"

definition decl_ok :: "gatt_attr \<Rightarrow> bool" where
  "decl_ok a \<longleftrightarrow> ga_value_len a = 2 \<or> ga_value_len a = 16"

definition svc_ok :: "gatt_service \<Rightarrow> bool" where
  "svc_ok s \<longleftrightarrow>
     sv_attributes s = map Some (svc_attrs s) @ replicate (svc_num s - length (svc_attrs s)) None \<and>
     svc_attrs s \<noteq> [] \<and> length (svc_attrs s) \<le> svc_num s \<and> list_all attr_ok (svc_attrs s) \<and>
     decl_ok (hd (svc_attrs s)) \<and> 0 < svc_lo s \<and> svc_hi s \<le> 0xffff \<and>
     sorted_wrt (<) (attr_handles (svc_attrs s)) \<and> last (attr_handles (svc_attrs s)) \<le> svc_hi s"

lemma takeWhile_Some [simp]: "takeWhile (\<lambda>a. a \<noteq> None) (map Some as @ replicate n None) = map Some as"
  by (induction as) (cases n, simp_all)

lemma svc_attrs_eq: "sv_attributes s = map Some as @ replicate n None \<Longrightarrow> svc_attrs s = as"
  by (simp only: svc_attrs_def takeWhile_Some) (simp add: comp_def)

lemma svc_okD:
  assumes "svc_ok s"
  shows "sv_attributes s = map Some (svc_attrs s) @ replicate (svc_num s - length (svc_attrs s)) None"
    "svc_attrs s \<noteq> []" "length (svc_attrs s) \<le> svc_num s" "\<And>a. a \<in> set (svc_attrs s) \<Longrightarrow> attr_ok a"
    "decl_ok (hd (svc_attrs s))" "0 < svc_lo s" "svc_hi s \<le> 0xffff" "svc_lo s \<le> svc_hi s"
    "sorted_wrt (<) (attr_handles (svc_attrs s))" "last (attr_handles (svc_attrs s)) \<le> svc_hi s"
    "length (sv_attributes s) = svc_num s" "0 < svc_num s"
proof -
  show eq: "sv_attributes s = map Some (svc_attrs s) @ replicate (svc_num s - length (svc_attrs s)) None"
    and ne: "svc_attrs s \<noteq> []" and le: "length (svc_attrs s) \<le> svc_num s"
    using assms unfolding svc_ok_def by blast+
  show "length (sv_attributes s) = svc_num s" using le by (subst eq) simp
  show "0 < svc_num s" using ne le by (cases "svc_attrs s") auto
  then show "svc_lo s \<le> svc_hi s" by (simp add: svc_hi_def)
qed (use assms in \<open>auto simp: svc_ok_def list_all_iff\<close>)

lemma svc_okI:
  assumes "sv_attributes s = map Some as @ replicate (svc_num s - length as) None" "as \<noteq> []"
    "length as \<le> svc_num s" "list_all attr_ok as" "decl_ok (hd as)" "0 < unat (ga_handle (hd as))"
    "unat (ga_handle (hd as)) + svc_num s - 1 \<le> 0xffff" "sorted_wrt (<) (attr_handles as)"
    "last (attr_handles as) \<le> unat (ga_handle (hd as)) + svc_num s - 1"
  shows "svc_ok s" "svc_attrs s = as"
proof -
  show "svc_attrs s = as" by (rule svc_attrs_eq [OF assms(1)])
  then show "svc_ok s" using assms by (simp add: svc_ok_def svc_lo_def svc_hi_def)
qed

lemma svc_attr_eq:
  assumes "svc_ok s"
  shows "svc_attr s i = (if i < length (svc_attrs s) then Some (svc_attrs s ! i) else None)"
proof (cases "i < svc_num s")
  case True
  have "sv_attributes s ! i =
      (map Some (svc_attrs s) @ replicate (svc_num s - length (svc_attrs s)) None) ! i"
    by (rule arg_cong [OF svc_okD(1) [OF assms]])
  then show ?thesis
    using True svc_okD(11) [OF assms] by (simp add: svc_attr_def buf_get_def nth_append)
qed (use svc_okD(3,11) [OF assms] in \<open>auto simp: svc_attr_def buf_get_def\<close>)

lemma svc_decl:
  assumes "svc_ok s"
  shows "svc_attr s 0 = Some (hd (svc_attrs s))"
  using svc_attr_eq [OF assms, of 0] svc_okD(2) [OF assms] by (simp add: hd_conv_nth)

lemma svc_slots_eq:
  assumes "svc_ok s"
  shows "svc_slots s = map Some (svc_attrs s) @ replicate (svc_num s - length (svc_attrs s)) None"
  using svc_okD(1,11) [OF assms] by (simp add: svc_slots_def svc_num_def)

lemma unat_svc_end:
  assumes "svc_ok s"
  shows "unat (ga_handle (hd (svc_attrs s)) + sv_num_handles s - 1) = svc_hi s"
proof -
  have "ga_handle (hd (svc_attrs s)) + sv_num_handles s - 1 = (of_nat (svc_hi s) :: u16)"
    using svc_okD(12) [OF assms] by (simp add: svc_hi_def svc_lo_def svc_num_def of_nat_diff)
  then show ?thesis using svc_okD(7) [OF assms] by (simp add: unat_of_nat_small)
qed

lemma get_handles_eq:
  assumes "svc_ok s"
  obtains lo hi where "gatt_db_service_get_handles s = Some (lo, hi)" "unat lo = svc_lo s" "unat hi = svc_hi s"
  using svc_decl [OF assms] unat_svc_end [OF assms] by (simp add: gatt_db_service_get_handles_def svc_lo_def)

lemma attribute_index:
  assumes "svc_ok s" "off \<le> svc_num s"
  shows "get_attribute_index s off = (if length (svc_attrs s) < svc_num s - off then length (svc_attrs s) else 0)"
proof -
  have "takeWhile (\<lambda>a. a \<noteq> None) (take n (sv_attributes s)) = map Some (take n (svc_attrs s))" for n
  proof -
    have "take n (sv_attributes s) =
        map Some (take n (svc_attrs s)) @ replicate (min (n - length (svc_attrs s)) (svc_num s - length (svc_attrs s))) None"
      by (subst svc_okD(1) [OF assms(1)]) (simp add: take_map min.commute)
    then show ?thesis by (simp only: takeWhile_Some)
  qed
  then show ?thesis using assms(2) svc_okD(3) [OF assms(1)]
    by (auto simp: get_attribute_index_def Let_def svc_num_def)
qed

lemma set_slot_fields [simp]:
  "sv_addr (set_slot i a s) = sv_addr s" "sv_num_handles (set_slot i a s) = sv_num_handles s"
  "svc_num (set_slot i a s) = svc_num s" "sv_active (set_slot i a s) = sv_active s"
  by (simp_all add: set_slot_def svc_num_def)

lemma attr_handles_simps [simp]:
  "attr_handles [] = []" "attr_handles (a # as) = unat (ga_handle a) # attr_handles as"
  "attr_handles (as @ bs) = attr_handles as @ attr_handles bs" "attr_handles as = [] \<longleftrightarrow> as = []"
  by (simp_all add: attr_handles_def)

lemma handles_in_range:
  assumes "svc_ok s" "h \<in> set (attr_handles (svc_attrs s))"
  shows "svc_lo s \<le> h" "h \<le> svc_hi s"
proof -
  obtain a as where as: "svc_attrs s = a # as" using svc_okD(2) [OF assms(1)] by (cases "svc_attrs s") auto
  show "svc_lo s \<le> h" using assms(2) svc_okD(9) [OF assms(1)] by (auto simp: as svc_lo_def)
  have "h \<le> last (attr_handles (svc_attrs s))"
    using svc_okD(9) [OF assms(1)] assms(2)
    by (cases "attr_handles (svc_attrs s)" rule: rev_cases) (auto simp: sorted_wrt_append)
  then show "h \<le> svc_hi s" using svc_okD(10) [OF assms(1)] by simp
qed

text \<open>A new attribute behind the others, an attribute replaced by one of the same handle.\<close>

lemma append_attr:
  assumes "svc_ok s" "length (svc_attrs s) < svc_num s" "attr_ok a"
    "last (attr_handles (svc_attrs s)) < unat (ga_handle a)" "unat (ga_handle a) \<le> svc_hi s"
  shows "svc_ok (set_slot (length (svc_attrs s)) a s)"
    "svc_attrs (set_slot (length (svc_attrs s)) a s) = svc_attrs s @ [a]"
    "svc_lo (set_slot (length (svc_attrs s)) a s) = svc_lo s"
proof -
  define k where "k = svc_num s - length (svc_attrs s) - 1"
  have k: "svc_num s - length (svc_attrs s) = Suc k" using assms(2) by (simp add: k_def)
  have sl: "sv_attributes (set_slot (length (svc_attrs s)) a s) =
      map Some (svc_attrs s @ [a]) @ replicate (svc_num s - length (svc_attrs s @ [a])) None"
    unfolding set_slot_def using k by (simp, subst svc_okD(1) [OF assms(1)]) (simp add: list_update_append)
  have "sorted_wrt (<) (attr_handles (svc_attrs s @ [a]))"
    using svc_okD(9) [OF assms(1)] assms(4)
    by (cases "attr_handles (svc_attrs s)" rule: rev_cases) (auto simp: sorted_wrt_append)
  then show ok: "svc_ok (set_slot (length (svc_attrs s)) a s)"
    and at: "svc_attrs (set_slot (length (svc_attrs s)) a s) = svc_attrs s @ [a]"
    using svc_okI [of "set_slot (length (svc_attrs s)) a s" "svc_attrs s @ [a]"] sl svc_okD [OF assms(1)] assms(2-)
    by (auto simp: list_all_iff hd_append svc_lo_def svc_hi_def)
  show "svc_lo (set_slot (length (svc_attrs s)) a s) = svc_lo s"
    using svc_okD(2) [OF assms(1)] at by (simp add: svc_lo_def hd_append)
qed

lemma replace_attr:
  assumes "svc_ok s" "svc_attr s i = Some b" "attr_ok a" "ga_handle a = ga_handle b"
    "i = 0 \<Longrightarrow> decl_ok a"
  shows "svc_ok (set_slot i a s)" "svc_attrs (set_slot i a s) = (svc_attrs s)[i := a]"
    "svc_lo (set_slot i a s) = svc_lo s"
proof -
  have i: "i < length (svc_attrs s)" "b = svc_attrs s ! i"
    using assms(2) svc_attr_eq [OF assms(1)] by (auto split: if_splits)
  have h: "attr_handles ((svc_attrs s)[i := a]) = attr_handles (svc_attrs s)"
    using i assms(4) by (simp add: attr_handles_def map_update list_update_same_conv)
  have hd: "hd ((svc_attrs s)[i := a]) = (if i = 0 then a else hd (svc_attrs s))"
    using i by (cases "svc_attrs s") (auto split: nat.splits)
  have hh: "ga_handle (hd ((svc_attrs s)[i := a])) = ga_handle (hd (svc_attrs s))"
    unfolding hd using i assms(4) by (auto simp: hd_conv_nth)
  have sl: "sv_attributes (set_slot i a s) =
      map Some ((svc_attrs s)[i := a]) @ replicate (svc_num s - length ((svc_attrs s)[i := a])) None"
    unfolding set_slot_def using i
    by (simp, subst svc_okD(1) [OF assms(1)]) (simp add: list_update_append map_update)
  have "list_all attr_ok ((svc_attrs s)[i := a])"
    using svc_okD(4) [OF assms(1)] assms(3) set_update_subset_insert [of "svc_attrs s" i a]
    by (auto simp: list_all_iff)
  then show "svc_ok (set_slot i a s)" "svc_attrs (set_slot i a s) = (svc_attrs s)[i := a]"
    using svc_okI [of "set_slot i a s" "(svc_attrs s)[i := a]"] sl svc_okD [OF assms(1)] h hd hh assms(5) i
    by (auto simp: svc_lo_def svc_hi_def)
  then show "svc_lo (set_slot i a s) = svc_lo s" using hh by (simp add: svc_lo_def)
qed

end
