(* ===== verification/Gatt_Invariant.thy ===== *)
theory Gatt_Invariant
  imports Gatt_Shape
begin

text \<open>
  The invariant of the database: its services have the shape of \<open>Gatt_Shape\<close>, live at different
  addresses, and stand in the order of their handle ranges, which do not overlap. Every operation keeps
  it, for a client that inserts services and attributes where there is room.
\<close>

section \<open>The services\<close>

definition services_ok :: "nat \<Rightarrow> gatt_service list \<Rightarrow> bool" where
  "services_ok used ss \<longleftrightarrow> list_all (\<lambda>s. svc_ok s \<and> sv_addr s < used) ss \<and> distinct (map sv_addr ss) \<and>
     sorted_wrt (\<lambda>s t. svc_hi s < svc_lo t) ss"

definition gdb_ok :: "gatt_db \<Rightarrow> bool" where
  "gdb_ok db \<longleftrightarrow> services_ok (db_used db) (db_services db)"

lemma services_ok_simps [simp]:
  "services_ok used []"
  "services_ok used (s # ss) \<longleftrightarrow> svc_ok s \<and> sv_addr s < used \<and> (\<forall>t\<in>set ss. sv_addr s \<noteq> sv_addr t \<and> svc_hi s < svc_lo t)
     \<and> services_ok used ss"
  by (auto simp: services_ok_def)

lemma services_ok_append:
  "services_ok used (ss @ ts) \<longleftrightarrow> services_ok used ss \<and> services_ok used ts \<and>
     (\<forall>s\<in>set ss. \<forall>t\<in>set ts. sv_addr s \<noteq> sv_addr t \<and> svc_hi s < svc_lo t)"
  by (induction ss) auto

lemma services_okD:
  assumes "services_ok used ss" "s \<in> set ss"
  shows "svc_ok s" "sv_addr s < used"
  using assms by (auto simp: services_ok_def list_all_iff)

lemma services_ok_more: "services_ok used ss \<Longrightarrow> used \<le> used' \<Longrightarrow> services_ok used' ss"
  by (auto simp: services_ok_def list_all_iff)

lemma services_ok_filter: "services_ok used ss \<Longrightarrow> services_ok used (filter p ss)"
  by (auto simp: services_ok_def list_all_iff distinct_map_filter sorted_wrt_filter)

lemma services_ok_map:
  assumes "services_ok used ss"
    "\<And>s. s \<in> set ss \<Longrightarrow> svc_ok (f s) \<and> sv_addr (f s) = sv_addr s \<and> svc_lo (f s) = svc_lo s \<and> svc_hi (f s) = svc_hi s"
  shows "services_ok used (map f ss)"
  using assms by (induction ss) auto

lemma db_service_some:
  "db_service db r = Some s \<Longrightarrow> s \<in> set (db_services db) \<and> sv_addr s = r"
  by (auto simp: db_service_def find_Some_iff)

lemma same_addr:
  assumes "services_ok used ss" "s \<in> set ss" "t \<in> set ss" "sv_addr s = sv_addr t"
  shows "s = t"
  using assms by (auto simp: services_ok_def distinct_map inj_on_def)

lemma db_service_member:
  assumes "gdb_ok db" "s \<in> set (db_services db)"
  shows "db_service db (sv_addr s) = Some s"
proof -
  obtain t where t: "db_service db (sv_addr s) = Some t"
    using assms(2) by (cases "db_service db (sv_addr s)") (auto simp: db_service_def find_None_iff)
  then show ?thesis using db_service_some [OF t] same_addr [OF assms(1) [unfolded gdb_ok_def] _ assms(2)] by auto
qed

lemma gdb_okD: "gdb_ok db \<Longrightarrow> db_service db r = Some s \<Longrightarrow> svc_ok s"
  unfolding gdb_ok_def using services_okD(1) db_service_some by blast

lemma svc_hi_eq: "svc_lo s = svc_lo t \<Longrightarrow> sv_num_handles s = sv_num_handles t \<Longrightarrow> svc_hi s = svc_hi t"
  by (simp add: svc_hi_def svc_num_def)

lemma gdb_ok_update:
  assumes "gdb_ok db" "db_service db r = Some s"
    "svc_ok (f s)" "sv_addr (f s) = sv_addr s" "svc_lo (f s) = svc_lo s" "sv_num_handles (f s) = sv_num_handles s"
  shows "gdb_ok (update_service r f db)"
proof -
  have "services_ok (db_used db) (map (\<lambda>s. if sv_addr s = r then f s else s) (db_services db))"
  proof (rule services_ok_map [OF assms(1) [unfolded gdb_ok_def]])
    fix t assume t: "t \<in> set (db_services db)"
    show "svc_ok (if sv_addr t = r then f t else t) \<and> sv_addr (if sv_addr t = r then f t else t) = sv_addr t \<and>
        svc_lo (if sv_addr t = r then f t else t) = svc_lo t \<and> svc_hi (if sv_addr t = r then f t else t) = svc_hi t"
    proof (cases "sv_addr t = r")
      case True
      then have "t = s" using assms(2) db_service_member [OF assms(1) t] by simp
      then show ?thesis using assms(3-) True svc_hi_eq [of "f s" s] by simp
    next
      case False
      then show ?thesis using services_okD(1) [OF assms(1) [unfolded gdb_ok_def] t] by simp
    qed
  qed
  then show ?thesis by (simp add: gdb_ok_def update_service_def)
qed

lemma services_ok_ascending:
  "services_ok used ss \<Longrightarrow> sorted_wrt (<) (concat (map (\<lambda>s. attr_handles (svc_attrs s)) ss))"
proof (induction ss)
  case (Cons s ss)
  have "h < h'" if "h \<in> set (attr_handles (svc_attrs s))" "t \<in> set ss" "h' \<in> set (attr_handles (svc_attrs t))" for h h' t
  proof -
    have t: "svc_ok t" using Cons.prems that(2) services_okD(1) by auto
    have "h \<le> svc_hi s" using handles_in_range(2) Cons.prems that(1) by simp
    also have "svc_hi s < svc_lo t" using Cons.prems that(2) by simp
    also have "svc_lo t \<le> h'" using handles_in_range(1) [OF t] that(3) by simp
    finally show ?thesis .
  qed
  then show ?case using Cons svc_okD(9) by (auto simp: sorted_wrt_append)
qed simp

section \<open>Operations that leave the services alone\<close>

definition same_services :: "gatt_db \<Rightarrow> gatt_db \<Rightarrow> bool" where
  "same_services db db' \<longleftrightarrow> db_services db' = db_services db \<and> db_used db' = db_used db"

lemma same_services_refl [simp]: "same_services db db"
  by (simp add: same_services_def)

lemma same_services_trans: "same_services db db' \<Longrightarrow> same_services db' db'' \<Longrightarrow> same_services db db''"
  by (simp add: same_services_def)

lemma same_services_ok: "same_services db db' \<Longrightarrow> gdb_ok db' \<longleftrightarrow> gdb_ok db"
  by (simp add: same_services_def gdb_ok_def)

lemma same_services_event [simp]: "same_services db (db_event e db)"
  by (simp add: same_services_def db_event_def)

lemma same_services_fold:
  "(\<And>x db. same_services db (f x db)) \<Longrightarrow> same_services db (fold f xs db)"
  by (induction xs arbitrary: db) (auto intro: same_services_trans)

lemma same_services_results [simp]:
  "same_services db (pending_read_result r p err d db)" "same_services db (pending_write_result r p err db)"
  "same_services db (pending_read_free r p db)" "same_services db (pending_write_free r p db)"
  by (auto simp: pending_read_result_def pending_write_result_def pending_read_free_def pending_write_free_def
      Let_def db_event_def same_services_def)

lemma same_services_attribute_destroy [simp]: "same_services db (attribute_destroy r a db)"
  by (auto simp: attribute_destroy_def split: option.splits
      intro!: same_services_trans [OF same_services_fold same_services_fold])

lemma same_services_notify_destroy [simp]: "same_services db (notify_destroy n db)"
  by (simp add: notify_destroy_def)

lemma same_services_notify_all: "notify_all r added ns db = Some db' \<Longrightarrow> same_services db db'"
  by (induction ns arbitrary: db)
    (auto simp: handle_notify_def Let_def bind_eq_Some_conv split: if_splits intro: same_services_trans [OF same_services_event])

lemma same_services_changed: "notify_service_changed s added db = Some db' \<Longrightarrow> same_services db db'"
  by (auto simp: notify_service_changed_def split: if_splits intro: same_services_notify_all)

lemma same_services_destroy:
  assumes "gatt_db_service_destroy s db = Some db'"
  shows "same_services db db'"
proof -
  have f: "same_services db (fold (\<lambda>(i, a). attribute_destroy (sv_addr s, i) a) xs db)" for xs db
    by (rule same_services_fold) auto
  show ?thesis
    using assms f by (auto simp: gatt_db_service_destroy_def bind_eq_Some_conv split: if_splits
        intro: same_services_trans [OF same_services_changed])
qed

lemma same_services_destroy_all: "destroy_services ss db = Some db' \<Longrightarrow> same_services db db'"
  by (induction ss arbitrary: db)
    (auto simp: bind_eq_Some_conv intro: same_services_trans [OF same_services_destroy])

section \<open>Removing services\<close>

lemma remove_service_services:
  assumes "gatt_db_remove_service db (Some r) = Some (b, db')"
  shows "db_services db' = filter (\<lambda>t. sv_addr t \<noteq> fst r) (db_services db)" "db_used db' = db_used db"
  using assms db_service_some same_services_destroy
  by (fastforce simp: gatt_db_remove_service_def bind_eq_Some_conv same_services_def)+

lemma gdb_ok_remove: "gdb_ok db \<Longrightarrow> gatt_db_remove_service db a = Some (b, db') \<Longrightarrow> gdb_ok db'"
  by (cases a) (auto simp: gatt_db_remove_service_def [of _ None] gdb_ok_def remove_service_services services_ok_filter)

definition overlaps :: "u16 \<Rightarrow> u16 \<Rightarrow> gatt_service \<Rightarrow> bool" where
  "overlaps start fin s \<longleftrightarrow> svc_lo s \<le> unat fin \<and> unat start \<le> svc_hi s"

lemma match_range_eq: "svc_ok s \<Longrightarrow> match_range start fin s = Some (overlaps start fin s)"
  by (erule get_handles_eq) (auto simp: match_range_def overlaps_def word_le_nat_alt)

lemma split_services_eq:
  assumes "list_all svc_ok ss"
  shows "split_services (match_range start fin) ss =
    Some (filter (overlaps start fin) ss, filter (\<lambda>s. \<not> overlaps start fin s) ss)"
  using assms by (induction ss) (simp_all add: match_range_eq)

lemma services_list_all: "gdb_ok db \<Longrightarrow> list_all svc_ok (db_services db)"
  by (auto simp: gdb_ok_def services_ok_def list_all_iff)

lemma whole_range_overlaps:
  assumes "gdb_ok db" "s \<in> set (db_services db)"
  shows "overlaps 1 0xffff s"
proof -
  have "svc_ok s" using services_list_all [OF assms(1)] assms(2) by (simp add: list_all_iff)
  from svc_okD(6,7,8) [OF this] show ?thesis by (simp add: overlaps_def)
qed

lemma clear_range_services:
  assumes "gdb_ok db" "gatt_db_clear_range db start fin = Some (True, db')"
  shows "db_services db' = filter (\<lambda>s. \<not> overlaps start fin s) (db_services db)" "db_used db' = db_used db"
proof -
  define stay where "stay = filter (\<lambda>s. \<not> overlaps start fin s) (db_services db)"
  have whole: "stay = []" if "start = 1 \<and> fin = 0xffff"
    using that whole_range_overlaps [OF assms(1)] by (auto simp: stay_def filter_empty_conv)
  obtain out d where d: "destroy_services out (db\<lparr>db_services := stay\<rparr>) = Some d"
    "db' = (if gatt_db_isempty d then d\<lparr>db_next_handle := 0\<rparr> else d)"
    using assms(2) whole
    by (auto simp: gatt_db_clear_range_def bind_eq_Some_conv split_services_eq [OF services_list_all [OF assms(1)]]
        stay_def split: if_splits)
  have "same_services (db\<lparr>db_services := stay\<rparr>) d" by (rule same_services_destroy_all [OF d(1)])
  then show "db_services db' = filter (\<lambda>s. \<not> overlaps start fin s) (db_services db)" "db_used db' = db_used db"
    using d(2) by (auto simp: same_services_def stay_def)
qed

lemma gdb_ok_clear_range:
  assumes "gdb_ok db" "gatt_db_clear_range db start fin = Some (b, db')"
  shows "gdb_ok db'"
proof (cases b)
  case True
  then show ?thesis
    using clear_range_services [OF assms(1)] assms services_ok_filter by (simp add: gdb_ok_def)
next
  case False
  then show ?thesis
    using assms by (auto simp: gatt_db_clear_range_def bind_eq_Some_conv split: if_splits)
qed

section \<open>Inserting a service\<close>

text \<open>What the search for the place sees: the first service that holds the start or the end of the range.\<close>

definition holds_end :: "u16 \<Rightarrow> u16 \<Rightarrow> gatt_service \<Rightarrow> bool" where
  "holds_end start fin s \<longleftrightarrow> (svc_lo s \<le> unat start \<and> unat start \<le> svc_hi s) \<or> (svc_lo s \<le> unat fin \<and> unat fin \<le> svc_hi s)"

lemma find_insert_loc_step:
  assumes "svc_ok s"
  shows "find_insert_loc start fin after (s # ss) =
    (if holds_end start fin s then Some (Some s, after) else if unat fin < svc_lo s then Some (None, after)
     else find_insert_loc start fin (Some s) ss)"
  using assms by (rule get_handles_eq) (auto simp: holds_end_def word_le_nat_alt word_less_nat_alt)

lemma find_insert_loc_total: "list_all svc_ok ss \<Longrightarrow> \<exists>r. find_insert_loc start fin after ss = Some r"
proof (induction ss arbitrary: after)
  case (Cons s ss)
  then show ?case by (simp add: find_insert_loc_step del: find_insert_loc.simps)
qed simp

lemma find_insert_loc_place:
  assumes "services_ok used ss" "find_insert_loc start fin after ss = Some (None, a)"
  shows "\<exists>pre post. ss = pre @ post \<and> a = (if pre = [] then after else Some (last pre)) \<and>
    (\<forall>s\<in>set pre. svc_hi s < unat start \<or> (unat start < svc_lo s \<and> svc_hi s < unat fin)) \<and>
    (\<forall>s\<in>set post. unat fin < svc_lo s)"
  using assms
proof (induction ss arbitrary: after)
  case (Cons s ss)
  have s: "svc_ok s" using Cons.prems(1) by simp
  have h: "\<not> holds_end start fin s"
    and r: "unat fin < svc_lo s \<and> a = after \<or> \<not> unat fin < svc_lo s \<and> find_insert_loc start fin (Some s) ss = Some (None, a)"
    using Cons.prems(2) unfolding find_insert_loc_step [OF s] by (auto split: if_splits)
  show ?case
  proof (cases "unat fin < svc_lo s")
    case True
    then have "\<forall>t\<in>set (s # ss). unat fin < svc_lo t" using Cons.prems(1) svc_okD(8) [OF s] by force
    then show ?thesis using r True by (intro exI [of _ "[]"] exI [of _ "s # ss"]) simp
  next
    case False
    then obtain pre post where *: "ss = pre @ post" "a = (if pre = [] then Some s else Some (last pre))"
      "\<forall>s\<in>set pre. svc_hi s < unat start \<or> (unat start < svc_lo s \<and> svc_hi s < unat fin)"
      "\<forall>s\<in>set post. unat fin < svc_lo s"
      using Cons.IH [of "Some s"] Cons.prems(1) r by auto
    have "svc_hi s < unat start \<or> (unat start < svc_lo s \<and> svc_hi s < unat fin)"
      using h False by (auto simp: holds_end_def)
    then show ?thesis using * by (intro exI [of _ "s # pre"] exI [of _ post]) auto
  qed
qed simp

lemma push_after_last:
  "pre \<noteq> [] \<Longrightarrow> distinct (map sv_addr (pre @ post)) \<Longrightarrow>
     push_after (sv_addr (last pre)) new (pre @ post) = Some (pre @ new # post)"
proof (induction pre)
  case (Cons s pre)
  then show ?case by (cases "pre = []") (auto simp: image_iff)
qed simp

lemma word_pos: "(1 :: u16) \<le> w \<longleftrightarrow> w \<noteq> 0"
  by (auto simp: word_le_nat_alt Suc_le_eq unat_gt_0)

lemma uuid_to_le_length: "uuid_to_le u = Some v \<Longrightarrow> length v = 2 \<or> length v = 16"
  by (cases u) (auto simp: uuid_to_le_def bt_uuid16_to_uuid128_def bt_uuid32_to_uuid128_def)

lemma new_attribute_simps [simp]:
  "ga_handle (new_attribute h u v) = h" "ga_uuid (new_attribute h u v) = u"
  "ga_value_len (new_attribute h u v) = of_nat (length v)" "ga_pending_reads (new_attribute h u v) = []"
  "ga_value (new_attribute h u v) = (if v = [] then None else Some v)"
  "ga_handle (set_attribute_data r w p d a) = ga_handle a" "ga_uuid (set_attribute_data r w p d a) = ga_uuid a"
  "ga_value_len (set_attribute_data r w p d a) = ga_value_len a" "ga_value (set_attribute_data r w p d a) = ga_value a"
  by (simp_all add: new_attribute_def set_attribute_data_def)

lemma new_attribute_ok:
  assumes "u \<noteq> UNSPEC"
  shows "attr_ok (set_attribute_data r w p d (new_attribute h u v))"
proof -
  have "unat (of_nat (length v) :: u16) \<le> length v" by (simp add: unat_of_nat)
  then show ?thesis using assms by (simp add: attr_ok_def)
qed

lemma service_create_ok:
  assumes "gatt_db_service_create addr uuid handle primary num = Some (Some s)"
    "1 \<le> handle" "unat handle + unat num - 1 \<le> 0xffff"
  shows "svc_ok (s\<lparr>sv_num_handles := num\<rparr>)" "svc_lo (s\<lparr>sv_num_handles := num\<rparr>) = unat handle"
    "svc_hi (s\<lparr>sv_num_handles := num\<rparr>) = unat handle + unat num - 1" "sv_addr s = addr" "\<not> sv_active s"
    "\<exists>v. uuid_to_le uuid = Some v \<and> svc_attrs (s\<lparr>sv_num_handles := num\<rparr>) =
       [set_attribute_data 0 0 BT_ATT_PERM_READ 0 (new_attribute handle (service_type primary) v)]"
proof -
  obtain v where v: "uuid_to_le uuid = Some v" "num \<noteq> 0" and s: "s = \<lparr>sv_addr = addr, sv_active = False,
      sv_claimed = False, sv_num_handles = 0, sv_attributes = (replicate (unat num) None)[0 := Some
        (set_attribute_data 0 0 BT_ATT_PERM_READ 0 (new_attribute handle (service_type primary) v))]\<rparr>"
    using assms(1) by (auto simp: gatt_db_service_create_def bind_eq_Some_conv Let_def split: if_splits)
  let ?d = "set_attribute_data 0 0 BT_ATT_PERM_READ 0 (new_attribute handle (service_type primary) v)"
  let ?s = "s\<lparr>sv_num_handles := num\<rparr>"
  have n: "1 \<le> unat num" "1 \<le> unat handle" using v(2) assms(2) by (simp_all add: word_le_nat_alt unat_gt_0 Suc_le_eq)
  have sl: "sv_attributes ?s = map Some [?d] @ replicate (svc_num ?s - length [?d]) None"
    using n by (cases "unat num") (simp_all add: s svc_num_def)
  have d: "decl_ok ?d" using uuid_to_le_length [OF v(1)] by (auto simp: decl_ok_def)
  have ok: "svc_ok ?s" "svc_attrs ?s = [?d]"
    using svc_okI [OF sl] n d assms(3) new_attribute_ok [of "service_type primary"] by (simp_all add: svc_num_def)
  then show "svc_ok ?s" "svc_lo ?s = unat handle" "svc_hi ?s = unat handle + unat num - 1"
    "sv_addr s = addr" "\<not> sv_active s" "\<exists>v. uuid_to_le uuid = Some v \<and> svc_attrs ?s =
       [set_attribute_data 0 0 BT_ATT_PERM_READ 0 (new_attribute handle (service_type primary) v)]"
    using v(1) by (simp_all add: svc_lo_def svc_hi_def svc_num_def s)
qed

text \<open>No service lies strictly inside the range: the case that the search for the place does not see.\<close>

definition none_inside :: "gatt_db \<Rightarrow> u16 \<Rightarrow> u16 \<Rightarrow> bool" where
  "none_inside db start fin \<longleftrightarrow>
     list_all (\<lambda>s. \<not> (unat start < svc_lo s \<and> svc_hi s < unat fin)) (db_services db)"

lemma insert_service_new:
  assumes "gdb_ok db" "gatt_db_insert_service db handle uuid primary num = Some (r, db')"
    "none_inside db handle (handle + num - 1)" "db' \<noteq> db"
  obtains pre post s where "db_services db = pre @ post" "db_services db' = pre @ s\<lparr>sv_num_handles := num\<rparr> # post"
    "gatt_db_service_create (db_used db) uuid handle primary num = Some (Some s)" "db_used db' = Suc (db_used db)"
    "1 \<le> handle" "unat handle + unat num - 1 \<le> 0xffff" "r = Some (db_used db, 0)"
    "\<forall>t\<in>set pre. svc_hi t < unat handle" "\<forall>t\<in>set post. unat handle + unat num - 1 < svc_lo t"
    "unat (db_next_handle db') = max (unat handle + unat num) (unat (db_next_handle db)) mod 2 ^ 16"
    "db_log db' = db_log db"
proof -
  let ?fin = "handle + num - 1"
  have h1: "\<not> handle < 1" and c: "\<not> (num < 1 \<or> 0xffff < int (unat handle) + int (unat num) - 1)"
    using assms(2,4) by (auto simp only: gatt_db_insert_service_def option.inject prod.inject split: if_splits)
  moreover from c have "unat handle + unat num - 1 \<le> 0xffff" by (simp only: de_Morgan_disj) linarith
  ultimately have g: "1 \<le> handle" "1 \<le> num" "unat handle + unat num - 1 \<le> 0xffff"
    by (simp_all add: word_pos)
  have f: "handle \<noteq> 0" "num \<noteq> 0" "\<not> 65536 < uint handle + uint num" using h1 c by (auto simp: not_less)
  obtain sv a where loc: "find_insert_loc handle ?fin None (db_services db) = Some (sv, a)"
    using find_insert_loc_total [OF services_list_all [OF assms(1)]] by (metis surj_pair)
  have None: "sv = None"
    using assms(2,4) g loc by (cases sv) (auto simp: gatt_db_insert_service_def bind_eq_Some_conv split: if_splits)
  have "?fin = (of_nat (unat handle + unat num - 1) :: u16)"
    using g by (simp add: of_nat_diff word_le_nat_alt)
  then have fin: "unat ?fin = unat handle + unat num - 1" using g(3) by (simp add: unat_of_nat_small)
  obtain pre post where p: "db_services db = pre @ post" "a = (if pre = [] then None else Some (last pre))"
    "\<forall>s\<in>set pre. svc_hi s < unat handle \<or> (unat handle < svc_lo s \<and> svc_hi s < unat ?fin)"
    "\<forall>s\<in>set post. unat ?fin < svc_lo s"
    using find_insert_loc_place [OF assms(1) [unfolded gdb_ok_def] loc [unfolded None]] by auto
  have pre: "\<forall>t\<in>set pre. svc_hi t < unat handle"
    using p(1,3) assms(3) by (auto simp: none_inside_def list_all_iff)
  obtain s where s: "gatt_db_service_create (db_used db) uuid handle primary num = Some (Some s)"
  proof (cases "gatt_db_service_create (db_used db) uuid handle primary num")
    case (Some c)
    then show thesis using assms(2,4) f loc None that by (cases c) (auto simp: gatt_db_insert_service_def)
  qed (use assms(2) f loc None in \<open>auto simp: gatt_db_insert_service_def\<close>)
  have addr: "sv_addr s = db_used db" using service_create_ok(4) [OF s g(1,3)] .
  have dist: "distinct (map sv_addr (pre @ post))"
    using assms(1) by (simp add: gdb_ok_def services_ok_def p(1))
  have ins: "(case a of Some a \<Rightarrow> push_after (sv_addr a) (s\<lparr>sv_num_handles := num\<rparr>) (db_services db)
      | None \<Rightarrow> Some (s\<lparr>sv_num_handles := num\<rparr> # db_services db)) = Some (pre @ s\<lparr>sv_num_handles := num\<rparr> # post)"
    using push_after_last [OF _ dist] by (auto simp: p(1,2))
  have db': "db' = db\<lparr>db_services := pre @ s\<lparr>sv_num_handles := num\<rparr> # post, db_used := db_used db + 1,
      db_next_handle := of_nat (max (unat handle + unat num) (unat (db_next_handle db)))\<rparr>" "r = Some (db_used db, 0)"
    using assms(2) f loc None s ins addr by (auto simp: gatt_db_insert_service_def)
  show thesis
    by (rule that [OF p(1) _ s _ g(1,3) db'(2) pre]) (use p(4) fin in \<open>auto simp: db'(1) unat_of_nat\<close>)
qed

lemma gdb_ok_insert_service:
  assumes "gdb_ok db" "gatt_db_insert_service db handle uuid primary num = Some (r, db')"
    "none_inside db handle (handle + num - 1)"
  shows "gdb_ok db'"
proof (cases "db' = db")
  case False
  then obtain pre post s where *: "db_services db = pre @ post" "db_services db' = pre @ s\<lparr>sv_num_handles := num\<rparr> # post"
    "gatt_db_service_create (db_used db) uuid handle primary num = Some (Some s)" "db_used db' = Suc (db_used db)"
    "1 \<le> handle" "unat handle + unat num - 1 \<le> 0xffff"
    "\<forall>t\<in>set pre. svc_hi t < unat handle" "\<forall>t\<in>set post. unat handle + unat num - 1 < svc_lo t"
    by (rule insert_service_new [OF assms])
  note new = service_create_ok [OF *(3,5,6)]
  have old: "services_ok (db_used db) (pre @ post)" using assms(1) by (simp add: gdb_ok_def *(1))
  have "services_ok (db_used db') (pre @ post)" using services_ok_more [OF old] *(4) by simp
  moreover have "\<forall>t\<in>set (pre @ post). sv_addr t < db_used db" using services_okD(2) [OF old] by blast
  moreover have "\<forall>t\<in>set (pre @ post). sv_addr s \<noteq> sv_addr t \<and> sv_addr t \<noteq> sv_addr s" using calculation(2) new(4) by force
  ultimately show ?thesis
    using new(1-3) *(4,7,8) by (auto simp: gdb_ok_def *(2) services_ok_append new(4))
qed (simp add: assms(1))

section \<open>Inserting attributes\<close>

text \<open>There is room for attributes from handle \<open>k\<close> behind the last one on, the last of them \<open>handle\<close>.\<close>

definition last_handle :: "gatt_service \<Rightarrow> nat" where
  "last_handle s = last (attr_handles (svc_attrs s))"

definition fits :: "gatt_service \<Rightarrow> u16 \<Rightarrow> nat \<Rightarrow> bool" where
  "fits s handle k \<longleftrightarrow>
     (let h = (if handle = 0 then last_handle s + k else unat handle) in last_handle s + k \<le> h \<and> h \<le> svc_hi s)"

lemma last_handle_at:
  assumes "svc_ok s"
  shows "get_handle_at_index s (length (svc_attrs s) - 1) = Some (ga_handle (last (svc_attrs s)))"
    "unat (ga_handle (last (svc_attrs s))) = last_handle s"
  using svc_okD(2) [OF assms]
  by (simp_all add: get_handle_at_index_def svc_attr_eq [OF assms] last_conv_nth last_handle_def attr_handles_def)

text \<open>The handle that the code computes for \<open>k\<close> handles behind the last one.\<close>

lemma next_handle_at:
  assumes "svc_ok s" "fits s handle k"
  shows "unat (if handle = 0 then ga_handle (last (svc_attrs s)) + of_nat k else handle) =
    (if handle = 0 then last_handle s + k else unat handle)"
proof -
  have "unat (ga_handle (last (svc_attrs s)) + of_nat k) = last_handle s + k" if "handle = 0"
    using that assms(2) svc_okD(7) [OF assms(1)] last_handle_at(2) [OF assms(1)]
    by (intro trans [OF unat_add_of_nat]) (auto simp: fits_def)
  then show ?thesis by simp
qed

definition same_place :: "gatt_service \<Rightarrow> gatt_service \<Rightarrow> bool" where
  "same_place s s' \<longleftrightarrow> sv_addr s' = sv_addr s \<and> svc_lo s' = svc_lo s \<and> sv_num_handles s' = sv_num_handles s"

lemma append_attr_at:
  assumes "svc_ok s" "i = length (svc_attrs s)" "i < svc_num s" "attr_ok a" "last_handle s < unat (ga_handle a)"
    "unat (ga_handle a) \<le> svc_hi s"
  shows "svc_ok (set_slot i a s)" "svc_attrs (set_slot i a s) = svc_attrs s @ [a]" "same_place s (set_slot i a s)"
    "last_handle (set_slot i a s) = unat (ga_handle a)" "svc_hi (set_slot i a s) = svc_hi s"
  using append_attr [of s a] assms svc_hi_eq [of "set_slot i a s" s]
  by (simp_all add: last_handle_def same_place_def)

text \<open>The attributes of a characteristic: its declaration and its value.\<close>

definition char_decl :: "u16 \<Rightarrow> u8 \<Rightarrow> u8 list \<Rightarrow> gatt_attr" where
  "char_decl handle properties u = set_attribute_data 0 0 BT_ATT_PERM_READ 0
     (new_attribute (handle - 1) characteristic_uuid ([properties] @ le16_bytes handle @ u))"

definition given_handle :: "gatt_service \<Rightarrow> u16 \<Rightarrow> nat \<Rightarrow> u16" where
  "given_handle s handle k = (if handle = 0 then ga_handle (last (svc_attrs s)) + of_nat k else handle)"

lemma given_handle_range:
  assumes "svc_ok s" "fits s handle k"
  shows "last_handle s + k \<le> unat (given_handle s handle k)" "unat (given_handle s handle k) \<le> svc_hi s"
  using assms(2) next_handle_at [OF assms] by (auto simp: fits_def given_handle_def Let_def split: if_splits)

lemma insert_characteristic:
  assumes ok: "svc_ok s" and fits: "fits s handle 2"
    and ins: "service_insert_characteristic s handle uuid p props rd wr d = Some (Some (i, s'))"
  obtains v where "uuid_to_le uuid = Some v" "i = Suc (length (svc_attrs s))" "svc_ok s'" "same_place s s'"
    "svc_attrs s' = svc_attrs s @ [char_decl (given_handle s handle 2) props v,
       set_attribute_data rd wr p d (new_attribute (given_handle s handle 2) uuid [])]"
proof -
  let ?n = "length (svc_attrs s)" and ?h = "given_handle s handle 2"
  have n0: "?n \<noteq> 0" using svc_okD(2) [OF ok] by simp
  have idx: "get_attribute_index s 1 = (if ?n < svc_num s - 1 then ?n else 0)"
    using attribute_index [OF ok, of 1] svc_okD(12) [OF ok] by simp
  then have room: "?n < svc_num s - 1"
    using ins by (auto simp: service_insert_characteristic_def Let_def bind_eq_Some_conv split: if_splits)
  then have idx: "get_attribute_index s 1 = ?n" using idx by simp
  obtain v where v: "uuid_to_le uuid = Some v" and i: "i = Suc ?n"
    and s': "s' = set_slot (Suc ?n) (set_attribute_data rd wr p d (new_attribute ?h uuid []))
                    (set_slot ?n (char_decl ?h props v) s)"
    using ins idx last_handle_at(1) [OF ok] n0
    by (auto simp: service_insert_characteristic_def char_decl_def given_handle_def Let_def bind_eq_Some_conv split: if_splits)
  note h = given_handle_range [OF ok fits]
  have hm: "unat (?h - 1) = unat ?h - 1"
    using h(1) by (metis add_leD2 not_numeral_le_zero unat_minus_one unsigned_0)
  have u: "uuid \<noteq> UNSPEC" using v by (auto simp: uuid_to_le_def)
  have a: "ga_handle (char_decl ?h props v) = ?h - 1" "attr_ok (char_decl ?h props v)"
    by (simp_all only: char_decl_def new_attribute_simps new_attribute_ok uuid_consts not_False_eq_True)
  note one = append_attr_at [OF ok refl, of "char_decl ?h props v"]
  have one: "svc_ok (set_slot ?n (char_decl ?h props v) s)"
    "svc_attrs (set_slot ?n (char_decl ?h props v) s) = svc_attrs s @ [char_decl ?h props v]"
    "same_place s (set_slot ?n (char_decl ?h props v) s)"
    "last_handle (set_slot ?n (char_decl ?h props v) s) = unat ?h - 1"
    "svc_hi (set_slot ?n (char_decl ?h props v) s) = svc_hi s"
    using one a h hm room by auto
  note two = append_attr_at [OF one(1) refl, of "set_attribute_data rd wr p d (new_attribute ?h uuid [])"]
  show thesis
    by (rule that [OF v i]) (use two one h room new_attribute_ok [OF u] in \<open>auto simp: s' same_place_def\<close>)
qed

lemma insert_descriptor:
  assumes ok: "svc_ok s" and fits: "fits s handle 1" and u: "uuid \<noteq> UNSPEC"
    and ins: "service_insert_descriptor s handle uuid p rd wr d = Some (Some (i, s'))"
  shows "i = length (svc_attrs s)" "svc_ok s'" "same_place s s'"
    "svc_attrs s' = svc_attrs s @ [set_attribute_data rd wr p d (new_attribute (given_handle s handle 1) uuid [])]"
proof -
  let ?n = "length (svc_attrs s)"
  let ?a = "set_attribute_data rd wr p d (new_attribute (given_handle s handle 1) uuid [])"
  have n0: "?n \<noteq> 0" using svc_okD(2) [OF ok] by simp
  note idx = attribute_index [OF ok, of 0]
  then have room: "?n < svc_num s"
    using ins by (auto simp: service_insert_descriptor_def Let_def bind_eq_Some_conv split: if_splits)
  have i: "i = ?n" and s': "s' = set_slot ?n ?a s"
    using ins idx room last_handle_at(1) [OF ok] n0
    by (auto simp: service_insert_descriptor_def given_handle_def Let_def bind_eq_Some_conv split: if_splits)
  note one = append_attr_at [OF ok refl room new_attribute_ok [OF u]]
  show "i = ?n" by (rule i)
  show "svc_ok s'" "same_place s s'" "svc_attrs s' = svc_attrs s @ [?a]"
    using one [of rd wr p d "given_handle s handle 1" "[]"] given_handle_range [OF ok fits] by (auto simp: s')
qed

text \<open>An included service is put behind the last attribute, whatever handle was given.\<close>

lemma insert_included:
  assumes ok: "svc_ok s" and fits: "fits s 0 1"
    and ins: "service_insert_included s handle included = Some (Some (i, s'))"
  obtains v where "included_value included = Some v" "i = length (svc_attrs s)" "svc_ok s'" "same_place s s'"
    "svc_attrs s' = svc_attrs s @ [set_attribute_data 0 0 BT_ATT_PERM_READ 0
       (new_attribute (given_handle s 0 1) included_service_uuid v)]"
proof -
  let ?n = "length (svc_attrs s)"
  have n0: "?n \<noteq> 0" using svc_okD(2) [OF ok] by simp
  note idx = attribute_index [OF ok, of 0]
  then have room: "?n < svc_num s"
    using ins by (auto simp: service_insert_included_def Let_def bind_eq_Some_conv split: if_splits)
  define b where "b = (\<lambda>v h. set_attribute_data 0 0 BT_ATT_PERM_READ 0 (new_attribute h included_service_uuid v))"
  obtain v h where v: "included_value included = Some v" and i: "i = ?n"
    and s': "attribute_update (set_slot ?n (b v h) s) ?n = Some s'"
    using ins idx room last_handle_at(1) [OF ok] n0
    by (auto simp: service_insert_included_def b_def Let_def bind_eq_Some_conv split: if_splits)
  have l: "?n < length (sv_attributes s)" using room svc_okD(11) [OF ok] by simp
  have l1: "?n - 1 \<noteq> ?n" using n0 by linarith
  have "svc_attr (set_slot ?n (b v h) s) ?n = Some (b v h)"
    "svc_attr (set_slot ?n (b v h) s) (?n - 1) = Some (last (svc_attrs s))"
    using l l1 n0 svc_attr_eq [OF ok, of "?n - 1"]
    by (simp_all add: svc_attr_def set_slot_def buf_get_def last_conv_nth split: if_splits)
  then have s': "s' = set_slot ?n (b v (given_handle s 0 1)) s"
    using s' by (simp add: attribute_update_def given_handle_def b_def set_slot_def set_attribute_data_def new_attribute_def)
  note one = append_attr_at [OF ok refl room, of "b v (given_handle s 0 1)"]
  show thesis
    by (rule that [OF v i])
      (use one given_handle_range [OF ok fits] new_attribute_ok [of included_service_uuid] in \<open>auto simp: s' b_def\<close>)
qed

section \<open>Attributes in the database\<close>

lemma same_placeD: "same_place s s' \<Longrightarrow> sv_addr s' = sv_addr s \<and> svc_lo s' = svc_lo s \<and> sv_num_handles s' = sv_num_handles s"
  by (simp add: same_place_def)

lemma gdb_ok_insert_into:
  assumes "gdb_ok db" "insert_into db r f = Some (x, db')"
    "\<And>s i s'. db_service db (fst r) = Some s \<Longrightarrow> f s = Some (Some (i, s')) \<Longrightarrow> svc_ok s' \<and> same_place s s'"
  shows "gdb_ok db'"
proof -
  obtain s res where s: "db_service db (fst r) = Some s" "f s = Some res"
    and x: "Some (x, db') = (case res of None \<Rightarrow> Some (None, db)
      | Some (i, s') \<Rightarrow> Some (Some (fst r, i), update_service (fst r) (\<lambda>_. s') db))"
    using assms(2) by (auto simp: insert_into_def bind_eq_Some_conv)
  show ?thesis
  proof (cases res)
    case (Some y)
    then obtain i s' where y: "f s = Some (Some (i, s'))" "db' = update_service (fst r) (\<lambda>_. s') db"
      using s(2) x by (cases y) auto
    then show ?thesis
      using gdb_ok_update [OF assms(1) s(1), of "\<lambda>_. s'"] assms(3) [OF s(1) y(1)] by (auto dest: same_placeD)
  qed (use x assms(1) in simp)
qed

lemma db_attr_some:
  assumes "db_attr db r = Some a"
  obtains s where "db_service db (fst r) = Some s" "svc_attr s (snd r) = Some a"
  using assms by (auto simp: db_attr_def bind_eq_Some_conv)

lemma gdb_ok_update_attr:
  assumes "gdb_ok db" "db_attr db r = Some a" "attr_ok a'" "ga_handle a' = ga_handle a" "snd r = 0 \<Longrightarrow> decl_ok a'"
  shows "gdb_ok (update_attr r a' db)"
proof -
  obtain s where s: "db_service db (fst r) = Some s" "svc_attr s (snd r) = Some a"
    by (rule db_attr_some [OF assms(2)])
  show ?thesis
    unfolding update_attr_def
    using replace_attr [OF gdb_okD [OF assms(1) s(1)] s(2) assms(3-)]
    by (intro gdb_ok_update [OF assms(1) s(1)]) auto
qed

lemma db_attr_ok:
  assumes "gdb_ok db" "db_attr db r = Some a"
  shows "attr_ok a" "snd r = 0 \<Longrightarrow> decl_ok a"
proof -
  obtain s where s: "db_service db (fst r) = Some s" "svc_attr s (snd r) = Some a"
    by (rule db_attr_some [OF assms(2)])
  note ok = gdb_okD [OF assms(1) s(1)]
  have "a = svc_attrs s ! snd r" "snd r < length (svc_attrs s)"
    using s(2) svc_attr_eq [OF ok] by (auto split: if_splits)
  then show "attr_ok a" "snd r = 0 \<Longrightarrow> decl_ok a"
    using svc_okD(4,5) [OF ok] by (auto simp: hd_conv_nth)
qed

text \<open>An update that leaves the handle, the UUID and the value.\<close>

lemma gdb_ok_update_same:
  assumes "gdb_ok db" "db_attr db r = Some a" "ga_handle a' = ga_handle a" "ga_uuid a' = ga_uuid a"
    "ga_value a' = ga_value a" "ga_value_len a' = ga_value_len a"
  shows "gdb_ok (update_attr r a' db)"
  using db_attr_ok [OF assms(1,2)] assms(3-)
  by (intro gdb_ok_update_attr [OF assms(1,2)]) (auto simp: attr_ok_def decl_ok_def cong: option.case_cong)

lemma gdb_ok_read:
  assumes "gdb_ok db" "gatt_db_attribute_read db attrib off opc att f u t = Some (b, db')"
  shows "gdb_ok db'"
  using assms
  by (auto simp: gatt_db_attribute_read_def Let_def bind_eq_Some_conv same_services_ok [OF same_services_event]
      split: option.splits if_splits elim!: gdb_ok_update_same [rotated])

lemma gdb_ok_read_result:
  assumes "gdb_ok db" "gatt_db_attribute_read_result db attrib i err v = Some (b, db')"
  shows "gdb_ok db'"
  using assms
  by (auto simp: gatt_db_attribute_read_result_def bind_eq_Some_conv same_services_ok [OF same_services_results(1)]
      split: option.splits if_splits elim!: gdb_ok_update_same [rotated])

lemma gdb_ok_write_result:
  assumes "gdb_ok db" "gatt_db_attribute_write_result db attrib i err = Some (b, db')"
  shows "gdb_ok db'"
  using assms
  by (auto simp: gatt_db_attribute_write_result_def bind_eq_Some_conv same_services_ok [OF same_services_results(2)]
      split: option.splits if_splits elim!: gdb_ok_update_same [rotated])

lemma gdb_ok_timeouts:
  assumes "gdb_ok db"
  shows "read_timeout db r i = Some db' \<Longrightarrow> gdb_ok db'" "write_timeout db r i = Some db' \<Longrightarrow> gdb_ok db'"
  using assms
  by (auto simp: read_timeout_def write_timeout_def bind_eq_Some_conv same_services_ok [OF same_services_results(1)]
      same_services_ok [OF same_services_results(2)] elim!: gdb_ok_update_same [rotated])

lemma regrow_length [simp]: "length (regrow heap b n) = n"
  by (cases b) (auto simp: regrow_def Let_def)

lemma unat_sum_le: "unat (of_nat n + w :: u16) \<le> n + unat w" "unat (of_nat n + w :: u16) \<le> unat w + n"
proof -
  have "unat (of_nat n + w :: u16) \<le> unat (of_nat n :: u16) + unat w"
    unfolding unat_word_ariths(1) by (rule mod_less_eq_dividend)
  also have "unat (of_nat n :: u16) \<le> n" by (simp only: unat_of_nat mod_less_eq_dividend)
  finally show "unat (of_nat n + w :: u16) \<le> n + unat w" "unat (of_nat n + w :: u16) \<le> unat w + n" by simp_all
qed

lemma attr_ok_value:
  "attr_ok (a\<lparr>ga_value := Some b, ga_value_len := l\<rparr>) \<longleftrightarrow> ga_uuid a \<noteq> UNSPEC \<and> unat l \<le> length b"
  "attr_ok (a\<lparr>ga_value := Some b\<rparr>) \<longleftrightarrow> ga_uuid a \<noteq> UNSPEC \<and> unat (ga_value_len a) \<le> length b"
  "attr_ok (a\<lparr>ga_write_id := i, ga_pending_writes := ps\<rparr>) \<longleftrightarrow> attr_ok a"
  by (simp_all add: attr_ok_def cong: option.case_cong)

text \<open>What a write leaves: a value at least as long as its length says.\<close>

lemma gdb_ok_write:
  assumes "gdb_ok db" "snd r \<noteq> 0" "gatt_db_attribute_write heap db (Some r) off v opc att f u t = Some (b, db')"
  shows "gdb_ok db'"
proof (cases "f = 0")
  case False
  obtain a where a: "db_attr db r = Some a"
    using assms(3) False by (auto simp: gatt_db_attribute_write_def bind_eq_Some_conv)
  have "ga_uuid a \<noteq> UNSPEC" "\<And>b. ga_value a = Some b \<Longrightarrow> unat (ga_value_len a) \<le> length b"
    using db_attr_ok(1) [OF assms(1) a] by (auto simp: attr_ok_def)
  then show ?thesis
    using assms(3) False a assms(1,2) db_attr_ok(1) [OF assms(1) a]
    by (auto simp: gatt_db_attribute_write_def Let_def bind_eq_Some_conv same_services_ok [OF same_services_event]
        attr_ok_value unat_sum_le split: if_splits dest!: buf_write_length
        intro!: gdb_ok_update_attr [OF assms(1) a])
qed (use assms in \<open>auto simp: gatt_db_attribute_write_def\<close>)

lemma gdb_ok_reset:
  assumes "gdb_ok db" "snd r \<noteq> 0" "gatt_db_attribute_reset db (Some r) = Some (b, db')"
  shows "gdb_ok db'"
  using assms db_attr_ok [OF assms(1), of r]
  by (auto simp: gatt_db_attribute_reset_def bind_eq_Some_conv attr_ok_def split: if_splits intro!: gdb_ok_update_attr)

text \<open>What is in an attribute after an update, seen through the database.\<close>

lemma db_attr_updated:
  assumes "gdb_ok db" "db_attr db r = Some a" "attr_ok a'" "ga_handle a' = ga_handle a" "snd r = 0 \<Longrightarrow> decl_ok a'"
  shows "db_attr (update_attr r a' db) r = Some a'"
proof -
  obtain s where s: "db_service db (fst r) = Some s" "svc_attr s (snd r) = Some a"
    by (rule db_attr_some [OF assms(2)])
  note ok = gdb_okD [OF assms(1) s(1)]
  have good: "gdb_ok (update_attr r a' db)" by (rule gdb_ok_update_attr [OF assms])
  have "set_slot (snd r) a' s \<in> set (db_services (update_attr r a' db))" "sv_addr (set_slot (snd r) a' s) = fst r"
    using db_service_some [OF s(1)] by (auto simp: update_attr_def update_service_def)
  then have "db_service (update_attr r a' db) (fst r) = Some (set_slot (snd r) a' s)"
    using db_service_member [OF good] by metis
  moreover have "snd r < length (svc_attrs s)" using s(2) svc_attr_eq [OF ok] by (auto split: if_splits)
  ultimately show ?thesis
    using replace_attr(1,2) [OF ok s(2) assms(3-)] by (simp add: db_attr_def svc_attr_eq)
qed

end
