(* ===== verification/Gatt_Ledger.thy ===== *)
theory Gatt_Ledger
  imports Gatt_Invariant "HOL-Library.Multiset"
begin

text \<open>
  The account of the reads. A read is known by the callback, the attribute and the user data it came with: those the
  database has accepted are the ones it has answered, with the value, an error or the news that the attribute is gone,
  and the ones that still wait at their attribute, as multisets. Each operation keeps the account, so that no read is
  answered twice or forgotten or answered for another.
\<close>

section \<open>What is owed and what is answered\<close>

type_synonym read_token = "nat \<times> attr_ref \<times> nat"

definition read_token :: "attr_ref \<Rightarrow> gatt_pending \<Rightarrow> read_token" where
  "read_token r p = (pd_func p, r, pd_user p)"

definition attr_owed :: "attr_ref \<Rightarrow> gatt_attr \<Rightarrow> read_token multiset" where
  "attr_owed r a = mset (map (read_token r) (ga_pending_reads a))"

definition svc_owed :: "gatt_service \<Rightarrow> read_token multiset" where
  "svc_owed s = (\<Sum>(i, a)\<leftarrow>enumerate 0 (svc_attrs s). attr_owed (sv_addr s, i) a)"

definition services_owed :: "gatt_service list \<Rightarrow> read_token multiset" where
  "services_owed ss = sum_list (map svc_owed ss)"

definition db_owed :: "gatt_db \<Rightarrow> read_token multiset" where
  "db_owed db = services_owed (db_services db)"

fun read_done :: "gatt_event \<Rightarrow> read_token multiset" where
  "read_done (Read_done func r err value user_data) = {#(func, r, user_data)#}"
| "read_done _ = {#}"

definition db_answered :: "gatt_db \<Rightarrow> read_token multiset" where
  "db_answered db = sum_list (map read_done (db_log db))"

definition db_account :: "gatt_db \<Rightarrow> read_token multiset" where
  "db_account db = db_owed db + db_answered db"

lemma read_token_timeout [simp]: "read_token r (p\<lparr>pd_timeout := n\<rparr>) = read_token r p"
  by (simp add: read_token_def)

lemma services_owed_simps [simp]:
  "services_owed [] = 0" "services_owed (s # ss) = svc_owed s + services_owed ss"
  "services_owed (ss @ ts) = services_owed ss + services_owed ts"
  by (simp_all add: services_owed_def)

lemma services_owed_split: "services_owed (filter p ss) + services_owed (filter (\<lambda>s. \<not> p s) ss) = services_owed ss"
  by (induction ss) (auto simp: ac_simps)

lemma answered_event [simp]: "db_answered (db_event e db) = db_answered db + read_done e"
  by (simp add: db_answered_def db_event_def)

lemma owed_event [simp]: "db_owed (db_event e db) = db_owed db"
  by (simp add: db_owed_def db_event_def)

lemma answered_result [simp]:
  "db_answered (pending_read_result r p err d db) = add_mset (read_token r p) (db_answered db)"
  "db_answered (pending_read_free r p db) = add_mset (read_token r p) (db_answered db)"
  "db_answered (pending_write_result r p err db) = db_answered db"
  "db_answered (pending_write_free r p db) = db_answered db"
  by (simp_all add: pending_read_free_def pending_write_free_def pending_read_result_def pending_write_result_def
      read_token_def Let_def)

lemma owed_same: "same_services db db' \<Longrightarrow> db_owed db' = db_owed db"
  by (simp add: same_services_def db_owed_def)

lemma owed_result [simp]:
  "db_owed (pending_read_result r p err d db) = db_owed db" "db_owed (pending_write_result r p err db) = db_owed db"
  by (rule owed_same, simp)+

lemma answered_fold: "(\<And>x db. db_answered (f x db) = db_answered db + g x) \<Longrightarrow>
    db_answered (fold f xs db) = db_answered db + sum_list (map g xs)"
  by (induction xs arbitrary: db) (simp_all add: ac_simps)

lemma sum_list_single: "sum_list (map (\<lambda>x. {#f x#}) xs) = mset (map f xs)"
  by (induction xs) simp_all

lemma answered_attribute_destroy:
  "db_answered (attribute_destroy r a db) = db_answered db + (case a of None \<Rightarrow> 0 | Some a \<Rightarrow> attr_owed r a)"
proof -
  have "db_answered (fold (pending_read_free r) ps db) = db_answered db + mset (map (read_token r) ps)" for ps db
    by (subst answered_fold [of _ "\<lambda>p. {#read_token r p#}"]) (simp_all add: sum_list_single)
  moreover have "db_answered (fold (pending_write_free r) ps db) = db_answered db" for ps db
    by (subst answered_fold [of _ "\<lambda>_. 0"]) simp_all
  ultimately show ?thesis by (auto simp: attribute_destroy_def attr_owed_def split: option.splits)
qed

lemma answered_notify_all: "notify_all r added ns db = Some db' \<Longrightarrow> db_answered db' = db_answered db"
  by (induction ns arbitrary: db)
    (fastforce simp: handle_notify_def Let_def bind_eq_Some_conv split: if_splits)+

lemma answered_notify: "notify_service_changed s added db = Some db' \<Longrightarrow> db_answered db' = db_answered db"
  by (auto simp: notify_service_changed_def split: if_splits dest: answered_notify_all)

lemma answered_notify_destroy [simp]: "db_answered (notify_destroy n db) = db_answered db"
  by (simp add: notify_destroy_def)

text \<open>The sum over the slots of a service is that over its attributes; and what a changed attribute changes in it.\<close>

lemma sum_list_slots:
  "(\<Sum>(i, a)\<leftarrow>enumerate n (map Some xs @ replicate k None). case a of None \<Rightarrow> {#} | Some a \<Rightarrow> g i a) =
   (\<Sum>(i, a)\<leftarrow>enumerate n xs. g i a)"
proof (induction xs arbitrary: n)
  case Nil
  show ?case by (induction k arbitrary: n) simp_all
qed simp

lemma sum_list_put:
  fixes g :: "nat \<Rightarrow> 'a \<Rightarrow> 'b :: cancel_comm_monoid_add"
  assumes "i < length xs"
  shows "(\<Sum>(j, x)\<leftarrow>enumerate n (xs[i := y]). g j x) + g (n + i) (xs ! i) =
    (\<Sum>(j, x)\<leftarrow>enumerate n xs. g j x) + g (n + i) y"
  using assms
proof (induction xs arbitrary: i n)
  case (Cons x xs)
  show ?case
  proof (cases i)
    case 0
    then show ?thesis by (simp add: ac_simps)
  next
    case (Suc k)
    then show ?thesis using Cons.IH [of k "Suc n"] Cons.prems by (simp add: ac_simps)
  qed
qed simp

lemma answered_service_destroy:
  assumes "svc_ok s" "gatt_db_service_destroy s db = Some db'"
  shows "db_answered db' = db_answered db + svc_owed s"
proof -
  obtain d where d: "(if sv_active s then notify_service_changed s False db else Some db) = Some d"
    and db': "db' = fold (\<lambda>(i, a). attribute_destroy (sv_addr s, i) a)
      (take (unat (sv_num_handles s)) (enumerate 0 (sv_attributes s))) d"
    using assms(2) by (auto simp: gatt_db_service_destroy_def bind_eq_Some_conv)
  let ?slot = "\<lambda>(i, a). case a of None \<Rightarrow> {#} | Some a \<Rightarrow> attr_owed (sv_addr s, i) a"
  have "take (unat (sv_num_handles s)) (enumerate 0 (sv_attributes s)) = enumerate 0 (sv_attributes s)"
    using svc_okD(11) [OF assms(1)] by (simp add: svc_num_def)
  then have "db_answered db' = db_answered d + sum_list (map ?slot (enumerate 0 (sv_attributes s)))"
    by (simp only: db') (rule answered_fold, auto simp: answered_attribute_destroy split: option.splits)
  also have "sum_list (map ?slot (enumerate 0 (sv_attributes s))) = svc_owed s"
    by (subst svc_okD(1) [OF assms(1)]) (simp add: svc_owed_def sum_list_slots)
  finally show ?thesis using d answered_notify by (auto split: if_splits)
qed

lemma answered_destroy_services:
  "list_all svc_ok ss \<Longrightarrow> destroy_services ss db = Some db' \<Longrightarrow> db_answered db' = db_answered db + services_owed ss"
  by (induction ss arbitrary: db) (auto simp: bind_eq_Some_conv answered_service_destroy ac_simps)

section \<open>Changes of one service\<close>

lemma owed_update_service:
  assumes "gdb_ok db" "db_service db r = Some s"
  shows "db_owed (update_service r f db) + svc_owed s = db_owed db + svc_owed (f s)"
proof -
  have s: "s \<in> set (db_services db)" "sv_addr s = r" using db_service_some [OF assms(2)] by auto
  then obtain pre post where p: "db_services db = pre @ s # post" by (meson split_list)
  have d: "distinct (map sv_addr (pre @ s # post))"
    using assms(1) by (simp add: gdb_ok_def services_ok_def p)
  have "map (\<lambda>t. if sv_addr t = r then f t else t) pre = pre" "map (\<lambda>t. if sv_addr t = r then f t else t) post = post"
    using d s(2) by (auto simp: map_idI image_iff intro!: map_idI)
  then show ?thesis by (simp add: db_owed_def update_service_def p s(2) ac_simps)
qed

text \<open>What changes in a part changes in the whole.\<close>

lemma change_of_part:
  fixes a :: "'a :: cancel_ab_semigroup_add"
  assumes "n + a = s + a'" and "x + s = d + n"
  shows "x + a = d + a'"
proof -
  have "(x + a) + s = (x + s) + a" by (simp add: ac_simps)
  also have "\<dots> = d + (n + a)" unfolding assms(2) by (rule add.assoc)
  also have "\<dots> = d + (s + a')" unfolding assms(1) ..
  also have "\<dots> = (d + a') + s" by (simp add: ac_simps)
  finally show ?thesis by simp
qed

lemma owed_update_attr:
  assumes "gdb_ok db" "db_attr db r = Some a" "attr_ok a'" "ga_handle a' = ga_handle a" "snd r = 0 \<Longrightarrow> decl_ok a'"
  shows "db_owed (update_attr r a' db) + attr_owed r a = db_owed db + attr_owed r a'"
proof -
  obtain s where s: "db_service db (fst r) = Some s" "svc_attr s (snd r) = Some a"
    by (rule db_attr_some [OF assms(2)])
  note ok = gdb_okD [OF assms(1) s(1)]
  have i: "a = svc_attrs s ! snd r" "snd r < length (svc_attrs s)"
    using s(2) svc_attr_eq [OF ok] by (auto split: if_splits)
  have "svc_attrs (set_slot (snd r) a' s) = (svc_attrs s)[snd r := a']"
    using replace_attr(2) [OF ok s(2) assms(3-)] .
  moreover have "sv_addr (set_slot (snd r) a' s) = fst r" "sv_addr s = fst r"
    using db_service_some [OF s(1)] by (simp_all add: set_slot_def)
  ultimately have "svc_owed (set_slot (snd r) a' s) + attr_owed r a = svc_owed s + attr_owed r a'"
    using i sum_list_put [where i = "snd r" and xs = "svc_attrs s" and n = 0 and y = a' and g = "\<lambda>j. attr_owed (fst r, j)"] by (simp add: svc_owed_def)
  moreover have "db_owed (update_attr r a' db) + svc_owed s = db_owed db + svc_owed (set_slot (snd r) a' s)"
    using owed_update_service [OF assms(1) s(1), of "set_slot (snd r) a'"] by (simp add: update_attr_def)
  ultimately show ?thesis by (rule change_of_part)
qed

section \<open>The account of each operation\<close>

lemma owed_update_same:
  assumes "gdb_ok db" "db_attr db r = Some a" "ga_handle a' = ga_handle a" "ga_uuid a' = ga_uuid a"
    "ga_value a' = ga_value a" "ga_value_len a' = ga_value_len a"
  shows "db_owed (update_attr r a' db) + attr_owed r a = db_owed db + attr_owed r a'"
  using db_attr_ok [OF assms(1,2)] assms(3-)
  by (intro owed_update_attr [OF assms(1,2)]) (auto simp: attr_ok_def decl_ok_def cong: option.case_cong)

lemma answered_update [simp]: "db_answered (update_service r f db) = db_answered db" "db_answered (update_attr q a db) = db_answered db"
  by (simp_all add: db_answered_def update_attr_def update_service_def)

text \<open>The read that was accepted, when one was.\<close>

definition asked :: "bool \<Rightarrow> attr_ref option \<Rightarrow> nat \<Rightarrow> nat \<Rightarrow> read_token multiset" where
  "asked ok attrib func user_data = (case attrib of None \<Rightarrow> {#} | Some r \<Rightarrow> if ok then {#(func, r, user_data)#} else {#})"

lemma account_read:
  assumes "gdb_ok db" "gatt_db_attribute_read db attrib off opc att f u t = Some (b, db')"
  shows "db_account db' = db_account db + asked b attrib f u"
proof (cases attrib)
  case (Some r)
  have "db_owed (update_attr r (a\<lparr>ga_read_id := i, ga_pending_reads := ga_pending_reads a @ [p]\<rparr>) db) =
      add_mset (read_token r p) (db_owed db)"
    if "db_attr db r = Some a" for a i p
    using owed_update_same [OF assms(1) that, of "a\<lparr>ga_read_id := i, ga_pending_reads := ga_pending_reads a @ [p]\<rparr>"]
    by (simp add: attr_owed_def)
  then show ?thesis
    using assms(2)
    by (auto simp: Some gatt_db_attribute_read_def Let_def bind_eq_Some_conv db_account_def asked_def read_token_def
        split: if_splits)
qed (use assms(2) in \<open>simp add: gatt_db_attribute_read_def asked_def\<close>)

lemma owed_taken:
  assumes "gdb_ok db" "db_attr db r = Some a" "take_first p (ga_pending_reads a) = Some (x, ps)"
  shows "add_mset (read_token r x) (db_owed (update_attr r (a\<lparr>ga_pending_reads := ps\<rparr>) db)) = db_owed db"
proof -
  have "mset (ga_pending_reads a) = add_mset x (mset ps)" using assms(3) by (auto dest: take_first_Some)
  then have "attr_owed r a = add_mset (read_token r x) (attr_owed r (a\<lparr>ga_pending_reads := ps\<rparr>))"
    by (simp add: attr_owed_def)
  then show ?thesis
    using owed_update_same [OF assms(1,2), of "a\<lparr>ga_pending_reads := ps\<rparr>"] by (simp add: attr_owed_def)
qed

lemma account_read_result:
  assumes "gdb_ok db" "gatt_db_attribute_read_result db attrib i err v = Some (b, db')"
  shows "db_account db' = db_account db"
  using assms(2) owed_taken [OF assms(1)]
  by (fastforce simp: gatt_db_attribute_read_result_def bind_eq_Some_conv db_account_def split: option.splits if_splits)

lemma account_read_timeout:
  assumes "gdb_ok db" "read_timeout db r i = Some db'"
  shows "db_account db' = db_account db"
  using assms(2) owed_taken [OF assms(1)]
  by (fastforce simp: read_timeout_def bind_eq_Some_conv db_account_def)

lemma owed_pending_writes:
  assumes "gdb_ok db" "db_attr db r = Some a"
  shows "db_owed (update_attr r (a\<lparr>ga_pending_writes := ps\<rparr>) db) = db_owed db"
    "db_owed (update_attr r (a\<lparr>ga_write_id := i, ga_pending_writes := ps\<rparr>) db) = db_owed db"
  using owed_update_same [OF assms, of "a\<lparr>ga_pending_writes := ps\<rparr>"]
    owed_update_same [OF assms, of "a\<lparr>ga_write_id := i, ga_pending_writes := ps\<rparr>"] by (simp_all add: attr_owed_def)

lemma account_write_result:
  assumes "gdb_ok db" "gatt_db_attribute_write_result db attrib i err = Some (b, db')"
  shows "db_account db' = db_account db"
  using assms(2) owed_pending_writes [OF assms(1)]
  by (auto simp: gatt_db_attribute_write_result_def bind_eq_Some_conv db_account_def split: option.splits if_splits)

lemma account_write_timeout:
  assumes "gdb_ok db" "write_timeout db r i = Some db'"
  shows "db_account db' = db_account db"
  using assms(2) owed_pending_writes(1) [OF assms(1), of r]
  by (auto simp: write_timeout_def bind_eq_Some_conv db_account_def)

lemma owed_value:
  assumes "gdb_ok db" "db_attr db r = Some a" "snd r \<noteq> 0" "unat l \<le> length b"
  shows "db_owed (update_attr r (a\<lparr>ga_value := Some b, ga_value_len := l\<rparr>) db) = db_owed db"
    "l = ga_value_len a \<Longrightarrow> db_owed (update_attr r (a\<lparr>ga_value := Some b\<rparr>) db) = db_owed db"
    "db_owed (update_attr r (a\<lparr>ga_value := None, ga_value_len := 0\<rparr>) db) = db_owed db"
  using owed_update_attr [OF assms(1,2), of "a\<lparr>ga_value := Some b, ga_value_len := l\<rparr>"]
    owed_update_attr [OF assms(1,2), of "a\<lparr>ga_value := Some b\<rparr>"]
    owed_update_attr [OF assms(1,2), of "a\<lparr>ga_value := None, ga_value_len := 0\<rparr>"]
    assms(3,4) db_attr_ok(1) [OF assms(1,2)] by (simp_all add: attr_owed_def attr_ok_def)

lemma account_write:
  assumes "gdb_ok db" "snd r \<noteq> 0" "gatt_db_attribute_write heap db (Some r) off v opc att f u t = Some (b, db')"
  shows "db_account db' = db_account db"
proof (cases "f = 0")
  case False
  obtain a where a: "db_attr db r = Some a"
    using assms(3) False by (auto simp: gatt_db_attribute_write_def bind_eq_Some_conv)
  have "\<And>b. ga_value a = Some b \<Longrightarrow> unat (ga_value_len a) \<le> length b"
    using db_attr_ok(1) [OF assms(1) a] by (auto simp: attr_ok_def)
  then show ?thesis
    using assms(3) False a owed_pending_writes [OF assms(1) a] owed_value(1,2) [OF assms(1) a assms(2)]
    by (auto simp: gatt_db_attribute_write_def Let_def bind_eq_Some_conv db_account_def unat_sum_le
        split: if_splits dest!: buf_write_length)
qed (use assms in \<open>auto simp: gatt_db_attribute_write_def\<close>)

lemma account_reset:
  assumes "gdb_ok db" "snd r \<noteq> 0" "gatt_db_attribute_reset db (Some r) = Some (b, db')"
  shows "db_account db' = db_account db"
  using assms(3) owed_value(3) [OF assms(1) _ assms(2), of _ 0 "[]"]
  by (auto simp: gatt_db_attribute_reset_def bind_eq_Some_conv db_account_def split: if_splits)

lemma account_remove:
  assumes "gdb_ok db" "gatt_db_remove_service db a = Some (b, db')"
  shows "db_account db' = db_account db"
proof (cases a)
  case (Some r)
  obtain s d where s: "db_service db (fst r) = Some s"
    and d: "gatt_db_service_destroy s (db\<lparr>db_services := filter (\<lambda>t. sv_addr t \<noteq> fst r) (db_services db)\<rparr>) = Some db'"
    using assms(2) db_service_some by (fastforce simp: Some gatt_db_remove_service_def bind_eq_Some_conv)
  have "filter (\<lambda>t. sv_addr t = fst r) (db_services db) = [s]"
  proof -
    obtain pre post where p: "db_services db = pre @ s # post" using db_service_some [OF s] by (meson split_list)
    have "distinct (map sv_addr (pre @ s # post))" using assms(1) by (simp add: gdb_ok_def services_ok_def p)
    then have "\<forall>x\<in>set pre. sv_addr x \<noteq> fst r" "\<forall>x\<in>set post. sv_addr x \<noteq> fst r"
      using db_service_some [OF s] by (force simp: image_iff)+
    then show ?thesis using db_service_some [OF s] by (simp add: p)
  qed
  then have "db_owed db = services_owed (filter (\<lambda>t. sv_addr t \<noteq> fst r) (db_services db)) + svc_owed s"
    using services_owed_split [of "\<lambda>t. sv_addr t \<noteq> fst r" "db_services db"] by (simp add: db_owed_def)
  moreover have "db_owed db' = services_owed (filter (\<lambda>t. sv_addr t \<noteq> fst r) (db_services db))"
    using remove_service_services(1) [OF assms(2) [unfolded Some]] by (simp add: db_owed_def)
  ultimately show ?thesis
    using answered_service_destroy [OF gdb_okD [OF assms(1) s] d] by (simp add: db_account_def db_answered_def)
qed (use assms(2) in \<open>simp add: gatt_db_remove_service_def\<close>)

lemma account_clear_range:
  assumes "gdb_ok db" "gatt_db_clear_range db start fin = Some (b, db')"
  shows "db_account db' = db_account db"
proof (cases "fin < start")
  case False
  let ?out = "filter (overlaps start fin) (db_services db)" and ?stay = "filter (\<lambda>s. \<not> overlaps start fin s) (db_services db)"
  have whole: "?out = db_services db \<and> ?stay = []" if "start = 1 \<and> fin = 0xffff"
    using that whole_range_overlaps [OF assms(1)] by (auto simp: filter_empty_conv filter_id_conv)
  have "(if start = 1 \<and> fin = 0xffff then Some (db_services db, [])
      else split_services (match_range start fin) (db_services db)) = Some (?out, ?stay)"
    using whole by (auto simp: split_services_eq [OF services_list_all [OF assms(1)]])
  then have eq: "gatt_db_clear_range db start fin = do {
      d \<leftarrow> destroy_services ?out (db\<lparr>db_services := ?stay\<rparr>);
      Some (True, if gatt_db_isempty d then d\<lparr>db_next_handle := 0\<rparr> else d) }"
    using False by (simp only: gatt_db_clear_range_def if_False bind.bind_lunit prod.case)
  obtain d where d: "destroy_services ?out (db\<lparr>db_services := ?stay\<rparr>) = Some d"
    "db' = (if gatt_db_isempty d then d\<lparr>db_next_handle := 0\<rparr> else d)"
    using assms(2) unfolding eq bind_eq_Some_conv by blast
  have "list_all svc_ok ?out" using services_list_all [OF assms(1)] by (auto simp: list_all_iff)
  then have "db_answered d = db_answered db + services_owed ?out"
    using answered_destroy_services [OF _ d(1)] by (simp add: db_answered_def)
  moreover have "db_owed d = services_owed ?stay"
    using same_services_destroy_all [OF d(1)] by (simp add: db_owed_def same_services_def)
  ultimately show ?thesis
    using services_owed_split [of "overlaps start fin" "db_services db"] d(2)
    by (auto simp: db_account_def db_owed_def db_answered_def ac_simps)
qed (use assms(2) in \<open>simp add: gatt_db_clear_range_def\<close>)

end
