(* ===== verification/Gatt_Run.thy ===== *)
theory Gatt_Run
  imports Gatt_Ledger
begin

text \<open>
  The runs of a database: every operation of \<open>src/shared/gatt-db.c\<close> that changes it, as a client may
  call it, with the reads accepted so far. A client inserts services and attributes where
  there is room, and leaves the declarations alone; the searches and the getters change nothing.
\<close>

section \<open>Insertions keep the invariant and the account\<close>

lemma insert_into_keeps:
  assumes "gdb_ok db" "insert_into db r f = Some (x, db')"
    "\<And>s i s'. db_service db (fst r) = Some s \<Longrightarrow> f s = Some (Some (i, s')) \<Longrightarrow>
       svc_ok s' \<and> same_place s s' \<and> svc_owed s' = svc_owed s"
  shows "gdb_ok db' \<and> db_account db' = db_account db"
proof
  show "gdb_ok db'" using gdb_ok_insert_into [OF assms(1,2)] assms(3) by blast
  obtain s res where s: "db_service db (fst r) = Some s" "f s = Some res"
    and x: "Some (x, db') = (case res of None \<Rightarrow> Some (None, db)
      | Some (i, s') \<Rightarrow> Some (Some (fst r, i), update_service (fst r) (\<lambda>_. s') db))"
    using assms(2) by (auto simp: insert_into_def bind_eq_Some_conv)
  show "db_account db' = db_account db"
  proof (cases res)
    case (Some y)
    then obtain i s' where y: "f s = Some (Some (i, s'))" "db' = update_service (fst r) (\<lambda>_. s') db"
      using s(2) x by (cases y) auto
    then show ?thesis
      using owed_update_service [OF assms(1) s(1), of "\<lambda>_. s'"] assms(3) [OF s(1) y(1)]
      by (simp add: db_account_def)
  qed (use x in simp)
qed

definition room :: "gatt_db \<Rightarrow> attr_ref option \<Rightarrow> u16 \<Rightarrow> nat \<Rightarrow> bool" where
  "room db attrib handle k \<longleftrightarrow>
     (case attrib of
        None \<Rightarrow> True
      | Some r \<Rightarrow> (case db_service db (fst r) of None \<Rightarrow> True | Some s \<Rightarrow> fits s handle k))"

definition service_at :: "gatt_db \<Rightarrow> u16 \<Rightarrow> attr_ref option" where
  "service_at db handle = Option.bind (gatt_db_get_service db handle) id"

lemma no_pending [simp]:
  "attr_owed q (set_attribute_data r w p d (new_attribute h u v)) = {#}" "attr_owed q (char_decl h props v) = {#}"
  by (simp_all add: attr_owed_def set_attribute_data_def new_attribute_def char_decl_def)

lemma insert_characteristic_keeps:
  assumes "gdb_ok db" "room db (Some r) handle 2"
    "insert_into db r (\<lambda>s. service_insert_characteristic s handle uuid p props rd wr d) = Some (x, db')"
  shows "gdb_ok db' \<and> db_account db' = db_account db"
proof (rule insert_into_keeps [OF assms(1,3)])
  fix s i s'
  assume s: "db_service db (fst r) = Some s"
    and ins: "service_insert_characteristic s handle uuid p props rd wr d = Some (Some (i, s'))"
  have "fits s handle 2" using assms(2) s by (simp add: room_def)
  then show "svc_ok s' \<and> same_place s s' \<and> svc_owed s' = svc_owed s"
    by (rule insert_characteristic [OF gdb_okD [OF assms(1) s] _ ins]) (simp add: svc_owed_def enumerate_append_eq same_place_def)
qed

lemma insert_descriptor_keeps:
  assumes "gdb_ok db" "room db (Some r) handle 1" "uuid \<noteq> UNSPEC"
    "insert_into db r (\<lambda>s. service_insert_descriptor s handle uuid p rd wr d) = Some (x, db')"
  shows "gdb_ok db' \<and> db_account db' = db_account db"
proof (rule insert_into_keeps [OF assms(1,4)])
  fix s i s'
  assume s: "db_service db (fst r) = Some s"
    and ins: "service_insert_descriptor s handle uuid p rd wr d = Some (Some (i, s'))"
  have "fits s handle 1" using assms(2) s by (simp add: room_def)
  from insert_descriptor(2-4) [OF gdb_okD [OF assms(1) s] this assms(3) ins]
  show "svc_ok s' \<and> same_place s s' \<and> svc_owed s' = svc_owed s" by (auto simp: svc_owed_def enumerate_append_eq same_place_def)
qed

lemma include_into_keeps:
  assumes "gdb_ok db" "room db (Some r) 0 1" "include_into db r handle i = Some (x, db')"
  shows "gdb_ok db' \<and> db_account db' = db_account db"
proof -
  obtain t where "insert_into db r (\<lambda>s. service_insert_included s handle t) = Some (x, db')"
    using assms(3) by (auto simp: include_into_def bind_eq_Some_conv)
  then show ?thesis
  proof (rule insert_into_keeps [OF assms(1)])
    fix s i s'
    assume s: "db_service db (fst r) = Some s" and ins: "service_insert_included s handle t = Some (Some (i, s'))"
    have "fits s 0 1" using assms(2) s by (simp add: room_def)
    then show "svc_ok s' \<and> same_place s s' \<and> svc_owed s' = svc_owed s"
      by (rule insert_included [OF gdb_okD [OF assms(1) s] _ ins]) (simp add: svc_owed_def enumerate_append_eq same_place_def)
  qed
qed

lemma insert_service_keeps:
  assumes "gdb_ok db" "none_inside db handle (handle + num - 1)"
    "gatt_db_insert_service db handle uuid primary num = Some (x, db')"
  shows "gdb_ok db' \<and> db_account db' = db_account db"
proof
  show "gdb_ok db'" by (rule gdb_ok_insert_service [OF assms(1,3,2)])
  show "db_account db' = db_account db"
  proof (cases "db' = db")
    case False
    obtain pre post s where *: "db_services db = pre @ post" "db_services db' = pre @ s\<lparr>sv_num_handles := num\<rparr> # post"
      "gatt_db_service_create (db_used db) uuid handle primary num = Some (Some s)"
      "1 \<le> handle" "unat handle + unat num - 1 \<le> 0xffff" "db_log db' = db_log db"
      by (rule insert_service_new [OF assms(1,3,2) False])
    then have "svc_owed (s\<lparr>sv_num_handles := num\<rparr>) = {#}"
      using service_create_ok(6) [OF *(3-5)] by (auto simp: svc_owed_def)
    then show ?thesis using * by (simp add: db_account_def db_owed_def db_answered_def)
  qed simp
qed

lemma flag_keeps:
  assumes "gdb_ok db" "db_service db r = Some s"
    "\<And>s. sv_addr (f s) = sv_addr s \<and> sv_num_handles (f s) = sv_num_handles s \<and> sv_attributes (f s) = sv_attributes s"
  shows "gdb_ok (update_service r f db) \<and> db_account (update_service r f db) = db_account db"
proof -
  have f: "svc_attrs (f s) = svc_attrs s" "svc_num (f s) = svc_num s" "svc_lo (f s) = svc_lo s" "svc_hi (f s) = svc_hi s"
    using assms(3) [of s] by (simp_all add: svc_attrs_def svc_num_def svc_lo_def svc_hi_def)
  then have "svc_ok (f s)" using gdb_okD [OF assms(1,2)] assms(3) [of s] by (simp add: svc_ok_def)
  moreover have "svc_owed (f s) = svc_owed s" using f assms(3) [of s] by (simp add: svc_owed_def)
  ultimately show ?thesis
    using gdb_ok_update [OF assms(1,2)] owed_update_service [OF assms(1,2), of f] f assms(3) [of s]
    by (simp add: db_account_def)
qed

lemma set_claimed_keeps:
  assumes "gdb_ok db" "gatt_db_service_set_claimed db attrib c = Some (b, db')"
  shows "gdb_ok db' \<and> db_account db' = db_account db"
  using assms(2) flag_keeps [OF assms(1), of _ _ "\<lambda>s. s\<lparr>sv_claimed := c\<rparr>"] assms(1)
  by (auto simp: gatt_db_service_set_claimed_def bind_eq_Some_conv split: option.splits)

lemma notify_keeps:
  assumes "notify_service_changed s added db = Some db'"
  shows "gdb_ok db' \<longleftrightarrow> gdb_ok db" "db_account db' = db_account db"
  using same_services_changed [OF assms] answered_notify [OF assms] owed_same same_services_ok
  by (auto simp: db_account_def)

lemma set_active_keeps:
  assumes "gdb_ok db" "gatt_db_service_set_active db attrib c = Some (b, db')"
  shows "gdb_ok db' \<and> db_account db' = db_account db"
  using assms(2) flag_keeps [OF assms(1), of _ _ "\<lambda>s. s\<lparr>sv_active := c\<rparr>"] assms(1)
  by (auto simp: gatt_db_service_set_active_def bind_eq_Some_conv notify_keeps split: option.splits if_splits)

lemma registered_keeps:
  assumes "gdb_ok db"
  shows "gatt_db_register db a b u d = (i, db') \<Longrightarrow> gdb_ok db' \<and> db_account db' = db_account db"
    "gatt_db_unregister db i = (ok, db') \<Longrightarrow> gdb_ok db' \<and> db_account db' = db_account db"
    "gdb_ok (gatt_db_ref db) \<and> db_account (gatt_db_ref db) = db_account db"
    "1 < db_ref_count db \<Longrightarrow> gatt_db_unref db = Some db' \<Longrightarrow> gdb_ok db' \<and> db_account db' = db_account db"
  using assms
  by (auto simp: gatt_db_register_def gatt_db_unregister_def gatt_db_ref_def gatt_db_unref_def Let_def db_account_def
      gdb_ok_def db_owed_def db_answered_def notify_destroy_def db_event_def split: if_splits option.splits)

section \<open>Runs\<close>

inductive gatt_run :: "read_token multiset \<Rightarrow> gatt_db \<Rightarrow> bool" where
  new: "gatt_run {#} gatt_db_new"
| ref: "gatt_run R db \<Longrightarrow> gatt_run R (gatt_db_ref db)"
| unref: "gatt_run R db \<Longrightarrow> 1 < db_ref_count db \<Longrightarrow> gatt_db_unref db = Some db' \<Longrightarrow> gatt_run R db'"
| register: "gatt_run R db \<Longrightarrow> gatt_db_register db added removed u d = (i, db') \<Longrightarrow> gatt_run R db'"
| unregister: "gatt_run R db \<Longrightarrow> gatt_db_unregister db i = (ok, db') \<Longrightarrow> gatt_run R db'"
| insert_service: "gatt_run R db \<Longrightarrow> none_inside db handle (handle + num - 1) \<Longrightarrow>
    gatt_db_insert_service db handle uuid primary num = Some (x, db') \<Longrightarrow> gatt_run R db'"
| add_service: "gatt_run R db \<Longrightarrow> none_inside db (db_next_handle db) (db_next_handle db + num - 1) \<Longrightarrow>
    gatt_db_add_service db uuid primary num = Some (x, db') \<Longrightarrow> gatt_run R db'"
| remove_service: "gatt_run R db \<Longrightarrow> gatt_db_remove_service db a = Some (ok, db') \<Longrightarrow> gatt_run R db'"
| clear_range: "gatt_run R db \<Longrightarrow> gatt_db_clear_range db start fin = Some (ok, db') \<Longrightarrow> gatt_run R db'"
| set_active: "gatt_run R db \<Longrightarrow> gatt_db_service_set_active db a c = Some (ok, db') \<Longrightarrow> gatt_run R db'"
| set_claimed: "gatt_run R db \<Longrightarrow> gatt_db_service_set_claimed db a c = Some (ok, db') \<Longrightarrow> gatt_run R db'"
| insert_char: "gatt_run R db \<Longrightarrow> room db (service_at db handle) handle 2 \<Longrightarrow>
    gatt_db_insert_characteristic db handle uuid p props rd wr u = Some (x, db') \<Longrightarrow> gatt_run R db'"
| service_insert_char: "gatt_run R db \<Longrightarrow> room db a handle 2 \<Longrightarrow>
    gatt_db_service_insert_characteristic db a handle uuid p props rd wr u = Some (x, db') \<Longrightarrow> gatt_run R db'"
| add_char: "gatt_run R db \<Longrightarrow> room db a 0 2 \<Longrightarrow>
    gatt_db_service_add_characteristic db a uuid p props rd wr u = Some (x, db') \<Longrightarrow> gatt_run R db'"
| insert_desc: "gatt_run R db \<Longrightarrow> room db (service_at db handle) handle 1 \<Longrightarrow> uuid \<noteq> UNSPEC \<Longrightarrow>
    gatt_db_insert_descriptor db handle uuid p rd wr u = Some (x, db') \<Longrightarrow> gatt_run R db'"
| service_insert_desc: "gatt_run R db \<Longrightarrow> room db a handle 1 \<Longrightarrow> uuid \<noteq> UNSPEC \<Longrightarrow>
    gatt_db_service_insert_descriptor db a handle uuid p rd wr u = Some (x, db') \<Longrightarrow> gatt_run R db'"
| add_desc: "gatt_run R db \<Longrightarrow> room db a 0 1 \<Longrightarrow> uuid \<noteq> UNSPEC \<Longrightarrow>
    gatt_db_service_add_descriptor db a uuid p rd wr u = Some (x, db') \<Longrightarrow> gatt_run R db'"
| insert_incl: "gatt_run R db \<Longrightarrow> room db (service_at db handle) 0 1 \<Longrightarrow>
    gatt_db_insert_included db handle r = Some (x, db') \<Longrightarrow> gatt_run R db'"
| service_insert_incl: "gatt_run R db \<Longrightarrow> room db a 0 1 \<Longrightarrow>
    gatt_db_service_insert_included db a handle b = Some (x, db') \<Longrightarrow> gatt_run R db'"
| add_incl: "gatt_run R db \<Longrightarrow> room db a 0 1 \<Longrightarrow>
    gatt_db_service_add_included db a b = Some (x, db') \<Longrightarrow> gatt_run R db'"
| read_value: "gatt_run R db \<Longrightarrow> gatt_db_attribute_read db a off opc att f u t = Some (ok, db') \<Longrightarrow>
    gatt_run (R + asked ok a f u) db'"
| read_result: "gatt_run R db \<Longrightarrow> gatt_db_attribute_read_result db a i err v = Some (ok, db') \<Longrightarrow> gatt_run R db'"
| read_timeout: "gatt_run R db \<Longrightarrow> read_timeout db r i = Some db' \<Longrightarrow> gatt_run R db'"
| write_value: "gatt_run R db \<Longrightarrow> snd r \<noteq> 0 \<Longrightarrow>
    gatt_db_attribute_write heap db (Some r) off v opc att f u t = Some (ok, db') \<Longrightarrow> gatt_run R db'"
| write_result: "gatt_run R db \<Longrightarrow> gatt_db_attribute_write_result db a i err = Some (ok, db') \<Longrightarrow> gatt_run R db'"
| write_timeout: "gatt_run R db \<Longrightarrow> write_timeout db r i = Some db' \<Longrightarrow> gatt_run R db'"
| reset: "gatt_run R db \<Longrightarrow> snd r \<noteq> 0 \<Longrightarrow> gatt_db_attribute_reset db (Some r) = Some (ok, db') \<Longrightarrow> gatt_run R db'"

lemma new_keeps: "gdb_ok gatt_db_new \<and> db_account gatt_db_new = {#}"
  by (simp add: gatt_db_new_def gatt_db_ref_def gdb_ok_def db_account_def db_owed_def db_answered_def)

text \<open>The insertion of the three entry points of each kind is the one into a service with room.\<close>

lemma char_entries:
  "gatt_db_insert_characteristic db handle uuid p props rd wr u = Some (x, db') \<Longrightarrow> db' = db \<or>
     (\<exists>r. service_at db handle = Some r \<and>
        insert_into db r (\<lambda>s. service_insert_characteristic s handle uuid p props rd wr u) = Some (x, db'))"
  "gatt_db_service_insert_characteristic db a handle uuid p props rd wr u = Some (x, db') \<Longrightarrow> db' = db \<or>
     (\<exists>r. a = Some r \<and>
        insert_into db r (\<lambda>s. service_insert_characteristic s handle uuid p props rd wr u) = Some (x, db'))"
  "gatt_db_service_add_characteristic db a uuid p props rd wr u = Some (x, db') \<Longrightarrow> db' = db \<or>
     (\<exists>r. a = Some r \<and>
        insert_into db r (\<lambda>s. service_insert_characteristic s 0 uuid p props rd wr u) = Some (x, db'))"
  by (auto simp: gatt_db_insert_characteristic_def gatt_db_service_insert_characteristic_def service_at_def
      gatt_db_service_add_characteristic_def bind_eq_Some_conv split: option.splits if_splits)

lemma desc_entries:
  "gatt_db_insert_descriptor db handle uuid p rd wr u = Some (x, db') \<Longrightarrow> db' = db \<or>
     (\<exists>r. service_at db handle = Some r \<and>
        insert_into db r (\<lambda>s. service_insert_descriptor s handle uuid p rd wr u) = Some (x, db'))"
  "gatt_db_service_insert_descriptor db a handle uuid p rd wr u = Some (x, db') \<Longrightarrow> db' = db \<or>
     (\<exists>r. a = Some r \<and>
        insert_into db r (\<lambda>s. service_insert_descriptor s handle uuid p rd wr u) = Some (x, db'))"
  "gatt_db_service_add_descriptor db a uuid p rd wr u = Some (x, db') \<Longrightarrow> db' = db \<or>
     (\<exists>r. a = Some r \<and>
        insert_into db r (\<lambda>s. service_insert_descriptor s 0 uuid p rd wr u) = Some (x, db'))"
  by (auto simp: gatt_db_insert_descriptor_def gatt_db_service_insert_descriptor_def service_at_def
      gatt_db_service_add_descriptor_def bind_eq_Some_conv split: option.splits if_splits)

lemma incl_entries:
  "gatt_db_insert_included db handle i = Some (x, db') \<Longrightarrow> db' = db \<or>
     (\<exists>r. service_at db handle = Some r \<and> include_into db r handle i = Some (x, db'))"
  "gatt_db_service_insert_included db a handle b = Some (x, db') \<Longrightarrow> db' = db \<or>
     (\<exists>r i. a = Some r \<and> include_into db r handle i = Some (x, db'))"
  "gatt_db_service_add_included db a b = Some (x, db') \<Longrightarrow> db' = db \<or>
     (\<exists>r i. a = Some r \<and> include_into db r 0 i = Some (x, db'))"
  by (auto simp: gatt_db_insert_included_def gatt_db_service_insert_included_def service_at_def
      gatt_db_service_add_included_def bind_eq_Some_conv split: option.splits if_splits)

lemma gatt_run_keeps: "gatt_run R db \<Longrightarrow> gdb_ok db \<and> db_account db = R"
proof (induction rule: gatt_run.induct)
  case (insert_char R db handle uuid p props rd wr u x db')
  then show ?case using char_entries(1) [OF insert_char(3)] insert_characteristic_keeps [of db] by metis
next
  case (service_insert_char R db a handle uuid p props rd wr u x db')
  then show ?case using char_entries(2) [OF service_insert_char(3)] insert_characteristic_keeps [of db] by metis
next
  case (add_char R db a uuid p props rd wr u x db')
  then show ?case using char_entries(3) [OF add_char(3)] insert_characteristic_keeps [of db] by metis
next
  case (insert_desc R db handle uuid p rd wr u x db')
  then show ?case using desc_entries(1) [OF insert_desc(4)] insert_descriptor_keeps [of db] by metis
next
  case (service_insert_desc R db a handle uuid p rd wr u x db')
  then show ?case using desc_entries(2) [OF service_insert_desc(4)] insert_descriptor_keeps [of db] by metis
next
  case (add_desc R db a uuid p rd wr u x db')
  then show ?case using desc_entries(3) [OF add_desc(4)] insert_descriptor_keeps [of db] by metis
next
  case (insert_incl R db handle r x db')
  then show ?case using incl_entries(1) [OF insert_incl(3)] include_into_keeps [of db] by metis
next
  case (service_insert_incl R db a handle b x db')
  then show ?case using incl_entries(2) [OF service_insert_incl(3)] include_into_keeps [of db] by metis
next
  case (add_incl R db a b x db')
  then show ?case using incl_entries(3) [OF add_incl(3)] include_into_keeps [of db] by metis
next
  case (insert_service R db handle num uuid primary x db')
  then show ?case using insert_service_keeps by blast
next
  case (add_service R db num uuid primary x db')
  then show ?case using insert_service_keeps unfolding gatt_db_add_service_def by blast
qed (use new_keeps registered_keeps gdb_ok_remove account_remove gdb_ok_clear_range account_clear_range
       set_active_keeps set_claimed_keeps gdb_ok_read account_read gdb_ok_read_result account_read_result
       gdb_ok_timeouts account_read_timeout account_write_timeout gdb_ok_write account_write
       gdb_ok_write_result account_write_result gdb_ok_reset account_reset in \<open>metis+\<close>)

text \<open>The reads that the database makes itself, for the extended properties, are such reads.\<close>

lemma read_ext_prop_run:
  assumes "gatt_run R db" "read_ext_prop pf pp t r (e, db) = Some (e', db')"
  shows "\<exists>k. gatt_run (R + k) db'"
proof -
  have "db' = db \<or> (\<exists>ok off opc att f u. gatt_db_attribute_read db (Some r) off opc att f u t = Some (ok, db'))"
    using assms(2) by (auto simp: read_ext_prop_def Let_def bind_eq_Some_conv split: if_splits)
  then show ?thesis using assms(1) gatt_run.read_value by (metis add_0_right)
qed

lemma read_ext_props_run:
  "gatt_run R db \<Longrightarrow> read_ext_props pf pp t rs (e, db) = Some (e', db') \<Longrightarrow> \<exists>k. gatt_run (R + k) db'"
proof (induction rs arbitrary: R db e)
  case (Cons r rs)
  obtain e1 db1 where 1: "read_ext_prop pf pp t r (e, db) = Some (e1, db1)"
    and 2: "read_ext_props pf pp t rs (e1, db1) = Some (e', db')"
    using Cons.prems(2) by (auto simp: bind_eq_Some_conv)
  obtain k where "gatt_run (R + k) db1" using read_ext_prop_run [OF Cons.prems(1) 1] by blast
  then show ?case using Cons.IH [OF _ 2] by (metis add.assoc)
qed (auto intro: exI [of _ "{#}"])

lemma get_char_data_run:
  assumes "gatt_run R db"
    "gatt_db_attribute_get_char_data pf pp t db attrib want_ext want_uuid = Some (x, db')"
  shows "\<exists>k. gatt_run (R + k) db'"
proof -
  have "\<exists>k. gatt_run (R + k) db1" if "get_char_extended_prop pf pp t db a = Some (y, db1)" for a y db1
    using that assms(1) read_ext_props_run [OF assms(1)]
    by (auto simp: get_char_extended_prop_def bind_eq_Some_conv split: option.splits if_splits intro: exI [of _ "{#}"])
  moreover have "db' = db \<or> (\<exists>y. get_char_extended_prop pf pp t db attrib = Some (y, db'))"
  proof (cases attrib)
    case (Some r)
    then obtain a where a: "db_attr db r = Some a"
      using assms(2) by (auto simp: gatt_db_attribute_get_char_data_def bind_eq_Some_conv)
    show ?thesis
      using assms(2) Some a
      by (cases "ga_value a")
        (auto simp: gatt_db_attribute_get_char_data_def bind_eq_Some_conv split: if_splits)
  qed (use assms(2) in \<open>simp add: gatt_db_attribute_get_char_data_def\<close>)
  ultimately show ?thesis using assms(1) by (metis add_0_right)
qed

text \<open>C12: In every run of a database the services stand in the order of their handle ranges, which do not
  overlap, each attribute has its handle in the range of its service, and all handles of the database,
  taken service by service, rise.\<close>

theorem gatt_run_ordered:
  assumes "gatt_run R db"
  shows "sorted_wrt (\<lambda>s t. svc_hi s < svc_lo t) (db_services db) \<and> distinct (map sv_addr (db_services db)) \<and>
    (\<forall>s\<in>set (db_services db). \<forall>h\<in>set (attr_handles (svc_attrs s)). svc_lo s \<le> h \<and> h \<le> svc_hi s) \<and>
    sorted_wrt (<) (concat (map (\<lambda>s. attr_handles (svc_attrs s)) (db_services db)))"
proof -
  have ok: "services_ok (db_used db) (db_services db)"
    using gatt_run_keeps [OF assms] by (simp add: gdb_ok_def)
  have "svc_lo s \<le> h \<and> h \<le> svc_hi s" if "s \<in> set (db_services db)" "h \<in> set (attr_handles (svc_attrs s))" for s h
    using handles_in_range [OF services_okD(1) [OF ok that(1)] that(2)] by simp
  then show ?thesis using ok services_ok_ascending [OF ok] by (simp add: services_ok_def)
qed

text \<open>A run: a service with a characteristic whose value is read with a callback, that is then removed.\<close>

definition run1 :: gatt_db where
  "run1 = snd (the (gatt_db_add_service gatt_db_new (UUID16 0x1800) True 5))"

definition run2 :: gatt_db where
  "run2 = snd (the (gatt_db_service_add_characteristic run1 (Some (0, 0)) (UUID16 0x2A00) 1 0x02 7 0 0))"

definition run3 :: gatt_db where
  "run3 = snd (the (gatt_db_attribute_read run2 (Some (0, 2)) 0 0x0a 0 5 6 3))"

definition run4 :: gatt_db where
  "run4 = snd (the (gatt_db_remove_service run3 (Some (0, 0))))"

lemma run_service: "db_services run1 = [\<lparr>sv_addr = 0, sv_active = False, sv_claimed = False, sv_num_handles = 5,
    sv_attributes = [Some (set_attribute_data 0 0 BT_ATT_PERM_READ 0 (new_attribute 1 primary_service_uuid [0x00, 0x18])),
      None, None, None, None]\<rparr>]"
  by code_simp

lemma run_fits: "room run1 (Some (0, 0)) 0 2"
  by (simp add: room_def db_service_def run_service fits_def last_handle_def svc_hi_def svc_lo_def svc_attrs_def svc_num_def)

lemma run_steps: "gatt_run {#} run2" "gatt_run {#(5, (0, 2), 6)#} run3" "gatt_run {#(5, (0, 2), 6)#} run4"
proof -
  have 1: "gatt_db_add_service gatt_db_new (UUID16 0x1800) True 5 = Some (Some (0, 0), run1)" by code_simp
  have 2: "gatt_db_service_add_characteristic run1 (Some (0, 0)) (UUID16 0x2A00) 1 0x02 7 0 0 = Some (Some (0, 2), run2)"
    by code_simp
  have 3: "gatt_db_attribute_read run2 (Some (0, 2)) 0 0x0a 0 5 6 3 = Some (True, run3)" by code_simp
  have 4: "gatt_db_remove_service run3 (Some (0, 0)) = Some (True, run4)" by code_simp
  have "none_inside gatt_db_new h e" for h e by (simp add: none_inside_def gatt_db_new_def gatt_db_ref_def)
  then have "gatt_run {#} run1" using gatt_run.add_service [OF gatt_run.new _ 1] by simp
  then show r2: "gatt_run {#} run2" by (rule gatt_run.add_char [OF _ run_fits 2])
  show r3: "gatt_run {#(5, (0, 2), 6)#} run3" using gatt_run.read_value [OF r2 3] by (simp add: asked_def)
  show "gatt_run {#(5, (0, 2), 6)#} run4" by (rule gatt_run.remove_service [OF r3 4])
qed

theorem gatt_run_ordered_witness:
  "concat (map (\<lambda>s. attr_handles (svc_attrs s)) (db_services run2)) = [1, 2, 3] \<and>
   sorted_wrt (<) (concat (map (\<lambda>s. attr_handles (svc_attrs s)) (db_services run2)))"
proof -
  have "concat (map (\<lambda>s. attr_handles (svc_attrs s)) (db_services run2)) = [1, 2, 3]" by code_simp
  then show ?thesis using gatt_run_ordered [OF run_steps(1)] by blast
qed

lemma account_destroy:
  assumes "gdb_ok db" "gatt_db_destroy db = Some d"
  shows "db_answered d = db_account db"
proof -
  let ?f = "fold notify_destroy (db_notify_list db) db"
  let ?n = "?f\<lparr>db_notify_list := []\<rparr>"
  have same: "same_services db ?f" by (rule same_services_fold) simp
  have "db_answered ?f = db_answered db"
    by (subst answered_fold [of _ "\<lambda>_. {#}"]) simp_all
  then have n: "db_answered ?n = db_answered db" "db_services ?n = db_services db"
    using same by (simp_all add: db_answered_def same_services_def)
  have "db_answered d = db_answered (?n\<lparr>db_services := []\<rparr>) + services_owed (db_services ?n)"
    using assms(2) services_list_all [OF assms(1)]
    by (intro answered_destroy_services) (simp_all add: gatt_db_destroy_def Let_def n(2))
  also have "db_answered (?n\<lparr>db_services := []\<rparr>) = db_answered ?n" by (simp add: db_answered_def)
  finally show ?thesis using n by (simp add: db_account_def db_owed_def)
qed

lemma read_result_named:
  assumes "gdb_ok db" "gatt_db_attribute_read_result db (Some r) i err v = Some (True, db')"
  shows "\<exists>a a' p us vs. db_attr db r = Some a \<and> db_attr db' r = Some a' \<and> pd_id p = i \<and> (\<forall>u\<in>set us. pd_id u \<noteq> i) \<and>
    ga_pending_reads a = us @ p # vs \<and> ga_pending_reads a' = us @ vs \<and>
    db_log db' = db_log db @ (if 0 < pd_timeout p then [Timeout_removed (pd_timeout p)] else []) @
      [Read_done (pd_func p) r err v (pd_user p)]"
proof -
  obtain a p ps where a: "db_attr db r = Some a" "take_first (find_pending i) (ga_pending_reads a) = Some (p, ps)"
    "db' = pending_read_result r p err v (update_attr r (a\<lparr>ga_pending_reads := ps\<rparr>) db)"
    using assms(2) by (auto simp: gatt_db_attribute_read_result_def bind_eq_Some_conv split: if_splits option.splits)
  obtain us vs where u: "ga_pending_reads a = us @ p # vs" "ps = us @ vs" "pd_id p = i" "\<forall>u\<in>set us. pd_id u \<noteq> i"
    using take_first_Some [OF a(2)] by (auto simp: find_pending_def)
  have "db_attr (update_attr r (a\<lparr>ga_pending_reads := ps\<rparr>) db) r = Some (a\<lparr>ga_pending_reads := ps\<rparr>)"
    using db_attr_ok [OF assms(1) a(1)]
    by (intro db_attr_updated [OF assms(1) a(1)]) (auto simp: attr_ok_def decl_ok_def cong: option.case_cong)
  then have "db_attr db' r = Some (a\<lparr>ga_pending_reads := ps\<rparr>)"
    using same_services_results(1) [of "update_attr r (a\<lparr>ga_pending_reads := ps\<rparr>) db" r p err v]
    by (simp add: a(3) same_services_def db_attr_def db_service_def)
  moreover have "db_log db' = db_log db @ (if 0 < pd_timeout p then [Timeout_removed (pd_timeout p)] else []) @
      [Read_done (pd_func p) r err v (pd_user p)]"
    by (simp add: a(3) pending_read_result_def db_event_def update_attr_def update_service_def Let_def)
  ultimately show ?thesis using a(1) u by (intro exI [of _ a] exI [of _ "a\<lparr>ga_pending_reads := ps\<rparr>"]) auto
qed

text \<open>C13: Every read that a database accepts is answered exactly once, and with the result that names it. At any
  time of a run of a client that inserts where there is room, the reads accepted, each with its callback, its
  attribute and its user data, are those answered and those that still wait at their attribute, whatever results,
  timeouts and removals there were; when the database is destroyed all have been answered. A result is given to the
  callback of the first read with its identifier that waits at the attribute, which then no longer waits.\<close>

theorem gatt_reads_answered_once:
  assumes "gatt_run R db"
  shows "R = sum_list (map read_done (db_log db)) +
      (\<Sum>s\<leftarrow>db_services db. \<Sum>(i, a)\<leftarrow>enumerate 0 (svc_attrs s).
         mset (map (\<lambda>p. (pd_func p, (sv_addr s, i), pd_user p)) (ga_pending_reads a))) \<and>
    (\<forall>d. gatt_db_destroy db = Some d \<longrightarrow> sum_list (map read_done (db_log d)) = R) \<and>
    (\<forall>r i err v db'. gatt_db_attribute_read_result db (Some r) i err v = Some (True, db') \<longrightarrow>
       (\<exists>a a' p us vs. db_attr db r = Some a \<and> db_attr db' r = Some a' \<and> pd_id p = i \<and> (\<forall>u\<in>set us. pd_id u \<noteq> i) \<and>
          ga_pending_reads a = us @ p # vs \<and> ga_pending_reads a' = us @ vs \<and>
          db_log db' = db_log db @ (if 0 < pd_timeout p then [Timeout_removed (pd_timeout p)] else []) @
            [Read_done (pd_func p) r err v (pd_user p)]))"
proof (intro conjI allI impI)
  have "R = db_owed db + db_answered db" using gatt_run_keeps [OF assms] by (simp add: db_account_def)
  then show "R = sum_list (map read_done (db_log db)) +
      (\<Sum>s\<leftarrow>db_services db. \<Sum>(i, a)\<leftarrow>enumerate 0 (svc_attrs s).
         mset (map (\<lambda>p. (pd_func p, (sv_addr s, i), pd_user p)) (ga_pending_reads a)))"
    by (simp add: db_owed_def services_owed_def svc_owed_def [abs_def] attr_owed_def [abs_def] read_token_def [abs_def]
        db_answered_def add.commute)
  show "sum_list (map read_done (db_log d)) = R" if "gatt_db_destroy db = Some d" for d
    using gatt_run_keeps [OF assms] account_destroy [of db d] that by (simp add: db_answered_def)
qed (use gatt_run_keeps [OF assms] read_result_named in blast)

text \<open>Two reads wait; the result of the second is given to the callback of the second.\<close>

definition run5 :: gatt_db where
  "run5 = snd (the (gatt_db_attribute_read run3 (Some (0, 2)) 0 0x0a 0 8 9 4))"

definition run6 :: gatt_db where
  "run6 = snd (the (gatt_db_attribute_read_result run5 (Some (0, 2)) 2 0 (Some [7])))"

theorem gatt_reads_answered_once_witness:
  "db_log run6 = [Read_asked 7 (0, 2) 1 0 0x0a 0 0, Read_asked 7 (0, 2) 2 0 0x0a 0 0, Timeout_removed 4,
     Read_done 8 (0, 2) 0 (Some [7]) 9] \<and>
   {#(5, (0, 2), 6), (8, (0, 2), 9)#} = sum_list (map read_done (db_log run6)) +
      (\<Sum>s\<leftarrow>db_services run6. \<Sum>(i, a)\<leftarrow>enumerate 0 (svc_attrs s).
         mset (map (\<lambda>p. (pd_func p, (sv_addr s, i), pd_user p)) (ga_pending_reads a))) \<and>
   (\<exists>a p us vs. db_attr run5 (0, 2) = Some a \<and> ga_pending_reads a = us @ p # vs \<and> pd_id p = 2 \<and>
      Read_done (pd_func p) (0, 2) 0 (Some [7]) (pd_user p) = Read_done 8 (0, 2) 0 (Some [7]) 9)"
proof -
  have 5: "gatt_db_attribute_read run3 (Some (0, 2)) 0 0x0a 0 8 9 4 = Some (True, run5)" by code_simp
  have 6: "gatt_db_attribute_read_result run5 (Some (0, 2)) 2 0 (Some [7]) = Some (True, run6)" by code_simp
  have log: "db_log run6 = [Read_asked 7 (0, 2) 1 0 0x0a 0 0, Read_asked 7 (0, 2) 2 0 0x0a 0 0, Timeout_removed 4,
     Read_done 8 (0, 2) 0 (Some [7]) 9]" "last (db_log run6) = Read_done 8 (0, 2) 0 (Some [7]) 9"
    by code_simp+
  have r5: "gatt_run {#(5, (0, 2), 6), (8, (0, 2), 9)#} run5"
    using gatt_run.read_value [OF run_steps(2) 5] by (simp add: asked_def add_mset_commute)
  have r6: "gatt_run {#(5, (0, 2), 6), (8, (0, 2), 9)#} run6" by (rule gatt_run.read_result [OF r5 6])
  obtain a p us vs where p: "db_attr run5 (0, 2) = Some a" "ga_pending_reads a = us @ p # vs" "pd_id p = 2"
    "last (db_log run6) = Read_done (pd_func p) (0, 2) 0 (Some [7]) (pd_user p)"
    using gatt_reads_answered_once [OF r5] 6 by fastforce
  show ?thesis
    using gatt_reads_answered_once [OF r6] log p by auto
qed

end
