(* ===== verification/Gatt_Search.thy ===== *)
theory Gatt_Search
  imports Gatt_Invariant
begin

text \<open>
  The searches of \<open>src/shared/gatt-db.c\<close> against what they are to find: over a database that keeps
  the invariant they end, follow no pointer that leads nowhere, and answer exactly the attributes that
  match, in the order of their handles.
\<close>

section \<open>The attributes with their places\<close>

definition entries_from :: "nat \<Rightarrow> nat \<Rightarrow> gatt_attr list \<Rightarrow> (attr_ref \<times> gatt_attr) list" where
  "entries_from addr i as = map (\<lambda>(i, a). ((addr, i), a)) (enumerate i as)"

lemma entries_from_simps [simp]:
  "entries_from addr i [] = []" "entries_from addr i (a # as) = ((addr, i), a) # entries_from addr (Suc i) as"
  by (simp_all add: entries_from_def)

definition svc_entries :: "gatt_service \<Rightarrow> (attr_ref \<times> gatt_attr) list" where
  "svc_entries s = entries_from (sv_addr s) 0 (svc_attrs s)"

definition active_entries :: "gatt_db \<Rightarrow> (attr_ref \<times> gatt_attr) list" where
  "active_entries db = concat (map svc_entries (filter sv_active (db_services db)))"

text \<open>The places of the attributes that satisfy a condition.\<close>

definition places :: "(gatt_attr \<Rightarrow> bool) \<Rightarrow> (attr_ref \<times> gatt_attr) list \<Rightarrow> attr_ref list" where
  "places p es = map fst (filter (p \<circ> snd) es)"

lemma places_simps [simp]:
  "places p [] = []" "places p (e # es) = (if p (snd e) then fst e # places p es else places p es)"
  "places p (es @ fs) = places p es @ places p fs"
  by (simp_all add: places_def)

lemma places_none: "(\<And>a. a \<in> set as \<Longrightarrow> \<not> p a) \<Longrightarrow> places p (entries_from addr i as) = []"
  by (induction as arbitrary: i) auto

lemma snd_entries_from [simp]: "map snd (entries_from addr i as) = as"
  by (induction as arbitrary: i) auto

definition in_range :: "u16 \<Rightarrow> u16 \<Rightarrow> gatt_attr \<Rightarrow> bool" where
  "in_range start fin a \<longleftrightarrow> start \<le> ga_handle a \<and> ga_handle a \<le> fin"

lemma foreach_service_concat:
  "(\<And>s. s \<in> set ss \<Longrightarrow> f s = Some (if sv_active s then places p (svc_entries s) else [])) \<Longrightarrow>
     foreach_service f ss = Some (places p (concat (map svc_entries (filter sv_active ss))))"
  by (induction ss) auto

lemma beyond_last:
  assumes "sorted_wrt (<) (attr_handles (a # as))" "fin < ga_handle a" "b \<in> set (a # as)"
  shows "\<not> in_range start fin b"
proof -
  have "unat (ga_handle a) \<le> unat (ga_handle b)" using assms(1,3) by (auto simp: attr_handles_def)
  then show ?thesis using assms(2) by (auto simp: in_range_def word_le_nat_alt word_less_nat_alt)
qed

section \<open>Handles and types\<close>

lemma find_information_loop_none [simp]: "find_information_loop start fin addr i (replicate k None) = []"
  by (induction k arbitrary: i) auto

lemma find_information_loop_eq:
  "sorted_wrt (<) (attr_handles as) \<Longrightarrow>
     find_information_loop start fin addr i (map Some as @ replicate k None) =
       places (in_range start fin) (entries_from addr i as)"
proof (induction as arbitrary: i)
  case (Cons a as)
  show ?case
  proof (cases "fin < ga_handle a")
    case True
    have "places (in_range start fin) (entries_from addr i (a # as)) = []"
      by (rule places_none) (rule beyond_last [OF Cons.prems True])
    moreover have "sorted_wrt (<) (attr_handles as)" using Cons.prems by simp
    ultimately show ?thesis using True Cons.IH by (auto split: if_splits)
  qed (use Cons in \<open>auto simp: in_range_def [of start fin a]\<close>)
qed simp

lemma find_information_eq:
  assumes "svc_ok s"
  shows "find_information start fin s =
    Some (if sv_active s then places (in_range start fin) (svc_entries s) else [])"
proof (cases "svc_hi s < unat start")
  case True
  have none: "\<not> in_range start fin a" if "a \<in> set (svc_attrs s)" for a
    using handles_in_range(2) [OF assms, of "unat (ga_handle a)"] that True
    by (auto simp: attr_handles_def in_range_def word_le_nat_alt)
  have "int (unat (ga_handle (hd (svc_attrs s)))) + int (unat (sv_num_handles s)) - 1 < int (unat start)"
    using True unfolding svc_hi_def svc_lo_def svc_num_def by linarith
  then show ?thesis
    using places_none [of "svc_attrs s" "in_range start fin", OF none]
    by (simp add: find_information_def svc_decl [OF assms] svc_entries_def)
next
  case False
  then have "\<not> int (unat (ga_handle (hd (svc_attrs s)))) + int (unat (sv_num_handles s)) - 1 < int (unat start)"
    using svc_okD(12) [OF assms] unfolding svc_hi_def svc_lo_def svc_num_def by linarith
  then show ?thesis
    by (cases "sv_active s") (simp_all only: find_information_def svc_decl [OF assms] bind.bind_lunit svc_entries_def
        svc_slots_eq [OF assms] find_information_loop_eq [OF svc_okD(9) [OF assms]] if_True if_False
        not_True_eq_False not_False_eq_True)
qed

lemma read_by_type_loop_none [simp]: "read_by_type_loop u start fin addr i (replicate k None) = Some []"
  by (induction k arbitrary: i) auto

lemma read_by_type_loop_eq:
  assumes "u \<noteq> UNSPEC"
  shows "sorted_wrt (<) (attr_handles as) \<Longrightarrow> list_all attr_ok as \<Longrightarrow>
     read_by_type_loop u start fin addr i (map Some as @ replicate k None) =
       Some (places (\<lambda>a. in_range start fin a \<and> same_uuid u (ga_uuid a)) (entries_from addr i as))"
proof (induction as arbitrary: i)
  case (Cons a as)
  have "ga_uuid a \<noteq> UNSPEC" using Cons.prems(2) by (simp add: attr_ok_def)
  then obtain c where c: "bt_uuid_cmp u (ga_uuid a) = Some c" "c = 0 \<longleftrightarrow> same_uuid u (ga_uuid a)"
    using assms by (simp add: uuid_cmp_known same_uuid_def)
  show ?case
  proof (cases "fin < ga_handle a")
    case True
    have "places (\<lambda>a. in_range start fin a \<and> same_uuid u (ga_uuid a)) (entries_from addr i (a # as)) = []"
      by (rule places_none) (use beyond_last [OF Cons.prems(1) True] in blast)
    moreover have "sorted_wrt (<) (attr_handles as)" "list_all attr_ok as" using Cons.prems by simp_all
    ultimately show ?thesis using True Cons.IH by (auto simp: in_range_def [of start fin a] split: if_splits)
  qed (use Cons c in \<open>auto simp: in_range_def [of start fin a]\<close>)
qed simp

lemma read_by_type_eq:
  assumes "svc_ok s" "u \<noteq> UNSPEC"
  shows "read_by_type u start fin s =
    Some (if sv_active s then places (\<lambda>a. in_range start fin a \<and> same_uuid u (ga_uuid a)) (svc_entries s) else [])"
  using svc_okD(4,9) [OF assms(1)]
  by (simp add: read_by_type_def svc_slots_eq [OF assms(1)] svc_entries_def read_by_type_loop_eq [OF assms(2)] list_all_iff)

section \<open>Values\<close>

definition attr_value :: "gatt_attr \<Rightarrow> u8 list" where
  "attr_value a = (case ga_value a of None \<Rightarrow> [] | Some b \<Rightarrow> take (unat (ga_value_len a)) b)"

lemma attr_value_length: "attr_ok a \<Longrightarrow> length (attr_value a) = unat (ga_value_len a)"
  by (auto simp: attr_ok_def attr_value_def split: option.splits)

lemma value_matches_eq:
  assumes "attr_ok a"
  shows "value_matches d a = Some (case fb_value d of None \<Rightarrow> True | Some v \<Rightarrow> attr_value a = v)"
proof (cases "fb_value d")
  case (Some v)
  show ?thesis
  proof (cases "length v = unat (ga_value_len a)")
    case True
    show ?thesis
    proof (cases "v = []")
      case True
      then show ?thesis using Some attr_value_length [OF assms] \<open>length v = _\<close> by (simp add: value_matches_def)
    next
      case False
      then obtain b where "ga_value a = Some b" "length v \<le> length b"
        using assms True by (cases "ga_value a") (auto simp: attr_ok_def)
      then show ?thesis using Some False True
        by (simp add: value_matches_def buf_read_0 attr_value_def)
    qed
  qed (use Some attr_value_length [OF assms] in \<open>auto simp: value_matches_def\<close>)
qed (simp add: value_matches_def)

lemma find_by_type_loop_none [simp]: "find_by_type_loop d addr i (replicate k None) = Some []"
  by (induction k arbitrary: i) auto

definition type_value_match :: "find_by_type_value_data \<Rightarrow> gatt_attr \<Rightarrow> bool" where
  "type_value_match d a \<longleftrightarrow> in_range (fb_start_handle d) (fb_end_handle d) a \<and> same_uuid (fb_uuid d) (ga_uuid a) \<and>
     (case fb_value d of None \<Rightarrow> True | Some v \<Rightarrow> attr_value a = v)"

lemma find_by_type_loop_eq:
  assumes "fb_uuid d \<noteq> UNSPEC"
  shows "list_all attr_ok as \<Longrightarrow>
     find_by_type_loop d addr i (map Some as @ replicate k None) = Some (places (type_value_match d) (entries_from addr i as))"
proof (induction as arbitrary: i)
  case (Cons a as)
  have "ga_uuid a \<noteq> UNSPEC" using Cons.prems by (simp add: attr_ok_def)
  then obtain c where "bt_uuid_cmp (fb_uuid d) (ga_uuid a) = Some c" "c = 0 \<longleftrightarrow> same_uuid (fb_uuid d) (ga_uuid a)"
    using assms by (simp add: uuid_cmp_known same_uuid_def)
  then show ?case
    using Cons by (auto simp: type_value_match_def [of d a] in_range_def [of _ _ a] value_matches_eq not_less)
qed simp

lemma find_by_type_eq:
  assumes "svc_ok s" "fb_uuid d \<noteq> UNSPEC"
  shows "find_by_type d s = Some (if sv_active s then places (type_value_match d) (svc_entries s) else [])"
  using svc_okD(4) [OF assms(1)]
  by (simp add: find_by_type_def svc_slots_eq [OF assms(1)] svc_entries_def find_by_type_loop_eq [OF assms(2)] list_all_iff)

section \<open>Groups\<close>

definition group_match :: "u16 \<Rightarrow> u16 \<Rightarrow> bt_uuid \<Rightarrow> gatt_service \<Rightarrow> bool" where
  "group_match start fin u s \<longleftrightarrow> sv_active s \<and> unat start \<le> svc_lo s \<and> svc_lo s \<le> unat fin \<and>
     same_uuid u (ga_uuid (hd (svc_attrs s)))"

definition decl_len :: "gatt_service \<Rightarrow> u16" where
  "decl_len s = ga_value_len (hd (svc_attrs s))"

definition service_places :: "gatt_service list \<Rightarrow> attr_ref list" where
  "service_places ss = map (\<lambda>s. (sv_addr s, 0)) ss"

lemma group_loop_step:
  assumes "svc_ok s" "u \<noteq> UNSPEC"
  shows "group_loop start fin u sz (s # ss) =
    (if \<not> group_match start fin u s then group_loop start fin u sz ss
     else if sz = 0 then map_option ((#) (sv_addr s, 0)) (group_loop start fin u (decl_len s) ss)
     else if sz \<noteq> decl_len s then Some []
     else map_option ((#) (sv_addr s, 0)) (group_loop start fin u sz ss))"
proof -
  let ?d = "hd (svc_attrs s)"
  have "ga_uuid ?d \<noteq> UNSPEC" using svc_okD(2,4) [OF assms(1)] by (simp add: attr_ok_def)
  then obtain c where c: "bt_uuid_cmp u (ga_uuid ?d) = Some c" "c = 0 \<longleftrightarrow> same_uuid u (ga_uuid ?d)"
    using assms(2) by (simp add: uuid_cmp_known same_uuid_def)
  have m: "c \<noteq> 0 \<or> ga_handle ?d + sv_num_handles s - 1 < start \<or> fin < ga_handle ?d \<or> ga_handle ?d < start \<or> fin < ga_handle ?d
      \<longleftrightarrow> \<not> (same_uuid u (ga_uuid ?d) \<and> unat start \<le> svc_lo s \<and> svc_lo s \<le> unat fin)"
    using c(2) svc_okD(8) [OF assms(1)] unat_svc_end [OF assms(1)]
    by (auto simp: word_less_nat_alt svc_lo_def)
  show ?thesis
    by (simp only: group_loop.simps svc_decl [OF assms(1)] bind.bind_lunit c(1) Let_def m) (auto simp: group_match_def decl_len_def)
qed

lemma group_loop_sized:
  assumes "u \<noteq> UNSPEC" "sz \<noteq> 0"
  shows "list_all svc_ok ss \<Longrightarrow> group_loop start fin u sz ss =
      Some (service_places (takeWhile (\<lambda>s. decl_len s = sz) (filter (group_match start fin u) ss)))"
  using assms(2)
  by (induction ss) (auto simp: group_loop_step [OF _ assms(1)] service_places_def simp del: group_loop.simps(2))

lemma group_loop_eq:
  assumes "u \<noteq> UNSPEC"
  shows "list_all svc_ok ss \<Longrightarrow> group_loop start fin u 0 ss =
      Some (let m = filter (group_match start fin u) ss in service_places (takeWhile (\<lambda>s. decl_len s = decl_len (hd m)) m))"
proof (induction ss)
  case (Cons s ss)
  then have s: "svc_ok s" "list_all svc_ok ss" by simp_all
  have "decl_len s \<noteq> 0" using svc_okD(5) [OF s(1)] by (auto simp: decl_len_def decl_ok_def)
  then show ?case
    using Cons.IH s group_loop_sized [OF assms _ s(2)]
    by (simp add: group_loop_step [OF s(1) assms] Let_def service_places_def del: group_loop.simps(2))
qed (simp add: service_places_def)

section \<open>One handle\<close>

lemma find_service_eq: "(\<And>s. s \<in> set ss \<Longrightarrow> f s = Some (p s)) \<Longrightarrow> find_service f ss = Some (find p ss)"
  by (induction ss) auto

lemma get_service_eq:
  assumes "gdb_ok db"
  shows "gatt_db_get_service db h =
    Some (map_option (\<lambda>s. (sv_addr s, 0)) (find (\<lambda>s. svc_lo s \<le> unat h \<and> unat h \<le> svc_hi s) (db_services db)))"
proof -
  have f: "find_service_for_handle h s = Some (svc_lo s \<le> unat h \<and> unat h \<le> svc_hi s)" if "s \<in> set (db_services db)" for s
  proof -
    have "svc_ok s" using services_list_all [OF assms] that by (simp add: list_all_iff)
    then show ?thesis by (rule get_handles_eq) (simp add: find_service_for_handle_def word_le_nat_alt)
  qed
  have "find (\<lambda>s. svc_lo s \<le> 0 \<and> 0 \<le> svc_hi s) (db_services db) = None"
    using services_list_all [OF assms] svc_okD(6) by (fastforce simp: find_None_iff list_all_iff)
  moreover have "find_service (find_service_for_handle h) (db_services db) =
      Some (find (\<lambda>s. svc_lo s \<le> unat h \<and> unat h \<le> svc_hi s) (db_services db))"
    by (rule find_service_eq) (rule f)
  ultimately show ?thesis by (cases "h = 0") (simp_all only: gatt_db_get_service_def option.map if_True if_False if_cancel unsigned_0)
qed

lemma attr_with_handle_none [simp]: "attr_with_handle h i (replicate k None) = None"
  by (induction k arbitrary: i) auto

lemma attr_with_handle_eq:
  "attr_with_handle h i (map Some as @ replicate k None) = Some j \<longleftrightarrow>
     (\<exists>n<length as. j = i + n \<and> ga_handle (as ! n) = h \<and> (\<forall>m<n. ga_handle (as ! m) \<noteq> h))"
proof (induction as arbitrary: i)
  case (Cons a as)
  show ?case
  proof (cases "ga_handle a = h")
    case True
    then show ?thesis by (auto simp: nth_Cons' split: if_splits)
  next
    case False
    then show ?thesis
      using Cons.IH [of "Suc i"] by (auto simp: Ex_less_Suc2 All_less_Suc2)
  qed
qed simp

lemma sorted_handles_inj:
  assumes "svc_ok s" "i < length (svc_attrs s)" "j < length (svc_attrs s)"
    "ga_handle (svc_attrs s ! i) = ga_handle (svc_attrs s ! j)"
  shows "i = j"
proof (rule ccontr)
  assume "i \<noteq> j"
  then have "i < j \<or> j < i" by arith
  then show False
    using sorted_wrt_nth_less [OF svc_okD(9) [OF assms(1)]] assms(2-) by (fastforce simp: attr_handles_def)
qed

lemma attr_with_handle_slot:
  assumes "svc_ok s"
  shows "attr_with_handle h 0 (svc_slots s) = Some j \<longleftrightarrow> (\<exists>a. svc_attr s j = Some a \<and> ga_handle a = h)"
  unfolding svc_slots_eq [OF assms] attr_with_handle_eq svc_attr_eq [OF assms]
  by (auto split: if_splits) (metis order.strict_trans sorted_handles_inj [OF assms] less_irrefl)

lemma attr_in_service:
  assumes "gdb_ok db" "db_attr db r = Some a"
  shows "\<exists>s\<in>set (db_services db). sv_addr s = fst r \<and> svc_lo s \<le> unat (ga_handle a) \<and> unat (ga_handle a) \<le> svc_hi s"
proof -
  obtain s where s: "db_service db (fst r) = Some s" "svc_attr s (snd r) = Some a"
    by (rule db_attr_some [OF assms(2)])
  note ok = gdb_okD [OF assms(1) s(1)]
  have "a \<in> set (svc_attrs s)" using s(2) svc_attr_eq [OF ok] by (auto split: if_splits)
  then show ?thesis
    using handles_in_range [OF ok, of "unat (ga_handle a)"] db_service_some [OF s(1)] by (auto simp: attr_handles_def)
qed

lemma ranges_disjoint:
  assumes "services_ok used ss" "s \<in> set ss" "t \<in> set ss" "svc_lo s \<le> h" "h \<le> svc_hi s" "svc_lo t \<le> h" "h \<le> svc_hi t"
  shows "s = t"
  using assms by (induction ss) fastforce+

lemma attr_service_unique:
  assumes "gdb_ok db" "db_attr db r = Some a" "s \<in> set (db_services db)"
    "svc_lo s \<le> unat (ga_handle a)" "unat (ga_handle a) \<le> svc_hi s"
  shows "fst r = sv_addr s"
proof -
  obtain t where t: "t \<in> set (db_services db)" "sv_addr t = fst r" "svc_lo t \<le> unat (ga_handle a)"
    "unat (ga_handle a) \<le> svc_hi t"
    using attr_in_service [OF assms(1,2)] by blast
  have "t = s" by (rule ranges_disjoint [OF assms(1) [unfolded gdb_ok_def] t(1) assms(3) t(3,4) assms(4,5)])
  then show ?thesis using t(2) by simp
qed

section \<open>The searches\<close>

text \<open>A database with one active service that holds one characteristic.\<close>

definition sample_db :: gatt_db where
  "sample_db = the (do {
     (x, db) \<leftarrow> gatt_db_add_service gatt_db_new (UUID16 0x1800) True 5;
     (y, db) \<leftarrow> gatt_db_service_add_characteristic db x (UUID16 0x2A00) 1 0x02 0 0 0;
     (ok, db) \<leftarrow> gatt_db_service_set_active db x True;
     Some db })"

definition sample_service :: gatt_service where
  "sample_service = \<lparr>sv_addr = 0, sv_active = True, sv_claimed = False, sv_num_handles = 5, sv_attributes =
     [Some (set_attribute_data 0 0 BT_ATT_PERM_READ 0 (new_attribute 1 primary_service_uuid [0x00, 0x18])),
      Some (char_decl 3 0x02 [0x00, 0x2a]), Some (set_attribute_data 0 0 1 0 (new_attribute 3 (UUID16 0x2A00) [])),
      None, None]\<rparr>"

lemma sample_services: "db_services sample_db = [sample_service]" "db_used sample_db = 1"
  by code_simp+

lemma sample_db_ok: "gdb_ok sample_db"
proof -
  have "svc_attrs sample_service =
      [set_attribute_data 0 0 BT_ATT_PERM_READ 0 (new_attribute 1 primary_service_uuid [0x00, 0x18]),
       char_decl 3 0x02 [0x00, 0x2a], set_attribute_data 0 0 1 0 (new_attribute 3 (UUID16 0x2A00) [])]"
    by (simp add: svc_attrs_def sample_service_def)
  moreover have "sv_attributes sample_service = map Some (svc_attrs sample_service) @ replicate (5 - 3) None"
    unfolding calculation by (simp add: sample_service_def numeral_2_eq_2)
  ultimately show ?thesis
    by (simp add: gdb_ok_def sample_services svc_ok_def svc_lo_def svc_hi_def svc_num_def decl_ok_def attr_ok_def
        char_decl_def) (simp add: sample_service_def)
qed

lemma active_entries_ascending:
  assumes "gdb_ok db"
  shows "sorted_wrt (<) (map (\<lambda>e. unat (ga_handle (snd e))) (active_entries db))"
proof -
  have "map (\<lambda>e. unat (ga_handle (snd e))) (svc_entries s) = attr_handles (svc_attrs s)" for s
    unfolding svc_entries_def attr_handles_def
    by (metis (no_types, lifting) comp_apply map_eq_conv map_map snd_entries_from)
  then have "map (\<lambda>e. unat (ga_handle (snd e))) (active_entries db) =
      concat (map (\<lambda>s. attr_handles (svc_attrs s)) (filter sv_active (db_services db)))"
    by (simp add: active_entries_def map_concat comp_def)
  then show ?thesis
    using services_ok_ascending [OF services_ok_filter [OF assms [unfolded gdb_ok_def]]] by simp
qed

text \<open>C14: The searches by handle and by type (\<open>gatt_db_find_information\<close>, \<open>gatt_db_read_by_type\<close>), which give
  up a service at the first attribute behind the range, nevertheless answer exactly the attributes of the
  active services in the range, of the type asked for, each once and in the order of the handles.\<close>

theorem gatt_handle_searches_exact:
  assumes "gdb_ok db" "type \<noteq> UNSPEC"
  shows "gatt_db_find_information db start fin = Some (places (in_range start fin) (active_entries db)) \<and>
    gatt_db_read_by_type db start fin type =
      Some (places (\<lambda>a. in_range start fin a \<and> same_uuid type (ga_uuid a)) (active_entries db)) \<and>
    sorted_wrt (<) (map (\<lambda>e. unat (ga_handle (snd e))) (active_entries db))"
proof -
  have ok: "svc_ok s" if "s \<in> set (db_services db)" for s
    using services_list_all [OF assms(1)] that by (simp add: list_all_iff)
  show ?thesis
    unfolding gatt_db_find_information_def gatt_db_read_by_type_def active_entries_def [symmetric]
    by (intro conjI active_entries_ascending [OF assms(1)], unfold active_entries_def)
      (rule foreach_service_concat, simp add: find_information_eq read_by_type_eq ok assms(2) if_distrib)+
qed

theorem gatt_handle_searches_exact_witness:
  "gatt_db_find_information sample_db 1 9 = Some [(0, 0), (0, 1), (0, 2)] \<and>
   gatt_db_read_by_type sample_db 2 9 characteristic_uuid = Some [(0, 1)]"
proof -
  have "places (in_range 1 9) (active_entries sample_db) = [(0, 0), (0, 1), (0, 2)]"
    "places (\<lambda>a. in_range 2 9 a \<and> same_uuid characteristic_uuid (ga_uuid a)) (active_entries sample_db) = [(0, 1)]"
    by code_simp+
  then show ?thesis
    using gatt_handle_searches_exact [OF sample_db_ok uuid_consts(4), of 1 9]
      gatt_handle_searches_exact [OF sample_db_ok uuid_consts(4), of 2 9] by simp
qed

text \<open>C15: The search by type and value (\<open>gatt_db_find_by_type_value\<close>) answers exactly the attributes of the
  active services in the range with that type and that value, and counts them on from whatever its counter
  held; the search for groups (\<open>gatt_db_read_by_group_type\<close>) answers the active services whose declaration
  is in the range and of the type, up to the first whose UUID has another length than that of the first.\<close>

theorem gatt_value_searches_exact:
  assumes "gdb_ok db" "type \<noteq> UNSPEC"
  shows "gatt_db_find_by_type_value stale db start fin type value =
      (let found = places (\<lambda>a. in_range start fin a \<and> same_uuid type (ga_uuid a) \<and>
                             (value = None \<or> value = Some (attr_value a))) (active_entries db)
       in Some (found, stale + of_nat (length found))) \<and>
    gatt_db_read_by_group_type db start fin type =
      Some (let groups = filter (group_match start fin type) (db_services db)
            in service_places (takeWhile (\<lambda>s. decl_len s = decl_len (hd groups)) groups))"
proof -
  let ?d = "\<lparr>fb_uuid = type, fb_start_handle = start, fb_end_handle = fin, fb_value = value\<rparr>"
  have ok: "svc_ok s" if "s \<in> set (db_services db)" for s
    using services_list_all [OF assms(1)] that by (simp add: list_all_iff)
  have "foreach_service (find_by_type ?d) (db_services db) = Some (places (type_value_match ?d) (active_entries db))"
    unfolding active_entries_def
    by (rule foreach_service_concat) (simp add: find_by_type_eq ok assms(2))
  moreover have "type_value_match ?d = (\<lambda>a. in_range start fin a \<and> same_uuid type (ga_uuid a) \<and>
      (value = None \<or> value = Some (attr_value a)))"
    by (auto simp: type_value_match_def fun_eq_iff split: option.splits)
  ultimately show ?thesis
    by (simp add: gatt_db_find_by_type_value_def Let_def gatt_db_read_by_group_type_def
        group_loop_eq [OF assms(2) services_list_all [OF assms(1)]])
qed

theorem gatt_value_searches_exact_witness:
  "gatt_db_find_by_type_value 7 sample_db 1 9 primary_service_uuid (Some [0x00, 0x18]) = Some ([(0, 0)], 8) \<and>
   gatt_db_read_by_group_type sample_db 1 9 primary_service_uuid = Some [(0, 0)]"
proof -
  have "places (\<lambda>a. in_range 1 9 a \<and> same_uuid primary_service_uuid (ga_uuid a) \<and>
      (Some [0x00, 0x18] = None \<or> Some [0x00, 0x18] = Some (attr_value a))) (active_entries sample_db) = [(0, 0)]"
    "filter (group_match 1 9 primary_service_uuid) (db_services sample_db) = db_services sample_db"
    "service_places (takeWhile (\<lambda>s. decl_len s = decl_len (hd (db_services sample_db))) (db_services sample_db)) = [(0, 0)]"
    by code_simp+
  then show ?thesis
    using gatt_value_searches_exact [OF sample_db_ok, of primary_service_uuid 7 1 9 "Some [0x00, 0x18]"] by simp
qed

text \<open>C16: \<open>gatt_db_get_attribute\<close> finds an attribute by its handle: it answers a place exactly when the
  attribute there has the handle, and nothing when no attribute has it.\<close>

theorem gatt_get_attribute_exact:
  assumes "gdb_ok db"
  shows "\<exists>x. gatt_db_get_attribute db h = Some x \<and>
    (\<forall>r. x = Some r \<longleftrightarrow> (\<exists>a. db_attr db r = Some a \<and> ga_handle a = h))"
proof (cases "find (\<lambda>s. svc_lo s \<le> unat h \<and> unat h \<le> svc_hi s) (db_services db)")
  case None
  have "ga_handle a \<noteq> h" if "db_attr db r = Some a" for r a
    using None attr_in_service [OF assms that] by (fastforce simp: find_None_iff)
  then show ?thesis using None by (auto simp: gatt_db_get_attribute_def get_service_eq [OF assms])
next
  case (Some s)
  then have s: "s \<in> set (db_services db)" "svc_lo s \<le> unat h" "unat h \<le> svc_hi s" by (auto simp: find_Some_iff)
  have ok: "svc_ok s" using services_list_all [OF assms] s(1) by (simp add: list_all_iff)
  note get = db_service_member [OF assms s(1)]
  have "gatt_db_get_attribute db h = Some (map_option (Pair (sv_addr s)) (attr_with_handle h 0 (svc_slots s)))"
    by (simp add: gatt_db_get_attribute_def get_service_eq [OF assms] Some get svc_slots_def)
  moreover have "map_option (Pair (sv_addr s)) (attr_with_handle h 0 (svc_slots s)) = Some r \<longleftrightarrow>
      (\<exists>a. db_attr db r = Some a \<and> ga_handle a = h)" for r
  proof -
    have "fst r = sv_addr s" if "db_attr db r = Some a" "ga_handle a = h" for a
      using attr_service_unique [OF assms that(1) s(1)] s(2,3) that(2) by simp
    then show ?thesis
      using attr_with_handle_slot [OF ok, of h] get by (cases r) (fastforce simp: db_attr_def)
  qed
  ultimately show ?thesis by blast
qed

theorem gatt_get_attribute_exact_witness:
  "gatt_db_get_attribute sample_db 3 = Some (Some (0, 2)) \<and> db_attr sample_db (0, 2) \<noteq> None"
proof -
  have "map_option ga_handle (db_attr sample_db (0, 2)) = Some 3" by code_simp
  then obtain a where a: "db_attr sample_db (0, 2) = Some a" "ga_handle a = 3" by blast
  obtain x where "gatt_db_get_attribute sample_db 3 = Some x"
    "x = Some (0, 2) \<longleftrightarrow> (\<exists>a. db_attr sample_db (0, 2) = Some a \<and> ga_handle a = 3)"
    using gatt_get_attribute_exact [OF sample_db_ok, of 3] by blast
  then show ?thesis using a by simp
qed

end
