(* ===== verification/Gatt_Declare.thy ===== *)
theory Gatt_Declare
  imports Gatt_Run Gatt_Search
begin

text \<open>
  What is put into a GATT database comes out again: services with their ranges and UUIDs,
  characteristics with their declarations, values that are written and read; and where
  \<open>src/shared/gatt-db.c\<close> does not keep this promise.
\<close>

section \<open>Stored UUIDs\<close>

text \<open>The form in which a UUID is stored: those of 32 bits are expanded.\<close>

fun stored_uuid :: "bt_uuid \<Rightarrow> bt_uuid" where
  "stored_uuid (UUID32 v) = bt_uuid32_to_uuid128 v"
| "stored_uuid u = u"

lemma get_le16_bytes: "get_le16 (p @ le16_bytes v @ r) (length p) = Some v"
  by (rule get_le16_at) simp

lemma le_to_uuid_stored:
  assumes "uuid_wf u" "uuid_to_le u = Some v"
  shows "le_to_uuid (p @ v) (length p) (length v) = Some (Some (stored_uuid u))"
proof (cases u)
  case (UUID16 x)
  then show ?thesis
    using assms(2) get_le16_bytes [of p x "[]"] by (auto simp: uuid_to_le_def le_to_uuid_def bt_uuid16_create_def)
next
  case UNSPEC
  then show ?thesis using assms(2) by (simp add: uuid_to_le_def)
next
  case (UUID32 x)
  obtain t where t: "bt_uuid32_to_uuid128 x = UUID128 t" "length (u128_data t) = 16"
    using to_uuid128_wf [OF assms(1)] UUID32 by auto
  then show ?thesis using assms(2) UUID32 bswap_128_twice [OF t(2)]
    by (auto simp: uuid_to_le_def le_to_uuid_def bt_uuid128_create_def buf_read_def)
next
  case (UUID128 t)
  then show ?thesis using assms bswap_128_twice [of t]
    by (auto simp: uuid_to_le_def le_to_uuid_def bt_uuid128_create_def buf_read_def)
qed

lemma uuid_to_le_some: "u \<noteq> UNSPEC \<Longrightarrow> \<exists>v. uuid_to_le u = Some v"
  by (cases u) (auto simp: uuid_to_le_def bt_uuid32_to_uuid128_def)

lemma value_len_stored: "uuid_to_le u = Some v \<Longrightarrow> unat (of_nat (length v) :: u16) = length v"
  using uuid_to_le_length by fastforce

section \<open>Services\<close>

definition free_range :: "gatt_db \<Rightarrow> nat \<Rightarrow> nat \<Rightarrow> bool" where
  "free_range db lo hi \<longleftrightarrow> list_all (\<lambda>s. svc_hi s < lo \<or> hi < svc_lo s) (db_services db)"

lemma find_insert_loc_free:
  assumes "list_all svc_ok ss" "\<And>s. s \<in> set ss \<Longrightarrow> \<not> holds_end start fin s"
  shows "\<exists>a. find_insert_loc start fin after ss = Some (None, a)"
  using assms
proof (induction ss arbitrary: after)
  case (Cons s ss)
  then show ?case by (simp add: find_insert_loc_step del: find_insert_loc.simps)
qed simp

lemma range_end:
  assumes "1 \<le> num" "unat handle + unat num - 1 \<le> 0xffff"
  shows "unat (handle + num - 1 :: u16) = unat handle + unat num - 1"
proof -
  have "handle + num - 1 = (of_nat (unat handle + unat num - 1) :: u16)"
    using assms(1) by (simp add: of_nat_diff word_le_nat_alt)
  then show ?thesis using assms(2) by (simp add: unat_of_nat_small)
qed

lemma insert_service_free:
  assumes "gdb_ok db" "1 \<le> handle" "1 \<le> num" "unat handle + unat num - 1 \<le> 0xffff" "uuid \<noteq> UNSPEC"
    "free_range db (unat handle) (unat handle + unat num - 1)"
  obtains pre post s db' where "gatt_db_insert_service db handle uuid primary num = Some (Some (db_used db, 0), db')"
    "gatt_db_service_create (db_used db) uuid handle primary num = Some (Some s)"
    "db_services db = pre @ post" "db_services db' = pre @ s\<lparr>sv_num_handles := num\<rparr> # post"
    "unat (db_next_handle db') = max (unat handle + unat num) (unat (db_next_handle db)) mod 2 ^ 16" "gdb_ok db'"
proof -
  let ?fin = "handle + num - 1"
  note fin = range_end [OF assms(3,4)]
  have n: "1 \<le> unat num" using assms(3) by (simp add: word_le_nat_alt)
  have free: "svc_hi s < unat handle \<or> unat handle + unat num - 1 < svc_lo s" if "s \<in> set (db_services db)" for s
    using assms(6) that by (simp add: free_range_def list_all_iff)
  have "\<not> holds_end handle ?fin s" if "s \<in> set (db_services db)" for s
    using free [OF that] n unfolding holds_end_def fin by linarith
  then obtain a where loc: "find_insert_loc handle ?fin None (db_services db) = Some (None, a)"
    using find_insert_loc_free [OF services_list_all [OF assms(1)]] by blast
  have inside: "none_inside db handle ?fin"
    unfolding none_inside_def fin list_all_iff
  proof (intro ballI notI)
    fix s assume s: "s \<in> set (db_services db)" "unat handle < svc_lo s \<and> svc_hi s < unat handle + unat num - 1"
    have "svc_lo s \<le> svc_hi s"
      using services_list_all [OF assms(1)] s(1) svc_okD(8) by (simp add: list_all_iff)
    then show False using free [OF s(1)] s(2) by linarith
  qed
  obtain v where v: "uuid_to_le uuid = Some v" using uuid_to_le_some [OF assms(5)] by blast
  have f: "handle \<noteq> 0" "num \<noteq> 0" using assms(2,3) by (auto simp: word_pos)
  obtain s where s: "gatt_db_service_create (db_used db) uuid handle primary num = Some (Some s)"
    using v f by (simp add: gatt_db_service_create_def Let_def)
  obtain pre post where p: "db_services db = pre @ post" "a = (if pre = [] then None else Some (last pre))"
    using find_insert_loc_place [OF assms(1) [unfolded gdb_ok_def] loc] by auto
  have "distinct (map sv_addr (pre @ post))" using assms(1) by (simp add: gdb_ok_def services_ok_def p(1))
  then have push: "(case a of Some a \<Rightarrow> push_after (sv_addr a) (s\<lparr>sv_num_handles := num\<rparr>) (db_services db)
      | None \<Rightarrow> Some (s\<lparr>sv_num_handles := num\<rparr> # db_services db)) = Some (pre @ s\<lparr>sv_num_handles := num\<rparr> # post)"
    using push_after_last [of pre post] by (auto simp: p)
  define db' where "db' = db\<lparr>db_services := pre @ s\<lparr>sv_num_handles := num\<rparr> # post, db_used := db_used db + 1,
      db_next_handle := of_nat (max (unat handle + unat num) (unat (db_next_handle db)))\<rparr>"
  have u: "\<not> 65536 < uint handle + uint num"
  proof -
    have "int (unat handle) + int (unat num) \<le> 65536" using assms(4) by linarith
    then show ?thesis by simp
  qed
  have ins: "gatt_db_insert_service db handle uuid primary num = Some (Some (db_used db, 0), db')"
    using f u loc s push service_create_ok(4) [OF s assms(2,4)] by (simp add: gatt_db_insert_service_def db'_def)
  show thesis
    by (rule that [OF ins s p(1) _ _ gdb_ok_insert_service [OF assms(1) ins inside]])
      (simp_all add: db'_def unat_of_nat)
qed

lemma service_type_cmp: "\<exists>c. bt_uuid_cmp (service_type primary) secondary_service_uuid = Some c \<and> (c \<noteq> 0 \<longleftrightarrow> primary)"
proof (cases primary)
  case True
  have "bt_uuid_cmp (service_type True) secondary_service_uuid = Some (- 1)" by code_simp
  then show ?thesis using True by simp
next
  case False
  have "bt_uuid_cmp (service_type False) secondary_service_uuid = Some 0" by code_simp
  then show ?thesis using False by simp
qed

lemma sample_attrs:
  "svc_attrs sample_service =
      [set_attribute_data 0 0 BT_ATT_PERM_READ 0 (new_attribute 1 primary_service_uuid [0x00, 0x18]),
       char_decl 3 0x02 [0x00, 0x2a], set_attribute_data 0 0 1 0 (new_attribute 3 (UUID16 0x2A00) [])]"
  by (simp add: svc_attrs_def sample_service_def)

lemma svc_hi_sample: "svc_hi sample_service = 5"
  by (simp add: svc_hi_def svc_lo_def svc_num_def sample_attrs) (simp add: sample_service_def)

text \<open>C18: A service goes into a free range of handles: \<open>gatt_db_insert_service\<close> then accepts it, puts it
  between its neighbours, keeps the database in order, and what \<open>gatt_db_attribute_get_service_data\<close>
  reads from the new declaration is the range, the type and the UUID that were given.\<close>

theorem gatt_service_roundtrip:
  assumes "gdb_ok db" "1 \<le> handle" "1 \<le> num" "unat handle + unat num - 1 \<le> 0xffff" "uuid_wf uuid" "uuid \<noteq> UNSPEC"
    "free_range db (unat handle) (unat handle + unat num - 1)"
  shows "\<exists>db'. gatt_db_insert_service db handle uuid primary num = Some (Some (db_used db, 0), db') \<and> gdb_ok db' \<and>
    gatt_db_attribute_get_service_data db' (Some (db_used db, 0)) True =
      Some (True, Some (handle, handle + num - 1, primary, Some (stored_uuid uuid))) \<and>
    (\<exists>pre post s. db_services db = pre @ post \<and> db_services db' = pre @ s # post)"
proof -
  obtain pre post s db' where ins: "gatt_db_insert_service db handle uuid primary num = Some (Some (db_used db, 0), db')"
    and cr: "gatt_db_service_create (db_used db) uuid handle primary num = Some (Some s)"
    and p: "db_services db = pre @ post" "db_services db' = pre @ s\<lparr>sv_num_handles := num\<rparr> # post" and ok: "gdb_ok db'"
    by (rule insert_service_free [OF assms(1-4,6,7), of primary])
  let ?s = "s\<lparr>sv_num_handles := num\<rparr>"
  note new = service_create_ok [OF cr assms(2,4)]
  obtain v where v: "uuid_to_le uuid = Some v" and as: "svc_attrs ?s =
      [set_attribute_data 0 0 BT_ATT_PERM_READ 0 (new_attribute handle (service_type primary) v)]"
    using new(6) by blast
  have decl: "svc_attr ?s 0 = Some (set_attribute_data 0 0 BT_ATT_PERM_READ 0 (new_attribute handle (service_type primary) v))"
    using svc_decl [OF new(1)] as by simp
  have sv: "db_service db' (db_used db) = Some ?s"
    using db_service_member [OF ok, of ?s] new(4) by (simp add: p)
  have "v \<noteq> []" using uuid_to_le_length [OF v] by auto
  moreover have "le_to_uuid v 0 (unat (of_nat (length v) :: u16)) = Some (Some (stored_uuid uuid))"
    using le_to_uuid_stored [OF assms(5) v, of "[]"] value_len_stored [OF v] by simp
  ultimately have "gatt_db_attribute_get_service_data db' (Some (db_used db, 0)) True =
      Some (True, Some (handle, handle + num - 1, primary, Some (stored_uuid uuid)))"
    using service_type_cmp [of primary]
    by (auto simp: gatt_db_attribute_get_service_data_def sv decl gatt_db_service_get_handles_def)
  then show ?thesis using ins ok p by blast
qed

theorem gatt_service_roundtrip_witness:
  "\<exists>db'. gatt_db_insert_service sample_db 20 (UUID32 0x12345678) False 4 = Some (Some (1, 0), db') \<and>
    gatt_db_attribute_get_service_data db' (Some (1, 0)) True =
      Some (True, Some (20, 23, False, Some (bt_uuid32_to_uuid128 0x12345678)))"
proof -
  have "free_range sample_db 20 23"
    using svc_hi_sample by (simp add: free_range_def sample_services)
  then show ?thesis
    using gatt_service_roundtrip [OF sample_db_ok, of 20 4 "UUID32 0x12345678" False] sample_services(2) by auto
qed

section \<open>Characteristics\<close>

lemma ascending_length: "sorted_wrt (<) (x # xs) \<Longrightarrow> length (xs :: nat list) \<le> last (x # xs) - x"
proof (induction xs arbitrary: x)
  case (Cons y ys)
  have "y \<le> last (y # ys)" using Cons.prems by (cases ys rule: rev_cases) auto
  then show ?case using Cons.IH [of y] Cons.prems by auto
qed simp

text \<open>Where a handle fits, there is a slot of the array as well.\<close>

lemma fits_room:
  assumes "svc_ok s" "fits s handle k"
  shows "length (svc_attrs s) + k \<le> svc_num s"
proof -
  obtain a as where as: "svc_attrs s = a # as" using svc_okD(2) [OF assms(1)] by (cases "svc_attrs s") auto
  have "length as \<le> last_handle s - svc_lo s"
    using ascending_length [of "unat (ga_handle a)" "attr_handles as"] svc_okD(9) [OF assms(1)]
    by (simp add: as last_handle_def svc_lo_def attr_handles_def del: last.simps)
  moreover have "svc_lo s \<le> last_handle s"
    using handles_in_range(1) [OF assms(1), of "last_handle s"] by (simp add: last_handle_def as)
  moreover have "last_handle s + k \<le> svc_lo s + svc_num s - 1"
    using assms(2) by (auto simp: fits_def Let_def svc_hi_def split: if_splits)
  moreover have "0 < svc_num s" by (rule svc_okD(12) [OF assms(1)])
  ultimately show ?thesis by (simp add: as)
qed

lemma insert_characteristic_some:
  assumes "svc_ok s" "fits s 0 2" "uuid \<noteq> UNSPEC"
  shows "\<exists>i s'. service_insert_characteristic s 0 uuid p props rd wr d = Some (Some (i, s'))"
proof -
  have n0: "length (svc_attrs s) \<noteq> 0" using svc_okD(2) [OF assms(1)] by simp
  have "length (svc_attrs s) < svc_num s - 1" using fits_room [OF assms(1,2)] by linarith
  then have "get_attribute_index s 1 = length (svc_attrs s)"
    using attribute_index [OF assms(1), of 1] svc_okD(12) [OF assms(1)] by simp
  then show ?thesis
    using uuid_to_le_some [OF assms(3)] svc_decl [OF assms(1)] last_handle_at(1) [OF assms(1)] n0
    by (auto simp: service_insert_characteristic_def Let_def)
qed

lemma char_cmp: "bt_uuid_cmp characteristic_uuid characteristic_uuid = Some 0"
  by code_simp

text \<open>C17: \<open>gatt_db_service_add_characteristic\<close> on a service with room for two more handles is accepted; the
  new value attribute has the handle behind the new declaration, the UUID, the permissions and the functions
  that were given, and \<open>gatt_db_attribute_get_char_data\<close> reads from the declaration both handles, the
  properties and the UUID.\<close>

theorem gatt_characteristic_roundtrip:
  assumes "gdb_ok db" "db_service db addr = Some s" "fits s 0 2" "uuid_wf uuid" "uuid \<noteq> UNSPEC"
  shows "\<exists>i db' a. gatt_db_service_add_characteristic db (Some (addr, j)) uuid perm props rd wr ud =
      Some (Some (addr, Suc i), db') \<and> gdb_ok db' \<and>
    db_attr db' (addr, Suc i) = Some a \<and> unat (ga_handle a) = last_handle s + 2 \<and>
    ga_uuid a = uuid \<and> ga_permissions a = perm \<and> ga_read_func a = rd \<and> ga_write_func a = wr \<and>
    gatt_db_attribute_get_char_data pf pp t db' (Some (addr, i)) False True =
      Some ((True, Some \<lparr>cd_handle = ga_handle a - 1, cd_value_handle = ga_handle a, cd_properties = props,
                         cd_ext_prop = None, cd_uuid = Some (stored_uuid uuid)\<rparr>), db')"
proof -
  note ok = gdb_okD [OF assms(1,2)]
  obtain k s' where ins: "service_insert_characteristic s 0 uuid perm props rd wr ud = Some (Some (k, s'))"
    using insert_characteristic_some [OF ok assms(3,5)] by blast
  obtain v where v: "uuid_to_le uuid = Some v" and k: "k = Suc (length (svc_attrs s))" and s': "svc_ok s'" "same_place s s'"
    "svc_attrs s' = svc_attrs s @ [char_decl (given_handle s 0 2) props v,
       set_attribute_data rd wr perm ud (new_attribute (given_handle s 0 2) uuid [])]"
    by (rule insert_characteristic [OF ok assms(3) ins])
  let ?n = "length (svc_attrs s)" and ?h = "given_handle s 0 2" and ?db = "update_service addr (\<lambda>_. s') db"
  let ?a = "set_attribute_data rd wr perm ud (new_attribute ?h uuid [])"
  have add: "gatt_db_service_add_characteristic db (Some (addr, j)) uuid perm props rd wr ud = Some (Some (addr, Suc ?n), ?db)"
    by (simp add: gatt_db_service_add_characteristic_def insert_into_def assms(2) ins k)
  have good: "gdb_ok ?db"
    using gdb_ok_update [OF assms(1,2), of "\<lambda>_. s'"] s' by (auto dest: same_placeD)
  have addr: "sv_addr s' = addr" using s'(2) db_service_some [OF assms(2)] by (auto dest: same_placeD)
  have "s' \<in> set (db_services ?db)" using db_service_some [OF assms(2)] by (auto simp: update_service_def)
  then have sv: "db_service ?db addr = Some s'" using db_service_member [OF good] addr by blast
  have a: "db_attr ?db (addr, ?n) = Some (char_decl ?h props v)" "db_attr ?db (addr, Suc ?n) = Some ?a"
    by (simp_all add: db_attr_def sv svc_attr_eq [OF s'(1)] s'(3) nth_append)
  have len: "unat (of_nat (3 + length v) :: u16) = 3 + length v" "length v = 2 \<or> length v = 16"
    using uuid_to_le_length [OF v] by auto
  have d: "ga_value (char_decl ?h props v) = Some ([props] @ le16_bytes ?h @ v)"
    "ga_value_len (char_decl ?h props v) = of_nat (3 + length v)" "ga_uuid (char_decl ?h props v) = characteristic_uuid"
    "ga_handle (char_decl ?h props v) = ?h - 1"
    by (simp_all add: char_decl_def)
  have "(of_nat (3 + length v) :: u16) = 5 \<or> (of_nat (3 + length v) :: u16) = 19" using len(2) by auto
  moreover have "get_le16 ([props] @ le16_bytes ?h @ v) 1 = Some ?h" using get_le16_bytes [of "[props]" ?h v] by simp
  moreover have "le_to_uuid ([props] @ le16_bytes ?h @ v) 3 (unat (of_nat (3 + length v) :: u16) - 3) = Some (Some (stored_uuid uuid))"
    using le_to_uuid_stored [OF assms(4) v, of "[props] @ le16_bytes ?h"] unfolding len(1) by simp
  ultimately have "gatt_db_attribute_get_char_data pf pp t ?db (Some (addr, ?n)) False True =
      Some ((True, Some \<lparr>cd_handle = ?h - 1, cd_value_handle = ?h, cd_properties = props,
                         cd_ext_prop = None, cd_uuid = Some (stored_uuid uuid)\<rparr>), ?db)"
    unfolding gatt_db_attribute_get_char_data_def using a(1) char_cmp d by (auto simp: buf_get_def)
  moreover have "unat ?h = last_handle s + 2"
    using next_handle_at [OF ok assms(3)] by (simp add: given_handle_def)
  ultimately show ?thesis
    using add good a(2) by (intro exI [of _ ?n] exI [of _ ?db] exI [of _ ?a]) (simp add: set_attribute_data_def new_attribute_def)
qed

lemma last_handle_sample: "last_handle sample_service = 3"
  by (simp add: last_handle_def sample_attrs char_decl_def)

lemma sample_service_at: "db_service sample_db 0 = Some sample_service"
  by (simp add: db_service_def sample_services) (simp add: sample_service_def)

theorem gatt_characteristic_roundtrip_witness:
  "\<exists>i db' a. gatt_db_service_add_characteristic sample_db (Some (0, 0)) (UUID16 0x2A01) 1 0x0a 7 8 9 =
      Some (Some (0, Suc i), db') \<and> db_attr db' (0, Suc i) = Some a \<and> unat (ga_handle a) = 5 \<and>
    gatt_db_attribute_get_char_data 0 0 0 db' (Some (0, i)) False True =
      Some ((True, Some \<lparr>cd_handle = ga_handle a - 1, cd_value_handle = ga_handle a, cd_properties = 0x0a,
                         cd_ext_prop = None, cd_uuid = Some (UUID16 0x2A01)\<rparr>), db')"
proof -
  have "fits sample_service 0 2" by (simp add: fits_def last_handle_sample svc_hi_sample)
  from gatt_characteristic_roundtrip [OF sample_db_ok sample_service_at this, of "UUID16 0x2A01" 0 1 "0x0a" 7 8 9 0 0 0]
  obtain i db' a where *: "gatt_db_service_add_characteristic sample_db (Some (0, 0)) (UUID16 0x2A01) 1 0x0a 7 8 9 =
      Some (Some (0, Suc i), db')" "db_attr db' (0, Suc i) = Some a" "unat (ga_handle a) = last_handle sample_service + 2"
    "gatt_db_attribute_get_char_data 0 0 0 db' (Some (0, i)) False True =
      Some ((True, Some \<lparr>cd_handle = ga_handle a - 1, cd_value_handle = ga_handle a, cd_properties = 0x0a,
                         cd_ext_prop = None, cd_uuid = Some (stored_uuid (UUID16 0x2A01))\<rparr>), db')"
    by auto
  then show ?thesis by (intro exI [of _ i] exI [of _ db'] exI [of _ a]) (simp add: last_handle_sample)
qed

section \<open>Values\<close>

text \<open>The block and the length after a write of a stored value.\<close>

definition grows :: "gatt_attr \<Rightarrow> u16 \<Rightarrow> u8 list \<Rightarrow> bool" where
  "grows a off v \<longleftrightarrow> ga_value a = None \<or> ga_value_len a \<le> off \<or> unat (ga_value_len a) - unat off < length v"

definition write_room :: "(nat \<Rightarrow> u8) \<Rightarrow> gatt_attr \<Rightarrow> u16 \<Rightarrow> u8 list \<Rightarrow> u8 list" where
  "write_room heap a off v =
     (if grows a off v
      then let b = regrow heap (ga_value a) (length v + unat off)
           in if ga_value_len a = 0 then replicate (unat off) 0 @ drop (unat off) b else b
      else the (ga_value a))"

lemma write_room_length:
  assumes "attr_ok a"
  shows "unat off + length v \<le> length (write_room heap a off v)"
proof (cases "grows a off v")
  case False
  then obtain b where "ga_value a = Some b" "unat off < unat (ga_value_len a)" "length v \<le> unat (ga_value_len a) - unat off"
    by (auto simp: grows_def word_le_nat_alt not_less)
  then show ?thesis using assms False by (auto simp: write_room_def attr_ok_def)
qed (simp add: write_room_def Let_def)

lemma write_stored:
  assumes "db_attr db r = Some a" "attr_ok a" "ga_write_func a = 0" "f \<noteq> 0" "v \<noteq> []"
  shows "gatt_db_attribute_write heap db (Some r) off v opc att f u t =
    Some (True, db_event (Write_done f r 0 u) (update_attr r
      (a\<lparr>ga_value := Some (take (unat off) (write_room heap a off v) @ v @ drop (unat off + length v) (write_room heap a off v)),
         ga_value_len := (if grows a off v then of_nat (length v + unat off) else ga_value_len a)\<rparr>) db))"
proof -
  have b: "(if grows a off v
        then let b = regrow heap (ga_value a) (length v + unat off);
                 b = (if ga_value_len a = 0 then replicate (unat off) 0 @ drop (unat off) b else b)
             in (Some b, of_nat (length v + unat off))
        else (ga_value a, ga_value_len a)) =
      (Some (write_room heap a off v), if grows a off v then of_nat (length v + unat off) else ga_value_len a)"
    by (auto simp: write_room_def grows_def Let_def)
  have "buf_write (write_room heap a off v) (unat off) v =
      Some (take (unat off) (write_room heap a off v) @ v @ drop (unat off + length v) (write_room heap a off v))"
    using write_room_length [OF assms(2), of off v heap] by (simp add: buf_write_def)
  then show ?thesis
    unfolding gatt_db_attribute_write_def grows_def [symmetric] Let_def [of "length v + unat off"] option.case
    using assms(1,3-5) by (simp only: b if_False bind.bind_lunit prod.case simp_thms) simp
qed

lemma stored_read_eq:
  assumes "attr_ok a"
  shows "stored_read a k = Some (if ga_value_len a < k then (0x07, None) else if k = ga_value_len a then (0, None)
    else (0, Some (drop (unat k) (attr_value a))))"
proof (cases "k < ga_value_len a")
  case True
  then have l: "unat k < unat (ga_value_len a)" by (simp add: word_less_nat_alt)
  then obtain b where b: "ga_value a = Some b" "unat (ga_value_len a) \<le> length b"
    using assms by (cases "ga_value a") (auto simp: attr_ok_def)
  then have "buf_read b (unat k) (unat (ga_value_len a) - unat k) = Some (drop (unat k) (attr_value a))"
    using l by (simp add: buf_read_def attr_value_def drop_take)
  then show ?thesis using True b by (auto simp: stored_read_def)
qed (auto simp: stored_read_def)

lemma written_attr_ok:
  fixes a :: gatt_attr and off :: u16 and v :: "u8 list" and heap :: "nat \<Rightarrow> u8"
  assumes "attr_ok a"
  defines "w \<equiv> write_room heap a off v"
  shows "attr_ok (a\<lparr>ga_value := Some (take (unat off) w @ v @ drop (unat off + length v) w),
    ga_value_len := (if grows a off v then of_nat (length v + unat off) else ga_value_len a)\<rparr>)"
proof (cases "grows a off v")
  case True
  then show ?thesis
    using assms(1) write_room_length [OF assms(1), of off v heap] unat_sum_le(1) [of "length v" off]
    by (auto simp: attr_ok_value attr_ok_def w_def intro: order_trans)
next
  case False
  then obtain b where "ga_value a = Some b" by (auto simp: grows_def)
  then show ?thesis
    using False assms(1) write_room_length [OF assms(1), of off v heap]
    by (auto simp: attr_ok_value attr_ok_def w_def write_room_def)
qed

text \<open>The value after a write that leaves no gap, and after one that does.\<close>

lemma written_value:
  fixes a :: gatt_attr and off :: u16 and v :: "u8 list" and heap :: "nat \<Rightarrow> u8"
  assumes "attr_ok a" "unat off + length v < 2 ^ 16" "off \<le> ga_value_len a"
  defines "w \<equiv> write_room heap a off v"
  shows "attr_value (a\<lparr>ga_value := Some (take (unat off) w @ v @ drop (unat off + length v) w),
      ga_value_len := (if grows a off v then of_nat (length v + unat off) else ga_value_len a)\<rparr>) =
    take (unat off) (attr_value a) @ v @ drop (unat off + length v) (attr_value a)"
proof -
  have off: "unat off \<le> unat (ga_value_len a)" using assms(3) by (simp add: word_le_nat_alt)
  note len = attr_value_length [OF assms(1)]
  have n: "unat (of_nat (length v + unat off) :: u16) = length v + unat off"
    using assms(2) by (intro unat_of_nat_small) simp
  show ?thesis
  proof (cases "grows a off v")
    case True
    have beyond: "unat (ga_value_len a) \<le> unat off + length v"
      using True off assms(1) by (auto simp: grows_def attr_ok_def word_le_nat_alt)
    have "length w = length v + unat off" using True by (simp add: w_def write_room_def Let_def)
    moreover have "take (unat off) w = take (unat off) (attr_value a)"
    proof (cases "ga_value a")
      case None
      then show ?thesis using assms(1) off by (simp add: attr_ok_def)
    next
      case (Some b)
      then have "unat (ga_value_len a) \<le> length b" using assms(1) by (simp add: attr_ok_def)
      then show ?thesis using Some True off
        by (auto simp: w_def write_room_def regrow_def attr_value_def Let_def min_def)
    qed
    ultimately show ?thesis
      using True n beyond len by (simp add: attr_value_def [of "_\<lparr>ga_value_len := _\<rparr>"])
  next
    case False
    then obtain b where b: "ga_value a = Some b" "unat off + length v \<le> unat (ga_value_len a)"
      using off by (auto simp: grows_def word_le_nat_alt)
    then have "unat off \<le> unat (ga_value_len a)" "length v \<le> unat (ga_value_len a) - unat off" by linarith+
    moreover have "take (unat (ga_value_len a)) b = take (unat off) b \<and> v = []" if "unat (ga_value_len a) \<le> unat off"
    proof -
      have "unat (ga_value_len a) = unat off" using that calculation(1) by (rule le_antisym)
      then show ?thesis using calculation(2) by simp
    qed
    ultimately show ?thesis
      using False assms(1) b by (simp add: attr_value_def w_def write_room_def attr_ok_def drop_take min_def)
  qed
qed

lemma written_gap:
  fixes a :: gatt_attr and off :: u16 and v :: "u8 list" and heap :: "nat \<Rightarrow> u8"
  assumes "unat off + length v < 2 ^ 16" "ga_value_len a \<noteq> 0" "ga_value_len a < off" "ga_value a = Some b"
  defines "w \<equiv> write_room heap a off v"
  shows "attr_value (a\<lparr>ga_value := Some (take (unat off) w @ v @ drop (unat off + length v) w),
      ga_value_len := (if grows a off v then of_nat (length v + unat off) else ga_value_len a)\<rparr>) =
    take (unat off) (b @ map heap [length b..<unat off]) @ v"
proof -
  have n: "unat (of_nat (length v + unat off) :: u16) = length v + unat off"
    using assms(1) by (intro unat_of_nat_small) simp
  have g: "grows a off v" using assms(3) by (simp add: grows_def order.strict_implies_order)
  then have w: "length w = length v + unat off" "w = take (length v + unat off) b @ map heap [length b..<length v + unat off]"
    using assms(2,4) by (auto simp: w_def write_room_def regrow_def Let_def)
  have "take (unat off) w = take (unat off) (b @ map heap [length b..<unat off])"
    unfolding w(2) by (cases "length b \<le> unat off") (simp_all add: take_map min_def)
  then show ?thesis using g n w(1) by (simp add: attr_value_def)
qed

text \<open>C19: A write to a stored value at an offset inside it or at its end is accepted, and what a read then
  gives its callback is the old value with the written bytes in their place, from the offset that is asked
  for on; whatever memory \<open>realloc\<close> returns does not show.\<close>

theorem gatt_write_read:
  assumes "gdb_ok db" "db_attr db r = Some a" "snd r \<noteq> 0" "ga_write_func a = 0" "ga_read_func a = 0" "f \<noteq> 0" "g \<noteq> 0"
    "v \<noteq> []" "off \<le> ga_value_len a" "unat off + length v < 2 ^ 16"
  shows "\<exists>db'. gatt_db_attribute_write heap db (Some r) off v opc att f u t = Some (True, db') \<and> gdb_ok db' \<and>
    (\<forall>k. gatt_db_attribute_read db' (Some r) k opc att g u t = Some (True, db_event
       (let V = take (unat off) (attr_value a) @ v @ drop (unat off + length v) (attr_value a)
        in if length V < unat k then Read_done g r 0x07 None u
           else if unat k = length V then Read_done g r 0 None u
           else Read_done g r 0 (Some (drop (unat k) V)) u) db'))"
proof -
  note ok = db_attr_ok(1) [OF assms(1,2)]
  let ?w = "write_room heap a off v"
  let ?a = "a\<lparr>ga_value := Some (take (unat off) ?w @ v @ drop (unat off + length v) ?w),
    ga_value_len := (if grows a off v then of_nat (length v + unat off) else ga_value_len a)\<rparr>"
  let ?db = "db_event (Write_done f r 0 u) (update_attr r ?a db)"
  let ?V = "take (unat off) (attr_value a) @ v @ drop (unat off + length v) (attr_value a)"
  have wr: "gatt_db_attribute_write heap db (Some r) off v opc att f u t = Some (True, ?db)"
    by (rule write_stored [OF assms(2) ok assms(4,6,8)])
  have good: "gdb_ok ?db" by (rule gdb_ok_write [OF assms(1,3) wr])
  have at: "db_attr ?db r = Some ?a"
    using db_attr_updated [OF assms(1,2) written_attr_ok [OF ok]] assms(3) by (simp add: db_attr_def db_service_def db_event_def)
  have okw: "attr_ok ?a" by (rule written_attr_ok [OF ok])
  have V: "attr_value ?a = ?V" by (rule written_value [OF ok assms(10,9)])
  then have L: "unat (ga_value_len ?a) = length ?V" using attr_value_length [OF okw] by simp
  have "gatt_db_attribute_read ?db (Some r) k opc att g u t = Some (True, db_event
       (if length ?V < unat k then Read_done g r 0x07 None u
        else if unat k = length ?V then Read_done g r 0 None u
        else Read_done g r 0 (Some (drop (unat k) ?V)) u) ?db)" for k
  proof -
    have "stored_read ?a k = Some (if length ?V < unat k then (0x07, None) else if unat k = length ?V then (0, None)
      else (0, Some (drop (unat k) ?V)))"
      using L unfolding stored_read_eq [OF okw] V by (simp only: word_less_nat_alt word_unat_eq_iff simp_thms)
    moreover have "ga_read_func ?a = 0" using assms(5) by simp
    ultimately show ?thesis using assms(7) at by (simp add: gatt_db_attribute_read_def)
  qed
  then show ?thesis using wr good unfolding Let_def by blast
qed

text \<open>A write behind the end of a value that is not empty fills the gap with what the reallocated block
  happens to hold, and hands these bytes out as part of the value (an empty value is padded with zeros).\<close>

theorem gatt_write_gap_leaks:
  assumes "gdb_ok db" "db_attr db r = Some a" "snd r \<noteq> 0" "ga_write_func a = 0" "f \<noteq> 0" "v \<noteq> []"
    "ga_value a = Some b" "length b = unat (ga_value_len a)" "b \<noteq> []" "length b < unat off" "unat off + length v < 2 ^ 16"
  shows "\<exists>db' a'. gatt_db_attribute_write heap db (Some r) off v opc att f u t = Some (True, db') \<and>
    db_attr db' r = Some a' \<and> attr_value a' = b @ map heap [length b..<unat off] @ v"
proof -
  note ok = db_attr_ok(1) [OF assms(1,2)]
  let ?w = "write_room heap a off v"
  let ?a = "a\<lparr>ga_value := Some (take (unat off) ?w @ v @ drop (unat off + length v) ?w),
    ga_value_len := (if grows a off v then of_nat (length v + unat off) else ga_value_len a)\<rparr>"
  let ?db = "db_event (Write_done f r 0 u) (update_attr r ?a db)"
  have wr: "gatt_db_attribute_write heap db (Some r) off v opc att f u t = Some (True, ?db)"
    by (rule write_stored [OF assms(2) ok assms(4-6)])
  have at: "db_attr ?db r = Some ?a"
    using db_attr_updated [OF assms(1,2) written_attr_ok [OF ok]] assms(3) by (simp add: db_attr_def db_service_def db_event_def)
  have "ga_value_len a \<noteq> 0" "ga_value_len a < off" using assms(8-10) by (auto simp: word_less_nat_alt)
  then have "attr_value ?a = b @ map heap [length b..<unat off] @ v"
    using written_gap [OF assms(11) _ _ assms(7)] assms(10) by simp
  then show ?thesis using wr at by blast
qed

lemma sample_attr_at:
  "db_attr sample_db (0, 1) = Some (char_decl 3 0x02 [0x00, 0x2a])"
  "db_attr sample_db (0, 2) = Some (set_attribute_data 0 0 1 0 (new_attribute 3 (UUID16 0x2A00) []))"
  by (simp_all add: db_attr_def sample_service_at svc_attr_def sample_service_def buf_get_def numeral_2_eq_2)

theorem gatt_write_read_witness:
  "\<exists>db'. gatt_db_attribute_write (\<lambda>_. 0xee) sample_db (Some (0, 2)) 0 [1, 2] 0x12 0 5 6 0 = Some (True, db') \<and>
    gatt_db_attribute_read db' (Some (0, 2)) 1 0x12 0 7 6 0 = Some (True, db_event (Read_done 7 (0, 2) 0 (Some [2]) 6) db')"
proof -
  have "ga_write_func (set_attribute_data 0 0 1 0 (new_attribute 3 (UUID16 0x2A00) [])) = 0"
    "ga_read_func (set_attribute_data 0 0 1 0 (new_attribute 3 (UUID16 0x2A00) [])) = 0"
    by (simp_all add: set_attribute_data_def)
  from gatt_write_read [OF sample_db_ok sample_attr_at(2) _ this, of 5 7 "[1, 2]" 0 "\<lambda>_. 0xee" "0x12" 0 6 0]
  show ?thesis by (auto simp: attr_value_def Let_def dest!: spec [of _ "1 :: u16"])
qed

theorem gatt_write_gap_leaks_witness:
  "\<exists>db' a'. gatt_db_attribute_write of_nat sample_db (Some (0, 1)) 7 [9] 0x12 0 5 6 0 = Some (True, db') \<and>
    db_attr db' (0, 1) = Some a' \<and> attr_value a' = [0x02, 0x03, 0x00, 0x00, 0x2a, 5, 6, 9]"
proof -
  have w: "ga_write_func (char_decl 3 0x02 [0x00, 0x2a]) = 0" "[0x02, 0x03, 0x00, 0x00, 0x2a :: u8] \<noteq> []"
    "ga_value (char_decl 3 0x02 [0x00, 0x2a]) = Some [0x02, 0x03, 0x00, 0x00, 0x2a]"
    "length [0x02, 0x03, 0x00, 0x00, 0x2a :: u8] = unat (ga_value_len (char_decl 3 0x02 [0x00, 0x2a]))"
    by (simp_all add: char_decl_def set_attribute_data_def new_attribute_def le16_bytes_def)
  from gatt_write_gap_leaks [OF sample_db_ok sample_attr_at(1) _ w(1), of 5 "[9]" _ 7 of_nat "0x12" 0 6 0, OF _ _ _ w(3,4,2)]
  show ?thesis by (simp add: upt_rec)
qed

section \<open>Where the promise is broken\<close>

text \<open>Once \<open>gatt_db_clear\<close> has emptied a database, \<open>gatt_db_add_service\<close> refuses every service: the next
  handle is then 0, which the insertion takes for a missing handle.\<close>

theorem gatt_clear_ends_adding:
  assumes "gdb_ok db" "gatt_db_clear db = Some (True, db')"
  shows "gatt_db_isempty db' \<and> gatt_db_add_service db' uuid primary num = Some (None, db')"
proof -
  have e: "db_services db' = []"
    using clear_range_services(1) [OF assms(1) assms(2) [unfolded gatt_db_clear_def]] whole_range_overlaps [OF assms(1)]
    by (simp add: filter_empty_conv)
  have "\<exists>d. db' = (if gatt_db_isempty d then d\<lparr>db_next_handle := 0\<rparr> else d)"
    using assms(2) by (auto simp: gatt_db_clear_def gatt_db_clear_range_def bind_eq_Some_conv)
  then obtain d where d: "db' = (if gatt_db_isempty d then d\<lparr>db_next_handle := 0\<rparr> else d)" by blast
  then have "gatt_db_isempty d" using e by (auto simp: gatt_db_isempty_def split: if_splits)
  then have "db_next_handle db' = 0" by (simp add: d)
  then show ?thesis using e by (simp add: gatt_db_isempty_def gatt_db_add_service_def gatt_db_insert_service_def)
qed

theorem gatt_clear_ends_adding_witness:
  "\<exists>db'. gatt_db_clear sample_db = Some (True, db') \<and> gatt_db_add_service db' (UUID16 0x1801) True 4 = Some (None, db')"
proof -
  have "\<exists>db'. gatt_db_clear sample_db = Some (True, db')"
  proof -
    have "db_notify_list sample_db = []" by code_simp
    then show ?thesis
      by (simp add: gatt_db_clear_def gatt_db_clear_range_def sample_services gatt_db_service_destroy_def
          notify_service_changed_def)
  qed
  then show ?thesis using gatt_clear_ends_adding [OF sample_db_ok, of _ "UUID16 0x1801" True 4] by blast
qed

text \<open>C20: \<open>gatt_db_insert_service\<close> tests only the ends of the range it is given: around the one service of a
  database it accepts another, whose range contains that of the first, and the invariant is lost.\<close>

theorem gatt_insert_around:
  assumes "gdb_ok db" "db_services db = [s]" "1 \<le> handle" "1 \<le> num" "unat handle + unat num - 1 \<le> 0xffff" "uuid \<noteq> UNSPEC"
    "unat handle < svc_lo s" "svc_hi s < unat handle + unat num - 1"
  shows "\<exists>db' t. gatt_db_insert_service db handle uuid primary num = Some (Some (db_used db, 0), db') \<and>
    db_services db' = [s, t] \<and> svc_lo t < svc_lo s \<and> svc_hi s < svc_hi t \<and> \<not> gdb_ok db'"
proof -
  let ?fin = "handle + num - 1"
  have s: "svc_ok s" using services_list_all [OF assms(1)] assms(2) by simp
  have lo: "svc_lo s \<le> svc_hi s" by (rule svc_okD(8) [OF s])
  note fin = range_end [OF assms(4,5)]
  have h: "\<not> holds_end handle ?fin s" "\<not> unat ?fin < svc_lo s"
    using assms(7,8) lo unfolding holds_end_def fin by linarith+
  have loc: "find_insert_loc handle ?fin None (db_services db) = Some (None, Some s)"
    unfolding assms(2) find_insert_loc_step [OF s] using h by simp
  have f: "handle \<noteq> 0" "num \<noteq> 0" using assms(3,4) by (auto simp: word_pos)
  have u: "\<not> 65536 < uint handle + uint num"
  proof -
    have "int (unat handle) + int (unat num) \<le> 65536" using assms(5) by linarith
    then show ?thesis by simp
  qed
  obtain v where v: "uuid_to_le uuid = Some v" using uuid_to_le_some [OF assms(6)] by blast
  obtain t where t: "gatt_db_service_create (db_used db) uuid handle primary num = Some (Some t)"
    using v f by (simp add: gatt_db_service_create_def Let_def)
  note new = service_create_ok [OF t assms(3,5)]
  let ?t = "t\<lparr>sv_num_handles := num\<rparr>"
  define db' where "db' = db\<lparr>db_services := [s, ?t], db_used := db_used db + 1,
      db_next_handle := of_nat (max (unat handle + unat num) (unat (db_next_handle db)))\<rparr>"
  have "gatt_db_insert_service db handle uuid primary num = Some (Some (db_used db, 0), db')"
    using f u loc t new(4) assms(2) by (simp add: gatt_db_insert_service_def db'_def)
  moreover have r: "svc_lo ?t < svc_lo s" "svc_hi s < svc_hi ?t" using new(2,3) assms(7,8) by simp_all
  moreover have "\<not> gdb_ok db'" using r lo by (auto simp: gdb_ok_def db'_def)
  ultimately show ?thesis by (intro exI [of _ db'] exI [of _ ?t]) (simp add: db'_def)
qed

definition inner_db :: gatt_db where
  "inner_db = snd (the (gatt_db_insert_service gatt_db_new 10 (UUID16 0x1800) True 2))"

theorem gatt_insert_around_witness:
  "\<exists>db' t s. gatt_db_insert_service inner_db 5 (UUID16 0x1801) True 20 = Some (Some (1, 0), db') \<and>
    db_services db' = [s, t] \<and> svc_lo t < svc_lo s \<and> svc_hi s < svc_hi t"
proof -
  have free: "free_range gatt_db_new 10 11" by (simp add: free_range_def gatt_db_new_def gatt_db_ref_def)
  have "\<exists>pre post s db'. gatt_db_insert_service gatt_db_new 10 (UUID16 0x1800) True 2 =
      Some (Some (db_used gatt_db_new, 0), db') \<and>
    gatt_db_service_create (db_used gatt_db_new) (UUID16 0x1800) 10 True 2 = Some (Some s) \<and>
    db_services gatt_db_new = pre @ post \<and> db_services db' = pre @ s\<lparr>sv_num_handles := 2\<rparr> # post \<and> gdb_ok db'"
    by (rule insert_service_free [of gatt_db_new 10 2 "UUID16 0x1800" True]) (use new_keeps free in \<open>blast | simp\<close>)+
  then obtain pre post s db' where ins: "gatt_db_insert_service gatt_db_new 10 (UUID16 0x1800) True 2 =
      Some (Some (db_used gatt_db_new, 0), db')"
    and cr: "gatt_db_service_create (db_used gatt_db_new) (UUID16 0x1800) 10 True 2 = Some (Some s)"
    and p: "db_services gatt_db_new = pre @ post" "db_services db' = pre @ s\<lparr>sv_num_handles := 2\<rparr> # post"
    and ok: "gdb_ok db'"
    by blast
  have "inner_db = db'" by (simp add: inner_db_def ins)
  moreover have "db_used inner_db = 1" by code_simp
  moreover have "pre = [] \<and> post = []" using p(1) by (simp add: gatt_db_new_def gatt_db_ref_def)
  ultimately show ?thesis
    using gatt_insert_around [OF ok, of "s\<lparr>sv_num_handles := 2\<rparr>" 5 20 "UUID16 0x1801" True]
      service_create_ok(2,3) [OF cr] p(2) by auto
qed

end
