(* ===== verification/Uuid_Helper.thy ===== *)
theory Uuid_Helper
  imports Bt_Uuid
begin

text \<open>
  The UUIDs of service records (\<open>uuid_t\<close> of \<open>lib/sdp.c\<close>), their text and the names of services,
  \<open>src/uuid-helper.c\<close>. The \<open>type\<close> of a \<open>uuid_t\<close> is one of the three the library makes; memory for
  texts is always there.
\<close>

section \<open>UUIDs of service records\<close>

datatype uuid_t = SDP_UUID16 u16 | SDP_UUID32 u32 | SDP_UUID128 "u8 list"

definition sdp_uuid16_create :: "u16 \<Rightarrow> uuid_t" where
  "sdp_uuid16_create val = SDP_UUID16 val"

definition sdp_uuid32_create :: "u32 \<Rightarrow> uuid_t" where
  "sdp_uuid32_create val = SDP_UUID32 val"

definition sdp_uuid128_create :: "u8 list \<Rightarrow> uuid_t" where
  "sdp_uuid128_create val = SDP_UUID128 val"

text \<open>The value is added to the bytes of the base UUID, which are zero.\<close>

definition sdp_uuid16_to_uuid128 :: "u16 \<Rightarrow> u8 list" where
  "sdp_uuid16_to_uuid128 uuid16 =
     (let base = u128_data bluetooth_base_uuid; data1 = be16_val (base ! 2) (base ! 3) + uuid16
      in take 2 base @ be16_bytes data1 @ drop 4 base)"

definition sdp_uuid32_to_uuid128 :: "u32 \<Rightarrow> u8 list" where
  "sdp_uuid32_to_uuid128 uuid32 =
     (let base = u128_data bluetooth_base_uuid; data0 = be32_val (base ! 0) (base ! 1) (base ! 2) (base ! 3) + uuid32
      in be32_bytes data0 @ drop 4 base)"

fun bt_uuid2string :: "uuid_t option \<Rightarrow> string option" where
  "bt_uuid2string None = None"
| "bt_uuid2string (Some (SDP_UUID16 v)) = Some (uuid128_text (sdp_uuid16_to_uuid128 v))"
| "bt_uuid2string (Some (SDP_UUID32 v)) = Some (uuid128_text (sdp_uuid32_to_uuid128 v))"
| "bt_uuid2string (Some (SDP_UUID128 d)) = Some (uuid128_text d)"

section \<open>Text\<close>

definition c_toupper :: "char \<Rightarrow> char" where
  "c_toupper c = (let n = of_char c :: nat in if 97 \<le> n \<and> n \<le> 122 then char_of (n - 32) else c)"

definition c_tolower :: "char \<Rightarrow> char" where
  "c_tolower c = (let n = of_char c :: nat in if 65 \<le> n \<and> n \<le> 90 then char_of (n + 32) else c)"

definition same_text :: "string \<Rightarrow> string \<Rightarrow> bool" where
  "same_text a b \<longleftrightarrow> map c_tolower a = map c_tolower b"

text \<open>The conversion \<open>%04X\<close> of 16 bits.\<close>

definition hex_upper :: "u16 \<Rightarrow> string" where
  "hex_upper v = map c_toupper (hex_fixed 4 (unat v))"

definition bt_modalias :: "u16 \<Rightarrow> u16 \<Rightarrow> u16 \<Rightarrow> u16 \<Rightarrow> string option" where
  "bt_modalias source vendor product version =
     (let text = (\<lambda>bus. bus @ '':v'' @ hex_upper vendor @ ''p'' @ hex_upper product @ ''d'' @ hex_upper version)
      in if source = 1 then Some (text ''bluetooth'') else if source = 2 then Some (text ''usb'') else None)"

definition bt_services :: "(string \<times> u16) list" where
  "bt_services =
     [(''pbap'', 0x1130), (''sap'', 0x112d), (''ftp'', 0x1106), (''bpp'', 0x1122), (''bip'', 0x111a),
      (''synch'', 0x1104), (''dun'', 0x1103), (''opp'', 0x1105), (''fax'', 0x1111), (''spp'', 0x1101),
      (''hsp'', 0x1108), (''hsp-hs'', 0x1108), (''hsp-ag'', 0x1112), (''hfp'', 0x111e), (''hfp-hf'', 0x111e),
      (''hfp-ag'', 0x111f), (''pbap-pce'', 0x112e), (''pbap-pse'', 0x112f), (''map-mse'', 0x1132),
      (''map-mas'', 0x1132), (''map-mce'', 0x1133), (''map-mns'', 0x1133), (''gnss'', 0x1136)]"

definition name2class :: "string \<Rightarrow> u16" where
  "name2class pattern =
     (case find (\<lambda>s. same_text (fst s) pattern) bt_services of None \<Rightarrow> 0 | Some s \<Rightarrow> snd s)"

text \<open>The test for the 128 bit form is \<^const>\<open>is_uuid128\<close>, as in \<open>lib/uuid.c\<close>.\<close>

definition string2uuid16 :: "string \<Rightarrow> uuid_t option" where
  "string2uuid16 s =
     (if length s \<noteq> 4 \<and> length s \<noteq> 6 then None
      else let (v, endptr) = strtol16 s
           in if endptr = [] then Some (sdp_uuid16_create (word_of_int v)) else None)"

definition bt_name2string :: "string \<Rightarrow> string option" where
  "bt_name2string pattern =
     (if is_uuid128 pattern then Some pattern
      else let uuid16 = name2class pattern
           in if uuid16 \<noteq> 0 then bt_uuid2string (Some (sdp_uuid16_create uuid16))
              else let uuid16 = word_of_int (fst (strtol16 pattern))
                   in if list_ex (\<lambda>s. snd s = uuid16) bt_services
                      then bt_uuid2string (Some (sdp_uuid16_create uuid16)) else None)"

text \<open>The conversions give the UUID, or \<^const>\<open>None\<close> for \<open>-EINVAL\<close>; the 128 bit form is that of \<^const>\<open>bt_string_to_uuid128\<close>.\<close>

definition bt_string2uuid :: "string \<Rightarrow> uuid_t option" where
  "bt_string2uuid s =
     (case (if is_uuid128 s then bt_string_to_uuid128 s else None) of
        Some (UUID128 t) \<Rightarrow> Some (sdp_uuid128_create (u128_data t))
      | _ \<Rightarrow> (let class = name2class s
              in if class \<noteq> 0 then Some (sdp_uuid16_create class) else string2uuid16 s))"

section \<open>Lemmas\<close>

fun uuid_data :: "uuid_t \<Rightarrow> u8 list" where
  "uuid_data (SDP_UUID16 v) = sdp_uuid16_to_uuid128 v"
| "uuid_data (SDP_UUID32 v) = sdp_uuid32_to_uuid128 v"
| "uuid_data (SDP_UUID128 d) = d"

lemma uuid2string_data: "bt_uuid2string (Some u) = Some (uuid128_text (uuid_data u))"
  by (cases u) simp_all

lemma uuid_data_expand:
  "sdp_uuid16_to_uuid128 v = u128_data (u128_put bluetooth_base_uuid 2 (be16_bytes v))"
  "sdp_uuid32_to_uuid128 w = u128_data (u128_put bluetooth_base_uuid 0 (be32_bytes w))"
  by (simp_all add: sdp_uuid16_to_uuid128_def sdp_uuid32_to_uuid128_def bluetooth_base_uuid_def u128_put_def
      be16_val_def be32_val_def)


text \<open>A name of a service is matched whatever the case of its letters.\<close>

lemma name2class_case: "same_text a b \<Longrightarrow> name2class a = name2class b"
  by (simp add: name2class_def same_text_def)

text \<open>The text of a UUID of a service record reads back as the UUID in its form of 128 bits.\<close>

theorem sdp_uuid_text_roundtrip:
  assumes "\<forall>d. u = SDP_UUID128 d \<longrightarrow> length d = 16" and "bt_uuid2string (Some u) = Some t"
  shows "bt_string2uuid t = Some (SDP_UUID128 (uuid_data u))"
proof -
  have "length (uuid_data u) = 16"
    using assms(1) by (cases u) (simp_all add: sdp_uuid16_to_uuid128_def sdp_uuid32_to_uuid128_def bluetooth_base_uuid_def Let_def)
  moreover have "t = uuid128_text (uuid_data u)" using assms(2) by (simp add: uuid2string_data)
  ultimately show ?thesis
    by (simp add: bt_string2uuid_def uuid128_text_is_uuid128 string_to_uuid128_text sdp_uuid128_create_def)
qed

end
