(* ===== verification/Eir.thy ===== *)
theory Eir
  imports Uuid_Helper
begin

text \<open>
  Extended inquiry response and advertising data, \<open>src/eir.c\<close>: the parser of the fields that a
  remote device sends and the writer of the out-of-band block. A pointer into received data is the
  list of the bytes from there on; a read outside it, and a write outside the block or outside
  \<open>utf8_name\<close>, is the value \<^const>\<open>None\<close>. Lists of glib are lists, its allocations and copies
  (\<open>g_malloc\<close>, \<open>g_memdup\<close>, \<open>g_strndup\<close>) those of the C library. \<open>g_utf8_validate\<close> and
  \<open>g_strstrip\<close>, whose code is not here, are the arguments \<open>utf8_validate\<close> and \<open>strstrip\<close>.
\<close>

section \<open>Constants and data\<close>

abbreviation EIR_FLAGS :: u8 where "EIR_FLAGS \<equiv> 0x01"
abbreviation EIR_UUID16_SOME :: u8 where "EIR_UUID16_SOME \<equiv> 0x02"
abbreviation EIR_UUID16_ALL :: u8 where "EIR_UUID16_ALL \<equiv> 0x03"
abbreviation EIR_UUID32_SOME :: u8 where "EIR_UUID32_SOME \<equiv> 0x04"
abbreviation EIR_UUID32_ALL :: u8 where "EIR_UUID32_ALL \<equiv> 0x05"
abbreviation EIR_UUID128_SOME :: u8 where "EIR_UUID128_SOME \<equiv> 0x06"
abbreviation EIR_UUID128_ALL :: u8 where "EIR_UUID128_ALL \<equiv> 0x07"
abbreviation EIR_NAME_SHORT :: u8 where "EIR_NAME_SHORT \<equiv> 0x08"
abbreviation EIR_NAME_COMPLETE :: u8 where "EIR_NAME_COMPLETE \<equiv> 0x09"
abbreviation EIR_TX_POWER :: u8 where "EIR_TX_POWER \<equiv> 0x0A"
abbreviation EIR_CLASS_OF_DEV :: u8 where "EIR_CLASS_OF_DEV \<equiv> 0x0D"
abbreviation EIR_SSP_HASH :: u8 where "EIR_SSP_HASH \<equiv> 0x0E"
abbreviation EIR_SSP_RANDOMIZER :: u8 where "EIR_SSP_RANDOMIZER \<equiv> 0x0F"
abbreviation EIR_DEVICE_ID :: u8 where "EIR_DEVICE_ID \<equiv> 0x10"
abbreviation EIR_SVC_DATA16 :: u8 where "EIR_SVC_DATA16 \<equiv> 0x16"
abbreviation EIR_GAP_APPEARANCE :: u8 where "EIR_GAP_APPEARANCE \<equiv> 0x19"
abbreviation EIR_SVC_DATA32 :: u8 where "EIR_SVC_DATA32 \<equiv> 0x20"
abbreviation EIR_SVC_DATA128 :: u8 where "EIR_SVC_DATA128 \<equiv> 0x21"
abbreviation EIR_MANUFACTURER_DATA :: u8 where "EIR_MANUFACTURER_DATA \<equiv> 0xFF"

definition HCI_MAX_NAME_LENGTH :: nat where
  "HCI_MAX_NAME_LENGTH = 248"

definition HCI_MAX_EIR_LENGTH :: nat where
  "HCI_MAX_EIR_LENGTH = 240"

definition EIR_SD_MAX_LEN :: u8 where
  "EIR_SD_MAX_LEN = 238"

definition EIR_MSD_MAX_LEN :: u8 where
  "EIR_MSD_MAX_LEN = 236"

text \<open>The fields \<open>data_len\<close> and \<open>len\<close> of the entries are the lengths of their data.\<close>

record eir_msd =
  msd_company :: u16
  msd_data :: "u8 list"

record eir_sd =
  sd_uuid :: string
  sd_data :: "u8 list"

record eir_ad =
  ad_type :: u8
  ad_data :: "u8 list"

text \<open>\<open>ed_tx_power\<close> is a signed byte.\<close>

record eir_data =
  ed_services :: "string list"
  ed_flags :: u32
  ed_name :: "u8 list option"
  ed_class :: u32
  ed_appearance :: u16
  ed_name_complete :: bool
  ed_tx_power :: u8
  ed_hash :: "u8 list option"
  ed_randomizer :: "u8 list option"
  ed_addr :: "u8 list"
  ed_did_vendor :: u16
  ed_did_product :: u16
  ed_did_version :: u16
  ed_did_source :: u16
  ed_msd_list :: "eir_msd list"
  ed_sd_list :: "eir_sd list"
  ed_data_list :: "eir_ad list"

definition eir_data_free :: "eir_data \<Rightarrow> eir_data" where
  "eir_data_free eir = eir\<lparr>ed_services := [], ed_name := None, ed_hash := None, ed_randomizer := None,
     ed_msd_list := [], ed_sd_list := [], ed_data_list := []\<rparr>"

section \<open>Reading\<close>

definition le32_val :: "u8 list \<Rightarrow> u32" where
  "le32_val b = be32_val (b ! 3) (b ! 2) (b ! 1) (b ! 0)"

definition le16_at :: "u8 list \<Rightarrow> nat \<Rightarrow> u16 option" where
  "le16_at p i = do { a \<leftarrow> buf_get p i; b \<leftarrow> buf_get p (i + 1); Some (le16_val a b) }"

definition le32_at :: "u8 list \<Rightarrow> nat \<Rightarrow> u32 option" where
  "le32_at p i = do { b \<leftarrow> buf_read p i 4; Some (le32_val b) }"

definition c_string :: "u8 list \<Rightarrow> u8 list" where
  "c_string b = takeWhile (\<lambda>c. c \<noteq> 0) b"

text \<open>The value of 16 bytes in reverse order.\<close>

definition rev16_at :: "u8 list \<Rightarrow> nat \<Rightarrow> u8 list option" where
  "rev16_at p i = do { b \<leftarrow> buf_read p i 16; Some (map (\<lambda>k. b ! (16 - k - 1)) [0..<16]) }"

definition add_service :: "uuid_t \<Rightarrow> eir_data \<Rightarrow> eir_data" where
  "add_service service eir =
     (case bt_uuid2string (Some service) of
        None \<Rightarrow> eir
      | Some uuid_str \<Rightarrow> eir\<lparr>ed_services := ed_services eir @ [uuid_str]\<rparr>)"

text \<open>The loops over the UUIDs of a field: the number of rounds left and the pointer.\<close>

fun uuid16_loop :: "nat \<Rightarrow> u8 list \<Rightarrow> eir_data \<Rightarrow> eir_data option" where
  "uuid16_loop 0 p eir = Some eir"
| "uuid16_loop (Suc n) p eir = do {
     v \<leftarrow> le16_at p 0;
     uuid16_loop n (drop 2 p) (add_service (SDP_UUID16 v) eir) }"

definition eir_parse_uuid16 :: "eir_data \<Rightarrow> u8 list \<Rightarrow> u8 \<Rightarrow> eir_data option" where
  "eir_parse_uuid16 eir data len = uuid16_loop (unat len div 2) data eir"

fun uuid32_loop :: "nat \<Rightarrow> u8 list \<Rightarrow> eir_data \<Rightarrow> eir_data option" where
  "uuid32_loop 0 p eir = Some eir"
| "uuid32_loop (Suc n) p eir = do {
     v \<leftarrow> le32_at p 0;
     uuid32_loop n (drop 4 p) (add_service (SDP_UUID32 v) eir) }"

definition eir_parse_uuid32 :: "eir_data \<Rightarrow> u8 list \<Rightarrow> u8 \<Rightarrow> eir_data option" where
  "eir_parse_uuid32 eir data len = uuid32_loop (unat len div 4) data eir"

text \<open>\<open>bt_uuid2string\<close> answers a text for the UUIDs made here, so the pointer always moves on.\<close>

fun uuid128_loop :: "nat \<Rightarrow> u8 list \<Rightarrow> eir_data \<Rightarrow> eir_data option" where
  "uuid128_loop 0 p eir = Some eir"
| "uuid128_loop (Suc n) p eir = do {
     v \<leftarrow> rev16_at p 0;
     uuid128_loop n (drop 16 p) (add_service (SDP_UUID128 v) eir) }"

definition eir_parse_uuid128 :: "eir_data \<Rightarrow> u8 list \<Rightarrow> u8 \<Rightarrow> eir_data option" where
  "eir_parse_uuid128 eir data len = uuid128_loop (unat len div 16) data eir"

text \<open>
  \<open>strncpy\<close> fills the rest with zeros; the loop that replaces characters looks for the end of the text,
  which has to lie in the array.
\<close>

definition name2utf8 :: "(u8 list \<Rightarrow> bool) \<Rightarrow> (u8 list \<Rightarrow> u8 list) \<Rightarrow> u8 list \<Rightarrow> u8 \<Rightarrow> u8 list option" where
  "name2utf8 utf8_validate strstrip name len = do {
     text \<leftarrow> buf_read name 0 (unat len);
     if utf8_validate text then Some (c_string text)
     else do {
       utf8_name \<leftarrow> buf_write (replicate (HCI_MAX_NAME_LENGTH + 2) 0) 0
         (c_string text @ replicate (unat len - length (c_string text)) 0);
       if 0 \<in> set utf8_name then
         Some (strstrip (map (\<lambda>c. if 0x80 \<le> c then 0x20 else c) (c_string utf8_name)))
       else None } }"

definition eir_parse_msd :: "eir_data \<Rightarrow> u8 list \<Rightarrow> u8 \<Rightarrow> eir_data option" where
  "eir_parse_msd eir data len =
     (if len < 2 \<or> len > 2 + EIR_MSD_MAX_LEN then Some eir
      else do {
        company \<leftarrow> le16_at data 0;
        d \<leftarrow> buf_read data 2 (unat (len - 2));
        Some (eir\<lparr>ed_msd_list := ed_msd_list eir @ [\<lparr>msd_company = company, msd_data = d\<rparr>]\<rparr>) })"

text \<open>The array of \<^typ>\<open>eir_sd\<close> has \<^const>\<open>EIR_SD_MAX_LEN\<close> bytes.\<close>

definition eir_parse_sd :: "eir_data \<Rightarrow> uuid_t \<Rightarrow> u8 list \<Rightarrow> u8 \<Rightarrow> eir_data option" where
  "eir_parse_sd eir service data len =
     (case bt_uuid2string (Some service) of
        None \<Rightarrow> Some eir
      | Some uuid \<Rightarrow>
          if len \<le> EIR_SD_MAX_LEN then do {
            d \<leftarrow> buf_read data 0 (unat len);
            Some (eir\<lparr>ed_sd_list := ed_sd_list eir @ [\<lparr>sd_uuid = uuid, sd_data = d\<rparr>]\<rparr>) }
          else None)"

definition eir_parse_uuid16_data :: "eir_data \<Rightarrow> u8 list \<Rightarrow> u8 \<Rightarrow> eir_data option" where
  "eir_parse_uuid16_data eir data len =
     (if len < 2 \<or> len > EIR_SD_MAX_LEN then Some eir
      else do {
        v \<leftarrow> le16_at data 0;
        eir_parse_sd eir (SDP_UUID16 v) (drop 2 data) (len - 2) })"

definition eir_parse_uuid32_data :: "eir_data \<Rightarrow> u8 list \<Rightarrow> u8 \<Rightarrow> eir_data option" where
  "eir_parse_uuid32_data eir data len =
     (if len < 4 \<or> len > EIR_SD_MAX_LEN then Some eir
      else do {
        v \<leftarrow> le32_at data 0;
        eir_parse_sd eir (SDP_UUID32 v) (drop 4 data) (len - 4) })"

definition eir_parse_uuid128_data :: "eir_data \<Rightarrow> u8 list \<Rightarrow> u8 \<Rightarrow> eir_data option" where
  "eir_parse_uuid128_data eir data len =
     (if len < 16 \<or> len > EIR_SD_MAX_LEN then Some eir
      else do {
        v \<leftarrow> rev16_at data 0;
        eir_parse_sd eir (SDP_UUID128 v) (drop 16 data) (len - 16) })"

definition eir_parse_data :: "eir_data \<Rightarrow> u8 \<Rightarrow> u8 list \<Rightarrow> u8 \<Rightarrow> eir_data option" where
  "eir_parse_data eir type data len = do {
     d \<leftarrow> buf_read data 0 (unat len);
     Some (eir\<lparr>ed_data_list := ed_data_list eir @ [\<lparr>ad_type = type, ad_data = d\<rparr>]\<rparr>) }"

text \<open>Zeros at the end of a name are not counted.\<close>

fun name_len :: "u8 list \<Rightarrow> nat \<Rightarrow> nat option" where
  "name_len data 0 = Some 0"
| "name_len data (Suc n) = do { c \<leftarrow> buf_get data n; if c = 0 then name_len data n else Some (Suc n) }"

definition class_val :: "u8 \<Rightarrow> u8 \<Rightarrow> u8 \<Rightarrow> u32" where
  "class_val a b c = ucast a OR push_bit 8 (ucast b) OR push_bit 16 (ucast c)"

definition eir_name :: "(u8 list \<Rightarrow> bool) \<Rightarrow> (u8 list \<Rightarrow> u8 list) \<Rightarrow> u8 \<Rightarrow> u8 list \<Rightarrow> u8 \<Rightarrow> eir_data \<Rightarrow> eir_data option" where
  "eir_name utf8_validate strstrip type data data_len eir = do {
     n \<leftarrow> name_len data (unat data_len);
     name \<leftarrow> name2utf8 utf8_validate strstrip data (of_nat n);
     Some (eir\<lparr>ed_name := Some name, ed_name_complete := (type = EIR_NAME_COMPLETE)\<rparr>) }"

definition eir_device_id :: "u8 list \<Rightarrow> eir_data \<Rightarrow> eir_data option" where
  "eir_device_id data eir = do {
     source \<leftarrow> le16_at data 0;
     vendor \<leftarrow> le16_at data 2;
     product \<leftarrow> le16_at data 4;
     version \<leftarrow> le16_at data 6;
     Some (eir\<lparr>ed_did_source := source, ed_did_vendor := vendor, ed_did_product := product, ed_did_version := version\<rparr>) }"

text \<open>The switch over the type of a field.\<close>

definition eir_field :: "(u8 list \<Rightarrow> bool) \<Rightarrow> (u8 list \<Rightarrow> u8 list) \<Rightarrow> u8 \<Rightarrow> u8 list \<Rightarrow> u8 \<Rightarrow> eir_data \<Rightarrow> eir_data option" where
  "eir_field utf8_validate strstrip type data data_len eir =
     (if type = EIR_UUID16_SOME \<or> type = EIR_UUID16_ALL then eir_parse_uuid16 eir data data_len
      else if type = EIR_UUID32_SOME \<or> type = EIR_UUID32_ALL then eir_parse_uuid32 eir data data_len
      else if type = EIR_UUID128_SOME \<or> type = EIR_UUID128_ALL then eir_parse_uuid128 eir data data_len
      else if type = EIR_FLAGS then
        if data_len > 0 then do { f \<leftarrow> buf_get data 0; Some (eir\<lparr>ed_flags := ucast f\<rparr>) } else Some eir
      else if type = EIR_NAME_SHORT \<or> type = EIR_NAME_COMPLETE then
        eir_name utf8_validate strstrip type data data_len eir
      else if type = EIR_TX_POWER then
        if data_len < 1 then Some eir else do { t \<leftarrow> buf_get data 0; Some (eir\<lparr>ed_tx_power := t\<rparr>) }
      else if type = EIR_CLASS_OF_DEV then
        if data_len < 3 then Some eir
        else do { a \<leftarrow> buf_get data 0; b \<leftarrow> buf_get data 1; c \<leftarrow> buf_get data 2;
                  Some (eir\<lparr>ed_class := class_val a b c\<rparr>) }
      else if type = EIR_GAP_APPEARANCE then
        if data_len < 2 then Some eir else do { v \<leftarrow> le16_at data 0; Some (eir\<lparr>ed_appearance := v\<rparr>) }
      else if type = EIR_SSP_HASH then
        if data_len < 16 then Some eir else do { h \<leftarrow> buf_read data 0 16; Some (eir\<lparr>ed_hash := Some h\<rparr>) }
      else if type = EIR_SSP_RANDOMIZER then
        if data_len < 16 then Some eir else do { r \<leftarrow> buf_read data 0 16; Some (eir\<lparr>ed_randomizer := Some r\<rparr>) }
      else if type = EIR_DEVICE_ID then if data_len < 8 then Some eir else eir_device_id data eir
      else if type = EIR_SVC_DATA16 then eir_parse_uuid16_data eir data data_len
      else if type = EIR_SVC_DATA32 then eir_parse_uuid32_data eir data data_len
      else if type = EIR_SVC_DATA128 then eir_parse_uuid128_data eir data data_len
      else if type = EIR_MANUFACTURER_DATA then eir_parse_msd eir data data_len
      else eir_parse_data eir type data data_len)"

text \<open>The loop over the fields; \<open>eir_len - 1\<close> is computed as an \<open>int\<close>.\<close>

function eir_loop :: "(u8 list \<Rightarrow> bool) \<Rightarrow> (u8 list \<Rightarrow> u8 list) \<Rightarrow> u8 \<Rightarrow> u16 \<Rightarrow> u8 list \<Rightarrow> eir_data \<Rightarrow> eir_data option" where
  "eir_loop utf8_validate strstrip eir_len len p eir =
     (if int (unat len) < int (unat eir_len) - 1 then
        case buf_get p 0 of
          None \<Rightarrow> None
        | Some field_len \<Rightarrow>
            if field_len = 0 then Some eir
            else let len = len + (ucast field_len + 1)
                 in if unat len > unat eir_len then Some eir
                    else case buf_get p 1 of
                        None \<Rightarrow> None
                      | Some type \<Rightarrow>
                          case eir_field utf8_validate strstrip type (drop 2 p) (field_len - 1) eir of
                            None \<Rightarrow> None
                          | Some eir \<Rightarrow> eir_loop utf8_validate strstrip eir_len len (drop (unat field_len + 1) p) eir
      else Some eir)"
  by pat_completeness auto

termination
  by (relation "measure (\<lambda>(_, _, _, _, p, _). length p)") (auto simp: buf_get_def split: if_splits)

declare eir_loop.simps [simp del]

definition eir_parse :: "(u8 list \<Rightarrow> bool) \<Rightarrow> (u8 list \<Rightarrow> u8 list) \<Rightarrow> eir_data \<Rightarrow> u8 list option \<Rightarrow> u8 \<Rightarrow> eir_data option" where
  "eir_parse utf8_validate strstrip eir data eir_len =
     (let eir = eir\<lparr>ed_flags := 0, ed_tx_power := 127\<rparr>
      in case data of None \<Rightarrow> Some eir | Some p \<Rightarrow> eir_loop utf8_validate strstrip eir_len 0 p eir)"

definition EIR_OOB_MIN :: u16 where
  "EIR_OOB_MIN = 2 + 6"

text \<open>The length of the optional data is passed on as a byte.\<close>

definition eir_parse_oob :: "(u8 list \<Rightarrow> bool) \<Rightarrow> (u8 list \<Rightarrow> u8 list) \<Rightarrow> eir_data \<Rightarrow> u8 list \<Rightarrow> u16 \<Rightarrow> (int \<times> eir_data) option" where
  "eir_parse_oob utf8_validate strstrip eir data eir_len =
     (if eir_len < EIR_OOB_MIN then Some (- 1, eir)
      else do {
        n \<leftarrow> le16_at data 0;
        if eir_len \<noteq> n then Some (- 1, eir)
        else do {
          let eir_len = eir_len - 2;
          addr \<leftarrow> buf_read data 2 6;
          let eir = eir\<lparr>ed_addr := addr\<rparr>;
          let eir_len = eir_len - 6;
          if eir_len > 0 then do {
            eir \<leftarrow> eir_parse utf8_validate strstrip eir (Some (drop 8 data)) (ucast eir_len);
            Some (0, eir) }
          else Some (0, eir) } })"

section \<open>Writing\<close>

text \<open>
  The block is written at the index \<open>ptr\<close>; \<open>eir_len\<close> counts the bytes after the address. The list of
  records is given by the class UUIDs of the records.
\<close>

fun stored128 :: "u8 list \<Rightarrow> nat \<Rightarrow> nat \<Rightarrow> u8 list \<Rightarrow> bool option" where
  "stored128 b p 0 uuid = Some False"
| "stored128 b p (Suc n) uuid = do {
     s \<leftarrow> buf_read b p 16;
     if s = uuid then Some True else stored128 b (p + 16) n uuid }"

fun gen_uuid128_loop :: "uuid_t list \<Rightarrow> nat \<Rightarrow> u8 list \<Rightarrow> u16 \<Rightarrow> nat \<Rightarrow> (u8 list \<times> u16 \<times> nat \<times> bool) option" where
  "gen_uuid128_loop [] uuid128 b len uuid_count = Some (b, len, uuid_count, False)"
| "gen_uuid128_loop (SDP_UUID128 data # l) uuid128 b len uuid_count =
     (if unat len + 2 + 16 > HCI_MAX_EIR_LENGTH then Some (b, len, uuid_count, True)
      else do {
        let le = map (\<lambda>k. data ! (16 - 1 - k)) [0..<16];
        dup \<leftarrow> stored128 b uuid128 uuid_count le;
        if dup then gen_uuid128_loop l uuid128 b len uuid_count
        else do {
          b \<leftarrow> buf_write b (uuid128 + uuid_count * 16) le;
          gen_uuid128_loop l uuid128 b (len + 16) (uuid_count + 1) } })"
| "gen_uuid128_loop (_ # l) uuid128 b len uuid_count = gen_uuid128_loop l uuid128 b len uuid_count"

definition eir_generate_uuid128 :: "uuid_t list \<Rightarrow> u8 list \<Rightarrow> nat \<Rightarrow> u16 \<Rightarrow> (u8 list \<times> u16) option" where
  "eir_generate_uuid128 list b ptr eir_len = do {
     (b, len, uuid_count, truncated) \<leftarrow> gen_uuid128_loop list (ptr + 2) b eir_len 0;
     if uuid_count > 0 \<or> truncated then do {
       b \<leftarrow> buf_write b ptr [of_nat (uuid_count * 16) + 1, if truncated then EIR_UUID128_SOME else EIR_UUID128_ALL];
       Some (b, len + 2) }
     else Some (b, eir_len) }"

text \<open>A field with its length and type, after which \<open>ptr\<close> and the length have moved on.\<close>

definition put_field :: "u8 \<Rightarrow> u8 list \<Rightarrow> u8 list \<times> nat \<times> u16 \<Rightarrow> (u8 list \<times> nat \<times> u16) option" where
  "put_field type v = (\<lambda>(b, ptr, eir_len). do {
     b \<leftarrow> buf_write b ptr ([of_nat (length v + 1), type] @ v);
     Some (b, ptr + length v + 2, eir_len + of_nat (length v + 2)) })"

definition put_16 :: "u8 \<Rightarrow> u8 list \<Rightarrow> u8 list \<times> nat \<times> u16 \<Rightarrow> (u8 list \<times> nat \<times> u16) option" where
  "put_16 type h s = do { v \<leftarrow> buf_read h 0 16; put_field type v s }"

definition PNP_INFO_SVCLASS_ID :: u16 where
  "PNP_INFO_SVCLASS_ID = 0x1200"

text \<open>The array \<open>uuid16\<close> has room for half of \<^const>\<open>HCI_MAX_EIR_LENGTH\<close>.\<close>

fun oob_uuid16_loop :: "uuid_t list \<Rightarrow> u16 list \<Rightarrow> u16 \<Rightarrow> (u16 list \<times> u16 \<times> bool) option" where
  "oob_uuid16_loop [] uuid16 eir_len = Some (uuid16, eir_len, False)"
| "oob_uuid16_loop (SDP_UUID16 v # l) uuid16 eir_len =
     (if v < 0x1100 then oob_uuid16_loop l uuid16 eir_len
      else if v = PNP_INFO_SVCLASS_ID then oob_uuid16_loop l uuid16 eir_len
      else if unat eir_len + 2 + 2 > HCI_MAX_EIR_LENGTH then Some (uuid16, eir_len, True)
      else if v \<in> set uuid16 then oob_uuid16_loop l uuid16 eir_len
      else if length uuid16 < HCI_MAX_EIR_LENGTH div 2 then oob_uuid16_loop l (uuid16 @ [v]) (eir_len + 2)
      else None)"
| "oob_uuid16_loop (_ # l) uuid16 eir_len = oob_uuid16_loop l uuid16 eir_len"

definition oob_uuid16 :: "uuid_t list \<Rightarrow> u8 list \<times> nat \<times> u16 \<Rightarrow> (u8 list \<times> nat \<times> u16) option" where
  "oob_uuid16 uuids = (\<lambda>(b, ptr, eir_len). do {
     (uuid16, eir_len, truncated) \<leftarrow> oob_uuid16_loop uuids [] eir_len;
     if length uuid16 > 0 then do {
       b \<leftarrow> buf_write b ptr [of_nat (length uuid16 * 2) + 1, if truncated then EIR_UUID16_SOME else EIR_UUID16_ALL];
       b \<leftarrow> buf_write b (ptr + 2) (concat (map le16_bytes uuid16));
       Some (b, ptr + 2 + 2 * length uuid16, eir_len + 2) }
     else Some (b, ptr, eir_len) })"

definition oob_name :: "u8 list \<Rightarrow> u8 list \<times> nat \<times> u16 \<Rightarrow> (u8 list \<times> nat \<times> u16) option" where
  "oob_name name = (\<lambda>s.
     if length name > 0 then
       if length name > 48 then put_field EIR_NAME_SHORT (take 48 name) s
       else put_field EIR_NAME_COMPLETE name s
     else Some s)"

text \<open>The block ends with the UUIDs of 128 bits, so their place is not needed any more.\<close>

definition eir_create_oob :: "u8 list \<Rightarrow> u8 list \<Rightarrow> u32 \<Rightarrow> u8 list option \<Rightarrow> u8 list option \<Rightarrow>
    u16 \<Rightarrow> u16 \<Rightarrow> u16 \<Rightarrow> u16 \<Rightarrow> uuid_t list \<Rightarrow> u8 list \<Rightarrow> (u16 \<times> u8 list) option" where
  "eir_create_oob addr name cod hash randomizer did_vendor did_product did_version did_source uuids data = do {
     bdaddr \<leftarrow> buf_read addr 0 6;
     b \<leftarrow> buf_write data 2 bdaddr;
     s \<leftarrow> Some (b, 8, 0);
     s \<leftarrow> (if cod > 0 then put_field EIR_CLASS_OF_DEV [ucast cod, ucast (drop_bit 8 cod), ucast (drop_bit 16 cod)] s
          else Some s);
     s \<leftarrow> (case hash of Some h \<Rightarrow> put_16 EIR_SSP_HASH h s | None \<Rightarrow> Some s);
     s \<leftarrow> (case randomizer of Some r \<Rightarrow> put_16 EIR_SSP_RANDOMIZER r s | None \<Rightarrow> Some s);
     s \<leftarrow> oob_name name s;
     s \<leftarrow> (if did_vendor \<noteq> 0 then
            put_field EIR_DEVICE_ID (le16_bytes did_source @ le16_bytes did_vendor @ le16_bytes did_product @ le16_bytes did_version) s
          else Some s);
     (b, ptr, eir_optional_len) \<leftarrow> oob_uuid16 uuids s;
     (b, eir_optional_len) \<leftarrow> (if unat eir_optional_len \<le> HCI_MAX_EIR_LENGTH - 2
                             then eir_generate_uuid128 uuids b ptr eir_optional_len
                             else Some (b, eir_optional_len));
     let eir_total_len = 2 + 6 + eir_optional_len;
     b \<leftarrow> buf_write b 0 (le16_bytes eir_total_len);
     Some (eir_total_len, b) }"

end
