(* ===== verification/Eir_Fields.thy ===== *)
theory Eir_Fields
  imports Eir
begin

text \<open>
  The format of advertising data as a list of fields, and the parser of \<open>src/eir.c\<close> against it: on any
  bytes it handles exactly the fields that a reference splitter finds, and it never leaves the bytes.
\<close>

section \<open>Fields\<close>

type_synonym field = "u8 \<times> u8 list"

definition tlv :: "field \<Rightarrow> u8 list" where
  "tlv f = [of_nat (length (snd f)) + 1, fst f] @ snd f"

definition tlvs :: "field list \<Rightarrow> u8 list" where
  "tlvs fs = concat (map tlv fs)"

text \<open>The fields of a block: it ends at a length of zero, at one that does not fit, or before the last byte.\<close>

fun ad_split :: "u8 list \<Rightarrow> field list" where
  "ad_split (l # t # r) =
     (if l = 0 \<or> length r + 1 < unat l then []
      else (t, take (unat l - 1) r) # ad_split (drop (unat l - 1) r))"
| "ad_split _ = []"

fun eir_fields :: "(u8 list \<Rightarrow> bool) \<Rightarrow> (u8 list \<Rightarrow> u8 list) \<Rightarrow> field list \<Rightarrow> eir_data \<Rightarrow> eir_data option" where
  "eir_fields u s [] eir = Some eir"
| "eir_fields u s (f # fs) eir =
     Option.bind (eir_field u s (fst f) (snd f) (of_nat (length (snd f))) eir) (eir_fields u s fs)"

lemma tlvs_simps [simp]: "tlvs [] = []" "tlvs (f # fs) = tlv f @ tlvs fs" "tlvs (fs @ gs) = tlvs fs @ tlvs gs"
  by (simp_all add: tlvs_def)

lemma length_tlv [simp]: "length (tlv f) = length (snd f) + 2"
  by (simp add: tlv_def)

lemma ad_split_tlvs: "\<forall>f\<in>set fs. length (snd f) \<le> 254 \<Longrightarrow> ad_split (tlvs fs) = fs"
proof (induction fs)
  case (Cons f fs)
  then have n: "unat (of_nat (length (snd f)) + 1 :: u8) = length (snd f) + 1"
    using unat_of_nat_small [of "length (snd f) + 1", where 'a = 8] by (simp add: add.commute)
  then have "of_nat (length (snd f)) + 1 \<noteq> (0 :: u8)" by (metis add_is_0 one_neq_zero unat_0)
  then show ?case using n Cons by (simp add: tlv_def)
qed simp

lemma eir_fields_append:
  "eir_fields u s (fs @ gs) e = Option.bind (eir_fields u s fs e) (eir_fields u s gs)"
proof (induction fs arbitrary: e)
  case (Cons f fs)
  then show ?case by (cases "eir_field u s (fst f) (snd f) (of_nat (length (snd f))) e") simp_all
qed simp

section \<open>Reads stay inside the field\<close>

lemma at_append [simp]:
  "i < length v \<Longrightarrow> buf_get (v @ r) i = buf_get v i"
  "i + n \<le> length v \<Longrightarrow> buf_read (v @ r) i n = buf_read v i n"
  "i + 2 \<le> length v \<Longrightarrow> le16_at (v @ r) i = le16_at v i"
  "i + 4 \<le> length v \<Longrightarrow> le32_at (v @ r) i = le32_at v i"
  "i + 16 \<le> length v \<Longrightarrow> rev16_at (v @ r) i = rev16_at v i"
  by (simp_all add: buf_get_def buf_read_def le16_at_def le32_at_def rev16_at_def nth_append)

lemma uuid_loops_append [simp]:
  "2 * n \<le> length v \<Longrightarrow> uuid16_loop n (v @ r) e = uuid16_loop n v e"
  "4 * n \<le> length v \<Longrightarrow> uuid32_loop n (v @ r) e = uuid32_loop n v e"
  "16 * n \<le> length v \<Longrightarrow> uuid128_loop n (v @ r) e = uuid128_loop n v e"
  by (induction n arbitrary: v e) simp_all

lemma name_len_append [simp]: "n \<le> length v \<Longrightarrow> name_len (v @ r) n = name_len v n"
  by (induction n) (auto cong: if_cong)

lemma name_len_le: "n \<le> length v \<Longrightarrow> \<exists>k\<le>n. name_len v n = Some k"
proof (induction n)
  case (Suc n)
  then show ?case by (auto simp: buf_get_def intro: le_SucI)
qed simp

lemma name2utf8_append [simp]:
  "unat n \<le> length v \<Longrightarrow> name2utf8 u s (v @ r) n = name2utf8 u s v n"
  by (simp add: name2utf8_def)

lemma unat_minus_small: "\<not> n < k \<Longrightarrow> unat (n - k :: 'a::len word) = unat n - unat k"
  by (simp add: unat_sub linorder_not_less)

lemma parse_uuids_append:
  assumes "unat n = length v"
  shows "eir_parse_uuid16 e (v @ r) n = eir_parse_uuid16 e v n"
    "eir_parse_uuid32 e (v @ r) n = eir_parse_uuid32 e v n"
    "eir_parse_uuid128 e (v @ r) n = eir_parse_uuid128 e v n"
  using assms by (simp_all add: eir_parse_uuid16_def eir_parse_uuid32_def eir_parse_uuid128_def)

lemma parse_sd_append [simp]: "unat n \<le> length v \<Longrightarrow> eir_parse_sd e u (v @ r) n = eir_parse_sd e u v n"
  by (simp add: eir_parse_sd_def split: option.split)

lemma parse_data_append:
  assumes "unat n = length v"
  shows "eir_parse_uuid16_data e (v @ r) n = eir_parse_uuid16_data e v n"
    "eir_parse_uuid32_data e (v @ r) n = eir_parse_uuid32_data e v n"
    "eir_parse_uuid128_data e (v @ r) n = eir_parse_uuid128_data e v n"
    "eir_parse_msd e (v @ r) n = eir_parse_msd e v n"
    "eir_parse_data e t (v @ r) n = eir_parse_data e t v n"
proof -
  have less: "n < k \<longleftrightarrow> length v < unat k" for k
    using assms by (simp add: word_less_nat_alt)
  have "2 \<le> length v \<Longrightarrow> \<not> n < 2" by (simp add: less)
  then show "eir_parse_uuid16_data e (v @ r) n = eir_parse_uuid16_data e v n"
    "eir_parse_msd e (v @ r) n = eir_parse_msd e v n"
    by (cases "2 \<le> length v"; simp add: eir_parse_uuid16_data_def eir_parse_msd_def unat_minus_small less assms)+
  have "4 \<le> length v \<Longrightarrow> \<not> n < 4" by (simp add: less)
  then show "eir_parse_uuid32_data e (v @ r) n = eir_parse_uuid32_data e v n"
    by (cases "4 \<le> length v"; simp add: eir_parse_uuid32_data_def unat_minus_small less assms)
  have "16 \<le> length v \<Longrightarrow> \<not> n < 16" by (simp add: less)
  then show "eir_parse_uuid128_data e (v @ r) n = eir_parse_uuid128_data e v n"
    by (cases "16 \<le> length v"; simp add: eir_parse_uuid128_data_def unat_minus_small less assms)
  show "eir_parse_data e t (v @ r) n = eir_parse_data e t v n" by (simp add: eir_parse_data_def assms)
qed

lemma name_append:
  assumes "unat n = length v"
  shows "eir_name u s t (v @ r) n e = eir_name u s t v n e"
proof -
  obtain k where "k \<le> length v" "name_len v (unat n) = Some k" using name_len_le [of "unat n" v] assms by auto
  moreover from this have "unat (of_nat k :: u8) \<le> length v"
    using assms unat_u8_bound [of n] by (simp add: unat_of_nat_small)
  ultimately show ?thesis by (simp add: eir_name_def assms)
qed

lemma device_id_append: "8 \<le> length v \<Longrightarrow> eir_device_id (v @ r) e = eir_device_id v e"
  by (simp add: eir_device_id_def)

lemma eir_field_append:
  assumes "unat n = length v"
  shows "eir_field u s t (v @ r) n e = eir_field u s t v n e"
proof -
  have less: "n < k \<longleftrightarrow> length v < unat k" "k < n \<longleftrightarrow> unat k < length v" for k
    using assms by (simp_all add: word_less_nat_alt)
  show ?thesis
    unfolding eir_field_def parse_uuids_append [OF assms] parse_data_append [OF assms] name_append [OF assms] less
    by (intro if_cong refl) (simp_all add: device_id_append, auto simp: nth_append buf_get_def)
qed


section \<open>The loop\<close>

lemma ad_split_short: "length b \<le> 1 \<Longrightarrow> ad_split b = []"
  by (cases b rule: ad_split.cases) simp_all

lemma eir_loop_split:
  assumes "unat eir_len - unat len \<le> length p" and "unat len \<le> unat (eir_len :: u8)"
  shows "eir_loop u s eir_len len p e = eir_fields u s (ad_split (take (unat eir_len - unat len) p)) e"
  using assms
proof (induction "length p" arbitrary: len p e rule: less_induct)
  case less
  let ?k = "unat eir_len - unat len"
  show ?case
  proof (cases "2 \<le> ?k")
    case False
    then have "ad_split (take ?k p) = []" by (intro ad_split_short) simp
    moreover have "\<not> int (unat len) < int (unat eir_len) - 1" using False by linarith
    ultimately show ?thesis by (simp add: eir_loop.simps)
  next
    case True
    then have "2 \<le> length p" using less.prems(1) by linarith
    then obtain l t r where p: "p = l # t # r" by (cases p; cases "tl p") auto
    have "?k = Suc (Suc (?k - 2))" using True by simp
    then obtain k where k: "?k = Suc (Suc k)" by blast
    have g: "int (unat len) < int (unat eir_len) - 1" using True by linarith
    have q: "take ?k p = l # t # take k r" unfolding p k by simp
    have kr: "k \<le> length r" using less.prems(1) unfolding k p by simp
    let ?len = "len + (ucast l + 1)"
    have n: "unat ?len = unat len + unat l + 1"
      using less.prems(2) unat_u8_bound [of eir_len] unat_u8_bound [of l]
      by (simp add: unat_word_ariths unat_ucast_up)
    show ?thesis
    proof (cases "l = 0 \<or> unat ?len > unat eir_len")
      case True
      moreover from this have "l = 0 \<or> k + 1 < unat l" using n k by linarith
      ultimately show ?thesis using g kr unfolding q
        by (subst eir_loop.simps) (auto simp: p buf_get_def Let_def min_def)
    next
      case False
      define v where "v = take (unat l - 1) r"
      have l: "0 < unat l" "unat l - 1 \<le> k" "l \<noteq> 0" "\<not> unat eir_len < unat ?len" "\<not> Suc k < unat l"
        using False n k by (auto simp: unat_gt_0)
      have len: "unat (l - 1) = length v" using l kr by (simp add: v_def unat_minus_one min_def)
      have v: "unat (l - 1) = length v" "l - 1 = of_nat (length v)" "r = v @ drop (unat l - 1) r"
        "take (unat l - 1) (take k r) = v"
        using l len unat_eq_imp [OF len] by (simp_all add: v_def)
      have "eir_field u s t (drop 2 p) (l - 1) e = eir_field u s t v (l - 1) e"
        using eir_field_append [OF v(1), of u s t "drop (unat l - 1) r" e] v(3) by (simp add: p)
      moreover have "eir_loop u s eir_len ?len (drop (unat l + 1) p) e' =
          eir_fields u s (ad_split (drop (unat l - 1) (take k r))) e'" for e'
      proof -
        have d: "drop (unat l + 1) p = drop (unat l - 1) r" using l(1) by (cases "unat l") (simp_all add: p)
        have "unat eir_len - unat ?len = k - (unat l - 1)" using n k l by linarith
        moreover have "eir_loop u s eir_len ?len (drop (unat l - 1) r) e' =
            eir_fields u s (ad_split (take (unat eir_len - unat ?len) (drop (unat l - 1) r))) e'"
          using n k l kr less.prems by (intro less.hyps) (simp_all add: p)
        ultimately show ?thesis unfolding d by (simp add: drop_take)
      qed
      ultimately show ?thesis using g l v(2,4) kr unfolding q
        by (subst eir_loop.simps)
          (simp add: p buf_get_def Let_def split: option.split)
    qed
  qed
qed


text \<open>Splitting a block gives fields that fit into it.\<close>

lemma ad_split_bound: "f \<in> set (ad_split b) \<Longrightarrow> length (snd f) + 2 \<le> length b"
proof (induction b rule: ad_split.induct)
  case (1 l t r)
  then have "f = (t, take (unat l - 1) r) \<or> f \<in> set (ad_split (drop (unat l - 1) r))" "l \<noteq> 0"
    by (auto split: if_splits)
  then show ?case using 1 by (cases "l = 0 \<or> length r + 1 < unat l") auto
qed simp_all

section \<open>Names\<close>

lemma c_string_length: "length (c_string b) \<le> length b"
  by (simp add: c_string_def length_takeWhile_le)

lemma name2utf8_some:
  assumes "unat n \<le> length name" and "unat n \<le> 249"
  shows "name2utf8 u s name n \<noteq> None"
proof -
  let ?t = "take (unat n) name"
  have "length (c_string ?t) \<le> unat n" using c_string_length [of ?t] assms(1) by simp
  then show ?thesis using assms
    by (simp add: name2utf8_def buf_read_def buf_write_0 HCI_MAX_NAME_LENGTH_def)
qed

lemma name_len_full:
  assumes "0 \<notin> set v"
  shows "name_len v (length v) = Some (length v)"
proof (cases "length v")
  case (Suc n)
  then have "v ! n \<in> set v" by (intro nth_mem) simp
  then have "v ! n \<noteq> 0" using assms by metis
  then show ?thesis using Suc by (simp add: buf_get_def)
qed simp

text \<open>A name of up to 249 bytes is handled inside the array.\<close>

lemma eir_name_some:
  assumes "unat n = length v" and "length v \<le> 249"
  shows "eir_name u s t v n e \<noteq> None"
proof -
  obtain k where k: "k \<le> length v" "name_len v (unat n) = Some k" using name_len_le [of "unat n" v] assms by auto
  moreover from this have "unat (of_nat k :: u8) = k" using assms by (simp add: unat_of_nat_small)
  ultimately show ?thesis using name2utf8_some [of "of_nat k" v u s] assms(2) by (auto simp: eir_name_def)
qed

lemma uuid_loops_some:
  "2 * n \<le> length v \<Longrightarrow> uuid16_loop n v e \<noteq> None"
  "4 * n \<le> length v \<Longrightarrow> uuid32_loop n v e \<noteq> None"
  "16 * n \<le> length v \<Longrightarrow> uuid128_loop n v e \<noteq> None"
  by (induction n arbitrary: v e) (auto simp: le16_at_def le32_at_def rev16_at_def buf_get_def buf_read_def)

lemma parse_sd_some: "unat n \<le> length v \<Longrightarrow> n \<le> 238 \<Longrightarrow> eir_parse_sd e u v n \<noteq> None"
  by (simp add: eir_parse_sd_def buf_read_def EIR_SD_MAX_LEN_def split: option.split)

lemma eir_field_some:
  assumes "unat n = length v" and "length v \<le> 249"
  shows "eir_field u s t v n e \<noteq> None"
proof -
  have less: "n < k \<longleftrightarrow> length v < unat k" "k < n \<longleftrightarrow> unat k < length v" for k
    using assms by (simp_all add: word_less_nat_alt)
  have "eir_parse_uuid16 e v n \<noteq> None" "eir_parse_uuid32 e v n \<noteq> None" "eir_parse_uuid128 e v n \<noteq> None"
    unfolding eir_parse_uuid16_def eir_parse_uuid32_def eir_parse_uuid128_def
    using assms by (intro uuid_loops_some; simp)+
  moreover have "eir_parse_sd e w (drop k v) (n - of_nat k) \<noteq> None"
    if "\<not> n < of_nat k" "\<not> n > EIR_SD_MAX_LEN" "k < 256" for w k
    using that assms
    by (intro parse_sd_some) (simp_all add: unat_minus_small unat_of_nat_small EIR_SD_MAX_LEN_def word_le_nat_alt less)
  from this [of 2] this [of 4] this [of 16]
  have "eir_parse_uuid16_data e v n \<noteq> None" "eir_parse_uuid32_data e v n \<noteq> None"
    "eir_parse_uuid128_data e v n \<noteq> None"
    unfolding eir_parse_uuid16_data_def eir_parse_uuid32_data_def eir_parse_uuid128_data_def
    by (auto simp: le16_at_def le32_at_def rev16_at_def buf_get_def buf_read_def less)
  moreover have "eir_parse_msd e v n \<noteq> None" "eir_parse_data e t v n \<noteq> None"
    unfolding eir_parse_msd_def eir_parse_data_def using assms
    by (auto simp: le16_at_def buf_get_def buf_read_def less unat_minus_small)
  ultimately show ?thesis using eir_name_some [OF assms]
    unfolding eir_field_def less by (auto simp: le16_at_def buf_get_def buf_read_def eir_device_id_def)
qed

lemma eir_fields_some:
  "\<forall>f\<in>set fs. length (snd f) \<le> 249 \<Longrightarrow> eir_fields u s fs e \<noteq> None"
proof (induction fs arbitrary: e)
  case (Cons f fs)
  then have "eir_field u s (fst f) (snd f) (of_nat (length (snd f))) e \<noteq> None"
    by (intro eir_field_some) (simp_all add: unat_of_nat_small)
  then show ?case using Cons by auto
qed simp

section \<open>The parser\<close>

definition eir_init :: "eir_data \<Rightarrow> eir_data" where
  "eir_init eir = eir\<lparr>ed_flags := 0, ed_tx_power := 127\<rparr>"

lemma eir_parse_split:
  "unat eir_len \<le> length b \<Longrightarrow>
   eir_parse u s eir (Some b) eir_len = eir_fields u s (ad_split (take (unat eir_len) b)) (eir_init eir)"
  using eir_loop_split [of eir_len 0 b] by (simp add: eir_parse_def eir_init_def)

text \<open>
  C23: On any block of bytes the parser of advertising data handles exactly the fields that the reference
  splitter finds, each once and in order; for blocks of up to 251 bytes it answers a result whatever the bytes,
  so it reads nothing outside the block and writes nothing outside the name array.
\<close>

theorem eir_parse_exact:
  assumes "unat eir_len \<le> length b"
  shows "eir_parse utf8 strip eir (Some b) eir_len =
      eir_fields utf8 strip (ad_split (take (unat eir_len) b)) (eir_init eir) \<and>
    (unat eir_len \<le> 251 \<longrightarrow> eir_parse utf8 strip eir (Some b) eir_len \<noteq> None)"
proof (intro conjI impI)
  assume n: "unat eir_len \<le> 251"
  have "length (snd f) \<le> 249" if "f \<in> set (ad_split (take (unat eir_len) b))" for f
    using ad_split_bound [OF that] n by simp
  then show "eir_parse utf8 strip eir (Some b) eir_len \<noteq> None"
    unfolding eir_parse_split [OF assms] by (intro eir_fields_some) simp
qed (rule eir_parse_split [OF assms])

theorem eir_parse_exact_witness:
  "\<forall>eir. eir_parse (\<lambda>_. True) id eir (Some [2, 0x0A, 5, 3, 0x19, 0x40]) 6 =
     eir_fields (\<lambda>_. True) id [(EIR_TX_POWER, [5])] (eir_init eir)"
  using eir_parse_exact [of 6 "[2, 0x0A, 5, 3, 0x19, 0x40]" "\<lambda>_. True" id] by simp

lemma eir_parse_tlvs:
  assumes "length (tlvs fs) = unat eir_len" and "\<forall>f\<in>set fs. length (snd f) \<le> 254"
  shows "eir_parse u s eir (Some (tlvs fs @ rest)) eir_len = eir_fields u s fs (eir_init eir)"
  using eir_parse_split [of eir_len "tlvs fs @ rest" u s eir] assms ad_split_tlvs [of fs] by simp


text \<open>A name of 250 to 253 bytes that is not UTF-8 runs over the array.\<close>

theorem eir_name_overflow:
  assumes "250 \<le> length v" and "length v \<le> 253" and "0 \<notin> set v" and "\<not> utf8 v"
  shows "eir_parse utf8 strip eir (Some (tlv (EIR_NAME_COMPLETE, v))) (of_nat (length v + 2)) = None"
proof -
  have n: "unat (of_nat (length v) :: u8) = length v" "unat (of_nat (length v + 2) :: u8) = length v + 2"
    using assms by (intro unat_of_nat_small; simp)+
  have str: "c_string v = v" using assms(3) by (auto simp: c_string_def takeWhile_eq_all_conv)
  have "name_len v (length v) = Some (length v)" using assms(3) by (rule name_len_full)
  moreover have "name2utf8 utf8 strip v (of_nat (length v)) = None"
    using assms n(1) str by (auto simp: name2utf8_def buf_read_def buf_write_0 HCI_MAX_NAME_LENGTH_def)
  ultimately have "eir_name utf8 strip EIR_NAME_COMPLETE v (of_nat (length v)) e = None" for e
    using n(1) by (simp add: eir_name_def)
  then have "eir_fields utf8 strip [(EIR_NAME_COMPLETE, v)] e = None" for e by (simp add: eir_field_def)
  moreover have "unat (of_nat (length v + 2) :: u8) = length (tlvs [(EIR_NAME_COMPLETE, v)])" using n(2) by simp
  ultimately show ?thesis
    using eir_parse_tlvs [of "[(EIR_NAME_COMPLETE, v)]" "of_nat (length v + 2)" utf8 strip eir "[]"] assms(2) by simp
qed

end
