(* ===== verification/Eir_Oob.thy ===== *)
theory Eir_Oob
  imports Eir_Fields
begin

text \<open>
  The out-of-band block of \<open>eir_create_oob\<close>: the fields it consists of, its bounds, and what
  \<open>eir_parse_oob\<close> reads from it.
\<close>

section \<open>The fields of the block\<close>

fun uuids16 :: "uuid_t list \<Rightarrow> u16 list" where
  "uuids16 [] = []"
| "uuids16 (SDP_UUID16 v # l) = (if v < 0x1100 \<or> v = PNP_INFO_SVCLASS_ID then uuids16 l else v # uuids16 l)"
| "uuids16 (_ # l) = uuids16 l"

fun uuids128 :: "uuid_t list \<Rightarrow> u8 list list" where
  "uuids128 [] = []"
| "uuids128 (SDP_UUID128 d # l) = d # uuids128 l"
| "uuids128 (_ # l) = uuids128 l"

text \<open>The first occurrences, in order, added to those already there, as long as there is room for them.\<close>

fun firsts :: "nat \<Rightarrow> 'a list \<Rightarrow> 'a list \<Rightarrow> 'a list" where
  "firsts k acc [] = acc"
| "firsts k acc (x # xs) =
     (if k = 0 then acc else if x \<in> set acc then firsts k acc xs else firsts (k - 1) (acc @ [x]) xs)"

lemma firsts_length: "length (firsts k acc xs) \<le> length acc + k"
  by (induction k acc xs rule: firsts.induct) (auto split: if_splits)

lemma firsts_set: "set (firsts k acc xs) \<subseteq> set acc \<union> set xs"
  by (induction k acc xs rule: firsts.induct) auto

lemma firsts_distinct: "distinct acc \<Longrightarrow> distinct (firsts k acc xs)"
  by (induction k acc xs rule: firsts.induct) auto

definition oob_base :: "u8 list \<Rightarrow> u32 \<Rightarrow> u8 list option \<Rightarrow> u8 list option \<Rightarrow> u16 \<Rightarrow> u16 \<Rightarrow> u16 \<Rightarrow> u16 \<Rightarrow> field list" where
  "oob_base name cod hash randomizer vendor product version source =
     (if cod > 0 then [(EIR_CLASS_OF_DEV, [ucast cod, ucast (drop_bit 8 cod), ucast (drop_bit 16 cod)])] else []) @
     (case hash of Some h \<Rightarrow> [(EIR_SSP_HASH, h)] | None \<Rightarrow> []) @
     (case randomizer of Some r \<Rightarrow> [(EIR_SSP_RANDOMIZER, r)] | None \<Rightarrow> []) @
     (if name = [] then [] else if length name > 48 then [(EIR_NAME_SHORT, take 48 name)] else [(EIR_NAME_COMPLETE, name)]) @
     (if vendor \<noteq> 0 then
        [(EIR_DEVICE_ID, le16_bytes source @ le16_bytes vendor @ le16_bytes product @ le16_bytes version)] else [])"

section \<open>The loops\<close>

lemma firsts_mono: "length acc \<le> length (firsts k acc xs)"
  by (induction k acc xs rule: firsts.induct) auto

lemma firsts_nil: "firsts 0 acc xs = acc"
  by (cases xs) simp_all

lemma firsts_Cons:
  "k \<noteq> 0 \<Longrightarrow> firsts k acc (x # xs) = (if x \<in> set acc then firsts k acc xs else firsts (k - 1) (acc @ [x]) xs)"
  by simp

lemma oob_uuid16_loop_firsts:
  assumes "2 * length us \<le> unat len" and "unat len \<le> 240"
  shows "\<exists>tr f. f = firsts ((238 - unat len) div 2) us (uuids16 l) \<and>
    oob_uuid16_loop l us len = Some (f, len + of_nat (2 * (length f - length us)), tr)"
  using assms
proof (induction l us len rule: oob_uuid16_loop.induct)
  case (2 v l us len)
  let ?k = "(238 - unat len) div 2"
  consider "v < 0x1100 \<or> v = PNP_INFO_SVCLASS_ID"
    | "\<not> (v < 0x1100 \<or> v = PNP_INFO_SVCLASS_ID)" "unat len + 2 + 2 > HCI_MAX_EIR_LENGTH"
    | "\<not> (v < 0x1100 \<or> v = PNP_INFO_SVCLASS_ID)" "\<not> unat len + 2 + 2 > HCI_MAX_EIR_LENGTH" "v \<in> set us"
    | "\<not> (v < 0x1100 \<or> v = PNP_INFO_SVCLASS_ID)" "\<not> unat len + 2 + 2 > HCI_MAX_EIR_LENGTH" "v \<notin> set us"
    by blast
  then show ?case
  proof cases
    case 1
    then show ?thesis using 2 by auto
  next
    case c: 2
    then have "?k = 0" by (simp add: HCI_MAX_EIR_LENGTH_def)
    then show ?thesis using c by (auto simp: firsts_nil)
  next
    case c: 3
    then have "?k \<noteq> 0" by (simp add: HCI_MAX_EIR_LENGTH_def)
    then show ?thesis using c 2 by (simp add: firsts_Cons del: firsts.simps)
  next
    case c: 4
    then have k: "?k \<noteq> 0" "unat len + 4 \<le> 240" by (simp_all add: HCI_MAX_EIR_LENGTH_def)
    have n: "unat (len + 2) = unat len + 2" using k(2) unat_add_of_nat [of len 2] by simp
    have us: "length us < HCI_MAX_EIR_LENGTH div 2" using 2(5) k(2) by (simp add: HCI_MAX_EIR_LENGTH_def)
    have "\<exists>tr f. f = firsts ((238 - unat (len + 2)) div 2) (us @ [v]) (uuids16 l) \<and>
      oob_uuid16_loop l (us @ [v]) (len + 2) = Some (f, len + 2 + of_nat (2 * (length f - length (us @ [v]))), tr)"
    proof (rule 2(4))
      show "2 * length (us @ [v]) \<le> unat (len + 2)" using 2(5) unfolding n by simp
      show "unat (len + 2) \<le> 240" using k(2) unfolding n by simp
    qed (use c us in blast)+
    then obtain tr f where f: "f = firsts ((238 - unat (len + 2)) div 2) (us @ [v]) (uuids16 l)"
      "oob_uuid16_loop l (us @ [v]) (len + 2) = Some (f, len + 2 + of_nat (2 * (length f - length (us @ [v]))), tr)"
      by blast
    have "(238 - unat (len + 2)) div 2 = ?k - 1" using n k by simp
    then have "f = firsts ?k us (uuids16 (SDP_UUID16 v # l))" using f(1) c k(1) by (simp add: firsts_Cons)
    moreover have "length us + 1 \<le> length f" unfolding f(1) using firsts_mono [of "us @ [v]"] by simp
    then have e: "2 * (length f - length us) = 2 + 2 * (length f - length (us @ [v]))" by simp
    have "len + of_nat (2 * (length f - length us)) = len + 2 + of_nat (2 * (length f - length (us @ [v])))"
      unfolding e of_nat_add by (simp del: length_append of_nat_mult)
    ultimately show ?thesis using c us f(2) by auto
  qed
qed auto


text \<open>The 128 bit UUIDs are stored with their bytes reversed.\<close>

definition le128 :: "u8 list \<Rightarrow> u8 list" where
  "le128 d = map (\<lambda>k. d ! (16 - 1 - k)) [0..<16]"

lemma le128_length [simp]: "length (le128 d) = 16"
  by (simp add: le128_def)

lemma le128_rev: "length d = 16 \<Longrightarrow> le128 d = rev d"
  by (rule nth_equalityI) (auto simp: le128_def rev_nth)

lemma rev16_le128 [simp]: "length d = 16 \<Longrightarrow> rev16_at (le128 d) 0 = Some d"
proof -
  assume d: "length d = 16"
  have "map (\<lambda>k. le128 d ! (16 - k - 1)) [0..<16] = d"
    by (rule nth_equalityI) (use d in \<open>auto simp: le128_rev rev_nth\<close>)
  then show ?thesis by (simp add: rev16_at_def buf_read_def)
qed

lemma stored128_mem:
  assumes "\<forall>u\<in>set us. length u = 16"
  shows "stored128 (pre @ concat us @ r) (length pre) (length us) x = Some (x \<in> set us)"
  using assms
proof (induction us arbitrary: pre)
  case (Cons u us)
  then have "buf_read (pre @ u @ concat us @ r) (length pre) 16 = Some u" by (simp add: buf_read_def)
  moreover have "stored128 (pre @ u @ concat us @ r) (length pre + 16) (length us) x = Some (x \<in> set us)"
    using Cons.IH [of "pre @ u"] Cons.prems by simp
  ultimately show ?case by auto
qed simp

lemma concat_16_length: "\<forall>u\<in>set us. length u = 16 \<Longrightarrow> length (concat us) = 16 * length us"
  by (induction us) simp_all

lemma room_step:
  assumes "n + 18 \<le> (240 :: nat)"
  shows "(238 - (n + 16)) div 16 = (238 - n) div 16 - 1"
proof -
  obtain m where m: "238 - (n + 16) = m" by blast
  with assms have "238 - n = m + 16" by linarith
  with m show ?thesis by simp
qed

lemma gen_uuid128_loop_firsts:
  assumes "\<forall>u\<in>set us. length u = 16" and "unat len \<le> 240" and "16 * ((238 - unat len) div 16) \<le> length r"
  shows "\<exists>tr f. f = firsts ((238 - unat len) div 16) us (map le128 (uuids128 l)) \<and>
    gen_uuid128_loop l (length pre) (pre @ concat us @ r) len (length us) =
      Some (pre @ concat f @ drop (16 * (length f - length us)) r, len + of_nat (16 * (length f - length us)), length f, tr)"
  using assms
proof (induction l arbitrary: us len r)
  case (Cons c l)
  let ?k = "(238 - unat len) div 16"
  show ?case
  proof (cases "\<exists>d. c = SDP_UUID128 d")
    case False
    then show ?thesis using Cons by (cases c) auto
  next
    case True
    then obtain d where c: "c = SDP_UUID128 d" by blast
    have le: "map (\<lambda>k. d ! (16 - 1 - k)) [0..<16] = le128 d" by (simp add: le128_def)
    consider "unat len + 2 + 16 > HCI_MAX_EIR_LENGTH"
      | "\<not> unat len + 2 + 16 > HCI_MAX_EIR_LENGTH" "le128 d \<in> set us"
      | "\<not> unat len + 2 + 16 > HCI_MAX_EIR_LENGTH" "le128 d \<notin> set us"
      by blast
    then show ?thesis
    proof cases
      case 1
      then have "?k = 0" by (simp add: HCI_MAX_EIR_LENGTH_def)
      then show ?thesis using 1 by (auto simp: c firsts_nil)
    next
      case 2
      then have "?k \<noteq> 0" by (simp add: HCI_MAX_EIR_LENGTH_def)
      moreover from 2 have "gen_uuid128_loop (c # l) (length pre) (pre @ concat us @ r) len (length us) =
          gen_uuid128_loop l (length pre) (pre @ concat us @ r) len (length us)"
        unfolding c gen_uuid128_loop.simps le using stored128_mem [OF Cons.prems(1), of pre r] by simp
      ultimately show ?thesis using Cons.IH [OF Cons.prems] 2(2) unfolding c
        by (simp add: firsts_Cons del: firsts.simps gen_uuid128_loop.simps)
    next
      case 3
      then have k: "?k \<noteq> 0" "unat len + 18 \<le> 240" by (simp_all add: HCI_MAX_EIR_LENGTH_def)
      have n: "unat (len + 16) = unat len + 16" using k(2) unat_add_of_nat [of len 16] by simp
      have k': "(238 - unat (len + 16)) div 16 = ?k - 1" unfolding n by (rule room_step [OF k(2)])
      have r: "16 \<le> length r" "16 * (?k - 1) \<le> length (drop 16 r)" using Cons.prems(3) k(1) by simp_all
      have "buf_write (pre @ concat us @ r) (length pre + length us * 16) (le128 d) =
          Some (pre @ concat (us @ [le128 d]) @ drop 16 r)"
        using buf_write_append [of "length pre + length us * 16" "pre @ concat us" "le128 d" r]
          concat_16_length [OF Cons.prems(1)] r(1) by simp
      with 3 have step: "gen_uuid128_loop (c # l) (length pre) (pre @ concat us @ r) len (length us) =
          gen_uuid128_loop l (length pre) (pre @ concat (us @ [le128 d]) @ drop 16 r) (len + 16) (length (us @ [le128 d]))"
        unfolding c gen_uuid128_loop.simps le using stored128_mem [OF Cons.prems(1), of pre r] by simp
      have "\<exists>tr f. f = firsts (?k - 1) (us @ [le128 d]) (map le128 (uuids128 l)) \<and>
        gen_uuid128_loop l (length pre) (pre @ concat (us @ [le128 d]) @ drop 16 r) (len + 16) (length (us @ [le128 d])) =
        Some (pre @ concat f @ drop (16 * (length f - length (us @ [le128 d]))) (drop 16 r),
          len + 16 + of_nat (16 * (length f - length (us @ [le128 d]))), length f, tr)"
        unfolding k' [symmetric]
      proof (rule Cons.IH)
        show "\<forall>u\<in>set (us @ [le128 d]). length u = 16" using Cons.prems(1) by simp
        show "unat (len + 16) \<le> 240" using k(2) unfolding n by simp
        show "16 * ((238 - unat (len + 16)) div 16) \<le> length (drop 16 r)" unfolding k' by (rule r(2))
      qed
      then obtain tr f where f: "f = firsts (?k - 1) (us @ [le128 d]) (map le128 (uuids128 l))"
        "gen_uuid128_loop (c # l) (length pre) (pre @ concat us @ r) len (length us) =
        Some (pre @ concat f @ drop (16 * (length f - length (us @ [le128 d]))) (drop 16 r),
          len + 16 + of_nat (16 * (length f - length (us @ [le128 d]))), length f, tr)"
        unfolding step by blast
      have "length us + 1 \<le> length f" unfolding f(1) using firsts_mono [of "us @ [le128 d]"] by simp
      then have e: "16 * (length f - length us) = 16 + 16 * (length f - length (us @ [le128 d]))" by simp
      have "f = firsts ?k us (map le128 (uuids128 (c # l)))" using 3(2) k(1) by (simp add: c f(1) firsts_Cons)
      moreover have "drop (16 * (length f - length us)) r = drop (16 * (length f - length (us @ [le128 d]))) (drop 16 r)"
        unfolding e drop_drop by (simp add: add.commute)
      moreover have "len + of_nat (16 * (length f - length us)) = len + 16 + of_nat (16 * (length f - length (us @ [le128 d])))"
        unfolding e of_nat_add by (simp del: length_append of_nat_mult)
      ultimately show ?thesis using f(2) by auto
    qed
  qed
qed auto


section \<open>The block\<close>

text \<open>The state of the writer when the fields are written into a region \<open>R\<close> after the header.\<close>

definition oob_st :: "u8 list \<Rightarrow> u8 list \<Rightarrow> field list \<Rightarrow> u8 list \<times> nat \<times> u16" where
  "oob_st hdr R fs = (hdr @ tlvs fs @ drop (length (tlvs fs)) R, 8 + length (tlvs fs), of_nat (length (tlvs fs)))"

lemma write_fields:
  assumes "length hdr = 8" and "length (tlvs fs) + length w \<le> length R"
  shows "buf_write (hdr @ tlvs fs @ drop (length (tlvs fs)) R) (8 + length (tlvs fs)) w =
    Some (hdr @ tlvs fs @ w @ drop (length (tlvs fs) + length w) R)"
  using buf_write_append [of "8 + length (tlvs fs)" "hdr @ tlvs fs" w "drop (length (tlvs fs)) R"] assms
  by (simp add: add.commute)

lemma put_field_st:
  assumes "length hdr = 8" and "length (tlvs fs) + length v + 2 \<le> length R"
  shows "put_field t v (oob_st hdr R fs) = Some (oob_st hdr R (fs @ [(t, v)]))"
  using write_fields [OF assms(1), of fs "tlv (t, v)" R] assms(2)
  by (simp add: put_field_def oob_st_def tlv_def add.commute add.left_commute)

lemma put_16_st:
  assumes "length hdr = 8" and "length (tlvs fs) + 18 \<le> length R" and "length v = 16"
  shows "put_16 t v (oob_st hdr R fs) = Some (oob_st hdr R (fs @ [(t, v)]))"
  using put_field_st [OF assms(1), of fs v R t] assms by (simp add: put_16_def buf_read_def)

text \<open>The fields of the UUIDs, the type either that of a complete or that of an incomplete list.\<close>

definition uuid16_fields :: "u8 \<Rightarrow> u16 list \<Rightarrow> field list" where
  "uuid16_fields t us = (if us = [] then [] else [(t, concat (map le16_bytes us))])"

lemma concat_le16_length [simp]: "length (concat (map le16_bytes us)) = 2 * length us"
  by (induction us) simp_all

definition room16 :: "field list \<Rightarrow> uuid_t list \<Rightarrow> u16 list" where
  "room16 fs uuids = firsts ((238 - length (tlvs fs)) div 2) [] (uuids16 uuids)"

definition room128 :: "field list \<Rightarrow> uuid_t list \<Rightarrow> u8 list list" where
  "room128 fs uuids = firsts ((238 - length (tlvs fs)) div 16) [] (uuids128 uuids)"

lemma room16_length: "length (tlvs fs) \<le> 238 \<Longrightarrow> length (tlvs fs) + 2 * length (room16 fs uuids) \<le> 238"
  using firsts_length [of "(238 - length (tlvs fs)) div 2" "[]" "uuids16 uuids"] unfolding room16_def by simp

lemma room16_count: "length (room16 fs uuids) \<le> 120"
  using firsts_length [of "(238 - length (tlvs fs)) div 2" "[]" "uuids16 uuids"]
    div_le_mono [of "238 - length (tlvs fs)" 238 2] by (simp add: room16_def)

lemma room128_count: "length (room128 fs uuids) \<le> 15"
  using firsts_length [of "(238 - length (tlvs fs)) div 16" "[]" "uuids128 uuids"]
    div_le_mono [of "238 - length (tlvs fs)" 238 16] by (simp add: room128_def)

lemma oob_uuid16_st:
  assumes "length hdr = 8" and "length (tlvs fs) \<le> 236" and "240 \<le> length R"
  shows "\<exists>t\<in>{EIR_UUID16_SOME, EIR_UUID16_ALL}.
    oob_uuid16 uuids (oob_st hdr R fs) = Some (oob_st hdr R (fs @ uuid16_fields t (room16 fs uuids)))"
proof -
  have n: "unat (of_nat (length (tlvs fs)) :: u16) = length (tlvs fs)" using assms(2) by (intro unat_of_nat_small) simp
  let ?us = "room16 fs uuids"
  obtain tr where loop: "oob_uuid16_loop uuids [] (of_nat (length (tlvs fs))) =
      Some (?us, of_nat (length (tlvs fs)) + of_nat (2 * length ?us), tr)"
    using oob_uuid16_loop_firsts [of "[]" "of_nat (length (tlvs fs))" uuids] n assms(2) by (auto simp: room16_def)
  have room: "length (tlvs fs) + 2 * length ?us \<le> 238" using room16_length [of fs uuids] assms(2) by simp
  let ?t = "if tr then EIR_UUID16_SOME else EIR_UUID16_ALL"
  let ?h = "[of_nat (length ?us * 2) + 1, ?t] :: u8 list"
  have "oob_uuid16 uuids (oob_st hdr R fs) = Some (oob_st hdr R (fs @ uuid16_fields ?t ?us))"
  proof (cases "?us = []")
    case True
    then show ?thesis using loop by (simp add: oob_uuid16_def oob_st_def uuid16_fields_def)
  next
    case False
    have w: "buf_write (hdr @ tlvs fs @ ?h @ drop (length (tlvs fs) + length ?h) R) (8 + length (tlvs fs) + 2)
        (concat (map le16_bytes ?us)) =
      Some (hdr @ tlvs fs @ ?h @ concat (map le16_bytes ?us) @ drop (length (tlvs fs) + 2 + 2 * length ?us) R)"
      using buf_write_append [of "8 + length (tlvs fs) + 2" "hdr @ tlvs fs @ ?h" "concat (map le16_bytes ?us)"
          "drop (length (tlvs fs) + 2) R"] assms room by (simp add: ac_simps)
    have "length ?us \<noteq> 0" using False by simp
    then show ?thesis
      using loop write_fields [OF assms(1), of fs ?h R] w room assms(3) False
      by (simp add: oob_uuid16_def oob_st_def uuid16_fields_def tlv_def ac_simps)
  qed
  then show ?thesis by (cases tr) auto
qed


lemma firsts_map:
  "inj_on g (set acc \<union> set xs) \<Longrightarrow> firsts k (map g acc) (map g xs) = map g (firsts k acc xs)"
proof (induction k acc xs rule: firsts.induct)
  case (2 k acc x xs)
  have "inj_on g (set acc \<union> set xs)" using 2(3) by (rule inj_on_subset) auto
  moreover have "g x \<in> set (map g acc) \<longleftrightarrow> x \<in> set acc" using 2(3) by (auto simp: inj_on_def)
  moreover have "set (acc @ [x]) \<union> set xs = set acc \<union> set (x # xs)" by auto
  ultimately show ?case using 2 by simp
qed simp

text \<open>Fields of an empty list are written when the first UUID has no room.\<close>

definition uuid128_fields :: "field list \<Rightarrow> u8 list list \<Rightarrow> bool" where
  "uuid128_fields gs ds \<longleftrightarrow> (gs = [] \<and> ds = []) \<or>
     (\<exists>t\<in>{EIR_UUID128_SOME, EIR_UUID128_ALL}. gs = [(t, concat (map le128 ds))])"

lemma concat_le128_length [simp]: "length (concat (map le128 ds)) = 16 * length ds"
  by (induction ds) simp_all

lemma room128_length: "length (tlvs fs) \<le> 238 \<Longrightarrow> length (tlvs fs) + 16 * length (room128 fs uuids) \<le> 238"
  using firsts_length [of "(238 - length (tlvs fs)) div 16" "[]" "uuids128 uuids"] unfolding room128_def by simp

lemma eir_generate_uuid128_st:
  assumes "length hdr = 8" and "length (tlvs fs) \<le> 238" and "240 \<le> length R"
    and "\<forall>d\<in>set (uuids128 uuids). length d = 16"
  shows "\<exists>gs. uuid128_fields gs (room128 fs uuids) \<and>
    eir_generate_uuid128 uuids (hdr @ tlvs fs @ drop (length (tlvs fs)) R) (8 + length (tlvs fs)) (of_nat (length (tlvs fs))) =
      Some (hdr @ tlvs (fs @ gs) @ drop (length (tlvs (fs @ gs))) R, of_nat (length (tlvs (fs @ gs))))"
proof -
  let ?n = "length (tlvs fs)" and ?ds = "room128 fs uuids"
  let ?pre = "hdr @ tlvs fs @ take 2 (drop ?n R)" and ?f = "concat (map le128 ?ds)"
  have n: "unat (of_nat ?n :: u16) = ?n" using assms(2) by (intro unat_of_nat_small) simp
  have b: "hdr @ tlvs fs @ drop ?n R = ?pre @ concat [] @ drop (?n + 2) R"
    using append_take_drop_id [of 2 "drop ?n R"] by (simp add: add.commute)
  have pre: "length ?pre = 8 + ?n + 2" using assms by simp
  have "inj_on le128 (set (uuids128 uuids))" using assms(4) by (intro inj_onI) (simp add: le128_rev)
  then have ds: "firsts ((238 - ?n) div 16) [] (map le128 (uuids128 uuids)) = map le128 ?ds"
    using firsts_map [of le128 "[]" "uuids128 uuids"] by (simp add: room128_def)
  have room: "?n + 16 * length ?ds \<le> 238" by (rule room128_length [OF assms(2)])
  have "16 * ((238 - ?n) div 16) \<le> length (drop (?n + 2) R)" using assms(3) by simp
  then obtain tr where loop: "gen_uuid128_loop uuids (8 + ?n + 2) (hdr @ tlvs fs @ drop ?n R) (of_nat ?n) 0 =
      Some (?pre @ ?f @ drop (?n + 2 + 16 * length ?ds) R, of_nat ?n + of_nat (16 * length ?ds), length ?ds, tr)"
    using gen_uuid128_loop_firsts [of "[]" "of_nat ?n" "drop (?n + 2) R" uuids ?pre] n assms(2) ds
    unfolding b pre [symmetric] by (auto simp: ac_simps)
  show ?thesis
  proof (cases "?ds = [] \<and> \<not> tr")
    case True
    then show ?thesis using loop append_take_drop_id [of 2 "drop ?n R"]
      by (intro exI [where x = "[]"]) (simp add: eir_generate_uuid128_def uuid128_fields_def add.commute)
  next
    case False
    let ?t = "if tr then EIR_UUID128_SOME else EIR_UUID128_ALL"
    let ?h = "[of_nat (length ?ds * 16) + 1, ?t] :: u8 list"
    have w: "buf_write (?pre @ ?f @ drop (?n + 2 + 16 * length ?ds) R) (8 + ?n) ?h =
        Some (hdr @ tlvs fs @ ?h @ ?f @ drop (?n + 2 + 16 * length ?ds) R)"
      using buf_write_append [of "8 + ?n" "hdr @ tlvs fs" ?h "take 2 (drop ?n R) @ ?f @ drop (?n + 2 + 16 * length ?ds) R"]
        assms by simp
    have "0 < length ?ds \<or> tr" using False by auto
    then have "eir_generate_uuid128 uuids (hdr @ tlvs fs @ drop ?n R) (8 + ?n) (of_nat ?n) =
        Some (hdr @ tlvs (fs @ [(?t, ?f)]) @ drop (length (tlvs (fs @ [(?t, ?f)]))) R, of_nat (length (tlvs (fs @ [(?t, ?f)]))))"
      using loop w by (simp add: eir_generate_uuid128_def tlv_def ac_simps)
    then show ?thesis by (intro exI [where x = "[(?t, ?f)]"]) (cases tr; simp add: uuid128_fields_def)
  qed
qed

lemma oob_base_length:
  assumes "\<forall>h. hash = Some h \<longrightarrow> length h = 16" and "\<forall>r. randomizer = Some r \<longrightarrow> length r = 16"
  shows "length (tlvs (oob_base name cod hash randomizer vendor product version source)) \<le> 101"
proof -
  have o: "length (tlvs (if c then [f] else [])) \<le> length (snd f) + 2" for c and f :: field by simp
  have "length (tlvs (case h of Some v \<Rightarrow> [(t, v)] | None \<Rightarrow> [])) \<le> 18" if "\<forall>v. h = Some v \<longrightarrow> length v = 16" for h t
    using that by (cases h) simp_all
  note this [OF assms(1), of EIR_SSP_HASH] this [OF assms(2), of EIR_SSP_RANDOMIZER]
  then show ?thesis unfolding oob_base_def tlvs_simps length_append
    using o [of "cod > 0" "(EIR_CLASS_OF_DEV, [ucast cod, ucast (drop_bit 8 cod), ucast (drop_bit 16 cod)])"]
      o [of "vendor \<noteq> 0" "(EIR_DEVICE_ID, le16_bytes source @ le16_bytes vendor @ le16_bytes product @ le16_bytes version)"]
    by (simp split del: if_split) (auto split: if_splits)
qed


lemma oob_name_st:
  assumes "length hdr = 8" and "length (tlvs fs) + 50 \<le> length R"
  shows "oob_name name (oob_st hdr R fs) = Some (oob_st hdr R (fs @
    (if name = [] then [] else if length name > 48 then [(EIR_NAME_SHORT, take 48 name)] else [(EIR_NAME_COMPLETE, name)])))"
  using put_field_st [OF assms(1), of fs "take 48 name" R EIR_NAME_SHORT]
    put_field_st [OF assms(1), of fs name R EIR_NAME_COMPLETE] assms(2)
  by (auto simp: oob_name_def)

lemma create_oob_base:
  assumes "length hdr = 8" and "200 \<le> length R"
    and "\<forall>h. hash = Some h \<longrightarrow> length h = 16" and "\<forall>r. randomizer = Some r \<longrightarrow> length r = 16"
  shows "do {
     s \<leftarrow> (if cod > 0 then put_field EIR_CLASS_OF_DEV [ucast cod, ucast (drop_bit 8 cod), ucast (drop_bit 16 cod)] (oob_st hdr R [])
          else Some (oob_st hdr R []));
     s \<leftarrow> (case hash of Some h \<Rightarrow> put_16 EIR_SSP_HASH h s | None \<Rightarrow> Some s);
     s \<leftarrow> (case randomizer of Some r \<Rightarrow> put_16 EIR_SSP_RANDOMIZER r s | None \<Rightarrow> Some s);
     s \<leftarrow> oob_name name s;
     s \<leftarrow> (if vendor \<noteq> 0 then
            put_field EIR_DEVICE_ID (le16_bytes source @ le16_bytes vendor @ le16_bytes product @ le16_bytes version) s
          else Some s);
     k s } = k (oob_st hdr R (oob_base name cod hash randomizer vendor product version source))"
proof -
  define c :: "field list" where "c = (if cod > 0 then [(EIR_CLASS_OF_DEV, [ucast cod, ucast (drop_bit 8 cod), ucast (drop_bit 16 cod)])] else [])"
  define h :: "field list" where "h = (case hash of Some h \<Rightarrow> [(EIR_SSP_HASH, h)] | None \<Rightarrow> [])"
  define r :: "field list" where "r = (case randomizer of Some h \<Rightarrow> [(EIR_SSP_RANDOMIZER, h)] | None \<Rightarrow> [])"
  define n :: "field list" where "n = (if name = [] then [] else if length name > 48 then [(EIR_NAME_SHORT, take 48 name)]
    else [(EIR_NAME_COMPLETE, name)])"
  have len: "length (tlvs c) \<le> 5" "length (tlvs h) \<le> 18" "length (tlvs r) \<le> 18" "length (tlvs n) \<le> 50"
    using assms(3,4) by (auto simp: c_def h_def r_def n_def split: option.split)
  note step = put_field_st [OF assms(1)] put_16_st [OF assms(1)]
  have "(if cod > 0 then put_field EIR_CLASS_OF_DEV [ucast cod, ucast (drop_bit 8 cod), ucast (drop_bit 16 cod)] (oob_st hdr R [])
          else Some (oob_st hdr R [])) = Some (oob_st hdr R c)"
    using assms(2) by (simp add: c_def step)
  moreover have "(case hash of Some h \<Rightarrow> put_16 EIR_SSP_HASH h (oob_st hdr R c) | None \<Rightarrow> Some (oob_st hdr R c)) =
      Some (oob_st hdr R (c @ h))"
    using assms(2,3) len by (cases hash) (simp_all add: h_def step)
  moreover have "(case randomizer of Some v \<Rightarrow> put_16 EIR_SSP_RANDOMIZER v (oob_st hdr R (c @ h)) | None \<Rightarrow> Some (oob_st hdr R (c @ h))) =
      Some (oob_st hdr R (c @ h @ r))"
    using assms(2,4) len by (cases randomizer) (simp_all add: r_def step)
  moreover have "oob_name name (oob_st hdr R (c @ h @ r)) = Some (oob_st hdr R (c @ h @ r @ n))"
    using assms(2) len by (subst oob_name_st [OF assms(1)]) (simp_all add: n_def)
  moreover have "(if vendor \<noteq> 0 then
            put_field EIR_DEVICE_ID (le16_bytes source @ le16_bytes vendor @ le16_bytes product @ le16_bytes version) (oob_st hdr R (c @ h @ r @ n))
          else Some (oob_st hdr R (c @ h @ r @ n))) =
      Some (oob_st hdr R (oob_base name cod hash randomizer vendor product version source))"
    using assms(2) len by (simp add: step oob_base_def c_def [symmetric] h_def [symmetric] r_def [symmetric] n_def [symmetric])
  ultimately show ?thesis using len by simp
qed


definition oob_uuids16 :: "field list \<Rightarrow> uuid_t list \<Rightarrow> u8 \<Rightarrow> field list" where
  "oob_uuids16 base uuids t = base @ uuid16_fields t (room16 base uuids)"

lemma uuid16_fields_length: "length (tlvs (uuid16_fields t us)) = (if us = [] then 0 else 2 * length us + 2)"
  by (simp add: uuid16_fields_def)

lemma uuids16_type: "length (tlvs (oob_uuids16 base uuids t)) = length (tlvs (oob_uuids16 base uuids t'))"
  by (simp add: oob_uuids16_def uuid16_fields_length)

lemma create_oob_block:
  fixes name cod vendor product version source
  assumes "length addr = 6" and "248 \<le> length data"
    and "\<forall>h. hash = Some h \<longrightarrow> length h = 16" and "\<forall>r. randomizer = Some r \<longrightarrow> length r = 16"
    and "\<forall>d\<in>set (uuids128 uuids). length d = 16"
  defines "base \<equiv> oob_base name cod hash randomizer vendor product version source"
  defines "us \<equiv> room16 base uuids"
  defines "ds \<equiv> room128 (oob_uuids16 base uuids EIR_UUID16_ALL) uuids"
  shows "\<exists>t\<in>{EIR_UUID16_SOME, EIR_UUID16_ALL}. \<exists>gs. uuid128_fields gs ds \<and>
    (let fs = base @ uuid16_fields t us @ gs; n = of_nat (8 + length (tlvs fs))
     in length (tlvs fs) \<le> 240 \<and>
        eir_create_oob addr name cod hash randomizer vendor product version source uuids data =
          Some (n, le16_bytes n @ addr @ tlvs fs @ drop (8 + length (tlvs fs)) data))"
proof -
  let ?hdr = "take 2 data @ addr" and ?R = "drop 8 data"
  have hdr: "length ?hdr = 8" "240 \<le> length ?R" using assms(1,2) by simp_all
  have "buf_write data 2 addr = Some (?hdr @ ?R)" using assms(1,2) by (simp add: buf_write_def)
  then have b: "buf_write data 2 addr = Some (fst (oob_st ?hdr ?R []))" "oob_st ?hdr ?R [] = (?hdr @ ?R, 8, 0)"
    by (simp_all add: oob_st_def)
  have addr: "buf_read addr 0 6 = Some addr" using assms(1) by (simp add: buf_read_def)
  have len: "length (tlvs base) \<le> 101" unfolding base_def by (rule oob_base_length [OF assms(3,4)])
  then obtain t where t: "t \<in> {EIR_UUID16_SOME, EIR_UUID16_ALL}"
    "oob_uuid16 uuids (oob_st ?hdr ?R base) = Some (oob_st ?hdr ?R (oob_uuids16 base uuids t))"
    using oob_uuid16_st [OF hdr(1), of base ?R uuids] hdr(2) by (auto simp: oob_uuids16_def)
  let ?f2 = "oob_uuids16 base uuids t"
  have ds: "ds = room128 ?f2 uuids" unfolding ds_def room128_def by (simp only: uuids16_type [of _ _ EIR_UUID16_ALL t])
  have l2: "length (tlvs ?f2) \<le> 240" using room16_length [of base uuids] len
    by (simp add: oob_uuids16_def uuid16_fields_length)
  have n2: "unat (of_nat (length (tlvs ?f2)) :: u16) = length (tlvs ?f2)" using l2 by (intro unat_of_nat_small) simp
  obtain gs where gs: "uuid128_fields gs ds" "length (tlvs (?f2 @ gs)) \<le> 240"
    "(if length (tlvs ?f2) \<le> HCI_MAX_EIR_LENGTH - 2
      then eir_generate_uuid128 uuids (?hdr @ tlvs ?f2 @ drop (length (tlvs ?f2)) ?R) (8 + length (tlvs ?f2)) (of_nat (length (tlvs ?f2)))
      else Some (?hdr @ tlvs ?f2 @ drop (length (tlvs ?f2)) ?R, of_nat (length (tlvs ?f2)))) =
     Some (?hdr @ tlvs (?f2 @ gs) @ drop (length (tlvs (?f2 @ gs))) ?R, of_nat (length (tlvs (?f2 @ gs))))"
  proof (cases "length (tlvs ?f2) \<le> 238")
    case True
    moreover have "length (tlvs (?f2 @ gs)) \<le> 240" if "uuid128_fields gs ds" for gs
      using that room128_length [OF True, of uuids] True by (auto simp: uuid128_fields_def ds)
    ultimately show ?thesis using that eir_generate_uuid128_st [OF hdr(1) True hdr(2) assms(5)]
      unfolding ds by (auto simp: HCI_MAX_EIR_LENGTH_def)
  next
    case False
    then have "ds = []" unfolding ds by (simp add: room128_def firsts_nil)
    then show ?thesis using that [of "[]"] False l2 by (simp add: uuid128_fields_def HCI_MAX_EIR_LENGTH_def)
  qed
  let ?fs = "?f2 @ gs" and ?n = "of_nat (8 + length (tlvs (?f2 @ gs))) :: u16"
  have "eir_create_oob addr name cod hash randomizer vendor product version source uuids data =
      Option.bind (buf_write (?hdr @ tlvs ?fs @ drop (length (tlvs ?fs)) ?R) 0 (le16_bytes ?n)) (\<lambda>b. Some (?n, b))"
  proof -
    have l: "do { b \<leftarrow> buf_write data 2 addr; s \<leftarrow> Some (b, 8, 0); k s } = k (oob_st ?hdr ?R [])"
      for k :: "_ \<Rightarrow> (u16 \<times> u8 list) option"
      by (simp add: b(1)) (simp add: b(2))
    have gs3: "(if unat (of_nat (length (tlvs ?f2)) :: u16) \<le> HCI_MAX_EIR_LENGTH - 2
      then eir_generate_uuid128 uuids (?hdr @ tlvs ?f2 @ drop (length (tlvs ?f2)) ?R) (8 + length (tlvs ?f2)) (of_nat (length (tlvs ?f2)))
      else Some (?hdr @ tlvs ?f2 @ drop (length (tlvs ?f2)) ?R, of_nat (length (tlvs ?f2)))) =
     Some (?hdr @ tlvs ?fs @ drop (length (tlvs ?fs)) ?R, of_nat (length (tlvs ?fs)))"
      unfolding n2 by (rule gs(3))
    have total: "2 + 6 + of_nat (length (tlvs ?fs)) = ?n" by simp
    show ?thesis
      unfolding eir_create_oob_def addr bind.bind_lunit [where x = addr] l
      unfolding create_oob_base [OF hdr(1) order.trans [OF _ hdr(2)] assms(3,4), simplified] base_def [symmetric]
      unfolding t(2) oob_st_def [of ?hdr ?R ?f2] bind.bind_lunit prod.case gs3 Let_def total ..
  qed
  also have "buf_write (?hdr @ tlvs ?fs @ drop (length (tlvs ?fs)) ?R) 0 (le16_bytes ?n) =
      Some (le16_bytes ?n @ addr @ tlvs ?fs @ drop (8 + length (tlvs ?fs)) data)"
    using assms(1,2) by (simp add: buf_write_0 add.commute)
  finally show ?thesis using t(1) gs(1,2) by (auto simp: oob_uuids16_def us_def Let_def)
qed


section \<open>Reading the block\<close>

text \<open>The name as the parser keeps it: unchanged when it is UTF-8, otherwise with spaces for what is not ASCII.\<close>

definition shown_name :: "(u8 list \<Rightarrow> bool) \<Rightarrow> (u8 list \<Rightarrow> u8 list) \<Rightarrow> u8 list \<Rightarrow> u8 list" where
  "shown_name utf8 strip t = (if utf8 t then t else strip (map (\<lambda>c. if 0x80 \<le> c then 0x20 else c) t))"

lemma eir_name_text:
  assumes "0 \<notin> set v" and "length v \<le> 249"
  shows "eir_name u s t v (of_nat (length v)) e =
    Some (e\<lparr>ed_name := Some (shown_name u s v), ed_name_complete := (t = EIR_NAME_COMPLETE)\<rparr>)"
proof -
  have n: "unat (of_nat (length v) :: u8) = length v" using assms(2) by (intro unat_of_nat_small) simp
  have str: "c_string (v @ replicate k 0) = v" for k
    using assms(1) by (simp add: c_string_def takeWhile_append takeWhile_eq_all_conv)
  have "name2utf8 u s v (of_nat (length v)) = Some (shown_name u s v)"
    using assms(2) n str [of 0] str [of "250 - length v"]
    by (simp add: name2utf8_def shown_name_def buf_read_def buf_write_0 HCI_MAX_NAME_LENGTH_def)
  then show ?thesis using name_len_full [OF assms(1)] n by (simp add: eir_name_def)
qed

definition text16 :: "u16 \<Rightarrow> string" where
  "text16 v = uuid128_text (sdp_uuid16_to_uuid128 v)"

definition text32 :: "u32 \<Rightarrow> string" where
  "text32 v = uuid128_text (sdp_uuid32_to_uuid128 v)"

definition add_services :: "string list \<Rightarrow> eir_data \<Rightarrow> eir_data" where
  "add_services ts e = e\<lparr>ed_services := ed_services e @ ts\<rparr>"

lemma add_services_simps [simp]:
  "add_services [] e = e" "add_services ts (add_services ss e) = add_services (ss @ ts) e"
  by (simp_all add: add_services_def)

lemma add_service_texts:
  "add_service (SDP_UUID16 v) e = add_services [text16 v] e"
  "add_service (SDP_UUID32 w) e = add_services [text32 w] e"
  "add_service (SDP_UUID128 d) e = add_services [uuid128_text d] e"
  by (simp_all add: add_service_def add_services_def text16_def text32_def)

lemma le16_at_bytes [simp]: "le16_at (le16_bytes v @ r) 0 = Some v"
  by (simp add: le16_at_def buf_get_def nth_append le16_bytes_def)

lemma uuid16_loop_bytes:
  "uuid16_loop (length us) (concat (map le16_bytes us)) e = Some (add_services (map text16 us) e)"
  by (induction us arbitrary: e) (simp_all add: add_service_texts)

lemma uuid128_loop_bytes:
  "\<forall>d\<in>set ds. length d = 16 \<Longrightarrow>
   uuid128_loop (length ds) (concat (map le128 ds)) e = Some (add_services (map uuid128_text ds) e)"
  by (induction ds arbitrary: e) (simp_all add: add_service_texts rev16_le128)

lemma uuid16_fields_seen:
  assumes "t \<in> {EIR_UUID16_SOME, EIR_UUID16_ALL}" and "length us \<le> 120"
  shows "eir_fields u s (uuid16_fields t us) e = Some (add_services (map text16 us) e)"
proof (cases "us = []")
  case False
  have "unat (of_nat (2 * length us) :: u8) div 2 = length us"
    using assms(2) unat_of_nat_small [of "2 * length us", where 'a = 8] by simp
  then show ?thesis using False assms(1) uuid16_loop_bytes [of us e]
    by (simp add: uuid16_fields_def eir_field_def eir_parse_uuid16_def)
qed (simp add: uuid16_fields_def)

lemma uuid128_fields_seen:
  assumes "uuid128_fields gs ds" and "length ds \<le> 15" and "\<forall>d\<in>set ds. length d = 16"
  shows "eir_fields u s gs e = Some (add_services (map uuid128_text ds) e)"
proof (cases "gs = []")
  case True
  then show ?thesis using assms(1) by (auto simp: uuid128_fields_def)
next
  case False
  then obtain t where t: "t \<in> {EIR_UUID128_SOME, EIR_UUID128_ALL}" "gs = [(t, concat (map le128 ds))]"
    using assms(1) by (auto simp: uuid128_fields_def)
  have "unat (of_nat (16 * length ds) :: u8) div 16 = length ds"
    using assms(2) unat_of_nat_small [of "16 * length ds", where 'a = 8] by simp
  moreover have "t \<noteq> EIR_UUID16_SOME \<and> t \<noteq> EIR_UUID16_ALL \<and> t \<noteq> EIR_UUID32_SOME \<and> t \<noteq> EIR_UUID32_ALL" using t(1) by auto
  ultimately show ?thesis using t uuid128_loop_bytes [OF assms(3), of e]
    by (auto simp: eir_field_def eir_parse_uuid128_def)
qed

text \<open>What the fields before the UUIDs change.\<close>

definition oob_seen :: "(u8 list \<Rightarrow> bool) \<Rightarrow> (u8 list \<Rightarrow> u8 list) \<Rightarrow> u8 list \<Rightarrow> u32 \<Rightarrow> u8 list option \<Rightarrow> u8 list option \<Rightarrow>
    u16 \<Rightarrow> u16 \<Rightarrow> u16 \<Rightarrow> u16 \<Rightarrow> eir_data \<Rightarrow> eir_data" where
  "oob_seen u s name cod hash randomizer vendor product version source e =
     (let e = (if cod > 0 then e\<lparr>ed_class := cod AND 0xFFFFFF\<rparr> else e);
          e = (if hash \<noteq> None then e\<lparr>ed_hash := hash\<rparr> else e);
          e = (if randomizer \<noteq> None then e\<lparr>ed_randomizer := randomizer\<rparr> else e);
          e = (if name \<noteq> [] then e\<lparr>ed_name := Some (shown_name u s (take 48 name)), ed_name_complete := (length name \<le> 48)\<rparr> else e)
      in if vendor \<noteq> 0 then e\<lparr>ed_did_source := source, ed_did_vendor := vendor, ed_did_product := product, ed_did_version := version\<rparr>
         else e)"

lemma class_val_bytes: "class_val (ucast cod) (ucast (drop_bit 8 cod)) (ucast (drop_bit 16 cod)) = cod AND 0xFFFFFF"
proof -
  have m: "(0xFFFFFF :: u32) = mask 24" by (simp add: mask_eq_exp_minus_1)
  have "bit (class_val (ucast cod) (ucast (drop_bit 8 cod)) (ucast (drop_bit 16 cod))) n \<longleftrightarrow> bit cod n \<and> n < 24"
    if "n < 32" for n
  proof -
    consider "n < 8" | "8 \<le> n \<and> n < 16" | "16 \<le> n \<and> n < 24" | "24 \<le> n" by fastforce
    then show ?thesis by cases (use that in \<open>auto simp: class_val_def bit_simps\<close>)
  qed
  then show ?thesis unfolding m by (intro bit_word_eqI) (auto simp: bit_simps)
qed

lemma device_id_bytes:
  "eir_device_id (le16_bytes a @ le16_bytes b @ le16_bytes c @ le16_bytes d) e =
   Some (e\<lparr>ed_did_source := a, ed_did_vendor := b, ed_did_product := c, ed_did_version := d\<rparr>)"
  by (simp add: eir_device_id_def le16_at_def le16_bytes_def buf_simps)

lemma oob_base_seen:
  assumes "0 \<notin> set name"
    and "\<forall>h. hash = Some h \<longrightarrow> length h = 16" and "\<forall>r. randomizer = Some r \<longrightarrow> length r = 16"
  shows "eir_fields u s (oob_base name cod hash randomizer vendor product version source) e =
    Some (oob_seen u s name cod hash randomizer vendor product version source e)"
proof -
  have c: "eir_fields u s (if cod > 0 then [(EIR_CLASS_OF_DEV, [ucast cod, ucast (drop_bit 8 cod), ucast (drop_bit 16 cod)])] else []) e =
      Some (if cod > 0 then e\<lparr>ed_class := cod AND 0xFFFFFF\<rparr> else e)" for e
    by (simp add: eir_field_def buf_simps class_val_bytes)
  have h: "eir_fields u s (case hash of Some h \<Rightarrow> [(EIR_SSP_HASH, h)] | None \<Rightarrow> []) e =
      Some (if hash \<noteq> None then e\<lparr>ed_hash := hash\<rparr> else e)" for e
    using assms(2) by (cases hash) (simp_all add: eir_field_def buf_read_def)
  have r: "eir_fields u s (case randomizer of Some h \<Rightarrow> [(EIR_SSP_RANDOMIZER, h)] | None \<Rightarrow> []) e =
      Some (if randomizer \<noteq> None then e\<lparr>ed_randomizer := randomizer\<rparr> else e)" for e
    using assms(3) by (cases randomizer) (simp_all add: eir_field_def buf_read_def)
  have "0 \<notin> set (take 48 name)" using assms(1) by (meson in_set_takeD)
  then have n: "eir_fields u s (if name = [] then [] else if length name > 48 then [(EIR_NAME_SHORT, take 48 name)]
      else [(EIR_NAME_COMPLETE, name)]) e =
      Some (if name \<noteq> [] then e\<lparr>ed_name := Some (shown_name u s (take 48 name)), ed_name_complete := (length name \<le> 48)\<rparr> else e)" for e
    using eir_name_text [of "take 48 name" u s EIR_NAME_SHORT e] eir_name_text [of name u s EIR_NAME_COMPLETE e] assms(1)
    by (auto simp: eir_field_def)
  have d: "eir_fields u s (if vendor \<noteq> 0 then
        [(EIR_DEVICE_ID, le16_bytes source @ le16_bytes vendor @ le16_bytes product @ le16_bytes version)] else []) e =
      Some (if vendor \<noteq> 0 then e\<lparr>ed_did_source := source, ed_did_vendor := vendor, ed_did_product := product,
        ed_did_version := version\<rparr> else e)" for e
    by (simp add: eir_field_def device_id_bytes)
  show ?thesis unfolding oob_base_def eir_fields_append c h r n d bind.bind_lunit by (simp only: oob_seen_def Let_def)
qed


lemma parse_oob_block:
  assumes "length addr = 6" and "length (tlvs fs) \<le> 240"
  shows "eir_parse_oob u s eir (le16_bytes (of_nat (8 + length (tlvs fs))) @ addr @ tlvs fs @ rest) (of_nat (8 + length (tlvs fs))) =
    (if fs = [] then Some (0, eir\<lparr>ed_addr := addr\<rparr>)
     else map_option (Pair 0) (eir_fields u s fs (eir_init (eir\<lparr>ed_addr := addr\<rparr>))))"
proof -
  let ?l = "length (tlvs fs)"
  let ?n = "of_nat (8 + ?l) :: u16" and ?b = "le16_bytes (of_nat (8 + ?l)) @ addr @ tlvs fs @ rest"
  have n: "unat ?n = 8 + ?l" using assms(2) by (intro unat_of_nat_small) simp
  have min: "\<not> ?n < EIR_OOB_MIN" unfolding word_less_nat_alt n by (simp add: EIR_OOB_MIN_def)
  have l: "?n - 2 - 6 = of_nat ?l" by simp
  have zero: "(of_nat ?l :: u16) > 0 \<longleftrightarrow> fs \<noteq> []"
    using assms(2) by (cases fs) (simp_all add: word_less_nat_alt unat_of_nat_small del: of_nat_Suc of_nat_add)
  have u: "ucast (of_nat ?l :: u16) = (of_nat ?l :: u8)"
    using assms(2) by (intro word_unat_eq_iff [THEN iffD2]) (simp add: unsigned_ucast_eq unat_of_nat_small take_bit_nat_eq_self)
  have addr: "buf_read ?b 2 6 = Some addr" "drop 8 ?b = tlvs fs @ rest" using assms(1) by (simp_all add: buf_read_def)
  have "length (snd f) \<le> 254" if "f \<in> set fs" for f
  proof -
    from that obtain xs ys where "fs = xs @ f # ys" by (meson split_list)
    then show ?thesis using assms(2) by simp
  qed
  moreover have "unat (of_nat ?l :: u8) = ?l" using assms(2) by (intro unat_of_nat_small) simp
  ultimately have "eir_parse u s e (Some (tlvs fs @ rest)) (of_nat ?l) = eir_fields u s fs (eir_init e)" for e
    by (intro eir_parse_tlvs) auto
  then show ?thesis
    unfolding eir_parse_oob_def Let_def addr le16_at_bytes l u zero using min by (simp add: map_option_case split: option.split)
qed

text \<open>
  C24: An out-of-band block has at most 248 bytes, nothing is written behind it, and the parser reads back from it
  the address, the class, the hash and the randomizer, the name (its first 48 bytes), the device identification
  and, as texts, the different UUIDs of 16 and of 128 bits in the order of the records, as many as have room.
\<close>

theorem oob_roundtrip:
  assumes "length addr = 6" and "248 \<le> length data" and "0 \<notin> set name"
    and "\<forall>h. hash = Some h \<longrightarrow> length h = 16" and "\<forall>r. randomizer = Some r \<longrightarrow> length r = 16"
    and "\<forall>d\<in>set (uuids128 uuids). length d = 16"
  shows "\<exists>n block e. eir_create_oob addr name cod hash randomizer vendor product version source uuids data = Some (n, block) \<and>
    unat n \<le> 248 \<and> drop (unat n) block = drop (unat n) data \<and>
    eir_parse_oob utf8 strip eir block n = Some (0, e) \<and> ed_addr e = addr \<and>
    ed_class e = (if cod > 0 then cod AND 0xFFFFFF else ed_class eir) \<and>
    ed_hash e = (if hash \<noteq> None then hash else ed_hash eir) \<and>
    ed_randomizer e = (if randomizer \<noteq> None then randomizer else ed_randomizer eir) \<and>
    (name \<noteq> [] \<longrightarrow> ed_name e = Some (shown_name utf8 strip (take 48 name)) \<and> ed_name_complete e = (length name \<le> 48)) \<and>
    (vendor \<noteq> 0 \<longrightarrow> ed_did_source e = source \<and> ed_did_vendor e = vendor \<and> ed_did_product e = product \<and> ed_did_version e = version) \<and>
    (let base = oob_base name cod hash randomizer vendor product version source
     in ed_services e = ed_services eir @ map text16 (room16 base uuids) @
          map uuid128_text (room128 (oob_uuids16 base uuids EIR_UUID16_ALL) uuids))"
proof -
  let ?base = "oob_base name cod hash randomizer vendor product version source"
  let ?us = "room16 ?base uuids" and ?ds = "room128 (oob_uuids16 ?base uuids EIR_UUID16_ALL) uuids"
  obtain t gs where t: "t \<in> {EIR_UUID16_SOME, EIR_UUID16_ALL}" and gs: "uuid128_fields gs ?ds"
    and len: "length (tlvs (?base @ uuid16_fields t ?us @ gs)) \<le> 240"
    and block: "eir_create_oob addr name cod hash randomizer vendor product version source uuids data =
      Some (of_nat (8 + length (tlvs (?base @ uuid16_fields t ?us @ gs))),
        le16_bytes (of_nat (8 + length (tlvs (?base @ uuid16_fields t ?us @ gs)))) @ addr @
        tlvs (?base @ uuid16_fields t ?us @ gs) @ drop (8 + length (tlvs (?base @ uuid16_fields t ?us @ gs))) data)"
    using create_oob_block [OF assms(1,2,4,5,6), of name cod vendor product version source] unfolding Let_def by blast
  define fs where "fs = ?base @ uuid16_fields t ?us @ gs"
  note len = len [folded fs_def] and block = block [folded fs_def]
  have us: "length ?us \<le> 120" and ds: "length ?ds \<le> 15"
    by (rule room16_count, rule room128_count)
  have ds16: "\<forall>d\<in>set ?ds. length d = 16"
    using firsts_set [of "(238 - length (tlvs (oob_uuids16 ?base uuids EIR_UUID16_ALL))) div 16" "[]" "uuids128 uuids"] assms(6)
    unfolding room128_def by auto
  have seen: "eir_fields utf8 strip fs e = Some (add_services (map text16 ?us @ map uuid128_text ?ds)
      (oob_seen utf8 strip name cod hash randomizer vendor product version source e))" for e
    unfolding fs_def eir_fields_append oob_base_seen [OF assms(3-5)] bind.bind_lunit uuid16_fields_seen [OF t us]
      uuid128_fields_seen [OF gs ds ds16] by simp
  let ?seen = "\<lambda>e. add_services (map text16 ?us @ map uuid128_text ?ds)
    (oob_seen utf8 strip name cod hash randomizer vendor product version source e)"
  obtain e0 where e0: "e0 = eir\<lparr>ed_addr := addr\<rparr> \<or> e0 = eir_init (eir\<lparr>ed_addr := addr\<rparr>)"
    and parse: "eir_parse_oob utf8 strip eir (le16_bytes (of_nat (8 + length (tlvs fs))) @ addr @ tlvs fs @ rest)
      (of_nat (8 + length (tlvs fs))) = Some (0, ?seen e0)" for rest
  proof (cases "fs = []")
    case True
    then have "?seen e = e" for e using seen [of e] by simp
    then show ?thesis using that [of "eir\<lparr>ed_addr := addr\<rparr>"] parse_oob_block [OF assms(1) len] True by simp
  next
    case False
    then show ?thesis using that [of "eir_init (eir\<lparr>ed_addr := addr\<rparr>)"] parse_oob_block [OF assms(1) len] seen by simp
  qed
  have n: "unat (of_nat (8 + length (tlvs fs)) :: u16) = 8 + length (tlvs fs)" using len by (intro unat_of_nat_small) simp
  show ?thesis
    by (rule exI, rule exI, rule exI [where x = "?seen e0"], intro conjI, rule block, unfold n)
      (use e0 len assms(1) parse in \<open>auto simp: oob_seen_def add_services_def eir_init_def Let_def\<close>)
qed


theorem oob_roundtrip_witness:
  "\<forall>eir. \<exists>n block e.
     eir_create_oob (replicate 6 1) [0x41] 0x5A020C (Some (replicate 16 7)) None 0 0 0 0
       [SDP_UUID16 0x110A, SDP_UUID16 0x110A, SDP_UUID128 (replicate 16 3)] (replicate 248 0) = Some (n, block) \<and>
     unat n \<le> 248 \<and> eir_parse_oob (\<lambda>_. True) id eir block n = Some (0, e) \<and>
     ed_class e = 0x5A020C \<and> ed_hash e = Some (replicate 16 7) \<and> ed_name e = Some [0x41] \<and>
     ed_services e = ed_services eir @ [text16 0x110A, uuid128_text (replicate 16 3)]"
proof
  fix eir
  show "\<exists>n block e.
     eir_create_oob (replicate 6 1) [0x41] 0x5A020C (Some (replicate 16 7)) None 0 0 0 0
       [SDP_UUID16 0x110A, SDP_UUID16 0x110A, SDP_UUID128 (replicate 16 3)] (replicate 248 0) = Some (n, block) \<and>
     unat n \<le> 248 \<and> eir_parse_oob (\<lambda>_. True) id eir block n = Some (0, e) \<and>
     ed_class e = 0x5A020C \<and> ed_hash e = Some (replicate 16 7) \<and> ed_name e = Some [0x41] \<and>
     ed_services e = ed_services eir @ [text16 0x110A, uuid128_text (replicate 16 3)]"
    using oob_roundtrip [of "replicate 6 1" "replicate 248 0" "[0x41]" "Some (replicate 16 7)" None
        "[SDP_UUID16 0x110A, SDP_UUID16 0x110A, SDP_UUID128 (replicate 16 3)]" "0x5A020C" 0 0 0 0 "\<lambda>_. True" id eir]
    by (simp add: shown_name_def room16_def room128_def oob_base_def oob_uuids16_def uuid16_fields_def
        PNP_INFO_SVCLASS_ID_def Let_def) blast
qed

end
