(* ===== verification/Shared_Ad.thy ===== *)
theory Shared_Ad
  imports Bt_Uuid
begin

text \<open>
  Advertising data under construction, \<open>src/shared/ad.c\<close>: the object with its queues and the serialisers that
  fill the 31 bytes of a packet. A queue (\<open>Shared_Queue\<close>) is the list of its data and memory is always there; the
  sums of lengths do not overflow, as they count bytes in memory. The value \<^const>\<open>None\<close> of an operation is
  undefined behaviour: an access outside a buffer, a comparison with a UUID that was never set, or the use of a
  number as a pointer.
\<close>

section \<open>Constants and data\<close>

abbreviation BT_AD_FLAGS :: u8 where "BT_AD_FLAGS \<equiv> 0x01"
abbreviation BT_AD_UUID16_ALL :: u8 where "BT_AD_UUID16_ALL \<equiv> 0x03"
abbreviation BT_AD_UUID32_ALL :: u8 where "BT_AD_UUID32_ALL \<equiv> 0x05"
abbreviation BT_AD_UUID128_ALL :: u8 where "BT_AD_UUID128_ALL \<equiv> 0x07"
abbreviation BT_AD_NAME_SHORT :: u8 where "BT_AD_NAME_SHORT \<equiv> 0x08"
abbreviation BT_AD_NAME_COMPLETE :: u8 where "BT_AD_NAME_COMPLETE \<equiv> 0x09"
abbreviation BT_AD_SOLICIT16 :: u8 where "BT_AD_SOLICIT16 \<equiv> 0x14"
abbreviation BT_AD_SOLICIT128 :: u8 where "BT_AD_SOLICIT128 \<equiv> 0x15"
abbreviation BT_AD_SERVICE_DATA16 :: u8 where "BT_AD_SERVICE_DATA16 \<equiv> 0x16"
abbreviation BT_AD_GAP_APPEARANCE :: u8 where "BT_AD_GAP_APPEARANCE \<equiv> 0x19"
abbreviation BT_AD_SOLICIT32 :: u8 where "BT_AD_SOLICIT32 \<equiv> 0x1f"
abbreviation BT_AD_SERVICE_DATA32 :: u8 where "BT_AD_SERVICE_DATA32 \<equiv> 0x20"
abbreviation BT_AD_SERVICE_DATA128 :: u8 where "BT_AD_SERVICE_DATA128 \<equiv> 0x21"
abbreviation BT_AD_MANUFACTURER_DATA :: u8 where "BT_AD_MANUFACTURER_DATA \<equiv> 0xff"
abbreviation UINT16_MAX :: u16 where "UINT16_MAX \<equiv> 0xffff"

definition MAX_ADV_DATA_LEN :: nat where
  "MAX_ADV_DATA_LEN = 31"

text \<open>The field \<open>len\<close> of the entries is the length of their data.\<close>

record bt_ad_manufacturer_data =
  bm_id :: u16
  bm_data :: "u8 list"

record bt_ad_service_data =
  bs_uuid :: bt_uuid
  bs_data :: "u8 list"

record bt_ad_data =
  bd_type :: u8
  bd_data :: "u8 list"

record bt_ad =
  ba_ref_count :: int
  ba_name :: "u8 list option"
  ba_appearance :: u16
  ba_service_uuids :: "bt_uuid list"
  ba_manufacturer_data :: "bt_ad_manufacturer_data list"
  ba_solicit_uuids :: "bt_uuid list"
  ba_service_data :: "bt_ad_service_data list"
  ba_data :: "bt_ad_data list"

section \<open>Life\<close>

fun bt_ad_ref :: "bt_ad option \<Rightarrow> bt_ad option" where
  "bt_ad_ref None = None"
| "bt_ad_ref (Some ad) = Some (ad\<lparr>ba_ref_count := ba_ref_count ad + 1\<rparr>)"

definition bt_ad_new :: "bt_ad option" where
  "bt_ad_new = bt_ad_ref (Some \<lparr>ba_ref_count = 0, ba_name = None, ba_appearance = UINT16_MAX, ba_service_uuids = [],
     ba_manufacturer_data = [], ba_solicit_uuids = [], ba_service_data = [], ba_data = []\<rparr>)"

text \<open>The last reference releases the object: there is none any more.\<close>

fun bt_ad_unref :: "bt_ad option \<Rightarrow> bt_ad option" where
  "bt_ad_unref None = None"
| "bt_ad_unref (Some ad) =
     (let n = ba_ref_count ad - 1 in if n \<noteq> 0 then Some (ad\<lparr>ba_ref_count := n\<rparr>) else None)"

text \<open>The test for \<open>NULL\<close> that every operation starts with, with what it answers then.\<close>

fun on_ad :: "'r \<Rightarrow> (bt_ad \<Rightarrow> ('r \<times> bt_ad) option) \<Rightarrow> bt_ad option \<Rightarrow> ('r \<times> bt_ad option) option" where
  "on_ad r f None = Some (r, None)"
| "on_ad r f (Some ad) = map_option (\<lambda>(x, ad). (x, Some ad)) (f ad)"

section \<open>Searching the queues\<close>

text \<open>The place of the first entry that the function of a search accepts; the function may read what is not set.\<close>

fun queue_index :: "('a \<Rightarrow> bool option) \<Rightarrow> 'a list \<Rightarrow> nat option option" where
  "queue_index f [] = Some None"
| "queue_index f (x # xs) =
     (case f x of
        None \<Rightarrow> None
      | Some True \<Rightarrow> Some (Some 0)
      | Some False \<Rightarrow> map_option (map_option Suc) (queue_index f xs))"

definition remove_nth :: "nat \<Rightarrow> 'a list \<Rightarrow> 'a list" where
  "remove_nth i xs = take i xs @ drop (Suc i) xs"

definition queue_remove_if :: "('a \<Rightarrow> bool option) \<Rightarrow> 'a list \<Rightarrow> (bool \<times> 'a list) option" where
  "queue_remove_if f xs = do {
     i \<leftarrow> queue_index f xs;
     Some (case i of None \<Rightarrow> (False, xs) | Some i \<Rightarrow> (True, remove_nth i xs)) }"

text \<open>
  \<open>bt_uuid_cmp\<close> as a truth value, and negated. In \<open>uuid_data_match\<close> the two parameters are exchanged, but both
  structures start with the UUID.
\<close>

definition uuid_match :: "bt_uuid \<Rightarrow> bt_uuid \<Rightarrow> bool option" where
  "uuid_match data elem = map_option (\<lambda>c. c \<noteq> 0) (bt_uuid_cmp data elem)"

definition service_uuid_match :: "bt_ad_service_data \<Rightarrow> bt_uuid \<Rightarrow> bool option" where
  "service_uuid_match data uuid = map_option (\<lambda>c. c = 0) (bt_uuid_cmp (bs_uuid data) uuid)"

definition uuid_data_match :: "bt_ad_service_data \<Rightarrow> bt_uuid \<Rightarrow> bool option" where
  "uuid_data_match data elem = map_option (\<lambda>c. c = 0) (bt_uuid_cmp elem (bs_uuid data))"

definition data_type_match :: "bt_ad_data \<Rightarrow> u8 \<Rightarrow> bool option" where
  "data_type_match a type = Some (bd_type a = type)"

definition manufacturer_id_data_match :: "bt_ad_manufacturer_data \<Rightarrow> u16 \<Rightarrow> bool option" where
  "manufacturer_id_data_match m manuf_id = Some (bm_id m = manuf_id)"

text \<open>The second parameter is the number, which the code follows as the address of an entry.\<close>

definition manuf_match :: "bt_ad_manufacturer_data \<Rightarrow> u16 \<Rightarrow> bool option" where
  "manuf_match data elem = None"

definition manufacturer_data_match :: "bt_ad_manufacturer_data \<Rightarrow> bt_ad_manufacturer_data \<Rightarrow> bool option" where
  "manufacturer_data_match m1 m2 =
     Some (if bm_id m1 \<noteq> bm_id m2 then False
           else if length (bm_data m1) \<noteq> length (bm_data m2) then False
           else memcmp (bm_data m1) (bm_data m2) = 0)"

definition service_data_match :: "bt_ad_service_data \<Rightarrow> bt_ad_service_data \<Rightarrow> bool option" where
  "service_data_match s1 s2 = do {
     c \<leftarrow> bt_uuid_cmp (bs_uuid s1) (bs_uuid s2);
     Some (if c \<noteq> 0 then False
           else if length (bs_data s1) \<noteq> length (bs_data s2) then False
           else memcmp (bs_data s1) (bs_data s2) = 0) }"

definition data_match :: "bt_ad_data \<Rightarrow> bt_ad_data \<Rightarrow> bool option" where
  "data_match d1 d2 =
     Some (if bd_type d1 \<noteq> bd_type d2 then False
           else if length (bd_data d1) \<noteq> length (bd_data d2) then False
           else memcmp (bd_data d1) (bd_data d2) = 0)"

section \<open>UUIDs\<close>

definition queue_add_uuid :: "bt_uuid list \<Rightarrow> bt_uuid \<Rightarrow> bool \<times> bt_uuid list" where
  "queue_add_uuid q uuid = (True, q @ [uuid])"

definition queue_remove_uuid :: "bt_uuid list \<Rightarrow> bt_uuid option \<Rightarrow> (bool \<times> bt_uuid list) option" where
  "queue_remove_uuid q uuid =
     (case uuid of None \<Rightarrow> Some (False, q) | Some uuid \<Rightarrow> queue_remove_if (\<lambda>data. uuid_match data uuid) q)"

definition bt_ad_add_service_uuid :: "bt_ad option \<Rightarrow> bt_uuid \<Rightarrow> (bool \<times> bt_ad option) option" where
  "bt_ad_add_service_uuid ad uuid = on_ad False (\<lambda>ad.
     let (r, q) = queue_add_uuid (ba_service_uuids ad) uuid in Some (r, ad\<lparr>ba_service_uuids := q\<rparr>)) ad"

definition bt_ad_remove_service_uuid :: "bt_ad option \<Rightarrow> bt_uuid option \<Rightarrow> (bool \<times> bt_ad option) option" where
  "bt_ad_remove_service_uuid ad uuid = on_ad False (\<lambda>ad. do {
     (r, q) \<leftarrow> queue_remove_uuid (ba_service_uuids ad) uuid;
     Some (r, ad\<lparr>ba_service_uuids := q\<rparr>) }) ad"

definition bt_ad_clear_service_uuid :: "bt_ad option \<Rightarrow> (unit \<times> bt_ad option) option" where
  "bt_ad_clear_service_uuid ad = on_ad () (\<lambda>ad. Some ((), ad\<lparr>ba_service_uuids := []\<rparr>)) ad"

definition bt_ad_add_solicit_uuid :: "bt_ad option \<Rightarrow> bt_uuid \<Rightarrow> (bool \<times> bt_ad option) option" where
  "bt_ad_add_solicit_uuid ad uuid = on_ad False (\<lambda>ad.
     let (r, q) = queue_add_uuid (ba_solicit_uuids ad) uuid in Some (r, ad\<lparr>ba_solicit_uuids := q\<rparr>)) ad"

definition bt_ad_remove_solicit_uuid :: "bt_ad option \<Rightarrow> bt_uuid option \<Rightarrow> (bool \<times> bt_ad option) option" where
  "bt_ad_remove_solicit_uuid ad uuid = on_ad False (\<lambda>ad. do {
     (r, q) \<leftarrow> queue_remove_uuid (ba_solicit_uuids ad) uuid;
     Some (r, ad\<lparr>ba_solicit_uuids := q\<rparr>) }) ad"

definition bt_ad_clear_solicit_uuid :: "bt_ad option \<Rightarrow> (unit \<times> bt_ad option) option" where
  "bt_ad_clear_solicit_uuid ad = on_ad () (\<lambda>ad. Some ((), ad\<lparr>ba_solicit_uuids := []\<rparr>)) ad"

section \<open>Manufacturer data\<close>

definition bt_ad_add_manufacturer_data :: "bt_ad option \<Rightarrow> u16 \<Rightarrow> u8 list \<Rightarrow> nat \<Rightarrow> (bool \<times> bt_ad option) option" where
  "bt_ad_add_manufacturer_data ad manufacturer_id data len = on_ad False (\<lambda>ad.
     if len > MAX_ADV_DATA_LEN - 2 - 2 then Some (False, ad)
     else do {
       i \<leftarrow> queue_index (\<lambda>m. manufacturer_id_data_match m manufacturer_id) (ba_manufacturer_data ad);
       d \<leftarrow> buf_read data 0 len;
       case i of
         Some i \<Rightarrow>
           let m = ba_manufacturer_data ad ! i
           in if length (bm_data m) = len \<and> memcmp (bm_data m) d = 0 then Some (False, ad)
              else Some (True, ad\<lparr>ba_manufacturer_data := (ba_manufacturer_data ad)[i := m\<lparr>bm_data := d\<rparr>]\<rparr>)
       | None \<Rightarrow>
           Some (True, ad\<lparr>ba_manufacturer_data := ba_manufacturer_data ad @ [\<lparr>bm_id = manufacturer_id, bm_data = d\<rparr>]\<rparr>) }) ad"

definition bt_ad_has_manufacturer_data :: "bt_ad option \<Rightarrow> bt_ad_manufacturer_data option \<Rightarrow> (bool \<times> bt_ad option) option" where
  "bt_ad_has_manufacturer_data ad data = on_ad False (\<lambda>ad.
     case data of
       None \<Rightarrow> Some (ba_manufacturer_data ad \<noteq> [], ad)
     | Some d \<Rightarrow> do { i \<leftarrow> queue_index (\<lambda>m. manufacturer_data_match m d) (ba_manufacturer_data ad); Some (i \<noteq> None, ad) }) ad"

text \<open>What a \<open>foreach\<close> function hands to the function of its caller, in order.\<close>

definition bt_ad_foreach_manufacturer_data :: "bt_ad option \<Rightarrow> bt_ad_manufacturer_data list" where
  "bt_ad_foreach_manufacturer_data ad = (case ad of None \<Rightarrow> [] | Some ad \<Rightarrow> ba_manufacturer_data ad)"

definition bt_ad_remove_manufacturer_data :: "bt_ad option \<Rightarrow> u16 \<Rightarrow> (bool \<times> bt_ad option) option" where
  "bt_ad_remove_manufacturer_data ad manufacturer_id = on_ad False (\<lambda>ad. do {
     (r, q) \<leftarrow> queue_remove_if (\<lambda>m. manuf_match m manufacturer_id) (ba_manufacturer_data ad);
     Some (r, ad\<lparr>ba_manufacturer_data := q\<rparr>) }) ad"

definition bt_ad_clear_manufacturer_data :: "bt_ad option \<Rightarrow> (unit \<times> bt_ad option) option" where
  "bt_ad_clear_manufacturer_data ad = on_ad () (\<lambda>ad. Some ((), ad\<lparr>ba_manufacturer_data := []\<rparr>)) ad"

section \<open>Service data\<close>

definition bt_ad_add_service_data :: "bt_ad option \<Rightarrow> bt_uuid \<Rightarrow> u8 list \<Rightarrow> nat \<Rightarrow> (bool \<times> bt_ad option) option" where
  "bt_ad_add_service_data ad uuid data len = on_ad False (\<lambda>ad.
     if len > MAX_ADV_DATA_LEN - 2 - bt_uuid_len uuid then Some (False, ad)
     else do {
       i \<leftarrow> queue_index (\<lambda>s. service_uuid_match s uuid) (ba_service_data ad);
       d \<leftarrow> buf_read data 0 len;
       case i of
         Some i \<Rightarrow>
           let s = ba_service_data ad ! i
           in if length (bs_data s) = len \<and> memcmp (bs_data s) d = 0 then Some (False, ad)
              else Some (True, ad\<lparr>ba_service_data := (ba_service_data ad)[i := s\<lparr>bs_data := d\<rparr>]\<rparr>)
       | None \<Rightarrow> Some (True, ad\<lparr>ba_service_data := ba_service_data ad @ [\<lparr>bs_uuid = uuid, bs_data = d\<rparr>]\<rparr>) }) ad"

definition bt_ad_has_service_data :: "bt_ad option \<Rightarrow> bt_ad_service_data option \<Rightarrow> (bool \<times> bt_ad option) option" where
  "bt_ad_has_service_data ad data = on_ad False (\<lambda>ad.
     case data of
       None \<Rightarrow> Some (ba_service_data ad \<noteq> [], ad)
     | Some d \<Rightarrow> do { i \<leftarrow> queue_index (\<lambda>s. service_data_match s d) (ba_service_data ad); Some (i \<noteq> None, ad) }) ad"

definition bt_ad_foreach_service_data :: "bt_ad option \<Rightarrow> bt_ad_service_data list" where
  "bt_ad_foreach_service_data ad = (case ad of None \<Rightarrow> [] | Some ad \<Rightarrow> ba_service_data ad)"

definition bt_ad_remove_service_data :: "bt_ad option \<Rightarrow> bt_uuid \<Rightarrow> (bool \<times> bt_ad option) option" where
  "bt_ad_remove_service_data ad uuid = on_ad False (\<lambda>ad. do {
     (r, q) \<leftarrow> queue_remove_if (\<lambda>s. uuid_data_match s uuid) (ba_service_data ad);
     Some (r, ad\<lparr>ba_service_data := q\<rparr>) }) ad"

definition bt_ad_clear_service_data :: "bt_ad option \<Rightarrow> (unit \<times> bt_ad option) option" where
  "bt_ad_clear_service_data ad = on_ad () (\<lambda>ad. Some ((), ad\<lparr>ba_service_data := []\<rparr>)) ad"

section \<open>Name, appearance, flags and other data\<close>

definition bt_ad_add_name :: "bt_ad option \<Rightarrow> u8 list \<Rightarrow> (bool \<times> bt_ad option) option" where
  "bt_ad_add_name ad name = on_ad False (\<lambda>ad. Some (True, ad\<lparr>ba_name := Some name\<rparr>)) ad"

definition bt_ad_clear_name :: "bt_ad option \<Rightarrow> (unit \<times> bt_ad option) option" where
  "bt_ad_clear_name ad = on_ad () (\<lambda>ad. Some ((), ad\<lparr>ba_name := None\<rparr>)) ad"

definition bt_ad_add_appearance :: "bt_ad option \<Rightarrow> u16 \<Rightarrow> (bool \<times> bt_ad option) option" where
  "bt_ad_add_appearance ad appearance = on_ad False (\<lambda>ad. Some (True, ad\<lparr>ba_appearance := appearance\<rparr>)) ad"

definition bt_ad_clear_appearance :: "bt_ad option \<Rightarrow> (unit \<times> bt_ad option) option" where
  "bt_ad_clear_appearance ad = on_ad () (\<lambda>ad. Some ((), ad\<lparr>ba_appearance := UINT16_MAX\<rparr>)) ad"

definition ad_replace_data :: "bt_ad \<Rightarrow> u8 \<Rightarrow> u8 list \<Rightarrow> nat \<Rightarrow> (bool \<times> bt_ad) option" where
  "ad_replace_data ad type data len = do {
     i \<leftarrow> queue_index (\<lambda>a. data_type_match a type) (ba_data ad);
     d \<leftarrow> buf_read data 0 len;
     case i of
       Some i \<Rightarrow>
         let a = ba_data ad ! i
         in if length (bd_data a) = len \<and> memcmp (bd_data a) d = 0 then Some (False, ad)
            else Some (True, ad\<lparr>ba_data := (ba_data ad)[i := a\<lparr>bd_data := d\<rparr>]\<rparr>)
     | None \<Rightarrow> Some (True, ad\<lparr>ba_data := ba_data ad @ [\<lparr>bd_type = type, bd_data = d\<rparr>]\<rparr>) }"

text \<open>The flags are read only when the length is not too big.\<close>

definition bt_ad_add_flags :: "bt_ad option \<Rightarrow> u8 list \<Rightarrow> nat \<Rightarrow> (bool \<times> bt_ad option) option" where
  "bt_ad_add_flags ad flags len = on_ad False (\<lambda>ad.
     if len > 1 then Some (False, ad)
     else do {
       f \<leftarrow> buf_get flags 0;
       if f AND 0xe0 \<noteq> 0 then Some (False, ad) else ad_replace_data ad BT_AD_FLAGS flags len }) ad"

definition bt_ad_has_flags :: "bt_ad option \<Rightarrow> (bool \<times> bt_ad option) option" where
  "bt_ad_has_flags ad = on_ad False (\<lambda>ad. do {
     i \<leftarrow> queue_index (\<lambda>a. data_type_match a BT_AD_FLAGS) (ba_data ad);
     Some (i \<noteq> None, ad) }) ad"

definition bt_ad_clear_flags :: "bt_ad option \<Rightarrow> (unit \<times> bt_ad option) option" where
  "bt_ad_clear_flags ad = on_ad () (\<lambda>ad. Some ((), ad\<lparr>ba_data := filter (\<lambda>a. bd_type a \<noteq> BT_AD_FLAGS) (ba_data ad)\<rparr>)) ad"

definition type_blacklist :: "u8 list" where
  "type_blacklist =
     [0x01, 0x02, 0x03, 0x04, 0x05, 0x06, 0x07, 0x08, 0x09, 0x0a, 0x0d, 0x0e, 0x0f, 0x10, 0x10, 0x11, 0x12, 0x14, 0x15,
      0x16, 0x17, 0x18, 0x19, 0x1a, 0x1b, 0x1c, 0x1d, 0x1e, 0x1f, 0x20, 0x21, 0x22, 0x23, 0x27, 0x28, 0x29, 0x2a, 0x2b,
      0x3d, 0xff]"

definition bt_ad_add_data :: "bt_ad option \<Rightarrow> u8 \<Rightarrow> u8 list \<Rightarrow> nat \<Rightarrow> (bool \<times> bt_ad option) option" where
  "bt_ad_add_data ad type data len = on_ad False (\<lambda>ad.
     if len > MAX_ADV_DATA_LEN - 2 then Some (False, ad)
     else if type \<in> set type_blacklist then Some (False, ad)
     else ad_replace_data ad type data len) ad"

definition bt_ad_has_data :: "bt_ad option \<Rightarrow> bt_ad_data option \<Rightarrow> (bool \<times> bt_ad option) option" where
  "bt_ad_has_data ad data = on_ad False (\<lambda>ad.
     case data of
       None \<Rightarrow> Some (ba_data ad \<noteq> [], ad)
     | Some d \<Rightarrow> do { i \<leftarrow> queue_index (\<lambda>a. data_match a d) (ba_data ad); Some (i \<noteq> None, ad) }) ad"

definition bt_ad_foreach_data :: "bt_ad option \<Rightarrow> bt_ad_data list" where
  "bt_ad_foreach_data ad = (case ad of None \<Rightarrow> [] | Some ad \<Rightarrow> ba_data ad)"

definition bt_ad_remove_data :: "bt_ad option \<Rightarrow> u8 \<Rightarrow> (bool \<times> bt_ad option) option" where
  "bt_ad_remove_data ad type = on_ad False (\<lambda>ad. do {
     (r, q) \<leftarrow> queue_remove_if (\<lambda>a. data_type_match a type) (ba_data ad);
     Some (r, ad\<lparr>ba_data := q\<rparr>) }) ad"

definition bt_ad_clear_data :: "bt_ad option \<Rightarrow> (unit \<times> bt_ad option) option" where
  "bt_ad_clear_data ad = on_ad () (\<lambda>ad. Some ((), ad\<lparr>ba_data := []\<rparr>)) ad"

section \<open>Lengths\<close>

fun bt_uuid_type :: "bt_uuid \<Rightarrow> nat" where
  "bt_uuid_type UNSPEC = 0"
| "bt_uuid_type (UUID16 _) = 16"
| "bt_uuid_type (UUID32 _) = 32"
| "bt_uuid_type (UUID128 _) = 128"

definition uuid_list_length :: "bt_uuid list \<Rightarrow> nat" where
  "uuid_list_length q =
     sum_list (map bt_uuid_len q) +
     (if \<exists>u\<in>set q. bt_uuid_type u = 16 then 2 else 0) +
     (if \<exists>u\<in>set q. bt_uuid_type u = 32 then 2 else 0) +
     (if \<exists>u\<in>set q. bt_uuid_type u \<noteq> 16 \<and> bt_uuid_type u \<noteq> 32 then 2 else 0)"

definition mfg_data_length :: "bt_ad_manufacturer_data list \<Rightarrow> nat" where
  "mfg_data_length q = sum_list (map (\<lambda>m. 2 + 2 + length (bm_data m)) q)"

definition uuid_data_length :: "bt_ad_service_data list \<Rightarrow> nat" where
  "uuid_data_length q = sum_list (map (\<lambda>s. 2 + bt_uuid_len (bs_uuid s) + length (bs_data s)) q)"

definition name_length :: "u8 list option \<Rightarrow> nat \<Rightarrow> nat" where
  "name_length name pos =
     (case name of
        None \<Rightarrow> 0
      | Some name \<Rightarrow>
          let len = 2 + length name
          in if len > size_sub MAX_ADV_DATA_LEN pos then size_sub MAX_ADV_DATA_LEN pos else len)"

definition data_length :: "bt_ad_data list \<Rightarrow> nat" where
  "data_length q = sum_list (map (\<lambda>a. 1 + 1 + length (bd_data a)) q)"

definition calculate_length :: "bt_ad \<Rightarrow> nat" where
  "calculate_length ad =
     (let n = uuid_list_length (ba_service_uuids ad);
          n = n + uuid_list_length (ba_solicit_uuids ad);
          n = n + mfg_data_length (ba_manufacturer_data ad);
          n = n + uuid_data_length (ba_service_data ad);
          n = n + name_length (ba_name ad) n;
          n = n + (if ba_appearance ad \<noteq> UINT16_MAX then 4 else 0)
      in n + data_length (ba_data ad))"

section \<open>Serialisers\<close>

text \<open>The buffer and the position, a byte; \<open>store\<close> writes at the position and \<open>put\<close> also moves it.\<close>

type_synonym ser = "u8 list \<times> u8"

fun store :: "u8 list \<Rightarrow> ser \<Rightarrow> ser option" where
  "store s (buf, pos) = do { buf \<leftarrow> buf_write buf (unat pos) s; Some (buf, pos) }"

fun advance :: "nat \<Rightarrow> ser \<Rightarrow> ser" where
  "advance n (buf, pos) = (buf, pos + of_nat n)"

definition put :: "u8 list \<Rightarrow> ser \<Rightarrow> ser option" where
  "put s st = map_option (advance (length s)) (store s st)"

definition uuid_bytes :: "bt_uuid \<Rightarrow> u8 list" where
  "uuid_bytes uuid = (case uuid of UUID32 v \<Rightarrow> rev (be32_bytes v) | _ \<Rightarrow> snd (bt_uuid_to_le uuid))"

text \<open>The place of the length byte is left open until the UUIDs are counted.\<close>

fun uuids_loop :: "bt_uuid list \<Rightarrow> nat \<Rightarrow> u8 \<Rightarrow> u8 option \<Rightarrow> ser \<Rightarrow> (u8 option \<times> ser) option" where
  "uuids_loop [] uuid_type type length_pos st = Some (length_pos, st)"
| "uuids_loop (uuid # q) uuid_type type length_pos st =
     (if bt_uuid_type uuid = uuid_type then do {
        (length_pos, st) \<leftarrow> (case length_pos of
           None \<Rightarrow> map_option (Pair (Some (snd st))) (put [type] (advance 1 st))
         | Some l \<Rightarrow> Some (Some l, st));
        st \<leftarrow> store (uuid_bytes uuid) st;
        uuids_loop q uuid_type type length_pos (advance (bt_uuid_len uuid) st) }
      else uuids_loop q uuid_type type length_pos st)"

definition serialize_uuids :: "bt_uuid list \<Rightarrow> nat \<Rightarrow> u8 \<Rightarrow> ser \<Rightarrow> ser option" where
  "serialize_uuids q uuid_type type st = do {
     (length_pos, buf, pos) \<leftarrow> uuids_loop q uuid_type type None st;
     case length_pos of
       None \<Rightarrow> Some (buf, pos)
     | Some l \<Rightarrow> do { buf \<leftarrow> buf_write buf (unat l) [pos - l - 1]; Some (buf, pos) } }"

definition serialize_service_uuids :: "bt_uuid list \<Rightarrow> ser \<Rightarrow> ser option" where
  "serialize_service_uuids q st = do {
     st \<leftarrow> serialize_uuids q 16 BT_AD_UUID16_ALL st;
     st \<leftarrow> serialize_uuids q 32 BT_AD_UUID32_ALL st;
     serialize_uuids q 128 BT_AD_UUID128_ALL st }"

definition serialize_solicit_uuids :: "bt_uuid list \<Rightarrow> ser \<Rightarrow> ser option" where
  "serialize_solicit_uuids q st = do {
     st \<leftarrow> serialize_uuids q 16 BT_AD_SOLICIT16 st;
     st \<leftarrow> serialize_uuids q 32 BT_AD_SOLICIT32 st;
     serialize_uuids q 128 BT_AD_SOLICIT128 st }"

fun serialize_manuf_data :: "bt_ad_manufacturer_data list \<Rightarrow> ser \<Rightarrow> ser option" where
  "serialize_manuf_data [] st = Some st"
| "serialize_manuf_data (m # q) st = do {
     st \<leftarrow> put [of_nat (length (bm_data m) + 2 + 1)] st;
     st \<leftarrow> put [BT_AD_MANUFACTURER_DATA] st;
     st \<leftarrow> put (le16_bytes (bm_id m)) st;
     st \<leftarrow> put (bm_data m) st;
     serialize_manuf_data q st }"

text \<open>For a UUID of no type no type byte is written.\<close>

fun serialize_service_data :: "bt_ad_service_data list \<Rightarrow> ser \<Rightarrow> ser option" where
  "serialize_service_data [] st = Some st"
| "serialize_service_data (s # q) st = do {
     let uuid_len = bt_uuid_len (bs_uuid s);
     st \<leftarrow> put [of_nat (uuid_len + length (bs_data s) + 1)] st;
     st \<leftarrow> (if uuid_len = 2 then put [BT_AD_SERVICE_DATA16] st
           else if uuid_len = 4 then put [BT_AD_SERVICE_DATA32] st
           else if uuid_len = 16 then put [BT_AD_SERVICE_DATA128] st
           else Some st);
     st \<leftarrow> store (uuid_bytes (bs_uuid s)) st;
     st \<leftarrow> put (bs_data s) (advance uuid_len st);
     serialize_service_data q st }"

text \<open>The length is an \<open>int\<close>; a negative one is a number of bytes far too big for \<open>memcpy\<close>.\<close>

definition serialize_name :: "u8 list option \<Rightarrow> ser \<Rightarrow> ser option" where
  "serialize_name name st =
     (case name of
        None \<Rightarrow> Some st
      | Some name \<Rightarrow> do {
          let room = int MAX_ADV_DATA_LEN - (int (unat (snd st)) + 2);
          let (type, len) = (if int (length name) > room then (BT_AD_NAME_SHORT, room)
                           else (BT_AD_NAME_COMPLETE, int (length name)));
          st \<leftarrow> put [of_int (len + 1)] st;
          st \<leftarrow> put [type] st;
          if len < 0 then None else put (take (nat len) name) st })"

definition serialize_appearance :: "u16 \<Rightarrow> ser \<Rightarrow> ser option" where
  "serialize_appearance value st =
     (if value = UINT16_MAX then Some st
      else do {
        st \<leftarrow> put [2 + 1] st;
        st \<leftarrow> put [BT_AD_GAP_APPEARANCE] st;
        put (le16_bytes value) st })"

fun serialize_data :: "bt_ad_data list \<Rightarrow> ser \<Rightarrow> ser option" where
  "serialize_data [] st = Some st"
| "serialize_data (a # q) st = do {
     st \<leftarrow> put [of_nat (length (bd_data a) + 1)] st;
     st \<leftarrow> put [bd_type a] st;
     st \<leftarrow> put (bd_data a) st;
     serialize_data q st }"

text \<open>What is stored at \<open>length\<close>, if anything, and the packet, \<^const>\<open>None\<close> for \<open>NULL\<close>.\<close>

definition bt_ad_generate :: "bt_ad option \<Rightarrow> (nat option \<times> u8 list option) option" where
  "bt_ad_generate ad =
     (case ad of
        None \<Rightarrow> Some (None, None)
      | Some ad \<Rightarrow>
          let n = calculate_length ad
          in if n > MAX_ADV_DATA_LEN then Some (Some n, None)
             else do {
               st \<leftarrow> serialize_service_uuids (ba_service_uuids ad) (replicate n 0, 0);
               st \<leftarrow> serialize_solicit_uuids (ba_solicit_uuids ad) st;
               st \<leftarrow> serialize_manuf_data (ba_manufacturer_data ad) st;
               st \<leftarrow> serialize_service_data (ba_service_data ad) st;
               st \<leftarrow> serialize_name (ba_name ad) st;
               st \<leftarrow> serialize_appearance (ba_appearance ad) st;
               (adv_data, pos) \<leftarrow> serialize_data (ba_data ad) st;
               Some (Some n, Some adv_data) })"

end
