(* ===== verification/Ad_Packet.thy ===== *)
theory Ad_Packet
  imports Shared_Ad Eir_Oob
begin

text \<open>
  The packet that \<open>bt_ad_generate\<close> makes (\<open>src/shared/ad.c\<close>): the fields it consists of, when it is made at all,
  and what the parser of \<open>src/eir.c\<close> in the receiving device reads from it.
\<close>

section \<open>The fields of a packet\<close>

definition uuid_type_field :: "nat \<Rightarrow> u8 \<Rightarrow> bt_uuid list \<Rightarrow> field list" where
  "uuid_type_field n t q =
     (let us = filter (\<lambda>u. bt_uuid_type u = n) q in if us = [] then [] else [(t, concat (map uuid_bytes us))])"

definition service_fields :: "bt_uuid list \<Rightarrow> field list" where
  "service_fields q = uuid_type_field 16 BT_AD_UUID16_ALL q @ uuid_type_field 32 BT_AD_UUID32_ALL q @
     uuid_type_field 128 BT_AD_UUID128_ALL q"

definition solicit_fields :: "bt_uuid list \<Rightarrow> field list" where
  "solicit_fields q = uuid_type_field 16 BT_AD_SOLICIT16 q @ uuid_type_field 32 BT_AD_SOLICIT32 q @
     uuid_type_field 128 BT_AD_SOLICIT128 q"

definition manuf_field :: "bt_ad_manufacturer_data \<Rightarrow> field" where
  "manuf_field m = (BT_AD_MANUFACTURER_DATA, le16_bytes (bm_id m) @ bm_data m)"

definition service_data_field :: "bt_ad_service_data \<Rightarrow> field" where
  "service_data_field s =
     (case bs_uuid s of UUID16 _ \<Rightarrow> BT_AD_SERVICE_DATA16 | UUID32 _ \<Rightarrow> BT_AD_SERVICE_DATA32 | _ \<Rightarrow> BT_AD_SERVICE_DATA128,
      uuid_bytes (bs_uuid s) @ bs_data s)"

definition data_field :: "bt_ad_data \<Rightarrow> field" where
  "data_field a = (bd_type a, bd_data a)"

definition ad_before :: "bt_ad \<Rightarrow> field list" where
  "ad_before ad = service_fields (ba_service_uuids ad) @ solicit_fields (ba_solicit_uuids ad) @
     map manuf_field (ba_manufacturer_data ad) @ map service_data_field (ba_service_data ad)"

text \<open>The name is cut to what is left of 31 bytes.\<close>

definition name_field :: "u8 list option \<Rightarrow> nat \<Rightarrow> field list" where
  "name_field name pos =
     (case name of
        None \<Rightarrow> []
      | Some n \<Rightarrow> if length n > 29 - pos then [(BT_AD_NAME_SHORT, take (29 - pos) n)] else [(BT_AD_NAME_COMPLETE, n)])"

definition ad_after :: "bt_ad \<Rightarrow> field list" where
  "ad_after ad = (if ba_appearance ad = UINT16_MAX then [] else [(BT_AD_GAP_APPEARANCE, le16_bytes (ba_appearance ad))]) @
     map data_field (ba_data ad)"

definition ad_fields :: "bt_ad \<Rightarrow> field list" where
  "ad_fields ad = ad_before ad @ name_field (ba_name ad) (length (tlvs (ad_before ad))) @ ad_after ad"

text \<open>The UUIDs have a type, and those of 128 bits have 16 bytes.\<close>

definition typed :: "bt_uuid \<Rightarrow> bool" where
  "typed u \<longleftrightarrow> uuid_wf u \<and> u \<noteq> UNSPEC"

definition ad_typed :: "bt_ad \<Rightarrow> bool" where
  "ad_typed ad \<longleftrightarrow> (\<forall>u\<in>set (ba_service_uuids ad) \<union> set (ba_solicit_uuids ad) \<union> bs_uuid ` set (ba_service_data ad). typed u)"

lemma uuid_bytes_length: "typed u \<Longrightarrow> length (uuid_bytes u) = bt_uuid_len u"
  by (cases u) (auto simp: typed_def uuid_bytes_def bswap_128_def)

lemma bt_uuid_len_type: "bt_uuid_len u = bt_uuid_type u div 8"
  by (cases u) simp_all

lemma typed_type: "typed u \<Longrightarrow> bt_uuid_type u \<noteq> 16 \<and> bt_uuid_type u \<noteq> 32 \<longleftrightarrow> bt_uuid_type u = 128"
  by (cases u) (auto simp: typed_def)

section \<open>Lengths\<close>

lemma tlvs_map_length: "length (tlvs (map g xs)) = sum_list (map (\<lambda>x. length (snd (g x)) + 2) xs)"
  by (induction xs) simp_all

lemma uuid_type_field_length:
  assumes "\<forall>u\<in>set q. typed u"
  shows "length (tlvs (uuid_type_field n t q)) =
    (let us = filter (\<lambda>u. bt_uuid_type u = n) q in sum_list (map bt_uuid_len us) + (if us = [] then 0 else 2))"
proof -
  have "length (concat (map uuid_bytes us)) = sum_list (map bt_uuid_len us)" if "\<forall>u\<in>set us. typed u" for us
    using that by (induction us) (simp_all add: uuid_bytes_length)
  then show ?thesis using assms by (simp add: uuid_type_field_def Let_def)
qed

lemma uuid_list_length_fields:
  assumes "\<forall>u\<in>set q. typed u"
  shows "uuid_list_length q = length (tlvs (uuid_type_field 16 a q @ uuid_type_field 32 b q @ uuid_type_field 128 c q))"
proof -
  have "sum_list (map bt_uuid_len q) = sum_list (map bt_uuid_len (filter (\<lambda>u. bt_uuid_type u = 16) q)) +
      sum_list (map bt_uuid_len (filter (\<lambda>u. bt_uuid_type u = 32) q)) +
      sum_list (map bt_uuid_len (filter (\<lambda>u. bt_uuid_type u = 128) q))"
    using assms
  proof (induction q)
    case (Cons u q)
    then show ?case by (cases u) (auto simp: typed_def)
  qed simp
  moreover have "(\<exists>u\<in>set q. bt_uuid_type u \<noteq> 16 \<and> bt_uuid_type u \<noteq> 32) \<longleftrightarrow> (\<exists>u\<in>set q. bt_uuid_type u = 128)"
    using assms typed_type by blast
  moreover have "(\<exists>u\<in>set q. bt_uuid_type u = n) \<longleftrightarrow> filter (\<lambda>u. bt_uuid_type u = n) q \<noteq> []" for n
    by (simp add: filter_empty_conv)
  ultimately show ?thesis
    unfolding uuid_list_length_def tlvs_simps length_append uuid_type_field_length [OF assms] Let_def by simp
qed

lemma before_length:
  assumes "ad_typed ad"
  shows "length (tlvs (ad_before ad)) = uuid_list_length (ba_service_uuids ad) + uuid_list_length (ba_solicit_uuids ad) +
    mfg_data_length (ba_manufacturer_data ad) + uuid_data_length (ba_service_data ad)"
proof -
  have "\<forall>u\<in>set (ba_service_uuids ad). typed u" "\<forall>u\<in>set (ba_solicit_uuids ad). typed u"
    and s: "\<forall>s\<in>set (ba_service_data ad). typed (bs_uuid s)" using assms by (auto simp: ad_typed_def)
  then have "length (tlvs (service_fields (ba_service_uuids ad))) = uuid_list_length (ba_service_uuids ad)"
    "length (tlvs (solicit_fields (ba_solicit_uuids ad))) = uuid_list_length (ba_solicit_uuids ad)"
    unfolding service_fields_def solicit_fields_def by (metis uuid_list_length_fields)+
  moreover have "sum_list (map (\<lambda>x. length (snd (service_data_field x)) + 2) q) = uuid_data_length q"
    if "\<forall>s\<in>set q. typed (bs_uuid s)" for q
    using that by (induction q) (simp_all add: uuid_data_length_def service_data_field_def uuid_bytes_length)
  moreover have "sum_list (map (\<lambda>x. length (snd (manuf_field x)) + 2) q) = mfg_data_length q" for q
    by (induction q) (simp_all add: mfg_data_length_def manuf_field_def)
  ultimately show ?thesis using s by (simp add: ad_before_def tlvs_map_length)
qed

lemma after_length:
  "length (tlvs (ad_after ad)) = (if ba_appearance ad \<noteq> UINT16_MAX then 4 else 0) + data_length (ba_data ad)"
proof -
  have "sum_list (map (\<lambda>x. length (snd (data_field x)) + 2) q) = data_length q" for q
    by (induction q) (simp_all add: data_length_def data_field_def)
  then show ?thesis by (simp add: ad_after_def tlvs_map_length)
qed

lemma name_length_field:
  assumes "pos \<le> 29"
  shows "length (tlvs (name_field name pos)) = name_length name pos"
  using assms by (auto simp: name_field_def name_length_def MAX_ADV_DATA_LEN_def Let_def split: option.split)

lemma calculate_length_fields:
  assumes "ad_typed ad"
  shows "calculate_length ad = length (tlvs (ad_before ad)) + name_length (ba_name ad) (length (tlvs (ad_before ad))) +
    length (tlvs (ad_after ad))"
  unfolding calculate_length_def Let_def before_length [OF assms] after_length by simp

section \<open>Serialisers\<close>

text \<open>A packet of \<open>n\<close> bytes of which the first are written.\<close>

definition pkt :: "nat \<Rightarrow> u8 list \<Rightarrow> ser" where
  "pkt n d = (d @ replicate (n - length d) 0, of_nat (length d))"

lemma store_pkt:
  assumes "length d + length s \<le> n" and "n \<le> 31"
  shows "store s (pkt n d) = Some (d @ s @ replicate (n - length d - length s) 0, of_nat (length d))"
proof -
  have "unat (of_nat (length d) :: u8) = length d" using assms by (intro unat_of_nat_small) simp
  then show ?thesis using assms by (simp add: pkt_def buf_write_append)
qed

lemma put_pkt [simp]:
  assumes "length d + length s \<le> n" and "n \<le> 31"
  shows "put s (pkt n d) = Some (pkt n (d @ s))"
  using assms by (simp add: put_def store_pkt) (simp add: pkt_def)

lemma store_advance:
  assumes "k = length s"
  shows "Option.bind (store s st) (\<lambda>st. Option.bind (put x (advance k st)) g) = Option.bind (put s st) (\<lambda>st. Option.bind (put x st) g)"
    "Option.bind (store s st) (\<lambda>st. uuids_loop q m t l (advance k st)) = Option.bind (put s st) (uuids_loop q m t l)"
  using assms by (cases "store s st"; simp add: put_def)+

lemma manuf_pkt:
  assumes "length d + length (tlvs (map manuf_field q)) \<le> n" and "n \<le> 31"
  shows "serialize_manuf_data q (pkt n d) = Some (pkt n (d @ tlvs (map manuf_field q)))"
  using assms
proof (induction q arbitrary: d)
  case (Cons m q)
  have "serialize_manuf_data (m # q) (pkt n d) = serialize_manuf_data q (pkt n (d @ tlv (manuf_field m)))"
    using Cons.prems by (simp add: manuf_field_def tlv_def add.commute)
  moreover have "serialize_manuf_data q (pkt n (d @ tlv (manuf_field m))) =
      Some (pkt n ((d @ tlv (manuf_field m)) @ tlvs (map manuf_field q)))"
    using Cons.prems by (intro Cons.IH) simp_all
  ultimately show ?case by simp
qed simp

lemma data_pkt:
  assumes "length d + length (tlvs (map data_field q)) \<le> n" and "n \<le> 31"
  shows "serialize_data q (pkt n d) = Some (pkt n (d @ tlvs (map data_field q)))"
  using assms
proof (induction q arbitrary: d)
  case (Cons a q)
  have "serialize_data (a # q) (pkt n d) = serialize_data q (pkt n (d @ tlv (data_field a)))"
    using Cons.prems by (simp add: data_field_def tlv_def add.commute)
  moreover have "serialize_data q (pkt n (d @ tlv (data_field a))) =
      Some (pkt n ((d @ tlv (data_field a)) @ tlvs (map data_field q)))"
    using Cons.prems by (intro Cons.IH) simp_all
  ultimately show ?case by simp
qed simp

lemma appearance_pkt:
  assumes "length d + 4 \<le> n \<or> v = UINT16_MAX" and "n \<le> 31"
  shows "serialize_appearance v (pkt n d) =
    Some (pkt n (d @ tlvs (if v = UINT16_MAX then [] else [(BT_AD_GAP_APPEARANCE, le16_bytes v)])))"
  using assms by (auto simp: serialize_appearance_def tlv_def)

lemma service_data_pkt:
  assumes "length d + length (tlvs (map service_data_field q)) \<le> n" and "n \<le> 31"
    and "\<forall>s\<in>set q. typed (bs_uuid s)"
  shows "serialize_service_data q (pkt n d) = Some (pkt n (d @ tlvs (map service_data_field q)))"
  using assms
proof (induction q arbitrary: d)
  case (Cons s q)
  let ?u = "bs_uuid s"
  have l: "length (uuid_bytes ?u) = bt_uuid_len ?u" using Cons.prems(3) by (simp add: uuid_bytes_length)
  have t: "(if bt_uuid_len ?u = 2 then put [BT_AD_SERVICE_DATA16] st
           else if bt_uuid_len ?u = 4 then put [BT_AD_SERVICE_DATA32] st
           else if bt_uuid_len ?u = 16 then put [BT_AD_SERVICE_DATA128] st
           else Some st) = put [fst (service_data_field s)] st" for st
    using Cons.prems(3) by (cases ?u) (auto simp: service_data_field_def typed_def)
  have f: "tlv (service_data_field s) =
      [of_nat (bt_uuid_len ?u + length (bs_data s) + 1)] @ [fst (service_data_field s)] @ uuid_bytes ?u @ bs_data s"
    by (simp add: service_data_field_def tlv_def l)
  have "length d + length (tlv (service_data_field s)) \<le> n" using Cons.prems(1) by simp
  then have "serialize_service_data (s # q) (pkt n d) = serialize_service_data q (pkt n (d @ tlv (service_data_field s)))"
    using Cons.prems(2) unfolding f by (simp add: Let_def t store_advance l)
  moreover have "serialize_service_data q (pkt n (d @ tlv (service_data_field s))) =
      Some (pkt n ((d @ tlv (service_data_field s)) @ tlvs (map service_data_field q)))"
    using Cons.prems by (intro Cons.IH) simp_all
  ultimately show ?case by simp
qed simp


text \<open>The bytes of the UUIDs of a type.\<close>

definition type_bytes :: "nat \<Rightarrow> bt_uuid list \<Rightarrow> u8 list" where
  "type_bytes m q = concat (map uuid_bytes (filter (\<lambda>u. bt_uuid_type u = m) q))"

lemma type_bytes_simps [simp]:
  "type_bytes m [] = []"
  "type_bytes m (u # q) = (if bt_uuid_type u = m then uuid_bytes u @ type_bytes m q else type_bytes m q)"
  by (simp_all add: type_bytes_def)

lemma uuids_loop_pkt:
  assumes "length d + length (type_bytes m q) \<le> n" and "n \<le> 31" and "\<forall>u\<in>set q. typed u"
  shows "uuids_loop q m t (Some l) (pkt n d) = Some (Some l, pkt n (d @ type_bytes m q))"
  using assms
proof (induction q arbitrary: d)
  case (Cons u q)
  then have l: "bt_uuid_len u = length (uuid_bytes u)" by (simp add: uuid_bytes_length)
  show ?case
  proof (cases "bt_uuid_type u = m")
    case True
    then have "uuids_loop (u # q) m t (Some l) (pkt n d) = uuids_loop q m t (Some l) (pkt n (d @ uuid_bytes u))"
      using Cons.prems by (simp add: store_advance l)
    then show ?thesis using Cons True by simp
  next
    case False
    then show ?thesis using Cons by simp
  qed
qed simp

lemma advance_pkt: "length d < n \<Longrightarrow> advance 1 (pkt n d) = pkt n (d @ [0])"
  by (simp add: pkt_def replicate_Suc [symmetric] Suc_diff_Suc del: replicate_Suc)

lemma uuids_loop_first:
  assumes "length d + length (type_bytes m q) + 2 \<le> n" and "n \<le> 31" and "\<forall>u\<in>set q. typed u"
    and "\<exists>u\<in>set q. bt_uuid_type u = m"
  shows "uuids_loop q m t None (pkt n d) = Some (Some (of_nat (length d)), pkt n (d @ [0, t] @ type_bytes m q))"
  using assms
proof (induction q)
  case (Cons u q)
  then have l: "bt_uuid_len u = length (uuid_bytes u)" by (simp add: uuid_bytes_length)
  show ?case
  proof (cases "bt_uuid_type u = m")
    case True
    have "snd (pkt n d) = of_nat (length d)" by (simp add: pkt_def)
    moreover have "advance (Suc 0) (pkt n d) = pkt n (d @ [0])" using advance_pkt [of d n] Cons.prems(1) by simp
    ultimately have "uuids_loop (u # q) m t None (pkt n d) =
        uuids_loop q m t (Some (of_nat (length d))) (pkt n (d @ [0, t] @ uuid_bytes u))"
      using Cons.prems True by (simp add: store_advance l)
    also have "\<dots> = Some (Some (of_nat (length d)), pkt n ((d @ [0, t] @ uuid_bytes u) @ type_bytes m q))"
      using Cons.prems True by (intro uuids_loop_pkt) simp_all
    finally show ?thesis using True by simp
  next
    case False
    then show ?thesis using Cons by auto
  qed
qed simp

lemma uuids_loop_none: "\<forall>u\<in>set q. bt_uuid_type u \<noteq> m \<Longrightarrow> uuids_loop q m t l st = Some (l, st)"
  by (induction q) simp_all

lemma serialize_uuids_pkt:
  assumes "length d + length (tlvs (uuid_type_field m t q)) \<le> n" and "n \<le> 31" and "\<forall>u\<in>set q. typed u"
  shows "serialize_uuids q m t (pkt n d) = Some (pkt n (d @ tlvs (uuid_type_field m t q)))"
proof (cases "\<exists>u\<in>set q. bt_uuid_type u = m")
  case False
  then have "uuid_type_field m t q = []" by (simp add: uuid_type_field_def filter_empty_conv)
  then show ?thesis using False by (simp add: serialize_uuids_def uuids_loop_none pkt_def)
next
  case True
  let ?b = "type_bytes m q"
  have f: "uuid_type_field m t q = [(t, ?b)]" using True by (auto simp: uuid_type_field_def type_bytes_def filter_empty_conv)
  have len: "length d + length ?b + 2 \<le> n" using assms(1) by (simp add: f)
  then have u: "unat (of_nat (length d) :: u8) = length d" using assms(2) by (intro unat_of_nat_small) simp
  have "uuids_loop q m t None (pkt n d) = Some (Some (of_nat (length d)), pkt n (d @ [0, t] @ ?b))"
    by (rule uuids_loop_first [OF len assms(2,3) True])
  moreover have "buf_write (d @ [0, t] @ ?b @ r) (length d) [x] = Some (d @ [x, t] @ ?b @ r)" for r x
    using buf_write_append [of "length d" d "[x]" "[0, t] @ ?b @ r"] by simp
  moreover have "(of_nat (length (d @ [0, t] @ ?b)) :: u8) - of_nat (length d) - 1 = of_nat (length ?b) + 1" by simp
  ultimately show ?thesis unfolding f by (simp add: serialize_uuids_def u pkt_def tlv_def del: of_nat_Suc of_nat_add)
qed

section \<open>The packet\<close>

lemma before_pkt:
  assumes "length (tlvs (ad_before ad)) \<le> n" and "n \<le> 31" and "ad_typed ad"
  shows "do {
     st \<leftarrow> serialize_service_uuids (ba_service_uuids ad) (replicate n 0, 0);
     st \<leftarrow> serialize_solicit_uuids (ba_solicit_uuids ad) st;
     st \<leftarrow> serialize_manuf_data (ba_manufacturer_data ad) st;
     st \<leftarrow> serialize_service_data (ba_service_data ad) st;
     k st } = k (pkt n (tlvs (ad_before ad)))"
proof -
  have u: "\<forall>u\<in>set (ba_service_uuids ad). typed u" "\<forall>u\<in>set (ba_solicit_uuids ad). typed u"
    "\<forall>s\<in>set (ba_service_data ad). typed (bs_uuid s)" using assms(3) by (auto simp: ad_typed_def)
  let ?a = "tlvs (service_fields (ba_service_uuids ad))" and ?b = "tlvs (solicit_fields (ba_solicit_uuids ad))"
    and ?c = "tlvs (map manuf_field (ba_manufacturer_data ad))" and ?d = "tlvs (map service_data_field (ba_service_data ad))"
  have len: "length ?a + length ?b + length ?c + length ?d \<le> n" using assms(1) by (simp add: ad_before_def)
  have "(replicate n 0, 0) = pkt n []" by (simp add: pkt_def)
  then have "serialize_service_uuids (ba_service_uuids ad) (replicate n 0, 0) = Some (pkt n ?a)"
    using len assms(2) u(1) by (simp add: serialize_service_uuids_def service_fields_def serialize_uuids_pkt)
  moreover have "serialize_solicit_uuids (ba_solicit_uuids ad) (pkt n ?a) = Some (pkt n (?a @ ?b))"
    using len assms(2) u(2) by (simp add: serialize_solicit_uuids_def solicit_fields_def serialize_uuids_pkt)
  moreover have "serialize_manuf_data (ba_manufacturer_data ad) (pkt n (?a @ ?b)) = Some (pkt n ((?a @ ?b) @ ?c))"
    using len assms(2) by (intro manuf_pkt) simp_all
  moreover have "serialize_service_data (ba_service_data ad) (pkt n ((?a @ ?b) @ ?c)) = Some (pkt n (((?a @ ?b) @ ?c) @ ?d))"
    using len assms(2) u(3) by (intro service_data_pkt) simp_all
  ultimately show ?thesis by (simp add: ad_before_def)
qed

lemma name_pkt:
  assumes "length d \<le> 29" and "length d + length (tlvs (name_field name (length d))) \<le> n" and "n \<le> 31"
  shows "serialize_name name (pkt n d) = Some (pkt n (d @ tlvs (name_field name (length d))))"
proof (cases name)
  case None
  then show ?thesis by (simp add: serialize_name_def name_field_def)
next
  case (Some v)
  have "unat (of_nat (length d) :: u8) = length d" using assms(1) by (intro unat_of_nat_small) simp
  then have u: "unat (snd (pkt n d)) = length d" by (simp add: pkt_def)
  obtain k where k: "29 - length d = k" "k + length d = 29" using assms(1) by simp
  then have room: "int MAX_ADV_DATA_LEN - (int (length d) + 2) = int k" by (simp add: MAX_ADV_DATA_LEN_def)
  show ?thesis
  proof (cases "length v > k")
    case True
    then have "length d + k + 2 \<le> n" using assms(2) by (simp add: name_field_def Some k(1))
    then show ?thesis using True assms(3) unfolding serialize_name_def Some option.case u room
      by (simp add: name_field_def k(1) tlv_def Let_def)
  next
    case False
    then have "length d + length v + 2 \<le> n" using assms(2) by (simp add: name_field_def Some k(1))
    then show ?thesis using False assms(3) unfolding serialize_name_def Some option.case u room
      by (simp add: name_field_def k(1) tlv_def Let_def)
  qed
qed

lemma name_pkt_no_room:
  assumes "length d \<in> {30, 31}" and "n \<le> 31"
  shows "serialize_name (Some v) (pkt n d) = None"
proof -
  have u: "unat (of_nat (length d) :: u8) = length d" using assms(1) by (intro unat_of_nat_small) auto
  then have s: "unat (snd (pkt n d)) = length d" by (simp add: pkt_def)
  show ?thesis using assms unfolding serialize_name_def option.case s
    by (cases "put [of_int (int MAX_ADV_DATA_LEN - (int (length d) + 2) + 1)] (pkt n d)")
      (auto simp: MAX_ADV_DATA_LEN_def Let_def bind_eq_None_conv)
qed

lemma fields_length:
  assumes "ad_typed ad" and "ba_name ad = None \<or> length (tlvs (ad_before ad)) < 30"
  shows "length (tlvs (ad_fields ad)) = calculate_length ad"
proof -
  have "length (tlvs (name_field (ba_name ad) (length (tlvs (ad_before ad))))) =
      name_length (ba_name ad) (length (tlvs (ad_before ad)))"
  proof (cases "ba_name ad")
    case (Some v)
    then show ?thesis using assms(2) by (intro name_length_field) simp
  qed (simp add: name_field_def name_length_def)
  then show ?thesis by (simp add: ad_fields_def calculate_length_fields [OF assms(1)])
qed

lemma generate_room:
  assumes "ad_typed ad" and "calculate_length ad \<le> 31" and "ba_name ad = None \<or> length (tlvs (ad_before ad)) < 30"
  shows "bt_ad_generate (Some ad) = Some (Some (calculate_length ad), Some (tlvs (ad_fields ad)))"
proof -
  let ?n = "calculate_length ad" and ?b = "tlvs (ad_before ad)"
  let ?nf = "name_field (ba_name ad) (length ?b)"
  let ?af = "if ba_appearance ad = UINT16_MAX then [] else [(BT_AD_GAP_APPEARANCE, le16_bytes (ba_appearance ad))]"
  have len: "length (tlvs (ad_fields ad)) = ?n" by (rule fields_length [OF assms(1,3)])
  then have total: "?n = length ?b + length (tlvs ?nf) + length (tlvs (ad_after ad))" by (simp add: ad_fields_def)
  then have b: "length ?b \<le> ?n" by simp
  note gen = before_pkt [OF b assms(2,1)]
  have name: "serialize_name (ba_name ad) (pkt ?n ?b) = Some (pkt ?n (?b @ tlvs ?nf))"
  proof (cases "ba_name ad")
    case None
    then show ?thesis by (simp add: serialize_name_def name_field_def)
  next
    case (Some v)
    then show ?thesis using total assms(2,3) by (intro name_pkt) auto
  qed
  have app: "serialize_appearance (ba_appearance ad) (pkt ?n (?b @ tlvs ?nf)) = Some (pkt ?n ((?b @ tlvs ?nf) @ tlvs ?af))"
    using total assms(2) by (intro appearance_pkt) (auto simp: ad_after_def)
  have data: "serialize_data (ba_data ad) (pkt ?n ((?b @ tlvs ?nf) @ tlvs ?af)) =
      Some (pkt ?n (((?b @ tlvs ?nf) @ tlvs ?af) @ tlvs (map data_field (ba_data ad))))"
    using total assms(2) by (intro data_pkt) (simp_all add: ad_after_def split: if_splits)
  have fields: "((?b @ tlvs ?nf) @ tlvs ?af) @ tlvs (map data_field (ba_data ad)) = tlvs (ad_fields ad)"
    by (simp add: ad_fields_def ad_after_def)
  have "bt_ad_generate (Some ad) = Some (Some ?n, Some (fst (pkt ?n (tlvs (ad_fields ad)))))"
    using assms(2) name app data unfolding fields
    by (simp add: gen bt_ad_generate_def MAX_ADV_DATA_LEN_def Let_def split: prod.split)
  then show ?thesis using len by (simp add: pkt_def)
qed

lemma generate_fields:
  assumes "ad_typed ad"
  shows "bt_ad_generate (Some ad) =
     (let n = calculate_length ad; before = length (tlvs (ad_before ad))
      in if n > 31 then Some (Some n, None)
         else if ba_name ad \<noteq> None \<and> before \<ge> 30 then None
         else Some (Some (length (tlvs (ad_fields ad))), Some (tlvs (ad_fields ad))))"
proof -
  let ?n = "calculate_length ad" and ?b = "tlvs (ad_before ad)"
  note n = calculate_length_fields [OF assms]
  show ?thesis
  proof (cases "?n > 31")
    case True
    then show ?thesis by (simp add: bt_ad_generate_def MAX_ADV_DATA_LEN_def Let_def)
  next
    case False
    then have b: "length ?b \<le> ?n" "?n \<le> 31" using n by simp_all
    note gen = before_pkt [OF b assms]
    show ?thesis
    proof (cases "ba_name ad \<noteq> None \<and> length ?b \<ge> 30")
      case True
      then have "length ?b \<in> {30, 31}" using b by auto
      with True have "serialize_name (ba_name ad) (pkt ?n ?b) = None" using name_pkt_no_room b(2) by auto
      then show ?thesis using False True by (simp add: gen bt_ad_generate_def MAX_ADV_DATA_LEN_def Let_def)
    next
      case ok: False
      then have room: "ba_name ad = None \<or> length ?b < 30" by auto
      then have "bt_ad_generate (Some ad) = Some (Some ?n, Some (tlvs (ad_fields ad)))"
        using generate_room [OF assms _ room] b(2) by simp
      then show ?thesis using False ok fields_length [OF assms room] by (simp add: Let_def)
    qed
  qed
qed

text \<open>A name behind 30 or more bytes: the length is that of a whole packet, whatever the name.\<close>

lemma name_length_no_room:
  assumes "30 \<le> pos" and "pos \<le> 31"
  shows "name_length (Some v) pos = 31 - pos"
  using assms by (auto simp: name_length_def MAX_ADV_DATA_LEN_def Let_def)

lemma no_room_length:
  assumes "ad_typed ad" and "ba_name ad = Some v" and "30 \<le> length (tlvs (ad_before ad))"
  shows "calculate_length ad \<le> 31 \<longleftrightarrow> length (tlvs (ad_before ad)) \<le> 31 \<and> ad_after ad = []"
proof (cases "length (tlvs (ad_before ad)) \<le> 31")
  case True
  then have "calculate_length ad = 31 + length (tlvs (ad_after ad))"
    using calculate_length_fields [OF assms(1)] name_length_no_room [OF assms(3)] by (simp add: assms(2))
  then show ?thesis using True by (cases "ad_after ad") simp_all
next
  case False
  then show ?thesis using calculate_length_fields [OF assms(1)] by simp
qed

text \<open>
  C22: With UUIDs of a type, and no name or at most 29 bytes in front of it, the packet is made exactly when its fields
  take no more than 31 bytes: it then consists of these fields, in the order UUIDs, solicited UUIDs, manufacturer data,
  service data, name, appearance and other data, and nothing else; otherwise the answer is \<open>NULL\<close>, with the length of
  the fields either way. The name is cut to what the fields in front of it leave of 31 bytes, so that a long name alone
  is never refused. A name behind 30 or 31 bytes, with nothing after it, is written outside the packet; behind more, or
  with more to come, the answer is \<open>NULL\<close>.
\<close>

theorem ad_generate_exact:
  assumes "ad_typed ad"
  shows "(ba_name ad = None \<or> length (tlvs (ad_before ad)) \<le> 29 \<longrightarrow>
      bt_ad_generate (Some ad) = Some (Some (length (tlvs (ad_fields ad))),
        if length (tlvs (ad_fields ad)) \<le> 31 then Some (tlvs (ad_fields ad)) else None)) \<and>
    (ba_name ad \<noteq> None \<and> length (tlvs (ad_before ad)) \<in> {30, 31} \<and> ad_after ad = [] \<longrightarrow>
      bt_ad_generate (Some ad) = None) \<and>
    (ba_name ad \<noteq> None \<and> (32 \<le> length (tlvs (ad_before ad)) \<or> 30 \<le> length (tlvs (ad_before ad)) \<and> ad_after ad \<noteq> []) \<longrightarrow>
      (\<exists>n>31. bt_ad_generate (Some ad) = Some (Some n, None)))"
proof (intro conjI impI)
  note gen = generate_fields [OF assms, unfolded Let_def]
  assume "ba_name ad = None \<or> length (tlvs (ad_before ad)) \<le> 29"
  then show "bt_ad_generate (Some ad) = Some (Some (length (tlvs (ad_fields ad))),
      if length (tlvs (ad_fields ad)) \<le> 31 then Some (tlvs (ad_fields ad)) else None)"
    using fields_length [OF assms] unfolding gen by auto
next
  note gen = generate_fields [OF assms, unfolded Let_def]
  assume "ba_name ad \<noteq> None \<and> length (tlvs (ad_before ad)) \<in> {30, 31} \<and> ad_after ad = []"
  then show "bt_ad_generate (Some ad) = None" using no_room_length [OF assms] unfolding gen by auto
next
  note gen = generate_fields [OF assms, unfolded Let_def]
  assume "ba_name ad \<noteq> None \<and> (32 \<le> length (tlvs (ad_before ad)) \<or> 30 \<le> length (tlvs (ad_before ad)) \<and> ad_after ad \<noteq> [])"
  then show "\<exists>n>31. bt_ad_generate (Some ad) = Some (Some n, None)"
    using no_room_length [OF assms] unfolding gen by fastforce
qed

text \<open>A name of 40 bytes behind a service, and one behind 30 bytes of manufacturer data.\<close>

definition long_name_ad :: bt_ad where
  "long_name_ad = \<lparr>ba_ref_count = 1, ba_name = Some (replicate 40 0x41), ba_appearance = UINT16_MAX,
     ba_service_uuids = [UUID16 0x180F], ba_manufacturer_data = [], ba_solicit_uuids = [], ba_service_data = [], ba_data = []\<rparr>"

definition no_room_ad :: bt_ad where
  "no_room_ad = \<lparr>ba_ref_count = 1, ba_name = Some [0x41], ba_appearance = UINT16_MAX, ba_service_uuids = [],
     ba_manufacturer_data = [\<lparr>bm_id = 2, bm_data = replicate 26 7\<rparr>], ba_solicit_uuids = [], ba_service_data = [], ba_data = []\<rparr>"

theorem ad_generate_exact_witness:
  "bt_ad_generate (Some long_name_ad) = Some (Some 31, Some ([3, 3, 0x0F, 0x18, 26, 8] @ replicate 25 0x41)) \<and>
   bt_ad_generate (Some no_room_ad) = None"
proof -
  have "ad_typed long_name_ad" "ad_typed no_room_ad" by (simp_all add: ad_typed_def typed_def long_name_ad_def no_room_ad_def)
  moreover have "tlvs (ad_fields long_name_ad) = [3, 3, 0x0F, 0x18, 26, 8] @ replicate 25 0x41"
    "length (tlvs (ad_before long_name_ad)) = 4" "length (tlvs (ad_before no_room_ad)) = 30" "ad_after no_room_ad = []"
    by code_simp+
  moreover have "ba_name no_room_ad \<noteq> None" by (simp add: no_room_ad_def)
  ultimately show ?thesis
    using ad_generate_exact [of long_name_ad] ad_generate_exact [of no_room_ad] by simp
qed

end
