(* ===== verification/Ad_Peer.thy ===== *)
theory Ad_Peer
  imports Ad_Packet
begin

text \<open>
  Every advertising object that the operations of \<open>src/shared/ad.c\<close> make, and what the receiver of its packet
  learns from it (\<open>eir_parse\<close> of \<open>src/eir.c\<close>).
\<close>

section \<open>Objects the operations make\<close>

definition ad_ok :: "bt_ad \<Rightarrow> bool" where
  "ad_ok ad \<longleftrightarrow> ad_typed ad \<and>
     distinct (map bm_id (ba_manufacturer_data ad)) \<and> (\<forall>m\<in>set (ba_manufacturer_data ad). length (bm_data m) \<le> 27) \<and>
     sorted_wrt (\<lambda>s t. bt_uuid_cmp (bs_uuid s) (bs_uuid t) \<noteq> Some 0) (ba_service_data ad) \<and>
     (\<forall>s\<in>set (ba_service_data ad). length (bs_data s) \<le> 27) \<and>
     distinct (map bd_type (ba_data ad)) \<and>
     (\<forall>a\<in>set (ba_data ad). length (bd_data a) \<le> 29 \<and>
        (if bd_type a = BT_AD_FLAGS then length (bd_data a) \<le> 1 else bd_type a \<notin> set type_blacklist))"

text \<open>
  Service data is added for a UUID in a short form also when the long form of it is there, which then keeps the
  data, although the length was tested for the short form: only 27 bytes are sure.

  A client gives UUIDs that have a type.\<close>

inductive ad_run :: "bt_ad \<Rightarrow> bool" where
  new: "bt_ad_new = Some ad \<Longrightarrow> ad_run ad"
| ref: "ad_run ad \<Longrightarrow> bt_ad_ref (Some ad) = Some ad' \<Longrightarrow> ad_run ad'"
| unref: "ad_run ad \<Longrightarrow> bt_ad_unref (Some ad) = Some ad' \<Longrightarrow> ad_run ad'"
| add_service_uuid: "ad_run ad \<Longrightarrow> typed u \<Longrightarrow> bt_ad_add_service_uuid (Some ad) u = Some (r, Some ad') \<Longrightarrow> ad_run ad'"
| remove_service_uuid: "ad_run ad \<Longrightarrow> bt_ad_remove_service_uuid (Some ad) v = Some (r, Some ad') \<Longrightarrow> ad_run ad'"
| clear_service_uuid: "ad_run ad \<Longrightarrow> bt_ad_clear_service_uuid (Some ad) = Some (x, Some ad') \<Longrightarrow> ad_run ad'"
| add_solicit_uuid: "ad_run ad \<Longrightarrow> typed u \<Longrightarrow> bt_ad_add_solicit_uuid (Some ad) u = Some (r, Some ad') \<Longrightarrow> ad_run ad'"
| remove_solicit_uuid: "ad_run ad \<Longrightarrow> bt_ad_remove_solicit_uuid (Some ad) v = Some (r, Some ad') \<Longrightarrow> ad_run ad'"
| clear_solicit_uuid: "ad_run ad \<Longrightarrow> bt_ad_clear_solicit_uuid (Some ad) = Some (x, Some ad') \<Longrightarrow> ad_run ad'"
| add_manufacturer_data: "ad_run ad \<Longrightarrow> bt_ad_add_manufacturer_data (Some ad) i d n = Some (r, Some ad') \<Longrightarrow> ad_run ad'"
| remove_manufacturer_data: "ad_run ad \<Longrightarrow> bt_ad_remove_manufacturer_data (Some ad) i = Some (r, Some ad') \<Longrightarrow> ad_run ad'"
| clear_manufacturer_data: "ad_run ad \<Longrightarrow> bt_ad_clear_manufacturer_data (Some ad) = Some (x, Some ad') \<Longrightarrow> ad_run ad'"
| add_service_data: "ad_run ad \<Longrightarrow> typed u \<Longrightarrow> bt_ad_add_service_data (Some ad) u d n = Some (r, Some ad') \<Longrightarrow> ad_run ad'"
| remove_service_data: "ad_run ad \<Longrightarrow> bt_ad_remove_service_data (Some ad) u = Some (r, Some ad') \<Longrightarrow> ad_run ad'"
| clear_service_data: "ad_run ad \<Longrightarrow> bt_ad_clear_service_data (Some ad) = Some (x, Some ad') \<Longrightarrow> ad_run ad'"
| add_name: "ad_run ad \<Longrightarrow> bt_ad_add_name (Some ad) d = Some (r, Some ad') \<Longrightarrow> ad_run ad'"
| clear_name: "ad_run ad \<Longrightarrow> bt_ad_clear_name (Some ad) = Some (x, Some ad') \<Longrightarrow> ad_run ad'"
| add_appearance: "ad_run ad \<Longrightarrow> bt_ad_add_appearance (Some ad) i = Some (r, Some ad') \<Longrightarrow> ad_run ad'"
| clear_appearance: "ad_run ad \<Longrightarrow> bt_ad_clear_appearance (Some ad) = Some (x, Some ad') \<Longrightarrow> ad_run ad'"
| add_flags: "ad_run ad \<Longrightarrow> bt_ad_add_flags (Some ad) d n = Some (r, Some ad') \<Longrightarrow> ad_run ad'"
| clear_flags: "ad_run ad \<Longrightarrow> bt_ad_clear_flags (Some ad) = Some (x, Some ad') \<Longrightarrow> ad_run ad'"
| add_data: "ad_run ad \<Longrightarrow> bt_ad_add_data (Some ad) t d n = Some (r, Some ad') \<Longrightarrow> ad_run ad'"
| remove_data: "ad_run ad \<Longrightarrow> bt_ad_remove_data (Some ad) t = Some (r, Some ad') \<Longrightarrow> ad_run ad'"
| clear_data: "ad_run ad \<Longrightarrow> bt_ad_clear_data (Some ad) = Some (x, Some ad') \<Longrightarrow> ad_run ad'"

lemma queue_index_Some:
  "queue_index f xs = Some (Some i) \<Longrightarrow> i < length xs \<and> f (xs ! i) = Some True \<and> (\<forall>j<i. f (xs ! j) = Some False)"
proof (induction xs arbitrary: i)
  case (Cons x xs)
  then show ?case by (auto simp: less_Suc_eq_0_disj split: option.splits bool.splits)
qed simp

lemma queue_index_None: "queue_index f xs = Some None \<longleftrightarrow> (\<forall>x\<in>set xs. f x = Some False)"
  by (induction xs) (auto split: option.splits bool.splits)

lemma queue_remove_if_cases:
  assumes "queue_remove_if f xs = Some (r, ys)"
  shows "ys = xs \<or> (\<exists>i. ys = remove_nth i xs)"
  using assms by (auto simp: queue_remove_if_def bind_eq_Some_conv split: option.splits)

lemma remove_nth_simps [simp]:
  "remove_nth i [] = []" "remove_nth 0 (x # xs) = xs" "remove_nth (Suc i) (x # xs) = x # remove_nth i xs"
  by (simp_all add: remove_nth_def)

lemma remove_nth_set: "set (remove_nth i xs) \<subseteq> set xs"
  unfolding remove_nth_def by (auto dest: in_set_takeD in_set_dropD)

lemma remove_nth_sorted: "sorted_wrt p xs \<Longrightarrow> sorted_wrt p (remove_nth i xs)"
proof (induction xs arbitrary: i)
  case (Cons x xs)
  then show ?case using remove_nth_set by (cases i) fastforce+
qed simp

lemma distinct_map_sorted: "distinct (map g xs) \<longleftrightarrow> sorted_wrt (\<lambda>x y. g x \<noteq> g y) xs"
  by (induction xs) auto

text \<open>A relation that only looks at what an update leaves alone is kept by the update.\<close>

lemma sorted_wrt_update:
  assumes "sorted_wrt p xs" and "i < length xs"
    and "\<And>z. p (xs ! i) z \<Longrightarrow> p y z" and "\<And>z. p z (xs ! i) \<Longrightarrow> p z y"
  shows "sorted_wrt p (xs[i := y])"
  using assms by (auto simp: sorted_wrt_iff_nth_less nth_list_update)

section \<open>The operations keep the invariant\<close>

lemmas ad_ops = bt_ad_add_service_uuid_def bt_ad_remove_service_uuid_def bt_ad_clear_service_uuid_def
  bt_ad_add_solicit_uuid_def bt_ad_remove_solicit_uuid_def bt_ad_clear_solicit_uuid_def
  bt_ad_add_manufacturer_data_def bt_ad_remove_manufacturer_data_def bt_ad_clear_manufacturer_data_def
  bt_ad_add_service_data_def bt_ad_remove_service_data_def bt_ad_clear_service_data_def
  bt_ad_add_name_def bt_ad_clear_name_def bt_ad_add_appearance_def bt_ad_clear_appearance_def
  bt_ad_add_flags_def bt_ad_clear_flags_def bt_ad_add_data_def bt_ad_remove_data_def bt_ad_clear_data_def

text \<open>The parts of the invariant.\<close>

definition manuf_ok :: "bt_ad_manufacturer_data list \<Rightarrow> bool" where
  "manuf_ok q \<longleftrightarrow> distinct (map bm_id q) \<and> (\<forall>m\<in>set q. length (bm_data m) \<le> 27)"

definition sdata_ok :: "bt_ad_service_data list \<Rightarrow> bool" where
  "sdata_ok q \<longleftrightarrow> sorted_wrt (\<lambda>s t. bt_uuid_cmp (bs_uuid s) (bs_uuid t) \<noteq> Some 0) q \<and>
     (\<forall>s\<in>set q. typed (bs_uuid s) \<and> length (bs_data s) \<le> 27)"

definition data_ok :: "bt_ad_data list \<Rightarrow> bool" where
  "data_ok q \<longleftrightarrow> distinct (map bd_type q) \<and>
     (\<forall>a\<in>set q. length (bd_data a) \<le> 29 \<and>
        (if bd_type a = BT_AD_FLAGS then length (bd_data a) \<le> 1 else bd_type a \<notin> set type_blacklist))"

lemma ad_ok_parts:
  "ad_ok ad \<longleftrightarrow> (\<forall>u\<in>set (ba_service_uuids ad). typed u) \<and> (\<forall>u\<in>set (ba_solicit_uuids ad). typed u) \<and>
     manuf_ok (ba_manufacturer_data ad) \<and> sdata_ok (ba_service_data ad) \<and> data_ok (ba_data ad)"
  unfolding ad_ok_def ad_typed_def manuf_ok_def sdata_ok_def data_ok_def by blast

lemma remove_ok:
  assumes "queue_remove_if f q = Some (r, q')"
  shows "set q' \<subseteq> set q" "sorted_wrt p q \<Longrightarrow> sorted_wrt p q'"
  using queue_remove_if_cases [OF assms] remove_nth_set [of _ q] remove_nth_sorted [of p q] by auto

lemma remove_parts:
  "queue_remove_if f q = Some (r, q') \<Longrightarrow> manuf_ok q \<Longrightarrow> manuf_ok q'"
  "queue_remove_if g p = Some (r, p') \<Longrightarrow> sdata_ok p \<Longrightarrow> sdata_ok p'"
  "queue_remove_if h d = Some (r, d') \<Longrightarrow> data_ok d \<Longrightarrow> data_ok d'"
  unfolding manuf_ok_def sdata_ok_def data_ok_def distinct_map_sorted using remove_ok by blast+

lemma data_ok_filter: "data_ok q \<Longrightarrow> data_ok (filter p q)"
  by (auto simp: data_ok_def distinct_map_filter)

lemma add_manuf_ok:
  assumes "manuf_ok q" and "queue_index (\<lambda>m. manufacturer_id_data_match m k) q = Some i" and "length d \<le> 27"
  shows "case i of None \<Rightarrow> manuf_ok (q @ [\<lparr>bm_id = k, bm_data = d\<rparr>])
    | Some i \<Rightarrow> manuf_ok (q[i := (q ! i)\<lparr>bm_data := d\<rparr>])"
proof (cases i)
  case None
  then show ?thesis using assms by (auto simp: queue_index_None manufacturer_id_data_match_def manuf_ok_def)
next
  case (Some j)
  then have "j < length q" using assms(2) queue_index_Some by blast
  then show ?thesis using assms Some unfolding manuf_ok_def distinct_map_sorted
    by (auto intro!: sorted_wrt_update dest!: set_update_subset_insert [THEN subsetD])
qed

lemma add_sdata_ok:
  assumes "sdata_ok q" and "typed u" and "queue_index (\<lambda>s. service_uuid_match s u) q = Some i"
    and "length d \<le> 27"
  shows "case i of None \<Rightarrow> sdata_ok (q @ [\<lparr>bs_uuid = u, bs_data = d\<rparr>])
    | Some i \<Rightarrow> sdata_ok (q[i := (q ! i)\<lparr>bs_data := d\<rparr>])"
proof (cases i)
  case None
  then show ?thesis using assms
    by (auto simp: queue_index_None service_uuid_match_def sdata_ok_def sorted_wrt_append)
next
  case (Some j)
  then have "j < length q" using assms(3) queue_index_Some by blast
  moreover from this have "q ! j \<in> set q" by simp
  ultimately show ?thesis using assms Some unfolding sdata_ok_def
    by (auto intro!: sorted_wrt_update dest!: set_update_subset_insert [THEN subsetD])
qed

lemma add_data_ok:
  assumes "data_ok q" and "queue_index (\<lambda>a. data_type_match a t) q = Some i" and "length d \<le> 29"
    and "if t = BT_AD_FLAGS then length d \<le> 1 else t \<notin> set type_blacklist"
  shows "case i of None \<Rightarrow> data_ok (q @ [\<lparr>bd_type = t, bd_data = d\<rparr>])
    | Some i \<Rightarrow> data_ok (q[i := (q ! i)\<lparr>bd_data := d\<rparr>])"
proof (cases i)
  case None
  then show ?thesis using assms by (auto simp: queue_index_None data_type_match_def data_ok_def)
next
  case (Some j)
  then have "j < length q" "bd_type (q ! j) = t"
    using assms(2) queue_index_Some [of _ q j] by (auto simp: data_type_match_def)
  then show ?thesis using assms Some unfolding data_ok_def distinct_map_sorted
    by (auto intro!: sorted_wrt_update dest!: set_update_subset_insert [THEN subsetD] split: if_splits)
qed


lemma typed_len: "typed u \<Longrightarrow> 2 \<le> bt_uuid_len u"
  by (cases u) (auto simp: typed_def)

lemma replace_data_ok:
  assumes "ad_replace_data ad t d n = Some (r, ad')" and "ad_ok ad" and "n \<le> 29"
    and "if t = BT_AD_FLAGS then n \<le> 1 else t \<notin> set type_blacklist"
  shows "ad_ok ad'"
proof -
  obtain i b where i: "queue_index (\<lambda>a. data_type_match a t) (ba_data ad) = Some i" "buf_read d 0 n = Some b"
    using assms(1) by (auto simp: ad_replace_data_def bind_eq_Some_conv)
  then have "length b = n" using buf_read_length by blast
  moreover have "data_ok (ba_data ad)" using assms(2) by (simp add: ad_ok_parts)
  ultimately have "case i of None \<Rightarrow> data_ok (ba_data ad @ [\<lparr>bd_type = t, bd_data = b\<rparr>])
    | Some i \<Rightarrow> data_ok ((ba_data ad)[i := (ba_data ad ! i)\<lparr>bd_data := b\<rparr>])"
    using i(1) assms(3,4) by (intro add_data_ok) auto
  then show ?thesis using assms(1,2) i
    by (auto simp: ad_replace_data_def ad_ok_parts Let_def split: option.splits if_splits)
qed

lemma add_manufacturer_ok:
  assumes "bt_ad_add_manufacturer_data (Some ad) k d n = Some (r, Some ad')" and "ad_ok ad"
  shows "ad_ok ad'"
proof (cases "n > MAX_ADV_DATA_LEN - 2 - 2")
  case True
  then show ?thesis using assms by (simp add: bt_ad_add_manufacturer_data_def)
next
  case False
  then obtain i b where i: "queue_index (\<lambda>m. manufacturer_id_data_match m k) (ba_manufacturer_data ad) = Some i"
    "buf_read d 0 n = Some b"
    using assms(1) by (auto simp: bt_ad_add_manufacturer_data_def bind_eq_Some_conv)
  then have "length b \<le> 27" using buf_read_length False by (fastforce simp: MAX_ADV_DATA_LEN_def)
  moreover have "manuf_ok (ba_manufacturer_data ad)" using assms(2) by (simp add: ad_ok_parts)
  ultimately have "case i of None \<Rightarrow> manuf_ok (ba_manufacturer_data ad @ [\<lparr>bm_id = k, bm_data = b\<rparr>])
    | Some i \<Rightarrow> manuf_ok ((ba_manufacturer_data ad)[i := (ba_manufacturer_data ad ! i)\<lparr>bm_data := b\<rparr>])"
    using i(1) by (intro add_manuf_ok) auto
  then show ?thesis using assms i False
    by (auto simp: bt_ad_add_manufacturer_data_def ad_ok_parts Let_def split: option.splits if_splits)
qed

lemma add_service_data_ok:
  assumes "bt_ad_add_service_data (Some ad) u d n = Some (r, Some ad')" and "ad_ok ad" and "typed u"
  shows "ad_ok ad'"
proof (cases "n > MAX_ADV_DATA_LEN - 2 - bt_uuid_len u")
  case True
  then show ?thesis using assms by (simp add: bt_ad_add_service_data_def)
next
  case False
  then obtain i b where i: "queue_index (\<lambda>s. service_uuid_match s u) (ba_service_data ad) = Some i"
    "buf_read d 0 n = Some b"
    using assms(1) by (auto simp: bt_ad_add_service_data_def bind_eq_Some_conv)
  then have "length b \<le> 27"
    using buf_read_length [OF i(2)] False typed_len [OF assms(3)] by (simp add: MAX_ADV_DATA_LEN_def)
  moreover have "sdata_ok (ba_service_data ad)" using assms(2) by (simp add: ad_ok_parts)
  ultimately have "case i of None \<Rightarrow> sdata_ok (ba_service_data ad @ [\<lparr>bs_uuid = u, bs_data = b\<rparr>])
    | Some i \<Rightarrow> sdata_ok ((ba_service_data ad)[i := (ba_service_data ad ! i)\<lparr>bs_data := b\<rparr>])"
    using i(1) assms(3) by (intro add_sdata_ok) auto
  then show ?thesis using assms i False
    by (auto simp: bt_ad_add_service_data_def ad_ok_parts Let_def split: option.splits if_splits)
qed

lemma remove_uuid_ok:
  "queue_remove_uuid q v = Some (r, q') \<Longrightarrow> \<forall>u\<in>set q. typed u \<Longrightarrow> \<forall>u\<in>set q'. typed u"
  by (auto simp: queue_remove_uuid_def split: option.splits dest: remove_ok(1))

lemma ad_run_ok: "ad_run ad \<Longrightarrow> ad_ok ad"
proof (induction rule: ad_run.induct)
  case (add_manufacturer_data ad i d n r ad')
  then show ?case by (blast intro: add_manufacturer_ok)
next
  case (add_service_data ad u d n r ad')
  then show ?case by (blast intro: add_service_data_ok)
next
  case (add_flags ad d n r ad')
  then show ?case
    by (auto simp: bt_ad_add_flags_def bind_eq_Some_conv split: if_splits intro: replace_data_ok)
next
  case (add_data ad t d n r ad')
  then show ?case
    by (auto simp: bt_ad_add_data_def MAX_ADV_DATA_LEN_def type_blacklist_def split: if_splits
        elim!: replace_data_ok)
next
  case (remove_manufacturer_data ad i r ad')
  then show ?case by (auto simp: ad_ok_parts bt_ad_remove_manufacturer_data_def bind_eq_Some_conv intro: remove_parts)
next
  case (remove_service_data ad u r ad')
  then show ?case by (auto simp: ad_ok_parts bt_ad_remove_service_data_def bind_eq_Some_conv intro: remove_parts)
next
  case (remove_data ad t r ad')
  then show ?case by (auto simp: ad_ok_parts bt_ad_remove_data_def bind_eq_Some_conv intro: remove_parts)
next
  case (remove_service_uuid ad v r ad')
  then show ?case by (auto simp: ad_ok_parts bt_ad_remove_service_uuid_def bind_eq_Some_conv dest: remove_uuid_ok)
next
  case (remove_solicit_uuid ad v r ad')
  then show ?case by (auto simp: ad_ok_parts bt_ad_remove_solicit_uuid_def bind_eq_Some_conv dest: remove_uuid_ok)
next
  case (clear_flags ad x ad')
  then show ?case by (auto simp: ad_ok_parts bt_ad_clear_flags_def intro: data_ok_filter)
next
  case (new ad)
  then show ?case by (auto simp: ad_ok_parts bt_ad_new_def manuf_ok_def sdata_ok_def data_ok_def)
qed (auto simp: ad_ok_parts ad_ops queue_add_uuid_def manuf_ok_def sdata_ok_def data_ok_def Let_def split: if_splits)


section \<open>What the receiver reads\<close>

text \<open>The text of a UUID, the same in the two libraries (\<open>lib/uuid.c\<close> and \<open>src/uuid-helper.c\<close>).\<close>

definition uuid_text :: "bt_uuid \<Rightarrow> string" where
  "uuid_text u = the (snd (bt_uuid_to_string (Some u) MAX_LEN_UUID_STR))"

lemma uuid_text_cases:
  assumes "uuid_wf u" and "u \<noteq> UNSPEC"
  shows "uuid_text u = (case u of UUID16 v \<Rightarrow> text16 v | UUID32 v \<Rightarrow> text32 v | UUID128 t \<Rightarrow> uuid128_text (u128_data t))"
proof -
  obtain d where d: "bt_uuid_to_uuid128 u None = Some (UUID128 (Uint128 d))" "length d = 16"
    using to_uuid128_wf [OF assms] by blast
  have "length (uuid128_text d) = 36" using uuid128_text_is_uuid128 [OF d(2)] by (simp add: is_uuid128_def)
  then have "uuid_text u = uuid128_text d"
    using assms(2) d(1) by (cases u) (simp_all add: uuid_text_def snprintf_def MAX_LEN_UUID_STR_def)
  then show ?thesis using d(1)
    by (cases u) (simp_all add: text16_def text32_def uuid_data_expand bt_uuid16_to_uuid128_def bt_uuid32_to_uuid128_def)
qed

lemma le32_at_bytes: "le32_at (rev (be32_bytes v) @ r) 0 = Some v"
  by (simp add: le32_at_def buf_read_def le32_val_def be32_bytes_def)

lemma bswap_le128: "bswap_128 t = le128 (u128_data t)"
  by (simp add: bswap_128_def le128_def)

text \<open>The UUIDs of a type as the parser meets them.\<close>

definition of_type :: "nat \<Rightarrow> bt_uuid list \<Rightarrow> bt_uuid list" where
  "of_type n q = filter (\<lambda>u. bt_uuid_type u = n) q"

lemma type_bytes_loops:
  assumes "\<forall>u\<in>set q. typed u"
  shows "uuid16_loop (length (of_type 16 q)) (type_bytes 16 q) e = Some (add_services (map uuid_text (of_type 16 q)) e)"
    "uuid32_loop (length (of_type 32 q)) (type_bytes 32 q) e = Some (add_services (map uuid_text (of_type 32 q)) e)"
    "uuid128_loop (length (of_type 128 q)) (type_bytes 128 q) e = Some (add_services (map uuid_text (of_type 128 q)) e)"
  using assms
proof (induction q arbitrary: e)
  case (Cons u q)
  case 1
  then show ?case using Cons(1) by (cases u)
    (auto simp: of_type_def uuid_bytes_def add_service_texts uuid_text_cases typed_def)
next
  case (Cons u q)
  case 2
  then show ?case using Cons(2) by (cases u)
    (auto simp: of_type_def uuid_bytes_def add_service_texts uuid_text_cases typed_def le32_at_bytes)
next
  case (Cons u q)
  case 3
  then show ?case using Cons(3) by (cases u)
    (auto simp: of_type_def uuid_bytes_def add_service_texts uuid_text_cases typed_def bswap_le128 rev16_le128)
qed (simp_all add: of_type_def)

lemma type_bytes_length:
  "\<forall>u\<in>set q. typed u \<Longrightarrow> length (type_bytes m q) = (m div 8) * length (of_type m q)"
proof (induction q)
  case (Cons u q)
  then show ?case using bt_uuid_len_type [of u] by (simp add: of_type_def uuid_bytes_length)
qed (simp add: of_type_def)

lemma uuid_type_field_bytes: "uuid_type_field m t q = (if of_type m q = [] then [] else [(t, type_bytes m q)])"
  by (simp add: uuid_type_field_def type_bytes_def of_type_def Let_def)

lemma service_fields_seen:
  assumes "\<forall>u\<in>set q. typed u" and "length (tlvs (service_fields q)) \<le> 31"
  shows "eir_fields u s (service_fields q) e = Some (add_services (map uuid_text (of_type 16 q @ of_type 32 q @ of_type 128 q)) e)"
proof -
  have len: "length (type_bytes m q) \<le> 31" if "m = 16 \<or> m = 32 \<or> m = 128" for m
    using assms(2) that unfolding service_fields_def uuid_type_field_bytes
    by (cases "of_type m q = []") (auto simp: type_bytes_def of_type_def)
  have n: "unat (of_nat (length (type_bytes m q)) :: u8) div (m div 8) = length (of_type m q)" if "m = 16 \<or> m = 32 \<or> m = 128" for m
    using len [OF that] that unat_of_nat_small [of "length (type_bytes m q)", where 'a = 8]
      type_bytes_length [OF assms(1), of m] by auto
  have "eir_fields u s (uuid_type_field 16 BT_AD_UUID16_ALL q) e = Some (add_services (map uuid_text (of_type 16 q)) e)" for e
    using n [of 16] type_bytes_loops(1) [OF assms(1), of e]
    by (simp add: uuid_type_field_bytes eir_field_def eir_parse_uuid16_def)
  moreover have "eir_fields u s (uuid_type_field 32 BT_AD_UUID32_ALL q) e = Some (add_services (map uuid_text (of_type 32 q)) e)" for e
    using n [of 32] type_bytes_loops(2) [OF assms(1), of e]
    by (simp add: uuid_type_field_bytes eir_field_def eir_parse_uuid32_def)
  moreover have "eir_fields u s (uuid_type_field 128 BT_AD_UUID128_ALL q) e = Some (add_services (map uuid_text (of_type 128 q)) e)" for e
    using n [of 128] type_bytes_loops(3) [OF assms(1), of e]
    by (simp add: uuid_type_field_bytes eir_field_def eir_parse_uuid128_def)
  ultimately show ?thesis by (simp add: service_fields_def eir_fields_append)
qed

text \<open>Fields that the parser keeps as they are.\<close>

definition kept :: "field list \<Rightarrow> eir_data \<Rightarrow> eir_data" where
  "kept fs e = e\<lparr>ed_data_list := ed_data_list e @ map (\<lambda>f. \<lparr>ad_type = fst f, ad_data = snd f\<rparr>) fs\<rparr>"

definition eir_types :: "u8 list" where
  "eir_types = [0x01, 0x02, 0x03, 0x04, 0x05, 0x06, 0x07, 0x08, 0x09, 0x0A, 0x0D, 0x0E, 0x0F, 0x10, 0x16, 0x19, 0x20, 0x21, 0xFF]"

lemma eir_field_kept:
  assumes "fst f \<notin> set eir_types" and "length (snd f) \<le> 254"
  shows "eir_field u s (fst f) (snd f) (of_nat (length (snd f))) e = Some (kept [f] e)"
proof -
  have "unat (of_nat (length (snd f)) :: u8) = length (snd f)" using assms(2) by (intro unat_of_nat_small) simp
  then show ?thesis using assms(1)
    by (simp add: eir_types_def eir_field_def eir_parse_data_def buf_read_def kept_def)
qed

lemma kept_simps: "kept [] e = e" "kept gs (kept fs e) = kept (fs @ gs) e"
  by (simp_all add: kept_def)

lemma eir_fields_kept:
  "\<forall>f\<in>set fs. fst f \<notin> set eir_types \<and> length (snd f) \<le> 254 \<Longrightarrow> eir_fields u s fs e = Some (kept fs e)"
  by (induction fs arbitrary: e) (simp_all add: eir_field_kept kept_simps)


lemma manuf_fields_seen:
  "\<forall>m\<in>set q. length (bm_data m) \<le> 27 \<Longrightarrow>
   eir_fields u s (map manuf_field q) e =
   Some (e\<lparr>ed_msd_list := ed_msd_list e @ map (\<lambda>m. \<lparr>msd_company = bm_id m, msd_data = bm_data m\<rparr>) q\<rparr>)"
proof (induction q arbitrary: e)
  case (Cons m q)
  have "unat (of_nat (length (snd (manuf_field m))) :: u8) = length (bm_data m) + 2"
    using Cons.prems unat_of_nat_small [of "length (snd (manuf_field m))", where 'a = 8] by (simp add: manuf_field_def)
  then have "eir_field u s (fst (manuf_field m)) (snd (manuf_field m)) (of_nat (length (snd (manuf_field m)))) e =
      Some (e\<lparr>ed_msd_list := ed_msd_list e @ [\<lparr>msd_company = bm_id m, msd_data = bm_data m\<rparr>]\<rparr>)"
    using Cons.prems
    by (simp add: manuf_field_def eir_field_def eir_parse_msd_def word_less_nat_alt EIR_MSD_MAX_LEN_def unat_minus_small
        buf_read_def del: of_nat_Suc of_nat_add)
  then show ?case using Cons by simp
qed simp

lemma parse_sd_whole:
  "unat n = length v \<Longrightarrow> length v \<le> 238 \<Longrightarrow> bt_uuid2string (Some w) = Some t \<Longrightarrow>
   eir_parse_sd e w v n = Some (e\<lparr>ed_sd_list := ed_sd_list e @ [\<lparr>sd_uuid = t, sd_data = v\<rparr>]\<rparr>)"
  by (simp add: eir_parse_sd_def EIR_SD_MAX_LEN_def word_le_nat_alt buf_read_def)

lemma parse_data_whole:
  assumes "length v \<le> 27"
  shows "unat n = length v + 2 \<Longrightarrow> eir_parse_uuid16_data e (le16_bytes a @ v) n =
      Some (e\<lparr>ed_sd_list := ed_sd_list e @ [\<lparr>sd_uuid = text16 a, sd_data = v\<rparr>]\<rparr>)"
    "unat n = length v + 4 \<Longrightarrow> eir_parse_uuid32_data e (rev (be32_bytes b) @ v) n =
      Some (e\<lparr>ed_sd_list := ed_sd_list e @ [\<lparr>sd_uuid = text32 b, sd_data = v\<rparr>]\<rparr>)"
    "unat n = length v + 16 \<Longrightarrow> length d = 16 \<Longrightarrow> eir_parse_uuid128_data e (le128 d @ v) n =
      Some (e\<lparr>ed_sd_list := ed_sd_list e @ [\<lparr>sd_uuid = uuid128_text d, sd_data = v\<rparr>]\<rparr>)"
  using assms unfolding eir_parse_uuid16_data_def eir_parse_uuid32_data_def eir_parse_uuid128_data_def
  by (simp_all add: EIR_SD_MAX_LEN_def word_less_nat_alt unat_minus_small parse_sd_whole text16_def text32_def
      le32_at_bytes [of b v] at_append(5) del: at_append(4))

lemma service_data_field_seen:
  assumes "typed (bs_uuid d)" and "length (bs_data d) \<le> 27"
  shows "eir_field u s (fst (service_data_field d)) (snd (service_data_field d)) (of_nat (length (snd (service_data_field d)))) e =
    Some (e\<lparr>ed_sd_list := ed_sd_list e @ [\<lparr>sd_uuid = uuid_text (bs_uuid d), sd_data = bs_data d\<rparr>]\<rparr>)"
proof -
  let ?n = "of_nat (length (snd (service_data_field d))) :: u8"
  have l: "length (snd (service_data_field d)) = bt_uuid_len (bs_uuid d) + length (bs_data d)"
    using assms(1) by (simp add: service_data_field_def uuid_bytes_length)
  moreover have "bt_uuid_len (bs_uuid d) \<le> 16" by (cases "bs_uuid d") simp_all
  ultimately have n: "unat ?n = length (bs_data d) + bt_uuid_len (bs_uuid d)"
    using assms(2) by (simp add: unat_of_nat_small del: of_nat_add)
  have t: "uuid_wf (bs_uuid d)" "bs_uuid d \<noteq> UNSPEC" using assms(1) by (simp_all add: typed_def)
  note tx = uuid_text_cases [OF t]
  show ?thesis
  proof (cases "bs_uuid d")
    case (UUID16 a)
    then show ?thesis using parse_data_whole(1) [OF assms(2), of ?n e a] n tx
      by (simp add: eir_field_def service_data_field_def uuid_bytes_def)
  next
    case (UUID32 b)
    then show ?thesis using parse_data_whole(2) [OF assms(2), of ?n e b] n tx
      by (simp add: eir_field_def service_data_field_def uuid_bytes_def)
  next
    case (UUID128 c)
    then show ?thesis using parse_data_whole(3) [OF assms(2), of ?n "u128_data c" e] n tx t
      by (simp add: eir_field_def service_data_field_def uuid_bytes_def bswap_le128)
  qed (use t in simp)
qed

lemma service_data_fields_seen:
  "\<forall>d\<in>set q. typed (bs_uuid d) \<and> length (bs_data d) \<le> 27 \<Longrightarrow>
   eir_fields u s (map service_data_field q) e =
   Some (e\<lparr>ed_sd_list := ed_sd_list e @ map (\<lambda>d. \<lparr>sd_uuid = uuid_text (bs_uuid d), sd_data = bs_data d\<rparr>) q\<rparr>)"
  by (induction q arbitrary: e) (simp_all add: service_data_field_seen)

text \<open>Other data: the flags, and entries whose types the parser does not interpret.\<close>

definition set_flags :: "bt_ad_data list \<Rightarrow> eir_data \<Rightarrow> eir_data" where
  "set_flags q e =
     (case find (\<lambda>a. bd_type a = BT_AD_FLAGS \<and> bd_data a \<noteq> []) q of None \<Rightarrow> e | Some a \<Rightarrow> e\<lparr>ed_flags := ucast (hd (bd_data a))\<rparr>)"

definition plain_data :: "bt_ad_data list \<Rightarrow> field list" where
  "plain_data q = map data_field (filter (\<lambda>a. bd_type a \<noteq> BT_AD_FLAGS) q)"

lemma blacklist_eir_types: "t \<notin> set type_blacklist \<Longrightarrow> t \<notin> set eir_types"
  by (auto simp: type_blacklist_def eir_types_def)

lemma find_none_type: "t \<notin> bd_type ` set q \<Longrightarrow> find (\<lambda>a. bd_type a = t \<and> r a) q = None"
  by (induction q) auto

lemma data_fields_seen:
  assumes "data_ok q"
  shows "eir_fields u s (map data_field q) e = Some (kept (plain_data q) (set_flags q e))"
  using assms
proof (induction q arbitrary: e)
  case (Cons a q)
  have q: "data_ok q" and a: "bd_type a \<notin> bd_type ` set q" "length (bd_data a) \<le> 29"
    "if bd_type a = BT_AD_FLAGS then length (bd_data a) \<le> 1 else bd_type a \<notin> set type_blacklist"
    using Cons.prems by (auto simp: data_ok_def)
  show ?case
  proof (cases "bd_type a = BT_AD_FLAGS")
    case True
    then have "length (bd_data a) \<le> 1" using a(3) by simp
    then consider "bd_data a = []" | x where "bd_data a = [x]" by (cases "bd_data a") auto
    then have "eir_field u s (fst (data_field a)) (snd (data_field a)) (of_nat (length (snd (data_field a)))) e =
        Some (set_flags [a] e)"
      by cases (simp_all add: data_field_def eir_field_def set_flags_def True buf_simps)
    moreover have "set_flags q (set_flags [a] e) = set_flags (a # q) e"
      using find_none_type [OF a(1)] True by (simp add: set_flags_def)
    ultimately show ?thesis using Cons.IH [OF q] True by (simp add: plain_data_def)
  next
    case False
    then have "eir_field u s (fst (data_field a)) (snd (data_field a)) (of_nat (length (snd (data_field a)))) e =
        Some (kept [data_field a] e)"
      using a blacklist_eir_types by (intro eir_field_kept) (auto simp: data_field_def)
    moreover have "set_flags q (kept [data_field a] e) = kept [data_field a] (set_flags (a # q) e)"
      using False by (simp add: set_flags_def kept_def split: option.split)
    ultimately show ?thesis using Cons.IH [OF q] False by (simp add: plain_data_def kept_simps)
  qed
qed (simp add: plain_data_def set_flags_def kept_simps)


lemma solicit_fields_seen:
  assumes "length (tlvs (solicit_fields q)) \<le> 31"
  shows "eir_fields u s (solicit_fields q) e = Some (kept (solicit_fields q) e)"
proof (intro eir_fields_kept ballI conjI)
  fix f assume f: "f \<in> set (solicit_fields q)"
  then show "fst f \<notin> set eir_types"
    by (auto simp: solicit_fields_def uuid_type_field_bytes eir_types_def split: if_splits)
  obtain xs ys where "solicit_fields q = xs @ f # ys" using f by (meson split_list)
  then show "length (snd f) \<le> 254" using assms by simp
qed

definition set_name :: "(u8 list \<Rightarrow> bool) \<Rightarrow> (u8 list \<Rightarrow> u8 list) \<Rightarrow> u8 list option \<Rightarrow> nat \<Rightarrow> eir_data \<Rightarrow> eir_data" where
  "set_name u s name room e =
     (case name of
        None \<Rightarrow> e
      | Some v \<Rightarrow> e\<lparr>ed_name := Some (shown_name u s (take room v)), ed_name_complete := (length v \<le> room)\<rparr>)"

lemma name_field_seen:
  assumes "\<forall>v. name = Some v \<longrightarrow> 0 \<notin> set v"
  shows "eir_fields u s (name_field name pos) e = Some (set_name u s name (29 - pos) e)"
proof (cases name)
  case (Some v)
  then have z: "0 \<notin> set v" "0 \<notin> set (take (29 - pos) v)" using assms by (auto dest: in_set_takeD)
  show ?thesis
    using eir_name_text [OF z(1), of u s EIR_NAME_COMPLETE e] eir_name_text [OF z(2), of u s EIR_NAME_SHORT e]
    by (auto simp: name_field_def set_name_def Some eir_field_def)
qed (simp add: name_field_def set_name_def)

definition set_appearance :: "u16 \<Rightarrow> eir_data \<Rightarrow> eir_data" where
  "set_appearance v e = (if v = UINT16_MAX then e else e\<lparr>ed_appearance := v\<rparr>)"

lemma appearance_seen:
  "eir_fields u s (if v = UINT16_MAX then [] else [(BT_AD_GAP_APPEARANCE, le16_bytes v)]) e = Some (set_appearance v e)"
proof -
  have "le16_at (le16_bytes v) 0 = Some v" using le16_at_bytes [of v "[]"] by simp
  then show ?thesis by (simp add: set_appearance_def eir_field_def)
qed

lemma ad_fields_seen:
  assumes "ad_ok ad" and "\<forall>v. ba_name ad = Some v \<longrightarrow> 0 \<notin> set v" and "length (tlvs (ad_fields ad)) \<le> 31"
  shows "eir_fields u s (ad_fields ad) e =
    Some (kept (plain_data (ba_data ad)) (set_flags (ba_data ad) (set_appearance (ba_appearance ad)
      (set_name u s (ba_name ad) (29 - length (tlvs (ad_before ad)))
        ((kept (solicit_fields (ba_solicit_uuids ad)) (add_services (map uuid_text (of_type 16 (ba_service_uuids ad) @
            of_type 32 (ba_service_uuids ad) @ of_type 128 (ba_service_uuids ad))) e))
         \<lparr>ed_msd_list := ed_msd_list e @ map (\<lambda>m. \<lparr>msd_company = bm_id m, msd_data = bm_data m\<rparr>) (ba_manufacturer_data ad),
          ed_sd_list := ed_sd_list e @ map (\<lambda>d. \<lparr>sd_uuid = uuid_text (bs_uuid d), sd_data = bs_data d\<rparr>) (ba_service_data ad)\<rparr>)))))"
proof -
  have ok: "\<forall>x\<in>set (ba_service_uuids ad). typed x" "\<forall>m\<in>set (ba_manufacturer_data ad). length (bm_data m) \<le> 27"
    "\<forall>d\<in>set (ba_service_data ad). typed (bs_uuid d) \<and> length (bs_data d) \<le> 27" "data_ok (ba_data ad)"
    using assms(1) by (simp_all add: ad_ok_parts manuf_ok_def sdata_ok_def)
  have len: "length (tlvs (service_fields (ba_service_uuids ad))) \<le> 31" "length (tlvs (solicit_fields (ba_solicit_uuids ad))) \<le> 31"
    using assms(3) by (simp_all add: ad_fields_def ad_before_def)
  show ?thesis
    unfolding ad_fields_def ad_after_def eir_fields_append
    by (subst (1) ad_before_def)
      (simp add: eir_fields_append service_fields_seen [OF ok(1) len(1)] solicit_fields_seen [OF len(2)]
        manuf_fields_seen [OF ok(2)] service_data_fields_seen [OF ok(3)] name_field_seen [OF assms(2)]
        appearance_seen data_fields_seen [OF ok(4)] kept_def add_services_def)
qed

text \<open>
  C21: Whatever a client did to an advertising object, the receiver of a packet made from it reads with the parser of
  the daemon exactly what the object holds: the UUIDs by size, the manufacturer data, the service data, the name cut
  to the room and marked so, the appearance, the flags, and the solicited UUIDs and other data as raw fields.
\<close>

theorem ad_peer_reads:
  assumes "ad_run ad" and "bt_ad_generate (Some ad) = Some (Some n, Some p)"
    and "\<forall>v. ba_name ad = Some v \<longrightarrow> 0 \<notin> set v"
  shows "n = length p \<and> n \<le> 31 \<and> (\<exists>e. eir_parse utf8 strip eir (Some p) (of_nat n) = Some e \<and>
    ed_services e = ed_services eir @ map uuid_text (of_type 16 (ba_service_uuids ad) @
        of_type 32 (ba_service_uuids ad) @ of_type 128 (ba_service_uuids ad)) \<and>
    ed_msd_list e = ed_msd_list eir @ map (\<lambda>m. \<lparr>msd_company = bm_id m, msd_data = bm_data m\<rparr>) (ba_manufacturer_data ad) \<and>
    ed_sd_list e = ed_sd_list eir @ map (\<lambda>d. \<lparr>sd_uuid = uuid_text (bs_uuid d), sd_data = bs_data d\<rparr>) (ba_service_data ad) \<and>
    (case ba_name ad of
       None \<Rightarrow> ed_name e = ed_name eir
     | Some v \<Rightarrow> let room = 29 - length (tlvs (ad_before ad))
                in ed_name e = Some (shown_name utf8 strip (take room v)) \<and> ed_name_complete e = (length v \<le> room)) \<and>
    ed_appearance e = (if ba_appearance ad = UINT16_MAX then ed_appearance eir else ba_appearance ad) \<and>
    ed_flags e = (case find (\<lambda>a. bd_type a = BT_AD_FLAGS \<and> bd_data a \<noteq> []) (ba_data ad) of
        None \<Rightarrow> 0 | Some a \<Rightarrow> ucast (hd (bd_data a))) \<and>
    ed_data_list e = ed_data_list eir @ map (\<lambda>f. \<lparr>ad_type = fst f, ad_data = snd f\<rparr>)
        (solicit_fields (ba_solicit_uuids ad) @ plain_data (ba_data ad)))"
proof -
  have ok: "ad_ok ad" by (rule ad_run_ok [OF assms(1)])
  then have typed: "ad_typed ad" by (simp add: ad_ok_def)
  have p: "n = length (tlvs (ad_fields ad))" "p = tlvs (ad_fields ad)" "calculate_length ad \<le> 31"
    "ba_name ad = None \<or> length (tlvs (ad_before ad)) < 30"
    using assms(2) unfolding generate_fields [OF typed] by (auto simp: Let_def split: if_splits)
  have "length (tlvs (ad_fields ad)) = calculate_length ad" by (rule fields_length [OF typed p(4)])
  with p have n: "n \<le> 31" by simp
  have "length (snd f) \<le> 254" if "f \<in> set (ad_fields ad)" for f
  proof -
    from that obtain xs ys where "ad_fields ad = xs @ f # ys" by (meson split_list)
    then show ?thesis using n p(1) by simp
  qed
  moreover have "unat (of_nat n :: u8) = n" using n by (intro unat_of_nat_small) simp
  ultimately have parse: "eir_parse utf8 strip eir (Some p) (of_nat n) = eir_fields utf8 strip (ad_fields ad) (eir_init eir)"
    using eir_parse_tlvs [of "ad_fields ad" "of_nat n" utf8 strip eir "[]"] p by simp
  show ?thesis
    using n p(1,2) unfolding parse ad_fields_seen [OF ok assms(3) n [unfolded p(1)]]
    by (simp add: kept_def set_flags_def set_appearance_def set_name_def add_services_def eir_init_def Let_def split: option.split)
qed


theorem ad_peer_reads_witness:
  "\<forall>eir. \<exists>e. eir_parse (\<lambda>_. True) id eir (Some [3, 3, 0x0F, 0x18, 2, 1, 6]) 7 = Some e \<and>
     ed_services e = ed_services eir @ [uuid_text (UUID16 0x180F)] \<and> ed_flags e = 6"
proof -
  let ?ad = "\<lparr>ba_ref_count = 1, ba_name = None, ba_appearance = UINT16_MAX, ba_service_uuids = [UUID16 0x180F],
     ba_manufacturer_data = [], ba_solicit_uuids = [], ba_service_data = [], ba_data = [\<lparr>bd_type = 1, bd_data = [6]\<rparr>]\<rparr>"
  obtain ad0 where new: "bt_ad_new = Some ad0" by (simp add: bt_ad_new_def)
  have "bt_ad_add_service_uuid (Some ad0) (UUID16 0x180F) = Some (True, Some (?ad\<lparr>ba_data := []\<rparr>))"
    using new by (auto simp: bt_ad_new_def bt_ad_add_service_uuid_def queue_add_uuid_def)
  then have "ad_run (?ad\<lparr>ba_data := []\<rparr>)"
    by (rule ad_run.add_service_uuid [OF ad_run.new [OF new], rotated]) (simp add: typed_def)
  moreover have "bt_ad_add_flags (Some (?ad\<lparr>ba_data := []\<rparr>)) [6] 1 = Some (True, Some ?ad)"
    by (simp add: bt_ad_add_flags_def ad_replace_data_def buf_get_def buf_read_def)
  ultimately have run: "ad_run ?ad" by (rule ad_run.add_flags)
  moreover have "bt_ad_generate (Some ?ad) = Some (Some 7, Some [3, 3, 0x0F, 0x18, 2, 1, 6])"
    using generate_fields [of ?ad]
    by (simp add: ad_typed_def typed_def ad_fields_def ad_before_def ad_after_def name_field_def service_fields_def
      solicit_fields_def uuid_type_field_def uuid_bytes_def data_field_def tlv_def le16_bytes_def calculate_length_def
      uuid_list_length_def mfg_data_length_def uuid_data_length_def name_length_def data_length_def MAX_ADV_DATA_LEN_def Let_def)
  ultimately show ?thesis using ad_peer_reads [of ?ad 7 "[3, 3, 0x0F, 0x18, 2, 1, 6]" "\<lambda>_. True" id]
    by (fastforce simp: of_type_def)
qed

section \<open>Operations that do not do what they are for\<close>

text \<open>Removing a UUID takes out the first one that differs from it.\<close>

lemma ad_remove_uuid_other:
  "bt_ad_remove_service_uuid (Some (ad\<lparr>ba_service_uuids := [UUID16 0x180F, UUID16 0x180A]\<rparr>)) (Some (UUID16 0x180F)) =
     Some (True, Some (ad\<lparr>ba_service_uuids := [UUID16 0x180F]\<rparr>))"
  by (simp add: bt_ad_remove_service_uuid_def queue_remove_uuid_def queue_remove_if_def uuid_match_def bt_uuid_cmp_def
      bt_uuid16_to_uuid128_def u128_put_def bluetooth_base_uuid_def be16_bytes_def)

text \<open>Removing manufacturer data follows the identifier as a pointer unless there is none.\<close>

lemma ad_remove_manufacturer_data_crash:
  "ba_manufacturer_data ad \<noteq> [] \<Longrightarrow> bt_ad_remove_manufacturer_data (Some ad) i = None"
  by (cases "ba_manufacturer_data ad") (simp_all add: bt_ad_remove_manufacturer_data_def queue_remove_if_def manuf_match_def)

text \<open>Service data for the short form of a UUID that is there in its long form: the entry alone is over 31 bytes.\<close>

lemma ad_service_data_too_long:
  assumes "length d = 27" and "w = UUID128 (u128_put bluetooth_base_uuid 2 (be16_bytes v))"
  shows "bt_ad_add_service_data (Some (ad\<lparr>ba_service_data := [\<lparr>bs_uuid = w, bs_data = []\<rparr>]\<rparr>)) (UUID16 v) d 27 =
     Some (True, Some (ad\<lparr>ba_service_data := [\<lparr>bs_uuid = w, bs_data = d\<rparr>]\<rparr>)) \<and>
     length (tlv (service_data_field \<lparr>bs_uuid = w, bs_data = d\<rparr>)) = 45"
  using assms
  by (simp add: bt_ad_add_service_data_def MAX_ADV_DATA_LEN_def service_uuid_match_def bt_uuid_cmp_def
      bt_uuid16_to_uuid128_def buf_read_def service_data_field_def uuid_bytes_def bswap_128_def)

end
