(* ===== verification/Spec2Isabelle.thy ===== *)
theory Spec2Isabelle
  imports DCComm Shared_Queue Shared_Ringbuf Shared_Crypto Bt_Uuid Att_Base Att_Value Att_List
    Obex_Apparam Item_Stream Obex_Header Obex_Packet Shared_Att Att_Contract Att_Transport
    Att_Behaviour Shared_Ecc Ecc_Arith Ecc_Field Ecc_Inverse Ecc_Keys Ecc_Sample Ecc_Make_Key Gatt_Db Gatt_Attr Gatt_Access
    Gatt_Shape Gatt_Invariant Gatt_Ledger Gatt_Run Gatt_Search Gatt_Declare Uuid_Helper Eir
    Eir_Fields Eir_Oob Shared_Ad Ad_Packet Ad_Peer
begin

text \<open>
  A verification library for the C code of the LineProgram repository: the serial frame parser of
  \<open>Parser/\<close>, which is the repository's own program, and, of the BlueZ 5.50 tree it carries in
  \<open>source/bluez-5.50/\<close> (paths below are relative to that directory), the self-contained code that
  the Bluetooth daemon, the GATT library and the OBEX library are built on.

  \<^bold>\<open>Theories.\<close>

  \<^item> \<open>Blue_Prelude\<close>: C integers as words, \<open>size_t\<close> arithmetic, checked byte buffers, byte
    orders, and their lemmas (\<open>buf_simps\<close>, \<open>byte_order\<close>).
  \<^item> \<open>Fifo_Interface\<close>: the locale \<open>fifo\<close>, the contract of a first-in-first-out store
    (what a push appends, what a pop takes from the front), interpreted by the queue and the ring buffer.
  \<^item> \<open>DCComm\<close>: \<open>Parser/ChrisHost_DCComm.c\<close>. The record \<open>dccomm\<close> is the global
    \<open>DCComm\<close>; \<open>DCComm_Recv_MSG_Parser\<close> is one byte through the state machine,
    \<open>DCComm_Chk_CSum\<close> and \<open>DCComm_Recv_State_Control\<close> check and dispatch a frame,
    \<open>dc_main\<close> is the program. The lemmas show what a whole frame does, the invariant of the
    buffer, and the inputs on which the program leaves its buffer.
  \<^item> \<open>Shared_Queue\<close>: \<open>src/shared/queue.c\<close> on an explicit heap of list cells (a map from
    addresses), so that \<open>head\<close>, \<open>tail\<close> and \<open>next\<close> are pointers as in the code;
    \<open>queue_rep\<close> relates a queue to the list of its data. Loops over the cells are partial functions,
    and the lemmas prove that they return.
  \<^item> \<open>Shared_Ringbuf\<close>: \<open>src/shared/ringbuf.c\<close> with 64 bit indices that run on and are
    reduced to the power of two size; \<open>ring_rep\<close> relates a ring buffer to its contents.
  \<^item> \<open>Bt_Uuid\<close>: \<open>lib/uuid.c\<close>, the three sizes of UUID, their comparison, their text and
    their stored form, with the conversions of the C library the file calls.
  \<^item> \<open>Shared_Crypto\<close>: \<open>src/shared/crypto.c\<close>; the AES and CMAC sockets of the kernel are the
    parameter \<open>kernel\<close>.
  \<^item> \<open>Att_Base\<close>, \<open>Att_Value\<close>, \<open>Att_List\<close>: \<open>attrib/att.c\<close>, every encoder and
    decoder of the attribute protocol. The locales \<open>value_pdu\<close> and \<open>entry_list\<close> hold the
    contract of the PDUs that end in a value and of those that carry a list, and are interpreted by the
    functions of the code.
  \<^item> \<open>Obex_Apparam\<close>: \<open>gobex/gobex-apparam.c\<close>, the tag table, its codec and its typed
    accessors (locale \<open>tag_accessors\<close>).
  \<^item> \<open>Item_Stream\<close>: the loop that takes items of their own length off a buffer, and the contract
    of its item decoder, the locale \<open>item_codec\<close>: totality, round trip and invariants of the loop.
  \<^item> \<open>Obex_Header\<close>, \<open>Obex_Packet\<close>: \<open>gobex/gobex-header.c\<close> and
    \<open>gobex/gobex-packet.c\<close>, headers and packets with their codecs; the header decoder interprets
    \<open>item_codec\<close> (\<open>obex_headers\<close>), and the packet decoder is its loop. The lemmas give the
    round trips of headers, of typed values, of application parameters and of whole packets, and that
    decoding any bytes stays inside them.
  \<^item> \<open>Shared_Att\<close>: \<open>src/shared/att.c\<close>, the attribute protocol transport over a socket:
    the queues of operations, the pending request and indication, dispatch to handlers, timeouts,
    security and disconnection. What a callback does is an argument (\<open>react\<close> of \<open>env\<close>), and
    the record \<open>att_sys\<close> adds a log of callbacks and I/O to the struct. \<open>att_step\<close> is the
    step relation of interface calls and main loop events.
  \<^item> \<open>Att_Contract\<close>, \<open>Att_Transport\<close>, \<open>Att_Behaviour\<close>: its proofs. The first states
    what a callback may do (\<open>att_keeps\<close>, \<open>balance\<close>, \<open>client_ok\<close>) and shows that every
    operation of the interface guarantees the same, the second shows that every event keeps the
    invariant \<open>att_inv\<close>, and the third draws the properties: no lost wakeup, one request at a time,
    the answer a callback is given, an orderly end of the link, each destroy function run exactly once.

  \<^item> \<open>Shared_Ecc\<close>: \<open>src/shared/ecc.c\<close>, the P-256 curve: numbers are lists of 64 bit
    digits, with the digit loops, products, reduction, inversion, point operations and keys of the code.
  \<^item> \<open>Ecc_Arith\<close>, \<open>Ecc_Field\<close>, \<open>Ecc_Inverse\<close>, \<open>Ecc_Keys\<close>: its
    proofs, from the value of digit lists (\<open>vli_val\<close>) up. Sums, shifts, comparison and the fast
    reduction are exact, the inversion ends and is right; products are exact but for the carries their
    accumulator misses (\<open>mult_loss\<close>), which makes the test of a point wrong for crafted points.
    Operations on points and keys are proved to end with a result (\<open>ends_with\<close>); that the ladder
    computes a multiple on the curve is not proved, since every product in it may lose a carry.
    \<open>Ecc_Sample\<close> computes one point multiplication on the values of the numbers, with a check that no
    carry is lost, and \<open>Ecc_Make_Key\<close> says which key pairs \<open>ecc_make_key\<close> answers, with that one,
    and that the private key 1 gets the public key of 3.

  \<^item> \<open>Gatt_Db\<close>, \<open>Gatt_Attr\<close>, \<open>Gatt_Access\<close>: \<open>src/shared/gatt-db.c\<close>, the database
    of a GATT server. \<open>gatt_db\<close> is the struct with its services, clients and the log of what it calls;
    an attribute pointer is the address of its service with its index. The first has the data, the
    services and the clients, the second the insertion of attributes, the third the searches, reads and writes.
  \<^item> \<open>Gatt_Shape\<close>, \<open>Gatt_Invariant\<close>, \<open>Gatt_Ledger\<close>, \<open>Gatt_Run\<close>,
    \<open>Gatt_Search\<close>, \<open>Gatt_Declare\<close>: its proofs. \<open>svc_ok\<close> is the shape of one service,
    \<open>gdb_ok\<close> the order of the services, \<open>db_account\<close> the account of the reads, a multiset of
    their callbacks, attributes and user data (a timeout finds its read by the identifier, where the code holds
    the pointer: the same until the 32 bit identifiers repeat); \<open>gatt_run\<close> is the step relation of all operations under clients that insert where there is room, and keeps both.
    The searches are shown to be exact, and what is inserted or written to be what is read back. Where
    the code breaks this promise (a service around another, clearing, a write behind the end) is proved too.

  \<^item> \<open>Uuid_Helper\<close>: \<open>src/uuid-helper.c\<close> with the \<open>uuid_t\<close> of \<open>lib/sdp.c\<close>, the UUIDs of service
    records, their text and the names of services.
  \<^item> \<open>Eir\<close>: \<open>src/eir.c\<close>, the parser of the fields a remote device sends (\<open>eir_data\<close> is the struct
    it fills) and the writer of out-of-band blocks. \<open>Eir_Fields\<close> has the format as a list of fields
    (\<open>tlvs\<close>, \<open>ad_split\<close>) and shows that the parser handles exactly these and stays inside the bytes,
    \<open>Eir_Oob\<close> the bounds and the round trip of the out-of-band block.
  \<^item> \<open>Shared_Ad\<close>: \<open>src/shared/ad.c\<close>, advertising data under construction: the object \<open>bt_ad\<close> with
    its queues, their operations and the serialisers. \<open>Ad_Packet\<close> shows which fields the packet consists
    of and when it is made, \<open>Ad_Peer\<close> the invariant of every object that the operations make
    (\<open>ad_run\<close>, \<open>ad_ok\<close>) and what \<open>eir_parse\<close> reads from its packet.

  \<^bold>\<open>Conventions.\<close> The outer \<^const>\<open>None\<close> of an operation is behaviour the C standard does
  not define (an access outside an object, a NULL dereference, a read of a value that was never set); an
  inner option is a NULL pointer or a failure the code reports. A pointer argument that the code tests
  for NULL is an option. An object the code updates through a pointer is returned updated. Callbacks,
  system calls and the functions of GLib are arguments of the definitions that use them. No model has a
  fuel bound: loops are structural, have a measure, or are partial functions whose result is proved to
  exist.

  \<^bold>\<open>Composition.\<close> The GATT database stores and compares UUIDs with \<open>lib/uuid.c\<close>. The ATT codec stores UUIDs with \<open>lib/uuid.c\<close> and signs with
  \<open>src/shared/crypto.c\<close>; this theory states the properties that span these components. The packets of
  \<open>src/shared/ad.c\<close> are read by \<open>src/eir.c\<close>, with the texts of UUIDs of \<open>src/uuid-helper.c\<close>
  (\<open>Ad_Peer\<close>).

  \<^bold>\<open>Not modelled.\<close> Memory that cannot be allocated (GLib and the helpers of BlueZ abort), the
  texts that are printed, functions that only release memory, the main loops, D-Bus, sockets and the
  programs that only connect them, and the parts of BlueZ the manifest lists as not modelled.
\<close>

section \<open>Stored UUIDs\<close>

lemma get_uuid_bswap:
  "length (u128_data t) = 16 \<Longrightarrow>
   get_uuid False (p @ bswap_128 t @ r) (length p) = Some (UUID128 t)"
  using get_uuid_at [of "UUID128 t" "length p" p r] by (simp add: att_uuid_def is16_def)

lemma uuid_cmp_expand:
  "bt_uuid_to_uuid128 u None = Some (UUID128 t) \<Longrightarrow> bt_uuid_cmp u (UUID128 t) = Some 0"
  by (simp add: bt_uuid_cmp_def)

text \<open>
  C40: What \<open>bt_uuid_to_le\<close> stores of a UUID of any size, the ATT decoders read back with
  \<open>get_uuid\<close> as a UUID that \<open>bt_uuid_cmp\<close> finds equal: two bytes as the 16 bit UUID, 16
  bytes as the 128 bit one (a 32 bit UUID is stored expanded).
\<close>

theorem uuid_stored_roundtrip:
  assumes "uuid_wf u" and "u \<noteq> UNSPEC"
  shows "\<exists>d v. bt_uuid_to_le u = (0, d) \<and> length d \<in> {2, 16} \<and>
     get_uuid (length d = 2) (p @ d @ r) (length p) = Some v \<and> bt_uuid_cmp u v = Some 0"
proof (cases u)
  case (UUID16 x)
  have "get_uuid True (p @ le16_bytes x @ r) (length p) = Some u"
    using get_uuid_at [of u "length p" p r] UUID16 by (simp add: att_uuid_def is16_def)
  moreover have "bt_uuid_cmp u u = Some 0" using uuid_cmp_sizes [of x x] UUID16 by simp
  ultimately show ?thesis using UUID16 le16_bytes_length [of x] by auto
next
  case (UUID32 x)
  obtain t where t: "bt_uuid32_to_uuid128 x = UUID128 t" "length (u128_data t) = 16"
    using to_uuid128_wf [OF assms] UUID32 by auto
  then show ?thesis using UUID32 get_uuid_bswap [OF t(2), of p r] uuid_cmp_expand [of u t] by simp
next
  case (UUID128 t)
  then show ?thesis using assms(1) get_uuid_bswap [of t p r] uuid_cmp_expand [of u t] by simp
qed (use assms in simp)

theorem uuid_stored_roundtrip_witness:
  "\<exists>d v. bt_uuid_to_le (UUID32 0x1234) = (0, d) \<and> length d \<in> {2, 16} \<and>
     get_uuid (length d = 2) ([9] @ d @ [7]) (length [9 :: u8]) = Some v \<and>
     bt_uuid_cmp (UUID32 0x1234) v = Some 0"
  by (rule uuid_stored_roundtrip) simp_all

end
